(* ===== verification/Base.thy ===== *)
theory Base
  imports Complex_Main "HOL-Library.Word" "HOL-Library.List_Lexorder"
    "HOL-Library.Char_ord"
begin

text \<open>
  The prelude of the development: UTF-16 strings (the code's \<^verbatim>\<open>QString\<close>) with the few
  string operations the program uses, the ordered map (\<^verbatim>\<open>std::map\<close>, \<^verbatim>\<open>QMap\<close>,
  \<^verbatim>\<open>QJsonObject\<close>) as a key-sorted association list behind the interface
  \<open>ordered_map\<close>, and the collections \<open>omap\<close> and \<open>code_defs\<close> of facts shared by
  the component theories.
\<close>

named_theorems omap \<open>lookup, size and invariant facts of ordered maps\<close>
named_theorems code_defs \<open>definitions the concrete runs unfold\<close>

section \<open>Strings of UTF-16 code units\<close>

type_synonym qchar = "16 word"
type_synonym qstring = "qchar list"
type_synonym byte = "8 word"
type_synonym u32 = "32 word"
type_synonym u64 = "64 word"

text \<open>ASCII literals: \<open>qs ''model''\<close> is \<^verbatim>\<open>QStringLiteral("model")\<close>.\<close>

definition qc :: "char \<Rightarrow> qchar" where
  "qc c = of_nat (of_char c)"

definition qs :: "string \<Rightarrow> qstring" where
  "qs s = map qc s"

lemma unat_qc: "unat (qc c) = of_char c"
proof -
  have "of_char c < (65536::nat)"
    by (rule less_trans [OF nat_of_char_less_256]) simp
  then show ?thesis by (simp add: qc_def unat_of_nat)
qed

lemma qc_inject [simp]: "qc c = qc d \<longleftrightarrow> c = d"
  by (metis unat_qc of_char_eq_iff)

lemma qs_inject [simp]: "qs s = qs t \<longleftrightarrow> s = t"
proof -
  have "inj qc" by (simp add: inj_def)
  then show ?thesis by (simp add: qs_def inj_map_eq_map)
qed

lemma qs_Nil_iff [simp]: "qs s = [] \<longleftrightarrow> s = []" "[] = qs s \<longleftrightarrow> s = []"
  by (simp_all add: qs_def)

lemma length_qs [simp]: "length (qs s) = length s"
  by (simp add: qs_def)

lemma qs_append: "qs (s @ t) = qs s @ qs t"
  by (simp add: qs_def)

lemma qc_less_iff: "qc a < qc b \<longleftrightarrow> a < b"
  by (simp add: word_less_nat_alt unat_qc less_char_def)

lemma qs_less_iff [simp]: "qs s < qs t \<longleftrightarrow> s < t"
proof (induction s arbitrary: t)
  case Nil
  then show ?case by (cases t) (simp_all add: qs_def)
next
  case (Cons c s)
  then show ?case
    by (cases t) (simp_all add: qs_def qc_less_iff)
qed

text \<open>
  \<^verbatim>\<open>QChar::isSpace\<close>: the ASCII white space, the next-line control, the no-break space
  and the Unicode separators, all of them below \<^verbatim>\<open>U+10000\<close>.
\<close>

definition is_space :: "qchar \<Rightarrow> bool" where
  "is_space c \<longleftrightarrow> (9 \<le> c \<and> c \<le> 13) \<or> c = 32 \<or> c = 0x85 \<or> c = 0xA0 \<or> c = 0x1680
     \<or> (0x2000 \<le> c \<and> c \<le> 0x200A) \<or> c = 0x2028 \<or> c = 0x2029 \<or> c = 0x202F
     \<or> c = 0x205F \<or> c = 0x3000"

definition trimmed :: "qstring \<Rightarrow> qstring" where
  "trimmed s = rev (dropWhile is_space (rev (dropWhile is_space s)))"

lemma trimmed_Nil [simp]: "trimmed [] = []"
  by (simp add: trimmed_def)

lemma trimmed_empty_iff: "trimmed s = [] \<longleftrightarrow> (\<forall>c \<in> set s. is_space c)"
proof (cases "dropWhile is_space s")
  case Nil
  then show ?thesis by (auto simp: trimmed_def dropWhile_eq_Nil_conv dest: set_dropWhileD)
next
  case (Cons c t)
  then have c: "\<not> is_space c" by (metis hd_dropWhile list.distinct(1) list.sel(1))
  have "c \<in> set s" using Cons by (metis list.set_intros(1) set_dropWhileD)
  with c Cons show ?thesis by (auto simp: trimmed_def dropWhile_eq_Nil_conv)
qed

lemma trimmed_nonempty: "c \<in> set s \<Longrightarrow> \<not> is_space c \<Longrightarrow> trimmed s \<noteq> []"
  by (auto simp: trimmed_empty_iff)

definition starts_with :: "qstring \<Rightarrow> qstring \<Rightarrow> bool" where
  "starts_with p s \<longleftrightarrow> take (length p) s = p"

definition ends_with :: "qstring \<Rightarrow> qstring \<Rightarrow> bool" where
  "ends_with p s \<longleftrightarrow> length p \<le> length s \<and> drop (length s - length p) s = p"

text \<open>\<^verbatim>\<open>QString::indexOf\<close>: the first position of \<open>p\<close> in \<open>s\<close>.\<close>

fun index_of :: "qstring \<Rightarrow> qstring \<Rightarrow> nat option" where
  "index_of p [] = (if p = [] then Some 0 else None)"
| "index_of p (c # s) =
     (if take (length p) (c # s) = p then Some 0 else map_option Suc (index_of p s))"

definition contains :: "qstring \<Rightarrow> qstring \<Rightarrow> bool" where
  "contains p s \<longleftrightarrow> index_of p s \<noteq> None"

text \<open>\<^verbatim>\<open>QString::split\<close> on one character: never the empty list.\<close>

fun split_on :: "qchar \<Rightarrow> qstring \<Rightarrow> qstring list" where
  "split_on d [] = [[]]"
| "split_on d (c # s) =
     (if c = d then [] # split_on d s
      else (case split_on d s of [] \<Rightarrow> [[c]] | w # ws \<Rightarrow> (c # w) # ws))"

text \<open>ASCII letter folding, enough for patterns that hold only ASCII characters.\<close>

definition lower_char :: "qchar \<Rightarrow> qchar" where
  "lower_char c = (if 65 \<le> c \<and> c \<le> 90 then c + 32 else c)"

definition to_lower :: "qstring \<Rightarrow> qstring" where
  "to_lower s = map lower_char s"

lemma starts_with_qs [simp]: "starts_with (qs p) (qs s) \<longleftrightarrow> take (length p) s = p"
  by (simp add: starts_with_def qs_def take_map) (metis qs_def qs_inject)

lemma ends_with_qs [simp]:
  "ends_with (qs p) (qs s) \<longleftrightarrow> length p \<le> length s \<and> drop (length s - length p) s = p"
  by (simp add: ends_with_def qs_def drop_map) (metis qs_def qs_inject)

text \<open>Decimal digits: reading them, and \<^verbatim>\<open>QString::number\<close> of a natural number.\<close>

definition is_digit :: "qchar \<Rightarrow> bool" where
  "is_digit c \<longleftrightarrow> 48 \<le> c \<and> c \<le> 57"

fun digits_value :: "nat \<Rightarrow> qstring \<Rightarrow> nat" where
  "digits_value acc [] = acc"
| "digits_value acc (c # s) = digits_value (10 * acc + (unat c - 48)) s"

fun decimal :: "nat \<Rightarrow> qstring" where
  "decimal n = (if n < 10 then [of_nat (48 + n)] else decimal (n div 10) @ [of_nat (48 + n mod 10)])"

declare decimal.simps [simp del]

text \<open>
  \<^verbatim>\<open>$\<close> in a Perl-compatible pattern also matches before one final newline, so a subject
  matches when it, or it without that newline, does.
\<close>

definition before_dollar :: "qstring \<Rightarrow> qstring" where
  "before_dollar s = (if s \<noteq> [] \<and> last s = 10 then butlast s else s)"

lemma lower_char_idem [simp]: "lower_char (lower_char c) = lower_char c"
proof (cases "65 \<le> c \<and> c \<le> 90")
  case True
  then have u: "65 \<le> unat c" "unat c \<le> 90" by (simp_all add: word_le_nat_alt)
  then have "unat (c + 32) = unat c + 32" by (simp add: unat_word_ariths)
  then have "\<not> c + 32 \<le> 90" using u by (simp add: word_le_nat_alt)
  then show ?thesis using True by (simp add: lower_char_def)
next
  case False
  then show ?thesis by (auto simp: lower_char_def)
qed

lemma to_lower_idem [simp]: "to_lower (to_lower s) = to_lower s"
  by (simp add: to_lower_def)

lemma length_to_lower [simp]: "length (to_lower s) = length s"
  by (simp add: to_lower_def)

lemma index_of_Some:
  "index_of p s = Some n \<Longrightarrow> n + length p \<le> length s \<and> take (length p) (drop n s) = p"
proof (induction s arbitrary: n)
  case Nil
  then show ?case by (simp split: if_splits)
next
  case (Cons c s)
  show ?case
  proof (cases "take (length p) (c # s) = p")
    case True
    with Cons.prems have "n = 0" by simp
    moreover have "length p \<le> length (c # s)"
      using True by (metis length_take min.cobounded1)
    ultimately show ?thesis using True by simp
  next
    case False
    with Cons.prems obtain m where "index_of p s = Some m" "n = Suc m" by auto
    with Cons.IH show ?thesis by simp
  qed
qed

lemma index_of_least:
  "index_of p s = Some n \<Longrightarrow> m < n \<Longrightarrow> take (length p) (drop m s) \<noteq> p"
proof (induction s arbitrary: n m)
  case Nil
  then show ?case by (simp split: if_splits)
next
  case (Cons c s)
  from Cons.prems obtain k where k: "index_of p s = Some k" "n = Suc k"
    and ne: "take (length p) (c # s) \<noteq> p"
    by (auto split: if_splits)
  show ?case
  proof (cases m)
    case 0
    with ne show ?thesis by simp
  next
    case (Suc j)
    with Cons.prems k Cons.IH [of k j] show ?thesis by simp
  qed
qed

lemma index_of_None:
  "index_of p s = None \<Longrightarrow> n + length p \<le> length s \<Longrightarrow> take (length p) (drop n s) \<noteq> p"
proof (induction s arbitrary: n)
  case Nil
  then show ?case by (simp split: if_splits)
next
  case (Cons c s)
  then show ?case
    by (cases n) (auto split: if_splits)
qed

section \<open>Ordered maps\<close>

text \<open>
  The interface the components use of \<^verbatim>\<open>std::map\<close>: lookup, insertion or replacement,
  erasure and iteration. \<open>items\<close> is the sequence a range-for loop visits.
\<close>

locale ordered_map =
  fixes wf :: "'m \<Rightarrow> bool"
    and get :: "'m \<Rightarrow> 'k \<Rightarrow> 'v option"
    and put :: "'k \<Rightarrow> 'v \<Rightarrow> 'm \<Rightarrow> 'm"
    and del :: "'k \<Rightarrow> 'm \<Rightarrow> 'm"
    and items :: "'m \<Rightarrow> ('k \<times> 'v) list"
  assumes get_put: "get (put k v m) = (get m)(k \<mapsto> v)"
    and get_del: "get (del k m) = (get m)(k := None)"
    and wf_put: "wf m \<Longrightarrow> wf (put k v m)"
    and wf_del: "wf m \<Longrightarrow> wf (del k m)"
    and get_items: "wf m \<Longrightarrow> get m = map_of (items m)"
    and distinct_items: "wf m \<Longrightarrow> distinct (map fst (items m))"
begin

lemma mem_items: "wf m \<Longrightarrow> (k, v) \<in> set (items m) \<longleftrightarrow> get m k = Some v"
  by (simp add: get_items distinct_items)

lemma set_items: "wf m \<Longrightarrow> set (items m) = {(k, v). get m k = Some v}"
  by (auto simp: mem_items)

lemma distinct_pairs: "wf m \<Longrightarrow> distinct (items m)"
  using distinct_items distinct_map by blast

lemma total_items:
  assumes "wf m"
  shows "(\<Sum>p\<leftarrow>items m. f p) = sum f {(k, v). get m k = Some v}"
  using assms by (simp add: sum_list_distinct_conv_sum_set distinct_pairs set_items)

lemma finite_graph: "wf m \<Longrightarrow> finite {(k, v). get m k = Some v}"
  using set_items [of m] by (metis List.finite_set)

lemma items_put_fresh:
  assumes "wf m" and "get m k = None"
  shows "set (items (put k v m)) = insert (k, v) (set (items m))"
  using assms by (auto simp: set_items wf_put get_put split: if_splits)

lemma items_del:
  assumes "wf m" and "get m k = Some v"
  shows "set (items m) = insert (k, v) (set (items (del k m)))"
  using assms by (auto simp: set_items wf_del get_del split: if_splits)

lemma total_put_fresh:
  fixes f :: "'k \<times> 'v \<Rightarrow> 'n::comm_monoid_add"
  assumes "wf m" and "get m k = None"
  shows "(\<Sum>p\<leftarrow>items (put k v m). f p) = f (k, v) + (\<Sum>p\<leftarrow>items m. f p)"
proof -
  have "(k, v) \<notin> set (items m)" using assms by (simp add: mem_items)
  then show ?thesis
    using assms by (simp add: sum_list_distinct_conv_sum_set distinct_pairs wf_put items_put_fresh)
qed

lemma total_del:
  fixes f :: "'k \<times> 'v \<Rightarrow> 'n::comm_monoid_add"
  assumes "wf m" and "get m k = Some v"
  shows "(\<Sum>p\<leftarrow>items m. f p) = f (k, v) + (\<Sum>p\<leftarrow>items (del k m). f p)"
proof -
  have "(k, v) \<notin> set (items (del k m))"
    using assms by (simp add: mem_items wf_del get_del)
  then show ?thesis
    using assms items_del [OF assms]
    by (simp add: sum_list_distinct_conv_sum_set distinct_pairs wf_del)
qed

lemma total_put_old:
  fixes f :: "'k \<times> 'v \<Rightarrow> 'n::ab_group_add"
  assumes "wf m" and "get m k = Some u"
  shows "(\<Sum>p\<leftarrow>items (put k v m). f p) = f (k, v) - f (k, u) + (\<Sum>p\<leftarrow>items m. f p)"
proof -
  have eq: "(\<Sum>p\<leftarrow>items (del k (put k v m)). f p) = (\<Sum>p\<leftarrow>items (del k m). f p)"
    using assms(1) by (simp add: total_items wf_put wf_del get_put get_del)
  have "(\<Sum>p\<leftarrow>items (put k v m). f p) = f (k, v) + (\<Sum>p\<leftarrow>items (del k (put k v m)). f p)"
    using assms(1) by (intro total_del) (simp_all add: wf_put get_put)
  with eq total_del [OF assms, of f] show ?thesis by simp
qed

lemma length_total: "length (items m) = (\<Sum>p\<leftarrow>items m. 1)"
  by (simp add: sum_list_triv)

lemma length_put_fresh:
  "wf m \<Longrightarrow> get m k = None \<Longrightarrow> length (items (put k v m)) = Suc (length (items m))"
  using total_put_fresh [of m k "\<lambda>_. 1::nat" v] by (simp add: sum_list_triv)

lemma length_del:
  "wf m \<Longrightarrow> get m k = Some v \<Longrightarrow> length (items m) = Suc (length (items (del k m)))"
  using total_del [of m k v "\<lambda>_. 1::nat"] by (simp add: sum_list_triv)

lemma length_put_old:
  "wf m \<Longrightarrow> get m k = Some u \<Longrightarrow> length (items (put k v m)) = length (items m)"
  using total_put_old [of m k u "\<lambda>_. 1::int" v] by (simp add: sum_list_triv)

lemma del_fresh:
  "wf m \<Longrightarrow> get m k = None \<Longrightarrow> length (items (del k m)) = length (items m)"
  using total_items [of "del k m" "\<lambda>_. 1::nat"] total_items [of m "\<lambda>_. 1::nat"]
  by (simp add: get_del wf_del sum_list_triv fun_upd_idem)

lemma empty_items: "wf m \<Longrightarrow> items m = [] \<longleftrightarrow> get m = Map.empty"
  by (simp add: get_items)

end

text \<open>The model of \<^verbatim>\<open>std::map\<close>: an association list sorted by key.\<close>

type_synonym ('k, 'v) omap = "('k \<times> 'v) list"

definition owf :: "('k::linorder, 'v) omap \<Rightarrow> bool" where
  "owf m \<longleftrightarrow> sorted_wrt (<) (map fst m)"

fun oput :: "'k::linorder \<Rightarrow> 'v \<Rightarrow> ('k, 'v) omap \<Rightarrow> ('k, 'v) omap" where
  "oput k v [] = [(k, v)]"
| "oput k v (p # m) =
     (if fst p < k then p # oput k v m
      else if fst p = k then (k, v) # m
      else (k, v) # p # m)"

definition odel :: "'k \<Rightarrow> ('k, 'v) omap \<Rightarrow> ('k, 'v) omap" where
  "odel k m = filter (\<lambda>p. fst p \<noteq> k) m"

abbreviation okeys :: "('k, 'v) omap \<Rightarrow> 'k list" where
  "okeys m \<equiv> map fst m"

definition ohas :: "('k, 'v) omap \<Rightarrow> 'k \<Rightarrow> bool" where
  "ohas m k \<longleftrightarrow> map_of m k \<noteq> None"

lemma owf_Nil [simp]: "owf []"
  by (simp add: owf_def)

lemma owf_ConsD: "owf (p # m) \<Longrightarrow> owf m"
  by (simp add: owf_def)

lemma map_of_oput [simp, omap]: "map_of (oput k v m) = (map_of m)(k \<mapsto> v)"
  by (induction m) (auto simp: fun_eq_iff)

lemma map_of_odel [simp, omap]: "map_of (odel k m) = (map_of m)(k := None)"
  by (induction m) (auto simp: odel_def fun_eq_iff)

lemma okeys_oput: "set (okeys (oput k v m)) = insert k (set (okeys m))"
  by (induction m) auto

lemma owf_oput [simp, omap]: "owf m \<Longrightarrow> owf (oput k v m)"
proof (induction m)
  case Nil
  then show ?case by (simp add: owf_def)
next
  case (Cons p m)
  then have "owf (oput k v m)" by (blast dest: owf_ConsD)
  with Cons.prems show ?case
    using okeys_oput [of k v m] by (fastforce simp: owf_def)
qed

lemma owf_filter: "owf m \<Longrightarrow> owf (filter P m)"
  by (simp add: owf_def sorted_wrt_map sorted_wrt_filter)

lemma owf_odel [simp, omap]: "owf m \<Longrightarrow> owf (odel k m)"
  by (simp add: odel_def owf_filter)

lemma owf_distinct: "owf m \<Longrightarrow> distinct (okeys m)"
  by (simp add: owf_def strict_sorted_iff)

interpretation om: ordered_map owf map_of oput odel "\<lambda>m. m"
  by unfold_locales (simp_all add: owf_distinct)

lemma odel_Cons [simp]: "odel k (p # m) = (if fst p = k then odel k m else p # odel k m)"
  by (simp add: odel_def)

lemma odel_Nil [simp]: "odel k [] = []"
  by (simp add: odel_def)

lemma odel_oput [simp]: "odel k (oput k v m) = odel k m"
  by (induction m) auto

lemma set_odel: "set (odel k m) \<subseteq> set m"
  by (auto simp: odel_def)

lemma ohas_oput [omap]: "ohas (oput k v m) j \<longleftrightarrow> j = k \<or> ohas m j"
  by (simp add: ohas_def)

lemma ohas_odel [omap]: "ohas (odel k m) j \<longleftrightarrow> j \<noteq> k \<and> ohas m j"
  by (simp add: ohas_def)

lemma ohas_iff [omap]: "ohas m k \<longleftrightarrow> k \<in> set (okeys m)"
  by (simp add: ohas_def map_of_eq_None_iff)

lemma odel_absent: "map_of m k = None \<Longrightarrow> odel k m = m"
  by (force simp: odel_def filter_id_conv map_of_eq_None_iff)

text \<open>Replacing every value keeps the keys, hence the order.\<close>

definition omap_values :: "('k \<Rightarrow> 'v \<Rightarrow> 'w) \<Rightarrow> ('k, 'v) omap \<Rightarrow> ('k, 'w) omap" where
  "omap_values f m = map (\<lambda>(k, v). (k, f k v)) m"

lemma okeys_values [simp]: "okeys (omap_values f m) = okeys m"
  by (induction m) (auto simp: omap_values_def)

end
