(* ===== verification/Types.thy ===== *)
theory Types
  imports Base
begin

text \<open>
  The value types of the public interface (\<^verbatim>\<open>src/core/Types.h\<close>,
  \<^verbatim>\<open>src/core/Types.cpp\<close>): error codes and their names, exceptions as values of a sum
  type, cancellation tokens over an explicit store of shared flags, and the request, result
  and option records. \<open>json\<close> is Qt's \<^verbatim>\<open>QJsonValue\<close>, \<open>dbl\<close> a C++
  \<^verbatim>\<open>double\<close>: its finite values are rationals, the infinities and NaN are
  \<open>NonFinite\<close>. C++ \<^verbatim>\<open>int\<close> and \<^verbatim>\<open>qint64\<close> are \<open>int\<close>, unsigned integers
  are words of their width.
\<close>

section \<open>Error codes, roles, finish reasons\<close>

datatype error_code = NoError | InvalidArgument | NotFound | AlreadyExists | ModelInUse
  | QueueFull | Cancelled | ContextOverflow | ResourceLimit | RuntimeUnavailable
  | RuntimeFailure | Timeout | ConsumerFailure | ShuttingDown | ProtocolError
  | InvalidManifest | IntegrityFailure | StorageFailure | Unauthorized

datatype role = System | User | Assistant

datatype finish_reason = FinishStop | FinishLength | FinishCancelled | FinishError

datatype stream_event_kind = Started | Delta | Finished

fun error_name :: "error_code \<Rightarrow> qstring" where
  "error_name NoError = qs ''none''"
| "error_name InvalidArgument = qs ''invalid_argument''"
| "error_name NotFound = qs ''not_found''"
| "error_name AlreadyExists = qs ''already_exists''"
| "error_name ModelInUse = qs ''model_in_use''"
| "error_name QueueFull = qs ''queue_full''"
| "error_name Cancelled = qs ''cancelled''"
| "error_name ContextOverflow = qs ''context_overflow''"
| "error_name ResourceLimit = qs ''resource_limit''"
| "error_name RuntimeUnavailable = qs ''runtime_unavailable''"
| "error_name RuntimeFailure = qs ''runtime_failure''"
| "error_name Timeout = qs ''timeout''"
| "error_name ConsumerFailure = qs ''consumer_failure''"
| "error_name ShuttingDown = qs ''shutting_down''"
| "error_name ProtocolError = qs ''protocol_error''"
| "error_name InvalidManifest = qs ''invalid_manifest''"
| "error_name IntegrityFailure = qs ''integrity_failure''"
| "error_name StorageFailure = qs ''storage_failure''"
| "error_name Unauthorized = qs ''unauthorized''"

fun role_name :: "role \<Rightarrow> qstring" where
  "role_name System = qs ''system''"
| "role_name User = qs ''user''"
| "role_name Assistant = qs ''assistant''"

fun finish_name :: "finish_reason \<Rightarrow> qstring" where
  "finish_name FinishStop = qs ''stop''"
| "finish_name FinishLength = qs ''length''"
| "finish_name FinishCancelled = qs ''cancelled''"
| "finish_name FinishError = qs ''error''"

lemma error_name_inject: "error_name a = error_name b \<longleftrightarrow> a = b"
  by (cases a; cases b) simp_all

lemma finish_name_inject: "finish_name a = finish_name b \<longleftrightarrow> a = b"
  by (cases a; cases b) simp_all

lemma role_name_inject: "role_name a = role_name b \<longleftrightarrow> a = b"
  by (cases a; cases b) simp_all

section \<open>Exceptions as values\<close>

text \<open>
  \<open>Error\<close> is the program's own exception class; \<open>StdException\<close> and
  \<open>UnknownException\<close> are what its \<^verbatim>\<open>catch (const std::exception\<close> \<open>\<and>\<close>
  \<^verbatim>\<open>e)\<close> and \<^verbatim>\<open>catch (...)\<close> clauses receive from code the program calls.
\<close>

datatype exn = Error (exn_code: error_code) (exn_message: qstring)
  | StdException qstring
  | UnknownException

type_synonym 'a res = "exn + 'a"

definition throw :: "error_code \<Rightarrow> string \<Rightarrow> 'a res" where
  "throw c m = Inl (Error c (qs m))"

definition throwq :: "error_code \<Rightarrow> qstring \<Rightarrow> 'a res" where
  "throwq c m = Inl (Error c m)"

definition require :: "bool \<Rightarrow> error_code \<Rightarrow> string \<Rightarrow> unit res" where
  "require ok c m = (if ok then Inr () else throw c m)"

definition bindr :: "'a res \<Rightarrow> ('a \<Rightarrow> 'b res) \<Rightarrow> 'b res" where
  "bindr r f = (case r of Inl e \<Rightarrow> Inl e | Inr x \<Rightarrow> f x)"

definition ok :: "'a res \<Rightarrow> bool" where
  "ok r \<longleftrightarrow> (\<exists>x. r = Inr x)"

text \<open>A loop whose body may throw.\<close>

primrec fold_res :: "('a \<Rightarrow> 's \<Rightarrow> 's res) \<Rightarrow> 'a list \<Rightarrow> 's \<Rightarrow> 's res" where
  "fold_res f [] s = Inr s"
| "fold_res f (x # xs) s = bindr (f x s) (fold_res f xs)"

lemma bindr_simps [simp]: "bindr (Inl e) f = Inl e" "bindr (Inr x) f = f x"
  by (simp_all add: bindr_def)

lemma bindr_cong [fundef_cong]:
  "r = r' \<Longrightarrow> (\<And>x. r' = Inr x \<Longrightarrow> f x = f' x) \<Longrightarrow> bindr r f = bindr r' f'"
  by (cases r') simp_all

lemma bindr_Inr_iff [simp]: "bindr r f = Inr y \<longleftrightarrow> (\<exists>x. r = Inr x \<and> f x = Inr y)"
  by (cases r) simp_all

lemma bindr_Inl_iff: "bindr r f = Inl e \<longleftrightarrow> r = Inl e \<or> (\<exists>x. r = Inr x \<and> f x = Inl e)"
  by (cases r) simp_all

lemma throw_neq_Inr [simp]: "throw c m \<noteq> Inr x" "Inr x \<noteq> throw c m"
  by (simp_all add: throw_def)

lemma throw_inject [simp]: "throw c m = throw d n \<longleftrightarrow> c = d \<and> m = n"
  by (simp add: throw_def)

lemma bindr_throw [simp]: "bindr (throw c m) f = throw c m" "bindr (throwq c q) f = throwq c q"
  by (simp_all add: throw_def throwq_def)

lemma throwq_neq_Inr [simp]: "throwq c m \<noteq> Inr x" "Inr x \<noteq> throwq c m"
  by (simp_all add: throwq_def)

lemma require_Inr [simp]: "require b c m = Inr u \<longleftrightarrow> b"
  by (simp add: require_def)

lemma ok_code [code]: "ok r = (case r of Inl _ \<Rightarrow> False | Inr _ \<Rightarrow> True)"
  by (cases r) (simp_all add: ok_def)

lemma ok_simps [simp]: "ok (Inr x)" "\<not> ok (Inl e)" "\<not> ok (throw c m)"
  by (simp_all add: ok_def throw_def)

lemma ok_bindr: "ok (bindr r f) \<longleftrightarrow> (\<exists>x. r = Inr x \<and> ok (f x))"
  by (cases r) simp_all

section \<open>Cancellation tokens\<close>

text \<open>
  A token is a \<^verbatim>\<open>shared_ptr\<close> to an atomic flag and an optional parent. Copies of a
  token share the flag, so the flags live in a store addressed by number.
\<close>

datatype cancellation_token = Token (token_flag: nat) (token_parent: "cancellation_token option")

record flag_store =
  flags :: "nat \<Rightarrow> bool"
  next_flag :: nat

definition no_flags :: flag_store where
  "no_flags = \<lparr>flags = (\<lambda>_. False), next_flag = 0\<rparr>"

definition new_token :: "flag_store \<Rightarrow> cancellation_token \<times> flag_store" where
  "new_token st = (Token (next_flag st) None,
     st\<lparr>flags := (flags st)(next_flag st := False), next_flag := Suc (next_flag st)\<rparr>)"

definition linked_to :: "cancellation_token \<Rightarrow> flag_store \<Rightarrow> cancellation_token \<times> flag_store" where
  "linked_to parent st =
     (let (child, st') = new_token st in (Token (token_flag child) (Some parent), st'))"

definition cancel :: "cancellation_token \<Rightarrow> flag_store \<Rightarrow> flag_store" where
  "cancel t st = st\<lparr>flags := (flags st)(token_flag t := True)\<rparr>"

fun is_cancelled :: "flag_store \<Rightarrow> cancellation_token \<Rightarrow> bool" where
  "is_cancelled st (Token f p) =
     (flags st f \<or> (case p of None \<Rightarrow> False | Some q \<Rightarrow> is_cancelled st q))"

definition throw_if_cancelled :: "flag_store \<Rightarrow> cancellation_token \<Rightarrow> unit res" where
  "throw_if_cancelled st t = (if is_cancelled st t then throw Cancelled ''Request cancelled'' else Inr ())"

text \<open>The flags a token reads: its own and its ancestors'.\<close>

fun token_chain :: "cancellation_token \<Rightarrow> nat list" where
  "token_chain (Token f p) = f # (case p of None \<Rightarrow> [] | Some q \<Rightarrow> token_chain q)"

definition allocated :: "flag_store \<Rightarrow> cancellation_token \<Rightarrow> bool" where
  "allocated st t \<longleftrightarrow> (\<forall>f \<in> set (token_chain t). f < next_flag st)"

lemma is_cancelled_chain: "is_cancelled st t \<longleftrightarrow> (\<exists>f \<in> set (token_chain t). flags st f)"
  by (induction st t rule: is_cancelled.induct) (auto split: option.splits)

lemma token_flag_chain: "token_flag t \<in> set (token_chain t)"
  by (cases t) simp

lemma cancel_mono: "is_cancelled st t \<Longrightarrow> is_cancelled (cancel u st) t"
  by (auto simp: is_cancelled_chain cancel_def)

lemma cancel_self: "is_cancelled (cancel t st) t"
  using token_flag_chain by (auto simp: is_cancelled_chain cancel_def)

lemma cancel_other: "token_flag u \<notin> set (token_chain t) \<Longrightarrow>
    is_cancelled (cancel u st) t \<longleftrightarrow> is_cancelled st t"
  by (auto simp: is_cancelled_chain cancel_def)

text \<open>\<^verbatim>\<open>static_cast<size_t>\<close> of an \<^verbatim>\<open>int\<close>.\<close>

definition size_t :: "int \<Rightarrow> int" where
  "size_t n = (if n < 0 then n + 2 ^ 64 else n)"

section \<open>JSON values and doubles\<close>

datatype json = JUndefined | JNull | JBool bool | JNum rat | JStr qstring
  | JArr "json list" | JObj "(qstring \<times> json) list"

type_synonym json_object = "(qstring, json) omap"

datatype dbl = Dbl rat | NonFinite

text \<open>\<^verbatim>\<open>QJsonObject::value\<close>, the \<^verbatim>\<open>is...\<close> tests and the defaulting readers.\<close>

definition jvalue :: "json_object \<Rightarrow> string \<Rightarrow> json" where
  "jvalue obj k = (case map_of obj (qs k) of None \<Rightarrow> JUndefined | Some v \<Rightarrow> v)"

definition jhas :: "json_object \<Rightarrow> string \<Rightarrow> bool" where
  "jhas obj k = ohas obj (qs k)"

text \<open>\<^verbatim>\<open>QJsonObject{{k, v}, ...}\<close>.\<close>

definition jobj :: "(string \<times> json) list \<Rightarrow> json_object" where
  "jobj kvs = foldl (\<lambda>m (k, v). oput (qs k) v m) [] kvs"

definition jstrings :: "qstring list \<Rightarrow> json" where
  "jstrings xs = JArr (map JStr xs)"

fun is_string :: "json \<Rightarrow> bool" where
  "is_string (JStr _) = True" | "is_string _ = False"

fun is_array :: "json \<Rightarrow> bool" where
  "is_array (JArr _) = True" | "is_array _ = False"

fun is_object :: "json \<Rightarrow> bool" where
  "is_object (JObj _) = True" | "is_object _ = False"

fun is_bool :: "json \<Rightarrow> bool" where
  "is_bool (JBool _) = True" | "is_bool _ = False"

fun is_double :: "json \<Rightarrow> bool" where
  "is_double (JNum _) = True" | "is_double _ = False"

fun to_string :: "json \<Rightarrow> qstring" where
  "to_string (JStr s) = s" | "to_string _ = []"

fun to_array :: "json \<Rightarrow> json list" where
  "to_array (JArr xs) = xs" | "to_array _ = []"

fun to_object :: "json \<Rightarrow> json_object" where
  "to_object (JObj m) = m" | "to_object _ = []"

fun to_double :: "json \<Rightarrow> rat" where
  "to_double (JNum q) = q" | "to_double _ = 0"

fun to_bool :: "json \<Rightarrow> bool \<Rightarrow> bool" where
  "to_bool (JBool b) d = b" | "to_bool _ d = d"

text \<open>\<^verbatim>\<open>QJsonValue::toInt\<close>: the value when it is an integer of 32 bits, else the default.\<close>

fun to_int :: "json \<Rightarrow> int \<Rightarrow> int" where
  "to_int (JNum q) d =
     (if of_int \<lfloor>q\<rfloor> = q \<and> - (2 ^ 31) \<le> \<lfloor>q\<rfloor> \<and> \<lfloor>q\<rfloor> < 2 ^ 31 then \<lfloor>q\<rfloor> else d)"
| "to_int _ d = d"

lemma foldl_oput_wf:
  fixes m :: "json_object"
  shows "owf m \<Longrightarrow> owf (foldl (\<lambda>m (k, v). oput (qs k) v m) m kvs)"
  by (induction kvs arbitrary: m) auto

lemma owf_jobj [simp]: "owf (jobj kvs)"
  by (simp add: jobj_def foldl_oput_wf)

lemma map_of_jobj:
  "distinct (map fst kvs) \<Longrightarrow> map_of (jobj kvs) (qs k) = map_of kvs k"
proof -
  have gen: "map_of (foldl (\<lambda>m (k, v). oput (qs k) v m) m kvs) (qs k)
      = (case map_of kvs k of None \<Rightarrow> map_of m (qs k) | Some v \<Rightarrow> Some v)"
    if "distinct (map fst kvs)" for m
    using that
  proof (induction kvs arbitrary: m)
    case Nil
    then show ?case by simp
  next
    case (Cons kv kvs)
    then have "map_of kvs (fst kv) = None" by (auto simp: map_of_eq_None_iff)
    with Cons show ?case by (auto split: option.split prod.split)
  qed
  assume "distinct (map fst kvs)"
  from gen [OF this, of "[]"] show ?thesis by (simp add: jobj_def split: option.split)
qed

lemma set_jobj:
  assumes "distinct (map fst kvs)"
  shows "set (jobj kvs) = (\<lambda>(k, v). (qs k, v)) ` set kvs"
proof -
  have gen: "set (foldl (\<lambda>m (k, v). oput (qs k) v m) m kvs) = set m \<union> (\<lambda>(k, v). (qs k, v)) ` set kvs"
    if "distinct (map fst kvs)" "owf m" "\<forall>k \<in> fst ` set kvs. map_of m (qs k) = None" for m
    using that
  proof (induction kvs arbitrary: m)
    case Nil
    then show ?case by simp
  next
    case (Cons kv kvs)
    obtain k v where kv: "kv = (k, v)" by (cases kv)
    have "set (oput (qs k) v m) = insert (qs k, v) (set m)"
      using Cons.prems by (intro om.items_put_fresh) (auto simp: kv)
    moreover have "\<forall>j \<in> fst ` set kvs. map_of (oput (qs k) v m) (qs j) = None"
      using Cons.prems by (auto simp: kv)
    ultimately show ?case using Cons.IH [of "oput (qs k) v m"] Cons.prems by (auto simp: kv)
  qed
  show ?thesis using gen [OF assms, of "[]"] by (simp add: jobj_def)
qed

section \<open>Requests, options and results\<close>

record chat_message =
  msg_role :: role
  msg_content :: qstring

type_synonym token_list = "int list"

record context_budget =
  budget_input_tokens :: int
  budget_context_tokens :: int

record model_spec =
  spec_id :: qstring
  spec_path :: qstring
  spec_context_tokens :: int
  spec_options :: json_object
  spec_format :: qstring
  spec_projector_path :: qstring

record model_load_request =
  load_model :: qstring
  load_context_tokens :: int
  load_options :: json_object
  load_keep_alive :: int

record generation_options =
  max_tokens :: int
  temperature :: dbl
  top_p :: dbl
  top_k :: int
  seed :: u32
  stop :: "qstring list"
  min_p :: dbl
  typical_p :: dbl
  min_keep :: int
  repetition_penalty :: dbl
  repetition_context_size :: int
  presence_penalty :: dbl
  frequency_penalty :: dbl
  xtc_probability :: dbl
  xtc_threshold :: dbl
  logit_bias :: json_object

definition default_generation_options :: generation_options where
  "default_generation_options = \<lparr>max_tokens = 256, temperature = Dbl (7/10), top_p = Dbl (9/10),
     top_k = 40, seed = 0, stop = [], min_p = Dbl 0, typical_p = Dbl 1, min_keep = 1,
     repetition_penalty = Dbl 1, repetition_context_size = 64, presence_penalty = Dbl 0,
     frequency_penalty = Dbl 0, xtc_probability = Dbl 0, xtc_threshold = Dbl (1/10),
     logit_bias = []\<rparr>"

record chat_request =
  chat_session_id :: qstring
  chat_prompt :: qstring
  chat_options :: generation_options
  chat_keep_alive :: int

record completion_request =
  completion_model :: qstring
  completion_messages :: "chat_message list"
  completion_options :: generation_options
  completion_keep_alive :: int

record conversation_request =
  conv_model :: qstring
  conv_messages :: "json list"
  conv_tools :: "json list"
  conv_tool_choice :: qstring
  conv_context_id :: qstring
  conv_options :: generation_options
  conv_keep_alive :: int
  conv_parallel_tool_calls :: bool
  conv_response_schema :: json_object
  conv_enable_thinking :: "bool option"

record usage =
  prompt_tokens :: int
  generated_tokens :: int
  cached_tokens :: int
  dropped_messages :: int

record generation_result =
  res_request_id :: qstring
  res_session_id :: qstring
  res_text :: qstring
  res_finish_reason :: finish_reason
  res_usage :: usage
  res_error_code :: error_code
  res_error_message :: qstring
  res_tool_calls :: "json list"
  res_reasoning :: qstring

definition empty_result :: "qstring \<Rightarrow> qstring \<Rightarrow> generation_result" where
  "empty_result request session = \<lparr>res_request_id = request, res_session_id = session,
     res_text = [], res_finish_reason = FinishError,
     res_usage = \<lparr>prompt_tokens = 0, generated_tokens = 0, cached_tokens = 0, dropped_messages = 0\<rparr>,
     res_error_code = NoError, res_error_message = [], res_tool_calls = [], res_reasoning = []\<rparr>"

record stream_event =
  ev_kind :: stream_event_kind
  ev_request_id :: qstring
  ev_session_id :: qstring
  ev_text :: qstring
  ev_result :: "generation_result option"

record session_snapshot =
  sess_id :: qstring
  sess_model_id :: qstring
  sess_messages :: "chat_message list"

record service_options =
  max_queued_requests :: int
  max_models :: int
  max_sessions :: int
  max_cached_contexts :: int
  max_cached_context_tokens :: int
  max_input_characters :: int
  models_directory :: qstring
  default_context_tokens :: int
  memory_budget_bytes :: u64
  memory_reserve_bytes :: u64
  keep_alive_ms :: int
  registry_file :: qstring

definition default_service_options :: service_options where
  "default_service_options = \<lparr>max_queued_requests = 64, max_models = 4, max_sessions = 128,
     max_cached_contexts = 4, max_cached_context_tokens = 16384,
     max_input_characters = 1024 * 1024, models_directory = qs ''Models'',
     default_context_tokens = 2048, memory_budget_bytes = 0,
     memory_reserve_bytes = 256 * 1024 * 1024, keep_alive_ms = -1, registry_file = []\<rparr>"

record service_stats =
  loaded_models :: int
  stat_sessions :: int
  cached_contexts :: int
  reserved_context_tokens :: int
  cache_evictions :: u64
  resident_bytes :: u64
  stat_memory_budget_bytes :: u64
  available_ram_bytes :: u64
  available_ram_known :: bool
  default_keep_alive_ms :: int
  model_loads :: u64
  model_evictions :: u64

section \<open>Properties\<close>

text \<open>
  A linked child token: cancelling the parent is seen by the child, cancelling the child
  leaves the parent as it was, and every other token already handed out keeps its state.
\<close>

theorem linked_token:
  assumes "allocated st p" and "allocated st t"
    and "linked_to p st = (c, st')"
  shows "is_cancelled (cancel p st') c
    \<and> (is_cancelled (cancel c st') p \<longleftrightarrow> is_cancelled st p)
    \<and> (is_cancelled (cancel c st') t \<longleftrightarrow> is_cancelled st t)
    \<and> (is_cancelled st' c \<longleftrightarrow> is_cancelled st p)"
proof -
  have c: "c = Token (next_flag st) (Some p)"
    and st': "st' = st\<lparr>flags := (flags st)(next_flag st := False), next_flag := Suc (next_flag st)\<rparr>"
    using assms(3) by (auto simp: linked_to_def new_token_def)
  have keep: "is_cancelled (cancel c st') u \<longleftrightarrow> is_cancelled st u" if "allocated st u" for u
    using that by (fastforce simp: allocated_def is_cancelled_chain cancel_def c st')
  have child: "is_cancelled (cancel p st') c"
    using cancel_self [of p st'] by (simp add: c)
  have "flags st' f = flags st f" if "f \<in> set (token_chain p)" for f
    using that assms(1) by (auto simp: allocated_def st')
  then have "is_cancelled st' p \<longleftrightarrow> is_cancelled st p"
    by (simp add: is_cancelled_chain)
  then have "is_cancelled st' c \<longleftrightarrow> is_cancelled st p"
    by (simp add: c st')
  with child keep assms show ?thesis by blast
qed

theorem linked_token_witness:
  "\<exists>p c st st'. linked_to p st = (c, st') \<and> is_cancelled (cancel p st') c
     \<and> \<not> is_cancelled (cancel c st') p"
proof -
  define p where "p = fst (new_token no_flags)"
  define st where "st = snd (new_token no_flags)"
  have al: "allocated st p" "\<not> is_cancelled st p"
    by (simp_all add: p_def st_def new_token_def no_flags_def allocated_def)
  show ?thesis
    using linked_token [OF al(1) al(1), of "fst (linked_to p st)" "snd (linked_to p st)"] al(2)
    by (metis prod.collapse)
qed

end
