(* ===== verification/Scheduler.thy ===== *)
theory Scheduler
  imports Types "HOL-Library.Multiset" "HOL-Library.Sublist"
begin

text \<open>
  The bounded worker queue (\<^verbatim>\<open>src/service/Scheduler.h\<close>,
  \<^verbatim>\<open>src/service/Scheduler.cpp\<close>). The state is the scheduler object, the position of
  its worker thread in \<^verbatim>\<open>loop()\<close> and the calls of \<^verbatim>\<open>run\<close> and
  \<^verbatim>\<open>reject\<close> made so far. One event is one critical section of one thread, so a list
  of events is an interleaving of submitters, cancelling clients, the destructor and the worker.
  The interface \<open>settling_queue\<close> is what the service relies on: nothing submitted is lost
  or settled twice.
\<close>

section \<open>The interface\<close>

locale settling_queue =
  fixes step :: "'e \<Rightarrow> 's \<Rightarrow> 's option"
    and pending :: "'s \<Rightarrow> 'i multiset"
    and settled :: "'s \<Rightarrow> 'i multiset"
    and submits :: "'e \<Rightarrow> 'i multiset"
  assumes conserve: "step e s = Some s' \<Longrightarrow>
      pending s' + settled s' = pending s + settled s + submits e"
    and settled_mono: "step e s = Some s' \<Longrightarrow> settled s \<subseteq># settled s'"
begin

fun run :: "'e list \<Rightarrow> 's \<Rightarrow> 's option" where
  "run [] s = Some s"
| "run (e # es) s = (case step e s of None \<Rightarrow> None | Some s' \<Rightarrow> run es s')"

lemma run_conserve:
  "run es s = Some s' \<Longrightarrow>
     pending s' + settled s' = pending s + settled s + sum_list (map submits es)"
  by (induction es arbitrary: s) (auto simp: conserve ac_simps split: option.splits)

lemma run_settled_mono: "run es s = Some s' \<Longrightarrow> settled s \<subseteq># settled s'"
  by (induction es arbitrary: s)
    (auto dest: settled_mono intro: subset_mset.order_trans split: option.splits)

lemma settled_once:
  assumes "run es s = Some s'" and "pending s = {#}" and "settled s = {#}"
    and "pending s' = {#}"
  shows "settled s' = sum_list (map submits es)"
  using run_conserve [OF assms(1)] assms(2-) by simp

end

section \<open>State and operations\<close>

record item =
  item_id :: nat
  item_token :: cancellation_token

datatype settlement = Ran nat | Rejected nat error_code

datatype worker = Waiting | Popped item | Running item | Exited

record sched =
  capacity :: int
  queue :: "item list"
  active :: cancellation_token
  stopping :: bool
  worker :: worker
  maintained :: nat
  history :: "settlement list"
  store :: flag_store

definition make_scheduler :: "int \<Rightarrow> sched" where
  "make_scheduler cap = (let (t, st) = new_token no_flags in
     \<lparr>capacity = cap, queue = [], active = t, stopping = False, worker = Waiting,
      maintained = 0, history = [], store = st\<rparr>)"

definition enqueue_code :: "sched \<Rightarrow> error_code" where
  "enqueue_code s =
     (if stopping s then ShuttingDown
      else if int (length (queue s)) \<ge> size_t (capacity s) then QueueFull
      else NoError)"

definition enqueue :: "item \<Rightarrow> sched \<Rightarrow> sched" where
  "enqueue i s =
     (if enqueue_code s \<noteq> NoError
      then s\<lparr>history := history s @ [Rejected (item_id i) (enqueue_code s)]\<rparr>
      else s\<lparr>queue := queue s @ [i]\<rparr>)"

definition shutdown :: "sched \<Rightarrow> sched" where
  "shutdown s = s\<lparr>stopping := True,
     store := fold (\<lambda>i. cancel (item_token i)) (queue s) (cancel (active s) (store s))\<rparr>"

definition loop_pop :: "sched \<Rightarrow> sched option" where
  "loop_pop s = (case (worker s, queue s) of
     (Waiting, i # rest) \<Rightarrow> Some (s\<lparr>queue := rest, active := item_token i, worker := Popped i\<rparr>)
   | _ \<Rightarrow> None)"

definition loop_idle :: "sched \<Rightarrow> sched option" where
  "loop_idle s = (if worker s = Waiting \<and> queue s = [] \<and> \<not> stopping s
     then Some (s\<lparr>maintained := Suc (maintained s)\<rparr>) else None)"

definition loop_start :: "sched \<Rightarrow> sched option" where
  "loop_start s = (case worker s of
     Popped i \<Rightarrow> Some
       (if is_cancelled (store s) (item_token i)
        then s\<lparr>history := history s @ [Rejected (item_id i) Cancelled], worker := Waiting,
               maintained := Suc (maintained s)\<rparr>
        else s\<lparr>worker := Running i\<rparr>)
   | _ \<Rightarrow> None)"

definition loop_finish :: "sched \<Rightarrow> sched option" where
  "loop_finish s = (case worker s of
     Running i \<Rightarrow> Some (s\<lparr>history := history s @ [Ran (item_id i)], worker := Waiting,
                           maintained := Suc (maintained s)\<rparr>)
   | _ \<Rightarrow> None)"

definition loop_exit :: "sched \<Rightarrow> sched option" where
  "loop_exit s = (if worker s = Waiting \<and> queue s = [] \<and> stopping s
     then Some (s\<lparr>worker := Exited\<rparr>) else None)"

datatype sched_event = Submit item | ShutDown | ClientCancel cancellation_token
  | Pop | Idle | Start | Finish | Exit

fun sched_step :: "sched_event \<Rightarrow> sched \<Rightarrow> sched option" where
  "sched_step (Submit i) s = Some (enqueue i s)"
| "sched_step ShutDown s = Some (shutdown s)"
| "sched_step (ClientCancel t) s = Some (s\<lparr>store := cancel t (store s)\<rparr>)"
| "sched_step Pop s = loop_pop s"
| "sched_step Idle s = loop_idle s"
| "sched_step Start s = loop_start s"
| "sched_step Finish s = loop_finish s"
| "sched_step Exit s = loop_exit s"

fun sched_run :: "sched_event list \<Rightarrow> sched \<Rightarrow> sched option" where
  "sched_run [] s = Some s"
| "sched_run (e # es) s = (case sched_step e s of None \<Rightarrow> None | Some s' \<Rightarrow> sched_run es s')"

inductive sched_reachable :: "int \<Rightarrow> sched \<Rightarrow> bool" for cap where
  initial: "sched_reachable cap (make_scheduler cap)"
| step: "sched_reachable cap s \<Longrightarrow> sched_step e s = Some s' \<Longrightarrow> sched_reachable cap s'"

lemmas loop_defs = loop_pop_def loop_idle_def loop_start_def loop_finish_def loop_exit_def

section \<open>What is pending and what is settled\<close>

fun worker_ids :: "worker \<Rightarrow> nat list" where
  "worker_ids (Popped i) = [item_id i]"
| "worker_ids (Running i) = [item_id i]"
| "worker_ids _ = []"

definition pending_ids :: "sched \<Rightarrow> nat list" where
  "pending_ids s = worker_ids (worker s) @ map item_id (queue s)"

fun settled_id :: "settlement \<Rightarrow> nat" where
  "settled_id (Ran n) = n"
| "settled_id (Rejected n c) = n"

fun submitted :: "sched_event \<Rightarrow> nat list" where
  "submitted (Submit i) = [item_id i]"
| "submitted _ = []"

text \<open>Items taken off the queue in time order: everything but refusals at submission.\<close>

fun served :: "settlement \<Rightarrow> bool" where
  "served (Ran _) = True"
| "served (Rejected _ c) = (c = Cancelled)"

definition served_ids :: "sched \<Rightarrow> nat list" where
  "served_ids s = map settled_id (filter served (history s))"

lemma step_conserve:
  "sched_step e s = Some s' \<Longrightarrow>
     mset (pending_ids s') + mset (map settled_id (history s'))
       = mset (pending_ids s) + mset (map settled_id (history s)) + mset (submitted e)"
  by (cases e)
    (auto simp: enqueue_def shutdown_def loop_defs pending_ids_def
      split: if_splits worker.splits list.splits)

lemma step_history: "sched_step e s = Some s' \<Longrightarrow> \<exists>h. history s' = history s @ h"
  by (cases e) (auto simp: enqueue_def shutdown_def loop_defs
      split: if_splits worker.splits list.splits)

interpretation sq: settling_queue sched_step "\<lambda>s. mset (pending_ids s)"
  "\<lambda>s. mset (map settled_id (history s))" "\<lambda>e. mset (submitted e)"
proof unfold_locales
  fix e s s'
  assume step: "sched_step e s = Some s'"
  show "mset (pending_ids s') + mset (map settled_id (history s'))
      = mset (pending_ids s) + mset (map settled_id (history s)) + mset (submitted e)"
    using step by (rule step_conserve)
  from step obtain h where "history s' = history s @ h" using step_history by blast
  then show "mset (map settled_id (history s)) \<subseteq># mset (map settled_id (history s'))" by simp
qed

lemma run_is_sched_run: "sq.run es s = sched_run es s"
  by (induction es arbitrary: s) (auto split: option.splits)

lemma sum_submitted: "sum_list (map (\<lambda>e. mset (submitted e)) es) = mset (concat (map submitted es))"
  by (induction es) auto

section \<open>Invariants\<close>

text \<open>
  \<open>sched_inv\<close>: the queue is within its capacity; the active token is that of the item the
  worker holds; once stopping, every item not yet started is cancelled; an exited worker has
  left nothing behind.
\<close>

definition queue_bounded :: "sched \<Rightarrow> bool" where
  "queue_bounded s \<longleftrightarrow> queue s = [] \<or> int (length (queue s)) \<le> size_t (capacity s)"

definition active_ok :: "sched \<Rightarrow> bool" where
  "active_ok s \<longleftrightarrow> (\<forall>i. worker s = Popped i \<or> worker s = Running i \<longrightarrow> active s = item_token i)"

definition drained_tokens :: "sched \<Rightarrow> bool" where
  "drained_tokens s \<longleftrightarrow> (stopping s \<longrightarrow>
     (\<forall>i \<in> set (queue s). is_cancelled (store s) (item_token i))
     \<and> (\<forall>i. worker s = Popped i \<longrightarrow> is_cancelled (store s) (item_token i)))"

definition exited_ok :: "sched \<Rightarrow> bool" where
  "exited_ok s \<longleftrightarrow> (worker s = Exited \<longrightarrow> stopping s \<and> queue s = [])"

definition sched_inv :: "sched \<Rightarrow> bool" where
  "sched_inv s \<longleftrightarrow> queue_bounded s \<and> active_ok s \<and> drained_tokens s \<and> exited_ok s"

lemma cancel_fold_mono:
  "is_cancelled st t \<Longrightarrow> is_cancelled (fold (\<lambda>i. cancel (item_token i)) xs st) t"
  by (induction xs arbitrary: st) (auto intro: cancel_mono)

lemma cancel_fold_member:
  "i \<in> set xs \<Longrightarrow> is_cancelled (fold (\<lambda>i. cancel (item_token i)) xs st) (item_token i)"
  by (induction xs arbitrary: st) (auto intro: cancel_fold_mono cancel_self)

lemma cancel_fold_start [simp]:
  "is_cancelled (fold (\<lambda>i. cancel (item_token i)) xs (cancel t st)) t"
  by (rule cancel_fold_mono) (rule cancel_self)

lemma queue_bounded_step: "sched_step e s = Some s' \<Longrightarrow> queue_bounded s \<Longrightarrow> queue_bounded s'"
  by (cases e) (auto simp: queue_bounded_def enqueue_def enqueue_code_def shutdown_def loop_defs
      split: if_splits worker.splits list.splits)

lemma active_ok_step: "sched_step e s = Some s' \<Longrightarrow> active_ok s \<Longrightarrow> active_ok s'"
  by (cases e) (auto simp: active_ok_def enqueue_def shutdown_def loop_defs
      split: if_splits worker.splits list.splits)

lemma exited_ok_step: "sched_step e s = Some s' \<Longrightarrow> exited_ok s \<Longrightarrow> exited_ok s'"
  by (cases e) (auto simp: exited_ok_def enqueue_def enqueue_code_def shutdown_def loop_defs
      split: if_splits worker.splits list.splits)

lemma drained_tokens_step:
  assumes "sched_step e s = Some s'" and "active_ok s" and "drained_tokens s"
  shows "drained_tokens s'"
proof (cases e)
  case ShutDown
  with assms show ?thesis
    by (auto simp: drained_tokens_def shutdown_def active_ok_def
        intro: cancel_fold_member cancel_fold_mono cancel_self)
next
  case (ClientCancel t)
  with assms show ?thesis by (auto simp: drained_tokens_def cancel_mono)
qed (use assms in \<open>auto simp: drained_tokens_def enqueue_def enqueue_code_def loop_defs
      split: if_splits worker.splits list.splits\<close>)

lemma sched_inv_step: "sched_step e s = Some s' \<Longrightarrow> sched_inv s \<Longrightarrow> sched_inv s'"
  unfolding sched_inv_def
  using queue_bounded_step active_ok_step drained_tokens_step exited_ok_step by blast

lemma sched_inv_initial: "sched_inv (make_scheduler cap)"
  by (simp add: sched_inv_def make_scheduler_def new_token_def queue_bounded_def active_ok_def
      drained_tokens_def exited_ok_def)

lemma reachable_inv: "sched_reachable cap s \<Longrightarrow> sched_inv s"
  by (induction rule: sched_reachable.induct) (auto intro: sched_inv_initial sched_inv_step)

lemma reachable_capacity: "sched_reachable cap s \<Longrightarrow> capacity s = cap"
proof (induction rule: sched_reachable.induct)
  case initial
  show ?case by (simp add: make_scheduler_def new_token_def)
next
  case (step s e s')
  then show ?case
    by (cases e) (auto simp: enqueue_def shutdown_def loop_defs
        split: if_splits worker.splits list.splits)
qed

lemma run_reachable:
  "sched_run es s = Some s' \<Longrightarrow> sched_reachable cap s \<Longrightarrow> sched_reachable cap s'"
  by (induction es arbitrary: s) (auto split: option.splits intro: sched_reachable.step)

section \<open>Order of service\<close>

lemma step_order:
  assumes "sched_step e s = Some s'"
  shows "subseq (served_ids s' @ pending_ids s') ((served_ids s @ pending_ids s) @ submitted e)"
  using assms
  by (cases e) (auto simp: served_ids_def pending_ids_def enqueue_def enqueue_code_def
      shutdown_def loop_defs split: if_splits worker.splits list.splits)

lemma run_order:
  "sched_run es s = Some s' \<Longrightarrow>
     subseq (served_ids s' @ pending_ids s')
       ((served_ids s @ pending_ids s) @ concat (map submitted es))"
proof (induction es arbitrary: s)
  case Nil
  then show ?case by simp
next
  case (Cons e es)
  then obtain u where u: "sched_step e s = Some u" "sched_run es u = Some s'"
    by (auto split: option.splits)
  have "subseq ((served_ids u @ pending_ids u) @ concat (map submitted es))
     (((served_ids s @ pending_ids s) @ submitted e) @ concat (map submitted es))"
    by (rule list_emb_append_mono [OF step_order [OF u(1)] subseq_order.order_refl])
  with Cons.IH [OF u(2)] show ?case
    by (metis append.assoc concat.simps(2) list.simps(9) subseq_order.trans)
qed

section \<open>Draining\<close>

text \<open>The worker's remaining schedule for a queue of \<open>n\<close> cancelled items.\<close>

fun drain_events :: "nat \<Rightarrow> sched_event list" where
  "drain_events 0 = [Exit]"
| "drain_events (Suc n) = Pop # Start # drain_events n"

lemma drain_one:
  assumes "worker s = Waiting" and "queue s = i # rest"
    and "is_cancelled (store s) (item_token i)"
  shows "sched_run (Pop # Start # es) s = sched_run es (s\<lparr>queue := rest, active := item_token i,
      history := history s @ [Rejected (item_id i) Cancelled], worker := Waiting,
      maintained := Suc (maintained s)\<rparr>)"
  using assms by (simp add: loop_pop_def loop_start_def)

lemma drain_run:
  assumes "worker s = Waiting" and "stopping s" and "queue s = xs"
    and "\<forall>i \<in> set xs. is_cancelled (store s) (item_token i)"
  shows "\<exists>s'. sched_run (drain_events (length xs)) s = Some s' \<and> worker s' = Exited
     \<and> queue s' = [] \<and> history s' = history s @ map (\<lambda>i. Rejected (item_id i) Cancelled) xs"
  using assms
proof (induction xs arbitrary: s)
  case Nil
  then show ?case by (simp add: loop_exit_def)
next
  case (Cons i rest)
  let ?u = "s\<lparr>queue := rest, active := item_token i,
      history := history s @ [Rejected (item_id i) Cancelled], worker := Waiting, maintained := Suc (maintained s)\<rparr>"
  have "sched_run (drain_events (length (i # rest))) s = sched_run (drain_events (length rest)) ?u"
    using drain_one [OF Cons.prems(1,3)] Cons.prems(4) by simp
  then show ?case using Cons.IH [of ?u] Cons.prems by simp
qed

section \<open>Properties\<close>

text \<open>
  C1. Everything submitted is settled exactly once: in any interleaving from the start, the ids
  of the run and reject calls made together with the ids still queued or in the worker's hands
  are, with multiplicity, the ids submitted; when the worker has exited nothing is left.
\<close>

theorem scheduler_settles_once:
  assumes "sched_run es (make_scheduler cap) = Some s"
  shows "mset (map settled_id (history s)) + mset (pending_ids s) = mset (concat (map submitted es))
    \<and> (worker s = Exited \<longrightarrow>
         mset (map settled_id (history s)) = mset (concat (map submitted es)))"
proof -
  have run: "sq.run es (make_scheduler cap) = Some s" using assms by (simp add: run_is_sched_run)
  have start: "pending_ids (make_scheduler cap) = []" "history (make_scheduler cap) = []"
    by (simp_all add: make_scheduler_def new_token_def pending_ids_def)
  have all: "mset (map settled_id (history s)) + mset (pending_ids s) = mset (concat (map submitted es))"
    using sq.run_conserve [OF run] by (simp add: start sum_submitted ac_simps)
  have "sched_inv s"
    using run_reachable [OF assms sched_reachable.initial] by (rule reachable_inv)
  then have "worker s = Exited \<Longrightarrow> pending_ids s = []"
    by (simp add: sched_inv_def exited_ok_def pending_ids_def)
  with all show ?thesis by auto
qed

definition sample_item :: "nat \<Rightarrow> nat \<Rightarrow> item" where
  "sample_item n f = \<lparr>item_id = n, item_token = Token f None\<rparr>"

definition sample_trace :: "sched_event list" where
  "sample_trace = [Submit (sample_item 7 1), Submit (sample_item 8 2), Submit (sample_item 9 3),
     Pop, ClientCancel (Token 2 None), Start, Submit (sample_item 10 4), Finish, ShutDown,
     Pop, Start, Pop, Start, Exit]"

lemma sample_trace_run: "\<exists>s. sched_run sample_trace (make_scheduler 2) = Some s
     \<and> worker s = Exited \<and> stopping s \<and> history s = [Rejected 9 QueueFull, Ran 7,
          Rejected 8 Cancelled, Rejected 10 Cancelled]"
  by (simp add: sample_trace_def sample_item_def make_scheduler_def new_token_def no_flags_def
      enqueue_def enqueue_code_def size_t_def shutdown_def loop_defs cancel_def)

theorem scheduler_settles_once_witness:
  "\<exists>s::sched. worker s = Exited \<and> mset (map settled_id (history s)) = {#7, 8, 9, 10#}"
proof -
  obtain s where run: "sched_run sample_trace (make_scheduler 2) = Some s" and e: "worker s = Exited"
    using sample_trace_run by blast
  from scheduler_settles_once [OF run] e
  have "mset (map settled_id (history s)) = {#7, 8, 9, 10#}"
    by (simp add: sample_trace_def sample_item_def)
  with e show ?thesis by blast
qed

text \<open>
  Service is first come, first served and within capacity: in every interleaving, the items
  taken off the queue so far (run, or rejected because their client had cancelled), followed by
  the one in the worker's hands and those still queued, are in the order of their submission, and
  the queue never holds more than its capacity.
\<close>

theorem scheduler_fifo_bounded:
  assumes "sched_run es (make_scheduler cap) = Some s" and "0 \<le> cap"
  shows "subseq (served_ids s @ pending_ids s) (concat (map submitted es))
    \<and> int (length (queue s)) \<le> cap"
proof -
  have reach: "sched_reachable cap s"
    using run_reachable [OF assms(1) sched_reachable.initial] .
  have "queue_bounded s" using reachable_inv [OF reach] by (simp add: sched_inv_def)
  then have "int (length (queue s)) \<le> cap"
    using reachable_capacity [OF reach] assms(2) by (auto simp: queue_bounded_def size_t_def)
  moreover have "subseq (served_ids s @ pending_ids s) (concat (map submitted es))"
    using run_order [OF assms(1)]
    by (simp add: make_scheduler_def new_token_def served_ids_def pending_ids_def)
  ultimately show ?thesis by blast
qed

theorem scheduler_fifo_bounded_witness:
  "\<exists>s::sched. served_ids s = [7, 8, 10] \<and> subseq (served_ids s @ pending_ids s) [7, 8, 9, 10]
     \<and> int (length (queue s)) \<le> 2"
proof -
  obtain s where run: "sched_run sample_trace (make_scheduler 2) = Some s"
    and h: "history s = [Rejected 9 QueueFull, Ran 7, Rejected 8 Cancelled, Rejected 10 Cancelled]"
    using sample_trace_run by blast
  have "subseq (served_ids s @ pending_ids s) [7, 8, 9, 10] \<and> int (length (queue s)) \<le> 2"
    using scheduler_fifo_bounded [OF run] by (simp add: sample_trace_def sample_item_def)
  moreover have "served_ids s = [7, 8, 10]" using h by (simp add: served_ids_def)
  ultimately show ?thesis by blast
qed

text \<open>
  C31. Shutdown: once the scheduler is stopping the worker starts no further item, and from any
  reachable stopping state in which the worker is between items its remaining steps reject every
  queued item as cancelled, in order, and reach the exit.
\<close>

theorem scheduler_shutdown_drains:
  assumes "sched_reachable cap s" and "stopping s"
  shows "(\<forall>i s'. sched_step Start s = Some s' \<longrightarrow> worker s' \<noteq> Running i)
    \<and> (worker s = Waiting \<longrightarrow>
        (\<exists>s'. sched_run (drain_events (length (queue s))) s = Some s' \<and> worker s' = Exited
           \<and> queue s' = []
           \<and> history s' = history s @ map (\<lambda>i. Rejected (item_id i) Cancelled) (queue s)))"
proof -
  have drained: "drained_tokens s" using reachable_inv [OF assms(1)] by (simp add: sched_inv_def)
  then have "\<forall>i s'. sched_step Start s = Some s' \<longrightarrow> worker s' \<noteq> Running i"
    using assms(2) by (auto simp: drained_tokens_def loop_start_def split: worker.splits)
  moreover have "\<forall>i \<in> set (queue s). is_cancelled (store s) (item_token i)"
    using drained assms(2) by (simp add: drained_tokens_def)
  ultimately show ?thesis using drain_run [of s "queue s"] assms(2) by blast
qed

theorem scheduler_shutdown_drains_witness:
  "\<exists>s s' :: sched. queue s = [sample_item 3 1, sample_item 4 2] \<and> stopping s
     \<and> sched_run [Pop, Start, Pop, Start, Exit] s = Some s'
     \<and> history s' = [Rejected 3 Cancelled, Rejected 4 Cancelled] \<and> worker s' = Exited"
proof -
  define s where "s = the (sched_run [Submit (sample_item 3 1), Submit (sample_item 4 2), ShutDown]
      (make_scheduler 5))"
  have run: "sched_run [Submit (sample_item 3 1), Submit (sample_item 4 2), ShutDown]
      (make_scheduler 5) = Some s"
    and s: "queue s = [sample_item 3 1, sample_item 4 2]" "stopping s" "worker s = Waiting" "history s = []"
    by (simp_all add: s_def make_scheduler_def new_token_def enqueue_def enqueue_code_def size_t_def
        shutdown_def)
  have "sched_reachable 5 s" using run_reachable [OF run sched_reachable.initial] .
  from scheduler_shutdown_drains [OF this s(2)] s(3)
  obtain s' where r: "sched_run (drain_events (length (queue s))) s = Some s'" "worker s' = Exited"
    "history s' = history s @ map (\<lambda>i. Rejected (item_id i) Cancelled) (queue s)"
    by blast
  have "drain_events (length (queue s)) = [Pop, Start, Pop, Start, Exit]" by (simp add: s(1))
  moreover have "history s' = [Rejected 3 Cancelled, Rejected 4 Cancelled]"
    using r(3) s by (simp add: sample_item_def)
  ultimately show ?thesis using r s by metis
qed

end
