(* ===== verification/Memory.thy ===== *)
theory Memory
  imports Types
begin

text \<open>
  Memory reservations and durations (\<^verbatim>\<open>src/hardware/Memory.cpp\<close>,
  \<^verbatim>\<open>src/runtimes/MemoryEstimate.h\<close>): overflow-checked sums and products of 64-bit sizes,
  the default estimate of a runtime, and the \<^verbatim>\<open>keep_alive\<close> parser. The parser computes
  in \<^verbatim>\<open>double\<close>; \<open>round_dbl\<close> is IEEE 754 binary64 rounding to nearest, ties to even,
  with subnormals and overflow.
\<close>

section \<open>Rounding to binary64\<close>

function bit_length :: "int \<Rightarrow> int" where
  "bit_length n = (if n \<le> 0 then 0 else 1 + bit_length (n div 2))"
  by pat_completeness auto
termination
  by (relation "measure nat") auto

declare bit_length.simps [simp del]

definition pow2 :: "int \<Rightarrow> rat" where
  "pow2 e = (if 0 \<le> e then 2 ^ nat e else 1 / 2 ^ nat (- e))"

definition nearest_even :: "rat \<Rightarrow> int" where
  "nearest_even r = (let f = \<lfloor>r\<rfloor>; d = r - of_int f in
     if d < 1 / 2 then f else if 1 / 2 < d then f + 1 else if even f then f else f + 1)"

text \<open>The exponent of the last place of the binary64 number nearest to \<open>r \<ge> 0\<close>.\<close>

definition ulp_exponent :: "rat \<Rightarrow> int" where
  "ulp_exponent r = (let (a, b) = quotient_of r;
       k = bit_length a - bit_length b;
       e = (if r < pow2 k then k - 53 else k - 52)
     in max e (- 1074))"

definition round_dbl :: "rat \<Rightarrow> dbl" where
  "round_dbl r = (let e = ulp_exponent \<bar>r\<bar>; m = of_int (nearest_even (\<bar>r\<bar> / pow2 e)) * pow2 e in
     if 2 ^ 1024 \<le> m then NonFinite else Dbl (if r < 0 then - m else m))"

fun dbl_mult :: "dbl \<Rightarrow> dbl \<Rightarrow> dbl" where
  "dbl_mult (Dbl a) (Dbl b) = round_dbl (a * b)"
| "dbl_mult _ _ = NonFinite"

definition dbl_of_u64 :: "u64 \<Rightarrow> json" where
  "dbl_of_u64 w = (case round_dbl (of_nat (unat w)) of Dbl q \<Rightarrow> JNum q | NonFinite \<Rightarrow> JNull)"

lemma bit_length_le: "n < 2 ^ k \<Longrightarrow> bit_length n \<le> int k"
proof (induction k arbitrary: n)
  case 0
  then show ?case by (subst bit_length.simps) simp
next
  case (Suc k)
  then have "n div 2 < 2 ^ k" by auto
  with Suc.IH show ?case by (subst bit_length.simps) simp
qed

lemma nearest_even_of_int [simp]: "nearest_even (of_int n) = n"
  by (simp add: nearest_even_def)

lemma pow2_pos: "0 < pow2 e"
  by (simp add: pow2_def)

lemma pow2_neg_inverse: "e \<le> 0 \<Longrightarrow> 1 / pow2 e = of_int (2 ^ nat (- e))"
  by (simp add: pow2_def split: if_splits)

lemma bit_length_1: "bit_length 1 = 1"
  by (simp add: bit_length.simps)

lemma quotient_of_nat: "quotient_of (of_nat n) = (int n, 1)"
  using quotient_of_int [of "int n"] by simp

lemma ulp_exponent_nat:
  assumes "n < 2 ^ 53"
  shows "ulp_exponent (of_nat n) \<le> 0"
proof -
  have "int n < 2 ^ 53" using assms by simp
  then have "bit_length (int n) \<le> int 53" by (rule bit_length_le)
  then show ?thesis by (simp add: ulp_exponent_def quotient_of_nat bit_length_1 Let_def)
qed

text \<open>Integers below \<open>2 ^ 53\<close> are represented exactly.\<close>

lemma round_dbl_nat:
  assumes "n < 2 ^ 53"
  shows "round_dbl (of_nat n) = Dbl (of_nat n)"
proof -
  let ?e = "ulp_exponent (of_nat n)"
  have "of_nat n / pow2 ?e = of_int (int n * 2 ^ nat (- ?e))"
    using pow2_neg_inverse [OF ulp_exponent_nat [OF assms]]
    by (simp add: divide_inverse flip: inverse_eq_divide)
  then have m: "of_int (nearest_even (of_nat n / pow2 ?e)) * pow2 ?e = of_nat n"
    using pow2_pos [of ?e] by (metis less_numeral_extra(3) nearest_even_of_int nonzero_eq_divide_eq)
  have "of_nat n < (2::rat) ^ 53" using assms by (metis of_nat_less_iff of_nat_numeral of_nat_power)
  also have "\<dots> \<le> 2 ^ 1024" by (rule power_increasing) simp_all
  finally show ?thesis using m by (simp add: round_dbl_def Let_def)
qed

lemma bit_length_bounds:
  "0 < n \<Longrightarrow> 0 < bit_length n \<and> 2 ^ nat (bit_length n - 1) \<le> n \<and> n < 2 ^ nat (bit_length n)"
proof (induction n rule: bit_length.induct)
  case (1 n)
  show ?case
  proof (cases "n div 2 = 0")
    case True
    with 1 have "n = 1" by auto
    then show ?thesis by (simp add: bit_length_1)
  next
    case False
    with 1 have IH: "0 < bit_length (n div 2)" "2 ^ nat (bit_length (n div 2) - 1) \<le> n div 2"
      "n div 2 < 2 ^ nat (bit_length (n div 2))"
      by auto
    have len: "bit_length n = 1 + bit_length (n div 2)"
      using 1(2) by (subst bit_length.simps) simp
    have half: "2 ^ nat (1 + bit_length (n div 2)) = 2 * (2::int) ^ nat (bit_length (n div 2))"
      using IH(1) by (simp add: nat_add_distrib)
    have half': "2 ^ nat (bit_length (n div 2)) = 2 * (2::int) ^ nat (bit_length (n div 2) - 1)"
      using IH(1) by (metis Suc_nat_eq_nat_zadd1 add_diff_cancel_right' diff_add_cancel diff_ge_0_iff_ge int_one_le_iff_zero_less power_Suc add.commute)
    have "n = 2 * (n div 2) \<or> n = 2 * (n div 2) + 1" by presburger
    then show ?thesis using IH len half half' by (simp add: nat_add_distrib) linarith
  qed
qed

lemma pow2_powi: "pow2 e = 2 powi e"
  by (simp add: pow2_def power_int_def inverse_eq_divide power_one_over)

lemma pow2_add: "pow2 (a + b) = pow2 a * pow2 b"
  by (simp add: pow2_powi power_int_add)

lemma pow2_less_iff: "pow2 a < pow2 b \<longleftrightarrow> a < b"
  proof -
  have mono: "x < y \<Longrightarrow> pow2 x < pow2 y" for x y
    by (simp add: pow2_powi power_int_strict_increasing)
  then show ?thesis by (metis linorder_neqE not_less_iff_gr_or_eq)
qed
lemma pow2_nat: "0 \<le> k \<Longrightarrow> of_int (2 ^ nat k) = pow2 k"
  by (simp add: pow2_def)

lemma bit_length_pow2: "0 < n \<Longrightarrow> pow2 (bit_length n - 1) \<le> of_int n \<and> of_int n < pow2 (bit_length n)"
  using bit_length_bounds [of n]
  by (metis (no_types, lifting) diff_ge_0_iff_ge int_one_le_iff_zero_less less_imp_le of_int_le_iff of_int_less_iff pow2_nat)

lemma ulp_exponent_eq:
  assumes "pow2 (e + 52) \<le> r" and "r < pow2 (e + 53)" and "- 1074 \<le> e"
  shows "ulp_exponent r = e"
proof -
  obtain a b where q: "quotient_of r = (a, b)" by fastforce
  have r: "r = of_int a / of_int b" using quotient_of_div [OF q] .
  have b: "0 < b" using quotient_of_denom_pos [OF q] .
  have "0 < r" using assms(1) pow2_pos [of "e + 52"] by linarith
  then have a: "0 < a" using r b by (simp add: zero_less_divide_iff)
  let ?k = "bit_length a - bit_length b"
  have A: "pow2 (bit_length a - 1) \<le> of_int a" "of_int a < pow2 (bit_length a)"
    and B: "pow2 (bit_length b - 1) \<le> of_int b" "of_int b < pow2 (bit_length b)"
    using bit_length_pow2 a b by auto
  have rb: "of_int a = r * of_int b" using r b by simp
  have "pow2 (?k - 1) * pow2 (bit_length b) = pow2 (bit_length a - 1)"
    by (simp flip: pow2_add)
  also have "\<dots> \<le> r * of_int b" using A(1) rb by simp
  also have "\<dots> < r * pow2 (bit_length b)" using B(2) \<open>0 < r\<close> by simp
  finally have lo: "pow2 (?k - 1) < r" using pow2_pos by simp
  have "r * pow2 (bit_length b - 1) \<le> r * of_int b" using B(1) \<open>0 < r\<close> by simp
  also have "\<dots> < pow2 (bit_length a)" using A(2) rb by simp
  also have "\<dots> = pow2 (?k + 1) * pow2 (bit_length b - 1)" by (simp flip: pow2_add)
  finally have hi: "r < pow2 (?k + 1)" using pow2_pos by simp
  have "?k - 1 < e + 53" using lo assms(2) pow2_less_iff by (metis order.strict_trans)
  moreover have "e + 52 < ?k + 1" using hi assms(1) pow2_less_iff by (metis order.strict_trans1)
  ultimately consider "?k = e + 52" | "?k = e + 53" by linarith
  then show ?thesis
  proof cases
    case 1
    then have "\<not> r < pow2 ?k" using assms(1) by simp
    with 1 assms(3) show ?thesis by (simp add: ulp_exponent_def q Let_def)
  next
    case 2
    then have "r < pow2 ?k" using assms(2) by simp
    with 2 assms(3) show ?thesis by (simp add: ulp_exponent_def q Let_def)
  qed
qed

lemma nearest_evenI:
  assumes "\<bar>r - of_int m\<bar> < 1 / 2"
  shows "nearest_even r = m"
proof (cases "of_int m \<le> r")
  case True
  then have "\<lfloor>r\<rfloor> = m" using assms by (simp add: floor_eq_iff)
  then show ?thesis using assms True by (simp add: nearest_even_def Let_def)
next
  case False
  then have f: "\<lfloor>r\<rfloor> = m - 1" using assms by (simp add: floor_eq_iff abs_if split: if_splits)
  have "1 / 2 < r - of_int (m - 1)" using assms False by (simp add: abs_if split: if_splits)
  then show ?thesis by (simp add: nearest_even_def f Let_def)
qed

text \<open>How a concrete value is rounded: name the exponent and the nearest multiple.\<close>

lemma round_dbl_eval:
  assumes "pow2 (e + 52) \<le> r" and "r < pow2 (e + 53)" and "- 1074 \<le> e"
    and "\<bar>r / pow2 e - of_int m\<bar> < 1 / 2" and "of_int m * pow2 e < 2 ^ 1024"
  shows "round_dbl r = Dbl (of_int m * pow2 e)"
proof -
  have "0 < r" using assms(1) pow2_pos [of "e + 52"] by linarith
  then show ?thesis using ulp_exponent_eq [OF assms(1-3)] nearest_evenI [OF assms(4)] assms(5)
    by (simp add: round_dbl_def Let_def)
qed

section \<open>Reservations\<close>

text \<open>\<^verbatim>\<open>std::numeric_limits<quint64>::max()\<close>.\<close>

abbreviation u64_max :: u64 where
  "u64_max \<equiv> - 1"

record memory_estimate =
  weights_bytes :: u64
  context_bytes :: u64
  overhead_bytes :: u64
  basis :: qstring

definition total_bytes :: "memory_estimate \<Rightarrow> u64 res" where
  "total_bytes e =
     (if context_bytes e > u64_max - weights_bytes e
        \<or> overhead_bytes e > u64_max - weights_bytes e - context_bytes e
      then throw ResourceLimit ''Model memory estimate overflows''
      else Inr (weights_bytes e + context_bytes e + overhead_bytes e))"

definition memory_estimate_object :: "memory_estimate \<Rightarrow> json_object res" where
  "memory_estimate_object e = bindr (total_bytes e) (\<lambda>acc.
     Inr (jobj [(''estimated_bytes'', dbl_of_u64 acc), (''weights_bytes'', dbl_of_u64 (weights_bytes e)),
       (''context_bytes'', dbl_of_u64 (context_bytes e)), (''overhead_bytes'', dbl_of_u64 (overhead_bytes e)),
       (''basis'', JStr (basis e))]))"

fun kv_loop :: "u64 list \<Rightarrow> u64 \<Rightarrow> u64 res" where
  "kv_loop [] acc = Inr acc"
| "kv_loop (factor # rest) acc =
     (if factor > u64_max div acc
      then throw ResourceLimit ''Context memory estimate overflows''
      else kv_loop rest (acc * factor))"

definition kv_reservation :: "u64 \<Rightarrow> u64 \<Rightarrow> u64 \<Rightarrow> u64 \<Rightarrow> int \<Rightarrow> int \<Rightarrow> u64 res" where
  "kv_reservation layers heads key value tokens context_slots =
     (if tokens < 1 \<or> context_slots < 1
      then throw InvalidArgument ''Context reservation dimensions must be positive''
      else if layers = 0 \<or> heads = 0 \<or> key = 0 \<or> value = 0 then Inr 0
      else if key > 1048576 \<or> value > 1048576
      then throw ResourceLimit ''Invalid attention dimensions''
      else kv_loop [layers, heads, key + value, word_of_int tokens, word_of_int context_slots] 2)"

text \<open>
  What \<^verbatim>\<open>QFileInfo\<close> and \<^verbatim>\<open>QDirIterator\<close> say of a path: nothing, a regular file
  with its size, or a directory with the sizes of the regular files below it.
\<close>

datatype path_info = Missing | RegularFile u64 | DirectoryOf "u64 list"

definition base_estimate_memory :: "(qstring \<Rightarrow> path_info) \<Rightarrow> model_spec \<Rightarrow> int \<Rightarrow> memory_estimate" where
  "base_estimate_memory stat spec context_slots =
     (let weights = (case stat (spec_path spec) of
          RegularFile n \<Rightarrow> n | DirectoryOf sizes \<Rightarrow> sum_list sizes | Missing \<Rightarrow> 0)
      in \<lparr>weights_bytes = weights,
          context_bytes = word_of_int (spec_context_tokens spec) * word_of_int context_slots * 256 * 1024,
          overhead_bytes = max (256 * 1024 * 1024) (weights div 4),
          basis = qs ''file sizes + conservative unknown-architecture context reserve''\<rparr>)"

section \<open>Durations\<close>

fun unit_factor :: "qstring \<Rightarrow> rat option" where
  "unit_factor u =
     (if u = qs ''ms'' then Some 1 else if u = qs ''m'' then Some 60000
      else if u = qs ''h'' then Some 3600000 else if u = qs ''s'' \<or> u = [] then Some 1000 else None)"

text \<open>
  \<^verbatim>\<open>^([0-9]+(?:\.[0-9]+)?)(ms|s|m|h)?$\<close> followed by the conversion of the first capture and
  the multiplication by the unit.
\<close>

definition keep_alive_text :: "qstring \<Rightarrow> dbl option" where
  "keep_alive_text s0 =
     (let s = before_dollar s0; whole = takeWhile is_digit s; rest = dropWhile is_digit s;
          fraction = (case rest of c # r \<Rightarrow> if c = 46 then takeWhile is_digit r else [] | [] \<Rightarrow> []);
          unit_text = (if fraction = [] then rest else drop (Suc (length fraction)) rest);
          value = of_nat (digits_value 0 (whole @ fraction)) / 10 ^ length fraction
      in if whole = [] then None
         else case unit_factor unit_text of None \<Rightarrow> None
           | Some u \<Rightarrow> Some (dbl_mult (round_dbl value) (Dbl u)))"

definition parse_keep_alive :: "json \<Rightarrow> int res" where
  "parse_keep_alive value =
     (if value = JUndefined then Inr (- 1)
      else let ms = (case value of
             JNum q \<Rightarrow> dbl_mult (Dbl q) (Dbl 1000)
           | JStr s \<Rightarrow> (case keep_alive_text s of Some d \<Rightarrow> d | None \<Rightarrow> Dbl (- 1))
           | _ \<Rightarrow> Dbl (- 1))
        in case ms of
             NonFinite \<Rightarrow> throw InvalidArgument ''keep_alive must be 0..7 days in seconds or ms/s/m/h, with millisecond precision''
           | Dbl q \<Rightarrow> (if q < 0 \<or> q > 7 * 86400000 \<or> q \<noteq> of_int \<lfloor>q\<rfloor>
               then throw InvalidArgument ''keep_alive must be 0..7 days in seconds or ms/s/m/h, with millisecond precision''
               else Inr \<lfloor>q\<rfloor>))"

section \<open>Lemmas\<close>

lemma unat_u64_max: "unat u64_max = 2 ^ 64 - 1"
  by (simp add: unsigned_minus_1_eq_mask mask_eq_exp_minus_1)

lemma unat_bound: "unat (w::u64) < 2 ^ 64"
  using unsigned_less [of w, where ?'a = nat] by simp

text \<open>One guarded multiplication: the guard is exactly the absence of overflow.\<close>

lemma guard_mult:
  assumes "acc \<noteq> (0::u64)"
  shows "factor > u64_max div acc \<longleftrightarrow> \<not> unat acc * unat factor < 2 ^ 64"
proof -
  have pos: "0 < unat acc" using assms by (simp add: unat_gt_0)
  have "factor > u64_max div acc \<longleftrightarrow> (2 ^ 64 - 1) div unat acc < unat factor"
    by (simp add: word_less_nat_alt unat_div unat_u64_max)
  also have "\<dots> \<longleftrightarrow> 2 ^ 64 - 1 < unat factor * unat acc"
    using div_less_iff_less_mult [OF pos] by simp
  also have "\<dots> \<longleftrightarrow> 2 ^ 64 \<le> unat acc * unat factor"
    by (simp add: mult.commute) linarith
  finally show ?thesis by (simp only: not_less)
qed

lemma kv_loop_exact:
  assumes "acc \<noteq> 0" and "0 \<notin> set factors"
  shows "kv_loop factors acc =
    (if unat acc * prod_list (map unat factors) < 2 ^ 64
     then Inr (of_nat (unat acc * prod_list (map unat factors)))
     else throw ResourceLimit ''Context memory estimate overflows'')"
  using assms
proof (induction factors arbitrary: acc)
  case Nil
  then show ?case using unat_bound [of acc] by simp
next
  case (Cons f fs)
  show ?case
  proof (cases "unat acc * unat f < 2 ^ 64")
    case True
    then have prod: "unat (acc * f) = unat acc * unat f"
      by (simp add: unat_word_ariths)
    moreover have "acc * f \<noteq> 0"
      using Cons.prems prod by (metis list.set_intros(1) mult_eq_0_iff unat_0 unat_eq_zero)
    ultimately show ?thesis
      using Cons guard_mult [of acc f] True by (simp add: mult.assoc)
  next
    case False
    have "1 \<le> prod_list (map unat fs)"
      using Cons.prems(2) by (induction fs) (auto simp: Suc_le_eq unat_gt_0)
    then have "unat acc * unat f \<le> unat acc * unat f * prod_list (map unat fs)"
      by (metis mult.right_neutral mult_le_mono2)
    with False have "\<not> unat acc * prod_list (map unat (f # fs)) < 2 ^ 64"
      by (simp only: list.map prod_list.Cons mult.assoc not_less)
    moreover have "f > u64_max div acc" using guard_mult [of acc f] Cons.prems(1) False by blast
    ultimately show ?thesis by (simp only: kv_loop.simps if_True if_False)
  qed
qed


lemma total_bytes_sum:
  "total_bytes e = (let n = unat (weights_bytes e) + unat (context_bytes e) + unat (overhead_bytes e) in
     if n < 2 ^ 64 then Inr (of_nat n) else throw ResourceLimit ''Model memory estimate overflows'')"
proof -
  define w c v where "w = weights_bytes e" and "c = context_bytes e" and "v = overhead_bytes e"
  have sub1: "unat (u64_max - w) = 2 ^ 64 - 1 - unat w"
    using unat_sub [of w u64_max] unat_u64_max by simp
  have first: "c > u64_max - w \<longleftrightarrow> 2 ^ 64 \<le> unat w + unat c"
    using unat_bound [of w] by (simp add: word_less_nat_alt sub1) linarith
  have second: "v > u64_max - w - c \<longleftrightarrow> 2 ^ 64 \<le> unat w + unat c + unat v"
    if "\<not> c > u64_max - w"
  proof -
    have "unat (u64_max - w - c) = 2 ^ 64 - 1 - unat w - unat c"
      using that unat_sub [of c "u64_max - w"] sub1 by (simp add: not_less)
    then show ?thesis
      using that first by (simp add: word_less_nat_alt) linarith
  qed
  have "total_bytes e = (if 2 ^ 64 \<le> unat w + unat c + unat v
      then throw ResourceLimit ''Model memory estimate overflows'' else Inr (w + c + v))"
    unfolding total_bytes_def w_def [symmetric] c_def [symmetric] v_def [symmetric]
    using first second by (auto simp: trans_le_add1)
  moreover have "w + c + v = of_nat (unat w + unat c + unat v)" by simp
  ultimately show ?thesis by (simp add: Let_def w_def c_def v_def not_less)
qed

section \<open>Properties\<close>

text \<open>
  The KV reservation never wraps: with positive token and slot counts and nonzero dimensions of
  at most 1048576, it is the exact product \<open>2 * layers * heads * (key + value) * tokens * slots\<close>
  when that fits 64 bits, and the resource-limit error exactly when it does not.
\<close>

theorem kv_reservation_exact:
  assumes "0 < tokens" "tokens < 2 ^ 31" "0 < slots" "slots < 2 ^ 31"
    and "layers \<noteq> 0" "heads \<noteq> 0" "key \<noteq> 0" "value \<noteq> 0" "key \<le> 1048576" "value \<le> 1048576"
  shows "kv_reservation layers heads key value tokens slots =
    (let n = 2 * unat layers * unat heads * (unat key + unat value) * nat tokens * nat slots in
     if n < 2 ^ 64 then Inr (of_nat n) else throw ResourceLimit ''Context memory estimate overflows'')"
proof -
  have small: "unat key \<le> 1048576" "unat value \<le> 1048576"
    using assms(9,10) by (simp_all add: word_le_nat_alt)
  have sum: "unat (key + value) = unat key + unat value"
    using small by (simp add: unat_word_ariths)
  have conv: "unat (word_of_int n :: u64) = nat n" if "0 < n" "n < 2 ^ 31" for n
    using that by (simp add: unsigned_of_int unsigned_of_nat take_bit_int_eq_self nat_take_bit_eq)
  have "0 < unat key" using assms(7) by (simp add: unat_gt_0)
  then have "key + value \<noteq> 0" using sum by (metis add_gr_0 less_numeral_extra(3) unat_0)
  moreover have "word_of_int tokens \<noteq> (0::u64)" "word_of_int slots \<noteq> (0::u64)"
    using conv [of tokens] conv [of slots] assms(1-4) by (metis nat_0_iff not_less unat_0)+
  ultimately have "kv_loop [layers, heads, key + value, word_of_int tokens, word_of_int slots] 2 =
     (if unat (2::u64) * prod_list (map unat [layers, heads, key + value, word_of_int tokens, word_of_int slots])
           < 2 ^ 64
      then Inr (of_nat (unat (2::u64) * prod_list (map unat [layers, heads, key + value,
             word_of_int tokens, word_of_int slots])))
      else throw ResourceLimit ''Context memory estimate overflows'')"
    using assms(5,6) by (intro kv_loop_exact) auto
  moreover have "unat (2::u64) * prod_list (map unat [layers, heads, key + value, word_of_int tokens, word_of_int slots])
      = 2 * unat layers * unat heads * (unat key + unat value) * nat tokens * nat slots"
    using conv [of tokens] conv [of slots] assms(1-4) by (simp add: sum mult.assoc)
  moreover have "\<not> 1048576 < key" "\<not> 1048576 < value" "\<not> tokens < 1" "\<not> slots < 1"
    using assms(1,3,9,10) leD by auto
  then have "kv_reservation layers heads key value tokens slots
      = kv_loop [layers, heads, key + value, word_of_int tokens, word_of_int slots] 2"
    using assms(5-8) by (simp add: kv_reservation_def del: kv_loop.simps)
  ultimately show ?thesis by (simp only: Let_def)
qed

theorem kv_reservation_exact_witness:
  "kv_reservation 32 8 128 128 4096 4 = Inr (2 * 32 * 8 * 256 * 4096 * 4)
   \<and> kv_reservation (2 ^ 40) (2 ^ 20) 128 128 4096 4 = throw ResourceLimit ''Context memory estimate overflows''"
  using kv_reservation_exact [of 4096 4 32 8 128 128] kv_reservation_exact [of 4096 4 "2 ^ 40" "2 ^ 20" 128 128]
  by (simp add: Let_def)

text \<open>
  The total of an estimate is the exact sum of its three parts or the resource-limit error,
  never a wrapped value, and the JSON view of the estimate is produced in exactly the first case.
\<close>

theorem total_bytes_exact:
  "let n = unat (weights_bytes e) + unat (context_bytes e) + unat (overhead_bytes e) in
     total_bytes e = (if n < 2 ^ 64 then Inr (of_nat n)
       else throw ResourceLimit ''Model memory estimate overflows'')
     \<and> (ok (memory_estimate_object e) \<longleftrightarrow> n < 2 ^ 64)"
  using total_bytes_sum [of e] by (simp add: Let_def memory_estimate_object_def)

text \<open>
  An accepted \<^verbatim>\<open>keep_alive\<close> is minus one exactly for a missing value and otherwise a
  number of milliseconds in 0..7 days; every whole number of seconds of that range is accepted
  with its exact value.
\<close>

theorem parse_keep_alive_range:
  "(parse_keep_alive v = Inr n \<longrightarrow> (n = - 1 \<and> v = JUndefined) \<or> (0 \<le> n \<and> n \<le> 604800000))
   \<and> (k \<le> 604800 \<longrightarrow> parse_keep_alive (JNum (of_nat k)) = Inr (1000 * int k))"
proof (intro conjI impI)
  assume v: "parse_keep_alive v = Inr n"
  show "(n = - 1 \<and> v = JUndefined) \<or> (0 \<le> n \<and> n \<le> 604800000)"
  proof (cases "v = JUndefined")
    case True
    with v show ?thesis by (simp add: parse_keep_alive_def)
  next
    case False
    with v show ?thesis
      by (auto simp: parse_keep_alive_def Let_def not_less split: dbl.splits if_splits)
  qed
next
  assume "k \<le> 604800"
  then have "round_dbl (of_nat (k * 1000)) = Dbl (of_nat (k * 1000))"
    by (intro round_dbl_nat) simp
  then have "dbl_mult (Dbl (of_nat k)) (Dbl 1000) = Dbl (of_int (1000 * int k))"
    by (simp add: mult.commute)
  moreover have "\<lfloor>(of_int (1000 * int k) :: rat)\<rfloor> = 1000 * int k" by (rule floor_of_int)
  moreover have "(of_int (1000 * int k) :: rat) \<le> 604800000"
    using \<open>k \<le> 604800\<close> by simp
  ultimately show "parse_keep_alive (JNum (of_nat k)) = Inr (1000 * int k)"
    by (simp add: parse_keep_alive_def)
qed

theorem parse_keep_alive_range_witness:
  "parse_keep_alive (JNum 300) = Inr 300000 \<and> parse_keep_alive JUndefined = Inr (- 1)"
  using parse_keep_alive_range [of JUndefined "- 1" 300] by (simp add: parse_keep_alive_def)

text \<open>
  Millisecond precision is not available for every duration: the rounding of the product
  rejects 1.001 seconds, although the same duration is accepted as 1001 milliseconds.
\<close>

theorem keep_alive_rejects_a_millisecond_value:
  "\<not> ok (parse_keep_alive (JStr (qs ''1.001s''))) \<and> parse_keep_alive (JStr (qs ''1001ms'')) = Inr 1001"
proof -
  have "round_dbl (1001 / 1000) = Dbl (4508103226997866 / 4503599627370496)"
    using round_dbl_eval [of "- 52" "1001 / 1000" 4508103226997866] by (simp add: pow2_def)
  moreover have "round_dbl (1000 * (4508103226997866 / 4503599627370496))
      = Dbl (8804889115230207 / 8796093022208)"
    using round_dbl_eval [of "- 43" "1000 * (4508103226997866 / 4503599627370496)" 8804889115230207]
    by (simp add: pow2_def)
  ultimately have seconds: "keep_alive_text (qs ''1.001s'') = Some (Dbl (8804889115230207 / 8796093022208))"
    by (simp add: keep_alive_text_def before_dollar_def qs_def qc_def is_digit_def Let_def)
  have millis: "keep_alive_text (qs ''1001ms'') = Some (Dbl 1001)"
    using round_dbl_nat [of 1001]
    by (simp add: keep_alive_text_def before_dollar_def qs_def qc_def is_digit_def Let_def)
  have "\<lfloor>8804889115230207 / 8796093022208 :: rat\<rfloor> = 1000" by (simp add: floor_eq_iff)
  then show ?thesis by (simp add: parse_keep_alive_def seconds millis)
qed

end
