(* ===== verification/Hardware.thy ===== *)
theory Hardware
  imports Types "HOL-Library.Product_Lexorder"
begin

text \<open>
  The hardware inventory and the service's execution-device policy
  (\<^verbatim>\<open>src/hardware/Hardware.h\<close>, \<^verbatim>\<open>src/hardware/Hardware.cpp\<close>,
  \<^verbatim>\<open>src/hardware/Platform.cpp\<close>). What the operating system reports is an argument.
\<close>

section \<open>Inventory\<close>

datatype compute_backend = Cpu | Metal | Cuda | Vulkan

datatype gpu_vendor = UnknownVendor | Apple | Nvidia | Amd | Intel

fun backend_name :: "compute_backend \<Rightarrow> qstring" where
  "backend_name Cpu = qs ''cpu''"
| "backend_name Metal = qs ''metal''"
| "backend_name Cuda = qs ''cuda''"
| "backend_name Vulkan = qs ''vulkan''"

fun vendor_name :: "gpu_vendor \<Rightarrow> qstring" where
  "vendor_name Apple = qs ''apple''"
| "vendor_name Nvidia = qs ''nvidia''"
| "vendor_name Amd = qs ''amd''"
| "vendor_name Intel = qs ''intel''"
| "vendor_name UnknownVendor = qs ''unknown''"

record gpu_info =
  gpu_id :: qstring
  gpu_name :: qstring
  gpu_vendor :: gpu_vendor
  vram_bytes :: "u64 option"
  unified_memory :: "bool option"
  recommended_working_set_bytes :: "u64 option"
  available_backends :: "compute_backend list"

record hardware_info =
  cpu_architecture :: qstring
  ram_bytes :: "u64 option"
  apple_silicon :: bool
  gpus :: "gpu_info list"
  metal_available :: bool
  cuda_available :: bool
  vulkan_available :: bool
  diagnostics :: "qstring list"

record runtime_device =
  dev_backend :: compute_backend
  dev_id :: qstring

record execution_selection =
  sel_runtime :: qstring
  sel_device :: runtime_device
  sel_reason :: qstring
  sel_fallback_reasons :: "qstring list"

definition empty_hardware :: hardware_info where
  "empty_hardware = \<lparr>cpu_architecture = [], ram_bytes = None, apple_silicon = False, gpus = [],
     metal_available = False, cuda_available = False, vulkan_available = False, diagnostics = []\<rparr>"

text \<open>\<^verbatim>\<open>QString::contains(pattern, Qt::CaseInsensitive)\<close> for ASCII patterns.\<close>

definition contains_ci :: "string \<Rightarrow> qstring \<Rightarrow> bool" where
  "contains_ci p s = contains (to_lower (qs p)) (to_lower s)"

definition vendor_of_name :: "qstring \<Rightarrow> gpu_vendor" where
  "vendor_of_name name =
     (if contains_ci ''Apple'' name then Apple
      else if contains_ci ''NVIDIA'' name then Nvidia
      else if contains_ci ''AMD'' name \<or> contains_ci ''Radeon'' name then Amd
      else if contains_ci ''Intel'' name then Intel
      else UnknownVendor)"

definition pci_vendor :: "u32 \<Rightarrow> gpu_vendor" where
  "pci_vendor i = (if i = 0x10de then Nvidia else if i = 0x1002 \<or> i = 0x1022 then Amd
     else if i = 0x8086 then Intel else if i = 0x106b then Apple else UnknownVendor)"

text \<open>One directory of \<^verbatim>\<open>/sys/bus/pci/devices\<close>: its name and its parsed files.\<close>

record pci_entry =
  pci_name :: qstring
  pci_class :: "u32 option"
  pci_vendor_id :: u32
  pci_vram :: "u64 option"

definition pci_gpu :: "pci_entry \<Rightarrow> gpu_info option" where
  "pci_gpu e = (case pci_class e of None \<Rightarrow> None | Some c \<Rightarrow>
     if drop_bit 16 c \<noteq> 3 then None
     else let v = pci_vendor (pci_vendor_id e) in
       Some \<lparr>gpu_id = qs ''pci/'' @ pci_name e, gpu_name = vendor_name v @ qs '' PCI '' @ pci_name e,
         gpu_vendor = v,
         vram_bytes = (case pci_vram e of Some n \<Rightarrow> if n > 0 then Some n else None | None \<Rightarrow> None),
         unified_memory = None, recommended_working_set_bytes = None, available_backends = []\<rparr>)"

definition probe_linux :: "int \<Rightarrow> int \<Rightarrow> pci_entry list \<Rightarrow> hardware_info \<Rightarrow> hardware_info" where
  "probe_linux pages page_size entries h =
     (let h' = (if pages > 0 \<and> page_size > 0
          then h\<lparr>ram_bytes := Some (word_of_int pages * word_of_int page_size)\<rparr> else h)
      in h'\<lparr>gpus := gpus h' @ List.map_filter pci_gpu entries\<rparr>)"

text \<open>
  \<^verbatim>\<open>detectHardware\<close>: the platform probe, the llama.cpp probe, then one flag per backend
  that some adapter offers.
\<close>

definition detect_hardware :: "qstring \<Rightarrow> (hardware_info \<Rightarrow> hardware_info) \<Rightarrow>
    (hardware_info \<Rightarrow> hardware_info) \<Rightarrow> hardware_info" where
  "detect_hardware arch probe_platform probe_llama =
     (let h = probe_llama (probe_platform (empty_hardware\<lparr>cpu_architecture := arch\<rparr>)) in
      h\<lparr>metal_available := metal_available h \<or> (\<exists>g \<in> set (gpus h). Metal \<in> set (available_backends g)),
        cuda_available := cuda_available h \<or> (\<exists>g \<in> set (gpus h). Cuda \<in> set (available_backends g)),
        vulkan_available := vulkan_available h \<or> (\<exists>g \<in> set (gpus h). Vulkan \<in> set (available_backends g))\<rparr>)"

section \<open>Device policy\<close>

record ranked =
  rk_device :: runtime_device
  rk_rank :: nat
  rk_memory :: u64

definition find_gpu :: "hardware_info \<Rightarrow> qstring \<Rightarrow> gpu_info option" where
  "find_gpu h i = find (\<lambda>g. gpu_id g = i) (gpus h)"

definition gpu_memory :: "gpu_info \<Rightarrow> u64" where
  "gpu_memory g = (case vram_bytes g of Some n \<Rightarrow> n
     | None \<Rightarrow> (case recommended_working_set_bytes g of Some n \<Rightarrow> n | None \<Rightarrow> 0))"

definition rank_gpu :: "hardware_info \<Rightarrow> gpu_info \<Rightarrow> compute_backend \<Rightarrow> nat option" where
  "rank_gpu h g b =
     (if apple_silicon h \<and> metal_available h \<and> gpu_vendor g = Apple \<and> b = Metal then Some 0
      else if cuda_available h \<and> gpu_vendor g = Nvidia \<and> b = Cuda then Some 1
      else if vulkan_available h \<and> (gpu_vendor g = Amd \<or> gpu_vendor g = Intel) \<and> b = Vulkan then Some 2
      else None)"

definition rank_device :: "hardware_info \<Rightarrow> runtime_device \<Rightarrow> ranked option" where
  "rank_device h d =
     (if dev_backend d = Cpu
      then (if dev_id d = [] then Some \<lparr>rk_device = d, rk_rank = 3, rk_memory = 0\<rparr> else None)
      else case find_gpu h (dev_id d) of
        None \<Rightarrow> None
      | Some g \<Rightarrow> if dev_backend d \<notin> set (available_backends g) then None
          else case rank_gpu h g (dev_backend d) of
            None \<Rightarrow> None
          | Some r \<Rightarrow> Some \<lparr>rk_device = d, rk_rank = r, rk_memory = gpu_memory g\<rparr>)"

fun rank_all :: "hardware_info \<Rightarrow> runtime_device list \<Rightarrow> ranked list \<Rightarrow> ranked list" where
  "rank_all h [] acc = acc"
| "rank_all h (d # ds) acc =
     (if d \<in> set (map rk_device acc) then rank_all h ds acc
      else case rank_device h d of None \<Rightarrow> rank_all h ds acc | Some r \<Rightarrow> rank_all h ds (acc @ [r]))"

text \<open>The comparator of the sort: rank, then more memory first, then the device id.\<close>

definition rank_key :: "ranked \<Rightarrow> nat \<times> int \<times> qstring" where
  "rank_key r = (rk_rank r, - int (unat (rk_memory r)), dev_id (rk_device r))"

definition order_execution_devices :: "hardware_info \<Rightarrow> runtime_device list \<Rightarrow> runtime_device list" where
  "order_execution_devices h supported = map rk_device (sort_key rank_key (rank_all h supported []))"

section \<open>JSON views\<close>

definition bytes_json :: "u64 option \<Rightarrow> json" where
  "bytes_json n = (case n of Some w \<Rightarrow> JNum (of_int (sint w)) | None \<Rightarrow> JNull)"

definition gpu_object :: "gpu_info \<Rightarrow> json" where
  "gpu_object g = JObj (jobj [(''id'', JStr (gpu_id g)), (''name'', JStr (gpu_name g)),
     (''vendor'', JStr (vendor_name (gpu_vendor g))), (''vram_bytes'', bytes_json (vram_bytes g)),
     (''unified_memory'', case unified_memory g of Some b \<Rightarrow> JBool b | None \<Rightarrow> JNull),
     (''recommended_working_set_bytes'', bytes_json (recommended_working_set_bytes g)),
     (''available_backends'', jstrings (map backend_name (available_backends g)))])"

definition hardware_object :: "hardware_info \<Rightarrow> json_object" where
  "hardware_object h = jobj [(''cpu_architecture'', JStr (cpu_architecture h)),
     (''ram_bytes'', bytes_json (ram_bytes h)), (''apple_silicon'', JBool (apple_silicon h)),
     (''gpus'', JArr (map gpu_object (gpus h))), (''metal_available'', JBool (metal_available h)),
     (''cuda_available'', JBool (cuda_available h)), (''vulkan_available'', JBool (vulkan_available h)),
     (''diagnostics'', jstrings (diagnostics h))]"

definition execution_object :: "execution_selection \<Rightarrow> json_object" where
  "execution_object s = jobj [(''runtime'', JStr (sel_runtime s)),
     (''backend'', JStr (backend_name (dev_backend (sel_device s)))),
     (''device_id'', JStr (dev_id (sel_device s))), (''reason'', JStr (sel_reason s)),
     (''fallback_reasons'', jstrings (sel_fallback_reasons s))]"

section \<open>Lemmas\<close>

text \<open>What the policy admits, without the order of the loop.\<close>

definition eligible :: "hardware_info \<Rightarrow> runtime_device \<Rightarrow> bool" where
  "eligible h d \<longleftrightarrow> rank_device h d \<noteq> None"

lemma rank_device_device: "rank_device h d = Some r \<Longrightarrow> rk_device r = d"
  by (auto simp: rank_device_def split: if_splits option.splits)

lemma rank_all_set:
  "set (map rk_device (rank_all h ds acc))
     = set (map rk_device acc) \<union> {d \<in> set ds. eligible h d \<and> d \<notin> set (map rk_device acc)}"
proof (induction ds arbitrary: acc)
  case Nil
  then show ?case by simp
next
  case (Cons d ds)
  show ?case
  proof (cases "rank_device h d")
    case None
    with Cons [of acc] show ?thesis by (auto simp: eligible_def)
  next
    case (Some r)
    then have "rk_device r = d" by (rule rank_device_device)
    with Some Cons [of "acc @ [r]"] Cons [of acc] show ?thesis by (auto simp: eligible_def)
  qed
qed

lemma rank_all_distinct:
  "distinct (map rk_device acc) \<Longrightarrow> distinct (map rk_device (rank_all h ds acc))"
  by (induction ds arbitrary: acc) (auto split: option.splits dest: rank_device_device)

lemma rank_all_ranks:
  "\<forall>r \<in> set acc. rank_device h (rk_device r) = Some r \<Longrightarrow>
     \<forall>r \<in> set (rank_all h ds acc). rank_device h (rk_device r) = Some r"
proof (induction ds arbitrary: acc)
  case Nil
  then show ?case by simp
next
  case (Cons d ds)
  show ?case
  proof (cases "d \<in> set (map rk_device acc) \<or> rank_device h d = None")
    case True
    with Cons.IH [OF Cons.prems] show ?thesis by (auto split: option.split)
  next
    case False
    then obtain r where r: "rank_device h d = Some r" "d \<notin> set (map rk_device acc)" by auto
    then have "\<forall>x \<in> set (acc @ [r]). rank_device h (rk_device x) = Some x"
      using Cons.prems rank_device_device [OF r(1)] by simp
    from Cons.IH [OF this] r show ?thesis by simp
  qed
qed

lemma sorted_policy:
  "sorted_wrt (\<lambda>a b. rank_key (the (rank_device h a)) \<le> rank_key (the (rank_device h b)))
     (order_execution_devices h ds)"
proof -
  let ?rs = "sort_key rank_key (rank_all h ds [])"
  have ranks: "rank_device h (rk_device r) = Some r" if "r \<in> set ?rs" for r
    using rank_all_ranks [of "[]" h ds] that by simp
  have "sorted_wrt (\<lambda>a b. rank_key a \<le> rank_key b) ?rs"
    using sorted_sort_key [of rank_key "rank_all h ds []"] by (simp add: sorted_wrt_map)
  then have "sorted_wrt (\<lambda>a b. rank_key (the (rank_device h (rk_device a)))
      \<le> rank_key (the (rank_device h (rk_device b)))) ?rs"
    by (rule sorted_wrt_mono_rel [rotated]) (simp add: ranks)
  then show ?thesis by (simp add: order_execution_devices_def sorted_wrt_map)
qed

lemma rank_3_iff_cpu: "rank_device h d = Some r \<Longrightarrow> rk_rank r = 3 \<longleftrightarrow> dev_backend d = Cpu"
  by (auto simp: rank_device_def rank_gpu_def split: if_splits option.splits)

lemma rank_le_3: "rank_device h d = Some r \<Longrightarrow> rk_rank r \<le> 3"
  by (auto simp: rank_device_def rank_gpu_def split: if_splits option.splits)

lemma order_set: "set (order_execution_devices h supported) = {d \<in> set supported. eligible h d}"
  using rank_all_set [of h supported "[]"] by (simp add: order_execution_devices_def)

text \<open>A CPU device is never before a GPU device.\<close>

lemma cpu_last:
  "sorted_wrt (\<lambda>a b. dev_backend a = Cpu \<longrightarrow> dev_backend b = Cpu) (order_execution_devices h supported)"
proof (rule sorted_wrt_mono_rel [OF _ sorted_policy])
  fix a b
  assume "a \<in> set (order_execution_devices h supported)" "b \<in> set (order_execution_devices h supported)"
    and le: "rank_key (the (rank_device h a)) \<le> rank_key (the (rank_device h b))"
  then obtain ra rb where r: "rank_device h a = Some ra" "rank_device h b = Some rb"
    by (auto simp: order_set eligible_def)
  then have "rk_rank ra \<le> rk_rank rb" using le by (auto simp: rank_key_def less_eq_prod_def)
  then show "dev_backend a = Cpu \<longrightarrow> dev_backend b = Cpu"
    using rank_3_iff_cpu [OF r(1)] rank_3_iff_cpu [OF r(2)] rank_le_3 [OF r(2)] by linarith
qed

section \<open>Properties\<close>

text \<open>
  C32. The device order is exactly the policy: the result holds each supported device the policy
  admits once and nothing else, sorted by rank, then by memory (more first), then by id; a GPU
  device in it belongs to an observed adapter that offers the backend and has the vendor the
  policy requires for it, and a CPU device is never before a GPU device.
\<close>

theorem order_execution_devices_policy:
  "let ds = order_execution_devices h supported in
     distinct ds \<and> set ds = {d \<in> set supported. eligible h d}
     \<and> sorted_wrt (\<lambda>a b. rank_key (the (rank_device h a)) \<le> rank_key (the (rank_device h b))) ds
     \<and> sorted_wrt (\<lambda>a b. dev_backend a = Cpu \<longrightarrow> dev_backend b = Cpu) ds
     \<and> (\<forall>d \<in> set ds. dev_backend d \<noteq> Cpu \<longrightarrow> (\<exists>g. find_gpu h (dev_id d) = Some g
          \<and> dev_backend d \<in> set (available_backends g) \<and> rank_gpu h g (dev_backend d) \<noteq> None))"
proof -
  let ?ds = "order_execution_devices h supported"
  have set: "set ?ds = {d \<in> set supported. eligible h d}"
    using rank_all_set [of h supported "[]"] by (simp add: order_execution_devices_def)
  have "distinct (map rk_device (rank_all h supported []))" by (rule rank_all_distinct) simp
  then have dist: "distinct ?ds"
    by (simp add: order_execution_devices_def distinct_map)
  have "\<exists>g. find_gpu h (dev_id d) = Some g \<and> dev_backend d \<in> set (available_backends g)
      \<and> rank_gpu h g (dev_backend d) \<noteq> None" if "d \<in> set ?ds" "dev_backend d \<noteq> Cpu" for d
    using that set by (auto simp: eligible_def rank_device_def split: option.splits if_splits)
  with set dist cpu_last [of h supported] sorted_policy [of h supported] show ?thesis by (simp add: Let_def)
qed

definition sample_gpu :: "string \<Rightarrow> gpu_vendor \<Rightarrow> u64 \<Rightarrow> compute_backend list \<Rightarrow> gpu_info" where
  "sample_gpu i v m bs = \<lparr>gpu_id = qs i, gpu_name = [], gpu_vendor = v, vram_bytes = Some m,
     unified_memory = None, recommended_working_set_bytes = None, available_backends = bs\<rparr>"

definition sample_hardware :: hardware_info where
  "sample_hardware = detect_hardware (qs ''x86_64'') (\<lambda>h. h)
     (\<lambda>h. h\<lparr>gpus := [sample_gpu ''a'' Nvidia 8 [Cuda, Vulkan], sample_gpu ''b'' Nvidia 24 [Cuda],
        sample_gpu ''c'' Amd 16 [Vulkan]]\<rparr>)"

definition sample_devices :: "runtime_device list" where
  "sample_devices = [\<lparr>dev_backend = Cpu, dev_id = []\<rparr>, \<lparr>dev_backend = Cuda, dev_id = qs ''a''\<rparr>,
      \<lparr>dev_backend = Vulkan, dev_id = qs ''a''\<rparr>, \<lparr>dev_backend = Vulkan, dev_id = qs ''c''\<rparr>,
      \<lparr>dev_backend = Cuda, dev_id = qs ''b''\<rparr>, \<lparr>dev_backend = Cpu, dev_id = []\<rparr>]"

theorem order_execution_devices_policy_witness:
  "order_execution_devices sample_hardware sample_devices
     = [\<lparr>dev_backend = Cuda, dev_id = qs ''b''\<rparr>, \<lparr>dev_backend = Cuda, dev_id = qs ''a''\<rparr>,
        \<lparr>dev_backend = Vulkan, dev_id = qs ''c''\<rparr>, \<lparr>dev_backend = Cpu, dev_id = []\<rparr>]
   \<and> {\<lparr>dev_backend = Cuda, dev_id = qs ''b''\<rparr>, \<lparr>dev_backend = Cuda, dev_id = qs ''a''\<rparr>,
       \<lparr>dev_backend = Vulkan, dev_id = qs ''c''\<rparr>, \<lparr>dev_backend = Cpu, dev_id = []\<rparr>}
     = {d \<in> set sample_devices. eligible sample_hardware d}"
proof -
  have run: "order_execution_devices sample_hardware sample_devices
     = [\<lparr>dev_backend = Cuda, dev_id = qs ''b''\<rparr>, \<lparr>dev_backend = Cuda, dev_id = qs ''a''\<rparr>,
        \<lparr>dev_backend = Vulkan, dev_id = qs ''c''\<rparr>, \<lparr>dev_backend = Cpu, dev_id = []\<rparr>]"
    by (simp add: order_execution_devices_def sample_hardware_def sample_devices_def
        detect_hardware_def empty_hardware_def sample_gpu_def
        rank_device_def find_gpu_def rank_gpu_def gpu_memory_def rank_key_def)
  have "set (order_execution_devices sample_hardware sample_devices)
     = {d \<in> set sample_devices. eligible sample_hardware d}"
    using order_execution_devices_policy [of sample_hardware sample_devices] by (simp only: Let_def)
  then show ?thesis using run by simp
qed

end
