(* ===== verification/Residency.thy ===== *)
theory Residency
  imports Memory Hardware
begin

text \<open>
  The residency policy of loaded models (\<^verbatim>\<open>src/service/ModelResidencyManager.h\<close>,
  \<^verbatim>\<open>src/service/ModelResidencyManager.cpp\<close>): the memory budget, leases, idle expiry and the
  least recently used victim. Time points are nanoseconds of the steady clock and are arguments.
  The interface \<open>lease_table\<close> is what a client that brackets its work by acquire and release
  relies on.
\<close>

section \<open>The lease interface\<close>

locale lease_table =
  fixes acq :: "'k \<Rightarrow> 's \<Rightarrow> 's res"
    and rel :: "'k \<Rightarrow> 's \<Rightarrow> 's res"
    and held :: "'s \<Rightarrow> 'k \<Rightarrow> int"
    and good :: "'s \<Rightarrow> bool"
  assumes acq_held: "good s \<Longrightarrow> acq k s = Inr s' \<Longrightarrow> held s' = (held s)(k := held s k + 1)"
    and acq_good: "good s \<Longrightarrow> acq k s = Inr s' \<Longrightarrow> good s'"
    and rel_held: "good s \<Longrightarrow> rel k s = Inr s' \<Longrightarrow> held s' = (held s)(k := held s k - 1)"
    and rel_good: "good s \<Longrightarrow> rel k s = Inr s' \<Longrightarrow> good s'"
    and rel_total: "good s \<Longrightarrow> 0 < held s k \<Longrightarrow> ok (rel k s)"
    and held_nonneg: "good s \<Longrightarrow> 0 \<le> held s k"
begin

text \<open>Work that leaves the counts alone, between acquire and release, leaves them balanced.\<close>

lemma bracket:
  assumes "good s" and "acq k s = Inr s1" and "good s2" and "held s2 = held s1"
  shows "\<exists>s3. rel k s2 = Inr s3 \<and> good s3 \<and> held s3 = held s"
proof -
  have h1: "held s1 = (held s)(k := held s k + 1)" using acq_held assms(1,2) .
  then have "0 < held s2 k" using held_nonneg [OF assms(1), of k] assms(4) by simp
  then obtain s3 where r: "rel k s2 = Inr s3" using rel_total [OF assms(3)] by (auto simp: ok_def)
  have "held s3 = held s" using rel_held [OF assms(3) r] h1 assms(4) by simp
  with r rel_good [OF assms(3) r] show ?thesis by blast
qed

lemma nested_bracket:
  assumes "good s" "acq k s = Inr s1" "acq j s1 = Inr s2"
  shows "\<exists>s3 s4. rel k s2 = Inr s3 \<and> rel j s3 = Inr s4 \<and> held s4 = held s"
proof -
  have g: "good s1" "good s2" using assms acq_good by blast+
  have h: "held s1 = (held s)(k := held s k + 1)" "held s2 = (held s1)(j := held s1 j + 1)"
    using assms g acq_held by blast+
  have "0 < held s2 k" using h held_nonneg [OF assms(1), of k] by auto
  then obtain s3 where r: "rel k s2 = Inr s3" using rel_total [OF g(2)] by (auto simp: ok_def)
  then have h3: "good s3" "held s3 = (held s2)(k := held s2 k - 1)"
    using rel_good [OF g(2)] rel_held [OF g(2)] by blast+
  then have "0 < held s3 j" using h held_nonneg [OF assms(1), of j] by (cases "j = k") auto
  then obtain s4 where r4: "rel j s3 = Inr s4" using rel_total [OF h3(1)] by (auto simp: ok_def)
  have "held s4 = held s" using rel_held [OF h3(1) r4] h h3(2) by (auto simp: fun_eq_iff)
  with r r4 show ?thesis by blast
qed

end

section \<open>State and operations\<close>

record residency_entry =
  re_memory :: memory_estimate
  re_keep_alive :: int
  re_expires :: int
  re_access :: u64
  re_active :: int

record residency =
  r_limit :: int
  r_budget :: u64
  r_reserve :: u64
  r_clock :: u64
  r_loads :: u64
  r_evictions :: u64
  r_keep_alive :: int
  r_entries :: "(qstring, residency_entry) omap"

abbreviation GiB :: u64 where
  "GiB \<equiv> 0x40000000"

text \<open>\<^verbatim>\<open>std::map::at\<close> on a missing key.\<close>

definition out_of_range :: exn where
  "out_of_range = StdException (qs ''map::at'')"

definition make_residency :: "service_options \<Rightarrow> hardware_info \<Rightarrow> residency" where
  "make_residency opts hw =
     (let ram = (case ram_bytes hw of Some n \<Rightarrow> n | None \<Rightarrow> 4 * GiB);
          system = max (2 * GiB) (ram div 4);
          automatic = (if ram > system then ram - system else ram div 2)
      in \<lparr>r_limit = max_models opts,
          r_budget = (if memory_budget_bytes opts \<noteq> 0 then min (memory_budget_bytes opts) ram else automatic),
          r_reserve = memory_reserve_bytes opts,
          r_clock = 0, r_loads = 0, r_evictions = 0,
          r_keep_alive = (if keep_alive_ms opts < 0 then (if ram \<le> 8 * GiB then 0 else 300000)
                          else keep_alive_ms opts),
          r_entries = []\<rparr>)"

fun sum_totals :: "(qstring, residency_entry) omap \<Rightarrow> u64 \<Rightarrow> u64 res" where
  "sum_totals [] acc = Inr acc"
| "sum_totals ((_, e) # m) acc = bindr (total_bytes (re_memory e)) (\<lambda>n. sum_totals m (acc + n))"

definition res_bytes :: "residency \<Rightarrow> u64 res" where
  "res_bytes r = sum_totals (r_entries r) 0"

definition fits :: "residency \<Rightarrow> u64 \<Rightarrow> u64 option \<Rightarrow> bool res" where
  "fits r required available = bindr (res_bytes r) (\<lambda>used. Inr
     (int (length (r_entries r)) < size_t (r_limit r)
      \<and> used \<le> r_budget r \<and> required \<le> r_budget r - used
      \<and> (case available of None \<Rightarrow> True
          | Some a \<Rightarrow> a \<ge> r_reserve r \<and> required \<le> a - r_reserve r)))"

text \<open>The loop's pointer to the oldest entry so far, with its id.\<close>

fun oldest_loop :: "(qstring, residency_entry) omap \<Rightarrow> (qstring \<times> residency_entry) option \<Rightarrow>
    (qstring \<times> residency_entry) option" where
  "oldest_loop [] best = best"
| "oldest_loop ((k, e) # m) best =
     (if re_active e = 0 \<and> (case best of None \<Rightarrow> True | Some (_, b) \<Rightarrow> re_access e < re_access b)
      then oldest_loop m (Some (k, e)) else oldest_loop m best)"

definition oldest_idle :: "residency \<Rightarrow> qstring" where
  "oldest_idle r = (case oldest_loop (r_entries r) None of None \<Rightarrow> [] | Some (k, _) \<Rightarrow> k)"

definition expired :: "int \<Rightarrow> residency \<Rightarrow> qstring list" where
  "expired now r = map fst (filter (\<lambda>(k, e). re_active e = 0 \<and> now \<ge> re_expires e) (r_entries r))"

definition res_loaded :: "qstring \<Rightarrow> memory_estimate \<Rightarrow> int \<Rightarrow> int \<Rightarrow> residency \<Rightarrow> residency res" where
  "res_loaded k memory keep_alive now r =
     (if ohas (r_entries r) k then throw AlreadyExists ''Residency already registered''
      else bindr (total_bytes memory) (\<lambda>n. bindr (fits r n None) (\<lambda>fit.
        if \<not> fit then throw ResourceLimit ''Model exceeds residency budget''
        else let ttl = (if keep_alive < 0 then r_keep_alive r else keep_alive) in
          Inr (r\<lparr>r_clock := r_clock r + 1, r_loads := r_loads r + 1,
            r_entries := oput k \<lparr>re_memory = memory, re_keep_alive = ttl,
              re_expires = now + ttl * 1000000, re_access = r_clock r + 1, re_active = 0\<rparr> (r_entries r)\<rparr>))))"

definition touch_entry :: "int \<Rightarrow> int \<Rightarrow> u64 \<Rightarrow> residency_entry \<Rightarrow> residency_entry" where
  "touch_entry keep_alive now stamp e =
     (let ttl = (if keep_alive \<ge> 0 then keep_alive else re_keep_alive e) in
      e\<lparr>re_keep_alive := ttl, re_expires := now + ttl * 1000000, re_access := stamp\<rparr>)"

definition res_touch :: "qstring \<Rightarrow> int \<Rightarrow> int \<Rightarrow> residency \<Rightarrow> residency res" where
  "res_touch k keep_alive now r = (case map_of (r_entries r) k of
     None \<Rightarrow> Inl out_of_range
   | Some e \<Rightarrow> Inr (r\<lparr>r_clock := r_clock r + 1,
       r_entries := oput k (touch_entry keep_alive now (r_clock r + 1) e) (r_entries r)\<rparr>))"

definition res_acquire :: "qstring \<Rightarrow> int \<Rightarrow> int \<Rightarrow> residency \<Rightarrow> residency res" where
  "res_acquire k keep_alive now r = bindr (res_touch k keep_alive now r) (\<lambda>r'.
     case map_of (r_entries r') k of
       None \<Rightarrow> Inl out_of_range
     | Some e \<Rightarrow> Inr (r'\<lparr>r_entries := oput k (e\<lparr>re_active := re_active e + 1\<rparr>) (r_entries r')\<rparr>))"

definition res_release :: "qstring \<Rightarrow> int \<Rightarrow> residency \<Rightarrow> residency res" where
  "res_release k now r = (case map_of (r_entries r) k of
     None \<Rightarrow> Inl out_of_range
   | Some e \<Rightarrow> (if re_active e \<le> 0 then throw RuntimeFailure ''Unbalanced model lease''
       else res_touch k (- 1) now
         (r\<lparr>r_entries := oput k (e\<lparr>re_active := re_active e - 1\<rparr>) (r_entries r)\<rparr>)))"

definition res_erased :: "qstring \<Rightarrow> bool \<Rightarrow> residency \<Rightarrow> residency res" where
  "res_erased k eviction r = (case map_of (r_entries r) k of
     None \<Rightarrow> Inr r
   | Some e \<Rightarrow> (if re_active e \<noteq> 0 then throw ModelInUse ''Active model cannot be evicted''
       else Inr (r\<lparr>r_evictions := (if eviction then r_evictions r + 1 else r_evictions r),
         r_entries := odel k (r_entries r)\<rparr>)))"

definition res_get :: "residency \<Rightarrow> qstring \<Rightarrow> residency_entry res" where
  "res_get r k = (case map_of (r_entries r) k of None \<Rightarrow> Inl out_of_range | Some e \<Rightarrow> Inr e)"

section \<open>Invariant\<close>

definition entry_total :: "residency_entry \<Rightarrow> nat" where
  "entry_total e = unat (weights_bytes (re_memory e)) + unat (context_bytes (re_memory e))
     + unat (overhead_bytes (re_memory e))"

definition reserved :: "residency \<Rightarrow> nat" where
  "reserved r = (\<Sum>(k, e)\<leftarrow>r_entries r. entry_total e)"

definition res_inv :: "residency \<Rightarrow> bool" where
  "res_inv r \<longleftrightarrow> owf (r_entries r) \<and> 0 \<le> r_limit r \<and> int (length (r_entries r)) \<le> r_limit r
     \<and> reserved r \<le> unat (r_budget r)
     \<and> (\<forall>(k, e) \<in> set (r_entries r). 0 \<le> re_active e)"

lemma entry_le_reserved:
  "(k, e) \<in> set m \<Longrightarrow> entry_total e \<le> (\<Sum>(k, e)\<leftarrow>m. entry_total e)"
  by (induction m) (auto simp: trans_le_add2)

lemma total_bytes_small:
  assumes "entry_total e < 2 ^ 64"
  shows "total_bytes (re_memory e) = Inr (of_nat (entry_total e))"
  using total_bytes_sum [of "re_memory e"] assms by (simp add: entry_total_def Let_def)

lemma total_bytes_unat:
  assumes "total_bytes mem = Inr n"
  shows "unat n = unat (weights_bytes mem) + unat (context_bytes mem) + unat (overhead_bytes mem)"
proof -
  define N where "N = unat (weights_bytes mem) + unat (context_bytes mem) + unat (overhead_bytes mem)"
  have "n = of_nat N \<and> N < 2 ^ 64"
    using assms total_bytes_sum [of mem] unfolding Let_def N_def [symmetric]
    by (metis Inr_inject throw_neq_Inr(1))
  then show ?thesis by (simp add: unat_of_nat flip: N_def)
qed

lemma sum_totals_exact:
  "(\<Sum>(k, e)\<leftarrow>m. entry_total e) + unat acc < 2 ^ 64 \<Longrightarrow>
     sum_totals m acc = Inr (acc + of_nat (\<Sum>(k, e)\<leftarrow>m. entry_total e))"
proof (induction m arbitrary: acc)
  case Nil
  then show ?case by simp
next
  case (Cons p m)
  obtain k e where p: "p = (k, e)" by (cases p)
  have small: "entry_total e < 2 ^ 64" using Cons.prems by (simp add: p)
  have "unat (acc + of_nat (entry_total e)) = unat acc + entry_total e"
    using Cons.prems small by (simp add: p unat_word_ariths unat_of_nat)
  then have "sum_totals m (acc + of_nat (entry_total e))
      = Inr (acc + of_nat (entry_total e) + of_nat (\<Sum>(k, e)\<leftarrow>m. entry_total e))"
    using Cons.prems by (intro Cons.IH) (simp add: p)
  then show ?case using total_bytes_small [OF small] by (simp add: p add.assoc)
qed

lemma reserved_small: "res_inv r \<Longrightarrow> reserved r < 2 ^ 64"
  using unat_bound [of "r_budget r"] by (simp add: res_inv_def)

lemma res_bytes_exact: "res_inv r \<Longrightarrow> res_bytes r = Inr (of_nat (reserved r))"
  using reserved_small [of r] sum_totals_exact [of "r_entries r" 0]
  by (simp add: res_bytes_def reserved_def)

lemma fits_exact:
  assumes "res_inv r"
  shows "fits r n a = Inr (int (length (r_entries r)) < r_limit r
     \<and> reserved r + unat n \<le> unat (r_budget r)
     \<and> (case a of None \<Rightarrow> True | Some m \<Rightarrow> unat (r_reserve r) + unat n \<le> unat m))"
proof -
  have u: "unat (of_nat (reserved r) :: u64) = reserved r"
    using reserved_small [OF assms] by (simp add: unat_of_nat)
  have le: "of_nat (reserved r) \<le> r_budget r"
    using assms by (simp add: word_le_nat_alt u res_inv_def)
  have used: "n \<le> r_budget r - of_nat (reserved r) \<longleftrightarrow> reserved r + unat n \<le> unat (r_budget r)"
    using unat_sub [OF le] assms by (auto simp: word_le_nat_alt u res_inv_def)
  have avail: "r_reserve r \<le> m \<and> n \<le> m - r_reserve r \<longleftrightarrow> unat (r_reserve r) + unat n \<le> unat m" for m
    using unat_sub [of "r_reserve r" m] by (auto simp: word_le_nat_alt)
  show ?thesis
    using assms le used avail
    by (simp add: fits_def res_bytes_exact size_t_def) (auto simp: res_inv_def split: option.split)
qed

lemma reserved_put_fresh:
  assumes "owf (r_entries r)" and "map_of (r_entries r) k = None"
  shows "(\<Sum>(k, e)\<leftarrow>oput k e (r_entries r). entry_total e) = entry_total e + reserved r"
  using om.total_put_fresh [OF assms, of "\<lambda>(k, e). entry_total e" e] by (simp add: reserved_def)

lemma reserved_del:
  assumes "owf (r_entries r)" and "map_of (r_entries r) k = Some e"
  shows "reserved r = entry_total e + (\<Sum>(k, e)\<leftarrow>odel k (r_entries r). entry_total e)"
  using om.total_del [OF assms, of "\<lambda>(k, e). entry_total e"] by (simp add: reserved_def)

text \<open>Replacing an entry by one with the same memory changes no sum.\<close>

lemma reserved_put_same:
  assumes "owf (r_entries r)" and "map_of (r_entries r) k = Some e" and "re_memory e' = re_memory e"
  shows "(\<Sum>(k, e)\<leftarrow>oput k e' (r_entries r). entry_total e) = reserved r"
proof -
  have "owf (oput k e' (r_entries r))" "map_of (oput k e' (r_entries r)) k = Some e'"
    using assms(1) by simp_all
  from om.total_del [OF this, of "\<lambda>(k, e). entry_total e"] reserved_del [OF assms(1,2)] assms(3)
  show ?thesis by (simp add: entry_total_def)
qed

lemma oput_values: "p \<in> set (oput k v m) \<Longrightarrow> p = (k, v) \<or> p \<in> set m"
  by (induction m) (auto split: if_splits)

lemma res_inv_replace:
  assumes inv: "res_inv r" and k: "map_of (r_entries r) k = Some e"
    and mem: "re_memory e' = re_memory e" and act: "0 \<le> re_active e'"
  shows "res_inv (r\<lparr>r_entries := oput k e' (r_entries r)\<rparr>)"
proof -
  have wf: "owf (r_entries r)" using inv by (simp add: res_inv_def)
  have "0 \<le> re_active f" if "(j, f) \<in> set (oput k e' (r_entries r))" for j f
    using oput_values [OF that] inv act by (auto simp: res_inv_def)
  then show ?thesis
    using inv wf om.length_put_old [OF wf k, of e'] reserved_put_same [OF wf k mem]
    by (auto simp: res_inv_def reserved_def)
qed

lemma res_inv_clock: "res_inv (r\<lparr>r_clock := c\<rparr>) = res_inv r"
  by (simp add: res_inv_def reserved_def)

lemma entry_active: "res_inv r \<Longrightarrow> map_of (r_entries r) k = Some e \<Longrightarrow> 0 \<le> re_active e"
  by (auto simp: res_inv_def dest: map_of_SomeD)

lemma touch_inv:
  assumes "res_inv r" and "res_touch k ka now r = Inr r'"
  shows "res_inv r'"
proof -
  from assms(2) obtain e where e: "map_of (r_entries r) k = Some e"
    and r': "r' = r\<lparr>r_clock := r_clock r + 1,
      r_entries := oput k (touch_entry ka now (r_clock r + 1) e) (r_entries r)\<rparr>"
    by (auto simp: res_touch_def split: option.splits)
  let ?q = "r\<lparr>r_clock := r_clock r + 1\<rparr>"
  have "res_inv ?q" using assms(1) by (simp add: res_inv_clock)
  from res_inv_replace [OF this, of k e "touch_entry ka now (r_clock r + 1) e"]
  show ?thesis using e entry_active [OF assms(1) e] by (simp add: r' touch_entry_def Let_def)
qed

lemma acquire_inv:
  assumes "res_inv r" and "res_acquire k ka now r = Inr r'"
  shows "res_inv r'"
proof -
  from assms(2) obtain u e where u: "res_touch k ka now r = Inr u" "map_of (r_entries u) k = Some e"
    and r': "r' = u\<lparr>r_entries := oput k (e\<lparr>re_active := re_active e + 1\<rparr>) (r_entries u)\<rparr>"
    by (auto simp: res_acquire_def split: option.splits)
  have "res_inv u" using touch_inv [OF assms(1) u(1)] .
  with entry_active [OF this u(2)] show ?thesis
    unfolding r' by (intro res_inv_replace [OF _ u(2)]) simp_all
qed

lemma release_inv:
  assumes "res_inv r" and "res_release k now r = Inr r'"
  shows "res_inv r'"
proof -
  from assms(2) obtain e where e: "map_of (r_entries r) k = Some e" "\<not> re_active e \<le> 0"
    and t: "res_touch k (- 1) now (r\<lparr>r_entries := oput k (e\<lparr>re_active := re_active e - 1\<rparr>) (r_entries r)\<rparr>) = Inr r'"
    by (auto simp: res_release_def split: option.splits if_splits)
  have "res_inv (r\<lparr>r_entries := oput k (e\<lparr>re_active := re_active e - 1\<rparr>) (r_entries r)\<rparr>)"
    using e by (intro res_inv_replace [OF assms(1) e(1)]) simp_all
  then show ?thesis using t by (rule touch_inv)
qed

lemma loaded_inv:
  assumes "res_inv r" and "res_loaded k mem ka now r = Inr r'"
  shows "res_inv r'"
proof -
  from assms(2) obtain n where n: "total_bytes mem = Inr n" "fits r n None = Inr True"
    and fresh: "map_of (r_entries r) k = None"
    by (auto simp: res_loaded_def ohas_def split: if_splits)
  define e where "e = \<lparr>re_memory = mem, re_keep_alive = (if ka < 0 then r_keep_alive r else ka),
      re_expires = now + (if ka < 0 then r_keep_alive r else ka) * 1000000,
      re_access = r_clock r + 1, re_active = 0\<rparr>"
  have r': "r' = r\<lparr>r_clock := r_clock r + 1, r_loads := r_loads r + 1,
      r_entries := oput k e (r_entries r)\<rparr>"
    using assms(2) n fresh by (simp add: res_loaded_def ohas_def Let_def e_def)
  have "entry_total e = unat n"
    using total_bytes_unat [OF n(1)] by (simp add: entry_total_def e_def)
  moreover have "owf (r_entries r)" using assms(1) by (simp add: res_inv_def)
  ultimately show ?thesis
    using n(2) fits_exact [OF assms(1), of n None] assms(1) fresh
      reserved_put_fresh [OF _ fresh, of e] om.length_put_fresh [OF _ fresh, of e]
    by (auto simp: r' res_inv_def reserved_def e_def dest!: oput_values)
qed

lemma erased_inv:
  assumes inv: "res_inv r" and run: "res_erased k ev r = Inr r'"
  shows "res_inv r'"
proof (cases "map_of (r_entries r) k")
  case None
  with assms show ?thesis by (simp add: res_erased_def)
next
  case (Some e)
  have wf: "owf (r_entries r)" using inv by (simp add: res_inv_def)
  have act: "\<forall>(j, f) \<in> set (odel k (r_entries r)). 0 \<le> re_active f"
    using inv set_odel [of k "r_entries r"] by (auto simp: res_inv_def)
  have r': "r' = r\<lparr>r_evictions := (if ev then r_evictions r + 1 else r_evictions r),
      r_entries := odel k (r_entries r)\<rparr>"
    using run Some by (simp add: res_erased_def split: if_splits)
  show ?thesis
    using inv reserved_del [OF wf Some] om.length_del [OF wf Some] wf act
    by (simp add: r' res_inv_def reserved_def)
qed

section \<open>Leases\<close>

definition lease_count :: "residency \<Rightarrow> qstring \<Rightarrow> int" where
  "lease_count r k = (case map_of (r_entries r) k of None \<Rightarrow> 0 | Some e \<Rightarrow> re_active e)"

lemma touch_lease: "res_touch k ka now r = Inr r' \<Longrightarrow> lease_count r' = lease_count r"
  by (auto simp: res_touch_def touch_entry_def Let_def lease_count_def fun_eq_iff
      split: option.splits if_splits)

lemma touch_total: "map_of (r_entries r) k \<noteq> None \<Longrightarrow> \<exists>r'. res_touch k ka now r = Inr r'"
  by (auto simp: res_touch_def)

lemma touch_keys: "res_touch k ka now r = Inr r' \<Longrightarrow>
    okeys (r_entries r') = okeys (oput k e (r_entries r)) \<and> map_of (r_entries r) k \<noteq> None"
proof -
  have keys: "okeys (oput k a m) = okeys (oput k b m)" for a b :: residency_entry and m
    by (induction m) auto
  assume "res_touch k ka now r = Inr r'"
  then show ?thesis by (auto simp: res_touch_def split: option.splits intro: keys)
qed

lemma acquire_lease: "res_acquire k ka now r = Inr r' \<Longrightarrow>
    lease_count r' = (lease_count r)(k := lease_count r k + 1)"
proof -
  assume "res_acquire k ka now r = Inr r'"
  then obtain u e where u: "res_touch k ka now r = Inr u" "map_of (r_entries u) k = Some e"
    and r': "r' = u\<lparr>r_entries := oput k (e\<lparr>re_active := re_active e + 1\<rparr>) (r_entries u)\<rparr>"
    by (auto simp: res_acquire_def split: option.splits)
  have "lease_count r' = (lease_count u)(k := lease_count u k + 1)"
    using u(2) by (auto simp: r' lease_count_def fun_eq_iff)
  then show ?thesis by (simp add: touch_lease [OF u(1)])
qed

lemma release_lease: "res_release k now r = Inr r' \<Longrightarrow>
    lease_count r' = (lease_count r)(k := lease_count r k - 1)"
proof -
  assume "res_release k now r = Inr r'"
  then obtain e where e: "map_of (r_entries r) k = Some e"
    and t: "res_touch k (- 1) now (r\<lparr>r_entries := oput k (e\<lparr>re_active := re_active e - 1\<rparr>) (r_entries r)\<rparr>) = Inr r'"
    by (auto simp: res_release_def split: option.splits if_splits)
  show ?thesis
    using e by (auto simp: touch_lease [OF t] lease_count_def fun_eq_iff)
qed

lemma release_total: "0 < lease_count r k \<Longrightarrow> ok (res_release k now r)"
  by (auto simp: lease_count_def res_release_def ok_def split: option.splits intro!: touch_total)

text \<open>The code's leases satisfy the interface, whatever clock readings the calls see.\<close>

interpretation rl: lease_table "\<lambda>k. res_acquire k ka t1" "\<lambda>k. res_release k t2" lease_count res_inv
  for ka t1 t2
proof unfold_locales
  fix s s' k
  assume inv: "res_inv s"
  show "0 \<le> lease_count s k"
    using inv by (simp add: lease_count_def entry_active split: option.split)
  show "0 < lease_count s k \<Longrightarrow> ok (res_release k t2 s)" by (rule release_total)
  show "res_acquire k ka t1 s = Inr s' \<Longrightarrow> lease_count s' = (lease_count s)(k := lease_count s k + 1)"
    by (rule acquire_lease)
  show "res_acquire k ka t1 s = Inr s' \<Longrightarrow> res_inv s'" using inv by (rule acquire_inv)
  show "res_release k t2 s = Inr s' \<Longrightarrow> lease_count s' = (lease_count s)(k := lease_count s k - 1)"
    by (rule release_lease)
  show "res_release k t2 s = Inr s' \<Longrightarrow> res_inv s'" using inv by (rule release_inv)
qed

section \<open>The victim\<close>

lemma oldest_loop_from:
  "oldest_loop m best = Some (k, e) \<Longrightarrow>
     best = Some (k, e) \<or> (k, e) \<in> set m \<and> re_active e = 0"
  by (induction m best rule: oldest_loop.induct) (auto split: if_splits)

lemma oldest_loop_None:
  "oldest_loop m best = None \<Longrightarrow> best = None \<and> (\<forall>(k, e) \<in> set m. re_active e \<noteq> 0)"
proof (induction m best rule: oldest_loop.induct)
  case (1 best)
  then show ?case by simp
next
  case (2 k e m best)
  show ?case
  proof (cases "re_active e = 0 \<and> (case best of None \<Rightarrow> True | Some (_, b) \<Rightarrow> re_access e < re_access b)")
    case True
    with 2 show ?thesis by simp
  next
    case False
    then have "oldest_loop m best = None" using 2(3) by (simp only: oldest_loop.simps if_False)
    with 2(2) False show ?thesis by auto
  qed
qed

lemma oldest_loop_best:
  "oldest_loop m (Some (j, f)) = Some (k, e) \<Longrightarrow> re_access e \<le> re_access f"
proof (induction m "Some (j, f)" arbitrary: j f rule: oldest_loop.induct)
  case 1
  then show ?case by simp
next
  case (2 i g m)
  then show ?case by (cases "re_active g = 0 \<and> re_access g < re_access f") auto
qed

lemma oldest_loop_min:
  "oldest_loop m best = Some (k, e) \<Longrightarrow> (j, f) \<in> set m \<Longrightarrow> re_active f = 0 \<Longrightarrow>
     re_access e \<le> re_access f"
proof (induction m best rule: oldest_loop.induct)
  case (1 best)
  then show ?case by simp
next
  case (2 i g m best)
  show ?case
  proof (cases "re_active g = 0 \<and> (case best of None \<Rightarrow> True | Some (_, b) \<Rightarrow> re_access g < re_access b)")
    case True
    then have run: "oldest_loop m (Some (i, g)) = Some (k, e)" using 2(3) by simp
    then show ?thesis using 2(1) [OF True] 2(4,5) oldest_loop_best [OF run] by auto
  next
    case skip: False
    then have run: "oldest_loop m best = Some (k, e)" using 2(3) by (simp only: oldest_loop.simps if_False)
    show ?thesis
    proof (cases "(j, f) = (i, g)")
      case True
      then obtain b c where "best = Some (b, c)" "re_access c \<le> re_access g"
        using skip 2(5) by (auto split: option.splits)
      then show ?thesis using True run oldest_loop_best by fastforce
    next
      case False
      with 2(2) [OF skip run] 2(4,5) show ?thesis by auto
    qed
  qed
qed

text \<open>The ids of a loaded model are not empty, so the empty answer means no idle entry.\<close>

lemma oldest_idle_victim:
  assumes "owf (r_entries r)" and "oldest_idle r = k" and "k \<noteq> []"
  shows "\<exists>e. map_of (r_entries r) k = Some e \<and> re_active e = 0
     \<and> (\<forall>(j, f) \<in> set (r_entries r). re_active f = 0 \<longrightarrow> re_access e \<le> re_access f)"
proof -
  obtain e where run: "oldest_loop (r_entries r) None = Some (k, e)"
    using assms(2,3) by (auto simp: oldest_idle_def split: option.splits)
  have "(k, e) \<in> set (r_entries r)" "re_active e = 0" using oldest_loop_from [OF run] by simp_all
  moreover have "map_of (r_entries r) k = Some e"
    using om.mem_items [OF assms(1)] calculation(1) by simp
  ultimately show ?thesis using oldest_loop_min [OF run] by blast
qed

lemma oldest_idle_empty:
  assumes "oldest_idle r = []" and "[] \<notin> set (okeys (r_entries r))"
    and "(j, f) \<in> set (r_entries r)"
  shows "re_active f \<noteq> 0"
proof (cases "oldest_loop (r_entries r) None")
  case None
  then show ?thesis using oldest_loop_None assms(3) by blast
next
  case (Some p)
  then obtain e where "oldest_loop (r_entries r) None = Some ([], e)"
    using assms(1) by (cases p) (simp add: oldest_idle_def)
  then have "([], e) \<in> set (r_entries r)" using oldest_loop_from by blast
  then show ?thesis using assms(2) by force
qed

section \<open>Runs\<close>

datatype residency_op =
    OpLoaded qstring memory_estimate int int
  | OpTouch qstring int int
  | OpAcquire qstring int int
  | OpRelease qstring int
  | OpErased qstring bool

fun res_apply :: "residency_op \<Rightarrow> residency \<Rightarrow> residency res" where
  "res_apply (OpLoaded k mem ka now) = res_loaded k mem ka now"
| "res_apply (OpTouch k ka now) = res_touch k ka now"
| "res_apply (OpAcquire k ka now) = res_acquire k ka now"
| "res_apply (OpRelease k now) = res_release k now"
| "res_apply (OpErased k eviction) = res_erased k eviction"

text \<open>An operation that throws leaves the state as it was.\<close>

fun res_run :: "residency_op list \<Rightarrow> residency \<Rightarrow> residency" where
  "res_run [] r = r"
| "res_run (a # as) r = res_run as (case res_apply a r of Inl _ \<Rightarrow> r | Inr r' \<Rightarrow> r')"

lemma make_residency_inv: "0 \<le> max_models opts \<Longrightarrow> res_inv (make_residency opts hw)"
  by (simp add: make_residency_def Let_def res_inv_def reserved_def)

lemma apply_inv: "res_inv r \<Longrightarrow> res_apply a r = Inr r' \<Longrightarrow> res_inv r'"
  by (cases a) (auto intro: loaded_inv touch_inv acquire_inv release_inv erased_inv)

lemma run_inv: "res_inv r \<Longrightarrow> res_inv (res_run as r)"
  by (induction as r rule: res_run.induct) (auto dest: apply_inv split: sum.split)

lemma touch_params: "res_touch k ka now r = Inr r' \<Longrightarrow>
    r_limit r' = r_limit r \<and> r_budget r' = r_budget r \<and> r_reserve r' = r_reserve r"
  by (auto simp: res_touch_def split: option.splits)

lemma apply_params: "res_apply a r = Inr r' \<Longrightarrow>
    r_limit r' = r_limit r \<and> r_budget r' = r_budget r \<and> r_reserve r' = r_reserve r"
  by (cases a)
    (auto simp: res_loaded_def res_acquire_def res_release_def res_erased_def Let_def
      dest!: touch_params split: if_splits option.splits)

lemma run_params:
  "r_limit (res_run as r) = r_limit r \<and> r_budget (res_run as r) = r_budget r
     \<and> r_reserve (res_run as r) = r_reserve r"
  by (induction as r rule: res_run.induct) (auto dest: apply_params split: sum.split)

text \<open>
  The stamps: while the clock has not wrapped, every entry carries its own one, none above the
  clock.
\<close>

definition stamped :: "nat \<Rightarrow> residency \<Rightarrow> bool" where
  "stamped n r \<longleftrightarrow> owf (r_entries r) \<and> unat (r_clock r) \<le> n
     \<and> (\<forall>(k, e) \<in> set (r_entries r). re_access e \<le> r_clock r)
     \<and> (\<forall>(k, e) \<in> set (r_entries r). \<forall>(j, f) \<in> set (r_entries r). re_access e = re_access f \<longrightarrow> j = k)"

lemma clock_step:
  assumes "unat (c::u64) \<le> n" and "n + 1 < 2 ^ 64"
  shows "unat (c + 1) = unat c + 1" and "c < c + 1" and "a \<le> c \<Longrightarrow> a < c + 1"
proof -
  show u: "unat (c + 1) = unat c + 1" using assms by (simp add: unat_word_ariths)
  then show c: "c < c + 1" by (simp add: word_less_nat_alt)
  show "a < c + 1" if "a \<le> c" using that c by simp
qed

lemma stamped_put:
  assumes st: "stamped n r" and n: "n + 1 < 2 ^ 64"
    and e: "re_access e = r_clock r + 1"
    and r': "r_entries r' = oput k e (r_entries r)" "r_clock r' = r_clock r + 1"
  shows "stamped (n + 1) r'"
proof -
  have u: "unat (r_clock r) \<le> n" using st by (simp add: stamped_def)
  have old: "re_access f < r_clock r + 1" if "(j, f) \<in> set (r_entries r)" for j f
    using that st clock_step(3) [OF u n] by (auto simp: stamped_def)
  have pair: "(j, f) \<in> set (r_entries r') \<longleftrightarrow> (if j = k then f = e else (j, f) \<in> set (r_entries r))" for j f
    using st om.mem_items [of "oput k e (r_entries r)"] om.mem_items [of "r_entries r"]
    by (auto simp: stamped_def r')
  have le: "re_access f \<le> r_clock r'" if "(j, f) \<in> set (r_entries r')" for j f
    using that [unfolded pair] old [of j f] by (auto simp: r'(2) e split: if_splits)
  have inj: "i = j" if "(j, f) \<in> set (r_entries r')" "(i, g) \<in> set (r_entries r')"
    "re_access f = re_access g" for i j f g
  proof (cases "i = k \<or> j = k")
    case True
    then show ?thesis
      using that old [of i g] old [of j f] unfolding pair by (metis e less_irrefl)
  next
    case False
    then have "(j, f) \<in> set (r_entries r)" "(i, g) \<in> set (r_entries r)"
      using that(1,2) unfolding pair by simp_all
    with that(3) st show ?thesis unfolding stamped_def by blast
  qed
  have "owf (r_entries r')" using st by (simp add: r'(1) stamped_def)
  moreover have "unat (r_clock r') \<le> n + 1" using u clock_step(1) [OF u n] by (simp add: r'(2))
  ultimately show ?thesis using le inj unfolding stamped_def by blast
qed

lemma stamped_mono: "stamped n r \<Longrightarrow> n \<le> m \<Longrightarrow> stamped m r"
  by (auto simp: stamped_def)

text \<open>Operations that keep the stamps of a subset of the entries.\<close>

lemma stamped_sub:
  assumes "stamped n r" and "owf (r_entries r')" and "r_clock r' = r_clock r"
    and "\<And>k e. (k, e) \<in> set (r_entries r') \<Longrightarrow> \<exists>f. (k, f) \<in> set (r_entries r) \<and> re_access f = re_access e"
  shows "stamped n r'"
proof -
  have "re_access e \<le> r_clock r'" if "(k, e) \<in> set (r_entries r')" for k e
    using assms(1,3) assms(4) [OF that] by (fastforce simp: stamped_def)
  moreover have "j = k" if "(k, e) \<in> set (r_entries r')" "(j, f) \<in> set (r_entries r')"
    "re_access e = re_access f" for k e j f
  proof -
    note in1 = that(1) and in2 = that(2) and eq = that(3)
    obtain e0 where e0: "(k, e0) \<in> set (r_entries r)" "re_access e0 = re_access e"
      using assms(4) [OF in1] by blast
    obtain f0 where f0: "(j, f0) \<in> set (r_entries r)" "re_access f0 = re_access f"
      using assms(4) [OF in2] by blast
    have "(k, e0) \<in> set (r_entries r)" "(j, f0) \<in> set (r_entries r)" "re_access e0 = re_access f0"
      using e0 f0 eq by simp_all
    with assms(1) show ?thesis by (fastforce simp: stamped_def)
  qed
  ultimately show ?thesis using assms(1-3) by (auto simp: stamped_def)
qed

lemma stamped_active:
  assumes "stamped n r" and "map_of (r_entries r) k = Some e"
  shows "stamped n (r\<lparr>r_entries := oput k (e\<lparr>re_active := a\<rparr>) (r_entries r)\<rparr>)"
proof (rule stamped_sub [OF assms(1)])
  show "owf (r_entries (r\<lparr>r_entries := oput k (e\<lparr>re_active := a\<rparr>) (r_entries r)\<rparr>))"
    using assms(1) by (simp add: stamped_def)
  fix j f
  assume "(j, f) \<in> set (r_entries (r\<lparr>r_entries := oput k (e\<lparr>re_active := a\<rparr>) (r_entries r)\<rparr>))"
  then have "(j, f) = (k, e\<lparr>re_active := a\<rparr>) \<or> (j, f) \<in> set (r_entries r)"
    using oput_values by fastforce
  then show "\<exists>g. (j, g) \<in> set (r_entries r) \<and> re_access g = re_access f"
    using map_of_SomeD [OF assms(2)] by auto
qed simp

lemma stamped_touch:
  "stamped n r \<Longrightarrow> n + 1 < 2 ^ 64 \<Longrightarrow> res_touch k ka now r = Inr r' \<Longrightarrow> stamped (n + 1) r'"
  by (rule stamped_put [of n r "touch_entry ka now (r_clock r + 1) (the (map_of (r_entries r) k))" r' k])
    (auto simp: res_touch_def touch_entry_def Let_def split: option.splits)

lemma stamped_loaded:
  "stamped n r \<Longrightarrow> n + 1 < 2 ^ 64 \<Longrightarrow> res_loaded k mem ka now r = Inr r' \<Longrightarrow> stamped (n + 1) r'"
  by (rule stamped_put [of n r "\<lparr>re_memory = mem, re_keep_alive = (if ka < 0 then r_keep_alive r else ka),
      re_expires = now + (if ka < 0 then r_keep_alive r else ka) * 1000000,
      re_access = r_clock r + 1, re_active = 0\<rparr>" r' k])
    (auto simp: res_loaded_def Let_def split: if_splits)

lemma stamped_apply:
  assumes "stamped n r" and "n + 1 < 2 ^ 64" and "res_apply a r = Inr r'"
  shows "stamped (n + 1) r'"
proof (cases a)
  case (OpErased k ev)
  have "stamped n r'" if e: "map_of (r_entries r) k = Some e" for e
  proof (rule stamped_sub [OF assms(1)])
    have r': "r_entries r' = odel k (r_entries r)" "r_clock r' = r_clock r"
      using assms(3) e OpErased by (auto simp: res_erased_def split: if_splits)
    show "owf (r_entries r')" "r_clock r' = r_clock r"
      using assms(1) by (simp_all add: r' stamped_def)
    show "\<exists>f. (j, f) \<in> set (r_entries r) \<and> re_access f = re_access g"
      if "(j, g) \<in> set (r_entries r')" for j g
      using that set_odel [of k "r_entries r"] by (auto simp: r')
  qed
  then show ?thesis
    using assms OpErased stamped_mono [of n _ "n + 1"]
    by (cases "map_of (r_entries r) k") (auto simp: res_erased_def)
next
  case (OpAcquire k ka now)
  then show ?thesis
    using assms stamped_active [OF stamped_touch [OF assms(1,2)]]
    by (auto simp: res_acquire_def split: option.splits)
next
  case (OpRelease k now)
  then show ?thesis
    using assms stamped_touch [OF stamped_active [OF assms(1)] assms(2)]
    by (auto simp: res_release_def split: option.splits if_splits)
qed (use assms stamped_touch stamped_loaded in auto)

lemma stamped_run:
  "stamped n r \<Longrightarrow> n + length as < 2 ^ 64 \<Longrightarrow> stamped (n + length as) (res_run as r)"
proof (induction as arbitrary: n r)
  case Nil
  then show ?case by simp
next
  case (Cons a as)
  have "stamped (n + 1) (case res_apply a r of Inl _ \<Rightarrow> r | Inr r' \<Rightarrow> r')"
    using Cons.prems stamped_apply [of n r a] stamped_mono [of n r "n + 1"] by (auto split: sum.split)
  from Cons.IH [OF this] Cons.prems(2) show ?case by simp
qed

section \<open>Properties\<close>

text \<open>
  C10. Whatever sequence of calls a policy built from options with a non-negative model limit
  receives, failed calls included, the memory it has promised never exceeds the budget, the
  number of loaded models never exceeds the limit, the sum \<^verbatim>\<open>bytes()\<close> is exact and does not
  wrap, and \<^verbatim>\<open>fits\<close> answers exactly the question posed over unbounded numbers: a slot is
  free, the required bytes fit in the rest of the budget and, where the available memory is
  known, beside the reserve.
\<close>

theorem residency_budget:
  assumes "0 \<le> max_models opts"
  shows "let r = res_run as (make_residency opts hw) in
    reserved r \<le> unat (r_budget r) \<and> int (length (r_entries r)) \<le> max_models opts
    \<and> res_bytes r = Inr (of_nat (reserved r)) \<and> reserved r < 2 ^ 64
    \<and> fits r n available = Inr (int (length (r_entries r)) < max_models opts
        \<and> reserved r + unat n \<le> unat (r_budget r)
        \<and> (case available of None \<Rightarrow> True | Some m \<Rightarrow> unat (r_reserve r) + unat n \<le> unat m))"
proof -
  let ?r = "res_run as (make_residency opts hw)"
  have inv: "res_inv ?r" using run_inv make_residency_inv assms by blast
  moreover have "r_limit ?r = max_models opts"
    by (simp add: run_params make_residency_def Let_def)
  ultimately show ?thesis
    using res_bytes_exact [OF inv] reserved_small [OF inv] fits_exact [OF inv, of n available]
    by (simp add: Let_def res_inv_def)
qed

text \<open>
  C30. In the first 2^64 - 1 calls the eviction victim \<^verbatim>\<open>oldestIdle\<close> is the strictly least
  recently used of the models without a lease: every other idle model was touched later. If it
  names none, every loaded model is leased.
\<close>

theorem eviction_victim_least_recent:
  assumes "length as < 2 ^ 64" and "r = res_run as (make_residency opts hw)"
    and "[] \<notin> set (okeys (r_entries r))"
  shows "if oldest_idle r = [] then \<forall>(j, f) \<in> set (r_entries r). re_active f \<noteq> 0
    else \<exists>e. map_of (r_entries r) (oldest_idle r) = Some e \<and> re_active e = 0
      \<and> (\<forall>j f. map_of (r_entries r) j = Some f \<and> re_active f = 0 \<and> j \<noteq> oldest_idle r
            \<longrightarrow> re_access e < re_access f)"
proof -
  have "stamped 0 (make_residency opts hw)"
    by (simp add: stamped_def make_residency_def Let_def)
  from stamped_run [OF this, of as] assms(1,2) have st: "stamped (length as) r" by simp
  then have wf: "owf (r_entries r)" by (simp add: stamped_def)
  show ?thesis
  proof (cases "oldest_idle r = []")
    case True
    then show ?thesis using oldest_idle_empty assms(3) by auto
  next
    case False
    obtain e where e: "map_of (r_entries r) (oldest_idle r) = Some e" "re_active e = 0"
      and least: "\<forall>(j, f) \<in> set (r_entries r). re_active f = 0 \<longrightarrow> re_access e \<le> re_access f"
      using oldest_idle_victim [OF wf refl False] by blast
    have "re_access e < re_access f"
      if "map_of (r_entries r) j = Some f" "re_active f = 0" "j \<noteq> oldest_idle r" for j f
    proof -
      have "(j, f) \<in> set (r_entries r)" "(oldest_idle r, e) \<in> set (r_entries r)"
        using that(1) e(1) by (simp_all add: map_of_SomeD)
      then show ?thesis using that(2,3) least st by (fastforce simp: stamped_def)
    qed
    with e False show ?thesis by auto
  qed
qed

text \<open>
  Work done between an acquire and the matching release that leaves the leases alone
  leaves them balanced: the release succeeds, and every count is what it was before.
\<close>

theorem lease_bracket:
  assumes "res_inv r" and "res_acquire k ka t1 r = Inr r1" and "res_inv r2"
    and "lease_count r2 = lease_count r1"
  shows "\<exists>r3. res_release k t2 r2 = Inr r3 \<and> res_inv r3 \<and> lease_count r3 = lease_count r"
  using assms by (rule rl.bracket)

section \<open>Concrete runs\<close>

definition small_model :: memory_estimate where
  "small_model = \<lparr>weights_bytes = 100, context_bytes = 10, overhead_bytes = 1, basis = qs ''gguf''\<rparr>"

definition small_options :: service_options where
  "small_options = default_service_options\<lparr>max_models := 2, memory_budget_bytes := 1000\<rparr>"

definition sample_calls :: "residency_op list" where
  "sample_calls = [OpLoaded (qs ''a'') small_model 5 0, OpLoaded (qs ''b'') small_model 5 0,
     OpTouch (qs ''a'') (- 1) 10]"

abbreviation sample_entry :: "int \<Rightarrow> u64 \<Rightarrow> residency_entry" where
  "sample_entry t n \<equiv> \<lparr>re_memory = small_model, re_keep_alive = 5, re_expires = t,
     re_access = n, re_active = 0\<rparr>"

abbreviation sample_state :: "u64 \<Rightarrow> u64 \<Rightarrow> (qstring, residency_entry) omap \<Rightarrow> residency" where
  "sample_state c l m \<equiv> \<lparr>r_limit = 2, r_budget = 1000, r_reserve = 268435456, r_clock = c,
     r_loads = l, r_evictions = 0, r_keep_alive = 0, r_entries = m\<rparr>"

lemma small_total: "total_bytes small_model = Inr 111"
  by (simp add: total_bytes_sum small_model_def)

lemma sample_make: "make_residency small_options empty_hardware = sample_state 0 0 []"
  by (simp add: make_residency_def small_options_def default_service_options_def
      empty_hardware_def Let_def min_def max_def)

lemma sample_load_a: "res_loaded (qs ''a'') small_model 5 0 (sample_state 0 0 [])
   = Inr (sample_state 1 1 [(qs ''a'', sample_entry 5000000 1)])"
  by (simp add: res_loaded_def ohas_def small_total fits_def size_t_def res_bytes_def Let_def)

lemma sample_load_b:
  "res_loaded (qs ''b'') small_model 5 0 (sample_state 1 1 [(qs ''a'', sample_entry 5000000 1)])
   = Inr (sample_state 2 2 [(qs ''a'', sample_entry 5000000 1), (qs ''b'', sample_entry 5000000 2)])"
  by (simp add: res_loaded_def ohas_def small_total fits_def size_t_def res_bytes_def Let_def)

lemma sample_run: "res_run sample_calls (make_residency small_options empty_hardware)
   = sample_state 3 2 [(qs ''a'', sample_entry 5000010 3), (qs ''b'', sample_entry 5000000 2)]"
  by (simp add: sample_calls_def sample_make sample_load_a sample_load_b)
    (simp add: res_touch_def touch_entry_def)

theorem residency_budget_witness:
  "reserved (res_run sample_calls (make_residency small_options empty_hardware)) \<le> 1000"
proof -
  have "0 \<le> max_models small_options" by (simp add: small_options_def default_service_options_def)
  from residency_budget [OF this, of sample_calls empty_hardware] show ?thesis
    by (simp add: Let_def sample_run)
qed

theorem eviction_victim_least_recent_witness:
  "oldest_idle (res_run sample_calls (make_residency small_options empty_hardware)) = qs ''b''
   \<and> (\<exists>e. map_of (r_entries (res_run sample_calls (make_residency small_options empty_hardware)))
        (qs ''b'') = Some e \<and> re_access e < 3)"
proof -
  let ?r = "res_run sample_calls (make_residency small_options empty_hardware)"
  have b: "oldest_idle ?r = qs ''b''" by (simp add: sample_run oldest_idle_def)
  have "length sample_calls < 2 ^ 64" "[] \<notin> set (okeys (r_entries ?r))"
    by (simp_all only: sample_run) (simp_all add: sample_calls_def)
  from eviction_victim_least_recent [OF this(1) refl this(2)] b show ?thesis
    by (simp add: sample_run)
qed

theorem lease_bracket_witness:
  "\<exists>r1 r3. res_acquire (qs ''a'') 5 0 (res_run sample_calls (make_residency small_options empty_hardware)) = Inr r1
     \<and> lease_count r1 (qs ''a'') = 1
     \<and> res_release (qs ''a'') 9 r1 = Inr r3 \<and> lease_count r3 (qs ''a'') = 0"
proof -
  let ?r = "res_run sample_calls (make_residency small_options empty_hardware)"
  have inv: "res_inv ?r"
    by (intro run_inv make_residency_inv) (simp add: small_options_def default_service_options_def)
  obtain r1 where r1: "res_acquire (qs ''a'') 5 0 ?r = Inr r1"
    by (simp add: sample_run res_acquire_def res_touch_def)
  have l0: "lease_count ?r (qs ''a'') = 0" by (simp add: sample_run lease_count_def)
  have l1: "lease_count r1 (qs ''a'') = 1" using acquire_lease [OF r1] l0 by simp
  from lease_bracket [OF inv r1 acquire_inv [OF inv r1] refl, where ?t2.0 = 9] l0 l1 r1
  show ?thesis by auto
qed

end
