(* ===== verification/Parameters.thy ===== *)
theory Parameters
  imports Types
begin

text \<open>
  The parameter catalog and its objects (\<^verbatim>\<open>src/core/Parameters.h\<close>,
  \<^verbatim>\<open>src/core/Parameters.cpp\<close>): the schema check, the validator \<^verbatim>\<open>accepts\<close>, catalogs
  read from JSON, parameter objects, control documents and the bridge between JSON and
  \<open>generation_options\<close>. The regular expressions of Qt and its compact JSON printer are
  the fields of the record \<open>qt\<close>.
\<close>

section \<open>Data\<close>

record qt =
  qt_valid_pattern :: "qstring \<Rightarrow> bool"
  qt_matches :: "qstring \<Rightarrow> qstring \<Rightarrow> bool"
  qt_compact :: "json_object \<Rightarrow> qstring"

datatype parameter_kind = KBoolean | KInteger | KNumber | KString | KArray | KObject | KUnion
  | KEnumeration | KNull | KExternal | KOpaque

datatype parameter_phase = PGeneration | PLoading | PTraining | PFineTuning | PQuantization
  | PServing | PInfrastructure

fun kind_name :: "parameter_kind \<Rightarrow> qstring" where
  "kind_name KBoolean = qs ''boolean''"
| "kind_name KInteger = qs ''integer''"
| "kind_name KNumber = qs ''number''"
| "kind_name KString = qs ''string''"
| "kind_name KArray = qs ''array''"
| "kind_name KObject = qs ''object''"
| "kind_name KUnion = qs ''union''"
| "kind_name KEnumeration = qs ''enum''"
| "kind_name KNull = qs ''null''"
| "kind_name KExternal = qs ''external''"
| "kind_name KOpaque = qs ''opaque''"

fun phase_name :: "parameter_phase \<Rightarrow> qstring" where
  "phase_name PGeneration = qs ''generation''"
| "phase_name PLoading = qs ''loading''"
| "phase_name PTraining = qs ''training''"
| "phase_name PFineTuning = qs ''fine_tuning''"
| "phase_name PQuantization = qs ''quantization''"
| "phase_name PServing = qs ''serving''"
| "phase_name PInfrastructure = qs ''infrastructure''"

record parameter_source =
  src_provider :: qstring
  src_revision :: qstring
  src_file :: qstring
  src_url :: qstring
  src_sha256 :: qstring
  src_line :: int

record parameter_definition =
  p_name :: qstring
  p_native_type :: qstring
  p_description :: qstring
  p_kind :: parameter_kind
  p_phase :: parameter_phase
  p_schema :: json_object
  p_has_default :: bool
  p_default :: json
  p_default_expression :: qstring
  p_required :: bool
  p_read_only :: bool
  p_sensitive :: bool
  p_native_bindings :: "qstring list"
  p_binding_key :: qstring
  p_binding_note :: qstring
  p_source :: parameter_source

record parameter_group =
  g_id :: qstring
  g_description :: qstring
  g_bases :: "qstring list"
  g_phase :: parameter_phase
  g_parameters :: "parameter_definition list"

record parameter_issue =
  issue_path :: qstring
  issue_message :: qstring

record group_index =
  ix_fields :: "(qstring, nat) omap"
  ix_required :: "nat list"

record catalog =
  c_document :: json_object
  c_groups :: "(qstring, parameter_group) omap"
  c_indexes :: "(qstring, group_index) omap"
  c_patterns :: "qstring list"

section \<open>Reading definitions\<close>

definition strings_of :: "json \<Rightarrow> qstring list" where
  "strings_of v = map to_string (to_array v)"

definition kind_of :: "json_object \<Rightarrow> parameter_kind" where
  "kind_of schema =
     (if jhas schema ''anyOf'' then KUnion
      else if jhas schema ''enum'' then KEnumeration
      else let type = to_string (jvalue schema ''type'') in
        if type = qs ''boolean'' then KBoolean
        else if type = qs ''integer'' then KInteger
        else if type = qs ''number'' then KNumber
        else if type = qs ''string'' then KString
        else if type = qs ''array'' then KArray
        else if type = qs ''object'' \<or> jhas schema ''ref'' then KObject
        else if type = qs ''null'' then KNull
        else if type = qs ''external'' then KExternal
        else KOpaque)"

definition phase_of :: "qstring \<Rightarrow> parameter_phase res" where
  "phase_of v =
     (if v = qs ''loading'' then Inr PLoading
      else if v = qs ''training'' then Inr PTraining
      else if v = qs ''fine_tuning'' then Inr PFineTuning
      else if v = qs ''quantization'' then Inr PQuantization
      else if v = qs ''serving'' then Inr PServing
      else if v = qs ''infrastructure'' then Inr PInfrastructure
      else if v = [] \<or> v = qs ''generation'' then Inr PGeneration
      else throwq InvalidArgument (qs ''Unknown parameter phase: '' @ v))"

section \<open>Schemas\<close>

definition schema_keys :: "qstring list" where
  "schema_keys = map qs [''type'', ''enum'', ''anyOf'', ''nullable'', ''ref'', ''items'', ''prefixItems'',
     ''minimum'', ''maximum'', ''exclusiveMinimum'', ''exclusiveMaximum'', ''minItems'', ''maxItems'',
     ''minLength'', ''maxLength'', ''additionalProperties'', ''properties'', ''required'', ''pattern'']"

definition schema_types :: "qstring list" where
  "schema_types = map qs [''boolean'', ''integer'', ''number'', ''string'', ''array'', ''object'',
     ''null'', ''opaque'', ''external'']"

definition is_size_key :: "qstring \<Rightarrow> bool" where
  "is_size_key k \<longleftrightarrow> ends_with (qs ''Length'') k \<or> ends_with (qs ''Items'') k"

definition is_bound_key :: "qstring \<Rightarrow> bool" where
  "is_bound_key k \<longleftrightarrow> starts_with (qs ''min'') k \<or> starts_with (qs ''max'') k
     \<or> starts_with (qs ''exclusive'') k"

text \<open>
  One keyword of a schema. \<open>chk\<close> is the check of a nested schema; the state is the set of
  compiled patterns.
\<close>

definition check_keyword :: "qt \<Rightarrow> qstring list \<Rightarrow> (json_object \<Rightarrow> qstring list \<Rightarrow> qstring list res)
    \<Rightarrow> qstring \<times> json \<Rightarrow> qstring list \<Rightarrow> qstring list res" where
  "check_keyword q group_ids chk entry patterns = (case entry of (k, v) \<Rightarrow>
     if k \<notin> set schema_keys then throwq InvalidArgument (qs ''Unsupported parameter schema keyword: '' @ k)
     else if k = qs ''type'' \<and> to_string v \<notin> set schema_types then throw InvalidArgument ''Unknown parameter schema type''
     else if k = qs ''ref'' \<and> (\<not> is_string v \<or> to_string v \<notin> set group_ids) then throw InvalidArgument ''Unknown parameter schema reference''
     else if k = qs ''nullable'' \<and> \<not> is_bool v then throw InvalidArgument ''nullable must be boolean''
     else if k = qs ''enum'' \<and> (\<not> is_array v \<or> to_array v = []) then throw InvalidArgument ''enum must contain choices''
     else if (k = qs ''anyOf'' \<or> k = qs ''prefixItems'') \<and> (\<not> is_array v \<or> k = qs ''anyOf'' \<and> to_array v = [])
       then throw InvalidArgument ''Invalid schema alternatives''
     else if k = qs ''anyOf'' \<or> k = qs ''prefixItems'' then
       fold_res (\<lambda>child. if is_object child then chk (to_object child)
                  else (\<lambda>_. throw InvalidArgument ''Schema alternatives must be objects'')) (to_array v) patterns
     else if k = qs ''items'' \<or> k = qs ''additionalProperties'' then
       (if is_object v then chk (to_object v) patterns
        else if k \<noteq> qs ''additionalProperties'' \<or> \<not> is_bool v then throw InvalidArgument ''Invalid item schema''
        else Inr patterns)
     else if k = qs ''properties'' then
       (if \<not> is_object v then throw InvalidArgument ''properties must be an object''
        else fold_res (\<lambda>(_, child). if is_object child then chk (to_object child)
                  else (\<lambda>_. throw InvalidArgument ''Property schema must be an object'')) (to_object v) patterns)
     else if k = qs ''required'' then
       (if \<not> is_array v then throw InvalidArgument ''required must be an array''
        else if \<exists>field \<in> set (to_array v). \<not> is_string field
          then throw InvalidArgument ''required entries must be field names''
        else Inr patterns)
     else if k = qs ''pattern'' then
       (if \<not> is_string v then throw InvalidArgument ''Invalid string pattern''
        else if to_string v \<in> set patterns then Inr patterns
        else if \<not> qt_valid_pattern q (to_string v) then throw InvalidArgument ''Invalid string pattern''
        else Inr (to_string v # patterns))
     else if is_bound_key k then
       (if \<not> is_double v then throw InvalidArgument ''Schema bounds must be finite numbers''
        else if is_size_key k \<and> (to_double v < 0 \<or> of_int \<lfloor>to_double v\<rfloor> \<noteq> to_double v)
          then throw InvalidArgument ''Invalid size bound''
        else Inr patterns)
     else Inr patterns)"

text \<open>
  \<^verbatim>\<open>checkSchema(schema, depth)\<close> with \<open>n = 33 - depth\<close>: at depth 33 no level is left.
\<close>

primrec check_schema :: "nat \<Rightarrow> qt \<Rightarrow> qstring list \<Rightarrow> json_object \<Rightarrow> qstring list \<Rightarrow> qstring list res" where
  "check_schema 0 q gs schema patterns = throw InvalidArgument ''Parameter schema exceeds nesting limit''"
| "check_schema (Suc n) q gs schema patterns =
     fold_res (check_keyword q gs (check_schema n q gs)) schema patterns"

section \<open>Validation of values\<close>

text \<open>\<^verbatim>\<open>QJsonValue::toInteger\<close>: the value when it is a 64-bit integer, else 0.\<close>

fun to_integer :: "json \<Rightarrow> int" where
  "to_integer (JNum q) =
     (if of_int \<lfloor>q\<rfloor> = q \<and> - (2 ^ 63) \<le> \<lfloor>q\<rfloor> \<and> \<lfloor>q\<rfloor> < 2 ^ 63 then \<lfloor>q\<rfloor> else 0)"
| "to_integer _ = 0"

definition scalar_ok :: "qstring \<Rightarrow> json \<Rightarrow> bool" where
  "scalar_ok type v \<longleftrightarrow>
     (type = qs ''boolean'' \<longrightarrow> is_bool v) \<and> (type = qs ''string'' \<longrightarrow> is_string v)
     \<and> (type = qs ''integer'' \<or> type = qs ''number'' \<longrightarrow> is_double v)
     \<and> (type = qs ''integer'' \<longrightarrow> JNum (of_int (to_integer v)) = v)"

definition bounds_ok :: "json_object \<Rightarrow> json \<Rightarrow> bool" where
  "bounds_ok s v \<longleftrightarrow> (is_double v \<longrightarrow>
     (let number = to_double v; bound = (\<lambda>key. to_double (jvalue s key)) in
       \<not> (jhas s ''minimum'' \<and> number < bound ''minimum'')
       \<and> \<not> (jhas s ''maximum'' \<and> number > bound ''maximum'')
       \<and> \<not> (jhas s ''exclusiveMinimum'' \<and> number \<le> bound ''exclusiveMinimum'')
       \<and> \<not> (jhas s ''exclusiveMaximum'' \<and> number \<ge> bound ''exclusiveMaximum'')))"

definition array_ok :: "(json_object \<Rightarrow> json \<Rightarrow> bool) \<Rightarrow> json_object \<Rightarrow> json \<Rightarrow> bool" where
  "array_ok acc s v \<longleftrightarrow> (is_array v \<longrightarrow>
     (let xs = to_array v; items = to_array (jvalue s ''prefixItems'') in
       \<not> (jhas s ''minItems'' \<and> int (length xs) < to_int (jvalue s ''minItems'') 0)
       \<and> \<not> (jhas s ''maxItems'' \<and> int (length xs) > to_int (jvalue s ''maxItems'') 0)
       \<and> (is_object (jvalue s ''items'') \<longrightarrow> (\<forall>x \<in> set xs. acc (to_object (jvalue s ''items'')) x))
       \<and> (is_array (jvalue s ''prefixItems'') \<longrightarrow> length items = length xs
            \<and> list_all2 (\<lambda>i x. acc (to_object i) x) items xs)))"

definition member_ok :: "(json_object \<Rightarrow> json \<Rightarrow> bool) \<Rightarrow> json_object \<Rightarrow> qstring \<times> json \<Rightarrow> bool" where
  "member_ok acc s kv = (case kv of (k, x) \<Rightarrow>
     let properties = to_object (jvalue s ''properties''); extra = jvalue s ''additionalProperties'' in
       if ohas properties k then (case map_of properties k of None \<Rightarrow> False | Some p \<Rightarrow> acc (to_object p) x)
       else if is_object extra then acc (to_object extra) x
       else extra \<noteq> JBool False)"

definition reference_ok :: "(json_object \<Rightarrow> json \<Rightarrow> bool) \<Rightarrow> catalog \<Rightarrow> json_object \<Rightarrow> json_object \<Rightarrow> bool" where
  "reference_ok acc c s obj = (case map_of (c_groups c) (to_string (jvalue s ''ref'')) of
     None \<Rightarrow> True
   | Some g \<Rightarrow> (case map_of (c_indexes c) (to_string (jvalue s ''ref'')) of
       None \<Rightarrow> False
     | Some ix \<Rightarrow>
         (\<forall>i \<in> set (ix_required ix). ohas obj (p_name (g_parameters g ! i)))
         \<and> (\<forall>(k, x) \<in> set obj. case map_of (ix_fields ix) k of
              None \<Rightarrow> False
            | Some i \<Rightarrow> (let field = g_parameters g ! i in \<not> p_read_only field \<and> acc (p_schema field) x))))"

definition object_ok :: "(json_object \<Rightarrow> json \<Rightarrow> bool) \<Rightarrow> catalog \<Rightarrow> json_object \<Rightarrow> json \<Rightarrow> bool" where
  "object_ok acc c s v \<longleftrightarrow> (is_object v \<longrightarrow>
     (let obj = to_object v in
       (\<forall>name \<in> set (to_array (jvalue s ''required'')). ohas obj (to_string name))
       \<and> (\<forall>kv \<in> set obj. member_ok acc s kv)
       \<and> reference_ok acc c s obj))"

definition text_ok :: "qt \<Rightarrow> json_object \<Rightarrow> json \<Rightarrow> bool" where
  "text_ok q s v \<longleftrightarrow> (is_string v \<longrightarrow>
     (let t = to_string v in
       \<not> (jhas s ''minLength'' \<and> int (length t) < to_int (jvalue s ''minLength'') 0)
       \<and> \<not> (jhas s ''maxLength'' \<and> int (length t) > to_int (jvalue s ''maxLength'') 0)
       \<and> (jhas s ''pattern'' \<longrightarrow> qt_matches q (to_string (jvalue s ''pattern'')) t)))"

text \<open>\<^verbatim>\<open>accepts(schema, value, depth)\<close> with \<open>n = 33 - depth\<close>.\<close>

primrec accepts_at :: "nat \<Rightarrow> qt \<Rightarrow> catalog \<Rightarrow> json_object \<Rightarrow> json \<Rightarrow> bool" where
  "accepts_at 0 q c s v = False"
| "accepts_at (Suc n) q c s v =
     (if v = JUndefined then False
      else if v = JNull \<and> to_bool (jvalue s ''nullable'') False then True
      else if jhas s ''anyOf'' \<and> \<not> (\<exists>branch \<in> set (to_array (jvalue s ''anyOf'')). accepts_at n q c (to_object branch) v) then False
      else if jhas s ''enum'' \<and> v \<notin> set (to_array (jvalue s ''enum'')) then False
      else (let type = to_string (jvalue s ''type'') in
        if type = qs ''external'' then False
        else if type = qs ''null'' then v = JNull
        else scalar_ok type v \<and> bounds_ok s v
          \<and> (type = qs ''array'' \<longrightarrow> is_array v) \<and> array_ok (accepts_at n q c) s v
          \<and> (type = qs ''object'' \<or> jhas s ''ref'' \<longrightarrow> is_object v) \<and> object_ok (accepts_at n q c) c s v
          \<and> text_ok q s v))"

definition accepts :: "qt \<Rightarrow> catalog \<Rightarrow> json_object \<Rightarrow> json \<Rightarrow> bool" where
  "accepts q c s v = accepts_at 33 q c s v"

section \<open>Catalogs\<close>

definition parse_source :: "json_object \<Rightarrow> parameter_source" where
  "parse_source s = \<lparr>src_provider = to_string (jvalue s ''provider''),
     src_revision = to_string (jvalue s ''revision''), src_file = to_string (jvalue s ''path''),
     src_url = to_string (jvalue s ''url''), src_sha256 = to_string (jvalue s ''sha256''),
     src_line = to_int (jvalue s ''line'') 0\<rparr>"

definition parse_parameter :: "parameter_phase \<Rightarrow> json_object \<Rightarrow> parameter_definition" where
  "parse_parameter phase obj = (let schema = to_object (jvalue obj ''schema'') in
     \<lparr>p_name = to_string (jvalue obj ''name''), p_native_type = to_string (jvalue obj ''native_type''),
      p_description = to_string (jvalue obj ''description''), p_kind = kind_of schema, p_phase = phase,
      p_schema = schema, p_has_default = jhas obj ''default'', p_default = jvalue obj ''default'',
      p_default_expression = to_string (jvalue obj ''default_expression''),
      p_required = to_bool (jvalue obj ''required'') False,
      p_read_only = to_bool (jvalue obj ''read_only'') False,
      p_sensitive = to_bool (jvalue obj ''sensitive'') False,
      p_native_bindings = strings_of (jvalue obj ''native_bindings''),
      p_binding_key = to_string (jvalue obj ''binding_key''),
      p_binding_note = to_string (jvalue obj ''binding_note''),
      p_source = parse_source (to_object (jvalue obj ''source''))\<rparr>)"

definition add_parameter :: "qstring \<Rightarrow> parameter_phase \<Rightarrow> json \<Rightarrow> parameter_definition list
    \<Rightarrow> parameter_definition list res" where
  "add_parameter gid phase field ps =
     (if \<not> is_object field \<or> \<not> is_object (jvalue (to_object field) ''schema'')
      then throw InvalidArgument ''Parameter definition requires a schema object''
      else let p = parse_parameter phase (to_object field) in
        if p_name p = [] \<or> p_name p \<in> set (map p_name ps) \<or> p_native_type p = [] \<or> p_description p = []
        then throwq InvalidArgument (qs ''Invalid parameter definition in '' @ gid)
        else Inr (ps @ [p]))"

definition index_parameters :: "parameter_definition list \<Rightarrow> group_index" where
  "index_parameters ps =
     \<lparr>ix_fields = fold (\<lambda>(i, p). oput (p_name p) i) (enumerate 0 ps) [],
      ix_required = map fst (filter (\<lambda>(i, p). p_required p \<and> \<not> p_has_default p \<and> \<not> p_read_only p)
        (enumerate 0 ps))\<rparr>"

definition add_group :: "json \<Rightarrow> catalog \<Rightarrow> catalog res" where
  "add_group item c =
     (if \<not> is_object item then throw InvalidArgument ''Parameter group must be an object''
      else let obj = to_object item; gid = to_string (jvalue obj ''id'') in
        bindr (phase_of (to_string (jvalue obj ''phase''))) (\<lambda>phase.
        if gid = [] \<or> ohas (c_groups c) gid \<or> \<not> is_array (jvalue obj ''parameters'')
        then throw InvalidArgument ''Invalid or duplicate parameter group''
        else bindr (fold_res (add_parameter gid phase) (to_array (jvalue obj ''parameters'')) []) (\<lambda>ps.
          Inr (c\<lparr>c_groups := oput gid \<lparr>g_id = gid, g_description = to_string (jvalue obj ''description''),
                   g_bases = strings_of (jvalue obj ''bases''), g_phase = phase, g_parameters = ps\<rparr> (c_groups c),
                 c_indexes := oput gid (index_parameters ps) (c_indexes c)\<rparr>))))"

definition check_group :: "qt \<Rightarrow> qstring list \<Rightarrow> qstring \<times> parameter_group \<Rightarrow> qstring list \<Rightarrow> qstring list res" where
  "check_group q gs entry = fold_res (\<lambda>field. check_schema 33 q gs (p_schema field)) (g_parameters (snd entry))"

definition catalog_from_json :: "qt \<Rightarrow> json_object \<Rightarrow> catalog res" where
  "catalog_from_json q document =
     (if jvalue document ''schema_version'' \<noteq> JNum 1 \<or> \<not> is_array (jvalue document ''groups'')
      then throw InvalidArgument ''Parameter catalog requires schema_version=1 and groups''
      else bindr (fold_res add_group (to_array (jvalue document ''groups''))
          \<lparr>c_document = document, c_groups = [], c_indexes = [], c_patterns = []\<rparr>) (\<lambda>c.
        bindr (fold_res (check_group q (okeys (c_groups c))) (c_groups c) []) (\<lambda>patterns.
          Inr (c\<lparr>c_patterns := patterns\<rparr>))))"

definition catalog_groups :: "catalog \<Rightarrow> qstring list" where
  "catalog_groups c = okeys (c_groups c)"

definition catalog_contains :: "catalog \<Rightarrow> qstring \<Rightarrow> bool" where
  "catalog_contains c g = ohas (c_groups c) g"

definition catalog_group :: "catalog \<Rightarrow> qstring \<Rightarrow> parameter_group res" where
  "catalog_group c gid = (case map_of (c_groups c) gid of
     None \<Rightarrow> throwq InvalidArgument (qs ''Unknown parameter group: '' @ gid)
   | Some g \<Rightarrow> Inr g)"

definition catalog_parameter :: "catalog \<Rightarrow> qstring \<Rightarrow> qstring \<Rightarrow> parameter_definition res" where
  "catalog_parameter c gid name = (case map_of (c_groups c) gid of
     None \<Rightarrow> throwq InvalidArgument (qs ''Unknown parameter group: '' @ gid)
   | Some g \<Rightarrow> (case Option.bind (map_of (c_indexes c) gid) (\<lambda>ix. map_of (ix_fields ix) name) of
       None \<Rightarrow> throwq InvalidArgument (qs ''Unknown parameter: '' @ gid @ qs ''.'' @ name)
     | Some i \<Rightarrow> Inr (g_parameters g ! i)))"

definition validate_value :: "qt \<Rightarrow> catalog \<Rightarrow> qstring \<Rightarrow> qstring \<Rightarrow> json \<Rightarrow> parameter_issue list res" where
  "validate_value q c gid name v = bindr (catalog_parameter c gid name) (\<lambda>field. Inr
     (if p_read_only field
      then [\<lparr>issue_path = gid @ qs ''.'' @ name, issue_message = qs ''Parameter is derived/read-only''\<rparr>]
      else if \<not> accepts q c (p_schema field) v
      then [\<lparr>issue_path = gid @ qs ''.'' @ name,
             issue_message = qs ''Expected '' @ p_native_type field @ qs '' satisfying '' @ qt_compact q (p_schema field)\<rparr>]
      else []))"

section \<open>Redaction\<close>

definition redacted :: json where
  "redacted = JStr (qs ''[REDACTED]'')"

text \<open>The fields of a referenced group, then every member, as the two loops run.\<close>

definition redact_field :: "(json_object \<Rightarrow> json \<Rightarrow> json) \<Rightarrow> parameter_definition \<Rightarrow> json_object \<Rightarrow> json_object" where
  "redact_field red field obj = (case map_of obj (p_name field) of
     None \<Rightarrow> obj
   | Some v \<Rightarrow> oput (p_name field) (if p_sensitive field then redacted else red (p_schema field) v) obj)"

definition redact_member :: "(json_object \<Rightarrow> json \<Rightarrow> json) \<Rightarrow> json_object \<Rightarrow> qstring \<Rightarrow> json \<Rightarrow> json" where
  "redact_member red schema k v =
     (let properties = to_object (jvalue schema ''properties'');
          own = (case map_of properties k of None \<Rightarrow> JUndefined | Some p \<Rightarrow> p);
          child = (if is_object own then to_object own else to_object (jvalue schema ''additionalProperties''))
      in if child \<noteq> [] then red child v else v)"

primrec redact_value :: "nat \<Rightarrow> catalog \<Rightarrow> json_object \<Rightarrow> json \<Rightarrow> json" where
  "redact_value 0 c schema v = redacted"
| "redact_value (Suc n) c schema v =
     (case fold (\<lambda>branch. redact_value n c (to_object branch)) (to_array (jvalue schema ''anyOf'')) v of
        JObj obj \<Rightarrow> JObj (omap_values (redact_member (redact_value n c) schema)
          (case map_of (c_groups c) (to_string (jvalue schema ''ref'')) of
             None \<Rightarrow> obj
           | Some g \<Rightarrow> fold (redact_field (redact_value n c)) (g_parameters g) obj))
      | JArr xs \<Rightarrow> (let prefix = to_array (jvalue schema ''prefixItems'') in
          JArr (map (\<lambda>(i, x). let child = (if i < length prefix then to_object (prefix ! i)
                                          else to_object (jvalue schema ''items''))
                       in if child \<noteq> [] then redact_value n c child x else x) (enumerate 0 xs)))
      | other \<Rightarrow> other)"

section \<open>Parameter objects\<close>

record parameter_object =
  po_group :: qstring
  po_catalog :: catalog
  po_values :: json_object

definition make_object :: "qstring \<Rightarrow> catalog \<Rightarrow> parameter_object res" where
  "make_object gid c = bindr (catalog_group c gid) (\<lambda>_.
     Inr \<lparr>po_group = gid, po_catalog = c, po_values = []\<rparr>)"

definition object_definition :: "parameter_object \<Rightarrow> qstring \<Rightarrow> parameter_definition res" where
  "object_definition po name = catalog_parameter (po_catalog po) (po_group po) name"

definition object_is_set :: "parameter_object \<Rightarrow> qstring \<Rightarrow> bool res" where
  "object_is_set po field = bindr (object_definition po field) (\<lambda>_. Inr (ohas (po_values po) field))"

definition object_value :: "parameter_object \<Rightarrow> qstring \<Rightarrow> json res" where
  "object_value po field = bindr (object_definition po field) (\<lambda>p.
     Inr (case map_of (po_values po) field of Some v \<Rightarrow> v | None \<Rightarrow> p_default p))"

text \<open>\<^verbatim>\<open>if (!issues.isEmpty()) fail(...)\<close>, with the text made from the first issue.\<close>

definition issue_text :: "parameter_issue \<Rightarrow> qstring" where
  "issue_text i = issue_path i @ qs '': '' @ issue_message i"

definition reject_first :: "(parameter_issue \<Rightarrow> qstring) \<Rightarrow> parameter_issue list \<Rightarrow> unit res" where
  "reject_first text_of issues = (case issues of [] \<Rightarrow> Inr () | i # _ \<Rightarrow> throwq InvalidArgument (text_of i))"

definition object_set :: "qt \<Rightarrow> qstring \<Rightarrow> json \<Rightarrow> parameter_object \<Rightarrow> parameter_object res" where
  "object_set q field v po = bindr (validate_value q (po_catalog po) (po_group po) field v) (\<lambda>issues.
     bindr (reject_first issue_text issues) (\<lambda>_. Inr (po\<lparr>po_values := oput field v (po_values po)\<rparr>)))"

definition object_set_number :: "qt \<Rightarrow> qstring \<Rightarrow> dbl \<Rightarrow> parameter_object \<Rightarrow> parameter_object res" where
  "object_set_number q field v po = (case v of
     NonFinite \<Rightarrow> throwq InvalidArgument (po_group po @ qs ''.'' @ field @ qs '': Number must be finite'')
   | Dbl x \<Rightarrow> object_set q field (JNum x) po)"

definition object_unset :: "qstring \<Rightarrow> parameter_object \<Rightarrow> parameter_object res" where
  "object_unset field po = bindr (object_definition po field) (\<lambda>_.
     Inr (po\<lparr>po_values := odel field (po_values po)\<rparr>))"

definition field_issues :: "qt \<Rightarrow> bool \<Rightarrow> parameter_object \<Rightarrow> parameter_definition
    \<Rightarrow> parameter_issue list \<Rightarrow> parameter_issue list res" where
  "field_issues q required po field issues = (case map_of (po_values po) (p_name field) of
     Some v \<Rightarrow> bindr (validate_value q (po_catalog po) (po_group po) (p_name field) v) (\<lambda>more. Inr (issues @ more))
   | None \<Rightarrow> Inr (if required \<and> p_required field \<and> \<not> p_has_default field
       then issues @ [\<lparr>issue_path = po_group po @ qs ''.'' @ p_name field,
                       issue_message = qs ''Required parameter is unset''\<rparr>]
       else issues))"

definition precision_conflict :: "parameter_object \<Rightarrow> bool" where
  "precision_conflict po \<longleftrightarrow>
     (starts_with (qs ''transformers.'') (po_group po) \<or> starts_with (qs ''trl.'') (po_group po))
     \<and> to_bool (jvalue (po_values po) ''fp16'') False \<and> to_bool (jvalue (po_values po) ''bf16'') False"

definition object_validate :: "qt \<Rightarrow> bool \<Rightarrow> parameter_object \<Rightarrow> parameter_issue list res" where
  "object_validate q required po = bindr (catalog_group (po_catalog po) (po_group po)) (\<lambda>g.
     bindr (fold_res (field_issues q required po) (g_parameters g) []) (\<lambda>issues.
       Inr (if precision_conflict po
            then issues @ [\<lparr>issue_path = po_group po, issue_message = qs ''fp16 and bf16 are mutually exclusive''\<rparr>]
            else issues)))"

text \<open>\<^verbatim>\<open>validate()\<close> followed by \<^verbatim>\<open>fail(path + ": " + message)\<close>.\<close>

definition object_require_valid :: "qt \<Rightarrow> parameter_object \<Rightarrow> unit res" where
  "object_require_valid q po = bindr (object_validate q False po) (reject_first issue_text)"

definition export_field :: "catalog \<Rightarrow> bool \<Rightarrow> bool \<Rightarrow> parameter_definition \<Rightarrow> json_object \<Rightarrow> json_object" where
  "export_field c defaults redact field obj0 =
     (let obj = (if defaults \<and> p_has_default field \<and> \<not> p_read_only field \<and> \<not> ohas obj0 (p_name field)
                 then oput (p_name field) (p_default field) obj0 else obj0)
      in if redact then redact_field (redact_value 33 c) field obj else obj)"

definition to_native_json :: "qt \<Rightarrow> bool \<Rightarrow> bool \<Rightarrow> parameter_object \<Rightarrow> json_object res" where
  "to_native_json q defaults redact po = bindr (object_require_valid q po) (\<lambda>_.
     bindr (catalog_group (po_catalog po) (po_group po)) (\<lambda>g.
       Inr (fold (export_field (po_catalog po) defaults redact) (g_parameters g) (po_values po))))"

definition from_native_json :: "qt \<Rightarrow> catalog \<Rightarrow> qstring \<Rightarrow> json_object \<Rightarrow> parameter_object res" where
  "from_native_json q c gid values = bindr (make_object gid c) (\<lambda>po.
     bindr (fold_res (\<lambda>(k, v). object_set q k v) values po) (\<lambda>po'.
     bindr (object_validate q False po') (\<lambda>issues.
     bindr (reject_first issue_message issues) (\<lambda>_. Inr po'))))"

definition require_native_binding :: "qt \<Rightarrow> qstring \<Rightarrow> parameter_object \<Rightarrow> unit res" where
  "require_native_binding q runtime po = bindr (object_require_valid q po) (\<lambda>_.
     fold_res (\<lambda>(k, _) _. bindr (object_definition po k) (\<lambda>p.
       if runtime \<notin> set (p_native_bindings p)
       then throwq RuntimeUnavailable (po_group po @ qs ''.'' @ k @ qs '' has no execution binding for '' @ runtime)
       else Inr ())) (po_values po) ())"

section \<open>Control documents\<close>

record control =
  ct_catalog :: catalog
  ct_objects :: "(qstring, parameter_object) omap"

definition make_control :: "catalog \<Rightarrow> control" where
  "make_control c = \<lparr>ct_catalog = c, ct_objects = []\<rparr>"

definition control_set :: "qt \<Rightarrow> parameter_object \<Rightarrow> control \<Rightarrow> control res" where
  "control_set q po ct = bindr (to_native_json q False False po) (\<lambda>values.
     bindr (from_native_json q (ct_catalog ct) (po_group po) values) (\<lambda>po'.
       Inr (ct\<lparr>ct_objects := oput (po_group po) po' (ct_objects ct)\<rparr>)))"

definition control_contains :: "control \<Rightarrow> qstring \<Rightarrow> bool" where
  "control_contains ct gid = ohas (ct_objects ct) gid"

definition control_object :: "control \<Rightarrow> qstring \<Rightarrow> parameter_object res" where
  "control_object ct gid = (case map_of (ct_objects ct) gid of
     None \<Rightarrow> make_object gid (ct_catalog ct) | Some po \<Rightarrow> Inr po)"

definition control_groups :: "control \<Rightarrow> qstring list" where
  "control_groups ct = okeys (ct_objects ct)"

definition control_to_json :: "qt \<Rightarrow> bool \<Rightarrow> bool \<Rightarrow> control \<Rightarrow> json_object res" where
  "control_to_json q defaults redact ct =
     bindr (fold_res (\<lambda>(gid, po) objects. bindr (to_native_json q defaults redact po) (\<lambda>values.
         Inr (oput gid (JObj values) objects))) (ct_objects ct) []) (\<lambda>objects.
       Inr (jobj [(''schema_version'', JNum 1), (''objects'', JObj objects)]))"

definition control_from_json :: "qt \<Rightarrow> catalog \<Rightarrow> json_object \<Rightarrow> control res" where
  "control_from_json q c document =
     (if jvalue document ''schema_version'' \<noteq> JNum 1 \<or> \<not> is_object (jvalue document ''objects'')
      then throw InvalidArgument ''Control parameters require schema_version=1 and objects''
      else bindr (fold_res (\<lambda>(k, _) _. if k \<noteq> qs ''schema_version'' \<and> k \<noteq> qs ''objects''
          then throwq InvalidArgument (qs ''Unknown control document field: '' @ k) else Inr ()) document ()) (\<lambda>_.
        fold_res (\<lambda>(gid, v) ct. if \<not> is_object v
            then throw InvalidArgument ''Control parameter groups must be objects''
            else bindr (from_native_json q c gid (to_object v)) (\<lambda>po. control_set q po ct))
          (to_object (jvalue document ''objects'')) (make_control c)))"

section \<open>Generation options\<close>

definition generation_id :: qstring where
  "generation_id = qs ''iiLocalLLM.GenerationOptions''"

fun dbl_json :: "dbl \<Rightarrow> json" where
  "dbl_json (Dbl x) = JNum x"
| "dbl_json NonFinite = JNull"

definition generation_options_to_json :: "generation_options \<Rightarrow> json_object" where
  "generation_options_to_json opts = jobj
     [(''max_tokens'', JNum (of_int (max_tokens opts))), (''temperature'', dbl_json (temperature opts)),
      (''top_p'', dbl_json (top_p opts)), (''top_k'', JNum (of_int (top_k opts))),
      (''seed'', JNum (of_int (uint (seed opts)))), (''stop'', jstrings (stop opts)),
      (''min_p'', dbl_json (min_p opts)), (''typical_p'', dbl_json (typical_p opts)),
      (''min_keep'', JNum (of_int (min_keep opts))),
      (''repetition_penalty'', dbl_json (repetition_penalty opts)),
      (''repetition_context_size'', JNum (of_int (repetition_context_size opts))),
      (''presence_penalty'', dbl_json (presence_penalty opts)),
      (''frequency_penalty'', dbl_json (frequency_penalty opts)),
      (''xtc_probability'', dbl_json (xtc_probability opts)),
      (''xtc_threshold'', dbl_json (xtc_threshold opts)), (''logit_bias'', JObj (logit_bias opts))]"

text \<open>
  The code accepts a key when \<^verbatim>\<open>toLongLong\<close> reads it, the number is at most
  2147483647 and not negative, and printing the number gives the key back; so the keys are the
  canonical decimals of those numbers.
\<close>

definition token_key :: "qstring \<Rightarrow> bool" where
  "token_key k \<longleftrightarrow> k \<noteq> [] \<and> (\<forall>ch \<in> set k. is_digit ch) \<and> digits_value 0 k \<le> 2147483647
     \<and> decimal (digits_value 0 k) = k"

definition check_logit_bias :: "json_object \<Rightarrow> unit res" where
  "check_logit_bias bias = fold_res (\<lambda>(k, _) _. require (token_key k) InvalidArgument
     ''logit_bias keys must be canonical non-negative int32 token IDs'') bias ()"

definition generation_options_from_json :: "qt \<Rightarrow> catalog \<Rightarrow> json_object \<Rightarrow> generation_options res" where
  "generation_options_from_json q c values =
     bindr (from_native_json q c generation_id values) (\<lambda>p.
     bindr (object_value p (qs ''max_tokens'')) (\<lambda>v1.
     bindr (object_value p (qs ''temperature'')) (\<lambda>v2.
     bindr (object_value p (qs ''top_p'')) (\<lambda>v3.
     bindr (object_value p (qs ''top_k'')) (\<lambda>v4.
     bindr (object_value p (qs ''seed'')) (\<lambda>v5.
     bindr (object_value p (qs ''stop'')) (\<lambda>v6.
     bindr (object_value p (qs ''min_p'')) (\<lambda>v7.
     bindr (object_value p (qs ''typical_p'')) (\<lambda>v8.
     bindr (object_value p (qs ''min_keep'')) (\<lambda>v9.
     bindr (object_value p (qs ''repetition_penalty'')) (\<lambda>v10.
     bindr (object_value p (qs ''repetition_context_size'')) (\<lambda>v11.
     bindr (object_value p (qs ''presence_penalty'')) (\<lambda>v12.
     bindr (object_value p (qs ''frequency_penalty'')) (\<lambda>v13.
     bindr (object_value p (qs ''xtc_probability'')) (\<lambda>v14.
     bindr (object_value p (qs ''xtc_threshold'')) (\<lambda>v15.
     bindr (object_value p (qs ''logit_bias'')) (\<lambda>v16.
     bindr (check_logit_bias (to_object v16)) (\<lambda>_.
       Inr \<lparr>max_tokens = to_int v1 0, temperature = Dbl (to_double v2), top_p = Dbl (to_double v3),
         top_k = to_int v4 0, seed = word_of_int (to_integer v5), stop = strings_of v6,
         min_p = Dbl (to_double v7), typical_p = Dbl (to_double v8), min_keep = to_int v9 0,
         repetition_penalty = Dbl (to_double v10), repetition_context_size = to_int v11 0,
         presence_penalty = Dbl (to_double v12), frequency_penalty = Dbl (to_double v13),
         xtc_probability = Dbl (to_double v14), xtc_threshold = Dbl (to_double v15),
         logit_bias = to_object v16\<rparr>))))))))))))))))))"

definition generation_options_from_parameters :: "qt \<Rightarrow> catalog \<Rightarrow> parameter_object \<Rightarrow> generation_options res" where
  "generation_options_from_parameters q c po = bindr (to_native_json q False False po) (\<lambda>values.
     bindr (fold_res (\<lambda>(k, v) mapped. bindr (object_definition po k) (\<lambda>p.
         if p_binding_key p = [] \<or> p_native_bindings p = []
         then throwq RuntimeUnavailable (po_group po @ qs ''.'' @ k @ qs '' has no generation binding'')
         else if ohas mapped (p_binding_key p)
         then throwq InvalidArgument (qs ''Conflicting generation bindings: '' @ p_binding_key p)
         else Inr (oput (p_binding_key p) v mapped))) values []) (\<lambda>mapped.
       generation_options_from_json q c mapped))"

definition validate_generation_options :: "qt \<Rightarrow> catalog \<Rightarrow> generation_options \<Rightarrow> qstring \<Rightarrow> unit res" where
  "validate_generation_options q c opts runtime =
     bindr (generation_options_from_json q c (generation_options_to_json opts)) (\<lambda>_.
       if runtime \<noteq> [] \<and> runtime \<noteq> qs ''llama.cpp'' \<and> runtime \<noteq> qs ''mlx''
       then throwq InvalidArgument (qs ''Unknown generation runtime: '' @ runtime)
       else if runtime = qs ''mlx'' \<and> typical_p opts \<noteq> Dbl 1
       then throw RuntimeUnavailable ''MLX does not support typical_p; use 1 to disable it''
       else Inr ())"

text \<open>
  The group \<^verbatim>\<open>iiLocalLLM.GenerationOptions\<close> of \<^verbatim>\<open>catalog/parameters.json\<close>, the one the
  built-in catalog carries: name, schema and default of each field.
\<close>

abbreviation ranged :: "string \<Rightarrow> string \<Rightarrow> rat \<Rightarrow> rat \<Rightarrow> (string \<times> json) list" where
  "ranged type low a b \<equiv> [(''type'', JStr (qs type)), (low, JNum a), (''maximum'', JNum b)]"

definition generation_fields :: "(string \<times> (string \<times> json) list \<times> json) list" where
  "generation_fields =
     [(''max_tokens'', ranged ''integer'' ''minimum'' 1 1048576, JNum 256),
      (''temperature'', ranged ''number'' ''minimum'' 0 10, JNum (7/10)),
      (''top_p'', ranged ''number'' ''exclusiveMinimum'' 0 1, JNum (9/10)),
      (''top_k'', ranged ''integer'' ''minimum'' 0 1000000, JNum 40),
      (''seed'', ranged ''integer'' ''minimum'' 0 4294967295, JNum 0),
      (''stop'', [(''type'', JStr (qs ''array'')), (''maxItems'', JNum 16),
         (''items'', JObj (jobj [(''type'', JStr (qs ''string'')), (''minLength'', JNum 1),
                                 (''maxLength'', JNum 1024)]))], JArr []),
      (''min_p'', ranged ''number'' ''minimum'' 0 1, JNum 0),
      (''typical_p'', ranged ''number'' ''exclusiveMinimum'' 0 1, JNum 1),
      (''min_keep'', ranged ''integer'' ''minimum'' 1 1048576, JNum 1),
      (''repetition_penalty'', ranged ''number'' ''exclusiveMinimum'' 0 100, JNum 1),
      (''repetition_context_size'', ranged ''integer'' ''minimum'' (-1) 1048576, JNum 64),
      (''presence_penalty'', ranged ''number'' ''minimum'' (-2) 2, JNum 0),
      (''frequency_penalty'', ranged ''number'' ''minimum'' (-2) 2, JNum 0),
      (''xtc_probability'', ranged ''number'' ''minimum'' 0 1, JNum 0),
      (''xtc_threshold'', ranged ''number'' ''minimum'' 0 (1/2), JNum (1/10)),
      (''logit_bias'', [(''type'', JStr (qs ''object'')),
         (''additionalProperties'', JObj (jobj (ranged ''number'' ''minimum'' (-100) 100)))], JObj [])]"

definition has_generation_group :: "catalog \<Rightarrow> bool" where
  "has_generation_group c \<longleftrightarrow> (case map_of (c_groups c) generation_id of
     None \<Rightarrow> False
   | Some g \<Rightarrow> map_of (c_indexes c) generation_id = Some (index_parameters (g_parameters g))
       \<and> map (\<lambda>p. (p_name p, p_schema p, p_default p, p_read_only p)) (g_parameters g)
         = map (\<lambda>(n, s, d). (qs n, jobj s, d, False)) generation_fields)"

section \<open>Lookup\<close>

lemma index_fold:
  assumes "distinct (map p_name ps)"
  shows "map_of (fold (\<lambda>(i, p). oput (p_name p) i) (enumerate n ps) m) k
      = (if k \<in> set (map p_name ps) then map_of (map (\<lambda>(i, p). (p_name p, i)) (enumerate n ps)) k else map_of m k)"
  using assms by (induction ps arbitrary: n m) auto

lemma index_enum:
  assumes "distinct (map p_name ps)"
  shows "map_of (map (\<lambda>(i, p). (p_name p, i)) (enumerate n ps)) k = Some j
      \<longleftrightarrow> n \<le> j \<and> j < n + length ps \<and> p_name (ps ! (j - n)) = k"
  using assms
proof (induction ps arbitrary: n)
  case Nil
  then show ?case by simp
next
  case (Cons p ps)
  have later: "p_name ((p # ps) ! (j - n)) = p_name (ps ! (j - Suc n))" if "Suc n \<le> j"
    using that by (simp add: nth_Cons' flip: diff_Suc_eq_diff_pred)
  have absent: "p_name p \<noteq> k" if "Suc n \<le> j" "j < Suc n + length ps" "p_name (ps ! (j - Suc n)) = k"
  proof -
    have "ps ! (j - Suc n) \<in> set ps" using that by (intro nth_mem) linarith
    then show ?thesis using Cons.prems that(3) by (metis distinct.simps(2) image_eqI list.simps(9) set_map)
  qed
  consider "j = n" | "j < n" | "Suc n \<le> j" by linarith
  then show ?case
  proof cases
    case 3
    then show ?thesis using Cons.IH [of "Suc n"] Cons.prems later absent by auto
  qed (use Cons.IH [of "Suc n"] Cons.prems in auto)
qed

lemma index_lookup:
  assumes "distinct (map p_name ps)"
  shows "map_of (ix_fields (index_parameters ps)) k = Some i \<longleftrightarrow> i < length ps \<and> p_name (ps ! i) = k"
  using index_fold [OF assms, of 0 "[]" k] index_enum [OF assms, of 0 k i]
  by (auto simp: index_parameters_def simp del: enumerate_simps split: if_splits)

definition group_wf :: "catalog \<Rightarrow> qstring \<Rightarrow> parameter_group \<Rightarrow> bool" where
  "group_wf c gid g \<longleftrightarrow> g_id g = gid \<and> gid \<noteq> [] \<and> distinct (map p_name (g_parameters g))
     \<and> map_of (c_indexes c) gid = Some (index_parameters (g_parameters g))"

definition catalog_wf :: "catalog \<Rightarrow> bool" where
  "catalog_wf c \<longleftrightarrow> owf (c_groups c) \<and> (\<forall>gid g. map_of (c_groups c) gid = Some g \<longrightarrow> group_wf c gid g)"

lemma parameter_lookup:
  assumes "map_of (c_groups c) gid = Some g"
    and "map_of (c_indexes c) gid = Some (index_parameters (g_parameters g))"
    and "distinct (map p_name (g_parameters g))"
  shows "catalog_parameter c gid name = Inr p \<longleftrightarrow> p \<in> set (g_parameters g) \<and> p_name p = name"
proof -
  let ?ps = "g_parameters g"
  have "(\<exists>i. map_of (ix_fields (index_parameters ?ps)) name = Some i \<and> ?ps ! i = p)
      \<longleftrightarrow> p \<in> set ?ps \<and> p_name p = name"
    using index_lookup [OF assms(3), of name] by (auto simp: in_set_conv_nth)
  then show ?thesis
    using assms(1,2) by (auto simp: catalog_parameter_def split: option.splits)
qed

lemma parameter_error:
  "catalog_parameter c gid name = Inl e \<Longrightarrow> \<exists>m. e = Error InvalidArgument m"
  by (auto simp: catalog_parameter_def throwq_def split: option.splits)

lemma validate_value_error:
  "validate_value q c gid k v = Inl e \<Longrightarrow> \<exists>m. e = Error InvalidArgument m"
  by (auto simp: validate_value_def bindr_Inl_iff dest: parameter_error)

lemma validate_value_ok:
  "validate_value q c gid k v = Inr [] \<longleftrightarrow>
     (\<exists>p. catalog_parameter c gid k = Inr p \<and> \<not> p_read_only p \<and> accepts q c (p_schema p) v)"
  by (cases "catalog_parameter c gid k") (auto simp: validate_value_def)

section \<open>Objects read from JSON\<close>

lemma reject_first_Inr [simp]: "reject_first f issues = Inr u \<longleftrightarrow> issues = []"
  by (cases issues) (simp_all add: reject_first_def)

lemma reject_first_Inl: "reject_first f issues = Inl e \<Longrightarrow> \<exists>m. e = Error InvalidArgument m"
  by (cases issues) (auto simp: reject_first_def throwq_def)

lemma object_set_eq:
  "object_set q k v po = Inr po' \<longleftrightarrow> validate_value q (po_catalog po) (po_group po) k v = Inr []
     \<and> po' = po\<lparr>po_values := oput k v (po_values po)\<rparr>"
  by (auto simp: object_set_def)

lemma object_set_error:
  "object_set q k v po = Inl e \<Longrightarrow> \<exists>m. e = Error InvalidArgument m"
  by (auto simp: object_set_def bindr_Inl_iff dest: validate_value_error reject_first_Inl)

definition all_valid :: "qt \<Rightarrow> catalog \<Rightarrow> qstring \<Rightarrow> json_object \<Rightarrow> bool" where
  "all_valid q c gid values \<longleftrightarrow> (\<forall>(k, v) \<in> set values. validate_value q c gid k v = Inr [])"

lemma set_all:
  "fold_res (\<lambda>(k, v). object_set q k v) values po = Inr po' \<longleftrightarrow>
     all_valid q (po_catalog po) (po_group po) values
     \<and> po' = po\<lparr>po_values := fold (\<lambda>(k, v). oput k v) values (po_values po)\<rparr>"
proof (induction "values" arbitrary: po)
  case Nil
  then show ?case by (auto simp: all_valid_def)
next
  case (Cons kv kvs)
  then show ?case by (cases kv) (auto simp: object_set_eq all_valid_def)
qed

lemma set_all_error:
  "fold_res (\<lambda>(k, v). object_set q k v) values po = Inl e \<Longrightarrow> \<exists>m. e = Error InvalidArgument m"
proof (induction "values" arbitrary: po)
  case Nil
  then show ?case by simp
next
  case (Cons kv kvs)
  then show ?case by (cases kv) (auto simp: bindr_Inl_iff dest: object_set_error)
qed

lemma oput_last: "owf (m @ [(k, v)]) \<Longrightarrow> oput k v m = m @ [(k, v)]"
  by (induction m) (auto simp: owf_def)

lemma owf_appendD: "owf (m @ m') \<Longrightarrow> owf m"
  by (simp add: owf_def sorted_wrt_append)

lemma fold_oput: "owf (m @ values) \<Longrightarrow> fold (\<lambda>(k, v). oput k v) values m = m @ values"
proof (induction "values" arbitrary: m)
  case Nil
  then show ?case by simp
next
  case (Cons kv kvs)
  obtain k v where kv: "kv = (k, v)" by (cases kv)
  have "owf ((m @ [(k, v)]) @ kvs)" using Cons.prems by (simp add: kv)
  from Cons.IH [OF this] oput_last [OF owf_appendD [OF this]] show ?case by (simp add: kv)
qed

lemma field_issues_valid:
  assumes "all_valid q (po_catalog po) (po_group po) (po_values po)"
  shows "fold_res (field_issues q False po) ps issues = Inr issues"
proof (induction ps)
  case Nil
  then show ?case by simp
next
  case (Cons p ps)
  have "field_issues q False po p issues = Inr issues"
    using assms by (auto simp: field_issues_def all_valid_def split: option.split dest: map_of_SomeD)
  with Cons show ?case by simp
qed

lemma object_validate_valid:
  assumes "all_valid q (po_catalog po) (po_group po) (po_values po)"
    and "map_of (c_groups (po_catalog po)) (po_group po) = Some g"
  shows "object_validate q False po = Inr [] \<longleftrightarrow> \<not> precision_conflict po"
    and "ok (object_validate q False po)"
  using field_issues_valid [OF assms(1)] assms(2)
  by (simp_all add: object_validate_def catalog_group_def)

text \<open>Reading an object succeeds exactly on known, accepted fields without a precision conflict.\<close>

lemma from_native_exact:
  assumes g: "map_of (c_groups c) gid = Some g" and wf: "owf values"
  defines "po \<equiv> \<lparr>po_group = gid, po_catalog = c, po_values = values\<rparr>"
  shows "from_native_json q c gid values = Inr po' \<longleftrightarrow>
     po' = po \<and> all_valid q c gid values \<and> \<not> precision_conflict po"
proof -
  let ?po0 = "\<lparr>po_group = gid, po_catalog = c, po_values = []\<rparr>"
  have run: "fold_res (\<lambda>(k, v). object_set q k v) values ?po0 = Inr p \<longleftrightarrow> all_valid q c gid values \<and> p = po" for p
    using fold_oput [of "[]" "values"] wf by (auto simp: set_all po_def)
  have valid: "object_validate q False po = Inr [] \<longleftrightarrow> \<not> precision_conflict po" if "all_valid q c gid values"
    using object_validate_valid(1) [of q po g] that g by (simp add: po_def)
  show ?thesis
    using g valid
    by (auto simp: from_native_json_def make_object_def catalog_group_def run)
qed

lemma from_native_error:
  assumes "from_native_json q c gid values = Inl e" and "map_of (c_groups c) gid = Some g" and "owf values"
  shows "\<exists>m. e = Error InvalidArgument m"
proof -
  let ?po0 = "\<lparr>po_group = gid, po_catalog = c, po_values = []\<rparr>"
  show ?thesis
  proof (cases "fold_res (\<lambda>(k, v). object_set q k v) values ?po0")
    case (Inl e')
    then show ?thesis
      using assms set_all_error [OF Inl] by (simp add: from_native_json_def make_object_def catalog_group_def)
  next
    case (Inr p)
    then have p: "all_valid q c gid values" "p = ?po0\<lparr>po_values := values\<rparr>"
      using fold_oput [of "[]" "values"] assms(3) by (auto simp: set_all)
    then obtain issues where "object_validate q False p = Inr issues"
      using object_validate_valid(2) [of q p g] assms(2) by (auto simp: ok_def)
    then show ?thesis
      using assms(1,2) Inr
      by (auto simp: from_native_json_def make_object_def catalog_group_def bindr_Inl_iff
          dest: reject_first_Inl)
  qed
qed

section \<open>Catalogs read from JSON are well formed\<close>

lemma add_parameter_distinct:
  "add_parameter gid ph field ps = Inr ps' \<Longrightarrow> distinct (map p_name ps) \<Longrightarrow> distinct (map p_name ps')"
  by (auto simp: add_parameter_def Let_def split: if_splits)

lemma fold_res_invariant:
  assumes "fold_res f xs s = Inr s'" and "P s"
    and "\<And>x s s'. P s \<Longrightarrow> f x s = Inr s' \<Longrightarrow> P s'"
  shows "P s'"
  using assms(1,2) by (induction xs arbitrary: s) (auto intro: assms(3))

lemma add_group_wf:
  assumes "catalog_wf c" and "add_group item c = Inr c'"
  shows "catalog_wf c'"
proof -
  define obj gid where "obj = to_object item" and "gid = to_string (jvalue obj ''id'')"
  obtain ph ps where fresh: "gid \<noteq> []" "\<not> ohas (c_groups c) gid"
    and ps: "fold_res (add_parameter gid ph) (to_array (jvalue obj ''parameters'')) [] = Inr ps"
    and c': "c' = c\<lparr>c_groups := oput gid \<lparr>g_id = gid, g_description = to_string (jvalue obj ''description''),
                   g_bases = strings_of (jvalue obj ''bases''), g_phase = ph, g_parameters = ps\<rparr> (c_groups c),
                 c_indexes := oput gid (index_parameters ps) (c_indexes c)\<rparr>"
    using assms(2) unfolding add_group_def Let_def obj_def gid_def by (auto split: if_splits)
  have "distinct (map p_name ps)"
    using fold_res_invariant [where P = "\<lambda>ps. distinct (map p_name ps)", OF ps _ add_parameter_distinct]
    by simp
  then show ?thesis
    using assms(1) fresh by (auto simp: c' catalog_wf_def group_wf_def)
qed

lemma catalog_from_json_wf:
  assumes "catalog_from_json q document = Inr c"
  shows "catalog_wf c"
proof -
  let ?c0 = "\<lparr>c_document = document, c_groups = [], c_indexes = [], c_patterns = []\<rparr>"
  obtain c1 pats where run: "fold_res add_group (to_array (jvalue document ''groups'')) ?c0 = Inr c1"
    and c: "c = c1\<lparr>c_patterns := pats\<rparr>"
    using assms unfolding catalog_from_json_def by (auto split: if_splits)
  have "catalog_wf c1"
    using run by (rule fold_res_invariant [where P = catalog_wf])
      (auto simp: catalog_wf_def [of ?c0] intro: add_group_wf)
  then show ?thesis by (simp add: c catalog_wf_def group_wf_def)
qed

lemma parameter_lookup_wf:
  assumes "catalog_wf c" and "map_of (c_groups c) gid = Some g"
  shows "catalog_parameter c gid name = Inr p \<longleftrightarrow> p \<in> set (g_parameters g) \<and> p_name p = name"
  using assms by (intro parameter_lookup) (auto simp: catalog_wf_def group_wf_def)

section \<open>Redaction\<close>

lemma redact_field_other:
  "p_name f \<noteq> k \<Longrightarrow> map_of (redact_field red f obj) k = map_of obj k"
  by (auto simp: redact_field_def split: option.split)

lemma redact_field_dom: "ohas (redact_field red f obj) k \<longleftrightarrow> ohas obj k"
  by (auto simp: redact_field_def ohas_def split: option.split)

lemma export_other:
  "p_name f \<noteq> k \<Longrightarrow> map_of (export_field c d red f obj) k = map_of obj k"
  by (auto simp: export_field_def Let_def redact_field_other)

lemma export_fold_other:
  "k \<notin> set (map p_name ps) \<Longrightarrow> map_of (fold (export_field c d red) ps obj) k = map_of obj k"
  by (induction ps arbitrary: obj) (auto simp: export_other)

lemma export_sensitive:
  assumes "distinct (map p_name ps)" and "f \<in> set ps" and "p_sensitive f"
    and "map_of (fold (export_field c d True) ps obj) (p_name f) = Some v"
  shows "v = redacted"
  using assms
proof (induction ps arbitrary: obj)
  case Nil
  then show ?case by simp
next
  case (Cons p ps)
  show ?case
  proof (cases "f = p")
    case True
    have "map_of (export_field c d True f obj) (p_name f) = Some v"
      using Cons.prems True export_fold_other [of "p_name f" ps] by simp
    then show ?thesis
      using Cons.prems(3) by (auto simp: export_field_def redact_field_def Let_def split: option.splits if_splits)
  next
    case False
    with Cons show ?thesis by auto
  qed
qed

lemma export_plain: "fold (export_field c False False) ps obj = obj"
  by (induction ps arbitrary: obj) (simp_all add: export_field_def)

lemma require_valid_eq:
  assumes "all_valid q (po_catalog po) (po_group po) (po_values po)"
    and "map_of (c_groups (po_catalog po)) (po_group po) = Some g" and "\<not> precision_conflict po"
  shows "object_require_valid q po = Inr ()"
  using object_validate_valid(1) [OF assms(1,2)] assms(3)
  by (simp add: object_require_valid_def)

section \<open>Schemas of the generation group\<close>

lemma accepts_Suc: "accepts q c s v = accepts_at (Suc 32) q c s v"
  by (simp add: accepts_def)

lemmas schema_eval = jvalue_def jhas_def ohas_def scalar_ok_def bounds_ok_def array_ok_def
  object_ok_def text_ok_def

lemma ranged_minimum:
  "jobj (ranged type ''minimum'' a b) =
     [(qs ''maximum'', JNum b), (qs ''minimum'', JNum a), (qs ''type'', JStr (qs type))]"
  by (simp add: jobj_def)

lemma ranged_exclusive:
  "jobj (ranged type ''exclusiveMinimum'' a b) =
     [(qs ''exclusiveMinimum'', JNum a), (qs ''maximum'', JNum b), (qs ''type'', JStr (qs type))]"
  by (simp add: jobj_def)

lemma accepts_number:
  "accepts_at (Suc n) q c (jobj (ranged ''number'' ''minimum'' a b)) v \<longleftrightarrow>
     (\<exists>x. v = JNum x \<and> a \<le> x \<and> x \<le> b)"
  unfolding ranged_minimum by (cases v) (simp_all add: schema_eval not_less)

lemma accepts_positive:
  "accepts_at (Suc n) q c (jobj (ranged ''number'' ''exclusiveMinimum'' a b)) v \<longleftrightarrow>
     (\<exists>x. v = JNum x \<and> a < x \<and> x \<le> b)"
  unfolding ranged_exclusive by (cases v) (simp_all add: schema_eval not_less not_le, auto)

lemma accepts_integer:
  "accepts_at (Suc n) q c (jobj (ranged ''integer'' ''minimum'' a b)) v \<longleftrightarrow>
     (\<exists>i. v = JNum (of_int i) \<and> a \<le> of_int i \<and> of_int i \<le> b \<and> - (2 ^ 63) \<le> i \<and> i < 2 ^ 63)"
  unfolding ranged_minimum by (cases v) (simp_all add: schema_eval not_less, auto)

end
