(* ===== verification/GenerationRules.thy ===== *)
theory GenerationRules
  imports Parameters
begin

text \<open>
  What the parameter catalog promises to the rest of the service: lookups in a catalog read from
  JSON, the exact condition under which generation options are accepted, the round trips through
  JSON and the redaction of secrets. The built-in catalog enters as any well-formed catalog that
  holds the published group \<^verbatim>\<open>iiLocalLLM.GenerationOptions\<close>.
\<close>

section \<open>Redaction of referenced groups\<close>

lemma redact_redacted [simp]: "redact_value n c schema redacted = redacted"
proof (induction n arbitrary: schema)
  case 0
  then show ?case by simp
next
  case (Suc n)
  have "fold (\<lambda>branch. redact_value n c (to_object branch)) bs redacted = redacted" for bs
    by (induction bs) (simp_all add: Suc)
  then show ?case by (simp add: redacted_def)
qed

lemma redact_fold_other:
  "k \<notin> set (map p_name ps) \<Longrightarrow> map_of (fold (redact_field red) ps obj) k = map_of obj k"
  by (induction ps arbitrary: obj) (auto simp: redact_field_other)

lemma redact_fold_sensitive:
  assumes "distinct (map p_name ps)" and "f \<in> set ps" and "p_sensitive f"
    and "map_of (fold (redact_field red) ps obj) (p_name f) = Some v"
  shows "v = redacted"
  using assms
proof (induction ps arbitrary: obj)
  case Nil
  then show ?case by simp
next
  case (Cons p ps)
  show ?case
  proof (cases "f = p")
    case True
    have "map_of (redact_field red f obj) (p_name f) = Some v"
      using Cons.prems True redact_fold_other [of "p_name f" ps] by simp
    then show ?thesis
      using Cons.prems(3) by (auto simp: redact_field_def split: option.splits if_splits)
  next
    case False
    with Cons show ?thesis by auto
  qed
qed

lemma map_of_values: "map_of (omap_values f m) k = map_option (f k) (map_of m k)"
  by (induction m) (auto simp: omap_values_def)

lemma redact_nested:
  assumes "distinct (map p_name (g_parameters g))" and "f \<in> set (g_parameters g)" and "p_sensitive f"
    and "map_of (c_groups c) gid = Some g" and "to_string (jvalue schema ''ref'') = gid"
    and "\<not> jhas schema ''anyOf''" and "redact_value n c schema (JObj obj) = JObj out"
    and "map_of out (p_name f) = Some v"
  shows "v = redacted"
proof (cases n)
  case 0
  then show ?thesis using assms(7) by (simp add: redacted_def)
next
  case (Suc m)
  have "jvalue schema ''anyOf'' = JUndefined" using assms(6) by (auto simp: jvalue_def jhas_def ohas_def)
  then have out: "out = omap_values (redact_member (redact_value m c) schema)
      (fold (redact_field (redact_value m c)) (g_parameters g) obj)"
    using assms(4,5,7) Suc by simp
  then obtain u where "map_of (fold (redact_field (redact_value m c)) (g_parameters g) obj) (p_name f) = Some u"
    and v: "v = redact_member (redact_value m c) schema (p_name f) u"
    using assms(8) by (auto simp: map_of_values)
  then have "u = redacted" using redact_fold_sensitive [OF assms(1-3)] by blast
  then show ?thesis by (simp add: v redact_member_def Let_def)
qed

section \<open>The generation group\<close>

lemma generation_lookup:
  assumes "has_generation_group c" and "(n, s, d) \<in> set generation_fields"
  shows "\<exists>p. catalog_parameter c generation_id (qs n) = Inr p \<and> p_schema p = jobj s
     \<and> p_default p = d \<and> \<not> p_read_only p"
proof -
  obtain g where g: "map_of (c_groups c) generation_id = Some g"
    "map_of (c_indexes c) generation_id = Some (index_parameters (g_parameters g))"
    and fields: "map (\<lambda>p. (p_name p, p_schema p, p_default p, p_read_only p)) (g_parameters g)
         = map (\<lambda>(n, s, d). (qs n, jobj s, d, False)) generation_fields"
    using assms(1) by (auto simp: has_generation_group_def split: option.splits)
  have "map p_name (g_parameters g) = map (\<lambda>(n, s, d). qs n) generation_fields"
    using arg_cong [OF fields, of "map fst"] by (simp add: comp_def split_beta)
  also have "distinct \<dots>" by (simp add: generation_fields_def)
  finally have dist: "distinct (map p_name (g_parameters g))" .
  have "(qs n, jobj s, d, False) \<in> set (map (\<lambda>(n, s, d). (qs n, jobj s, d, False)) generation_fields)"
    using assms(2) by force
  then obtain p where p: "p \<in> set (g_parameters g)" "p_name p = qs n" "p_schema p = jobj s"
    "p_default p = d" "\<not> p_read_only p"
    unfolding fields [symmetric] by auto
  then show ?thesis using parameter_lookup [OF g dist, of "qs n" p] by blast
qed

lemma generation_valid:
  assumes "has_generation_group c" and "(n, s, d) \<in> set generation_fields"
  shows "validate_value q c generation_id (qs n) v = Inr [] \<longleftrightarrow> accepts_at (Suc (Suc 31)) q c (jobj s) v"
  using generation_lookup [OF assms] by (auto simp: validate_value_ok accepts_def)

lemma accepts_stop:
  "accepts_at (Suc (Suc n)) q c (jobj [(''type'', JStr (qs ''array'')), (''maxItems'', JNum 16),
     (''items'', JObj (jobj [(''type'', JStr (qs ''string'')), (''minLength'', JNum 1),
        (''maxLength'', JNum 1024)]))]) (jstrings xs) \<longleftrightarrow>
   length xs \<le> 16 \<and> (\<forall>x \<in> set xs. x \<noteq> [] \<and> length x \<le> 1024)"
proof -
  have item: "jobj [(''type'', JStr (qs ''string'')), (''minLength'', JNum 1), (''maxLength'', JNum 1024)]
    = [(qs ''maxLength'', JNum 1024), (qs ''minLength'', JNum 1), (qs ''type'', JStr (qs ''string''))]"
    by (simp add: jobj_def)
  have "accepts_at (Suc n) q c [(qs ''maxLength'', JNum 1024), (qs ''minLength'', JNum 1),
      (qs ''type'', JStr (qs ''string''))] (JStr x) \<longleftrightarrow> x \<noteq> [] \<and> length x \<le> 1024" for x
    by (cases x) (simp_all add: schema_eval not_less)
  then show ?thesis
    unfolding item by (simp add: jobj_def jstrings_def schema_eval not_less)
qed

lemma accepts_bias:
  assumes "map_of (c_groups c) [] = None"
  shows "accepts_at (Suc (Suc n)) q c (jobj [(''type'', JStr (qs ''object'')),
     (''additionalProperties'', JObj (jobj (ranged ''number'' ''minimum'' (-100) 100)))]) (JObj m) \<longleftrightarrow>
   (\<forall>(k, v) \<in> set m. \<exists>x. v = JNum x \<and> -100 \<le> x \<and> x \<le> 100)"
proof -
  let ?num = "jobj (ranged ''number'' ''minimum'' (-100) 100)"
  have schema: "jobj [(''type'', JStr (qs ''object'')), (''additionalProperties'', JObj ?num)]
    = [(qs ''additionalProperties'', JObj ?num), (qs ''type'', JStr (qs ''object''))]"
    by (simp add: jobj_def)
  show ?thesis
    unfolding schema using assms
    by (simp add: schema_eval member_ok_def reference_ok_def accepts_number del: accepts_at.simps(2)
        add: accepts_at.simps(2) [of "Suc n"] split_beta)
qed

section \<open>What valid options are\<close>

definition dbl_in :: "(rat \<Rightarrow> bool) \<Rightarrow> dbl \<Rightarrow> bool" where
  "dbl_in P d = (case d of Dbl x \<Rightarrow> P x | NonFinite \<Rightarrow> False)"

definition options_ok :: "generation_options \<Rightarrow> bool" where
  "options_ok opts \<longleftrightarrow>
     1 \<le> max_tokens opts \<and> max_tokens opts \<le> 1048576
     \<and> dbl_in (\<lambda>x. 0 \<le> x \<and> x \<le> 10) (temperature opts)
     \<and> dbl_in (\<lambda>x. 0 < x \<and> x \<le> 1) (top_p opts)
     \<and> 0 \<le> top_k opts \<and> top_k opts \<le> 1000000
     \<and> length (stop opts) \<le> 16 \<and> (\<forall>s \<in> set (stop opts). s \<noteq> [] \<and> length s \<le> 1024)
     \<and> dbl_in (\<lambda>x. 0 \<le> x \<and> x \<le> 1) (min_p opts)
     \<and> dbl_in (\<lambda>x. 0 < x \<and> x \<le> 1) (typical_p opts)
     \<and> 1 \<le> min_keep opts \<and> min_keep opts \<le> 1048576
     \<and> dbl_in (\<lambda>x. 0 < x \<and> x \<le> 100) (repetition_penalty opts)
     \<and> - 1 \<le> repetition_context_size opts \<and> repetition_context_size opts \<le> 1048576
     \<and> dbl_in (\<lambda>x. - 2 \<le> x \<and> x \<le> 2) (presence_penalty opts)
     \<and> dbl_in (\<lambda>x. - 2 \<le> x \<and> x \<le> 2) (frequency_penalty opts)
     \<and> dbl_in (\<lambda>x. 0 \<le> x \<and> x \<le> 1) (xtc_probability opts)
     \<and> dbl_in (\<lambda>x. 0 \<le> x \<and> x \<le> 1/2) (xtc_threshold opts)
     \<and> (\<forall>(k, v) \<in> set (logit_bias opts). token_key k \<and> (\<exists>x. v = JNum x \<and> - 100 \<le> x \<and> x \<le> 100))"

lemma dbl_in_json: "(\<exists>x. dbl_json d = JNum x \<and> P x) \<longleftrightarrow> dbl_in P d"
  by (cases d) (auto simp: dbl_in_def)

lemma dbl_in_json3: "(\<exists>x. dbl_json d = JNum x \<and> P x \<and> Q x) \<longleftrightarrow> dbl_in (\<lambda>x. P x \<and> Q x) d"
  by (cases d) (auto simp: dbl_in_def)

text \<open>What validation of one field amounts to.\<close>

lemma field_integer:
  assumes "has_generation_group c" and "(n, ranged ''integer'' ''minimum'' a b, d) \<in> set generation_fields"
    and "- (2 ^ 63) \<le> a" "b < 2 ^ 63"
  shows "validate_value q c generation_id (qs n) (JNum (of_int i)) = Inr [] \<longleftrightarrow> a \<le> of_int i \<and> of_int i \<le> b"
proof -
  have "- (2 ^ 63) \<le> i \<and> i < 2 ^ 63" if "a \<le> of_int i" "of_int i \<le> b"
  proof -
    have "of_int (- (2 ^ 63)) \<le> (of_int i :: rat)" "(of_int i :: rat) < of_int (2 ^ 63)"
      using that assms(3,4) by simp_all
    then show ?thesis by (simp only: of_int_le_iff of_int_less_iff)
  qed
  then show ?thesis unfolding generation_valid [OF assms(1,2)] accepts_integer by auto
qed

lemma field_number:
  assumes "has_generation_group c" and "(n, ranged ''number'' ''minimum'' a b, d) \<in> set generation_fields"
  shows "validate_value q c generation_id (qs n) (dbl_json x) = Inr [] \<longleftrightarrow> dbl_in (\<lambda>x. a \<le> x \<and> x \<le> b) x"
  unfolding generation_valid [OF assms] accepts_number by (rule dbl_in_json)

lemma field_positive:
  assumes "has_generation_group c" and "(n, ranged ''number'' ''exclusiveMinimum'' a b, d) \<in> set generation_fields"
  shows "validate_value q c generation_id (qs n) (dbl_json x) = Inr [] \<longleftrightarrow> dbl_in (\<lambda>x. a < x \<and> x \<le> b) x"
  unfolding generation_valid [OF assms] accepts_positive by (rule dbl_in_json)

lemma check_bias_ok: "ok (check_logit_bias m) \<longleftrightarrow> (\<forall>(k, v) \<in> set m. token_key k)"
  unfolding check_logit_bias_def by (induction m) (auto simp: ok_bindr require_def split: if_splits)

lemma generation_accepts:
  assumes gen: "has_generation_group c" and wf: "catalog_wf c"
  shows "all_valid q c generation_id (generation_options_to_json opts) \<and> ok (check_logit_bias (logit_bias opts))
    \<longleftrightarrow> options_ok opts"
proof -
  have "[] \<notin> dom (c_groups_map)" if "c_groups_map = map_of (c_groups c)" for c_groups_map
    using wf that by (auto simp: catalog_wf_def group_wf_def)
  then have empty: "map_of (c_groups c) [] = None" by blast
  let ?valid = "\<lambda>n v. validate_value q c generation_id (qs n) v = Inr []"
  have max_tokens: "?valid ''max_tokens'' (JNum (of_int i)) \<longleftrightarrow> 1 \<le> i \<and> i \<le> 1048576" for i
    using field_integer [OF gen, where n = "''max_tokens''" and a = "1" and b = 1048576 and i = i and q = q]
    by (simp add: generation_fields_def)
  have temperature: "?valid ''temperature'' (dbl_json x) \<longleftrightarrow> dbl_in (\<lambda>x. 0 \<le> x \<and> x \<le> 10) x" for x
    using field_number [OF gen, where n = "''temperature''" and a = "0" and b = "10" and x = x and q = q]
    by (simp add: generation_fields_def)
  have top_p: "?valid ''top_p'' (dbl_json x) \<longleftrightarrow> dbl_in (\<lambda>x. 0 < x \<and> x \<le> 1) x" for x
    using field_positive [OF gen, where n = "''top_p''" and a = "0" and b = "1" and x = x and q = q]
    by (simp add: generation_fields_def)
  have top_k: "?valid ''top_k'' (JNum (of_int i)) \<longleftrightarrow> 0 \<le> i \<and> i \<le> 1000000" for i
    using field_integer [OF gen, where n = "''top_k''" and a = "0" and b = 1000000 and i = i and q = q]
    by (simp add: generation_fields_def)
  have seed: "?valid ''seed'' (JNum (of_int i)) \<longleftrightarrow> 0 \<le> i \<and> i \<le> 4294967295" for i
    using field_integer [OF gen, where n = "''seed''" and a = "0" and b = 4294967295 and i = i and q = q]
    by (simp add: generation_fields_def)
  have min_p: "?valid ''min_p'' (dbl_json x) \<longleftrightarrow> dbl_in (\<lambda>x. 0 \<le> x \<and> x \<le> 1) x" for x
    using field_number [OF gen, where n = "''min_p''" and a = "0" and b = "1" and x = x and q = q]
    by (simp add: generation_fields_def)
  have typical_p: "?valid ''typical_p'' (dbl_json x) \<longleftrightarrow> dbl_in (\<lambda>x. 0 < x \<and> x \<le> 1) x" for x
    using field_positive [OF gen, where n = "''typical_p''" and a = "0" and b = "1" and x = x and q = q]
    by (simp add: generation_fields_def)
  have min_keep: "?valid ''min_keep'' (JNum (of_int i)) \<longleftrightarrow> 1 \<le> i \<and> i \<le> 1048576" for i
    using field_integer [OF gen, where n = "''min_keep''" and a = "1" and b = 1048576 and i = i and q = q]
    by (simp add: generation_fields_def)
  have repetition_penalty: "?valid ''repetition_penalty'' (dbl_json x) \<longleftrightarrow> dbl_in (\<lambda>x. 0 < x \<and> x \<le> 100) x" for x
    using field_positive [OF gen, where n = "''repetition_penalty''" and a = "0" and b = "100" and x = x and q = q]
    by (simp add: generation_fields_def)
  have "(- 1 \<le> (of_int i :: rat)) = (- 1 \<le> i)" for i
    by (metis of_int_le_iff of_int_minus of_int_1)
  then have repetition_context_size: "?valid ''repetition_context_size'' (JNum (of_int i)) \<longleftrightarrow> - 1 \<le> i \<and> i \<le> 1048576" for i
    using field_integer [OF gen, where n = "''repetition_context_size''" and a = "(-1)" and b = 1048576 and i = i and q = q]
    by (simp add: generation_fields_def)
  have presence_penalty: "?valid ''presence_penalty'' (dbl_json x) \<longleftrightarrow> dbl_in (\<lambda>x. -2 \<le> x \<and> x \<le> 2) x" for x
    using field_number [OF gen, where n = "''presence_penalty''" and a = "(-2)" and b = "2" and x = x and q = q]
    by (simp add: generation_fields_def)
  have frequency_penalty: "?valid ''frequency_penalty'' (dbl_json x) \<longleftrightarrow> dbl_in (\<lambda>x. -2 \<le> x \<and> x \<le> 2) x" for x
    using field_number [OF gen, where n = "''frequency_penalty''" and a = "(-2)" and b = "2" and x = x and q = q]
    by (simp add: generation_fields_def)
  have xtc_probability: "?valid ''xtc_probability'' (dbl_json x) \<longleftrightarrow> dbl_in (\<lambda>x. 0 \<le> x \<and> x \<le> 1) x" for x
    using field_number [OF gen, where n = "''xtc_probability''" and a = "0" and b = "1" and x = x and q = q]
    by (simp add: generation_fields_def)
  have xtc_threshold: "?valid ''xtc_threshold'' (dbl_json x) \<longleftrightarrow> dbl_in (\<lambda>x. 0 \<le> x \<and> x \<le> 1/2) x" for x
    using field_number [OF gen, where n = "''xtc_threshold''" and a = "0" and b = "(1/2)" and x = x and q = q]
    by (simp add: generation_fields_def)
  have stop: "?valid ''stop'' (jstrings xs) \<longleftrightarrow>
      length xs \<le> 16 \<and> (\<forall>x \<in> set xs. x \<noteq> [] \<and> length x \<le> 1024)" for xs
  proof -
    have "(''stop'', [(''type'', JStr (qs ''array'')), (''maxItems'', JNum 16),
        (''items'', JObj (jobj [(''type'', JStr (qs ''string'')), (''minLength'', JNum 1),
          (''maxLength'', JNum 1024)]))], JArr []) \<in> set generation_fields"
      by (simp add: generation_fields_def)
    from generation_valid [OF gen this, of q "jstrings xs"] show ?thesis
      unfolding accepts_stop .
  qed
  have bias: "?valid ''logit_bias'' (JObj m) \<longleftrightarrow>
      (\<forall>(k, v) \<in> set m. \<exists>x. v = JNum x \<and> -100 \<le> x \<and> x \<le> 100)" for m
  proof -
    have "(''logit_bias'', [(''type'', JStr (qs ''object'')), (''additionalProperties'',
        JObj (jobj (ranged ''number'' ''minimum'' (-100) 100)))], JObj []) \<in> set generation_fields"
      by (simp add: generation_fields_def)
    from generation_valid [OF gen this, of q "JObj m"] show ?thesis
      unfolding accepts_bias [OF empty] .
  qed
  have "0 \<le> uint (seed opts) \<and> uint (seed opts) \<le> 4294967295"
    using uint_bounded [of "seed opts"] by simp
  then have "?valid ''seed'' (JNum (of_int (uint (seed opts))))" by (simp only: seed)
  then have seed_ok: "?valid ''seed'' (JNum (unsigned (seed opts)))" by simp
  show ?thesis
    unfolding generation_options_to_json_def all_valid_def options_ok_def check_bias_ok
    by (simp add: set_jobj max_tokens temperature top_p top_k seed_ok min_p typical_p min_keep repetition_penalty
        repetition_context_size presence_penalty frequency_penalty xtc_probability xtc_threshold stop bias)
      (auto simp: split_beta)
qed
definition options_object :: "catalog \<Rightarrow> generation_options \<Rightarrow> parameter_object" where
  "options_object c opts = \<lparr>po_group = generation_id, po_catalog = c, po_values = generation_options_to_json opts\<rparr>"

lemma generation_native:
  assumes gen: "has_generation_group c"
  shows "from_native_json q c generation_id (generation_options_to_json opts) = Inr po \<longleftrightarrow>
     po = options_object c opts \<and> all_valid q c generation_id (generation_options_to_json opts)"
proof -
  obtain g where g: "map_of (c_groups c) generation_id = Some g"
    using gen by (auto simp: has_generation_group_def split: option.splits)
  have "\<not> precision_conflict (options_object c opts)"
    by (simp add: precision_conflict_def options_object_def generation_id_def starts_with_def qs_def)
  then show ?thesis
    using from_native_exact [OF g, of "generation_options_to_json opts" q po]
    by (auto simp: options_object_def generation_options_to_json_def)
qed

lemma options_object_value:
  assumes "has_generation_group c" and "(n, s, d) \<in> set generation_fields"
    and "map_of (generation_options_to_json opts) (qs n) = Some v"
  shows "object_value (options_object c opts) (qs n) = Inr v"
  using generation_lookup [OF assms(1,2)] assms(3)
  by (auto simp: object_value_def object_definition_def options_object_def)

lemma strings_of_jstrings [simp]: "strings_of (jstrings xs) = xs"
  by (simp add: strings_of_def jstrings_def comp_def)

lemma to_int_small: "- 1 \<le> i \<Longrightarrow> i \<le> 1048576 \<Longrightarrow> to_int (JNum (of_int i)) d = i"
  by simp

lemma to_integer_of_int: "- (2 ^ 63) \<le> i \<Longrightarrow> i < 2 ^ 63 \<Longrightarrow> to_integer (JNum (of_int i)) = i"
  by simp

lemma dbl_in_number: "dbl_in P d \<Longrightarrow> Dbl (to_double (dbl_json d)) = d"
  by (cases d) (simp_all add: dbl_in_def)

definition reread :: "generation_options \<Rightarrow> generation_options" where
  "reread opts = \<lparr>max_tokens = to_int (JNum (of_int (max_tokens opts))) 0,
     temperature = Dbl (to_double (dbl_json (temperature opts))), top_p = Dbl (to_double (dbl_json (top_p opts))),
     top_k = to_int (JNum (of_int (top_k opts))) 0,
     seed = word_of_int (to_integer (JNum (of_int (uint (seed opts))))), stop = stop opts,
     min_p = Dbl (to_double (dbl_json (min_p opts))), typical_p = Dbl (to_double (dbl_json (typical_p opts))),
     min_keep = to_int (JNum (of_int (min_keep opts))) 0,
     repetition_penalty = Dbl (to_double (dbl_json (repetition_penalty opts))),
     repetition_context_size = to_int (JNum (of_int (repetition_context_size opts))) 0,
     presence_penalty = Dbl (to_double (dbl_json (presence_penalty opts))),
     frequency_penalty = Dbl (to_double (dbl_json (frequency_penalty opts))),
     xtc_probability = Dbl (to_double (dbl_json (xtc_probability opts))),
     xtc_threshold = Dbl (to_double (dbl_json (xtc_threshold opts))), logit_bias = logit_bias opts\<rparr>"

lemma reread_same:
  assumes "options_ok opts"
  shows "reread opts = opts"
proof -
  have ints: "to_int (JNum (of_int (max_tokens opts))) 0 = max_tokens opts"
    "to_int (JNum (of_int (top_k opts))) 0 = top_k opts"
    "to_int (JNum (of_int (min_keep opts))) 0 = min_keep opts"
    "to_int (JNum (of_int (repetition_context_size opts))) 0 = repetition_context_size opts"
    using assms by (simp_all only: options_ok_def) (simp_all add: to_int_small del: to_int.simps)
  have "0 \<le> uint (seed opts)" by simp
  moreover have "uint (seed opts) < 2 ^ 63" using uint_bounded [of "seed opts"] by simp
  ultimately have "- (2 ^ 63) \<le> uint (seed opts)" "uint (seed opts) < 2 ^ 63" by linarith+
  then have seed: "word_of_int (to_integer (JNum (of_int (uint (seed opts))))) = seed opts"
    by (simp only: to_integer_of_int word_of_int_uint)
  have doubles: "Dbl (to_double (dbl_json (temperature opts))) = temperature opts"
    "Dbl (to_double (dbl_json (top_p opts))) = top_p opts"
    "Dbl (to_double (dbl_json (min_p opts))) = min_p opts"
    "Dbl (to_double (dbl_json (typical_p opts))) = typical_p opts"
    "Dbl (to_double (dbl_json (repetition_penalty opts))) = repetition_penalty opts"
    "Dbl (to_double (dbl_json (presence_penalty opts))) = presence_penalty opts"
    "Dbl (to_double (dbl_json (frequency_penalty opts))) = frequency_penalty opts"
    "Dbl (to_double (dbl_json (xtc_probability opts))) = xtc_probability opts"
    "Dbl (to_double (dbl_json (xtc_threshold opts))) = xtc_threshold opts"
    using assms unfolding options_ok_def by (blast intro: dbl_in_number)+
  show ?thesis unfolding reread_def ints seed doubles by simp
qed

lemma generation_run:
  assumes gen: "has_generation_group c"
    and valid: "all_valid q c generation_id (generation_options_to_json opts)"
  shows "generation_options_from_json q c (generation_options_to_json opts)
    = bindr (check_logit_bias (logit_bias opts)) (\<lambda>_. Inr (reread opts))"
proof -
  have read: "object_value (options_object c opts) (qs n) = Inr v"
    if "n \<in> fst ` set generation_fields" "map_of (generation_options_to_json opts) (qs n) = Some v" for n v
    using that options_object_value [OF gen] by fastforce
  have look: "map_of (generation_options_to_json opts) (qs n) =
    map_of [(''max_tokens'', JNum (of_int (max_tokens opts))), (''temperature'', dbl_json (temperature opts)),
      (''top_p'', dbl_json (top_p opts)), (''top_k'', JNum (of_int (top_k opts))),
      (''seed'', JNum (of_int (uint (seed opts)))), (''stop'', jstrings (stop opts)),
      (''min_p'', dbl_json (min_p opts)), (''typical_p'', dbl_json (typical_p opts)),
      (''min_keep'', JNum (of_int (min_keep opts))),
      (''repetition_penalty'', dbl_json (repetition_penalty opts)),
      (''repetition_context_size'', JNum (of_int (repetition_context_size opts))),
      (''presence_penalty'', dbl_json (presence_penalty opts)),
      (''frequency_penalty'', dbl_json (frequency_penalty opts)),
      (''xtc_probability'', dbl_json (xtc_probability opts)),
      (''xtc_threshold'', dbl_json (xtc_threshold opts)), (''logit_bias'', JObj (logit_bias opts))] n" for n
    unfolding generation_options_to_json_def by (rule map_of_jobj) simp
  have "from_native_json q c generation_id (generation_options_to_json opts) = Inr (options_object c opts)"
    using generation_native [OF gen] valid by simp
  then show ?thesis
    unfolding generation_options_from_json_def reread_def
    by (simp add: read look generation_fields_def del: to_int.simps to_integer.simps)
qed

lemma bias_error: "check_logit_bias m = Inl e \<Longrightarrow> \<exists>t. e = Error InvalidArgument t"
  unfolding check_logit_bias_def
  by (induction m) (auto simp: bindr_Inl_iff require_def throw_def split: if_splits)

lemma generation_read:
  assumes gen: "has_generation_group c" and wf: "catalog_wf c"
  shows "options_ok opts \<Longrightarrow> generation_options_from_json q c (generation_options_to_json opts) = Inr opts"
    and "\<not> options_ok opts \<Longrightarrow>
      \<exists>m. generation_options_from_json q c (generation_options_to_json opts) = Inl (Error InvalidArgument m)"
proof -
  note ok = generation_accepts [OF gen wf, of q opts]
  show "generation_options_from_json q c (generation_options_to_json opts) = Inr opts" if "options_ok opts"
    using ok that generation_run [OF gen] reread_same by (auto simp: ok_def)
  assume bad: "\<not> options_ok opts"
  show "\<exists>m. generation_options_from_json q c (generation_options_to_json opts) = Inl (Error InvalidArgument m)"
  proof (cases "all_valid q c generation_id (generation_options_to_json opts)")
    case True
    then have "\<not> Types.ok (check_logit_bias (logit_bias opts))" using bad ok by blast
    then obtain e where e: "check_logit_bias (logit_bias opts) = Inl e"
      by (cases "check_logit_bias (logit_bias opts)") simp_all
    then show ?thesis using bias_error [OF e] generation_run [OF gen True] by auto
  next
    case False
    obtain g where g: "map_of (c_groups c) generation_id = Some g"
      using gen by (auto simp: has_generation_group_def split: option.splits)
    obtain e where e: "from_native_json q c generation_id (generation_options_to_json opts) = Inl e"
      using False generation_native [OF gen]
      by (cases "from_native_json q c generation_id (generation_options_to_json opts)") auto
    have "owf (generation_options_to_json opts)" by (simp add: generation_options_to_json_def)
    then show ?thesis
      using from_native_error [OF e g] e by (auto simp: generation_options_from_json_def)
  qed
qed

section \<open>Properties\<close>

text \<open>
  C33. With the published parameter group installed, \<^verbatim>\<open>validateGenerationOptions\<close> accepts
  exactly the options whose every field is in its published range and whose logit-bias keys are
  canonical token ids; any other value, not-a-number included, is an invalid argument. A known
  runtime changes nothing except that MLX refuses a typical-p other than 1.
\<close>

theorem generation_options_validation:
  assumes "has_generation_group c" and "catalog_wf c"
  shows "if \<not> options_ok opts
    then \<exists>m. validate_generation_options q c opts runtime = Inl (Error InvalidArgument m)
    else if runtime \<notin> {[], qs ''llama.cpp'', qs ''mlx''}
    then validate_generation_options q c opts runtime
      = throwq InvalidArgument (qs ''Unknown generation runtime: '' @ runtime)
    else if runtime = qs ''mlx'' \<and> typical_p opts \<noteq> Dbl 1
    then \<exists>m. validate_generation_options q c opts runtime = Inl (Error RuntimeUnavailable m)
    else validate_generation_options q c opts runtime = Inr ()"
proof (cases "options_ok opts")
  case True
  then show ?thesis
    using generation_read(1) [OF assms True, of q] by (auto simp: validate_generation_options_def throw_def)
next
  case False
  then show ?thesis
    using generation_read(2) [OF assms False, of q] by (auto simp: validate_generation_options_def)
qed

text \<open>
  Printing valid generation options as JSON and reading them back gives the same options,
  all sixteen fields.
\<close>

theorem generation_options_roundtrip:
  assumes "has_generation_group c" and "catalog_wf c" and "options_ok opts"
  shows "generation_options_from_json q c (generation_options_to_json opts) = Inr opts"
  using generation_read(1) [OF assms] .

text \<open>
  In a catalog read from JSON the positional index agrees with the definitions: a lookup by
  name yields the one definition of that name in the group and fails with an invalid argument when
  there is none; no group or field appears twice.
\<close>

theorem catalog_lookup:
  assumes "catalog_from_json q document = Inr c" and "map_of (c_groups c) gid = Some g"
  shows "(catalog_parameter c gid name = Inr p \<longleftrightarrow> p \<in> set (g_parameters g) \<and> p_name p = name)
    \<and> (name \<notin> p_name ` set (g_parameters g) \<longrightarrow>
         (\<exists>m. catalog_parameter c gid name = Inl (Error InvalidArgument m)))
    \<and> distinct (map p_name (g_parameters g)) \<and> distinct (catalog_groups c)"
proof -
  have wf: "catalog_wf c" using catalog_from_json_wf [OF assms(1)] .
  note look = parameter_lookup_wf [OF wf assms(2)]
  have "\<exists>m. catalog_parameter c gid name = Inl (Error InvalidArgument m)"
    if "name \<notin> p_name ` set (g_parameters g)"
  proof (cases "catalog_parameter c gid name")
    case (Inl e)
    then show ?thesis using parameter_error [OF Inl] by blast
  next
    case (Inr p')
    then show ?thesis using look [of name p'] that by blast
  qed
  then show ?thesis
    using look [of name p] wf assms(2) by (auto simp: catalog_wf_def group_wf_def catalog_groups_def owf_distinct)
qed

text \<open>
  Reading a native JSON object succeeds exactly when every member is a known, writable field
  whose schema accepts the value and the precision flags do not conflict; the object then exports
  the same JSON, which reads back to the same object.
\<close>

theorem native_json_roundtrip:
  assumes "map_of (c_groups c) gid = Some g" and "owf values"
  shows "(ok (from_native_json q c gid values) \<longleftrightarrow>
      (\<forall>(k, v) \<in> set values. \<exists>p. catalog_parameter c gid k = Inr p \<and> \<not> p_read_only p \<and> accepts q c (p_schema p) v)
      \<and> \<not> precision_conflict \<lparr>po_group = gid, po_catalog = c, po_values = values\<rparr>)
    \<and> (\<forall>po. from_native_json q c gid values = Inr po \<longrightarrow> to_native_json q False False po = Inr values)"
proof -
  let ?po = "\<lparr>po_group = gid, po_catalog = c, po_values = values\<rparr>"
  note exact = from_native_exact [OF assms, of q]
  have "to_native_json q False False po = Inr values" if "from_native_json q c gid values = Inr po" for po
  proof -
    have po: "po = ?po" "all_valid q c gid values" "\<not> precision_conflict ?po" using exact that by auto
    have "object_require_valid q ?po = Inr ()"
      using po(2,3) assms(1) by (intro require_valid_eq [where g = g]) simp_all
    then show ?thesis
      using assms(1) by (simp add: po(1) to_native_json_def catalog_group_def export_plain)
  qed
  moreover have "ok (from_native_json q c gid values) \<longleftrightarrow> all_valid q c gid values \<and> \<not> precision_conflict ?po"
    using exact by (auto simp: ok_def)
  ultimately show ?thesis by (simp add: all_valid_def validate_value_ok)
qed

text \<open>
  An export with redaction never carries the value of a sensitive field, neither one of the
  object's own group nor one of a group its field schemas refer to.
\<close>

theorem redacted_export:
  assumes "catalog_wf c" and "map_of (c_groups c) gid = Some g" and "f \<in> set (g_parameters g)"
    and "p_sensitive f"
  shows "(to_native_json q defaults True \<lparr>po_group = gid, po_catalog = c, po_values = values\<rparr> = Inr out
      \<and> map_of out (p_name f) = Some v \<longrightarrow> v = redacted)
    \<and> (to_string (jvalue schema ''ref'') = gid \<and> \<not> jhas schema ''anyOf''
      \<and> redact_value n c schema (JObj obj) = JObj out' \<and> map_of out' (p_name f) = Some v' \<longrightarrow> v' = redacted)"
proof -
  have dist: "distinct (map p_name (g_parameters g))"
    using assms(1,2) by (auto simp: catalog_wf_def group_wf_def)
  have "v = redacted"
    if "to_native_json q defaults True \<lparr>po_group = gid, po_catalog = c, po_values = values\<rparr> = Inr out"
      "map_of out (p_name f) = Some v"
    using that assms(2) export_sensitive [OF dist assms(3,4), of c defaults "values" v]
    by (auto simp: to_native_json_def catalog_group_def)
  moreover have "v' = redacted"
    if "to_string (jvalue schema ''ref'') = gid" "\<not> jhas schema ''anyOf''"
      "redact_value n c schema (JObj obj) = JObj out'" "map_of out' (p_name f) = Some v'"
    using that redact_nested [OF dist assms(3,4,2)] by blast
  ultimately show ?thesis by blast
qed

text \<open>
  A size bound outside 32 bits passes the schema check but is read as 0 when values are
  validated: a schema that allows strings of up to 4294967296 characters rejects the string "a".
\<close>

theorem large_size_bound_reads_as_zero:
  "check_schema 33 q group_ids [(qs ''maxLength'', JNum 4294967296)] patterns = Inr patterns
   \<and> \<not> accepts q c [(qs ''maxLength'', JNum 4294967296)] (JStr (qs ''a''))"
proof -
  have "check_keyword q group_ids chk (qs ''maxLength'', JNum 4294967296) patterns = Inr patterns" for chk
    by (simp add: check_keyword_def schema_keys_def is_bound_key_def is_size_key_def)
  then have "check_schema (Suc 32) q group_ids [(qs ''maxLength'', JNum 4294967296)] patterns = Inr patterns"
    unfolding check_schema.simps(2) by simp
  moreover have "\<not> accepts_at (Suc 32) q c [(qs ''maxLength'', JNum 4294967296)] (JStr (qs ''a''))"
    unfolding accepts_at.simps(2) by (simp add: schema_eval)
  ultimately show ?thesis by (simp add: accepts_def del: accepts_at.simps check_schema.simps)
qed

section \<open>The published group as a catalog\<close>

definition sample_parameter :: "string \<times> (string \<times> json) list \<times> json \<Rightarrow> parameter_definition" where
  "sample_parameter field = (case field of (n, s, d) \<Rightarrow>
     \<lparr>p_name = qs n, p_native_type = qs ''number'', p_description = qs n, p_kind = kind_of (jobj s),
      p_phase = PGeneration, p_schema = jobj s, p_has_default = True, p_default = d,
      p_default_expression = [], p_required = False, p_read_only = False, p_sensitive = False,
      p_native_bindings = [qs ''llama.cpp''], p_binding_key = qs n, p_binding_note = [],
      p_source = \<lparr>src_provider = [], src_revision = [], src_file = [], src_url = [], src_sha256 = [],
        src_line = 0\<rparr>\<rparr>)"

definition generation_group :: parameter_group where
  "generation_group = \<lparr>g_id = generation_id, g_description = qs ''generation'', g_bases = [],
     g_phase = PGeneration, g_parameters = map sample_parameter generation_fields\<rparr>"

definition generation_catalog :: catalog where
  "generation_catalog = \<lparr>c_document = [], c_groups = [(generation_id, generation_group)],
     c_indexes = [(generation_id, index_parameters (g_parameters generation_group))], c_patterns = []\<rparr>"

definition no_regex :: qt where
  "no_regex = \<lparr>qt_valid_pattern = \<lambda>_. True, qt_matches = \<lambda>_ _. False, qt_compact = \<lambda>_. []\<rparr>"

lemma generation_catalog_ok: "has_generation_group generation_catalog" "catalog_wf generation_catalog"
proof -
  have "map p_name (g_parameters generation_group) = map (\<lambda>(n, s, d). qs n) generation_fields"
    by (simp add: generation_group_def sample_parameter_def comp_def split_beta)
  also have "distinct \<dots>" by (simp add: generation_fields_def)
  finally show "catalog_wf generation_catalog"
    by (simp add: catalog_wf_def group_wf_def generation_catalog_def generation_group_def
        generation_id_def owf_def split: if_splits)
  show "has_generation_group generation_catalog"
    by (simp add: has_generation_group_def generation_catalog_def generation_group_def
        sample_parameter_def comp_def split_beta)
qed

lemma default_options_ok: "options_ok default_generation_options"
  by (simp add: options_ok_def default_generation_options_def dbl_in_def)

theorem generation_options_validation_witness:
  "validate_generation_options no_regex generation_catalog default_generation_options (qs ''mlx'') = Inr ()
   \<and> (\<exists>m. validate_generation_options no_regex generation_catalog
         (default_generation_options\<lparr>temperature := NonFinite\<rparr>) [] = Inl (Error InvalidArgument m))"
proof -
  have "\<not> options_ok (default_generation_options\<lparr>temperature := NonFinite\<rparr>)"
    by (simp add: options_ok_def dbl_in_def)
  then show ?thesis
    using generation_options_validation [OF generation_catalog_ok, of default_generation_options no_regex "qs ''mlx''"]
      generation_options_validation [OF generation_catalog_ok, of "default_generation_options\<lparr>temperature := NonFinite\<rparr>" no_regex "[]"]
      default_options_ok by (simp add: default_generation_options_def)
qed

theorem generation_options_roundtrip_witness:
  "generation_options_from_json no_regex generation_catalog
     (generation_options_to_json (default_generation_options\<lparr>seed := 7, stop := [qs ''x'']\<rparr>))
   = Inr (default_generation_options\<lparr>seed := 7, stop := [qs ''x'']\<rparr>)"
  by (rule generation_options_roundtrip [OF generation_catalog_ok])
    (simp add: options_ok_def default_generation_options_def dbl_in_def)

definition tiny_document :: json_object where
  "tiny_document = jobj [(''schema_version'', JNum 1), (''groups'', JArr [JObj (jobj
     [(''id'', JStr (qs ''g'')), (''parameters'', JArr [JObj (jobj
        [(''name'', JStr (qs ''key'')), (''native_type'', JStr (qs ''str'')), (''description'', JStr (qs ''a key'')),
         (''sensitive'', JBool True), (''schema'', JObj (jobj [(''type'', JStr (qs ''string''))]))])])])])]"

definition tiny_parameter :: parameter_definition where
  "tiny_parameter = \<lparr>p_name = qs ''key'', p_native_type = qs ''str'', p_description = qs ''a key'',
     p_kind = KString, p_phase = PGeneration, p_schema = [(qs ''type'', JStr (qs ''string''))],
     p_has_default = False, p_default = JUndefined, p_default_expression = [], p_required = False,
     p_read_only = False, p_sensitive = True, p_native_bindings = [], p_binding_key = [], p_binding_note = [],
     p_source = \<lparr>src_provider = [], src_revision = [], src_file = [], src_url = [], src_sha256 = [],
       src_line = 0\<rparr>\<rparr>"

definition tiny_group :: parameter_group where
  "tiny_group = \<lparr>g_id = qs ''g'', g_description = [], g_bases = [], g_phase = PGeneration,
     g_parameters = [tiny_parameter]\<rparr>"

definition tiny_catalog :: catalog where
  "tiny_catalog = \<lparr>c_document = tiny_document, c_groups = [(qs ''g'', tiny_group)],
     c_indexes = [(qs ''g'', index_parameters [tiny_parameter])], c_patterns = []\<rparr>"

lemma tiny_catalog_read: "catalog_from_json no_regex tiny_document = Inr tiny_catalog"
proof -
  have check: "check_schema (Suc 32) q gs [(qs ''type'', JStr (qs ''string''))] ps = Inr ps" for q gs ps
    unfolding check_schema.simps(2) by (simp add: check_keyword_def schema_keys_def schema_types_def is_bound_key_def)
  then have "check_schema 33 q gs [(qs ''type'', JStr (qs ''string''))] ps = Inr ps" for q gs ps by simp
  then show ?thesis
    by (simp add: catalog_from_json_def tiny_document_def tiny_catalog_def tiny_group_def tiny_parameter_def
        add_group_def add_parameter_def parse_parameter_def parse_source_def kind_of_def phase_of_def
        strings_of_def jobj_def jvalue_def jhas_def ohas_def check_group_def Let_def)
qed

theorem catalog_lookup_witness:
  "catalog_parameter tiny_catalog (qs ''g'') (qs ''key'') = Inr tiny_parameter
   \<and> (\<exists>m. catalog_parameter tiny_catalog (qs ''g'') (qs ''nokey'') = Inl (Error InvalidArgument m))"
proof -
  have g: "map_of (c_groups tiny_catalog) (qs ''g'') = Some tiny_group"
    by (simp add: tiny_catalog_def)
  show ?thesis
    using catalog_lookup [OF tiny_catalog_read g, of "qs ''key''" tiny_parameter]
      catalog_lookup [OF tiny_catalog_read g, of "qs ''nokey''" tiny_parameter]
    by (simp add: tiny_group_def) (simp add: tiny_parameter_def)
qed

lemma tiny_accepts: "accepts no_regex tiny_catalog (p_schema tiny_parameter) (JStr s)"
proof -
  have "accepts_at (Suc 32) no_regex tiny_catalog [(qs ''type'', JStr (qs ''string''))] (JStr s)"
    unfolding accepts_at.simps(2) by (simp add: schema_eval)
  then show ?thesis by (simp add: accepts_def tiny_parameter_def del: accepts_at.simps)
qed

lemma tiny_lookup: "catalog_parameter tiny_catalog (qs ''g'') (qs ''key'') = Inr tiny_parameter"
  by (simp add: catalog_parameter_def tiny_catalog_def tiny_group_def index_parameters_def tiny_parameter_def)

theorem native_json_roundtrip_witness:
  "\<exists>po. from_native_json no_regex tiny_catalog (qs ''g'') [(qs ''key'', JStr (qs ''secret''))] = Inr po
     \<and> to_native_json no_regex False False po = Inr [(qs ''key'', JStr (qs ''secret''))]"
proof -
  have g: "map_of (c_groups tiny_catalog) (qs ''g'') = Some tiny_group" by (simp add: tiny_catalog_def)
  have "owf [(qs ''key'', JStr (qs ''secret''))]" by (simp add: owf_def)
  note rt = native_json_roundtrip [OF g this, of no_regex]
  have "\<not> precision_conflict \<lparr>po_group = qs ''g'', po_catalog = tiny_catalog,
      po_values = [(qs ''key'', JStr (qs ''secret''))]\<rparr>"
    by (simp add: precision_conflict_def jvalue_def)
  then show ?thesis
    using rt tiny_accepts tiny_lookup by (auto simp: ok_def tiny_parameter_def)
qed

lemma tiny_export:
  "\<exists>out v. to_native_json no_regex False True \<lparr>po_group = qs ''g'', po_catalog = tiny_catalog,
        po_values = [(qs ''key'', JStr (qs ''secret''))]\<rparr> = Inr out \<and> map_of out (qs ''key'') = Some v"
proof -
  let ?po = "\<lparr>po_group = qs ''g'', po_catalog = tiny_catalog, po_values = [(qs ''key'', JStr (qs ''secret''))]\<rparr>"
  have "all_valid no_regex tiny_catalog (qs ''g'') [(qs ''key'', JStr (qs ''secret''))]"
    using tiny_accepts tiny_lookup by (simp add: all_valid_def validate_value_ok) (simp add: tiny_parameter_def)
  then have "object_require_valid no_regex ?po = Inr ()"
    by (intro require_valid_eq [where g = tiny_group])
      (simp_all add: tiny_catalog_def precision_conflict_def jvalue_def)
  then show ?thesis
    by (simp add: to_native_json_def catalog_group_def tiny_catalog_def tiny_group_def export_field_def
        redact_field_def tiny_parameter_def)
qed

theorem redacted_export_witness:
  "\<exists>out. to_native_json no_regex False True \<lparr>po_group = qs ''g'', po_catalog = tiny_catalog,
        po_values = [(qs ''key'', JStr (qs ''secret''))]\<rparr> = Inr out \<and> map_of out (qs ''key'') = Some redacted"
proof -
  have g: "map_of (c_groups tiny_catalog) (qs ''g'') = Some tiny_group" by (simp add: tiny_catalog_def)
  have wf: "catalog_wf tiny_catalog" by (rule catalog_from_json_wf [OF tiny_catalog_read])
  have f: "tiny_parameter \<in> set (g_parameters tiny_group)" "p_sensitive tiny_parameter"
    "p_name tiny_parameter = qs ''key''"
    by (simp_all add: tiny_group_def tiny_parameter_def)
  show ?thesis using redacted_export [OF wf g f(1,2)] f(3) tiny_export by metis
qed

end
