(* ===== verification/StopFilter.thy ===== *)
theory StopFilter
  imports Base
begin

text \<open>
  The stop-string filter of the token stream (\<^verbatim>\<open>StopFilter\<close> in
  \<^verbatim>\<open>src/service/Managers.h\<close> and \<^verbatim>\<open>src/service/Managers.cpp\<close>), behind the interface
  \<open>text_filter\<close> that the generation loop relies on: what has been passed on, plus what is
  held back, is the input, up to the first stop.
\<close>

section \<open>The interface\<close>

text \<open>
  \<open>holds f T E\<close>: the running filter \<open>f\<close> has received \<open>T\<close> and passed on
  \<open>E\<close>. \<open>cut\<close> is where a text has to end.
\<close>

locale text_filter =
  fixes push :: "'t list \<Rightarrow> 'f \<Rightarrow> 't list \<times> 'f"
    and finish :: "'f \<Rightarrow> 't list \<times> 'f"
    and stopped :: "'f \<Rightarrow> bool"
    and cut :: "'t list \<Rightarrow> nat option"
    and holds :: "'f \<Rightarrow> 't list \<Rightarrow> 't list \<Rightarrow> bool"
  assumes holds_running: "holds f T E \<Longrightarrow> \<not> stopped f"
    and push_on: "holds f T E \<Longrightarrow> cut (T @ t) = None \<Longrightarrow>
      holds (snd (push t f)) (T @ t) (E @ fst (push t f))"
    and push_cut: "holds f T E \<Longrightarrow> cut (T @ t) = Some n \<Longrightarrow>
      stopped (snd (push t f)) \<and> E @ fst (push t f) = take n (T @ t) \<and> fst (finish (snd (push t f))) = []"
    and push_stopped: "stopped f \<Longrightarrow> push t f = ([], f)"
    and finish_rest: "holds f T E \<Longrightarrow> E @ fst (finish f) = T"
begin

primrec feed :: "'t list list \<Rightarrow> 'f \<Rightarrow> 't list \<times> 'f" where
  "feed [] f = ([], f)"
| "feed (t # ts) f = (let (out, f') = push t f; (rest, f'') = feed ts f' in (out @ rest, f''))"

lemma feed_stopped: "stopped f \<Longrightarrow> feed ts f = ([], f)"
  by (induction ts) (simp_all add: push_stopped)

text \<open>All that the client sees: the chunks passed on, then what \<open>finish\<close> releases.\<close>

definition delivered :: "'t list list \<Rightarrow> 'f \<Rightarrow> 't list" where
  "delivered ts f = fst (feed ts f) @ fst (finish (snd (feed ts f)))"

lemma delivered_all:
  assumes "holds f T E" and "\<And>k. k \<le> length ts \<Longrightarrow> 0 < k \<Longrightarrow> cut (T @ concat (take k ts)) = None"
  shows "E @ delivered ts f = T @ concat ts \<and> \<not> stopped (snd (feed ts f))"
  using assms
proof (induction ts arbitrary: f T E)
  case Nil
  then show ?case using finish_rest holds_running by (auto simp: delivered_def)
next
  case (Cons t ts)
  have "cut (T @ t) = None" using Cons.prems(2) [of 1] by simp
  then have h: "holds (snd (push t f)) (T @ t) (E @ fst (push t f))" using Cons.prems(1) push_on by blast
  have "cut ((T @ t) @ concat (take k ts)) = None" if "k \<le> length ts" "0 < k" for k
    using Cons.prems(2) [of "Suc k"] that by simp
  from Cons.IH [OF h this] show ?case
    by (simp add: delivered_def Let_def split_beta)
qed

lemma delivered_cut:
  assumes "holds f T E" and "k \<le> length ts" and "0 < k" and "cut (T @ concat (take k ts)) = Some n"
    and "\<And>j. 0 < j \<Longrightarrow> j < k \<Longrightarrow> cut (T @ concat (take j ts)) = None"
  shows "E @ delivered ts f = take n (T @ concat (take k ts)) \<and> stopped (snd (feed ts f))"
  using assms
proof (induction ts arbitrary: f T E k)
  case Nil
  then show ?case by simp
next
  case (Cons t ts)
  obtain j where k: "k = Suc j" using Cons.prems(3) gr0_implies_Suc by blast
  show ?case
  proof (cases j)
    case 0
    then have c: "cut (T @ t) = Some n" using Cons.prems(4) k by simp
    from push_cut [OF Cons.prems(1) c] feed_stopped [of "snd (push t f)" ts]
    show ?thesis using k 0 by (simp add: delivered_def Let_def split_beta)
  next
    case (Suc i)
    have "cut (T @ t) = None" using Cons.prems(5) [of 1] k Suc by simp
    then have h: "holds (snd (push t f)) (T @ t) (E @ fst (push t f))" using Cons.prems(1) push_on by blast
    have "cut ((T @ t) @ concat (take i ts)) = None" if "0 < i" "i < j" for i
      using Cons.prems(5) [of "Suc i"] that k by simp
    from Cons.IH [OF h _ _ _ this] show ?thesis
      using Cons.prems(2,4) k Suc by (simp add: delivered_def Let_def split_beta)
  qed
qed

end

section \<open>The filter\<close>

record stop_filter =
  sf_stops :: "qstring list"
  sf_pending :: qstring
  sf_stopped :: bool

definition make_filter :: "qstring list \<Rightarrow> stop_filter" where
  "make_filter stops = \<lparr>sf_stops = stops, sf_pending = [], sf_stopped = False\<rparr>"

text \<open>The loop that keeps the least position of any stop string.\<close>

fun earliest :: "qstring list \<Rightarrow> qstring \<Rightarrow> nat option \<Rightarrow> nat option" where
  "earliest [] p best = best"
| "earliest (s # ss) p best = earliest ss p (case index_of s p of
     None \<Rightarrow> best
   | Some pos \<Rightarrow> (case best of None \<Rightarrow> Some pos | Some b \<Rightarrow> if pos < b then Some pos else best))"

definition held_for :: "qstring \<Rightarrow> qstring \<Rightarrow> nat \<Rightarrow> nat" where
  "held_for p s held = fold (\<lambda>n held. if ends_with (take n s) p then max held n else held)
     [1..<min (length s) (Suc (length p))] held"

definition is_high_surrogate :: "qchar \<Rightarrow> bool" where
  "is_high_surrogate c \<longleftrightarrow> 0xD800 \<le> c \<and> c \<le> 0xDBFF"

definition is_low_surrogate :: "qchar \<Rightarrow> bool" where
  "is_low_surrogate c \<longleftrightarrow> 0xDC00 \<le> c \<and> c \<le> 0xDFFF"

lemma surrogates_disjoint: "is_high_surrogate c \<Longrightarrow> \<not> is_low_surrogate c"
proof
  assume "is_high_surrogate c" "is_low_surrogate c"
  then have "(0xDC00 :: qchar) \<le> 0xDBFF"
    unfolding is_high_surrogate_def is_low_surrogate_def by (meson order_trans)
  then show False by simp
qed

definition held_back :: "qstring list \<Rightarrow> qstring \<Rightarrow> nat" where
  "held_back stops p = (let held = fold (held_for p) stops 0 in
     if p \<noteq> [] \<and> is_high_surrogate (last p) then max held 1 else held)"

definition sf_push :: "qstring \<Rightarrow> stop_filter \<Rightarrow> qstring \<times> stop_filter" where
  "sf_push text f =
     (if sf_stopped f then ([], f)
      else let p = sf_pending f @ text in
        case earliest (sf_stops f) p None of
          Some n \<Rightarrow> (take n p, f\<lparr>sf_pending := [], sf_stopped := True\<rparr>)
        | None \<Rightarrow> (let out = take (length p - held_back (sf_stops f) p) p in
            (out, f\<lparr>sf_pending := drop (length out) p\<rparr>)))"

definition sf_finish :: "stop_filter \<Rightarrow> qstring \<times> stop_filter" where
  "sf_finish f = (sf_pending f, f\<lparr>sf_pending := []\<rparr>)"

section \<open>Where stops begin\<close>

definition occurs_at :: "qstring \<Rightarrow> qstring \<Rightarrow> nat \<Rightarrow> bool" where
  "occurs_at s t i \<longleftrightarrow> i + length s \<le> length t \<and> take (length s) (drop i t) = s"

lemma index_of_occurs: "index_of s t = Some n \<Longrightarrow> occurs_at s t n"
  using index_of_Some by (auto simp: occurs_at_def)

lemma index_of_first: "index_of s t = Some n \<Longrightarrow> occurs_at s t m \<Longrightarrow> n \<le> m"
  unfolding occurs_at_def by (metis index_of_least not_less)

lemma index_of_missing: "index_of s t = None \<longleftrightarrow> (\<forall>i. \<not> occurs_at s t i)"
proof
  show "\<forall>i. \<not> occurs_at s t i" if "index_of s t = None"
    using index_of_None [OF that] by (auto simp: occurs_at_def)
  show "index_of s t = None" if "\<forall>i. \<not> occurs_at s t i"
    using that index_of_occurs by (cases "index_of s t") blast+
qed

lemma index_of_eq:
  assumes "occurs_at s t n" and "\<And>m. occurs_at s t m \<Longrightarrow> n \<le> m"
  shows "index_of s t = Some n"
proof (cases "index_of s t")
  case None
  then show ?thesis using assms(1) index_of_missing by blast
next
  case (Some m)
  then show ?thesis using assms index_of_occurs index_of_first by (metis le_antisym)
qed

lemma occurs_at_append: "length e \<le> i \<Longrightarrow> occurs_at s (e @ p) i \<longleftrightarrow> occurs_at s p (i - length e)"
  by (auto simp: occurs_at_def)

lemma index_of_shift:
  assumes "\<And>i. i < length e \<Longrightarrow> \<not> occurs_at s (e @ p) i"
  shows "index_of s (e @ p) = map_option ((+) (length e)) (index_of s p)"
proof (cases "index_of s p")
  case None
  then have "\<not> occurs_at s (e @ p) i" for i
    using assms [of i] occurs_at_append [of e i s p] index_of_missing [of s p] by (cases "i < length e") auto
  then have "index_of s (e @ p) = None" using index_of_missing by blast
  then show ?thesis using None by simp
next
  case (Some n)
  have "index_of s (e @ p) = Some (length e + n)"
  proof (rule index_of_eq)
    show "occurs_at s (e @ p) (length e + n)"
      using index_of_occurs [OF Some] by (simp add: occurs_at_append)
    fix m assume m: "occurs_at s (e @ p) m"
    then have "length e \<le> m" using assms not_le by blast
    then show "length e + n \<le> m"
      using m index_of_first [OF Some] by (metis occurs_at_append add_le_imp_le_diff le_add_diff_inverse nat_add_left_cancel_le)
  qed
  then show ?thesis using Some by simp
qed

lemma earliest_shift:
  assumes "\<And>s i. s \<in> set stops \<Longrightarrow> i < length e \<Longrightarrow> \<not> occurs_at s (e @ p) i"
  shows "earliest stops (e @ p) (map_option ((+) (length e)) best)
    = map_option ((+) (length e)) (earliest stops p best)"
  using assms
proof (induction stops arbitrary: best)
  case Nil
  then show ?case by simp
next
  case (Cons s ss)
  have shift: "index_of s (e @ p) = map_option ((+) (length e)) (index_of s p)"
    using Cons.prems by (intro index_of_shift) simp
  have IH: "earliest ss (e @ p) (map_option ((+) (length e)) b)
      = map_option ((+) (length e)) (earliest ss p b)" for b
    using Cons by simp
  show ?case
  proof (cases "index_of s p")
    case None
    then show ?thesis using IH [of best] shift by simp
  next
    case (Some n)
    then show ?thesis using IH [of "Some n"] IH [of best] shift by (cases best) simp_all
  qed
qed

lemma earliest_None: "earliest stops p best = None \<longleftrightarrow> best = None \<and> (\<forall>s \<in> set stops. index_of s p = None)"
  by (induction stops p best rule: earliest.induct) (auto split: option.splits)

lemma earliest_best: "earliest stops p (Some b) = Some n \<Longrightarrow> n \<le> b"
proof (induction stops arbitrary: b)
  case Nil
  then show ?case by simp
next
  case (Cons s ss)
  then show ?case by (fastforce split: option.splits if_splits)
qed

lemma earliest_min:
  "earliest stops p best = Some n \<Longrightarrow> s \<in> set stops \<Longrightarrow> occurs_at s p i \<Longrightarrow> n \<le> i"
proof (induction stops arbitrary: best)
  case Nil
  then show ?case by simp
next
  case (Cons t ss)
  show ?case
  proof (cases "s = t")
    case True
    then obtain m where m: "index_of t p = Some m" "m \<le> i"
      using Cons.prems(3) index_of_missing index_of_first by (cases "index_of t p") blast+
    then have "\<exists>b. earliest ss p (Some b) = Some n \<and> b \<le> m"
      using Cons.prems(1) by (auto split: option.splits if_splits)
    then show ?thesis using earliest_best m(2) by (meson le_trans)
  next
    case False
    then show ?thesis using Cons by auto
  qed
qed

lemma earliest_occurs:
  "earliest stops p best = Some n \<Longrightarrow> best = Some n \<or> (\<exists>s \<in> set stops. index_of s p = Some n)"
proof (induction stops arbitrary: best)
  case Nil
  then show ?case by simp
next
  case (Cons s ss)
  let ?best = "case index_of s p of None \<Rightarrow> best
     | Some pos \<Rightarrow> (case best of None \<Rightarrow> Some pos | Some b \<Rightarrow> if pos < b then Some pos else best)"
  have "?best = Some n \<or> (\<exists>s \<in> set ss. index_of s p = Some n)"
    using Cons.IH [of ?best] Cons.prems by simp
  moreover have "best = Some n \<or> index_of s p = Some n" if "?best = Some n"
    using that by (auto split: option.splits if_splits)
  ultimately show ?case by auto
qed

section \<open>What is held back\<close>

lemma held_loop:
  "held \<le> fold (\<lambda>n held. if P n then max held n else held) ns held
   \<and> (\<forall>n \<in> set ns. P n \<longrightarrow> n \<le> fold (\<lambda>n held. if P n then max held n else held) ns held)
   \<and> (fold (\<lambda>n held. if P n then max held n else held) ns held = held
      \<or> fold (\<lambda>n held. if P n then max held n else held) ns held \<in> {n \<in> set ns. P n})" for held :: nat
proof (induction ns arbitrary: held)
  case Nil
  then show ?case by simp
next
  case (Cons n ns)
  show ?case
  proof (cases "P n")
    case True
    then show ?thesis using Cons [of "max held n"] by (auto simp: max_def split: if_splits)
  next
    case False
    then show ?thesis using Cons [of held] by auto
  qed
qed

lemma held_for_bounds:
  "held \<le> held_for p s held"
  "1 \<le> n \<Longrightarrow> n < length s \<Longrightarrow> n \<le> length p \<Longrightarrow> ends_with (take n s) p \<Longrightarrow> n \<le> held_for p s held"
  "held \<le> length p \<Longrightarrow> held_for p s held \<le> length p"
  using held_loop [of held "\<lambda>n. ends_with (take n s) p" "[1..<min (length s) (Suc (length p))]"]
  by (auto simp: held_for_def)

lemma held_fold_bounds:
  "held \<le> fold (held_for p) stops held"
  "s \<in> set stops \<Longrightarrow> 1 \<le> n \<Longrightarrow> n < length s \<Longrightarrow> n \<le> length p \<Longrightarrow> ends_with (take n s) p \<Longrightarrow>
     n \<le> fold (held_for p) stops held"
  "held \<le> length p \<Longrightarrow> fold (held_for p) stops held \<le> length p"
proof (induction stops arbitrary: held)
  case (Cons t ss)
  {
    case 1
    show ?case using Cons.IH(1) [of "held_for p t held"] held_for_bounds(1) [of held p t] by simp
  next
    case 2
    show ?case
    proof (cases "s = t")
      case True
      then show ?thesis
        using 2 held_for_bounds(2) [of n t p held] Cons.IH(1) [of "held_for p t held"] by simp
    next
      case False
      then show ?thesis using 2 Cons.IH(2) by simp
    qed
  next
    case 3
    then show ?case using Cons.IH(3) held_for_bounds(3) by simp
  }
qed simp_all

lemma held_for_witness:
  "held_for p s held = held \<or> (held_for p s held < length s \<and> ends_with (take (held_for p s held) s) p)"
  using held_loop [of held "\<lambda>n. ends_with (take n s) p" "[1..<min (length s) (Suc (length p))]"]
  by (auto simp: held_for_def)

lemma held_fold_witness:
  "fold (held_for p) stops held = held \<or> (\<exists>s \<in> set stops. fold (held_for p) stops held < length s
     \<and> ends_with (take (fold (held_for p) stops held) s) p)"
proof (induction stops arbitrary: held)
  case Nil
  then show ?case by simp
next
  case (Cons s ss)
  show ?case
    using Cons.IH [of "held_for p s held"] held_for_witness [of p s held]
    unfolding fold_simps by (metis list.set_intros)
qed

lemma held_back_le: "held_back stops p \<le> length p"
  using held_fold_bounds(3) [of 0 p stops] by (auto simp: held_back_def Let_def Suc_le_eq)

lemma held_back_cases:
  "held_back stops p = 1 \<and> is_high_surrogate (last p) \<or> held_back stops p = fold (held_for p) stops 0"
  by (auto simp: held_back_def Let_def max_def)

lemma held_back_stop:
  "s \<in> set stops \<Longrightarrow> 1 \<le> n \<Longrightarrow> n < length s \<Longrightarrow> n \<le> length p \<Longrightarrow> ends_with (take n s) p \<Longrightarrow>
     n \<le> held_back stops p"
  using held_fold_bounds(2) [of s stops n p 0] by (simp add: held_back_def Let_def)

section \<open>The code's filter satisfies the interface\<close>

text \<open>
  Nothing already passed on can be the beginning of a stop: no suffix that starts there is a
  prefix of a stop string.
\<close>

definition sf_holds :: "qstring list \<Rightarrow> stop_filter \<Rightarrow> qstring \<Rightarrow> qstring \<Rightarrow> bool" where
  "sf_holds stops f T E \<longleftrightarrow> sf_stops f = stops \<and> \<not> sf_stopped f \<and> T = E @ sf_pending f
     \<and> (\<forall>s \<in> set stops. \<forall>i < length E. \<not> (\<exists>u. s = drop i T @ u) \<and> \<not> occurs_at s T i)"

definition sf_cut :: "qstring list \<Rightarrow> qstring \<Rightarrow> nat option" where
  "sf_cut stops t = earliest stops t None"

text \<open>A stop that begins in the emitted part would need the rest of the text to be its prefix.\<close>

lemma occurs_at_extend:
  assumes "occurs_at s (T @ t) i" and "i \<le> length T"
  shows "occurs_at s T i \<or> (\<exists>u. s = drop i T @ u)"
proof (cases "i + length s \<le> length T")
  case True
  then show ?thesis using assms by (simp add: occurs_at_def)
next
  case False
  then have "s = drop i T @ take (length s - length (drop i T)) t"
    using assms by (simp add: occurs_at_def)
  then show ?thesis by blast
qed

lemma holds_extend:
  assumes "sf_holds stops f T E" and "s \<in> set stops" and "i < length E"
  shows "\<not> occurs_at s (T @ t) i" and "s \<noteq> drop i (T @ t) @ u"
proof -
  have i: "i \<le> length T" using assms by (simp add: sf_holds_def)
  have no: "\<not> (\<exists>u. s = drop i T @ u)" "\<not> occurs_at s T i"
    using assms unfolding sf_holds_def by blast+
  show "\<not> occurs_at s (T @ t) i" using no occurs_at_extend [OF _ i] by blast
  have "drop i (T @ t) @ u = drop i T @ (t @ u)" using i by simp
  then show "s \<noteq> drop i (T @ t) @ u" using no(1) by metis
qed

lemma cut_pending:
  assumes "sf_holds stops f T E"
  shows "sf_cut stops (T @ t) = map_option ((+) (length E)) (earliest stops (sf_pending f @ t) None)"
proof -
  have T: "T @ t = E @ (sf_pending f @ t)" using assms by (simp add: sf_holds_def)
  have "\<not> occurs_at s (E @ (sf_pending f @ t)) i" if "s \<in> set stops" "i < length E" for s i
    using holds_extend(1) [OF assms that, of t] by (simp add: T)
  from earliest_shift [OF this, of stops None] show ?thesis by (simp add: sf_cut_def T)
qed

lemma ends_with_suffix:
  "n \<le> length p \<Longrightarrow> n < length s \<Longrightarrow> take n s = drop (length p - n) p \<Longrightarrow> ends_with (take n s) p"
  by (simp add: ends_with_def)

lemma push_continues:
  assumes h: "sf_holds stops f T E" and c: "sf_cut stops (T @ t) = None"
  shows "sf_holds stops (snd (sf_push t f)) (T @ t) (E @ fst (sf_push t f))"
proof -
  obtain p where p: "p = sf_pending f @ t" by blast
  let ?out = "take (length p - held_back stops p) p"
  have T: "T @ t = E @ p" and st: "sf_stops f = stops" "\<not> sf_stopped f"
    using h by (simp_all add: sf_holds_def p)
  have "earliest stops p None = None" using c cut_pending [OF h, of t] by (simp add: p)
  then have push: "sf_push t f = (?out, f\<lparr>sf_pending := drop (length ?out) p\<rparr>)"
    using st by (simp add: sf_push_def Let_def p)
  have none: "\<not> occurs_at s (T @ t) i" if "s \<in> set stops" for s i
    using c that index_of_missing by (auto simp: sf_cut_def earliest_None)
  have "s \<noteq> drop i (T @ t) @ u" if s: "s \<in> set stops" and i: "i < length (E @ ?out)" for s i u
  proof (cases "i < length E")
    case True
    then show ?thesis using holds_extend(2) [OF h s] by blast
  next
    case False
    define n where "n = length p - (i - length E)"
    have n: "held_back stops p < n" "1 \<le> n" "n \<le> length p"
      using i False held_back_le [of stops p] by (auto simp: n_def)
    have drop: "drop i (T @ t) = drop (length p - n) p" "length (drop i (T @ t)) = n"
      using False n by (simp_all add: T n_def)
    show ?thesis
    proof
      assume eq: "s = drop i (T @ t) @ u"
      then have take: "take n s = drop (length p - n) p" using drop by (metis append_eq_conv_conj)
      have "length s = n + length u" using eq drop(2) by (metis length_append)
      then consider "length s = n" "s = drop i (T @ t)" | "n < length s" using eq by (cases u) auto
      then show False
      proof cases
        case 1
        have "i \<le> length (T @ t)" using n(2) drop(2) by (simp only: length_drop)
        then have "occurs_at s (T @ t) i" using 1 drop(2) by (simp only: occurs_at_def) simp
        then show False using none s by blast
      next
        case 2
        have "ends_with (take n s) p" using n(3) 2 take by (rule ends_with_suffix)
        then show False using held_back_stop [OF s n(2) 2 n(3)] n(1) by simp
      qed
    qed
  qed
  moreover have "T @ t = (E @ ?out) @ drop (length ?out) p" by (simp add: T)
  ultimately show ?thesis using none st unfolding sf_holds_def push by simp
qed

lemma push_stops:
  assumes h: "sf_holds stops f T E" and c: "sf_cut stops (T @ t) = Some n"
  shows "sf_stopped (snd (sf_push t f)) \<and> E @ fst (sf_push t f) = take n (T @ t)
     \<and> fst (sf_finish (snd (sf_push t f))) = []"
proof -
  have T: "T @ t = E @ (sf_pending f @ t)" and st: "sf_stops f = stops" "\<not> sf_stopped f"
    using h by (simp_all add: sf_holds_def)
  obtain m where "earliest stops (sf_pending f @ t) None = Some m" "n = length E + m"
    using c cut_pending [OF h, of t] by auto
  then show ?thesis using st by (simp add: sf_push_def sf_finish_def T Let_def)
qed

interpretation sf: text_filter sf_push sf_finish sf_stopped "sf_cut stops" "sf_holds stops" for stops
proof unfold_locales
  fix f T E t n
  show "sf_stopped f \<Longrightarrow> sf_push t f = ([], f)" by (simp add: sf_push_def)
  assume h: "sf_holds stops f T E"
  then show "\<not> sf_stopped f" and "E @ fst (sf_finish f) = T"
    by (simp_all add: sf_holds_def sf_finish_def)
  show "sf_cut stops (T @ t) = None \<Longrightarrow>
      sf_holds stops (snd (sf_push t f)) (T @ t) (E @ fst (sf_push t f))"
    using h by (rule push_continues)
  show "sf_cut stops (T @ t) = Some n \<Longrightarrow> sf_stopped (snd (sf_push t f))
      \<and> E @ fst (sf_push t f) = take n (T @ t) \<and> fst (sf_finish (snd (sf_push t f))) = []"
    using h by (rule push_stops)
qed

lemma make_filter_holds: "sf_holds stops (make_filter stops) [] []"
  by (simp add: sf_holds_def make_filter_def)

section \<open>Properties\<close>

primrec sf_feed :: "qstring list \<Rightarrow> stop_filter \<Rightarrow> qstring \<times> stop_filter" where
  "sf_feed [] f = ([], f)"
| "sf_feed (t # ts) f = (let (out, f') = sf_push t f; (rest, f'') = sf_feed ts f' in (out @ rest, f''))"

definition sf_deliver :: "qstring list \<Rightarrow> qstring list \<Rightarrow> qstring \<times> bool" where
  "sf_deliver stops chunks = (let (out, f) = sf_feed chunks (make_filter stops) in
     (out @ fst (sf_finish f), sf_stopped f))"

lemma sf_feed_eq: "sf_feed ts f = sf.feed ts f"
  by (induction ts arbitrary: f) (simp_all add: Let_def split_beta)

lemma sf_deliver_eq: "sf_deliver stops chunks =
    (sf.delivered chunks (make_filter stops), sf_stopped (snd (sf.feed chunks (make_filter stops))))"
  by (simp add: sf_deliver_def sf_feed_eq sf.delivered_def split_beta)

lemma deliver_all:
  assumes "\<And>k. k \<le> length chunks \<Longrightarrow> 0 < k \<Longrightarrow> sf_cut stops (concat (take k chunks)) = None"
  shows "sf_deliver stops chunks = (concat chunks, False)"
  using sf.delivered_all [OF make_filter_holds [of stops], of chunks] assms by (simp add: sf_deliver_eq)

lemma deliver_cut:
  assumes "0 < k" and "k \<le> length chunks" and "sf_cut stops (concat (take k chunks)) = Some n"
    and "\<And>j. 0 < j \<Longrightarrow> j < k \<Longrightarrow> sf_cut stops (concat (take j chunks)) = None"
  shows "sf_deliver stops chunks = (take n (concat (take k chunks)), True)"
  using sf.delivered_cut [OF make_filter_holds [of stops], of k chunks n] assms by (simp add: sf_deliver_eq)

text \<open>Either nothing ever stops, or there is a first chunk with which a stop is complete.\<close>

lemma deliver_cases:
  obtains (all) "\<And>k. k \<le> length chunks \<Longrightarrow> 0 < k \<Longrightarrow> sf_cut stops (concat (take k chunks)) = None"
    and "sf_deliver stops chunks = (concat chunks, False)"
  | (cut) k n where "0 < k" "k \<le> length chunks" "sf_cut stops (concat (take k chunks)) = Some n"
    "sf_deliver stops chunks = (take n (concat (take k chunks)), True)"
proof (cases "\<exists>k. 0 < k \<and> k \<le> length chunks \<and> sf_cut stops (concat (take k chunks)) \<noteq> None")
  case True
  define k where "k = (LEAST k. 0 < k \<and> k \<le> length chunks \<and> sf_cut stops (concat (take k chunks)) \<noteq> None)"
  have k: "0 < k \<and> k \<le> length chunks \<and> sf_cut stops (concat (take k chunks)) \<noteq> None"
    unfolding k_def by (rule LeastI_ex [OF True])
  then obtain n where n: "sf_cut stops (concat (take k chunks)) = Some n" by blast
  have "sf_cut stops (concat (take j chunks)) = None" if "0 < j" "j < k" for j
  proof -
    have "\<not> (0 < j \<and> j \<le> length chunks \<and> sf_cut stops (concat (take j chunks)) \<noteq> None)"
      using that(2) unfolding k_def by (rule not_less_Least)
    then show ?thesis using that k by simp
  qed
  from that(2) [OF _ _ n deliver_cut [OF _ _ n this]] k show ?thesis by blast
next
  case False
  then have none: "sf_cut stops (concat (take k chunks)) = None" if "k \<le> length chunks" "0 < k" for k
    using that by blast
  from that(1) [OF none deliver_all [OF none]] show ?thesis by blast
qed

lemma cut_None: "sf_cut stops t = None \<longleftrightarrow> (\<forall>s \<in> set stops. \<forall>i. \<not> occurs_at s t i)"
  by (simp add: sf_cut_def earliest_None index_of_missing)

lemma cut_Some_occurs: "sf_cut stops t = Some n \<Longrightarrow> \<exists>s \<in> set stops. occurs_at s t n"
  using earliest_occurs [of stops t None n] index_of_occurs by (auto simp: sf_cut_def)

lemma cut_Some_least: "sf_cut stops t = Some n \<Longrightarrow> s \<in> set stops \<Longrightarrow> occurs_at s t i \<Longrightarrow> n \<le> i"
  using earliest_min by (auto simp: sf_cut_def)

lemma occurs_at_take: "occurs_at s (take n t) i \<longleftrightarrow> occurs_at s t i \<and> i + length s \<le> n"
  by (auto simp: occurs_at_def drop_take min_def)

lemma first_in_prefix:
  assumes prefix: "take (length p) t = p" and occ: "occurs_at s p n"
    and least: "\<And>m. occurs_at s p m \<Longrightarrow> n \<le> m"
  shows "index_of s t = Some n \<and> take n p = take n t"
proof
  have into: "occurs_at s p m \<longleftrightarrow> occurs_at s t m \<and> m + length s \<le> length p" for m
    using occurs_at_take [of s "length p" t m] by (simp only: prefix)
  show "index_of s t = Some n"
  proof (rule index_of_eq)
    show "occurs_at s t n" using occ into by blast
    fix m assume m: "occurs_at s t m"
    show "n \<le> m"
    proof (rule ccontr)
      assume "\<not> n \<le> m"
      then have "m + length s \<le> length p" using occ by (simp add: occurs_at_def)
      then have "occurs_at s p m" using m into by blast
      then show False using least \<open>\<not> n \<le> m\<close> by blast
    qed
  qed
  have "n \<le> length p" using occ by (simp add: occurs_at_def)
  then show "take n p = take n t" using arg_cong [OF prefix, of "take n"] by (simp add: min_def)
qed

text \<open>
  C34. Whatever way the runtime cuts its text into chunks, the filter delivers the whole text
  when no stop string occurs in it and otherwise the text before the first stop that was complete;
  what is delivered contains no stop string, and with a single stop string it does not depend on
  the chunks at all.
\<close>

theorem stop_filter_delivers:
  assumes "[] \<notin> set stops"
  shows "(if \<forall>k \<le> length chunks. sf_cut stops (concat (take k chunks)) = None
      then sf_deliver stops chunks = (concat chunks, False)
      else \<exists>k \<le> length chunks. \<exists>n. sf_cut stops (concat (take k chunks)) = Some n
        \<and> sf_deliver stops chunks = (take n (concat (take k chunks)), True))
    \<and> (\<forall>s \<in> set stops. \<forall>i. \<not> occurs_at s (fst (sf_deliver stops chunks)) i)
    \<and> (\<forall>s. stops = [s] \<longrightarrow> fst (sf_deliver stops chunks) =
         (case index_of s (concat chunks) of None \<Rightarrow> concat chunks | Some n \<Rightarrow> take n (concat chunks)))"
proof -
  have empty: "sf_cut stops [] = None"
    using assms by (auto simp: cut_None occurs_at_def)
  show ?thesis
  proof (cases rule: deliver_cases [of chunks stops])
    case all
    have none: "sf_cut stops (concat (take k chunks)) = None" if "k \<le> length chunks" for k
      using all(1) [OF that] empty by (cases k) simp_all
    from none [of "length chunks"] have "sf_cut stops (concat chunks) = None" by simp
    then have miss: "\<forall>s \<in> set stops. \<forall>i. \<not> occurs_at s (concat chunks) i" by (simp add: cut_None)
    have "index_of s (concat chunks) = None" if "stops = [s]" for s
      using miss that index_of_missing [of s "concat chunks"] by simp
    then show ?thesis using all(2) none miss by auto
  next
    case (cut k n)
    let ?p = "concat (take k chunks)"
    have prefix: "take (length ?p) (concat chunks) = ?p"
      by (metis append_eq_conv_conj append_take_drop_id concat_append)
    have clean: "\<not> occurs_at s (take n ?p) i" if "s \<in> set stops" for s i
      using cut_Some_least [OF cut(3) that, of i] that assms by (cases s) (auto simp: occurs_at_take)
    have "index_of s (concat chunks) = Some n \<and> take n ?p = take n (concat chunks)" if "stops = [s]" for s
    proof (rule first_in_prefix [OF prefix])
      show "occurs_at s ?p n" using cut_Some_occurs [OF cut(3)] that by simp
      show "n \<le> m" if "occurs_at s ?p m" for m
        using cut_Some_least [OF cut(3) _ that] \<open>stops = [s]\<close> by simp
    qed
    then have "\<forall>s. stops = [s] \<longrightarrow> take n ?p =
        (case index_of s (concat chunks) of None \<Rightarrow> concat chunks | Some n \<Rightarrow> take n (concat chunks))"
      by simp
    moreover have "\<not> (\<forall>k \<le> length chunks. sf_cut stops (concat (take k chunks)) = None)"
      using cut(2,3) by fastforce
    moreover have "\<exists>k \<le> length chunks. \<exists>n. sf_cut stops (concat (take k chunks)) = Some n
        \<and> sf_deliver stops chunks = (take n (concat (take k chunks)), True)"
      using cut(2-4) by blast
    moreover have "\<forall>s \<in> set stops. \<forall>i. \<not> occurs_at s (fst (sf_deliver stops chunks)) i"
      using clean by (simp only: cut(4) fst_conv) blast
    moreover have "fst (sf_deliver stops chunks) = take n ?p" by (simp only: cut(4) fst_conv)
    ultimately show ?thesis by (simp only: if_False simp_thms)
  qed
qed

text \<open>
  When the stop strings do not begin in the middle of a surrogate pair, the filter never
  splits one: a chunk it passes on while running ends in a high surrogate only if the text itself
  does not continue with a low one.
\<close>

theorem stop_filter_keeps_pairs:
  assumes "\<forall>s \<in> set (sf_stops f). s \<noteq> [] \<and> \<not> is_low_surrogate (hd s)"
    and "sf_push text f = (out, f')" and "\<not> sf_stopped f'" and "out \<noteq> []"
    and "is_high_surrogate (last out)"
  shows "sf_pending f' \<noteq> [] \<and> \<not> is_low_surrogate (hd (sf_pending f'))"
proof -
  obtain p where p: "p = sf_pending f @ text" by blast
  let ?h = "held_back (sf_stops f) p"
  have out: "out = take (length p - ?h) p" and rest: "sf_pending f' = drop (length p - ?h) p"
    using assms(2,3) unfolding sf_push_def Let_def p [symmetric] by (auto split: if_splits option.splits)
  have split: "p = out @ sf_pending f'" using out rest by simp
  show ?thesis
  proof (cases "sf_pending f' = []")
    case True
    then have "is_high_surrogate (last p)" "p \<noteq> []" using split assms(4,5) by simp_all
    then have "1 \<le> ?h" by (simp add: held_back_def Let_def)
    moreover have "length p \<le> length p - ?h" "0 < length p" using True rest \<open>p \<noteq> []\<close> by simp_all
    ultimately show ?thesis by linarith
  next
    case False
    then have pos: "0 < ?h" and len: "length (sf_pending f') = ?h"
      using rest held_back_le [of "sf_stops f" p] by auto
    show ?thesis
    proof (cases "is_low_surrogate (hd (sf_pending f'))")
      case True
      consider "?h = 1" "is_high_surrogate (last p)" | "?h = fold (held_for p) (sf_stops f) 0"
        using held_back_cases by blast
      then show ?thesis
      proof cases
        case 1
        then have "last p = hd (sf_pending f')" using split len False by (cases "sf_pending f'") auto
        then show ?thesis using 1(2) True surrogates_disjoint by metis
      next
        case 2
        have "\<exists>s \<in> set (sf_stops f). ?h < length s \<and> ends_with (take ?h s) p"
          using held_fold_witness [of p "sf_stops f" 0] pos unfolding 2 by simp
        then obtain s where s: "s \<in> set (sf_stops f)" "ends_with (take ?h s) p" "?h < length s" by blast
        then have "take ?h s = sf_pending f'"
          using rest held_back_le [of "sf_stops f" p] by (simp add: ends_with_def)
        then have "hd s = hd (sf_pending f')" using pos s(3) by (metis hd_take)
        then show ?thesis using True s(1) assms(1) by metis
      qed
    qed (use False in simp)
  qed
qed

section \<open>Concrete runs\<close>

theorem stop_filter_delivers_witness:
  "fst (sf_deliver [qs ''END''] [qs ''aE'', qs ''N'', qs ''Db'']) = qs ''a''"
proof -
  have "[] \<notin> set [qs ''END'']" by simp
  from stop_filter_delivers [OF this, of "[qs ''aE'', qs ''N'', qs ''Db'']"]
  have "fst (sf_deliver [qs ''END''] [qs ''aE'', qs ''N'', qs ''Db'']) =
      (case index_of (qs ''END'') (qs ''aENDb'') of None \<Rightarrow> qs ''aENDb'' | Some n \<Rightarrow> take n (qs ''aENDb''))"
    by (simp add: qs_def)
  also have "\<dots> = qs ''a''" by (simp add: qs_def)
  finally show ?thesis .
qed

theorem stop_filter_keeps_pairs_witness:
  "\<not> is_low_surrogate (hd (sf_pending (snd (sf_push [0xD83D, 65] (make_filter [qs ''AB''])))))"
proof -
  have push: "sf_push [0xD83D, 65] (make_filter [qs ''AB'']) =
      ([0xD83D], make_filter [qs ''AB''] \<lparr>sf_pending := [65]\<rparr>)"
    by (simp add: sf_push_def make_filter_def held_back_def held_for_def is_high_surrogate_def
        ends_with_def qs_def qc_def)
  show ?thesis
    using stop_filter_keeps_pairs [OF _ push]
    by (simp add: push) (simp add: make_filter_def qs_def qc_def is_low_surrogate_def is_high_surrogate_def)
qed

end
