(* ===== verification/ContextCache.thy ===== *)
theory ContextCache
  imports Types
begin

text \<open>
  The bounded cache of runtime contexts (\<^verbatim>\<open>ContextCacheManager\<close> in
  \<^verbatim>\<open>src/service/Managers.h\<close> and \<^verbatim>\<open>src/service/Managers.cpp\<close>). The contexts of the
  runtime are values of a type variable; \<^verbatim>\<open>createContext\<close> is an argument that throws, returns
  a context or returns null.
\<close>

section \<open>The interface the service uses\<close>

locale context_store =
  fixes acquire :: "'k \<Rightarrow> 's \<Rightarrow> 's \<times> 'c res"
    and erase :: "'k \<Rightarrow> 's \<Rightarrow> 's"
    and look :: "'s \<Rightarrow> 'k \<Rightarrow> 'c option"
    and good :: "'s \<Rightarrow> bool"
  assumes acquire_look: "good s \<Longrightarrow> acquire k s = (s', Inr c) \<Longrightarrow> look s' k = Some c"
    and acquire_hit: "good s \<Longrightarrow> look s k = Some c \<Longrightarrow> \<exists>s'. acquire k s = (s', Inr c) \<and> look s' = look s"
    and acquire_shrinks: "good s \<Longrightarrow> acquire k s = (s', r) \<Longrightarrow> j \<noteq> k \<Longrightarrow> look s' j = look s j \<or> look s' j = None"
    and acquire_good: "good s \<Longrightarrow> good (fst (acquire k s))"
    and erase_good: "good s \<Longrightarrow> good (erase k s)"
    and erase_look: "good s \<Longrightarrow> look (erase k s) = (look s)(k := None)"
begin

lemma reacquire:
  assumes "good s" and "acquire k s = (s', Inr c)"
  shows "\<exists>s''. acquire k s' = (s'', Inr c) \<and> look s'' = look s'"
  using acquire_hit [OF _ acquire_look [OF assms]] acquire_good [OF assms(1), of k] assms(2) by simp

lemma erase_forgets: "good s \<Longrightarrow> look (erase k s) k = None"
  by (simp add: erase_look)

text \<open>A context used once and erased leaves at most what was there before.\<close>

lemma temporary:
  assumes "good s" and "look s k = None" and "acquire k s = (s', r)"
  shows "look (erase k s') j = look s j \<or> look (erase k s') j = None"
proof -
  have "good s'" using acquire_good [OF assms(1), of k] assms(3) by simp
  then show ?thesis
    using acquire_shrinks [OF assms(1,3), of j] by (cases "j = k") (auto simp: erase_look)
qed

end

section \<open>State and operations\<close>

record 'c cache_entry =
  ce_model :: qstring
  ce_reserved :: int
  ce_access :: u64
  ce_context :: 'c

record 'c ctx_cache =
  cc_max_count :: int
  cc_max_tokens :: int
  cc_reserved :: int
  cc_clock :: u64
  cc_evictions :: u64
  cc_entries :: "(qstring, 'c cache_entry) omap"

definition make_cache :: "int \<Rightarrow> int \<Rightarrow> 'c ctx_cache" where
  "make_cache count tokens = \<lparr>cc_max_count = count, cc_max_tokens = tokens, cc_reserved = 0,
     cc_clock = 0, cc_evictions = 0, cc_entries = []\<rparr>"

definition cache_erase :: "qstring \<Rightarrow> 'c ctx_cache \<Rightarrow> 'c ctx_cache" where
  "cache_erase k c = (case map_of (cc_entries c) k of
     None \<Rightarrow> c
   | Some e \<Rightarrow> c\<lparr>cc_reserved := cc_reserved c - ce_reserved e, cc_entries := odel k (cc_entries c)\<rparr>)"

text \<open>\<^verbatim>\<open>std::min_element\<close> by access stamp: the first of the least.\<close>

fun least_recent :: "(qstring \<times> 'c cache_entry) \<Rightarrow> (qstring, 'c cache_entry) omap \<Rightarrow> qstring \<times> 'c cache_entry" where
  "least_recent best [] = best"
| "least_recent best (p # m) =
     (if ce_access (snd p) < ce_access (snd best) then least_recent p m else least_recent best m)"

lemma least_recent_mem: "least_recent best m \<in> set (best # m)"
  by (induction best m rule: least_recent.induct) auto

text \<open>The body and the condition of the eviction loop.\<close>

definition evict_oldest :: "'c ctx_cache \<Rightarrow> 'c ctx_cache" where
  "evict_oldest c = (case cc_entries c of
     [] \<Rightarrow> c
   | p # m \<Rightarrow> (cache_erase (fst (least_recent p m)) c)\<lparr>cc_evictions := cc_evictions c + 1\<rparr>)"

definition must_evict :: "int \<Rightarrow> 'c ctx_cache \<Rightarrow> bool" where
  "must_evict needed c \<longleftrightarrow> cc_entries c \<noteq> []
     \<and> (int (length (cc_entries c)) \<ge> size_t (cc_max_count c) \<or> cc_reserved c > cc_max_tokens c - needed)"

lemma odel_shorter: "k \<in> fst ` set ps \<Longrightarrow> length (odel k ps) < length ps"
proof -
  assume "k \<in> fst ` set ps"
  then obtain v where "(k, v) \<in> set ps" by auto
  then show ?thesis unfolding odel_def by (rule length_filter_less) simp
qed

lemma least_key: "fst (least_recent p m) \<in> fst ` set (p # m)"
  using least_recent_mem [of p m] by (rule imageI)

lemma evict_oldest_shorter:
  assumes "cc_entries c \<noteq> []"
  shows "length (cc_entries (evict_oldest c)) < length (cc_entries c)"
proof -
  obtain p m where c: "cc_entries c = p # m" using assms by (cases "cc_entries c") auto
  have mem: "fst (least_recent p m) \<in> fst ` set (cc_entries c)" using least_key [of p m] by (simp only: c)
  then have "map_of (cc_entries c) (fst (least_recent p m)) \<noteq> None" by (simp only: map_of_eq_None_iff) simp
  then obtain e where "map_of (cc_entries c) (fst (least_recent p m)) = Some e" by blast
  then have "cc_entries (evict_oldest c) = odel (fst (least_recent p m)) (cc_entries c)"
    by (simp only: evict_oldest_def cache_erase_def c list.case option.case) simp
  then show ?thesis using odel_shorter [OF mem] by simp
qed

function evict_loop :: "int \<Rightarrow> 'c ctx_cache \<Rightarrow> 'c ctx_cache" where
  "evict_loop needed c = (if must_evict needed c then evict_loop needed (evict_oldest c) else c)"
  by pat_completeness auto
termination
  by (relation "measure (\<lambda>(_, c). length (cc_entries c))")
    (auto simp: must_evict_def intro: evict_oldest_shorter)

declare evict_loop.simps [simp del]

definition cache_acquire :: "qstring \<Rightarrow> qstring \<Rightarrow> int \<Rightarrow> 'c option res \<Rightarrow> 'c ctx_cache \<Rightarrow> 'c ctx_cache \<times> 'c res" where
  "cache_acquire k model needed create c = (case map_of (cc_entries c) k of
     Some e \<Rightarrow> (c\<lparr>cc_clock := cc_clock c + 1,
                   cc_entries := oput k (e\<lparr>ce_access := cc_clock c + 1\<rparr>) (cc_entries c)\<rparr>, Inr (ce_context e))
   | None \<Rightarrow>
       if \<not> needed \<le> cc_max_tokens c then (c, throw ResourceLimit ''Model context exceeds cache token budget'')
       else let c1 = evict_loop needed c in
         case create of
           Inl e \<Rightarrow> (c1, Inl e)
         | Inr None \<Rightarrow> (c1, throw RuntimeFailure ''Runtime returned a null context'')
         | Inr (Some ctx) \<Rightarrow>
             (c1\<lparr>cc_reserved := cc_reserved c1 + needed, cc_clock := cc_clock c1 + 1,
                 cc_entries := oput k \<lparr>ce_model = model, ce_reserved = needed, ce_access = cc_clock c1 + 1,
                   ce_context = ctx\<rparr> (cc_entries c1)\<rparr>, Inr ctx))"

text \<open>The loop of \<^verbatim>\<open>eraseModel\<close> over the entries.\<close>

fun erase_model_loop :: "qstring \<Rightarrow> (qstring, 'c cache_entry) omap \<Rightarrow> 'c ctx_cache \<Rightarrow> 'c ctx_cache" where
  "erase_model_loop model [] c = c"
| "erase_model_loop model ((k, e) # m) c =
     (if ce_model e = model
      then erase_model_loop model m (c\<lparr>cc_reserved := cc_reserved c - ce_reserved e,
             cc_evictions := cc_evictions c + 1, cc_entries := odel k (cc_entries c)\<rparr>)
      else erase_model_loop model m c)"

definition cache_erase_model :: "qstring \<Rightarrow> 'c ctx_cache \<Rightarrow> 'c ctx_cache" where
  "cache_erase_model model c = erase_model_loop model (cc_entries c) c"

definition cache_describe :: "'c ctx_cache \<Rightarrow> service_stats \<Rightarrow> service_stats" where
  "cache_describe c stats = stats\<lparr>cached_contexts := int (length (cc_entries c)),
     reserved_context_tokens := cc_reserved c, cache_evictions := cc_evictions c\<rparr>"

section \<open>Invariant\<close>

definition cache_inv :: "'c ctx_cache \<Rightarrow> bool" where
  "cache_inv c \<longleftrightarrow> owf (cc_entries c) \<and> 1 \<le> cc_max_count c \<and> 0 \<le> cc_max_tokens c
     \<and> int (length (cc_entries c)) \<le> cc_max_count c
     \<and> cc_reserved c = (\<Sum>(k, e)\<leftarrow>cc_entries c. ce_reserved e)
     \<and> cc_reserved c \<le> cc_max_tokens c \<and> (\<forall>(k, e) \<in> set (cc_entries c). 0 \<le> ce_reserved e)"

lemma erase_inv:
  assumes inv: "cache_inv c"
  shows "cache_inv (cache_erase k c)"
proof (cases "map_of (cc_entries c) k")
  case None
  with inv show ?thesis by (simp add: cache_erase_def)
next
  case (Some e)
  have wf: "owf (cc_entries c)" using inv by (simp add: cache_inv_def)
  have "0 \<le> ce_reserved e" using inv map_of_SomeD [OF Some] by (auto simp: cache_inv_def)
  moreover have "\<forall>(j, f) \<in> set (odel k (cc_entries c)). 0 \<le> ce_reserved f"
    using inv set_odel [of k "cc_entries c"] by (auto simp: cache_inv_def)
  ultimately show ?thesis
    using inv wf om.total_del [OF wf Some, of "\<lambda>(k, e). ce_reserved e"] om.length_del [OF wf Some] Some
    by (simp add: cache_inv_def cache_erase_def)
qed

lemma evictions_inv [simp]: "cache_inv (c\<lparr>cc_evictions := n\<rparr>) = cache_inv c"
  by (simp add: cache_inv_def)

lemma erase_params [simp]:
  "cc_max_count (cache_erase k c) = cc_max_count c" "cc_max_tokens (cache_erase k c) = cc_max_tokens c"
  "cc_clock (cache_erase k c) = cc_clock c"
  by (simp_all add: cache_erase_def split: option.split)

lemma erase_entries: "map_of (cc_entries (cache_erase k c)) = (map_of (cc_entries c))(k := None)"
  by (auto simp: cache_erase_def fun_eq_iff split: option.split)

text \<open>What each eviction keeps, the loop keeps; and it ends with its condition false.\<close>

lemma evict_loop_keeps:
  assumes "P c" and "\<And>c. P c \<Longrightarrow> must_evict needed c \<Longrightarrow> P (evict_oldest c)"
  shows "P (evict_loop needed c)"
proof -
  have "P c \<Longrightarrow> (\<And>c. P c \<Longrightarrow> must_evict n c \<Longrightarrow> P (evict_oldest c)) \<Longrightarrow> P (evict_loop n c)" for n c
  proof (induction n c rule: evict_loop.induct)
    case (1 n c)
    show ?case
    proof (cases "must_evict n c")
      case True
      have "P (evict_oldest c)" using "1.prems" True by blast
      from "1.IH" [OF True this "1.prems"(2)] show ?thesis using True by (simp add: evict_loop.simps [of n c])
    next
      case False
      then show ?thesis using "1.prems"(1) by (simp add: evict_loop.simps [of n c])
    qed
  qed
  then show ?thesis using assms by blast
qed

lemma evict_loop_done: "\<not> must_evict needed (evict_loop needed c)"
proof (induction needed c rule: evict_loop.induct)
  case (1 needed c)
  then show ?case by (cases "must_evict needed c") (simp_all add: evict_loop.simps [of needed c])
qed

lemma evict_oldest_params [simp]:
  "cc_max_count (evict_oldest c) = cc_max_count c" "cc_max_tokens (evict_oldest c) = cc_max_tokens c"
  "cc_clock (evict_oldest c) = cc_clock c"
  by (simp_all add: evict_oldest_def split: list.split)

lemma evict_oldest_inv: "cache_inv c \<Longrightarrow> cache_inv (evict_oldest c)"
  by (simp add: evict_oldest_def erase_inv split: list.split)

lemma evict_loop_inv: "cache_inv c \<Longrightarrow> cache_inv (evict_loop needed c)"
  by (rule evict_loop_keeps [where P = cache_inv]) (auto intro: evict_oldest_inv)

lemma evict_loop_params [simp]:
  "cc_max_count (evict_loop needed c) = cc_max_count c"
  "cc_max_tokens (evict_loop needed c) = cc_max_tokens c"
  "cc_clock (evict_loop needed c) = cc_clock c"
proof -
  have "cc_max_count (evict_loop needed c) = cc_max_count c \<and> cc_max_tokens (evict_loop needed c) = cc_max_tokens c
      \<and> cc_clock (evict_loop needed c) = cc_clock c"
    by (rule evict_loop_keeps [where P = "\<lambda>d. cc_max_count d = cc_max_count c
        \<and> cc_max_tokens d = cc_max_tokens c \<and> cc_clock d = cc_clock c"]) simp_all
  then show "cc_max_count (evict_loop needed c) = cc_max_count c"
    "cc_max_tokens (evict_loop needed c) = cc_max_tokens c"
    "cc_clock (evict_loop needed c) = cc_clock c" by simp_all
qed

text \<open>The loop ends with room for one more entry.\<close>

lemma evict_loop_room:
  assumes "cache_inv c" and "needed \<le> cc_max_tokens c"
  shows "int (length (cc_entries (evict_loop needed c))) < cc_max_count c
     \<and> cc_reserved (evict_loop needed c) + needed \<le> cc_max_tokens c"
  using evict_loop_inv [OF assms(1), of needed] evict_loop_done [of needed c] assms(2)
  by (cases "cc_entries (evict_loop needed c) = []")
    (auto simp: must_evict_def cache_inv_def size_t_def split: if_splits)

lemma evict_oldest_look:
  "map_of (cc_entries (evict_oldest c)) j = map_of (cc_entries c) j \<or> map_of (cc_entries (evict_oldest c)) j = None"
  by (auto simp: evict_oldest_def erase_entries split: list.split)

lemma evict_loop_look:
  "map_of (cc_entries (evict_loop needed c)) j = map_of (cc_entries c) j
     \<or> map_of (cc_entries (evict_loop needed c)) j = None"
  by (rule evict_loop_keeps [where P = "\<lambda>d. map_of (cc_entries d) j = map_of (cc_entries c) j
        \<or> map_of (cc_entries d) j = None"]) (simp, metis evict_oldest_look)

lemma cache_acquire_inv:
  assumes inv: "cache_inv c" and "0 \<le> needed"
  shows "cache_inv (fst (cache_acquire k model needed create c))"
proof (cases "map_of (cc_entries c) k")
  case (Some e)
  have wf: "owf (cc_entries c)" using inv by (simp add: cache_inv_def)
  let ?e = "e\<lparr>ce_access := cc_clock c + 1\<rparr>"
  have "0 \<le> ce_reserved f" if "(j, f) \<in> set (oput k ?e (cc_entries c))" for j f
  proof -
    have "(j, f) = (k, ?e) \<or> (j, f) \<in> set (cc_entries c)"
      using that by (auto simp: om.mem_items wf split: if_splits)
    then show ?thesis using inv map_of_SomeD [OF Some] by (auto simp: cache_inv_def)
  qed
  then show ?thesis
    using inv wf om.total_put_old [OF wf Some, of "\<lambda>(k, e). ce_reserved e" ?e]
      om.length_put_old [OF wf Some, of ?e] Some
    by (auto simp: cache_acquire_def cache_inv_def)
next
  case None
  define c1 where "c1 = evict_loop needed c"
  have c1: "cache_inv c1" "cc_max_count c1 = cc_max_count c" "cc_max_tokens c1 = cc_max_tokens c"
    using evict_loop_inv [OF inv, of needed] by (simp_all add: c1_def)
  have wf: "owf (cc_entries c1)" using c1(1) by (simp add: cache_inv_def)
  have fresh: "map_of (cc_entries c1) k = None" using evict_loop_look [of needed c k] None by (simp add: c1_def)
  have "cache_inv (c1\<lparr>cc_reserved := cc_reserved c1 + needed, cc_clock := cc_clock c1 + 1,
      cc_entries := oput k \<lparr>ce_model = model, ce_reserved = needed, ce_access = cc_clock c1 + 1,
        ce_context = ctx\<rparr> (cc_entries c1)\<rparr>)" if "needed \<le> cc_max_tokens c" for ctx
  proof -
    let ?e = "\<lparr>ce_model = model, ce_reserved = needed, ce_access = cc_clock c1 + 1, ce_context = ctx\<rparr>"
    have "0 \<le> ce_reserved f" if "(j, f) \<in> set (oput k ?e (cc_entries c1))" for j f
    proof -
      have "(j, f) = (k, ?e) \<or> (j, f) \<in> set (cc_entries c1)"
        using that by (auto simp: om.mem_items wf split: if_splits)
      then show ?thesis using c1(1) assms(2) by (auto simp: cache_inv_def)
    qed
    moreover have "int (length (cc_entries c1)) < cc_max_count c" "cc_reserved c1 + needed \<le> cc_max_tokens c"
      using evict_loop_room [OF inv that] by (simp_all add: c1_def)
    ultimately show ?thesis
      using c1 wf om.total_put_fresh [OF wf fresh, of "\<lambda>(k, e). ce_reserved e" ?e]
        om.length_put_fresh [OF wf fresh, of ?e]
      by (auto simp: cache_inv_def)
  qed
  then show ?thesis
    using None inv c1 by (auto simp: cache_acquire_def Let_def simp flip: c1_def split: sum.split option.split)
qed

lemma erase_model_step:
  assumes "map_of (cc_entries c) k = Some e"
  shows "c\<lparr>cc_reserved := cc_reserved c - ce_reserved e, cc_evictions := cc_evictions c + 1,
      cc_entries := odel k (cc_entries c)\<rparr> = (cache_erase k c)\<lparr>cc_evictions := cc_evictions c + 1\<rparr>"
  using assms by (simp add: cache_erase_def)

lemma erase_model_loop_spec:
  assumes "cache_inv c" and "distinct (okeys m)" and "\<forall>(k, e) \<in> set m. map_of (cc_entries c) k = Some e"
  shows "cache_inv (erase_model_loop model m c) \<and> cc_max_count (erase_model_loop model m c) = cc_max_count c
    \<and> cc_max_tokens (erase_model_loop model m c) = cc_max_tokens c
    \<and> map_of (cc_entries (erase_model_loop model m c)) k =
        (if \<exists>e. (k, e) \<in> set m \<and> ce_model e = model then None else map_of (cc_entries c) k)"
  using assms
proof (induction model m c rule: erase_model_loop.induct)
  case (1 model c)
  then show ?case by simp
next
  case (2 model j e m c)
  have here: "map_of (cc_entries c) j = Some e" and fresh: "j \<notin> set (okeys m)" using "2.prems" by auto
  show ?case
  proof (cases "ce_model e = model")
    case True
    let ?c = "(cache_erase j c)\<lparr>cc_evictions := cc_evictions c + 1\<rparr>"
    have step: "erase_model_loop model ((j, e) # m) c = erase_model_loop model m ?c"
      using True erase_model_step [OF here] by simp
    have "\<forall>(k, e) \<in> set m. map_of (cc_entries ?c) k = Some e"
      using "2.prems"(3) fresh by (force simp: erase_entries)
    then show ?thesis
      using "2.IH"(1) [OF True] "2.prems"(1,2) True fresh
      by (auto simp: step erase_model_step [OF here] erase_inv erase_entries image_iff)
  next
    case False
    then show ?thesis using "2.IH"(2) [OF False] "2.prems" fresh by (auto simp: image_iff)
  qed
qed

lemma cache_erase_model_spec:
  assumes "cache_inv c"
  shows "cache_inv (cache_erase_model model c) \<and> cc_max_count (cache_erase_model model c) = cc_max_count c
    \<and> cc_max_tokens (cache_erase_model model c) = cc_max_tokens c
    \<and> map_of (cc_entries (cache_erase_model model c)) k =
        (case map_of (cc_entries c) k of None \<Rightarrow> None | Some e \<Rightarrow> if ce_model e = model then None else Some e)"
proof -
  have wf: "owf (cc_entries c)" using assms by (simp add: cache_inv_def)
  then have "\<forall>(k, e) \<in> set (cc_entries c). map_of (cc_entries c) k = Some e"
    using om.mem_items by fastforce
  from erase_model_loop_spec [OF assms owf_distinct [OF wf] this, of model k] show ?thesis
    by (auto simp: cache_erase_model_def om.mem_items wf split: option.split)
qed

section \<open>The cache as a context store\<close>

abbreviation cache_look :: "'c ctx_cache \<Rightarrow> qstring \<Rightarrow> 'c option" where
  "cache_look c k \<equiv> map_option ce_context (map_of (cc_entries c) k)"

interpretation cs: context_store "\<lambda>k. cache_acquire k model (int needed) create" cache_erase cache_look cache_inv
  for model needed create
proof unfold_locales
  fix c :: "'a ctx_cache" and c' k j ctx r
  assume inv: "cache_inv c"
  show "cache_acquire k model (int needed) create c = (c', Inr ctx) \<Longrightarrow> cache_look c' k = Some ctx"
    by (auto simp: cache_acquire_def Let_def split: option.splits sum.splits if_splits)
  show "cache_look c k = Some ctx \<Longrightarrow>
      \<exists>c'. cache_acquire k model (int needed) create c = (c', Inr ctx) \<and> cache_look c' = cache_look c"
    by (auto simp: cache_acquire_def fun_eq_iff)
  show "cache_inv (fst (cache_acquire k model (int needed) create c))"
    using cache_acquire_inv [OF inv, of "int needed" k model create] by simp
  show "cache_inv (cache_erase k c)" using inv by (rule erase_inv)
  show "cache_look (cache_erase k c) = (cache_look c)(k := None)"
    by (auto simp: erase_entries fun_eq_iff)
  show "cache_look c' j = cache_look c j \<or> cache_look c' j = None"
    if "cache_acquire k model (int needed) create c = (c', r)" "j \<noteq> k"
    using that evict_loop_look [of "int needed" c j]
    by (auto simp: cache_acquire_def Let_def split: option.splits sum.splits if_splits)
qed

section \<open>Properties\<close>

datatype 'c cache_op =
    CacheAcquire qstring qstring nat "'c option res"
  | CacheErase qstring
  | CacheEraseModel qstring

fun cache_apply :: "'c cache_op \<Rightarrow> 'c ctx_cache \<Rightarrow> 'c ctx_cache" where
  "cache_apply (CacheAcquire k model needed create) c = fst (cache_acquire k model (int needed) create c)"
| "cache_apply (CacheErase k) c = cache_erase k c"
| "cache_apply (CacheEraseModel model) c = cache_erase_model model c"

lemma cache_apply_inv:
  "cache_inv c \<Longrightarrow> cache_inv (cache_apply a c) \<and> cc_max_count (cache_apply a c) = cc_max_count c
     \<and> cc_max_tokens (cache_apply a c) = cc_max_tokens c"
proof (cases a)
  case (CacheAcquire k model needed create)
  assume inv: "cache_inv c"
  have "cc_max_count (fst (cache_acquire k model (int needed) create c)) = cc_max_count c
      \<and> cc_max_tokens (fst (cache_acquire k model (int needed) create c)) = cc_max_tokens c"
    by (auto simp: cache_acquire_def Let_def split: option.split sum.split)
  then show ?thesis using cache_acquire_inv [OF inv, of "int needed" k model create] CacheAcquire by simp
qed (simp_all add: erase_inv cache_erase_model_spec)

lemma cache_run_inv:
  "cache_inv c \<Longrightarrow> cache_inv (fold cache_apply as c) \<and> cc_max_count (fold cache_apply as c) = cc_max_count c
     \<and> cc_max_tokens (fold cache_apply as c) = cc_max_tokens c"
  by (induction as arbitrary: c) (simp_all add: cache_apply_inv)

text \<open>
  C35. Whatever sequence of acquisitions, failed ones included, and erasures a cache of at least
  one context serves, it never holds more contexts than its limit nor reserves more tokens than
  its budget, and its token counter is exactly the sum over its entries.
\<close>

theorem cache_within_limits:
  assumes "1 \<le> count" and "0 \<le> tokens"
  shows "let c = fold cache_apply as (make_cache count tokens) in
    int (length (cc_entries c)) \<le> count \<and> cc_reserved c \<le> tokens
    \<and> cc_reserved c = (\<Sum>(k, e)\<leftarrow>cc_entries c. ce_reserved e) \<and> distinct (okeys (cc_entries c))"
proof -
  have "cache_inv (make_cache count tokens)" using assms by (simp add: cache_inv_def make_cache_def)
  from cache_run_inv [OF this, of as] show ?thesis
    by (simp add: Let_def cache_inv_def owf_distinct) (simp add: make_cache_def)
qed

lemma least_recent_min: "q \<in> set (p # m) \<Longrightarrow> ce_access (snd (least_recent p m)) \<le> ce_access (snd q)"
proof (induction p m arbitrary: q rule: least_recent.induct)
  case (1 best)
  then show ?case by simp
next
  case (2 best p m)
  show ?case
  proof (cases "ce_access (snd p) < ce_access (snd best)")
    case True
    have "ce_access (snd (least_recent p m)) \<le> ce_access (snd p)" using "2.IH"(1) [OF True, of p] by simp
    then show ?thesis using True "2.IH"(1) [OF True, of q] "2.prems" by auto
  next
    case False
    have "ce_access (snd (least_recent best m)) \<le> ce_access (snd best)" using "2.IH"(2) [OF False, of best] by simp
    then show ?thesis using False "2.IH"(2) [OF False, of q] "2.prems" by auto
  qed
qed

definition older_gone :: "'c ctx_cache \<Rightarrow> 'c ctx_cache \<Rightarrow> bool" where
  "older_gone c d \<longleftrightarrow> owf (cc_entries d) \<and> (\<forall>j f. map_of (cc_entries d) j = Some f \<longrightarrow> map_of (cc_entries c) j = Some f)
     \<and> (\<forall>i e. map_of (cc_entries c) i = Some e \<and> map_of (cc_entries d) i = None \<longrightarrow>
          (\<forall>j f. map_of (cc_entries d) j = Some f \<longrightarrow> ce_access e \<le> ce_access f))"

lemma older_gone_step:
  assumes old: "older_gone c d" and must: "must_evict needed d"
  shows "older_gone c (evict_oldest d)"
proof -
  obtain p m where d: "cc_entries d = p # m" using must by (cases "cc_entries d") (auto simp: must_evict_def)
  obtain k v where kv: "least_recent p m = (k, v)" by fastforce
  have wf: "owf (cc_entries d)" using old by (simp add: older_gone_def)
  have mem: "(k, v) \<in> set (cc_entries d)" using least_recent_mem [of p m] by (simp only: d kv)
  have min: "ce_access v \<le> ce_access f" if "map_of (cc_entries d) j = Some f" for j f
    using least_recent_min [of "(j, f)" p m] map_of_SomeD [OF that] by (simp only: d kv snd_conv)
  have v: "map_of (cc_entries d) k = Some v" using mem om.mem_items [OF wf] by simp
  have step: "evict_oldest d = (cache_erase k d)\<lparr>cc_evictions := cc_evictions d + 1\<rparr>"
    by (simp add: evict_oldest_def d kv)
  then have look: "map_of (cc_entries (evict_oldest d)) = (map_of (cc_entries d))(k := None)"
    by (simp add: erase_entries)
  have "cc_entries (evict_oldest d) = odel k (cc_entries d)"
    using v step by (simp add: cache_erase_def)
  then have "owf (cc_entries (evict_oldest d))" using wf by simp
  moreover have "ce_access e \<le> ce_access f"
    if "map_of (cc_entries c) i = Some e" "map_of (cc_entries (evict_oldest d)) i = None"
      "map_of (cc_entries (evict_oldest d)) j = Some f" for i e j f
  proof (cases "i = k")
    case True
    then have "e = v" using that(1) v old by (simp add: older_gone_def)
    then show ?thesis using that(3) min by (simp add: look split: if_splits)
  next
    case False
    then show ?thesis using that old unfolding older_gone_def look by (simp split: if_splits)
  qed
  ultimately show ?thesis using old unfolding older_gone_def look by (auto split: if_splits)
qed

text \<open>
  A context is reused while it is cached: acquiring it again evicts nothing and yields the
  same context. Acquiring a new one only evicts entries that were used no later than every entry
  that stays.
\<close>

theorem cache_reuse_and_eviction:
  assumes "cache_inv c" and "cache_acquire k model (int needed) create c = (c', r)"
  shows "(\<forall>ctx. cache_look c k = Some ctx \<longrightarrow> r = Inr ctx \<and> cache_look c' = cache_look c)
    \<and> (cache_look c k = None \<longrightarrow>
        (\<forall>i e j f. map_of (cc_entries c) i = Some e \<and> map_of (cc_entries c') i = None
           \<and> map_of (cc_entries c') j = Some f \<and> j \<noteq> k \<longrightarrow> ce_access e \<le> ce_access f))"
proof -
  have hit: "r = Inr ctx \<and> cache_look c' = cache_look c" if "cache_look c k = Some ctx" for ctx
    using cs.acquire_hit [OF assms(1) that, of model needed create] assms(2) by auto
  define c1 where "c1 = evict_loop (int needed) c"
  have "owf (cc_entries c)" using assms(1) by (simp add: cache_inv_def)
  then have "older_gone c c" by (auto simp: older_gone_def)
  then have old: "older_gone c c1"
    unfolding c1_def by (rule evict_loop_keeps) (rule older_gone_step)
  have older: "ce_access e \<le> ce_access f"
    if "cache_look c k = None" "map_of (cc_entries c) i = Some e" "map_of (cc_entries c') i = None"
      "map_of (cc_entries c') j = Some f" "j \<noteq> k" for i e j f
  proof (cases "int needed \<le> cc_max_tokens c")
    case False
    then show ?thesis using assms(2) that by (simp add: cache_acquire_def)
  next
    case True
    have "cc_entries c' = cc_entries c1 \<or> (\<exists>x. cc_entries c' = oput k x (cc_entries c1))"
      using assms(2) that(1) True
      by (auto simp: cache_acquire_def Let_def simp flip: c1_def split: sum.splits option.splits)
    then have "map_of (cc_entries c1) i = None" "map_of (cc_entries c1) j = Some f"
      using that(3-5) by (auto split: if_splits)
    then show ?thesis using old that(2) unfolding older_gone_def by blast
  qed
  show ?thesis
  proof (intro conjI allI impI)
    fix ctx assume "cache_look c k = Some ctx"
    then show "r = Inr ctx" and "cache_look c' = cache_look c" using hit by blast+
  next
    fix i e j f
    assume "cache_look c k = None" and "map_of (cc_entries c) i = Some e \<and> map_of (cc_entries c') i = None
      \<and> map_of (cc_entries c') j = Some f \<and> j \<noteq> k"
    then show "ce_access e \<le> ce_access f" using older by (elim conjE) assumption+
  qed
qed

section \<open>Concrete runs\<close>

definition sample_ops :: "nat cache_op list" where
  "sample_ops = [CacheAcquire (qs ''a'') (qs ''m'') 10 (Inr (Some 1)),
     CacheAcquire (qs ''b'') (qs ''m'') 10 (Inr (Some 2)), CacheAcquire (qs ''c'') (qs ''m'') 10 (Inr (Some 3))]"

definition sample_cache :: "nat ctx_cache" where
  "sample_cache = fold cache_apply sample_ops (make_cache 2 100)"

lemma sample_cache_eval: "sample_cache = \<lparr>cc_max_count = 2, cc_max_tokens = 100, cc_reserved = 20,
   cc_clock = 3, cc_evictions = 1, cc_entries =
    [(qs ''b'', \<lparr>ce_model = qs ''m'', ce_reserved = 10, ce_access = 2, ce_context = 2\<rparr>),
     (qs ''c'', \<lparr>ce_model = qs ''m'', ce_reserved = 10, ce_access = 3, ce_context = 3\<rparr>)]\<rparr>"
  by (simp add: sample_cache_def sample_ops_def make_cache_def cache_acquire_def evict_loop.simps must_evict_def size_t_def
      evict_oldest_def cache_erase_def)

theorem cache_within_limits_witness: "cc_reserved sample_cache \<le> 100 \<and> length (cc_entries sample_cache) \<le> 2"
  using cache_within_limits [of 2 100 sample_ops] by (simp add: Let_def sample_cache_def)

theorem cache_reuse_and_eviction_witness:
  "snd (cache_acquire (qs ''b'') (qs ''m'') (int 10) (Inr (Some 9)) sample_cache) = Inr 2"
proof -
  have inv: "cache_inv sample_cache" by (simp add: sample_cache_eval cache_inv_def owf_def)
  obtain c' r where acq: "cache_acquire (qs ''b'') (qs ''m'') (int 10) (Inr (Some 9)) sample_cache = (c', r)"
    by fastforce
  have "cache_look sample_cache (qs ''b'') = Some 2" by (simp add: sample_cache_eval)
  with cache_reuse_and_eviction [OF inv acq] have "r = Inr 2" by blast
  then show ?thesis by (simp only: acq snd_conv)
qed

end
