(* ===== verification/Sessions.thy ===== *)
theory Sessions
  imports GenerationRules
begin

text \<open>
  Chat sessions and the preparation of prompts (\<^verbatim>\<open>SessionManager\<close>,
  \<^verbatim>\<open>PromptEngine\<close> in \<^verbatim>\<open>src/service/Managers.h\<close>,
  \<^verbatim>\<open>src/service/Managers.cpp\<close>). The tokenizer of the loaded model is an argument, as is
  what the cancellation token answers at each check, numbered in the order of the checks.
\<close>

section \<open>Sessions\<close>

record session_manager =
  sm_limit :: int
  sm_sessions :: "(qstring, session_snapshot) omap"

text \<open>
  \<open>fresh\<close> is the identifier \<^verbatim>\<open>QUuid::createUuid\<close> draws; \<^verbatim>\<open>emplace\<close> keeps
  an entry that already has the key.
\<close>

definition session_create :: "qstring \<Rightarrow> qstring \<Rightarrow> qstring \<Rightarrow> session_manager \<Rightarrow> (session_manager \<times> qstring) res" where
  "session_create fresh model system sm =
     (if \<not> int (length (sm_sessions sm)) < size_t (sm_limit sm) then throw ResourceLimit ''Session limit reached''
      else Inr (if ohas (sm_sessions sm) fresh then sm
        else sm\<lparr>sm_sessions := oput fresh \<lparr>sess_id = fresh, sess_model_id = model,
          sess_messages = (if system \<noteq> [] then [\<lparr>msg_role = System, msg_content = system\<rparr>] else [])\<rparr>
          (sm_sessions sm)\<rparr>, fresh))"

definition session_get :: "session_manager \<Rightarrow> qstring \<Rightarrow> session_snapshot res" where
  "session_get sm k = (case map_of (sm_sessions sm) k of
     None \<Rightarrow> throw NotFound ''Session not found'' | Some s \<Rightarrow> Inr s)"

definition keep_system :: "chat_message list \<Rightarrow> chat_message list" where
  "keep_system ms = (case ms of [] \<Rightarrow> [] | m # _ \<Rightarrow> if msg_role m = System then [m] else [])"

definition session_reset :: "qstring \<Rightarrow> session_manager \<Rightarrow> session_manager res" where
  "session_reset k sm = bindr (session_get sm k) (\<lambda>s.
     Inr (sm\<lparr>sm_sessions := oput k (s\<lparr>sess_messages := keep_system (sess_messages s)\<rparr>) (sm_sessions sm)\<rparr>))"

definition session_close :: "qstring \<Rightarrow> session_manager \<Rightarrow> session_manager res" where
  "session_close k sm = bindr (session_get sm k) (\<lambda>_. Inr (sm\<lparr>sm_sessions := odel k (sm_sessions sm)\<rparr>))"

definition session_uses_model :: "session_manager \<Rightarrow> qstring \<Rightarrow> bool" where
  "session_uses_model sm model \<longleftrightarrow> (\<exists>(k, s) \<in> set (sm_sessions sm). sess_model_id s = model)"

definition session_size :: "session_manager \<Rightarrow> int" where
  "session_size sm = int (length (sm_sessions sm))"

section \<open>Preparing a prompt\<close>

record prepared_chat =
  pc_messages :: "chat_message list"
  pc_tokens :: token_list
  pc_dropped :: int

definition user_message :: "qstring \<Rightarrow> chat_message" where
  "user_message text = \<lparr>msg_role = User, msg_content = text\<rparr>"

definition first_turn :: "chat_message list \<Rightarrow> nat" where
  "first_turn ms = (case ms of [] \<Rightarrow> 0 | m # _ \<Rightarrow> if msg_role m = System then 1 else 0)"

text \<open>\<^verbatim>\<open>messages.remove(firstTurn, 2)\<close>.\<close>

definition drop_turn :: "nat \<Rightarrow> chat_message list \<Rightarrow> chat_message list" where
  "drop_turn first ms = take first ms @ drop (first + 2) ms"

function prepare_loop :: "(nat \<Rightarrow> bool) \<Rightarrow> (chat_message list \<Rightarrow> token_list res) \<Rightarrow> int \<Rightarrow> nat \<Rightarrow> nat \<Rightarrow>
    chat_message list \<Rightarrow> int \<Rightarrow> prepared_chat res" where
  "prepare_loop cancelled tokenize budget first check ms dropped =
     (if cancelled check then throw Cancelled ''Request cancelled''
      else bindr (tokenize ms) (\<lambda>tokens.
        if tokens = [] then throw RuntimeFailure ''Tokenizer returned an empty prompt''
        else if int (length tokens) \<le> budget
        then Inr \<lparr>pc_messages = ms, pc_tokens = tokens, pc_dropped = dropped\<rparr>
        else if \<not> length ms > first + 2
        then throw ContextOverflow ''System prompt and newest turn do not fit the context with reserved output tokens''
        else prepare_loop cancelled tokenize budget first (Suc check) (drop_turn first ms) (dropped + 2)))"
  by pat_completeness auto
termination
  by (relation "measure (\<lambda>(_, _, _, _, _, ms, _). length ms)") (auto simp: drop_turn_def)

declare prepare_loop.simps [simp del]

definition chat_options_ok :: "generation_options \<Rightarrow> int \<Rightarrow> bool" where
  "chat_options_ok opts context_tokens \<longleftrightarrow> max_tokens opts > 0 \<and> max_tokens opts < context_tokens
     \<and> (case temperature opts of Dbl t \<Rightarrow> t \<ge> 0 \<and> t \<le> 10 | NonFinite \<Rightarrow> False)
     \<and> (case top_p opts of Dbl t \<Rightarrow> t > 0 \<and> t \<le> 1 | NonFinite \<Rightarrow> False)
     \<and> top_k opts \<ge> 0 \<and> length (stop opts) \<le> 16"

definition prepare_prompt :: "qt \<Rightarrow> catalog \<Rightarrow> (nat \<Rightarrow> bool) \<Rightarrow> (chat_message list \<Rightarrow> token_list res) \<Rightarrow> int \<Rightarrow>
    session_snapshot \<Rightarrow> chat_request \<Rightarrow> int \<Rightarrow> prepared_chat res" where
  "prepare_prompt q c cancelled tokenize context_tokens session request input_limit =
     (let opts = chat_options request in
      bindr (require (trimmed (chat_prompt request) \<noteq> [] \<and> int (length (chat_prompt request)) \<le> input_limit)
        InvalidArgument ''Prompt is empty or exceeds input limit'') (\<lambda>_.
      bindr (validate_generation_options q c opts []) (\<lambda>_.
      bindr (require (chat_options_ok opts context_tokens) InvalidArgument ''Invalid generation options'') (\<lambda>_.
      bindr (require (\<forall>s \<in> set (stop opts). s \<noteq> [] \<and> length s \<le> 1024) InvalidArgument ''Invalid stop string'') (\<lambda>_.
        let ms = sess_messages session @ [user_message (chat_prompt request)] in
          prepare_loop cancelled tokenize (context_tokens - max_tokens opts) (first_turn ms) 0 ms 0)))))"

section \<open>Lemmas\<close>

text \<open>What is left after \<open>n\<close> rounds.\<close>

definition remaining :: "nat \<Rightarrow> chat_message list \<Rightarrow> nat \<Rightarrow> chat_message list" where
  "remaining first ms n = take first ms @ drop (first + 2 * n) ms"

lemma drop_turn_remaining:
  "first + 2 * n \<le> length ms \<Longrightarrow> drop_turn first (remaining first ms n) = remaining first ms (Suc n)"
  by (simp add: drop_turn_def remaining_def min_def)

lemma remaining_0: "remaining first ms 0 = ms"
  by (simp add: remaining_def)

lemma length_remaining: "first + 2 * n \<le> length ms \<Longrightarrow> length (remaining first ms n) = length ms - 2 * n"
  by (simp add: remaining_def min_absorb2)

lemma prepare_loop_result:
  assumes "prepare_loop cancelled tokenize budget first check (remaining first ms n) (2 * int n) = Inr p"
    and "first + 2 * n \<le> length ms" and "first < length ms"
    and "n = 0 \<or> first + 2 * n < length ms"
  shows "\<exists>k \<ge> n. first + 2 * k < length ms \<and> p = \<lparr>pc_messages = remaining first ms k,
        pc_tokens = pc_tokens p, pc_dropped = 2 * int k\<rparr>
      \<and> tokenize (remaining first ms k) = Inr (pc_tokens p) \<and> pc_tokens p \<noteq> []
      \<and> int (length (pc_tokens p)) \<le> budget
      \<and> (\<forall>j. n \<le> j \<and> j < k \<longrightarrow> (\<exists>ts. tokenize (remaining first ms j) = Inr ts \<and> budget < int (length ts)))"
  using assms
proof (induction "length ms - 2 * n" arbitrary: n check rule: less_induct)
  case less
  let ?ms = "remaining first ms n"
  from less.prems(1) obtain ts where ts: "tokenize ?ms = Inr ts" "ts \<noteq> []"
    and cases: "int (length ts) \<le> budget \<and> p = \<lparr>pc_messages = ?ms, pc_tokens = ts, pc_dropped = 2 * int n\<rparr>
      \<or> budget < int (length ts) \<and> length ?ms > first + 2
        \<and> prepare_loop cancelled tokenize budget first (Suc check) (drop_turn first ?ms) (2 * int n + 2) = Inr p"
    by (subst (asm) prepare_loop.simps) (auto split: if_splits)
  from cases show ?case
  proof
    assume "int (length ts) \<le> budget \<and> p = \<lparr>pc_messages = ?ms, pc_tokens = ts, pc_dropped = 2 * int n\<rparr>"
    then show ?thesis using ts less.prems by (intro exI [of _ n]) auto
  next
    assume *: "budget < int (length ts) \<and> length ?ms > first + 2
        \<and> prepare_loop cancelled tokenize budget first (Suc check) (drop_turn first ?ms) (2 * int n + 2) = Inr p"
    have "length ?ms > first + 2" using * by blast
    then have len: "first + 2 * Suc n < length ms" using length_remaining [OF less.prems(2)] by arith
    have "prepare_loop cancelled tokenize budget first (Suc check) (remaining first ms (Suc n)) (2 * int (Suc n)) = Inr p"
      using * drop_turn_remaining [OF less.prems(2)] by (simp add: algebra_simps)
    moreover have "length ms - 2 * Suc n < length ms - 2 * n" using len by arith
    ultimately obtain k where k: "k \<ge> Suc n" "first + 2 * k < length ms"
      "p = \<lparr>pc_messages = remaining first ms k, pc_tokens = pc_tokens p, pc_dropped = 2 * int k\<rparr>"
      "tokenize (remaining first ms k) = Inr (pc_tokens p)" "pc_tokens p \<noteq> []"
      "int (length (pc_tokens p)) \<le> budget"
      "\<forall>j. Suc n \<le> j \<and> j < k \<longrightarrow> (\<exists>ts. tokenize (remaining first ms j) = Inr ts \<and> budget < int (length ts))"
      using less.hyps [of "Suc n"] len less.prems(3) by auto
    have "\<exists>ts. tokenize (remaining first ms j) = Inr ts \<and> budget < int (length ts)" if "n \<le> j" "j < k" for j
      using that k(7) ts * by (cases "j = n") auto
    then show ?thesis using k by (intro exI [of _ k]) auto
  qed
qed

lemma prepare_loop_overflow:
  assumes "prepare_loop cancelled tokenize budget first check (remaining first ms n) (2 * int n) = Inl (Error ContextOverflow m)"
    and "first + 2 * n < length ms" and "\<And>ms' m'. tokenize ms' \<noteq> Inl (Error ContextOverflow m')"
  shows "\<exists>k ts. n \<le> k \<and> first + 2 * k < length ms \<and> length ms \<le> first + 2 * k + 2
      \<and> tokenize (remaining first ms k) = Inr ts \<and> budget < int (length ts)"
  using assms
proof (induction "length ms - 2 * n" arbitrary: n check rule: less_induct)
  case less
  let ?ms = "remaining first ms n"
  from less.prems(1,3) obtain ts where ts: "tokenize ?ms = Inr ts" "budget < int (length ts)"
    and cases: "\<not> length ?ms > first + 2 \<or> length ?ms > first + 2
        \<and> prepare_loop cancelled tokenize budget first (Suc check) (drop_turn first ?ms) (2 * int n + 2)
            = Inl (Error ContextOverflow m)"
    by (subst (asm) prepare_loop.simps) (auto simp: throw_def bindr_Inl_iff split: if_splits)
  have len: "length ?ms = length ms - 2 * n" using length_remaining less.prems(2) by simp
  from cases show ?case
  proof
    assume "\<not> length ?ms > first + 2"
    then show ?thesis using ts less.prems(2) len by (intro exI [of _ n] exI [of _ ts]) auto
  next
    assume *: "length ?ms > first + 2
        \<and> prepare_loop cancelled tokenize budget first (Suc check) (drop_turn first ?ms) (2 * int n + 2)
            = Inl (Error ContextOverflow m)"
    have "length ?ms > first + 2" using * by blast
    then have n: "first + 2 * Suc n < length ms" using len by arith
    have "prepare_loop cancelled tokenize budget first (Suc check) (remaining first ms (Suc n)) (2 * int (Suc n))
        = Inl (Error ContextOverflow m)"
      using * drop_turn_remaining [of first n ms] less.prems(2) by (simp add: algebra_simps)
    moreover have "length ms - 2 * Suc n < length ms - 2 * n" using n by arith
    ultimately obtain k ts where "Suc n \<le> k" "first + 2 * k < length ms"
      "length ms \<le> first + 2 * k + 2" "tokenize (remaining first ms k) = Inr ts" "budget < int (length ts)"
      using less.hyps [of "Suc n" "Suc check"] n less.prems(3) by auto
    then show ?thesis by (intro exI [of _ k] exI [of _ ts]) auto
  qed
qed

lemma prepare_loop_total:
  assumes "\<And>n. \<not> cancelled n" and "\<And>ms. \<exists>ts. tokenize ms = Inr ts \<and> ts \<noteq> []"
    and "prepare_loop cancelled tokenize budget first check ms dropped = Inl e"
  shows "\<exists>m. e = Error ContextOverflow m"
  using assms
proof (induction cancelled tokenize budget first check ms dropped rule: prepare_loop.induct)
  case (1 cancelled tokenize budget first check ms dropped)
  obtain ts where ts: "tokenize ms = Inr ts" "ts \<noteq> []" using "1.prems"(2) by blast
  show ?case
  proof (cases "\<not> int (length ts) \<le> budget \<and> length ms > first + 2")
    case True
    then have run: "prepare_loop cancelled tokenize budget first (Suc check) (drop_turn first ms) (dropped + 2) = Inl e"
      using "1.prems"(1,3) ts by (subst (asm) prepare_loop.simps) simp
    show ?thesis
      by (rule "1.IH" [OF _ ts(1) ts(2) _ _ _ _ run]) (use True "1.prems"(1,2) in simp_all)
  next
    case False
    then show ?thesis
      using "1.prems"(1,3) ts by (subst (asm) prepare_loop.simps) (auto simp: throw_def split: if_splits)
  qed
qed

section \<open>Properties\<close>

lemma first_turn_less: "first_turn (ms @ [user_message t]) < length (ms @ [user_message t])"
  by (cases ms) (simp_all add: first_turn_def user_message_def)

lemma remaining_last:
  "first + 2 * k < length (ms @ [x]) \<Longrightarrow> \<exists>us. remaining first (ms @ [x]) k = us @ [x]"
  by (simp add: remaining_def)

text \<open>
  C36. A prepared prompt keeps the leading system message and ends with the newest user message;
  between them whole turns were dropped from the oldest on, as few as possible: what is left fits
  the context beside the reserved output, and every longer suffix of the history did not.
\<close>

theorem prepared_prompt_fits:
  assumes "prepare_prompt q c cancelled tokenize context_tokens session request limit = Inr p"
  shows "\<exists>k. let ms = sess_messages session @ [user_message (chat_prompt request)]; first = first_turn ms;
        budget = context_tokens - max_tokens (chat_options request) in
      pc_messages p = take first ms @ drop (first + 2 * k) ms \<and> pc_dropped p = 2 * int k
      \<and> first + 2 * k < length ms \<and> last (pc_messages p) = user_message (chat_prompt request)
      \<and> tokenize (pc_messages p) = Inr (pc_tokens p) \<and> pc_tokens p \<noteq> []
      \<and> int (length (pc_tokens p)) \<le> budget
      \<and> (\<forall>j < k. \<exists>ts. tokenize (take first ms @ drop (first + 2 * j) ms) = Inr ts \<and> budget < int (length ts))"
proof -
  define ms where "ms = sess_messages session @ [user_message (chat_prompt request)]"
  define budget where "budget = context_tokens - max_tokens (chat_options request)"
  have "prepare_loop cancelled tokenize budget (first_turn ms) 0 (remaining (first_turn ms) ms 0) (2 * int 0) = Inr p"
    using assms by (simp add: prepare_prompt_def ms_def budget_def remaining_0 Let_def)
  from prepare_loop_result [OF this] first_turn_less [of "sess_messages session"]
  obtain k where k: "first_turn ms + 2 * k < length ms"
    "p = \<lparr>pc_messages = remaining (first_turn ms) ms k, pc_tokens = pc_tokens p, pc_dropped = 2 * int k\<rparr>"
    "tokenize (remaining (first_turn ms) ms k) = Inr (pc_tokens p)" "pc_tokens p \<noteq> []"
    "int (length (pc_tokens p)) \<le> budget"
    "\<forall>j. 0 \<le> j \<and> j < k \<longrightarrow> (\<exists>ts. tokenize (remaining (first_turn ms) ms j) = Inr ts \<and> budget < int (length ts))"
    by (auto simp: ms_def)
  obtain us where us: "remaining (first_turn ms) ms k = us @ [user_message (chat_prompt request)]"
    using remaining_last k(1) by (metis ms_def)
  have p: "pc_messages p = remaining (first_turn ms) ms k" "pc_dropped p = 2 * int k"
    by (subst k(2), simp)+
  show ?thesis
    using k(1,3-6) p us by (intro exI [of _ k]) (simp add: Let_def remaining_def flip: ms_def budget_def)
qed

text \<open>
  With a tokenizer that works and no cancellation, a valid request is refused only when the
  system message and the newest turn alone exceed the context.
\<close>

theorem prompt_refused_only_when_too_long:
  assumes "has_generation_group c" and "catalog_wf c" and "options_ok (chat_options request)"
    and "trimmed (chat_prompt request) \<noteq> []" and "int (length (chat_prompt request)) \<le> limit"
    and "max_tokens (chat_options request) < context_tokens"
    and "\<And>n. \<not> cancelled n" and "\<And>ms. \<exists>ts. tokenize ms = Inr ts \<and> ts \<noteq> []"
    and "prepare_prompt q c cancelled tokenize context_tokens session request limit = Inl e"
  shows "\<exists>k ts m. let ms = sess_messages session @ [user_message (chat_prompt request)]; first = first_turn ms in
      e = Error ContextOverflow m \<and> first + 2 * k < length ms \<and> length ms \<le> first + 2 * k + 2
      \<and> tokenize (take first ms @ drop (first + 2 * k) ms) = Inr ts
      \<and> context_tokens - max_tokens (chat_options request) < int (length ts)"
proof -
  define ms where "ms = sess_messages session @ [user_message (chat_prompt request)]"
  define budget where "budget = context_tokens - max_tokens (chat_options request)"
  have "validate_generation_options q c (chat_options request) [] = Inr ()"
    using generation_read(1) [OF assms(1-3), of q] by (simp add: validate_generation_options_def)
  then have run: "prepare_loop cancelled tokenize budget (first_turn ms) 0 (remaining (first_turn ms) ms 0) (2 * int 0) = Inl e"
    using assms(3-6,9)
    by (simp add: prepare_prompt_def ms_def budget_def remaining_0 Let_def require_def options_ok_def
        chat_options_ok_def dbl_in_def)
  obtain m where e: "e = Error ContextOverflow m"
    using prepare_loop_total [OF assms(7,8) run] by blast
  have "tokenize ms' \<noteq> Inl (Error ContextOverflow m')" for ms' m' using assms(8) [of ms'] by auto
  from prepare_loop_overflow [OF run [unfolded e] _ this] first_turn_less [of "sess_messages session"]
  obtain k ts where "first_turn ms + 2 * k < length ms" "length ms \<le> first_turn ms + 2 * k + 2"
    "tokenize (remaining (first_turn ms) ms k) = Inr ts" "budget < int (length ts)"
    by (auto simp: ms_def)
  then show ?thesis
    using e by (intro exI [of _ k] exI [of _ ts] exI [of _ m])
      (simp add: Let_def remaining_def flip: ms_def budget_def)
qed

section \<open>Concrete runs\<close>

definition count_tokens :: "chat_message list \<Rightarrow> token_list res" where
  "count_tokens ms = Inr (replicate (Suc (length ms)) 1)"

definition long_session :: session_snapshot where
  "long_session = \<lparr>sess_id = qs ''s'', sess_model_id = qs ''m'', sess_messages =
     [\<lparr>msg_role = System, msg_content = qs ''be brief''\<rparr>, user_message (qs ''one''),
      \<lparr>msg_role = Assistant, msg_content = qs ''1''\<rparr>, user_message (qs ''two''),
      \<lparr>msg_role = Assistant, msg_content = qs ''2''\<rparr>]\<rparr>"

definition short_request :: chat_request where
  "short_request = \<lparr>chat_session_id = qs ''s'', chat_prompt = qs ''three'',
     chat_options = default_generation_options\<lparr>max_tokens := 1\<rparr>, chat_keep_alive = - 1\<rparr>"

lemma short_request_ok: "options_ok (chat_options short_request)"
  by (simp add: short_request_def options_ok_def default_generation_options_def dbl_in_def)

lemma short_prompt: "trimmed (chat_prompt short_request) \<noteq> []"
  by (auto simp: trimmed_empty_iff short_request_def qs_def qc_def is_space_def)

lemma sample_prepare:
  "prepare_prompt no_regex generation_catalog (\<lambda>_. False) count_tokens 4 long_session short_request 100 =
   Inr \<lparr>pc_messages = [\<lparr>msg_role = System, msg_content = qs ''be brief''\<rparr>, user_message (qs ''three'')],
     pc_tokens = [1, 1, 1], pc_dropped = 4\<rparr>"
proof -
  have valid: "validate_generation_options no_regex generation_catalog (chat_options short_request) [] = Inr ()"
    using generation_read(1) [OF generation_catalog_ok short_request_ok, of no_regex]
    by (simp add: validate_generation_options_def)
  show ?thesis
    using short_prompt valid
    by (simp add: prepare_prompt_def require_def Let_def chat_options_ok_def prepare_loop.simps count_tokens_def
        drop_turn_def first_turn_def long_session_def)
      (simp add: short_request_def default_generation_options_def)
qed

theorem prepared_prompt_fits_witness:
  "\<exists>p. prepare_prompt no_regex generation_catalog (\<lambda>_. False) count_tokens 4 long_session short_request 100 = Inr p
     \<and> last (pc_messages p) = user_message (qs ''three'') \<and> int (length (pc_tokens p)) \<le> 3"
  using prepared_prompt_fits [OF sample_prepare] sample_prepare
  by (auto simp: Let_def short_request_def)

lemma sample_overflow:
  "prepare_prompt no_regex generation_catalog (\<lambda>_. False) count_tokens 3 long_session short_request 100 =
   throw ContextOverflow ''System prompt and newest turn do not fit the context with reserved output tokens''"
proof -
  have valid: "validate_generation_options no_regex generation_catalog (chat_options short_request) [] = Inr ()"
    using generation_read(1) [OF generation_catalog_ok short_request_ok, of no_regex]
    by (simp add: validate_generation_options_def)
  show ?thesis
    using short_prompt valid
    by (simp add: prepare_prompt_def require_def Let_def chat_options_ok_def prepare_loop.simps count_tokens_def
        drop_turn_def first_turn_def long_session_def)
      (simp add: short_request_def default_generation_options_def)
qed

theorem prompt_refused_only_when_too_long_witness:
  "\<exists>k ts. count_tokens (take 1 (sess_messages long_session @ [user_message (qs ''three'')])
       @ drop (1 + 2 * k) (sess_messages long_session @ [user_message (qs ''three'')])) = Inr ts \<and> 2 < length ts"
proof -
  have lim: "int (length (chat_prompt short_request)) \<le> 100" "max_tokens (chat_options short_request) < 3"
    by (simp_all add: short_request_def)
  have tok: "\<exists>ts. count_tokens ms = Inr ts \<and> ts \<noteq> []" for ms by (simp add: count_tokens_def)
  have first: "first_turn (sess_messages long_session @ [user_message (qs ''three'')]) = 1"
    by (simp add: first_turn_def long_session_def)
  have "chat_prompt short_request = qs ''three''" "max_tokens (chat_options short_request) = 1"
    by (simp_all add: short_request_def)
  then show ?thesis
    using prompt_refused_only_when_too_long [OF generation_catalog_ok short_request_ok short_prompt lim _ tok
      sample_overflow [unfolded throw_def]] first
    by (auto simp: Let_def)
qed

end
