(* ===== verification/Runtimes.thy ===== *)
theory Runtimes
  imports Memory Hardware
begin

text \<open>
  The registry of runtimes and the loading of a model on a device (\<^verbatim>\<open>RuntimeManager\<close> in
  \<^verbatim>\<open>src/service/Managers.h\<close>, \<^verbatim>\<open>src/service/Managers.cpp\<close>). A runtime is the
  record of its virtual functions; a loaded model is a value of a type variable. What the
  cancellation token answers is a function of the number of the check.
\<close>

record 'm runtime =
  rt_id :: qstring
  rt_supports :: "model_spec \<Rightarrow> bool"
  rt_devices :: "hardware_info \<Rightarrow> runtime_device list"
  rt_estimate :: "model_spec \<Rightarrow> int \<Rightarrow> memory_estimate res"
  rt_load :: "model_spec \<Rightarrow> runtime_device \<Rightarrow> 'm option res"

record 'm loaded_model =
  lm_spec :: model_spec
  lm_execution :: execution_selection
  lm_runtime :: 'm

record runtime_model_info =
  ri_spec :: model_spec
  ri_execution :: execution_selection

record 'm runtime_manager =
  rm_limit :: int
  rm_hardware :: hardware_info
  rm_runtimes :: "(qstring, 'm runtime) omap"
  rm_models :: "(qstring, 'm loaded_model) omap"

section \<open>Operations\<close>

definition make_runtimes :: "int \<Rightarrow> hardware_info \<Rightarrow> 'm runtime_manager" where
  "make_runtimes limit hw = \<lparr>rm_limit = limit, rm_hardware = hw, rm_runtimes = [], rm_models = []\<rparr>"

text \<open>The argument is \<^verbatim>\<open>None\<close> for a null pointer.\<close>

definition add_runtime :: "'m runtime option \<Rightarrow> 'm runtime_manager \<Rightarrow> 'm runtime_manager res" where
  "add_runtime rt rm = (case rt of
     None \<Rightarrow> throw InvalidArgument ''Runtime id is required''
   | Some r \<Rightarrow>
       if trimmed (rt_id r) = [] then throw InvalidArgument ''Runtime id is required''
       else if ohas (rm_runtimes rm) (rt_id r) then throw AlreadyExists ''Runtime already registered''
       else Inr (rm\<lparr>rm_runtimes := oput (rt_id r) r (rm_runtimes rm)\<rparr>))"

fun estimate_loop :: "model_spec \<Rightarrow> int \<Rightarrow> (qstring, 'm runtime) omap \<Rightarrow> memory_estimate option \<Rightarrow> memory_estimate option res" where
  "estimate_loop spec slots [] best = Inr best"
| "estimate_loop spec slots ((_, rt) # rts) best =
     (if \<not> rt_supports rt spec then estimate_loop spec slots rts best
      else bindr (rt_estimate rt spec slots) (\<lambda>e. case best of
          None \<Rightarrow> estimate_loop spec slots rts (Some e)
        | Some b \<Rightarrow> bindr (total_bytes e) (\<lambda>te. bindr (total_bytes b) (\<lambda>tb.
            estimate_loop spec slots rts (Some (if te > tb then e else b))))))"

definition manager_estimate :: "'m runtime_manager \<Rightarrow> model_spec \<Rightarrow> int \<Rightarrow> memory_estimate res" where
  "manager_estimate rm spec slots = bindr (estimate_loop spec slots (rm_runtimes rm) None) (\<lambda>best. case best of
     None \<Rightarrow> throw RuntimeUnavailable ''No installed runtime supports this model format''
   | Some e \<Rightarrow> bindr (total_bytes e) (\<lambda>n. if n > 0 then Inr e
       else throw RuntimeFailure ''Runtime returned an empty memory estimate''))"

definition forbidden_options :: "string list" where
  "forbidden_options = [''runtime'', ''backend'', ''device'', ''device_id'', ''gpu_layers'', ''n_gpu_layers'']"

text \<open>The supporting runtimes with their devices; one cancellation check per runtime.\<close>

fun collect_candidates :: "(nat \<Rightarrow> bool) \<Rightarrow> hardware_info \<Rightarrow> model_spec \<Rightarrow> nat \<Rightarrow> (qstring, 'm runtime) omap \<Rightarrow>
    (qstring \<times> 'm runtime \<times> runtime_device list) list res" where
  "collect_candidates cancelled hw spec check [] = Inr []"
| "collect_candidates cancelled hw spec check ((k, rt) # rts) =
     (if cancelled check then throw Cancelled ''Request cancelled''
      else if \<not> rt_supports rt spec then collect_candidates cancelled hw spec (Suc check) rts
      else bindr (collect_candidates cancelled hw spec (Suc check) rts) (\<lambda>more.
        Inr ((k, rt, rt_devices rt hw) # more)))"

definition selection_reason :: "compute_backend \<Rightarrow> qstring list \<Rightarrow> qstring" where
  "selection_reason b failures = (case b of
     Metal \<Rightarrow> qs ''Apple Silicon with usable Metal''
   | Cuda \<Rightarrow> qs ''NVIDIA GPU with usable CUDA''
   | Vulkan \<Rightarrow> qs ''AMD/Intel GPU with usable Vulkan''
   | Cpu \<Rightarrow> (if failures = [] then qs ''No policy-compatible GPU acceleration supported by this model runtime''
            else qs ''GPU model initialization failed; using CPU''))"

definition recoverable :: "error_code \<Rightarrow> bool" where
  "recoverable c \<longleftrightarrow> c = RuntimeUnavailable \<or> c = RuntimeFailure \<or> c = ResourceLimit"

definition failure_text :: "qstring \<Rightarrow> compute_backend \<Rightarrow> qstring \<Rightarrow> qstring" where
  "failure_text k b message = k @ qs ''/'' @ backend_name b @ qs '': '' @ message"

fun join_with :: "qstring \<Rightarrow> qstring list \<Rightarrow> qstring" where
  "join_with sep [] = []"
| "join_with sep [x] = x"
| "join_with sep (x # xs) = x @ sep @ join_with sep xs"

text \<open>What the \<^verbatim>\<open>try\<close> block of one attempt yields, the check after the load included.\<close>

definition load_attempt :: "(nat \<Rightarrow> bool) \<Rightarrow> nat \<Rightarrow> model_spec \<Rightarrow> runtime_device \<Rightarrow> 'm runtime \<Rightarrow> 'm res" where
  "load_attempt cancelled check spec d rt = bindr (rt_load rt spec d) (\<lambda>loaded.
     if cancelled check then throw Cancelled ''Request cancelled''
     else case loaded of None \<Rightarrow> throw RuntimeFailure ''Runtime returned a null model'' | Some m \<Rightarrow> Inr m)"

text \<open>The number of the check in the handler: no check follows a load that threw.\<close>

definition handler_check :: "nat \<Rightarrow> model_spec \<Rightarrow> runtime_device \<Rightarrow> 'm runtime \<Rightarrow> nat" where
  "handler_check check spec d rt = (case rt_load rt spec d of Inl _ \<Rightarrow> check + 1 | Inr _ \<Rightarrow> check + 2)"

text \<open>
  The two nested loops over devices and candidates, as the list of attempts they visit. Each
  attempt checks the token before the load, after it and, when the load threw the program's own
  exception, once more in the handler.
\<close>

fun try_loads :: "(nat \<Rightarrow> bool) \<Rightarrow> model_spec \<Rightarrow> nat \<Rightarrow> qstring list \<Rightarrow>
    (runtime_device \<times> qstring \<times> 'm runtime) list \<Rightarrow> (execution_selection \<times> 'm) res" where
  "try_loads cancelled spec check failures [] = throwq RuntimeUnavailable
     (qs ''No execution device could load the model: '' @ join_with (qs ''; '') failures)"
| "try_loads cancelled spec check failures ((d, k, rt) # others) =
     (if cancelled check then throw Cancelled ''Request cancelled''
      else case load_attempt cancelled (check + 1) spec d rt of
        Inr m \<Rightarrow> Inr (\<lparr>sel_runtime = k, sel_device = d, sel_reason = selection_reason (dev_backend d) failures,
                      sel_fallback_reasons = failures\<rparr>, m)
      | Inl (Error c message) \<Rightarrow>
          (if cancelled (handler_check check spec d rt) then throw Cancelled ''Request cancelled''
           else if dev_backend d = Cpu \<or> \<not> recoverable c then Inl (Error c message)
           else try_loads cancelled spec (handler_check check spec d rt + 1)
             (failures @ [failure_text k (dev_backend d) message]) others)
      | Inl e \<Rightarrow> Inl e)"

definition attempts :: "runtime_device list \<Rightarrow> (qstring \<times> 'm runtime \<times> runtime_device list) list \<Rightarrow>
    (runtime_device \<times> qstring \<times> 'm runtime) list" where
  "attempts ordered candidates = concat (map (\<lambda>d.
     map (\<lambda>(k, rt, _). (d, k, rt)) (filter (\<lambda>(_, _, ds). d \<in> set ds) candidates)) ordered)"

definition manager_load :: "(nat \<Rightarrow> bool) \<Rightarrow> (qstring \<Rightarrow> bool) \<Rightarrow> model_spec \<Rightarrow> 'm runtime_manager \<Rightarrow>
    ('m runtime_manager \<times> runtime_model_info) res" where
  "manager_load cancelled path_exists spec rm =
     bindr (require (trimmed (spec_id spec) \<noteq> [] \<and> trimmed (spec_path spec) \<noteq> [] \<and> spec_context_tokens spec > 1)
       InvalidArgument ''Model id, path and contextTokens > 1 are required'') (\<lambda>_.
     bindr (require (\<not> ohas (rm_models rm) (spec_id spec)) AlreadyExists ''Model already loaded'') (\<lambda>_.
     bindr (require (int (length (rm_models rm)) < size_t (rm_limit rm)) ResourceLimit ''Loaded model limit reached'') (\<lambda>_.
     bindr (require (\<forall>key \<in> set forbidden_options. \<not> jhas (spec_options spec) key) InvalidArgument
       ''Execution backend and device are selected by the service; remove model options overrides'') (\<lambda>_.
     bindr (collect_candidates cancelled (rm_hardware rm) spec 0 (rm_runtimes rm)) (\<lambda>candidates.
     if candidates = [] \<and> \<not> path_exists (spec_path spec) then throw NotFound ''Local model path not found''
     else bindr (require (candidates \<noteq> []) RuntimeUnavailable ''No installed runtime supports this local model format'') (\<lambda>_.
     let ordered = order_execution_devices (rm_hardware rm) (concat (map (\<lambda>(_, _, ds). ds) candidates)) in
     bindr (require (ordered \<noteq> []) RuntimeUnavailable ''No policy-compatible execution device is available for this model'') (\<lambda>_.
     bindr (try_loads cancelled spec (length (rm_runtimes rm)) [] (attempts ordered candidates)) (\<lambda>(selection, m).
       Inr (rm\<lparr>rm_models := oput (spec_id spec) \<lparr>lm_spec = spec, lm_execution = selection, lm_runtime = m\<rparr> (rm_models rm)\<rparr>,
            \<lparr>ri_spec = spec, ri_execution = selection\<rparr>)))))))))"

definition manager_get :: "'m runtime_manager \<Rightarrow> qstring \<Rightarrow> 'm loaded_model res" where
  "manager_get rm k = (case map_of (rm_models rm) k of None \<Rightarrow> throw NotFound ''Model not found'' | Some m \<Rightarrow> Inr m)"

definition manager_unload :: "qstring \<Rightarrow> 'm runtime_manager \<Rightarrow> 'm runtime_manager res" where
  "manager_unload k rm = bindr (manager_get rm k) (\<lambda>_. Inr (rm\<lparr>rm_models := odel k (rm_models rm)\<rparr>))"

definition manager_list :: "'m runtime_manager \<Rightarrow> runtime_model_info list" where
  "manager_list rm = map (\<lambda>(_, m). \<lparr>ri_spec = lm_spec m, ri_execution = lm_execution m\<rparr>) (rm_models rm)"

section \<open>What a successful load says\<close>

lemma collect_candidates_spec:
  "collect_candidates cancelled hw spec check rts = Inr cs \<Longrightarrow>
     cs = map (\<lambda>(k, rt). (k, rt, rt_devices rt hw)) (filter (\<lambda>(_, rt). rt_supports rt spec) rts)"
  by (induction cancelled hw spec check rts arbitrary: cs rule: collect_candidates.induct) (auto split: if_splits)

definition failed_with :: "model_spec \<Rightarrow> runtime_device \<times> qstring \<times> 'm runtime \<Rightarrow> qstring \<Rightarrow> bool" where
  "failed_with spec a text = (case a of (d, k, rt) \<Rightarrow> dev_backend d \<noteq> Cpu \<and>
     (\<exists>c m. recoverable c \<and> text = failure_text k (dev_backend d) m
        \<and> (rt_load rt spec d = Inl (Error c m) \<or> rt_load rt spec d = Inr None)))"

lemma load_attempt_error:
  assumes "load_attempt cancelled check spec d rt = Inl (Error c m)" and "recoverable c"
  shows "rt_load rt spec d = Inl (Error c m) \<or> rt_load rt spec d = Inr None"
proof (cases "rt_load rt spec d")
  case (Inl e)
  then show ?thesis using assms by (simp add: load_attempt_def)
next
  case (Inr x)
  then show ?thesis using assms
    by (cases x) (auto simp: load_attempt_def throw_def recoverable_def split: if_splits)
qed

lemma try_loads_success:
  assumes "try_loads cancelled spec check failures as = Inr (sel, m)"
  shows "\<exists>pre d k rt post texts. as = pre @ (d, k, rt) # post \<and> rt_load rt spec d = Inr (Some m)
     \<and> list_all2 (failed_with spec) pre texts
     \<and> sel = \<lparr>sel_runtime = k, sel_device = d, sel_reason = selection_reason (dev_backend d) (failures @ texts),
              sel_fallback_reasons = failures @ texts\<rparr>"
  using assms
proof (induction cancelled spec check failures as rule: try_loads.induct)
  case (1 cancelled spec check failures)
  then show ?case by simp
next
  case (2 cancelled spec check failures d k rt others)
  show ?case
  proof (cases "load_attempt cancelled (check + 1) spec d rt")
    case (Inr m')
    then have "rt_load rt spec d = Inr (Some m')"
      by (auto simp: load_attempt_def split: if_splits option.splits)
    then show ?thesis using 2(2) Inr
      by (intro exI [of _ "[]"] exI [of _ d] exI [of _ k] exI [of _ rt] exI [of _ others]) (auto split: if_splits)
  next
    case (Inl e)
    then obtain c msg where e: "e = Error c msg" and go: "\<not> cancelled check" "\<not> cancelled (handler_check check spec d rt)"
      "dev_backend d \<noteq> Cpu" "recoverable c"
      and rest: "try_loads cancelled spec (handler_check check spec d rt + 1) (failures @ [failure_text k (dev_backend d) msg]) others = Inr (sel, m)"
      using 2(2) by (cases e) (auto split: if_splits)
    have c: "\<not> (dev_backend d = Cpu \<or> \<not> recoverable c)" using go by simp
    from 2(1) [OF go(1) Inl [unfolded e] refl go(2) c rest] obtain pre d' k' rt' post texts where
      *: "others = pre @ (d', k', rt') # post" "rt_load rt' spec d' = Inr (Some m)"
      "list_all2 (failed_with spec) pre texts"
      "sel = \<lparr>sel_runtime = k', sel_device = d',
        sel_reason = selection_reason (dev_backend d') ((failures @ [failure_text k (dev_backend d) msg]) @ texts),
        sel_fallback_reasons = (failures @ [failure_text k (dev_backend d) msg]) @ texts\<rparr>"
      by blast
    have "failed_with spec (d, k, rt) (failure_text k (dev_backend d) msg)"
      using load_attempt_error [OF Inl [unfolded e] go(4)] go by (auto simp: failed_with_def)
    then show ?thesis using *
      by (intro exI [of _ "(d, k, rt) # pre"] exI [of _ d'] exI [of _ k'] exI [of _ rt'] exI [of _ post]
          exI [of _ "failure_text k (dev_backend d) msg # texts"]) simp
  qed
qed

lemma attempts_sorted:
  assumes "sorted_wrt R ds" and "\<And>d. R d d"
  shows "sorted_wrt (\<lambda>a b. R (fst a) (fst b)) (attempts ds cs)"
  using assms(1)
proof (induction ds)
  case Nil
  then show ?case by (simp add: attempts_def)
next
  case (Cons d ds)
  have block: "sorted_wrt (\<lambda>a b. R (fst a) (fst b)) (map (\<lambda>(k, rt, _). (d, k, rt)) xs)" for xs
    using assms(2) by (induction xs) auto
  have "R d (fst a)" if "a \<in> set (attempts ds cs)" for a
    using that Cons.prems by (auto simp: attempts_def)
  then show ?case
    using Cons block by (auto simp: attempts_def sorted_wrt_append split_beta)
qed

lemma attempts_member:
  "(d, k, rt) \<in> set (attempts ordered cs) \<longleftrightarrow> d \<in> set ordered \<and> (\<exists>ds. (k, rt, ds) \<in> set cs \<and> d \<in> set ds)"
  by (force simp: attempts_def)

abbreviation candidates_of :: "'m runtime_manager \<Rightarrow> model_spec \<Rightarrow> (qstring \<times> 'm runtime \<times> runtime_device list) list" where
  "candidates_of rm spec \<equiv> map (\<lambda>(k, rt). (k, rt, rt_devices rt (rm_hardware rm)))
     (filter (\<lambda>(_, rt). rt_supports rt spec) (rm_runtimes rm))"

definition load_order :: "'m runtime_manager \<Rightarrow> model_spec \<Rightarrow> (runtime_device \<times> qstring \<times> 'm runtime) list" where
  "load_order rm spec = attempts (order_execution_devices (rm_hardware rm)
     (concat (map (\<lambda>(_, _, ds). ds) (candidates_of rm spec)))) (candidates_of rm spec)"

lemma manager_load_success:
  assumes "manager_load cancelled path_exists spec rm = Inr (rm', info)"
  obtains sel m where "try_loads cancelled spec (length (rm_runtimes rm)) [] (load_order rm spec) = Inr (sel, m)"
    and "info = \<lparr>ri_spec = spec, ri_execution = sel\<rparr>"
    and "rm' = rm\<lparr>rm_models := oput (spec_id spec) \<lparr>lm_spec = spec, lm_execution = sel, lm_runtime = m\<rparr> (rm_models rm)\<rparr>"
    and "\<not> ohas (rm_models rm) (spec_id spec)" and "int (length (rm_models rm)) < size_t (rm_limit rm)"
  using assms unfolding manager_load_def load_order_def Let_def
  by (auto split: if_splits prod.splits dest!: collect_candidates_spec)

lemma gpu_first:
  assumes "load_order rm spec = pre @ (d, k, rt) # post" and "dev_backend d = Cpu"
    and "(d', k', rt') \<in> set (load_order rm spec)" and "dev_backend d' \<noteq> Cpu"
  shows "(d', k', rt') \<in> set pre"
proof -
  have "sorted_wrt (\<lambda>a b. dev_backend (fst a) = Cpu \<longrightarrow> dev_backend (fst b) = Cpu) (pre @ (d, k, rt) # post)"
    unfolding assms(1) [symmetric] load_order_def by (rule attempts_sorted [OF cpu_last]) simp
  then have "\<forall>b \<in> set post. dev_backend (fst b) = Cpu" using assms(2) by (simp add: sorted_wrt_append)
  then show ?thesis using assms by auto
qed

section \<open>Properties\<close>

text \<open>
  C37. A model is loaded by the first attempt of the policy order that works: a runtime that
  supports it, on a device it offers and the policy admits; every earlier attempt was on a GPU and
  failed with a recoverable error, and the failures are reported in that order. The CPU is used
  only after every GPU attempt of every supporting runtime has failed.
\<close>

theorem load_uses_first_working_device:
  assumes "manager_load cancelled path_exists spec rm = Inr (rm', info)"
  shows "\<exists>pre d k rt m post. load_order rm spec = pre @ (d, k, rt) # post
    \<and> rt_load rt spec d = Inr (Some m) \<and> rt_supports rt spec \<and> (k, rt) \<in> set (rm_runtimes rm)
    \<and> d \<in> set (rt_devices rt (rm_hardware rm)) \<and> eligible (rm_hardware rm) d
    \<and> sel_runtime (ri_execution info) = k \<and> sel_device (ri_execution info) = d
    \<and> list_all2 (failed_with spec) pre (sel_fallback_reasons (ri_execution info))
    \<and> (dev_backend d = Cpu \<longrightarrow> (\<forall>d' k' rt'. (d', k', rt') \<in> set (load_order rm spec)
          \<and> dev_backend d' \<noteq> Cpu \<longrightarrow> (d', k', rt') \<in> set pre))
    \<and> map_of (rm_models rm') (spec_id spec)
        = Some \<lparr>lm_spec = spec, lm_execution = ri_execution info, lm_runtime = m\<rparr>"
proof -
  obtain sel m where run: "try_loads cancelled spec (length (rm_runtimes rm)) [] (load_order rm spec) = Inr (sel, m)"
    and info: "info = \<lparr>ri_spec = spec, ri_execution = sel\<rparr>"
    and rm': "rm' = rm\<lparr>rm_models := oput (spec_id spec) \<lparr>lm_spec = spec, lm_execution = sel, lm_runtime = m\<rparr> (rm_models rm)\<rparr>"
    using manager_load_success [OF assms] by metis
  from try_loads_success [OF run] obtain pre d k rt post texts where
    *: "load_order rm spec = pre @ (d, k, rt) # post" "rt_load rt spec d = Inr (Some m)"
    "list_all2 (failed_with spec) pre texts" "sel_runtime sel = k" "sel_device sel = d"
    "sel_fallback_reasons sel = texts" by auto
  have "(d, k, rt) \<in> set (load_order rm spec)" using *(1) by simp
  then have "(k, rt) \<in> set (rm_runtimes rm)" "rt_supports rt spec"
    "d \<in> set (rt_devices rt (rm_hardware rm))" "eligible (rm_hardware rm) d"
    by (auto simp: load_order_def attempts_member order_set)
  moreover have "\<forall>d' k' rt'. (d', k', rt') \<in> set (load_order rm spec)
      \<and> dev_backend d' \<noteq> Cpu \<longrightarrow> (d', k', rt') \<in> set pre" if "dev_backend d = Cpu"
    using gpu_first [OF *(1) that] by blast
  moreover have "map_of (rm_models rm') (spec_id spec)
      = Some \<lparr>lm_spec = spec, lm_execution = ri_execution info, lm_runtime = m\<rparr>"
    by (simp add: info rm')
  moreover have "ri_execution info = sel" by (simp add: info)
  ultimately show ?thesis using *(1-3) *(4-6) by blast
qed

text \<open>
  Loading adds exactly the one model, within the limit on loaded models, and unloading it
  restores the manager; a second load of the same id is refused.
\<close>

theorem load_unload_roundtrip:
  assumes "owf (rm_models rm)" and "manager_load cancelled path_exists spec rm = Inr (rm', info)"
  shows "manager_unload (spec_id spec) rm' = Inr rm \<and> ok (manager_get rm' (spec_id spec))
    \<and> length (rm_models rm') = Suc (length (rm_models rm))
    \<and> int (length (rm_models rm')) \<le> size_t (rm_limit rm)
    \<and> \<not> ok (manager_load cancelled' path_exists' spec rm')"
proof -
  obtain sel m where rm': "rm' = rm\<lparr>rm_models := oput (spec_id spec) \<lparr>lm_spec = spec, lm_execution = sel, lm_runtime = m\<rparr> (rm_models rm)\<rparr>"
    and fresh: "\<not> ohas (rm_models rm) (spec_id spec)" and room: "int (length (rm_models rm)) < size_t (rm_limit rm)"
    using manager_load_success [OF assms(2)] by metis
  have none: "map_of (rm_models rm) (spec_id spec) = None" using fresh by (simp add: ohas_def)
  have "length (rm_models rm') = Suc (length (rm_models rm))"
    using om.length_put_fresh [OF assms(1) none] by (simp add: rm')
  moreover have "\<not> ok (manager_load cancelled' path_exists' spec rm')"
    by (auto simp: manager_load_def ok_bindr rm' ohas_def)
  ultimately show ?thesis
    using room odel_absent [OF none] by (simp add: manager_unload_def manager_get_def rm')
qed

lemma estimate_loop_spec:
  assumes "estimate_loop spec slots rts best = Inr (Some e)" and "total_bytes e = Inr te"
  shows "(best = Some e \<or> (\<exists>(k, rt) \<in> set rts. rt_supports rt spec \<and> rt_estimate rt spec slots = Inr e))
     \<and> (\<forall>b. best = Some b \<longrightarrow> (\<exists>t. total_bytes b = Inr t \<and> t \<le> te))
     \<and> (\<forall>(k, rt) \<in> set rts. rt_supports rt spec \<longrightarrow>
          (\<exists>e' t. rt_estimate rt spec slots = Inr e' \<and> total_bytes e' = Inr t \<and> t \<le> te))"
  using assms
proof (induction spec slots rts best rule: estimate_loop.induct)
  case (1 spec slots best)
  then show ?case by auto
next
  case (2 spec slots k rt rts best)
  show ?case
  proof (cases "rt_supports rt spec")
    case False
    with 2 show ?thesis by auto
  next
    case sup: True
    then obtain e0 where e0: "rt_estimate rt spec slots = Inr e0" using "2.prems" by auto
    show ?thesis
    proof (cases best)
      case None
      then have run: "estimate_loop spec slots rts (Some e0) = Inr (Some e)" using "2.prems" sup e0 by simp
      have "\<not> \<not> rt_supports rt spec" using sup by simp
      note IH = "2.IH"(2) [OF this e0 None run "2.prems"(2)]
      then obtain t where t: "total_bytes e0 = Inr t" "t \<le> te" by blast
      have "e0 = e \<or> (\<exists>(k, rt) \<in> set rts. rt_supports rt spec \<and> rt_estimate rt spec slots = Inr e)"
        using IH by simp
      then have "\<exists>(j, rt') \<in> set ((k, rt) # rts). rt_supports rt' spec \<and> rt_estimate rt' spec slots = Inr e"
        using sup e0 by auto
      moreover have "\<forall>(j, rt') \<in> set ((k, rt) # rts). rt_supports rt' spec \<longrightarrow>
          (\<exists>e' t. rt_estimate rt' spec slots = Inr e' \<and> total_bytes e' = Inr t \<and> t \<le> te)"
        using IH e0 t by simp
      ultimately show ?thesis using None by blast
    next
      case (Some b)
      then obtain x y where t: "total_bytes e0 = Inr x" "total_bytes b = Inr y"
        and run: "estimate_loop spec slots rts (Some (if x > y then e0 else b)) = Inr (Some e)"
        using "2.prems" sup e0 by auto
      have "\<not> \<not> rt_supports rt spec" using sup by simp
      note IH = "2.IH"(3) [OF this e0 Some t run "2.prems"(2)]
      have le: "x \<le> te \<and> y \<le> te"
        using IH t by (cases "x > y") auto
      have "best = Some e \<or> (\<exists>(j, rt') \<in> set ((k, rt) # rts). rt_supports rt' spec \<and> rt_estimate rt' spec slots = Inr e)"
        using IH sup e0 Some by (cases "x > y") auto
      moreover have "\<forall>(j, rt') \<in> set ((k, rt) # rts). rt_supports rt' spec \<longrightarrow>
          (\<exists>e' t. rt_estimate rt' spec slots = Inr e' \<and> total_bytes e' = Inr t \<and> t \<le> te)"
        using IH e0 t le by simp
      ultimately show ?thesis using Some t le by blast
    qed
  qed
qed

text \<open>
  The admission estimate is the largest one among the runtimes that support the model, so
  whichever of them loads it stays within the reservation; it is never empty.
\<close>

theorem estimate_is_largest:
  assumes "manager_estimate rm spec slots = Inr e"
  shows "\<exists>te. total_bytes e = Inr te \<and> 0 < te
    \<and> (\<exists>(k, rt) \<in> set (rm_runtimes rm). rt_supports rt spec \<and> rt_estimate rt spec slots = Inr e)
    \<and> (\<forall>(k, rt) \<in> set (rm_runtimes rm). rt_supports rt spec \<longrightarrow>
         (\<exists>e' t. rt_estimate rt spec slots = Inr e' \<and> total_bytes e' = Inr t \<and> t \<le> te))"
proof -
  obtain te where run: "estimate_loop spec slots (rm_runtimes rm) None = Inr (Some e)"
    and te: "total_bytes e = Inr te" "0 < te"
    using assms unfolding manager_estimate_def by (auto split: option.splits if_splits)
  from estimate_loop_spec [OF run te(1)] te show ?thesis by blast
qed

section \<open>Concrete runs\<close>

text \<open>A runtime whose GPU initialisation fails and whose CPU load works.\<close>

definition sample_runtime :: "nat runtime" where
  "sample_runtime = \<lparr>rt_id = qs ''demo'', rt_supports = \<lambda>_. True, rt_devices = \<lambda>_. sample_devices,
     rt_estimate = \<lambda>spec slots. Inr \<lparr>weights_bytes = 7, context_bytes = 2, overhead_bytes = 1, basis = []\<rparr>,
     rt_load = \<lambda>spec d. if dev_backend d = Cpu then Inr (Some 42)
       else throw RuntimeFailure ''no device''\<rparr>"

definition sample_manager :: "nat runtime_manager" where
  "sample_manager = \<lparr>rm_limit = 2, rm_hardware = sample_hardware, rm_runtimes = [(qs ''demo'', sample_runtime)],
     rm_models = []\<rparr>"

definition sample_spec :: model_spec where
  "sample_spec = \<lparr>spec_id = qs ''m'', spec_path = qs ''/m.gguf'', spec_context_tokens = 2048, spec_options = [],
     spec_format = qs ''gguf'', spec_projector_path = []\<rparr>"

lemma sample_order: "order_execution_devices sample_hardware sample_devices
   = [\<lparr>dev_backend = Cuda, dev_id = qs ''b''\<rparr>, \<lparr>dev_backend = Cuda, dev_id = qs ''a''\<rparr>,
      \<lparr>dev_backend = Vulkan, dev_id = qs ''c''\<rparr>, \<lparr>dev_backend = Cpu, dev_id = []\<rparr>]"
  by (simp add: order_execution_devices_def sample_hardware_def sample_devices_def
      detect_hardware_def empty_hardware_def sample_gpu_def
      rank_device_def find_gpu_def rank_gpu_def gpu_memory_def rank_key_def)

lemma sample_load: "\<exists>rm' info. manager_load (\<lambda>_. False) (\<lambda>_. True) sample_spec sample_manager = Inr (rm', info)
   \<and> dev_backend (sel_device (ri_execution info)) = Cpu"
proof -
  have "trimmed (qs ''m'') \<noteq> []" "trimmed (qs ''/m.gguf'') \<noteq> []"
    by (rule trimmed_nonempty [of "qc CHR ''m''"]; simp add: qs_def qc_def is_space_def)+
  then show ?thesis
    by (simp add: manager_load_def sample_manager_def sample_spec_def sample_runtime_def require_def
        forbidden_options_def jhas_def ohas_def size_t_def sample_order attempts_def load_attempt_def
        throw_def recoverable_def)
      (simp add: sample_devices_def)
qed

theorem load_uses_first_working_device_witness:
  "\<exists>rm' info (pre :: (runtime_device \<times> qstring \<times> nat runtime) list).
     manager_load (\<lambda>_. False) (\<lambda>_. True) sample_spec sample_manager = Inr (rm', info)
     \<and> list_all2 (failed_with sample_spec) pre (sel_fallback_reasons (ri_execution info))"
proof -
  obtain rm' info where run: "manager_load (\<lambda>_. False) (\<lambda>_. True) sample_spec sample_manager = Inr (rm', info)"
    using sample_load by blast
  from load_uses_first_working_device [OF run] run show ?thesis by blast
qed

theorem load_unload_roundtrip_witness:
  "\<exists>rm' info. manager_load (\<lambda>_. False) (\<lambda>_. True) sample_spec sample_manager = Inr (rm', info)
     \<and> manager_unload (qs ''m'') rm' = Inr sample_manager"
proof -
  obtain rm' info where run: "manager_load (\<lambda>_. False) (\<lambda>_. True) sample_spec sample_manager = Inr (rm', info)"
    using sample_load by blast
  have "owf (rm_models sample_manager)" "spec_id sample_spec = qs ''m''"
    by (simp_all add: sample_manager_def sample_spec_def)
  with load_unload_roundtrip [OF _ run] run show ?thesis by auto
qed

theorem estimate_is_largest_witness:
  "\<exists>te. total_bytes \<lparr>weights_bytes = 7, context_bytes = 2, overhead_bytes = 1, basis = []\<rparr> = Inr te \<and> 0 < te"
proof -
  have "manager_estimate sample_manager sample_spec 1
      = Inr \<lparr>weights_bytes = 7, context_bytes = 2, overhead_bytes = 1, basis = []\<rparr>"
    by (simp add: manager_estimate_def sample_manager_def sample_runtime_def total_bytes_sum)
  from estimate_is_largest [OF this] show ?thesis by blast
qed

end
