(* ===== verification/Manifest.thy ===== *)
theory Manifest
  imports Types
begin

text \<open>
  Model identifiers and manifests (\<^verbatim>\<open>src/models/ModelManifest.h\<close>,
  \<^verbatim>\<open>src/models/ModelManifest.cpp\<close>): the syntax of portable ids, the checks of a manifest,
  its printing and the JSON reports of the catalog. Unicode case folding
  (\<^verbatim>\<open>toCaseFolded\<close>) is the argument \<open>folded\<close>. The lower-casing of a digest and the
  test for the suffix .onnx are the ASCII ones: no other character lower-cases to a hexadecimal
  digit or to a letter of that suffix.
\<close>

section \<open>Data\<close>

record model_file =
  mf_path :: qstring
  mf_size :: int
  mf_sha256 :: qstring

record model_manifest =
  mm_id :: qstring
  mm_architecture :: qstring
  mm_format :: qstring
  mm_quantization :: qstring
  mm_context_length :: int
  mm_capabilities :: "qstring list"
  mm_entry_point :: qstring
  mm_files :: "model_file list"
  mm_projector :: qstring

record model_record =
  mr_uri :: qstring
  mr_manifest :: model_manifest
  mr_loaded :: bool

record catalog_issue =
  ci_directory :: qstring
  ci_code :: error_code
  ci_message :: qstring

record model_listing =
  ml_models :: "model_record list"
  ml_issues :: "catalog_issue list"

record model_verification =
  mv_model :: qstring
  mv_valid :: bool
  mv_checked_files :: int
  mv_checked_bytes :: int
  mv_issues :: "qstring list"

section \<open>Identifiers\<close>

definition is_lower :: "qchar \<Rightarrow> bool" where
  "is_lower c \<longleftrightarrow> 97 \<le> c \<and> c \<le> 122"

definition is_alnum :: "qchar \<Rightarrow> bool" where
  "is_alnum c \<longleftrightarrow> is_lower c \<or> is_digit c"

definition is_id_char :: "qchar \<Rightarrow> bool" where
  "is_id_char c \<longleftrightarrow> is_alnum c \<or> c = 46 \<or> c = 95 \<or> c = 45"

text \<open>\<^verbatim>\<open>^[a-z0-9](?:[a-z0-9._-]{0,126}[a-z0-9])?$\<close>\<close>

definition id_syntax :: "qstring \<Rightarrow> bool" where
  "id_syntax id0 = (let s = before_dollar id0 in
     s \<noteq> [] \<and> length s \<le> 128 \<and> is_alnum (hd s) \<and> is_alnum (last s) \<and> (\<forall>c \<in> set s. is_id_char c))"

definition device_names :: "qstring list" where
  "device_names = map qs ([''con'', ''prn'', ''aux'', ''nul'']
     @ map (\<lambda>d. ''com'' @ [d]) ''123456789'' @ map (\<lambda>d. ''lpt'' @ [d]) ''123456789'')"

text \<open>\<^verbatim>\<open>^(con|prn|aux|nul|com[1-9]|lpt[1-9])(?:\.|$)\<close>\<close>

definition id_reserved :: "qstring \<Rightarrow> bool" where
  "id_reserved s \<longleftrightarrow> (\<exists>name \<in> set device_names. starts_with name s
     \<and> (let rest = drop (length name) s in rest = [] \<or> rest = [10] \<or> hd rest = 46))"

definition valid_id :: "qstring \<Rightarrow> bool" where
  "valid_id s \<longleftrightarrow> id_syntax s \<and> \<not> id_reserved s"

definition uri_prefix :: qstring where
  "uri_prefix = qs ''model://''"

definition model_uri :: "qstring \<Rightarrow> qstring res" where
  "model_uri s = (if \<not> valid_id s then throw InvalidArgument ''Invalid portable model id''
     else Inr (uri_prefix @ s))"

definition model_id :: "qstring \<Rightarrow> qstring res" where
  "model_id uri = (if \<not> starts_with uri_prefix uri \<or> \<not> valid_id (drop 8 uri)
     then throw InvalidArgument ''Expected a canonical model://id without paths, query, fragment or escaping''
     else Inr (drop 8 uri))"

section \<open>Manifests\<close>

definition text_field :: "json_object \<Rightarrow> string \<Rightarrow> nat \<Rightarrow> qstring res" where
  "text_field obj field limit = (let v = jvalue obj field in
     if is_string v \<and> trimmed (to_string v) \<noteq> [] \<and> length (to_string v) \<le> limit then Inr (to_string v)
     else throw InvalidManifest (field @ '' must be a nonempty bounded string''))"

definition relative_file :: "qstring \<Rightarrow> bool" where
  "relative_file path \<longleftrightarrow> path \<noteq> [] \<and> length path \<le> 1024 \<and> hd path \<noteq> 47 \<and> 92 \<notin> set path
     \<and> 58 \<notin> set path \<and> 0 \<notin> set path
     \<and> (\<forall>part \<in> set (split_on 47 path). part \<noteq> [] \<and> part \<noteq> qs ''.'' \<and> part \<noteq> qs ''..''
          \<and> last part \<noteq> 46 \<and> last part \<noteq> 32)"

definition manifest_fields :: "qstring list" where
  "manifest_fields = map qs [''schema_version'', ''id'', ''architecture'', ''format'', ''quantization'',
     ''context_length'', ''capabilities'', ''entry_point'', ''files'', ''projector'']"

definition is_name_char :: "qchar \<Rightarrow> bool" where
  "is_name_char c \<longleftrightarrow> is_alnum c \<or> c = 45"

text \<open>\<^verbatim>\<open>^[a-z][a-z0-9-]*$\<close>, and with \<^verbatim>\<open>{0,63}\<close> for capabilities.\<close>

definition name_syntax :: "qstring \<Rightarrow> bool" where
  "name_syntax s0 = (let s = before_dollar s0 in s \<noteq> [] \<and> is_lower (hd s) \<and> (\<forall>c \<in> set s. is_name_char c))"

definition capability_syntax :: "qstring \<Rightarrow> bool" where
  "capability_syntax s \<longleftrightarrow> name_syntax s \<and> length (before_dollar s) \<le> 64"

definition is_hex :: "qchar \<Rightarrow> bool" where
  "is_hex c \<longleftrightarrow> is_digit c \<or> (97 \<le> c \<and> c \<le> 102)"

definition digest_syntax :: "qstring \<Rightarrow> bool" where
  "digest_syntax s \<longleftrightarrow> length (before_dollar s) = 64 \<and> (\<forall>c \<in> set (before_dollar s). is_hex c)"

definition ends_with_ci :: "string \<Rightarrow> qstring \<Rightarrow> bool" where
  "ends_with_ci suffix s \<longleftrightarrow> ends_with (qs suffix) (to_lower s)"

definition add_capability :: "json \<Rightarrow> qstring list \<Rightarrow> qstring list res" where
  "add_capability v caps =
     (if is_string v \<and> capability_syntax (to_string v) \<and> to_string v \<notin> set caps then Inr (caps @ [to_string v])
      else throw InvalidManifest ''Invalid or duplicate capability'')"

definition add_file :: "(qstring \<Rightarrow> qstring) \<Rightarrow> json \<Rightarrow> model_file list \<Rightarrow> model_file list res" where
  "add_file folded v files =
     (if \<not> is_object v then throw InvalidManifest ''Each file record must be an object''
      else let file = to_object v in
        if length file \<noteq> 3 then throw InvalidManifest ''File records require only path, size and sha256''
        else bindr (text_field file ''path'' 1024) (\<lambda>path.
          if ends_with_ci ''.onnx'' path then throw InvalidManifest ''ONNX models are not supported''
          else if \<not> (relative_file path \<and> path \<noteq> qs ''manifest.json''
              \<and> folded path \<notin> set (map (folded \<circ> mf_path) files))
          then throwq InvalidManifest (qs ''Invalid or colliding file path: '' @ path)
          else let size = jvalue file ''size'' in
            if \<not> (is_double size \<and> to_double size \<ge> 0 \<and> to_double size \<le> 9007199254740991
                \<and> of_int \<lfloor>to_double size\<rfloor> = to_double size)
            then throw InvalidManifest ''Invalid file size''
            else bindr (text_field file ''sha256'' 64) (\<lambda>sha.
              if \<not> digest_syntax (to_lower sha) then throw InvalidManifest ''Invalid SHA-256''
              else Inr (files @ [\<lparr>mf_path = path, mf_size = \<lfloor>to_double size\<rfloor>, mf_sha256 = to_lower sha\<rparr>]))))"

definition entry_point_of :: "json_object \<Rightarrow> qstring \<Rightarrow> qstring res" where
  "entry_point_of obj format =
     (if jhas obj ''entry_point'' then text_field obj ''entry_point'' 1024
      else if format = qs ''gguf'' then Inr (qs ''model.gguf'')
      else if format = qs ''mlx'' then Inr (qs ''.'')
      else throw InvalidManifest ''Custom formats require an explicit entry_point'')"

definition projector_of :: "json_object \<Rightarrow> qstring \<Rightarrow> qstring \<Rightarrow> qstring res" where
  "projector_of obj format entry =
     (if \<not> jhas obj ''projector'' then Inr []
      else bindr (text_field obj ''projector'' 1024) (\<lambda>p.
        if ends_with_ci ''.onnx'' p then throw InvalidManifest ''ONNX models are not supported''
        else if format = qs ''gguf'' \<and> relative_file p \<and> p \<noteq> entry then Inr p
        else throw InvalidManifest ''projector must be a separate GGUF inside the model package''))"

definition check_fields :: "json_object \<Rightarrow> unit res" where
  "check_fields obj = fold_res (\<lambda>(k, _) _. if k \<in> set manifest_fields then Inr ()
     else throwq InvalidManifest (qs ''Unknown manifest field: '' @ k)) obj ()"

definition parse_model_manifest :: "(qstring \<Rightarrow> qstring) \<Rightarrow> json_object \<Rightarrow> model_manifest res" where
  "parse_model_manifest folded obj =
     bindr (check_fields obj) (\<lambda>_.
     let version = jvalue obj ''schema_version'' in
     bindr (require (version = JUndefined \<or> version = JNum 1) InvalidManifest ''Unsupported manifest schema_version'') (\<lambda>_.
     bindr (text_field obj ''id'' 128) (\<lambda>mid.
     bindr (require (valid_id mid) InvalidManifest ''Invalid portable manifest id'') (\<lambda>_.
     bindr (text_field obj ''architecture'' 128) (\<lambda>architecture.
     bindr (text_field obj ''format'' 32) (\<lambda>format.
     bindr (require (name_syntax format) InvalidManifest ''Invalid format name'') (\<lambda>_.
     bindr (require (format \<noteq> qs ''onnx'') InvalidManifest ''ONNX models are not supported'') (\<lambda>_.
     bindr (text_field obj ''quantization'' 64) (\<lambda>quantization.
     let context = jvalue obj ''context_length'' in
     bindr (require (is_double context \<and> to_double context = of_int (to_int context 0)
         \<and> to_int context 0 \<ge> 2 \<and> to_int context 0 \<le> 1024 * 1024)
       InvalidManifest ''context_length must be an integer in [2, 1048576]'') (\<lambda>_.
     let capabilities = jvalue obj ''capabilities'' in
     bindr (require (is_array capabilities \<and> to_array capabilities \<noteq> [] \<and> length (to_array capabilities) \<le> 32)
       InvalidManifest ''capabilities must contain 1 to 32 names'') (\<lambda>_.
     bindr (fold_res add_capability (to_array capabilities) []) (\<lambda>caps.
     bindr (entry_point_of obj format) (\<lambda>entry.
     bindr (require ((entry = qs ''.'' \<and> format = qs ''mlx'') \<or> relative_file entry)
       InvalidManifest ''entry_point must remain inside the model package'') (\<lambda>_.
     bindr (require (\<not> ends_with_ci ''.onnx'' entry) InvalidManifest ''ONNX models are not supported'') (\<lambda>_.
     bindr (projector_of obj format entry) (\<lambda>projector.
     let files = jvalue obj ''files'' in
     bindr (require (files = JUndefined \<or> is_array files) InvalidManifest ''files must be an array'') (\<lambda>_.
     bindr (require (length (to_array files) \<le> 10000) InvalidManifest ''Too many manifest files'') (\<lambda>_.
     bindr (fold_res (add_file folded) (to_array files) []) (\<lambda>fs.
       Inr \<lparr>mm_id = mid, mm_architecture = architecture, mm_format = format, mm_quantization = quantization,
         mm_context_length = to_int context 0, mm_capabilities = caps, mm_entry_point = entry, mm_files = fs,
         mm_projector = projector\<rparr>)))))))))))))))))))"

definition file_object :: "model_file \<Rightarrow> json" where
  "file_object f = JObj (jobj [(''path'', JStr (mf_path f)), (''size'', JNum (of_int (mf_size f))),
     (''sha256'', JStr (mf_sha256 f))])"

definition manifest_object :: "model_manifest \<Rightarrow> bool \<Rightarrow> json_object" where
  "manifest_object m include_files =
     (let out0 = jobj [(''schema_version'', JNum 1), (''id'', JStr (mm_id m)), (''architecture'', JStr (mm_architecture m)),
            (''format'', JStr (mm_format m)), (''quantization'', JStr (mm_quantization m)),
            (''context_length'', JNum (of_int (mm_context_length m))), (''capabilities'', jstrings (mm_capabilities m)),
            (''entry_point'', JStr (mm_entry_point m))];
          out1 = (if mm_projector m \<noteq> [] then oput (qs ''projector'') (JStr (mm_projector m)) out0 else out0)
      in if include_files then oput (qs ''files'') (JArr (map file_object (mm_files m))) out1 else out1)"

definition model_record_object :: "model_record \<Rightarrow> json_object" where
  "model_record_object m = jobj [(''model'', JStr (mr_uri m)),
     (''manifest'', JObj (manifest_object (mr_manifest m) False)), (''loaded'', JBool (mr_loaded m))]"

definition model_listing_object :: "model_listing \<Rightarrow> json_object" where
  "model_listing_object l = jobj
     [(''models'', JArr (map (\<lambda>m. JObj (model_record_object m)) (ml_models l))),
      (''issues'', JArr (map (\<lambda>i. JObj (jobj [(''directory'', JStr (ci_directory i)),
         (''code'', JStr (error_name (ci_code i))), (''message'', JStr (ci_message i))])) (ml_issues l)))]"

definition verification_object :: "model_verification \<Rightarrow> json_object" where
  "verification_object v = jobj [(''model'', JStr (mv_model v)), (''valid'', JBool (mv_valid v)),
     (''checked_files'', JNum (of_int (mv_checked_files v))),
     (''checked_bytes'', JNum (of_int (mv_checked_bytes v))), (''issues'', jstrings (mv_issues v))]"

section \<open>What a parsed manifest satisfies\<close>

lemma text_field_Inr:
  "text_field obj field n = Inr s \<longleftrightarrow> jvalue obj field = JStr s \<and> trimmed s \<noteq> [] \<and> length s \<le> n"
  by (cases "jvalue obj field") (auto simp: text_field_def Let_def)

definition file_ok :: "model_file \<Rightarrow> bool" where
  "file_ok f \<longleftrightarrow> trimmed (mf_path f) \<noteq> [] \<and> length (mf_path f) \<le> 1024 \<and> \<not> ends_with_ci ''.onnx'' (mf_path f)
     \<and> relative_file (mf_path f) \<and> mf_path f \<noteq> qs ''manifest.json''
     \<and> 0 \<le> mf_size f \<and> mf_size f \<le> 9007199254740991
     \<and> trimmed (mf_sha256 f) \<noteq> [] \<and> length (mf_sha256 f) \<le> 64 \<and> digest_syntax (mf_sha256 f)
     \<and> to_lower (mf_sha256 f) = mf_sha256 f"

definition files_ok :: "(qstring \<Rightarrow> qstring) \<Rightarrow> model_file list \<Rightarrow> bool" where
  "files_ok folded fs \<longleftrightarrow> (\<forall>f \<in> set fs. file_ok f) \<and> distinct (map (folded \<circ> mf_path) fs)"

definition manifest_ok :: "(qstring \<Rightarrow> qstring) \<Rightarrow> model_manifest \<Rightarrow> bool" where
  "manifest_ok folded m \<longleftrightarrow>
     trimmed (mm_id m) \<noteq> [] \<and> length (mm_id m) \<le> 128 \<and> valid_id (mm_id m)
     \<and> trimmed (mm_architecture m) \<noteq> [] \<and> length (mm_architecture m) \<le> 128
     \<and> trimmed (mm_format m) \<noteq> [] \<and> length (mm_format m) \<le> 32 \<and> name_syntax (mm_format m) \<and> mm_format m \<noteq> qs ''onnx''
     \<and> trimmed (mm_quantization m) \<noteq> [] \<and> length (mm_quantization m) \<le> 64
     \<and> 2 \<le> mm_context_length m \<and> mm_context_length m \<le> 1024 * 1024
     \<and> mm_capabilities m \<noteq> [] \<and> length (mm_capabilities m) \<le> 32 \<and> distinct (mm_capabilities m)
     \<and> (\<forall>c \<in> set (mm_capabilities m). capability_syntax c)
     \<and> trimmed (mm_entry_point m) \<noteq> [] \<and> length (mm_entry_point m) \<le> 1024
     \<and> (mm_entry_point m = qs ''.'' \<and> mm_format m = qs ''mlx'' \<or> relative_file (mm_entry_point m))
     \<and> \<not> ends_with_ci ''.onnx'' (mm_entry_point m)
     \<and> (mm_projector m = [] \<or> trimmed (mm_projector m) \<noteq> [] \<and> length (mm_projector m) \<le> 1024
          \<and> \<not> ends_with_ci ''.onnx'' (mm_projector m) \<and> mm_format m = qs ''gguf''
          \<and> relative_file (mm_projector m) \<and> mm_projector m \<noteq> mm_entry_point m)
     \<and> length (mm_files m) \<le> 10000 \<and> files_ok folded (mm_files m)"

lemma jvalue_jobj: "distinct (map fst kvs) \<Longrightarrow>
    jvalue (jobj kvs) k = (case map_of kvs k of None \<Rightarrow> JUndefined | Some v \<Rightarrow> v)"
  by (simp add: jvalue_def map_of_jobj)

lemma fold_capabilities:
  "distinct caps \<Longrightarrow> fold_res add_capability vs caps = Inr caps' \<longleftrightarrow>
     (\<exists>ss. vs = map JStr ss \<and> caps' = caps @ ss \<and> distinct (caps @ ss) \<and> (\<forall>s \<in> set ss. capability_syntax s))"
proof (induction vs arbitrary: caps)
  case Nil
  then show ?case by auto
next
  case (Cons v vs)
  show ?case
  proof (cases "add_capability v caps")
    case (Inl e)
    then have "\<not> (\<exists>s. v = JStr s \<and> capability_syntax s \<and> s \<notin> set caps)"
      by (auto simp: add_capability_def split: if_splits)
    then show ?thesis using Inl by (auto simp: Cons_eq_map_conv)
  next
    case (Inr c)
    then obtain s where s: "v = JStr s" "capability_syntax s" "s \<notin> set caps" "c = caps @ [s]"
      by (cases v) (auto simp: add_capability_def split: if_splits)
    then show ?thesis using Cons.IH [of "caps @ [s]"] Cons.prems Inr
      by (auto simp: Cons_eq_map_conv)
  qed
qed

lemma hex_not_space: "is_hex c \<Longrightarrow> \<not> is_space c"
  unfolding is_hex_def is_digit_def is_space_def word_le_nat_alt by (auto simp: word_unat_eq_iff)

lemma digest_trimmed: "digest_syntax s \<Longrightarrow> trimmed s \<noteq> []"
proof -
  assume d: "digest_syntax s"
  then have "before_dollar s \<noteq> []" by (auto simp: digest_syntax_def)
  then obtain c where "c \<in> set (before_dollar s)" by (cases "before_dollar s") auto
  then have "c \<in> set s" "is_hex c" using d
    by (auto simp: digest_syntax_def before_dollar_def split: if_splits dest: in_set_butlastD)
  then show ?thesis using hex_not_space trimmed_nonempty by blast
qed

lemma add_file_ok:
  assumes "add_file folded v fs = Inr fs'" and "files_ok folded fs"
  shows "files_ok folded fs' \<and> length fs' = Suc (length fs)"
proof -
  obtain path sha where *: "jvalue (to_object v) ''path'' = JStr path" "trimmed path \<noteq> []" "length path \<le> 1024"
    "\<not> ends_with_ci ''.onnx'' path" "relative_file path" "path \<noteq> qs ''manifest.json''"
    "folded path \<notin> set (map (folded \<circ> mf_path) fs)"
    "to_double (jvalue (to_object v) ''size'') \<ge> 0" "to_double (jvalue (to_object v) ''size'') \<le> 9007199254740991"
    "length sha \<le> 64" "digest_syntax (to_lower sha)"
    and fs': "fs' = fs @ [\<lparr>mf_path = path, mf_size = \<lfloor>to_double (jvalue (to_object v) ''size'')\<rfloor>, mf_sha256 = to_lower sha\<rparr>]"
    using assms(1) unfolding add_file_def by (auto simp: Let_def text_field_Inr split: if_splits)
  have "\<lfloor>to_double (jvalue (to_object v) ''size'')\<rfloor> \<le> 9007199254740991"
    using floor_mono [OF *(9)] by simp
  then show ?thesis
    using * assms(2) digest_trimmed [OF *(11)] by (auto simp: fs' files_ok_def file_ok_def)
qed

lemma fold_files_ok:
  "fold_res (add_file folded) vs fs = Inr fs' \<Longrightarrow> files_ok folded fs \<Longrightarrow>
     files_ok folded fs' \<and> length fs' = length fs + length vs"
proof (induction vs arbitrary: fs)
  case Nil
  then show ?case by simp
next
  case (Cons v vs)
  then obtain gs where "add_file folded v fs = Inr gs" "fold_res (add_file folded) vs gs = Inr fs'" by auto
  then show ?case using add_file_ok [OF _ Cons.prems(2)] Cons.IH [of gs] by simp
qed

lemma fold_files_print:
  "files_ok folded (fs @ gs) \<Longrightarrow> fold_res (add_file folded) (map file_object gs) fs = Inr (fs @ gs)"
proof (induction gs arbitrary: fs)
  case Nil
  then show ?case by simp
next
  case (Cons g gs)
  have g: "file_ok g" "folded (mf_path g) \<notin> set (map (folded \<circ> mf_path) fs)"
    using Cons.prems by (auto simp: files_ok_def)
  let ?kvs = "[(''path'', JStr (mf_path g)), (''size'', JNum (of_int (mf_size g))), (''sha256'', JStr (mf_sha256 g))]"
  have three: "length (jobj ?kvs) = 3" by (simp add: jobj_def)
  have "add_file folded (file_object g) fs = Inr (fs @ [g])"
    using g three by (simp add: add_file_def file_object_def text_field_def jvalue_jobj file_ok_def Let_def comp_def)
  moreover have "files_ok folded ((fs @ [g]) @ gs)" using Cons.prems by simp
  ultimately show ?case using Cons.IH [of "fs @ [g]"] by simp
qed

lemma parse_ok:
  assumes "parse_model_manifest folded obj = Inr m"
  shows "manifest_ok folded m"
proof -
  have files: "files_ok folded fs \<and> length fs = length (to_array (jvalue obj ''files''))"
    if "fold_res (add_file folded) (to_array (jvalue obj ''files'')) [] = Inr fs" for fs
    using fold_files_ok [OF that] by (simp add: files_ok_def)
  have caps: "caps \<noteq> [] \<and> length caps \<le> 32 \<and> distinct caps \<and> (\<forall>c \<in> set caps. capability_syntax c)"
    if "fold_res add_capability (to_array (jvalue obj ''capabilities'')) [] = Inr caps"
      "to_array (jvalue obj ''capabilities'') \<noteq> []" "length (to_array (jvalue obj ''capabilities'')) \<le> 32" for caps
    using that by (auto simp: fold_capabilities)
  have entry: "trimmed e \<noteq> [] \<and> length e \<le> 1024" if "entry_point_of obj f = Inr e" for f e
    using that trimmed_nonempty [of 109 "qs ''model.gguf''"] trimmed_nonempty [of 46 "qs ''.''"]
    by (auto simp: entry_point_of_def text_field_Inr split: if_splits)
      (auto simp: qs_def qc_def is_space_def)
  have projector: "p = [] \<or> trimmed p \<noteq> [] \<and> length p \<le> 1024 \<and> \<not> ends_with_ci ''.onnx'' p
      \<and> f = qs ''gguf'' \<and> relative_file p \<and> p \<noteq> e" if "projector_of obj f e = Inr p" for f e p
    using that by (auto simp: projector_of_def text_field_Inr split: if_splits)
  obtain arch fmt quant cs en pr fs mid where
    t: "text_field obj ''id'' 128 = Inr mid" "text_field obj ''architecture'' 128 = Inr arch"
      "text_field obj ''format'' 32 = Inr fmt" "text_field obj ''quantization'' 64 = Inr quant"
    and r: "valid_id mid" "name_syntax fmt" "fmt \<noteq> qs ''onnx''"
      "2 \<le> to_int (jvalue obj ''context_length'') 0" "to_int (jvalue obj ''context_length'') 0 \<le> 1024 * 1024"
      "(en = qs ''.'' \<and> fmt = qs ''mlx'') \<or> relative_file en" "\<not> ends_with_ci ''.onnx'' en"
      "length (to_array (jvalue obj ''files'')) \<le> 10000"
    and c: "fold_res add_capability (to_array (jvalue obj ''capabilities'')) [] = Inr cs"
      "to_array (jvalue obj ''capabilities'') \<noteq> []" "length (to_array (jvalue obj ''capabilities'')) \<le> 32"
    and e: "entry_point_of obj fmt = Inr en" and p: "projector_of obj fmt en = Inr pr"
    and f: "fold_res (add_file folded) (to_array (jvalue obj ''files'')) [] = Inr fs"
    and m: "m = \<lparr>mm_id = mid, mm_architecture = arch, mm_format = fmt, mm_quantization = quant,
         mm_context_length = to_int (jvalue obj ''context_length'') 0, mm_capabilities = cs, mm_entry_point = en,
         mm_files = fs, mm_projector = pr\<rparr>"
    using assms unfolding parse_model_manifest_def Let_def bindr_Inr_iff require_Inr sum.inject by blast
  note file_facts = files [OF f] and cap_facts = caps [OF c] and entry_facts = entry [OF e]
    and projector_facts = projector [OF p]
  show ?thesis
    unfolding manifest_ok_def m model_manifest.simps
    using t [unfolded text_field_Inr] r file_facts cap_facts entry_facts projector_facts
    by (intro conjI) simp_all
qed

text \<open>Printing and reading back.\<close>

lemma print_check: "check_fields (manifest_object m True) = Inr ()"
proof -
  have keys: "fst ` set (oput k v m) = insert k (fst ` set m)" for k :: qstring and v :: json and m
    using okeys_oput [of k v m] by simp
  have base: "fst ` set (jobj [(''schema_version'', JNum 1), (''id'', JStr (mm_id m)), (''architecture'', JStr (mm_architecture m)),
            (''format'', JStr (mm_format m)), (''quantization'', JStr (mm_quantization m)),
            (''context_length'', JNum (of_int (mm_context_length m))), (''capabilities'', jstrings (mm_capabilities m)),
            (''entry_point'', JStr (mm_entry_point m))]) \<subseteq> set manifest_fields"
    by (simp add: set_jobj manifest_fields_def)
  have "fst ` set (manifest_object m True) \<subseteq> set manifest_fields"
    using base unfolding manifest_object_def Let_def by (simp add: keys) (simp add: manifest_fields_def)
  moreover have "fst ` set obj \<subseteq> set manifest_fields \<Longrightarrow> check_fields obj = Inr ()" for obj
    unfolding check_fields_def by (induction obj) auto
  ultimately show ?thesis by blast
qed

lemma print_look:
  "jvalue (manifest_object m True) k = (if k = ''files'' then JArr (map file_object (mm_files m))
     else if k = ''projector'' \<and> mm_projector m \<noteq> [] then JStr (mm_projector m)
     else (case map_of [(''schema_version'', JNum 1), (''id'', JStr (mm_id m)), (''architecture'', JStr (mm_architecture m)),
            (''format'', JStr (mm_format m)), (''quantization'', JStr (mm_quantization m)),
            (''context_length'', JNum (of_int (mm_context_length m))), (''capabilities'', jstrings (mm_capabilities m)),
            (''entry_point'', JStr (mm_entry_point m))] k of None \<Rightarrow> JUndefined | Some v \<Rightarrow> v))"
  unfolding manifest_object_def Let_def jvalue_def by (auto simp: map_of_jobj)

lemma print_has: "jhas (manifest_object m True) k \<longleftrightarrow> jvalue (manifest_object m True) k \<noteq> JUndefined"
proof -
  have "(qs k, JUndefined) \<notin> set (manifest_object m True)"
  proof -
    let ?base = "jobj [(''schema_version'', JNum 1), (''id'', JStr (mm_id m)), (''architecture'', JStr (mm_architecture m)),
            (''format'', JStr (mm_format m)), (''quantization'', JStr (mm_quantization m)),
            (''context_length'', JNum (of_int (mm_context_length m))), (''capabilities'', jstrings (mm_capabilities m)),
            (''entry_point'', JStr (mm_entry_point m))]"
    have put: "JUndefined \<notin> snd ` set (oput j v obj)" if "v \<noteq> JUndefined" "JUndefined \<notin> snd ` set obj"
      for j :: qstring and v and obj :: json_object
      using that by (induction obj) auto
    have "JUndefined \<notin> snd ` set ?base" by (simp add: set_jobj jstrings_def)
    then have "JUndefined \<notin> snd ` set (manifest_object m True)"
      unfolding manifest_object_def Let_def by (simp add: put)
    then show ?thesis by force
  qed
  then show ?thesis by (auto simp: jhas_def ohas_def jvalue_def split: option.split dest: map_of_SomeD)
qed

lemma text_field_intro:
  "jvalue obj field = JStr s \<Longrightarrow> trimmed s \<noteq> [] \<Longrightarrow> length s \<le> n \<Longrightarrow> text_field obj field n = Inr s"
  by (simp add: text_field_def)

lemma to_int_bounded: "0 \<le> i \<Longrightarrow> i \<le> 1048576 \<Longrightarrow> to_int (JNum (of_int i)) d = i"
  by simp

lemma parse_print:
  assumes "manifest_ok folded m"
  shows "parse_model_manifest folded (manifest_object m True) = Inr m"
proof -
  let ?obj = "manifest_object m True"
  have t: "text_field ?obj ''id'' 128 = Inr (mm_id m)" "text_field ?obj ''architecture'' 128 = Inr (mm_architecture m)"
      "text_field ?obj ''format'' 32 = Inr (mm_format m)" "text_field ?obj ''quantization'' 64 = Inr (mm_quantization m)"
    using assms unfolding manifest_ok_def by (simp_all add: text_field_intro print_look)
  have e: "entry_point_of ?obj f = Inr (mm_entry_point m)" for f
    using assms unfolding manifest_ok_def by (simp add: entry_point_of_def print_has print_look text_field_intro)
  have p: "projector_of ?obj (mm_format m) (mm_entry_point m) = Inr (mm_projector m)"
    using assms unfolding manifest_ok_def
    by (cases "mm_projector m = []") (simp_all add: projector_of_def print_has print_look text_field_intro)
  have c: "fold_res add_capability (map JStr (mm_capabilities m)) [] = Inr (mm_capabilities m)"
    using assms unfolding manifest_ok_def by (subst fold_capabilities) auto
  have f: "fold_res (add_file folded) (map file_object (mm_files m)) [] = Inr (mm_files m)"
    using assms fold_files_print [of folded "[]" "mm_files m"] unfolding manifest_ok_def by simp
  have look: "jvalue ?obj ''schema_version'' = JNum 1" "jvalue ?obj ''context_length'' = JNum (of_int (mm_context_length m))"
    "jvalue ?obj ''capabilities'' = JArr (map JStr (mm_capabilities m))"
    "jvalue ?obj ''files'' = JArr (map file_object (mm_files m))"
    by (simp_all add: print_look jstrings_def)
  have len: "to_int (JNum (of_int (mm_context_length m))) 0 = mm_context_length m"
    using assms unfolding manifest_ok_def by (intro to_int_bounded) simp_all
  show ?thesis
    using assms unfolding parse_model_manifest_def Let_def print_check look to_array.simps t e p c f len
      is_double.simps is_array.simps to_double.simps manifest_ok_def
    by (simp add: p f c len del: to_int.simps)
qed

section \<open>Lexical resolution\<close>

text \<open>
  How a path is resolved component by component below the package directory; leaving the
  directory is None.
\<close>

fun resolve_below :: "qstring list \<Rightarrow> qstring list \<Rightarrow> qstring list option" where
  "resolve_below stack [] = Some (rev stack)"
| "resolve_below stack (part # parts) =
     (if part = [] \<or> part = qs ''.'' then resolve_below stack parts
      else if part = qs ''..'' then (case stack of [] \<Rightarrow> None | _ # up \<Rightarrow> resolve_below up parts)
      else resolve_below (part # stack) parts)"

lemma resolve_plain:
  "\<forall>p \<in> set parts. p \<noteq> [] \<and> p \<noteq> qs ''.'' \<and> p \<noteq> qs ''..'' \<Longrightarrow>
     resolve_below stack parts = Some (rev stack @ parts)"
  by (induction parts arbitrary: stack) auto

lemma relative_resolves:
  "relative_file path \<Longrightarrow> resolve_below [] (split_on 47 path) = Some (split_on 47 path)"
  using resolve_plain [of "split_on 47 path" "[]"] by (simp add: relative_file_def)

section \<open>Properties\<close>

text \<open>A small manifest for the concrete runs.\<close>

definition sample_manifest :: model_manifest where
  "sample_manifest = \<lparr>mm_id = qs ''abc'', mm_architecture = qs ''llama'', mm_format = qs ''gguf'',
     mm_quantization = qs ''q4'', mm_context_length = 4096, mm_capabilities = [qs ''chat''],
     mm_entry_point = qs ''a/m.gguf'', mm_files = [], mm_projector = []\<rparr>"

lemma sample_manifest_ok: "manifest_ok (\<lambda>s. s) sample_manifest"
proof -
  have "trimmed (qs ''abc'') \<noteq> []" "trimmed (qs ''llama'') \<noteq> []" "trimmed (qs ''gguf'') \<noteq> []"
    "trimmed (qs ''a/m.gguf'') \<noteq> []" "trimmed (qs ''q4'') \<noteq> []"
    by (simp_all add: trimmed_def is_space_def qs_def qc_def)
  moreover have "valid_id (qs ''abc'')"
    by (simp add: valid_id_def id_syntax_def id_reserved_def before_dollar_def device_names_def
        starts_with_def qs_def qc_def is_alnum_def is_id_char_def is_lower_def is_digit_def)
  moreover have "name_syntax (qs ''gguf'')" "capability_syntax (qs ''chat'')"
    by (simp_all add: name_syntax_def capability_syntax_def before_dollar_def qs_def qc_def is_lower_def
        is_name_char_def is_alnum_def)
  moreover have "relative_file (qs ''a/m.gguf'')"
    by (simp add: relative_file_def qs_def qc_def)
  moreover have "\<not> ends_with_ci ''.onnx'' (qs ''a/m.gguf'')"
    by (simp add: ends_with_ci_def ends_with_def to_lower_def lower_char_def qs_def qc_def)
  ultimately show ?thesis
    by (simp add: manifest_ok_def sample_manifest_def files_ok_def)
qed

lemma sample_manifest_parses:
  "parse_model_manifest (\<lambda>s. s) (manifest_object sample_manifest True) = Inr sample_manifest"
  by (rule parse_print [OF sample_manifest_ok])

text \<open>
  C38. A manifest that parses is printed to JSON that parses again to the same manifest.
\<close>

theorem manifest_roundtrip:
  assumes "parse_model_manifest folded obj = Inr m"
  shows "parse_model_manifest folded (manifest_object m True) = Inr m"
  using parse_print [OF parse_ok [OF assms]] .

theorem manifest_roundtrip_witness:
  "\<exists>(obj :: json_object) m. parse_model_manifest (\<lambda>s. s) obj = Inr m
     \<and> parse_model_manifest (\<lambda>s. s) (manifest_object m True) = Inr m \<and> mm_context_length m = 4096"
proof (intro exI conjI)
  show "parse_model_manifest (\<lambda>s. s) (manifest_object sample_manifest True) = Inr sample_manifest"
    by (rule manifest_roundtrip [OF sample_manifest_parses])
qed (rule sample_manifest_parses, simp add: sample_manifest_def)

text \<open>
  C39. Every path a parsed manifest names resolves to itself below the package directory: no
  component is empty, a dot or two dots, none is absolute or carries a drive or a backslash. The
  file paths are pairwise distinct even up to case folding, none is the manifest itself, and every
  size is an exact non-negative double.
\<close>

theorem manifest_paths_stay_inside:
  assumes "parse_model_manifest folded obj = Inr m"
  shows "(\<forall>path \<in> set (map mf_path (mm_files m)) \<union> {mm_entry_point m, mm_projector m}.
        path = qs ''.'' \<and> mm_format m = qs ''mlx'' \<or> path = [] \<and> mm_projector m = []
        \<or> resolve_below [] (split_on 47 path) = Some (split_on 47 path) \<and> hd path \<noteq> 47 \<and> 92 \<notin> set path \<and> 58 \<notin> set path)
    \<and> distinct (map (folded \<circ> mf_path) (mm_files m)) \<and> qs ''manifest.json'' \<notin> set (map mf_path (mm_files m))
    \<and> (\<forall>f \<in> set (mm_files m). 0 \<le> mf_size f \<and> mf_size f < 2 ^ 53)"
proof -
  note ok = parse_ok [OF assms]
  have rel: "resolve_below [] (split_on 47 path) = Some (split_on 47 path) \<and> hd path \<noteq> 47 \<and> 92 \<notin> set path \<and> 58 \<notin> set path"
    if "relative_file path" for path
    using relative_resolves [OF that] that by (simp add: relative_file_def)
  have files: "file_ok f" if "f \<in> set (mm_files m)" for f
    using ok that by (simp add: manifest_ok_def files_ok_def)
  have "\<forall>path \<in> set (map mf_path (mm_files m)). relative_file path"
    using files by (auto simp: file_ok_def)
  moreover have "mm_entry_point m = qs ''.'' \<and> mm_format m = qs ''mlx'' \<or> relative_file (mm_entry_point m)"
    "mm_projector m = [] \<or> relative_file (mm_projector m)"
    using ok unfolding manifest_ok_def by blast+
  moreover have "distinct (map (folded \<circ> mf_path) (mm_files m))"
    using ok by (simp add: manifest_ok_def files_ok_def)
  moreover have "qs ''manifest.json'' \<notin> set (map mf_path (mm_files m))"
    "\<forall>f \<in> set (mm_files m). 0 \<le> mf_size f \<and> mf_size f < 2 ^ 53"
    using files by (force simp: file_ok_def)+
  ultimately show ?thesis using rel by blast
qed

theorem manifest_paths_stay_inside_witness:
  "resolve_below [] (split_on 47 (qs ''a/m.gguf'')) = Some (split_on 47 (qs ''a/m.gguf''))
     \<and> hd (qs ''a/m.gguf'') \<noteq> 47"
  using manifest_paths_stay_inside [OF sample_manifest_parses] by (auto simp: sample_manifest_def)

text \<open>
  Ids and URIs correspond one to one: making a URI of a valid id and reading it back gives
  the id, and a URI that reads back is the one its id makes.
\<close>

theorem model_uri_roundtrip:
  "(\<forall>uri. model_uri mid = Inr uri \<longrightarrow> model_id uri = Inr mid)
   \<and> (\<forall>uri. model_id uri = Inr mid \<longrightarrow> model_uri mid = Inr uri)"
proof -
  have len: "length uri_prefix = 8" by (simp add: uri_prefix_def)
  have "uri = uri_prefix @ drop 8 uri" if "starts_with uri_prefix uri" for uri
    using that len by (metis append_take_drop_id starts_with_def)
  then show ?thesis
    using len by (auto simp: model_uri_def model_id_def starts_with_def split: if_splits)
qed

theorem model_uri_roundtrip_witness:
  "model_uri (qs ''abc'') = Inr (qs ''model://abc'') \<and> model_id (qs ''model://abc'') = Inr (qs ''abc'')"
proof -
  have "valid_id (qs ''abc'')"
    using sample_manifest_ok by (simp add: manifest_ok_def sample_manifest_def)
  then have "model_uri (qs ''abc'') = Inr (qs ''model://abc'')"
    by (simp add: model_uri_def uri_prefix_def flip: qs_append)
  then show ?thesis using model_uri_roundtrip [of "qs ''abc''"] by blast
qed

text \<open>
  The anchor of the id pattern also matches before a final newline, so an id that ends in
  one is taken for a portable id, in a manifest as well as in a URI.
\<close>

theorem newline_id_accepted:
  "valid_id (qs ''abc'' @ [10]) \<and> model_uri (qs ''abc'' @ [10]) = Inr (qs ''model://abc'' @ [10])"
proof -
  have "valid_id (qs ''abc'' @ [10])"
    by (simp add: valid_id_def id_syntax_def id_reserved_def before_dollar_def device_names_def
        starts_with_def qs_def qc_def is_alnum_def is_id_char_def is_lower_def is_digit_def)
  then show ?thesis by (simp add: model_uri_def uri_prefix_def flip: qs_append)
qed

end
