(* ===== verification/Media.thy ===== *)
theory Media
  imports Types
begin

text \<open>
  Native content blocks (\<^verbatim>\<open>src/media/MediaContent.h\<close>, \<^verbatim>\<open>src/media/MediaContent.cpp\<close>,
  \<^verbatim>\<open>src/media/Multimodal.h\<close>): canonical base64, the normalization of the blocks a client may
  send and the modalities they need. The compact JSON printer and the SHA-256 digest are the
  arguments \<open>compacted\<close> and \<open>digest\<close>.
\<close>

section \<open>Base64\<close>

definition alphabet :: string where
  "alphabet = ''ABCDEFGHIJKLMNOPQRSTUVWXYZabcdefghijklmnopqrstuvwxyz0123456789+/''"

definition b64_char :: "nat \<Rightarrow> qchar" where
  "b64_char n = qc (alphabet ! n)"

definition b64_value :: "qchar \<Rightarrow> nat option" where
  "b64_value c = (if 65 \<le> c \<and> c \<le> 90 then Some (unat c - 65)
     else if 97 \<le> c \<and> c \<le> 122 then Some (unat c - 71)
     else if 48 \<le> c \<and> c \<le> 57 then Some (unat c + 4)
     else if c = 43 then Some 62 else if c = 47 then Some 63 else None)"

fun encode64 :: "byte list \<Rightarrow> qstring" where
  "encode64 [] = []"
| "encode64 [a] = [b64_char (unat a div 4), b64_char (unat a mod 4 * 16), 61, 61]"
| "encode64 [a, b] = [b64_char (unat a div 4), b64_char (unat a mod 4 * 16 + unat b div 16),
     b64_char (unat b mod 16 * 4), 61]"
| "encode64 (a # b # c # rest) = b64_char (unat a div 4) # b64_char (unat a mod 4 * 16 + unat b div 16)
     # b64_char (unat b mod 16 * 4 + unat c div 64) # b64_char (unat c mod 64) # encode64 rest"

text \<open>
  \<^verbatim>\<open>QByteArray::fromBase64Encoding\<close> with \<^verbatim>\<open>AbortOnBase64DecodingErrors\<close>: bits are
  collected six at a time; padding ends the input, of a length that is a multiple of four.
\<close>

fun decode_loop :: "nat \<Rightarrow> qstring \<Rightarrow> nat \<Rightarrow> nat \<Rightarrow> byte list option" where
  "decode_loop len [] buf nbits = Some []"
| "decode_loop len (ch # rest) buf nbits = (case b64_value ch of
     Some d \<Rightarrow>
       (if nbits + 6 \<ge> 8
        then map_option (Cons (of_nat ((buf * 64 + d) div 2 ^ (nbits - 2))))
          (decode_loop len rest ((buf * 64 + d) mod 2 ^ (nbits - 2)) (nbits - 2))
        else decode_loop len rest (buf * 64 + d) (nbits + 6))
   | None \<Rightarrow> if ch = 61 \<and> len mod 4 = 0 \<and> (rest = [] \<or> rest = [61]) then Some [] else None)"

definition decode64 :: "qstring \<Rightarrow> byte list option" where
  "decode64 s = decode_loop (length s) s 0 0"

text \<open>\<^verbatim>\<open>QString::toLatin1\<close>: a character outside Latin-1 becomes a question mark.\<close>

definition to_latin1 :: "qstring \<Rightarrow> qstring" where
  "to_latin1 s = map (\<lambda>c. if c \<le> 255 then c else 63) s"

definition media_bytes :: "json_object \<Rightarrow> byte list res" where
  "media_bytes block =
     bindr (require (is_string (jvalue block ''data'') \<and> to_string (jvalue block ''data'') \<noteq> []) InvalidArgument
       ''Media data must be nonempty base64'') (\<lambda>_.
     let encoded = to_latin1 (to_string (jvalue block ''data'')) in
     case decode64 encoded of
       None \<Rightarrow> throw InvalidArgument ''Invalid canonical base64 media data''
     | Some b \<Rightarrow> if b \<noteq> [] \<and> encode64 b = encoded then Inr b
         else throw InvalidArgument ''Invalid canonical base64 media data'')"

lemma alphabet_values: "map b64_value (map qc alphabet) = map Some [0..<64]"
  by (simp add: alphabet_def b64_value_def qc_def upt_rec)

lemma alphabet_value: "n < 64 \<Longrightarrow> b64_value (b64_char n) = Some n"
proof -
  assume n: "n < 64"
  have "map b64_value (map qc alphabet) ! n = Some n" using n unfolding alphabet_values by simp
  moreover have "length alphabet = 64" by (simp add: alphabet_def)
  ultimately show ?thesis using n by (simp add: b64_char_def)
qed

lemma byte_bound: "unat (a :: byte) < 256"
  using unsigned_less [of a, where ?'a = nat] by simp

text \<open>Six bits of one byte and the leading bits of the next, put together again.\<close>

lemma pack_div:
  assumes "r < m" shows "(x * m + r) div m = (x::nat)" and "(x * m + r) mod m = r"
  using assms by simp_all

lemma sextets:
  fixes a b c :: nat
  assumes "a < 256" "b < 256" "c < 256"
  shows "a div 4 < 64" "a mod 4 * 16 + b div 16 < 64" "b mod 16 * 4 + c div 64 < 64" "c mod 64 < 64"
    and "(a div 4 * 64 + (a mod 4 * 16 + b div 16)) div 16 = a"
    and "(a div 4 * 64 + (a mod 4 * 16 + b div 16)) mod 16 = b div 16"
    and "(b div 16 * 64 + (b mod 16 * 4 + c div 64)) div 4 = b"
    and "(b div 16 * 64 + (b mod 16 * 4 + c div 64)) mod 4 = c div 64"
    and "c div 64 * 64 + c mod 64 = c"
proof -
  have q: "b div 16 < 16" "c div 64 < 4" "a mod 4 < 4" "b mod 16 < 16" "a div 4 < 64"
    using assms by (simp_all add: less_mult_imp_div_less)
  then show "a div 4 < 64" "a mod 4 * 16 + b div 16 < 64" "b mod 16 * 4 + c div 64 < 64" "c mod 64 < 64"
    by simp_all
  have a: "a div 4 * 64 + (a mod 4 * 16 + b div 16) = a * 16 + b div 16"
    using div_mult_mod_eq [of a 4] by linarith
  have b: "b div 16 * 64 + (b mod 16 * 4 + c div 64) = b * 4 + c div 64"
    using div_mult_mod_eq [of b 16] by linarith
  show "(a div 4 * 64 + (a mod 4 * 16 + b div 16)) div 16 = a"
    "(a div 4 * 64 + (a mod 4 * 16 + b div 16)) mod 16 = b div 16"
    unfolding a using pack_div q(1) by simp_all
  show "(b div 16 * 64 + (b mod 16 * 4 + c div 64)) div 4 = b"
    "(b div 16 * 64 + (b mod 16 * 4 + c div 64)) mod 4 = c div 64"
    unfolding b using pack_div q(2) by simp_all
  show "c div 64 * 64 + c mod 64 = c" by simp
qed

lemma decode_quad:
  assumes "a < 256" "b < 256" "c < 256"
  shows "decode_loop len (b64_char (a div 4) # b64_char (a mod 4 * 16 + b div 16)
      # b64_char (b mod 16 * 4 + c div 64) # b64_char (c mod 64) # rest) 0 0
    = map_option (\<lambda>bs. of_nat a # of_nat b # of_nat c # bs) (decode_loop len rest 0 0)"
  using sextets [OF assms] by (simp add: alphabet_value option.map_comp comp_def)

lemma pad_value: "b64_value 61 = None"
  by (simp add: b64_value_def)

lemma length_encode: "length (encode64 bs) mod 4 = 0"
  by (induction bs rule: encode64.induct) simp_all

lemma decode_encode_loop: "len mod 4 = 0 \<Longrightarrow> decode_loop len (encode64 bs) 0 0 = Some bs"
proof (induction bs rule: encode64.induct)
  case 1
  then show ?case by simp
next
  case (2 a)
  show ?case
    using 2 sextets [OF byte_bound [of a], of 0 0] by (simp add: alphabet_value pad_value)
next
  case (3 a b)
  then show ?case
    using sextets [OF byte_bound [of a] byte_bound [of b], of 0] by (simp add: alphabet_value pad_value)
next
  case (4 a b c rest)
  then show ?case
    using decode_quad [OF byte_bound byte_bound byte_bound, of len a b c "encode64 rest"] by simp
qed

lemma decode_encode: "decode64 (encode64 bs) = Some bs"
  by (simp add: decode64_def decode_encode_loop length_encode)

lemma b64_char_ascii: "b64_char n \<le> 255"
  using nat_of_char_less_256 [of "alphabet ! n"]
  by (simp add: b64_char_def word_le_nat_alt unat_qc del: nat_of_char_less_256)

lemma encode_latin1: "to_latin1 (encode64 bs) = encode64 bs"
  by (induction bs rule: encode64.induct) (simp_all add: to_latin1_def b64_char_ascii)

lemma latin1_id: "\<forall>c \<in> set s. c \<le> 255 \<Longrightarrow> to_latin1 s = s"
  by (simp add: to_latin1_def map_idI)

text \<open>Accepted are exactly the encodings of nonempty byte strings.\<close>

lemma media_bytes_iff:
  "media_bytes block = Inr b \<longleftrightarrow> jvalue block ''data'' = JStr (encode64 b) \<and> b \<noteq> []"
proof
  assume "media_bytes block = Inr b"
  then obtain data where data: "jvalue block ''data'' = JStr data" "data \<noteq> []"
    and b: "decode64 (to_latin1 data) = Some b" "b \<noteq> []" "encode64 b = to_latin1 data"
    by (cases "jvalue block ''data''") (auto simp: media_bytes_def Let_def split: option.splits if_splits)
  have len: "length (to_latin1 data) = length data" by (simp add: to_latin1_def)
  have "to_latin1 data = data"
  proof (rule ccontr)
    assume "to_latin1 data \<noteq> data"
    then obtain c where "c \<in> set data" "\<not> c \<le> 255" using latin1_id by blast
    then have "63 \<in> set (encode64 b)" using b(3) by (force simp: to_latin1_def)
    moreover have "63 \<notin> set (encode64 bs)" for bs
    proof -
      have "b64_char n \<noteq> 63" if "n < 64" for n
        using alphabet_value [OF that] by (auto simp: b64_value_def)
      then show ?thesis
        using sextets [OF byte_bound byte_bound byte_bound]
        by (induction bs rule: encode64.induct) (auto dest!: sym [of 63] simp: sextets(1,2,3) [OF byte_bound byte_bound byte_bound]
            sextets(2,3) [OF byte_bound _ zero_less_numeral])
    qed
    ultimately show False by blast
  qed
  then show "jvalue block ''data'' = JStr (encode64 b) \<and> b \<noteq> []" using data b by simp
next
  assume "jvalue block ''data'' = JStr (encode64 b) \<and> b \<noteq> []"
  moreover have "encode64 b \<noteq> []" if "b \<noteq> []" using that by (cases b rule: encode64.cases) simp_all
  ultimately show "media_bytes block = Inr b"
    by (simp add: media_bytes_def Let_def encode_latin1 decode_encode)
qed

section \<open>Blocks\<close>

definition media_ok :: "qstring \<Rightarrow> qstring \<Rightarrow> bool" where
  "media_ok type mime \<longleftrightarrow>
     (type = qs ''image'' \<and> mime \<in> set (map qs [''image/png'', ''image/jpeg'', ''image/bmp'', ''image/gif'']))
     \<or> (type = qs ''audio'' \<and> mime \<in> set (map qs [''audio/wav'', ''audio/x-wav'', ''audio/mpeg'', ''audio/flac'']))"

definition media_block :: "json_object \<Rightarrow> json_object res" where
  "media_block block =
     (let type = to_string (jvalue block ''type''); mime = to_string (jvalue block ''mimeType'') in
      bindr (require (media_ok type mime) InvalidArgument
        ''Unsupported native media type; use PNG/JPEG/BMP/GIF images or WAV/MP3/FLAC audio'') (\<lambda>_.
      bindr (media_bytes block) (\<lambda>_.
        Inr (jobj [(''type'', JStr type), (''mimeType'', JStr mime), (''data'', jvalue block ''data'')]))))"

definition image_url_block :: "json_object \<Rightarrow> json_object res" where
  "image_url_block block =
     (let url = to_string (jvalue (to_object (jvalue block ''image_url'')) ''url'');
          split = (case index_of (qs '';base64,'') url of None \<Rightarrow> -1 | Some n \<Rightarrow> int n) in
      bindr (require (starts_with (qs ''data:'') url \<and> split > 5) InvalidArgument
        ''Native image_url requires an inline base64 data URL'') (\<lambda>_.
      media_block (jobj [(''type'', JStr (qs ''image'')), (''mimeType'', JStr (take (nat (split - 5)) (drop 5 url))),
        (''data'', JStr (drop (nat (split + 8)) url))])))"

definition input_audio_block :: "json_object \<Rightarrow> json_object res" where
  "input_audio_block block =
     (let audio = to_object (jvalue block ''input_audio''); format = to_string (jvalue audio ''format'') in
      bindr (require (format = qs ''wav'' \<or> format = qs ''mp3'' \<or> format = qs ''flac'') InvalidArgument
        ''Unsupported input_audio format'') (\<lambda>_.
      media_block (jobj [(''type'', JStr (qs ''audio'')),
        (''mimeType'', JStr (if format = qs ''mp3'' then qs ''audio/mpeg'' else qs ''audio/'' @ format)),
        (''data'', jvalue audio ''data'')])))"

text \<open>A frame of a video; the state is the last timestamp and the frames so far.\<close>

definition video_frame :: "json \<Rightarrow> rat \<times> json list \<Rightarrow> (rat \<times> json list) res" where
  "video_frame item st =
     (let frame = to_object item; stamp = jvalue frame ''timestamp_ms'' in
      bindr (require (is_object item) InvalidArgument ''Video frame must be an object'') (\<lambda>_.
      bindr (require (is_double stamp \<and> to_double stamp \<ge> 0 \<and> to_double stamp \<le> 9007199254740991
          \<and> to_double stamp > fst st) InvalidArgument ''Video frame timestamps must strictly increase'') (\<lambda>_.
      bindr (media_block (oput (qs ''type'') (JStr (qs ''image'')) frame)) (\<lambda>normalized.
        Inr (to_double stamp, snd st @ [JObj (oput (qs ''timestamp_ms'') stamp normalized)])))))"

definition video_block :: "json_object \<Rightarrow> (json_object \<times> int) res" where
  "video_block block =
     (let frames = jvalue block ''frames'' in
      bindr (require (is_array frames \<and> to_array frames \<noteq> [] \<and> length (to_array frames) \<le> 64) InvalidArgument
        ''Video requires 1 to 64 timestamped image frames'') (\<lambda>_.
      bindr (fold_res video_frame (to_array frames) (-1, [])) (\<lambda>(_, fs).
        Inr (jobj [(''type'', JStr (qs ''video'')), (''frames'', JArr fs)], int (length fs)))))"

definition text_block :: "json \<Rightarrow> json_object" where
  "text_block text = jobj [(''type'', JStr (qs ''text'')), (''text'', text)]"

definition resource_block :: "json_object \<Rightarrow> (json_object \<times> int) res" where
  "resource_block block =
     bindr (require (is_object (jvalue block ''resource'')) InvalidArgument ''Resource must be an object'') (\<lambda>_.
     let resource = to_object (jvalue block ''resource'') in
     if jhas resource ''blob'' then
       let mime = to_string (jvalue resource ''mimeType'') in
       bindr (media_block (jobj [(''type'', JStr (if starts_with (qs ''image/'') mime then qs ''image'' else qs ''audio'')),
           (''mimeType'', JStr mime), (''data'', jvalue resource ''blob'')])) (\<lambda>m. Inr (m, 1))
     else bindr (require (is_string (jvalue resource ''text'')) InvalidArgument
         ''Resource requires text or supported media bytes'') (\<lambda>_. Inr (text_block (jvalue resource ''text''), 0)))"

text \<open>One block of the content: its normal form and the media items it adds.\<close>

definition content_block :: "(json \<Rightarrow> qstring) \<Rightarrow> json \<Rightarrow> (json_object \<times> int) res" where
  "content_block compacted item =
     bindr (require (is_object item) InvalidArgument ''Content block must be an object'') (\<lambda>_.
     let block = to_object item; type = to_string (jvalue block ''type'') in
     if type = qs ''image_url'' then bindr (image_url_block block) (\<lambda>m. Inr (m, 1))
     else if type = qs ''input_audio'' then bindr (input_audio_block block) (\<lambda>m. Inr (m, 1))
     else if type = qs ''text'' then
       bindr (require (is_string (jvalue block ''text'')) InvalidArgument ''Content text must be a string'') (\<lambda>_.
         Inr (text_block (jvalue block ''text''), 0))
     else if type = qs ''image'' \<or> type = qs ''audio'' then bindr (media_block block) (\<lambda>m. Inr (m, 1))
     else if type = qs ''video'' then video_block block
     else if type = qs ''resource'' then resource_block block
     else if type = qs ''resource_link'' then
       bindr (require (is_string (jvalue block ''uri'')) InvalidArgument ''Resource link requires a URI'') (\<lambda>_.
         Inr (text_block (JStr (compacted (JObj block))), 0))
     else throwq RuntimeUnavailable (qs ''Unsupported native content block: '' @ type))"

definition add_block :: "(json \<Rightarrow> qstring) \<Rightarrow> json \<Rightarrow> json list \<times> int \<Rightarrow> (json list \<times> int) res" where
  "add_block compacted item st = bindr (content_block compacted item) (\<lambda>(b, n). Inr (fst st @ [JObj b], snd st + n))"

definition native_content :: "(json \<Rightarrow> qstring) \<Rightarrow> json list \<Rightarrow> int \<Rightarrow> json list res" where
  "native_content compacted content max_characters =
     bindr (require (length content \<le> 64 \<and> max_characters > 0) InvalidArgument ''Native content exceeds 64 blocks'') (\<lambda>_.
     bindr (require (int (length (compacted (JArr content))) \<le> max_characters) InvalidArgument
       ''Native content exceeds input limit'') (\<lambda>_.
     bindr (fold_res (add_block compacted) content ([], 0)) (\<lambda>(result, media_count).
     bindr (require (media_count \<le> 64) InvalidArgument ''Native content exceeds 64 media items'') (\<lambda>_. Inr result))))"

section \<open>Modalities and evidence\<close>

definition modality_text :: u32 where "modality_text = 1"

definition modality_image :: u32 where "modality_image = 2"

definition modality_audio :: u32 where "modality_audio = 4"

definition modality_video :: u32 where "modality_video = 8"

definition supports_modalities :: "u32 \<Rightarrow> u32 \<Rightarrow> bool" where
  "supports_modalities available required \<longleftrightarrow> Bit_Operations.and available required = required"

definition block_modality :: "json \<Rightarrow> u32" where
  "block_modality b = (let type = to_string (jvalue (to_object b) ''type'') in
     if type = qs ''image'' then modality_image
     else if type = qs ''audio'' then modality_audio
     else if type = qs ''video'' then Bit_Operations.or modality_image modality_video
     else 0)"

definition content_modalities :: "(json \<Rightarrow> qstring) \<Rightarrow> json list \<Rightarrow> u32 res" where
  "content_modalities compacted content = bindr (native_content compacted content (1024 * 1024)) (\<lambda>bs.
     Inr (fold (\<lambda>b m. Bit_Operations.or m (block_modality b)) bs modality_text))"

definition evidence_entry :: "(byte list \<Rightarrow> qstring) \<Rightarrow> json_object \<Rightarrow> json list \<Rightarrow> json list res" where
  "evidence_entry digest block out = bindr (media_bytes block) (\<lambda>bytes.
     let entry = jobj [(''type'', jvalue block ''type''), (''mimeType'', jvalue block ''mimeType''),
           (''bytes'', JNum (of_nat (length bytes))), (''sha256'', JStr (digest bytes))];
         stamped = (if jhas block ''timestamp_ms'' then oput (qs ''timestamp_ms'') (jvalue block ''timestamp_ms'') entry else entry)
     in Inr (out @ [JObj stamped]))"

definition evidence_block :: "(byte list \<Rightarrow> qstring) \<Rightarrow> json \<Rightarrow> json list \<Rightarrow> json list res" where
  "evidence_block digest b out =
     (let block = to_object b; type = to_string (jvalue block ''type'') in
      if type = qs ''video'' then fold_res (\<lambda>f. evidence_entry digest (to_object f)) (to_array (jvalue block ''frames'')) out
      else if type = qs ''image'' \<or> type = qs ''audio'' then evidence_entry digest block out
      else Inr out)"

definition media_evidence :: "(json \<Rightarrow> qstring) \<Rightarrow> (byte list \<Rightarrow> qstring) \<Rightarrow> json list \<Rightarrow> json list res" where
  "media_evidence compacted digest content = bindr (native_content compacted content (1024 * 1024)) (\<lambda>bs.
     fold_res (evidence_block digest) bs [])"

section \<open>The normal form of blocks\<close>

definition media_fields :: "qstring \<Rightarrow> qstring \<Rightarrow> byte list \<Rightarrow> (string \<times> json) list" where
  "media_fields type mime b = [(''type'', JStr type), (''mimeType'', JStr mime), (''data'', JStr (encode64 b))]"

definition normal_media :: "json_object \<Rightarrow> bool" where
  "normal_media m \<longleftrightarrow> (\<exists>type mime b. m = jobj (media_fields type mime b) \<and> media_ok type mime \<and> b \<noteq> [])"

definition frame_stamp :: "json \<Rightarrow> rat" where
  "frame_stamp f = to_double (jvalue (to_object f) ''timestamp_ms'')"

definition normal_frame :: "json \<Rightarrow> bool" where
  "normal_frame f \<longleftrightarrow> (\<exists>mime b t. f = JObj (oput (qs ''timestamp_ms'') (JNum t) (jobj (media_fields (qs ''image'') mime b)))
     \<and> media_ok (qs ''image'') mime \<and> b \<noteq> [] \<and> 0 \<le> t \<and> t \<le> 9007199254740991)"

definition normal_block :: "json_object \<Rightarrow> bool" where
  "normal_block m \<longleftrightarrow> (\<exists>t. m = text_block (JStr t)) \<or> normal_media m
     \<or> (\<exists>fs. m = jobj [(''type'', JStr (qs ''video'')), (''frames'', JArr fs)] \<and> fs \<noteq> [] \<and> length fs \<le> 64
          \<and> (\<forall>f \<in> set fs. normal_frame f) \<and> sorted_wrt (<) (map frame_stamp fs))"

text \<open>The media items of a block in normal form.\<close>

definition media_items :: "json_object \<Rightarrow> int" where
  "media_items m = (if jvalue m ''type'' = JStr (qs ''video'') then int (length (to_array (jvalue m ''frames'')))
     else if jvalue m ''type'' = JStr (qs ''text'') then 0 else 1)"

lemma jobj_value: "distinct (map fst kvs) \<Longrightarrow>
    jvalue (jobj kvs) k = (case map_of kvs k of None \<Rightarrow> JUndefined | Some v \<Rightarrow> v)"
  by (simp add: jvalue_def map_of_jobj)

lemma media_block_normal:
  "media_block block = Inr m \<longleftrightarrow> (\<exists>b. m = jobj (media_fields (to_string (jvalue block ''type'')) (to_string (jvalue block ''mimeType'')) b)
     \<and> jvalue block ''data'' = JStr (encode64 b) \<and> b \<noteq> []
     \<and> media_ok (to_string (jvalue block ''type'')) (to_string (jvalue block ''mimeType'')))"
  by (auto simp: media_block_def Let_def media_bytes_iff media_fields_def)

lemma media_blockD: "media_block block = Inr m \<Longrightarrow> normal_media m"
  unfolding media_block_normal normal_media_def by blast

lemma media_fields_values [simp]:
  "jvalue (jobj (media_fields type mime b)) ''type'' = JStr type"
  "jvalue (jobj (media_fields type mime b)) ''mimeType'' = JStr mime"
  "jvalue (jobj (media_fields type mime b)) ''data'' = JStr (encode64 b)"
  by (simp_all add: media_fields_def jobj_value)

lemma media_block_fix: "media_ok type mime \<Longrightarrow> b \<noteq> [] \<Longrightarrow>
    media_block (jobj (media_fields type mime b)) = Inr (jobj (media_fields type mime b))"
  by (auto simp: media_block_normal)

lemma jvalue_oput: "jvalue (oput (qs k) v m) j = (if j = k then v else jvalue m j)"
  by (simp add: jvalue_def)

lemma video_frames_normal:
  "fold_res video_frame items (t, fs) = Inr (t', fs') \<Longrightarrow>
     (\<forall>f \<in> set fs. normal_frame f) \<Longrightarrow> sorted_wrt (<) (map frame_stamp fs) \<Longrightarrow> (\<forall>f \<in> set fs. frame_stamp f \<le> t) \<Longrightarrow>
     length fs' = length fs + length items \<and> (\<forall>f \<in> set fs'. normal_frame f) \<and> sorted_wrt (<) (map frame_stamp fs')"
proof (induction items arbitrary: t fs)
  case Nil
  then show ?case by simp
next
  case (Cons item items)
  from Cons.prems(1) obtain u gs where step: "video_frame item (t, fs) = Inr (u, gs)"
    and rest: "fold_res video_frame items (u, gs) = Inr (t', fs')" by auto
  from step obtain m where stamp: "jvalue (to_object item) ''timestamp_ms'' = JNum u" "0 \<le> u" "u \<le> 9007199254740991" "t < u"
    and m: "media_block (oput (qs ''type'') (JStr (qs ''image'')) (to_object item)) = Inr m"
    and gs: "gs = fs @ [JObj (oput (qs ''timestamp_ms'') (JNum u) m)]"
    by (cases "jvalue (to_object item) ''timestamp_ms''") (auto simp: video_frame_def Let_def)
  let ?f = "JObj (oput (qs ''timestamp_ms'') (JNum u) m)"
  from m obtain mime b where "m = jobj (media_fields (qs ''image'') mime b)" "media_ok (qs ''image'') mime" "b \<noteq> []"
    unfolding media_block_normal by (auto simp: jvalue_oput)
  then have f: "normal_frame ?f" "frame_stamp ?f = u"
    using stamp by (auto simp: normal_frame_def frame_stamp_def jvalue_oput)
  have "\<forall>g \<in> set fs. frame_stamp g < u" using Cons.prems(4) stamp(4) by fastforce
  then have "sorted_wrt (<) (map frame_stamp gs)" "\<forall>g \<in> set gs. frame_stamp g \<le> u" "\<forall>g \<in> set gs. normal_frame g"
    using Cons.prems(2,3) f by (auto simp: gs sorted_wrt_append less_imp_le)
  from Cons.IH [OF rest this(3,1,2)] show ?case by (simp add: gs)
qed

lemma video_frames_fix:
  "(\<forall>f \<in> set items. normal_frame f) \<Longrightarrow> sorted_wrt (<) (map frame_stamp items) \<Longrightarrow> (\<forall>f \<in> set items. t < frame_stamp f) \<Longrightarrow>
     \<exists>t'. fold_res video_frame items (t, fs) = Inr (t', fs @ items)"
proof (induction items arbitrary: t fs)
  case Nil
  then show ?case by simp
next
  case (Cons f items)
  then obtain mime b u where f: "f = JObj (oput (qs ''timestamp_ms'') (JNum u) (jobj (media_fields (qs ''image'') mime b)))"
    "media_ok (qs ''image'') mime" "b \<noteq> []" "0 \<le> u" "u \<le> 9007199254740991"
    by (auto simp: normal_frame_def)
  have stamp: "frame_stamp f = u" by (simp add: f(1) frame_stamp_def jvalue_oput)
  have "media_block (oput (qs ''type'') (JStr (qs ''image'')) (to_object f)) = Inr (jobj (media_fields (qs ''image'') mime b))"
    using f by (auto simp: media_block_normal jvalue_oput)
  then have "video_frame f (t, fs) = Inr (u, fs @ [f])"
    using f(4,5) stamp Cons.prems(3) by (simp add: video_frame_def Let_def f(1) jvalue_oput require_def)
  moreover obtain t' where "fold_res video_frame items (u, fs @ [f]) = Inr (t', (fs @ [f]) @ items)"
    using Cons.IH [of u "fs @ [f]"] Cons.prems stamp by auto
  ultimately show ?case by simp
qed

lemma media_type: "media_ok type mime \<Longrightarrow> type = qs ''image'' \<or> type = qs ''audio''"
  by (auto simp: media_ok_def)

lemma normal_mediaI: "normal_media m \<Longrightarrow> normal_block m \<and> media_items m = 1"
  by (auto simp: normal_block_def normal_media_def media_items_def dest: media_type)

lemma normal_text: "is_string v \<Longrightarrow> normal_block (text_block v) \<and> media_items (text_block v) = 0"
  by (cases v) (auto simp: normal_block_def media_items_def text_block_def jobj_value)

lemma image_url_normal: "image_url_block b = Inr m \<Longrightarrow> normal_media m"
  by (auto simp: image_url_block_def Let_def dest: media_blockD)

lemma input_audio_normal: "input_audio_block b = Inr m \<Longrightarrow> normal_media m"
  by (auto simp: input_audio_block_def Let_def dest: media_blockD)

lemma resource_normal: "resource_block b = Inr (m, n) \<Longrightarrow> normal_block m \<and> n = media_items m"
  by (auto simp: resource_block_def Let_def normal_text normal_mediaI dest!: media_blockD split: if_splits)

lemma video_normal:
  assumes "video_block b = Inr (m, n)"
  shows "normal_block m \<and> n = media_items m"
proof -
  from assms obtain t fs where "fold_res video_frame (to_array (jvalue b ''frames'')) (-1, []) = Inr (t, fs)"
    "m = jobj [(''type'', JStr (qs ''video'')), (''frames'', JArr fs)]" "n = int (length fs)"
    "to_array (jvalue b ''frames'') \<noteq> []" "length (to_array (jvalue b ''frames'')) \<le> 64"
    by (auto simp: video_block_def Let_def)
  with video_frames_normal [OF this(1)] show ?thesis by (auto simp: normal_block_def media_items_def jobj_value)
qed

lemma content_block_normal: "content_block compacted item = Inr (m, n) \<Longrightarrow> normal_block m \<and> n = media_items m"
  unfolding content_block_def Let_def
  by (auto simp: normal_text normal_mediaI dest!: image_url_normal input_audio_normal media_blockD dest: resource_normal
      video_normal split: if_split_asm)

lemma video_block_fix:
  assumes "fs \<noteq> []" "length fs \<le> 64" "\<forall>f \<in> set fs. normal_frame f" "sorted_wrt (<) (map frame_stamp fs)"
  shows "video_block (jobj [(''type'', JStr (qs ''video'')), (''frames'', JArr fs)])
    = Inr (jobj [(''type'', JStr (qs ''video'')), (''frames'', JArr fs)], int (length fs))"
proof -
  have "-1 < frame_stamp f" if "normal_frame f" for f
    using that by (auto simp: normal_frame_def frame_stamp_def jvalue_oput)
  then obtain t where "fold_res video_frame fs (-1, []) = Inr (t, fs)"
    using video_frames_fix [OF assms(3,4), of "-1" "[]"] assms(3) by auto
  then show ?thesis using assms(1,2) by (simp add: video_block_def Let_def jobj_value)
qed

lemma content_block_fix:
  assumes "normal_block m"
  shows "content_block compacted (JObj m) = Inr (m, media_items m)"
  using assms unfolding normal_block_def
proof (elim disjE exE conjE)
  fix t
  assume "m = text_block (JStr t)"
  then show ?thesis by (simp add: content_block_def Let_def text_block_def jobj_value media_items_def)
next
  assume normal: "normal_media m"
  then obtain type mime b where m: "m = jobj (media_fields type mime b)" "media_ok type mime" "b \<noteq> []"
    by (auto simp: normal_media_def)
  then show ?thesis
    using media_block_fix [OF m(2,3)] media_type [OF m(2)] by (auto simp: m(1) content_block_def Let_def media_items_def)
next
  fix fs
  assume m: "m = jobj [(''type'', JStr (qs ''video'')), (''frames'', JArr fs)]" and "fs \<noteq> []" "length fs \<le> 64"
    "\<forall>f \<in> set fs. normal_frame f" "sorted_wrt (<) (map frame_stamp fs)"
  from video_block_fix [OF this(2-)] show ?thesis
    by (simp add: m content_block_def Let_def jobj_value media_items_def)
qed

lemma add_block_iff: "add_block compacted item st = Inr st' \<longleftrightarrow>
    (\<exists>m n. content_block compacted item = Inr (m, n) \<and> st' = (fst st @ [JObj m], snd st + n))"
  by (auto simp: add_block_def bindr_Inr_iff)

lemma add_blocks_normal:
  "fold_res (add_block compacted) items (out, k) = Inr (out', k') \<Longrightarrow>
     \<exists>ms. out' = out @ map JObj ms \<and> length ms = length items \<and> list_all normal_block ms
       \<and> k' = k + sum_list (map media_items ms)"
proof (induction items arbitrary: out k)
  case Nil
  then show ?case by simp
next
  case (Cons item items)
  from Cons.prems have "\<exists>m n. content_block compacted item = Inr (m, n)
      \<and> fold_res (add_block compacted) items (out @ [JObj m], k + n) = Inr (out', k')"
    by (auto simp: add_block_iff)
  then obtain m n where step: "content_block compacted item = Inr (m, n)"
    and rest: "fold_res (add_block compacted) items (out @ [JObj m], k + n) = Inr (out', k')" by blast
  from Cons.IH [OF rest] obtain ms where "out' = (out @ [JObj m]) @ map JObj ms" "length ms = length items"
    "list_all normal_block ms" "k' = k + n + sum_list (map media_items ms)" by blast
  then show ?case using content_block_normal [OF step] by (intro exI [of _ "m # ms"]) simp
qed

lemma add_blocks_fix:
  "list_all normal_block ms \<Longrightarrow> fold_res (add_block compacted) (map JObj ms) (out, k)
     = Inr (out @ map JObj ms, k + sum_list (map media_items ms))"
proof (induction ms arbitrary: out k)
  case Nil
  then show ?case by simp
next
  case (Cons m ms)
  then show ?case using content_block_fix [of m compacted] by (simp add: add_block_def)
qed

lemma native_content_iff: "native_content compacted content n = Inr rs \<longleftrightarrow>
    length content \<le> 64 \<and> 0 < n \<and> int (length (compacted (JArr content))) \<le> n
    \<and> (\<exists>k. fold_res (add_block compacted) content ([], 0) = Inr (rs, k) \<and> k \<le> 64)"
  by (auto simp: native_content_def bindr_Inr_iff)

section \<open>Properties\<close>

text \<open>
  Media data is accepted exactly when it is the canonical base64 text of a nonempty byte
  string, and the bytes handed to the runtime are that string: no second spelling of the same bytes
  and no character outside Latin-1 passes.
\<close>

theorem media_bytes_canonical:
  "media_bytes block = Inr b \<longleftrightarrow> jvalue block ''data'' = JStr (encode64 b) \<and> b \<noteq> []"
  by (fact media_bytes_iff)

text \<open>
  C40. Normalizing content yields one block per input block, each of them a text, an image or audio
  clip with canonical data, or a video of at most 64 frames with strictly increasing timestamps, and
  at most 64 media items in all; normalizing the result again changes nothing, as long as its text
  fits the limit.
\<close>

theorem native_content_normal:
  assumes "native_content compacted content n = Inr rs"
  shows "\<exists>ms. rs = map JObj ms \<and> length ms = length content \<and> list_all normal_block ms
    \<and> sum_list (map media_items ms) \<le> 64
    \<and> (int (length (compacted (JArr rs))) \<le> n \<longrightarrow> native_content compacted rs n = Inr rs)"
proof -
  from assms obtain k where "fold_res (add_block compacted) content ([], 0) = Inr (rs, k)" "k \<le> 64"
    and n: "length content \<le> 64" "0 < n" by (auto simp: native_content_iff)
  with add_blocks_normal [OF this(1)] obtain ms where ms: "rs = map JObj ms" "length ms = length content"
    "list_all normal_block ms" "sum_list (map media_items ms) \<le> 64" by auto
  have "native_content compacted rs n = Inr rs" if "int (length (compacted (JArr rs))) \<le> n"
    using that n ms add_blocks_fix [OF ms(3), of compacted "[]" 0] by (simp add: native_content_iff)
  with ms show ?thesis by blast
qed

definition sample_content :: "json list" where
  "sample_content = [JObj (text_block (JStr (qs ''hi''))),
     JObj (jobj [(''type'', JStr (qs ''input_audio'')), (''input_audio'', JObj (jobj
       [(''format'', JStr (qs ''mp3'')), (''data'', JStr (encode64 [1, 2, 3]))]))])]"

definition sample_normal :: "json list" where
  "sample_normal = [JObj (text_block (JStr (qs ''hi''))),
     JObj (jobj (media_fields (qs ''audio'') (qs ''audio/mpeg'') [1, 2, 3]))]"

lemma sample_blocks: "native_content (\<lambda>_. []) sample_content 1024 = Inr sample_normal"
proof -
  have "media_ok (qs ''audio'') (qs ''audio/mpeg'')" by (simp add: media_ok_def)
  then have "media_block (jobj (media_fields (qs ''audio'') (qs ''audio/mpeg'') [1, 2, 3]))
      = Inr (jobj (media_fields (qs ''audio'') (qs ''audio/mpeg'') [1, 2, 3]))"
    by (rule media_block_fix) simp
  then have "content_block (\<lambda>_. []) (sample_content ! 1) = Inr (jobj (media_fields (qs ''audio'') (qs ''audio/mpeg'') [1, 2, 3]), 1)"
    by (simp add: sample_content_def content_block_def input_audio_block_def Let_def jobj_value media_fields_def
        del: encode64.simps)
  moreover have "content_block (\<lambda>_. []) (sample_content ! 0) = Inr (text_block (JStr (qs ''hi'')), 0)"
    by (simp add: sample_content_def content_block_def Let_def jobj_value text_block_def)
  ultimately show ?thesis
    by (simp add: native_content_iff sample_content_def sample_normal_def add_block_def)
qed

theorem native_content_normal_witness:
  "\<exists>ms. sample_normal = map JObj ms \<and> length ms = length sample_content \<and> list_all normal_block ms
     \<and> sum_list (map media_items ms) \<le> 64 \<and> native_content (\<lambda>_. []) sample_normal 1024 = Inr sample_normal"
  using native_content_normal [OF sample_blocks] by simp

end
