(* ===== verification/Effects.thy ===== *)
theory Effects
  imports Types
begin

text \<open>
  Code that changes a state and may throw: a function from the state to the state after it and its
  result. A throw keeps what was changed before it, as in the source. \<open>triple P m Q E\<close> says
  that from a state with \<open>P\<close>, a return establishes \<open>Q\<close> and a throw \<open>E\<close>; the
  rules in \<open>triples\<close> take a composed operation apart.
\<close>

named_theorems triples \<open>rules for pre- and postconditions of effectful code\<close>

type_synonym ('s, 'a) act = "'s \<Rightarrow> 's \<times> 'a res"

definition ret :: "'a \<Rightarrow> ('s, 'a) act" where
  "ret x s = (s, Inr x)"

definition lift_res :: "'a res \<Rightarrow> ('s, 'a) act" where
  "lift_res r s = (s, r)"

definition raise :: "error_code \<Rightarrow> string \<Rightarrow> ('s, 'a) act" where
  "raise c m s = (s, throw c m)"

definition act_bind :: "('s, 'a) act \<Rightarrow> ('a \<Rightarrow> ('s, 'b) act) \<Rightarrow> ('s, 'b) act" where
  "act_bind m f s = (case m s of (s', Inl e) \<Rightarrow> (s', Inl e) | (s', Inr x) \<Rightarrow> f x s')"

definition gets :: "('s \<Rightarrow> 'a) \<Rightarrow> ('s, 'a) act" where
  "gets f s = (s, Inr (f s))"

definition modify :: "('s \<Rightarrow> 's) \<Rightarrow> ('s, unit) act" where
  "modify f s = (f s, Inr ())"

text \<open>\<^verbatim>\<open>try { m } catch (...) { h }\<close>.\<close>

definition try_catch :: "('s, 'a) act \<Rightarrow> (exn \<Rightarrow> ('s, 'a) act) \<Rightarrow> ('s, 'a) act" where
  "try_catch m h s = (case m s of (s', Inl e) \<Rightarrow> h e s' | (s', Inr x) \<Rightarrow> (s', Inr x))"

text \<open>A range-for loop over a list computed before it.\<close>

primrec for_each :: "('a \<Rightarrow> ('s, unit) act) \<Rightarrow> 'a list \<Rightarrow> ('s, unit) act" where
  "for_each f [] = ret ()"
| "for_each f (x # xs) = act_bind (f x) (\<lambda>_. for_each f xs)"

primrec act_map :: "('a \<Rightarrow> ('s, 'b) act) \<Rightarrow> 'a list \<Rightarrow> ('s, 'b list) act" where
  "act_map f [] = ret []"
| "act_map f (x # xs) = act_bind (f x) (\<lambda>y. act_bind (act_map f xs) (\<lambda>ys. ret (y # ys)))"

lemma act_simps [simp]:
  "ret x s = (s, Inr x)" "lift_res r s = (s, r)" "raise c m s = (s, throw c m)"
  "gets g s = (s, Inr (g s))" "modify f s = (f s, Inr ())"
  by (simp_all add: ret_def lift_res_def raise_def gets_def modify_def)

lemma act_bind_simps [simp]:
  "m s = (s', Inr x) \<Longrightarrow> act_bind m f s = f x s'"
  "m s = (s', Inl e) \<Longrightarrow> act_bind m f s = (s', Inl e)"
  by (simp_all add: act_bind_def)

lemma act_bind_throw [simp]: "m s = (s', throw c q) \<Longrightarrow> act_bind m f s = (s', throw c q)"
  by (simp add: act_bind_def throw_def)

lemma act_bind_Inr: "act_bind m f s = (s', Inr y) \<longleftrightarrow>
    (\<exists>s1 x. m s = (s1, Inr x) \<and> f x s1 = (s', Inr y))"
  by (auto simp: act_bind_def split: prod.split sum.split)

lemma act_bind_Inl: "act_bind m f s = (s', Inl e) \<longleftrightarrow>
    m s = (s', Inl e) \<or> (\<exists>s1 x. m s = (s1, Inr x) \<and> f x s1 = (s', Inl e))"
  by (auto simp: act_bind_def split: prod.split sum.split)

lemma act_bind_cong [fundef_cong]:
  "m s = m' s' \<Longrightarrow> (\<And>s1 x. m' s' = (s1, Inr x) \<Longrightarrow> f x s1 = f' x s1) \<Longrightarrow> act_bind m f s = act_bind m' f' s'"
  by (auto simp: act_bind_def split: prod.split sum.split)

section \<open>Pre- and postconditions\<close>

definition triple :: "('s \<Rightarrow> bool) \<Rightarrow> ('s, 'a) act \<Rightarrow> ('a \<Rightarrow> 's \<Rightarrow> bool) \<Rightarrow> ('s \<Rightarrow> bool) \<Rightarrow> bool" where
  "triple P m Q E \<longleftrightarrow> (\<forall>s. P s \<longrightarrow> (case m s of (s', Inl e) \<Rightarrow> E s' | (s', Inr x) \<Rightarrow> Q x s'))"

lemma tripleI:
  "(\<And>s s' x. P s \<Longrightarrow> m s = (s', Inr x) \<Longrightarrow> Q x s') \<Longrightarrow>
   (\<And>s s' e. P s \<Longrightarrow> m s = (s', Inl e) \<Longrightarrow> E s') \<Longrightarrow> triple P m Q E"
  by (auto simp: triple_def split: prod.split sum.split)

lemma tripleD:
  assumes "triple P m Q E" and "P s"
  shows "m s = (s', Inr x) \<Longrightarrow> Q x s'" and "m s = (s', Inl e) \<Longrightarrow> E s'"
  using assms by (auto simp: triple_def split: prod.splits)

lemma triple_weaken:
  "triple P m Q E \<Longrightarrow> (\<And>s. P' s \<Longrightarrow> P s) \<Longrightarrow> (\<And>x s. Q x s \<Longrightarrow> Q' x s) \<Longrightarrow> (\<And>s. E s \<Longrightarrow> E' s) \<Longrightarrow>
     triple P' m Q' E'"
  by (fastforce simp: triple_def split: prod.splits sum.splits)

lemma triple_ret [triples]: "triple (Q x) (ret x) Q E"
  by (simp add: triple_def)

lemma triple_lift: "triple P (lift_res r) (\<lambda>x s. P s \<and> r = Inr x) P"
  by (auto simp: triple_def split: sum.split)

lemma triple_raise [triples]: "triple E (raise c m) Q E"
  by (simp add: triple_def throw_def)

lemma triple_gets: "triple P (gets f) (\<lambda>x s. P s \<and> x = f s) E"
  by (simp add: triple_def)

lemma triple_modify [triples]: "triple (\<lambda>s. Q () (f s)) (modify f) Q E"
  by (simp add: triple_def)

lemma triple_bind:
  "triple P m R E \<Longrightarrow> (\<And>x. triple (R x) (f x) Q E) \<Longrightarrow> triple P (act_bind m f) Q E"
  by (fastforce simp: triple_def act_bind_def split: prod.splits sum.splits)

lemma triple_try:
  "triple P m Q R \<Longrightarrow> (\<And>e. triple R (h e) Q E) \<Longrightarrow> triple P (try_catch m h) Q E"
  by (fastforce simp: triple_def try_catch_def split: prod.splits sum.splits)

lemma triple_if: "triple P m Q E \<Longrightarrow> triple P m' Q E \<Longrightarrow> triple P (if b then m else m') Q E"
  by simp

lemma triple_for_each:
  "(\<And>x. x \<in> set xs \<Longrightarrow> triple I (f x) (\<lambda>_. I) E) \<Longrightarrow> triple I (for_each f xs) (\<lambda>_. I) E"
proof (induction xs)
  case Nil
  then show ?case by (simp add: triple_def)
next
  case (Cons x xs)
  then show ?case by (auto intro!: triple_bind [of I "f x" "\<lambda>_. I"])
qed

lemma triple_act_map:
  "(\<And>x. x \<in> set xs \<Longrightarrow> triple I (f x) (\<lambda>_. I) E) \<Longrightarrow> triple I (act_map f xs) (\<lambda>_. I) E"
proof (induction xs)
  case Nil
  then show ?case by (simp add: triple_def)
next
  case (Cons x xs)
  have last: "triple I (ret (y # ys)) (\<lambda>_. I) E" for y ys by (simp add: triple_def)
  have "triple I (act_bind (act_map f xs) (\<lambda>ys. ret (y # ys))) (\<lambda>_. I) E" for y
    using Cons last by (intro triple_bind [of I _ "\<lambda>_. I"]) simp_all
  with Cons.prems show ?case by (auto intro!: triple_bind [of I "f x" "\<lambda>_. I"])
qed

text \<open>An operation that keeps an invariant, however it ends.\<close>

abbreviation keeps :: "('s \<Rightarrow> bool) \<Rightarrow> ('s, 'a) act \<Rightarrow> bool" where
  "keeps I m \<equiv> triple I m (\<lambda>_. I) I"

lemma keeps_iff: "keeps I m \<longleftrightarrow> (\<forall>s. I s \<longrightarrow> I (fst (m s)))"
  unfolding triple_def by (fastforce split: prod.splits sum.splits)

lemma keepsD: "keeps I m \<Longrightarrow> I s \<Longrightarrow> m s = (s', r) \<Longrightarrow> I s'"
  by (metis fst_conv keeps_iff)

lemma keeps_basic [triples]:
  "keeps I (ret x)" "keeps I (lift_res r)" "keeps I (raise c m)" "keeps I (gets f)"
  by (simp_all add: keeps_iff)

lemma keeps_bind [triples]: "keeps I m \<Longrightarrow> (\<And>x. keeps I (f x)) \<Longrightarrow> keeps I (act_bind m f)"
  by (rule triple_bind)

lemma keeps_try [triples]: "keeps I m \<Longrightarrow> (\<And>e. keeps I (h e)) \<Longrightarrow> keeps I (try_catch m h)"
  by (rule triple_try)

lemma keeps_for_each [triples]: "(\<And>x. keeps I (f x)) \<Longrightarrow> keeps I (for_each f xs)"
  by (rule triple_for_each)

lemma keeps_act_map [triples]: "(\<And>x. keeps I (f x)) \<Longrightarrow> keeps I (act_map f xs)"
  by (rule triple_act_map)

text \<open>Code that only observes keeps every function of the state that its steps keep.\<close>

lemma keeps_same: "keeps (\<lambda>s. g s = g s0) m \<Longrightarrow> g s0 = g (fst (m s0))"
  by (simp add: keeps_iff)

end
