(* ===== verification/ModelManager.thy ===== *)
theory ModelManager
  imports Effects Residency Runtimes Manifest
begin

text \<open>
  The owner of the loaded models (\<^verbatim>\<open>src/service/ModelManager.h\<close>,
  \<^verbatim>\<open>src/service/ModelManager.cpp\<close>): it keeps the runtime manager, the residency policy and
  the table of loaded models in step, evicts idle models to make room, and remembers the
  configuration of models it evicted. The catalog on disk, the registry's aliases, the clock, the
  free memory and the cancellation token are observed through \<open>models_env\<close>; successive
  observations within a run are numbered by the counter \<open>mg_tick\<close>. The callback that runs
  before an unload changes \<open>mg_host\<close>, the state of the service around the manager.
\<close>

section \<open>State and environment\<close>

record model_info =
  mi_model :: model_record
  mi_context_tokens :: int
  mi_options :: json_object
  mi_execution :: execution_selection
  mi_memory :: memory_estimate
  mi_keep_alive :: int
  mi_expires_in :: int
  mi_active :: int

record resolved_model =
  rsv_record :: model_record
  rsv_directory :: qstring
  rsv_entry_path :: qstring

record 'h models_env =
  env_options :: service_options
  env_canonical :: "qstring \<Rightarrow> qstring res"
  env_resolve :: "qstring \<Rightarrow> resolved_model res"
  env_verify :: "qstring \<Rightarrow> model_verification res"
  env_remove :: "qstring \<Rightarrow> unit res"
  env_list :: model_listing
  env_install :: "qstring \<Rightarrow> model_record res"
  env_pull :: "qstring \<Rightarrow> model_record res"
  env_file_path :: "qstring \<Rightarrow> qstring \<Rightarrow> qstring"
  env_path_exists :: "qstring \<Rightarrow> bool"
  env_before_unload :: "qstring \<Rightarrow> 'h \<Rightarrow> 'h"
  env_clock :: "nat \<Rightarrow> int"
  env_ram :: "nat \<Rightarrow> u64 option"
  env_cancelled :: "nat \<Rightarrow> bool"
  env_load_checks :: "nat \<Rightarrow> nat \<Rightarrow> bool"

record ('m, 'h) models =
  mg_runtimes :: "'m runtime_manager"
  mg_residency :: residency
  mg_loaded :: "(qstring, model_info) omap"
  mg_remembered :: "(qstring, model_load_request) omap"
  mg_host :: 'h
  mg_observed :: "model_info list"
  mg_observed_at :: int
  mg_tick :: nat

type_synonym ('m, 'h, 'a) models_act = "(('m, 'h) models, 'a) act"

definition make_models :: "service_options \<Rightarrow> hardware_info \<Rightarrow> 'h \<Rightarrow> ('m, 'h) models" where
  "make_models opts hw host = \<lparr>mg_runtimes = make_runtimes (max_models opts) hw,
     mg_residency = make_residency opts hw, mg_loaded = [], mg_remembered = [], mg_host = host,
     mg_observed = [], mg_observed_at = 0, mg_tick = 0\<rparr>"

definition observe :: "(nat \<Rightarrow> 'a) \<Rightarrow> ('m, 'h, 'a) models_act" where
  "observe f s = (s\<lparr>mg_tick := Suc (mg_tick s)\<rparr>, Inr (f (mg_tick s)))"

definition on_residency :: "(residency \<Rightarrow> residency res) \<Rightarrow> ('m, 'h, unit) models_act" where
  "on_residency f s = (case f (mg_residency s) of Inl e \<Rightarrow> (s, Inl e)
     | Inr r \<Rightarrow> (s\<lparr>mg_residency := r\<rparr>, Inr ()))"

definition on_runtimes :: "('m runtime_manager \<Rightarrow> 'm runtime_manager res) \<Rightarrow> ('m, 'h, unit) models_act" where
  "on_runtimes f s = (case f (mg_runtimes s) of Inl e \<Rightarrow> (s, Inl e)
     | Inr r \<Rightarrow> (s\<lparr>mg_runtimes := r\<rparr>, Inr ()))"

definition throw_if_set :: "bool \<Rightarrow> ('m, 'h, unit) models_act" where
  "throw_if_set c = (if c then raise Cancelled ''Request cancelled'' else ret ())"

section \<open>Reports\<close>

definition entry_of :: "qstring \<Rightarrow> ('m, 'h, residency_entry) models_act" where
  "entry_of k s = (s, res_get (mg_residency s) k)"

text \<open>The conversion to milliseconds truncates, which the maximum with 0 makes the same as flooring.\<close>

definition expires_in :: "'h models_env \<Rightarrow> residency_entry \<Rightarrow> ('m, 'h, int) models_act" where
  "expires_in env e = (if re_active e \<noteq> 0 then ret (- 1)
     else act_bind (observe (env_clock env)) (\<lambda>now. ret (max 0 ((re_expires e - now) div 1000000))))"

definition loaded_info :: "'h models_env \<Rightarrow> qstring \<Rightarrow> ('m, 'h, model_info) models_act" where
  "loaded_info env k = act_bind (gets mg_loaded) (\<lambda>m. case map_of m k of
     None \<Rightarrow> raise NotFound ''Model is not loaded''
   | Some info \<Rightarrow> act_bind (entry_of k) (\<lambda>e. act_bind (expires_in env e) (\<lambda>t.
       ret (info\<lparr>mi_memory := re_memory e, mi_keep_alive := re_keep_alive e, mi_expires_in := t,
         mi_active := re_active e\<rparr>))))"

definition loaded_list :: "'h models_env \<Rightarrow> ('m, 'h, model_info list) models_act" where
  "loaded_list env = act_bind (gets mg_loaded) (\<lambda>m. act_map (loaded_info env) (okeys m))"

definition publish :: "'h models_env \<Rightarrow> ('m, 'h, unit) models_act" where
  "publish env = act_bind (loaded_list env) (\<lambda>infos. act_bind (observe (env_clock env)) (\<lambda>now.
     modify (\<lambda>s. s\<lparr>mg_observed := infos, mg_observed_at := now\<rparr>)))"

definition describe_models :: "'h models_env \<Rightarrow> service_stats \<Rightarrow> ('m, 'h, service_stats) models_act" where
  "describe_models env st = act_bind (observe (env_ram env)) (\<lambda>available.
     act_bind (gets mg_residency) (\<lambda>r. act_bind (lift_res (res_bytes r)) (\<lambda>n.
       ret (st\<lparr>resident_bytes := n, stat_memory_budget_bytes := r_budget r,
         available_ram_bytes := (case available of None \<Rightarrow> 0 | Some a \<Rightarrow> a),
         available_ram_known := available \<noteq> None, default_keep_alive_ms := r_keep_alive r,
         model_loads := r_loads r, model_evictions := r_evictions r\<rparr>))))"

section \<open>Eviction\<close>

definition evict_model :: "'h models_env \<Rightarrow> bool \<Rightarrow> qstring \<Rightarrow> ('m, 'h, unit) models_act" where
  "evict_model env automatic k =
     act_bind (entry_of k) (\<lambda>e.
     if re_active e \<noteq> 0 then raise ModelInUse ''Active model cannot be unloaded''
     else act_bind (modify (\<lambda>s. s\<lparr>mg_host := env_before_unload env k (mg_host s)\<rparr>)) (\<lambda>_.
       act_bind (on_runtimes (manager_unload k)) (\<lambda>_.
       act_bind (on_residency (res_erased k automatic)) (\<lambda>_.
       act_bind (modify (\<lambda>s. s\<lparr>mg_loaded := odel k (mg_loaded s)\<rparr>)) (\<lambda>_.
       publish env)))))"

text \<open>What the reports leave alone.\<close>

definition same_models :: "('m, 'h) models \<Rightarrow> ('m, 'h) models \<Rightarrow> bool" where
  "same_models s s' \<longleftrightarrow> mg_runtimes s' = mg_runtimes s \<and> mg_residency s' = mg_residency s
     \<and> mg_loaded s' = mg_loaded s \<and> mg_remembered s' = mg_remembered s \<and> mg_host s' = mg_host s"

lemma same_refl [simp]: "same_models s s"
  by (simp add: same_models_def)

lemma same_trans: "same_models s t \<Longrightarrow> same_models t u \<Longrightarrow> same_models s u"
  by (simp add: same_models_def)

lemma same_tick [simp]: "same_models s (t\<lparr>mg_tick := n\<rparr>) \<longleftrightarrow> same_models s t"
  "same_models (s\<lparr>mg_tick := n\<rparr>) t \<longleftrightarrow> same_models s t"
  by (simp_all add: same_models_def)

lemma keeps_observe [triples]: "keeps (same_models s0) (observe f)"
  by (simp add: keeps_iff observe_def)

lemma keeps_entry [triples]: "keeps (same_models s0) (entry_of k)"
  by (simp add: keeps_iff entry_of_def)

lemma keeps_expires [triples]: "keeps (same_models s0) (expires_in env e)"
  unfolding expires_in_def by (intro triple_if triples)

lemma keeps_info [triples]: "keeps (same_models s0) (loaded_info env k)"
  unfolding loaded_info_def by (intro keeps_bind triples) (auto split: option.split intro!: triples)

lemma keeps_list [triples]: "keeps (same_models s0) (loaded_list env)"
  unfolding loaded_list_def by (intro triples)

lemma keeps_publish [triples]: "keeps (same_models s0) (publish env)"
  unfolding publish_def by (intro triples) (simp add: keeps_iff same_models_def)

lemma publish_same: "publish env s = (s', r) \<Longrightarrow> same_models s s'"
  by (rule keepsD [OF keeps_publish]) simp_all

lemma observe_eq [simp]: "observe f s = (s\<lparr>mg_tick := Suc (mg_tick s)\<rparr>, Inr (f (mg_tick s)))"
  by (simp add: observe_def)

text \<open>The state before the eviction is published.\<close>

definition dropped :: "'h models_env \<Rightarrow> bool \<Rightarrow> qstring \<Rightarrow> ('m, 'h) models \<Rightarrow> ('m, 'h) models" where
  "dropped env a k s = s\<lparr>mg_host := env_before_unload env k (mg_host s),
     mg_runtimes := (mg_runtimes s)\<lparr>rm_models := odel k (rm_models (mg_runtimes s))\<rparr>,
     mg_residency := (mg_residency s)\<lparr>r_evictions := (if a then r_evictions (mg_residency s) + 1
       else r_evictions (mg_residency s)), r_entries := odel k (r_entries (mg_residency s))\<rparr>,
     mg_loaded := odel k (mg_loaded s)\<rparr>"

lemma evict_eq:
  "evict_model env a k s = (case map_of (r_entries (mg_residency s)) k of
     None \<Rightarrow> (s, Inl out_of_range)
   | Some e \<Rightarrow> if re_active e \<noteq> 0 then (s, throw ModelInUse ''Active model cannot be unloaded'')
       else case map_of (rm_models (mg_runtimes s)) k of
         None \<Rightarrow> (s\<lparr>mg_host := env_before_unload env k (mg_host s)\<rparr>, throw NotFound ''Model not found'')
       | Some m \<Rightarrow> publish env (dropped env a k s))"
  by (simp add: evict_model_def act_bind_def entry_of_def res_get_def on_runtimes_def on_residency_def
      res_erased_def manager_unload_def manager_get_def dropped_def throw_def split: option.split)

text \<open>A successful eviction takes the entry away, which bounds the two eviction loops.\<close>

lemma evict_shorter:
  assumes "evict_model env a k s = (s', Inr u)"
  shows "length (r_entries (mg_residency s')) < length (r_entries (mg_residency s))"
proof -
  obtain e where e: "map_of (r_entries (mg_residency s)) k = Some e"
    and pub: "publish env (dropped env a k s) = (s', Inr u)"
    using assms by (auto simp: evict_eq throw_def split: option.splits if_splits)
  have "mg_residency s' = mg_residency (dropped env a k s)"
    using publish_same [OF pub] by (simp add: same_models_def)
  moreover have "\<exists>p \<in> set (r_entries (mg_residency s)). fst p = k" using map_of_SomeD [OF e] by force
  then have "length (odel k (r_entries (mg_residency s))) < length (r_entries (mg_residency s))"
    unfolding odel_def by (auto intro!: length_filter_less)
  ultimately show ?thesis by (simp add: dropped_def)
qed

text \<open>The loop that makes room for a load, and the one that gives way to other programs.\<close>

function make_room :: "'h models_env \<Rightarrow> u64 \<Rightarrow> ('m, 'h) models \<Rightarrow> ('m, 'h) models \<times> unit res" where
  "make_room env required s =
     (let available = env_ram env (mg_tick s); s1 = s\<lparr>mg_tick := Suc (mg_tick s)\<rparr> in
      case fits (mg_residency s1) required available of
        Inl e \<Rightarrow> (s1, Inl e)
      | Inr True \<Rightarrow> (s1, Inr ())
      | Inr False \<Rightarrow>
          if env_cancelled env (mg_tick s1) then (s1\<lparr>mg_tick := Suc (mg_tick s1)\<rparr>, throw Cancelled ''Request cancelled'')
          else let s2 = s1\<lparr>mg_tick := Suc (mg_tick s1)\<rparr>; victim = oldest_idle (mg_residency s2) in
            if victim = [] then (s2, throw ResourceLimit ''Insufficient available RAM or no idle model can be evicted'')
            else case evict_model env True victim s2 of
              (s3, Inl e) \<Rightarrow> (s3, Inl e)
            | (s3, Inr _) \<Rightarrow> make_room env required s3)"
  by pat_completeness auto
termination
  by (relation "measure (\<lambda>(env, required, s). length (r_entries (mg_residency s)))")
    (auto dest!: evict_shorter [OF sym])

function relieve_pressure :: "'h models_env \<Rightarrow> ('m, 'h) models \<Rightarrow> ('m, 'h) models \<times> unit res" where
  "relieve_pressure env s =
     (let available = env_ram env (mg_tick s); s1 = s\<lparr>mg_tick := Suc (mg_tick s)\<rparr> in
      case available of None \<Rightarrow> (s1, Inr ())
      | Some n \<Rightarrow>
          if \<not> n < r_reserve (mg_residency s1) then (s1, Inr ())
          else let victim = oldest_idle (mg_residency s1) in
            if victim = [] then (s1, Inr ())
            else case evict_model env True victim s1 of
              (s2, Inl e) \<Rightarrow> (s2, Inl e)
            | (s2, Inr _) \<Rightarrow> relieve_pressure env s2)"
  by pat_completeness auto
termination
  by (relation "measure (\<lambda>(env, s). length (r_entries (mg_residency s)))")
    (auto dest!: evict_shorter [OF sym])

declare make_room.simps [simp del] relieve_pressure.simps [simp del]

definition maintain :: "'h models_env \<Rightarrow> ('m, 'h, unit) models_act" where
  "maintain env = act_bind (observe (env_clock env)) (\<lambda>now.
     act_bind (gets (\<lambda>s. expired now (mg_residency s))) (\<lambda>ids.
     act_bind (for_each (evict_model env True) ids) (\<lambda>_. relieve_pressure env)))"

section \<open>Loading\<close>

definition config_conflict :: "model_load_request \<Rightarrow> model_info \<Rightarrow> bool" where
  "config_conflict rq info \<longleftrightarrow>
     (load_context_tokens rq \<noteq> 0 \<and> load_context_tokens rq \<noteq> mi_context_tokens info)
     \<or> (load_options rq \<noteq> [] \<and> load_options rq \<noteq> mi_options info)"

text \<open>\<^verbatim>\<open>remembered_.at(id).keepAliveMs = residency_.get(id).keepAliveMs\<close>.\<close>

definition remember_keep_alive :: "qstring \<Rightarrow> ('m, 'h, unit) models_act" where
  "remember_keep_alive k = act_bind (entry_of k) (\<lambda>e. act_bind (gets mg_remembered) (\<lambda>m.
     case map_of m k of None \<Rightarrow> lift_res (Inl out_of_range)
     | Some c \<Rightarrow> modify (\<lambda>s. s\<lparr>mg_remembered := oput k (c\<lparr>load_keep_alive := re_keep_alive e\<rparr>) (mg_remembered s)\<rparr>)))"

definition load_again :: "'h models_env \<Rightarrow> qstring \<Rightarrow> model_load_request \<Rightarrow> model_info \<Rightarrow> ('m, 'h, model_info) models_act" where
  "load_again env k rq existing =
     (if config_conflict rq existing then raise ModelInUse ''Unload the model before changing its load configuration''
      else act_bind (observe (env_clock env)) (\<lambda>now.
        act_bind (on_residency (res_touch k (load_keep_alive rq) now)) (\<lambda>_.
        act_bind (remember_keep_alive k) (\<lambda>_.
        act_bind (publish env) (\<lambda>_. loaded_info env k)))))"

definition merge_config :: "model_load_request option \<Rightarrow> model_load_request \<Rightarrow> model_load_request" where
  "merge_config previous rq = (case previous of None \<Rightarrow> rq
     | Some p \<Rightarrow> rq\<lparr>load_context_tokens := (if load_context_tokens rq = 0 then load_context_tokens p else load_context_tokens rq),
         load_options := (if load_options rq = [] then load_options p else load_options rq),
         load_keep_alive := (if load_keep_alive rq < 0 then load_keep_alive p else load_keep_alive rq)\<rparr>)"

definition choose_context :: "service_options \<Rightarrow> model_load_request \<Rightarrow> model_manifest \<Rightarrow> int res" where
  "choose_context opts config manifest =
     (let context = (if load_context_tokens config \<noteq> 0 then load_context_tokens config
        else min (mm_context_length manifest) (min (default_context_tokens opts) (max_cached_context_tokens opts)))
      in if context < 2 then throw InvalidArgument ''Model context must exceed one token''
         else if context > mm_context_length manifest then throw ContextOverflow ''Requested context exceeds manifest context_length''
         else if context > max_cached_context_tokens opts then throw ResourceLimit ''Model context exceeds cache token budget''
         else Inr context)"

definition spec_of :: "'h models_env \<Rightarrow> qstring \<Rightarrow> resolved_model \<Rightarrow> int \<Rightarrow> model_load_request \<Rightarrow> model_spec" where
  "spec_of env k resolved context config =
     (let manifest = mr_manifest (rsv_record resolved) in
      \<lparr>spec_id = k, spec_path = rsv_entry_path resolved, spec_context_tokens = context,
       spec_options = load_options config, spec_format = mm_format manifest,
       spec_projector_path = (if mm_projector manifest = [] then []
          else env_file_path env (rsv_directory resolved) (mm_projector manifest))\<rparr>)"

definition new_info :: "resolved_model \<Rightarrow> int \<Rightarrow> model_load_request \<Rightarrow> execution_selection \<Rightarrow> model_info" where
  "new_info resolved context config execution =
     \<lparr>mi_model = (rsv_record resolved)\<lparr>mr_loaded := True\<rparr>, mi_context_tokens = context,
      mi_options = load_options config, mi_execution = execution,
      mi_memory = \<lparr>weights_bytes = 0, context_bytes = 0, overhead_bytes = 0, basis = []\<rparr>,
      mi_keep_alive = 0, mi_expires_in = 0, mi_active = 0\<rparr>"

text \<open>The try block that enters the model into the tables, and the handler that takes it out again.\<close>

definition enter_model :: "'h models_env \<Rightarrow> qstring \<Rightarrow> model_load_request \<Rightarrow> int \<Rightarrow> memory_estimate \<Rightarrow> int \<Rightarrow>
    model_info \<Rightarrow> qstring \<Rightarrow> ('m, 'h, unit) models_act" where
  "enter_model env k config context memory now info uri = try_catch
     (act_bind (on_residency (res_loaded k memory (load_keep_alive config) now)) (\<lambda>_.
      act_bind (modify (\<lambda>s. if ohas (mg_loaded s) k then s else s\<lparr>mg_loaded := oput k info (mg_loaded s)\<rparr>)) (\<lambda>_.
      act_bind (entry_of k) (\<lambda>e.
      modify (\<lambda>s. s\<lparr>mg_remembered := oput k \<lparr>load_model = uri, load_context_tokens = context,
        load_options = load_options config, load_keep_alive = re_keep_alive e\<rparr> (mg_remembered s)\<rparr>)))))
     (\<lambda>e. act_bind (on_runtimes (manager_unload k)) (\<lambda>_.
      act_bind (on_residency (res_erased k False)) (\<lambda>_.
      act_bind (modify (\<lambda>s. s\<lparr>mg_loaded := odel k (mg_loaded s)\<rparr>)) (\<lambda>_. lift_res (Inl e)))))"

definition runtimes_load :: "'h models_env \<Rightarrow> model_spec \<Rightarrow> ('m, 'h, runtime_model_info) models_act" where
  "runtimes_load env spec s = (let s1 = s\<lparr>mg_tick := Suc (mg_tick s)\<rparr> in
     case manager_load (env_load_checks env (mg_tick s)) (env_path_exists env) spec (mg_runtimes s1) of
       Inl e \<Rightarrow> (s1, Inl e)
     | Inr (rm, ri) \<Rightarrow> (s1\<lparr>mg_runtimes := rm\<rparr>, Inr ri))"

text \<open>What is decided before room is made; nothing has changed yet.\<close>

record load_plan =
  lp_config :: model_load_request
  lp_resolved :: resolved_model
  lp_context :: int
  lp_memory :: memory_estimate
  lp_required :: u64

definition plan_load :: "'h models_env \<Rightarrow> qstring \<Rightarrow> model_load_request \<Rightarrow> ('m, 'h) models \<Rightarrow> load_plan res" where
  "plan_load env k rq s =
     (let config = merge_config (map_of (mg_remembered s) k) rq; opts = env_options env in
      bindr (env_resolve env (load_model rq)) (\<lambda>resolved.
      bindr (choose_context opts config (mr_manifest (rsv_record resolved))) (\<lambda>context.
      bindr (env_verify env (load_model rq)) (\<lambda>verification.
      bindr (if mv_valid verification then Inr ()
        else throwq IntegrityFailure (join_with (qs ''; '') (mv_issues verification))) (\<lambda>_.
      bindr (manager_estimate (mg_runtimes s) (spec_of env k resolved context config)
        (min (max_cached_contexts opts) (max_cached_context_tokens opts div context))) (\<lambda>memory.
      bindr (total_bytes memory) (\<lambda>required.
      bindr (require (\<not> required > r_budget (mg_residency s)) ResourceLimit
        ''Model weights, KV and runtime reservation exceed the service memory budget'') (\<lambda>_.
        Inr \<lparr>lp_config = config, lp_resolved = resolved, lp_context = context, lp_memory = memory,
          lp_required = required\<rparr>))))))))"

definition carry_out :: "'h models_env \<Rightarrow> qstring \<Rightarrow> qstring \<Rightarrow> load_plan \<Rightarrow> ('m, 'h, model_info) models_act" where
  "carry_out env k uri p =
     act_bind (make_room env (lp_required p)) (\<lambda>_.
     act_bind (runtimes_load env (spec_of env k (lp_resolved p) (lp_context p) (lp_config p))) (\<lambda>loaded.
     act_bind (observe (env_clock env)) (\<lambda>now.
     act_bind (enter_model env k (lp_config p) (lp_context p) (lp_memory p) now
       (new_info (lp_resolved p) (lp_context p) (lp_config p) (ri_execution loaded)) uri) (\<lambda>_.
     act_bind (publish env) (\<lambda>_. loaded_info env k)))))"

definition load_new :: "'h models_env \<Rightarrow> qstring \<Rightarrow> model_load_request \<Rightarrow> ('m, 'h, model_info) models_act" where
  "load_new env k rq = act_bind (gets (plan_load env k rq)) (\<lambda>plan.
     act_bind (lift_res plan) (carry_out env k (load_model rq)))"

definition load_request_ok :: "model_load_request \<Rightarrow> unit res" where
  "load_request_ok rq =
     bindr (require (load_context_tokens rq \<ge> 0) InvalidArgument ''contextTokens must be zero or positive'') (\<lambda>_.
     require (\<not> (load_keep_alive rq < -1 \<or> load_keep_alive rq > 7 * 86400000)) InvalidArgument
       ''keepAliveMs must be -1 or 0..7 days'')"

definition models_load :: "'h models_env \<Rightarrow> model_load_request \<Rightarrow> ('m, 'h, model_info) models_act" where
  "models_load env input =
     act_bind (lift_res (env_canonical env (load_model input))) (\<lambda>uri.
     act_bind (lift_res (require (\<forall>key \<in> set forbidden_options. \<not> jhas (load_options input) key) InvalidArgument
       ''Execution device is selected by the service'')) (\<lambda>_.
     act_bind (lift_res (model_id uri)) (\<lambda>k.
     act_bind (lift_res (load_request_ok input)) (\<lambda>_.
     act_bind (gets mg_loaded) (\<lambda>m. case map_of m k of
       Some existing \<Rightarrow> load_again env k (input\<lparr>load_model := uri\<rparr>) existing
     | None \<Rightarrow> load_new env k (input\<lparr>load_model := uri\<rparr>))))))"

section \<open>Leases and the other operations\<close>

definition models_acquire :: "'h models_env \<Rightarrow> qstring \<Rightarrow> int \<Rightarrow> ('m, 'h, 'm loaded_model) models_act" where
  "models_acquire env k keep_alive =
     act_bind (lift_res (model_uri k)) (\<lambda>uri.
     act_bind (models_load env \<lparr>load_model = uri, load_context_tokens = 0, load_options = [],
       load_keep_alive = keep_alive\<rparr>) (\<lambda>_.
     act_bind (observe (env_clock env)) (\<lambda>now.
     act_bind (on_residency (res_acquire k keep_alive now)) (\<lambda>_.
     act_bind (publish env) (\<lambda>_.
     act_bind (gets mg_runtimes) (\<lambda>rm. lift_res (manager_get rm k)))))))"

definition models_release :: "'h models_env \<Rightarrow> qstring \<Rightarrow> ('m, 'h, unit) models_act" where
  "models_release env k =
     act_bind (observe (env_clock env)) (\<lambda>now.
     act_bind (on_residency (res_release k now)) (\<lambda>_.
     act_bind (remember_keep_alive k) (\<lambda>_.
     act_bind (maintain env) (\<lambda>_. publish env))))"

definition models_unload :: "'h models_env \<Rightarrow> qstring \<Rightarrow> ('m, 'h, unit) models_act" where
  "models_unload env reference =
     act_bind (lift_res (env_canonical env reference)) (\<lambda>uri.
     act_bind (lift_res (model_id uri)) (\<lambda>k.
     act_bind (loaded_info env k) (\<lambda>_. evict_model env False k)))"

definition models_remove :: "'h models_env \<Rightarrow> qstring \<Rightarrow> ('m, 'h, unit) models_act" where
  "models_remove env reference =
     act_bind (lift_res (env_canonical env reference)) (\<lambda>uri.
     act_bind (lift_res (model_id uri)) (\<lambda>k.
     act_bind (gets mg_loaded) (\<lambda>m.
     if ohas m k then raise ModelInUse ''Unload the model before removing its installed files''
     else act_bind (lift_res (env_remove env uri)) (\<lambda>_.
       modify (\<lambda>s. s\<lparr>mg_remembered := odel k (mg_remembered s)\<rparr>)))))"

definition models_list :: "'h models_env \<Rightarrow> ('m, 'h, model_listing) models_act" where
  "models_list env = act_bind (gets mg_loaded) (\<lambda>m. ret ((env_list env)\<lparr>ml_models :=
     map (\<lambda>r. r\<lparr>mr_loaded := ohas m (mm_id (mr_manifest r))\<rparr>) (ml_models (env_list env))\<rparr>))"

definition models_resolve :: "'h models_env \<Rightarrow> qstring \<Rightarrow> ('m, 'h, model_record) models_act" where
  "models_resolve env reference =
     act_bind (lift_res (env_canonical env reference)) (\<lambda>uri.
     act_bind (lift_res (env_resolve env uri)) (\<lambda>resolved.
     act_bind (gets mg_loaded) (\<lambda>m. let r = rsv_record resolved in
       ret (r\<lparr>mr_loaded := ohas m (mm_id (mr_manifest r))\<rparr>))))"

definition models_verify :: "'h models_env \<Rightarrow> qstring \<Rightarrow> ('m, 'h, model_verification) models_act" where
  "models_verify env reference =
     act_bind (lift_res (env_canonical env reference)) (\<lambda>uri. lift_res (env_verify env uri))"

definition models_install :: "'h models_env \<Rightarrow> qstring \<Rightarrow> ('m, 'h, model_record) models_act" where
  "models_install env directory = lift_res (env_install env directory)"

definition models_pull :: "'h models_env \<Rightarrow> qstring \<Rightarrow> ('m, 'h, model_record) models_act" where
  "models_pull env reference =
     act_bind (lift_res (env_pull env reference)) (\<lambda>r. act_bind (gets mg_loaded) (\<lambda>m.
       ret (r\<lparr>mr_loaded := ohas m (mm_id (mr_manifest r))\<rparr>)))"

definition models_add_runtime :: "'m runtime option \<Rightarrow> ('m, 'h, unit) models_act" where
  "models_add_runtime rt = on_runtimes (add_runtime rt)"

end
