(* ===== verification/ModelRules.thy ===== *)
theory ModelRules
  imports ModelManager
begin

text \<open>
  The effect of each operation of the model manager on its tables, whatever it is given and however
  it ends. \<open>evictions\<close> relates the states before and after a sequence of evictions of idle
  models; a load that throws has done nothing else.
\<close>

section \<open>The tables agree\<close>

definition row_ok :: "('m, 'h) models \<Rightarrow> qstring \<Rightarrow> model_info \<Rightarrow> bool" where
  "row_ok s k i \<longleftrightarrow>
     (\<exists>m c e. map_of (rm_models (mg_runtimes s)) k = Some m \<and> map_of (mg_remembered s) k = Some c
        \<and> map_of (r_entries (mg_residency s)) k = Some e
        \<and> spec_id (lm_spec m) = k \<and> spec_context_tokens (lm_spec m) = mi_context_tokens i
        \<and> load_context_tokens c = mi_context_tokens i \<and> load_options c = mi_options i
        \<and> load_keep_alive c = re_keep_alive e)"

definition mg_inv :: "('m, 'h) models \<Rightarrow> bool" where
  "mg_inv s \<longleftrightarrow> res_inv (mg_residency s) \<and> owf (mg_loaded s) \<and> owf (mg_remembered s)
     \<and> owf (rm_models (mg_runtimes s))
     \<and> dom (map_of (mg_loaded s)) = dom (map_of (r_entries (mg_residency s)))
     \<and> dom (map_of (rm_models (mg_runtimes s))) = dom (map_of (r_entries (mg_residency s)))
     \<and> [] \<notin> dom (map_of (r_entries (mg_residency s)))
     \<and> rm_limit (mg_runtimes s) = r_limit (mg_residency s)
     \<and> (\<forall>k i. map_of (mg_loaded s) k = Some i \<longrightarrow> row_ok s k i)"

lemma mg_invI:
  assumes "res_inv (mg_residency s)" "owf (mg_loaded s)" "owf (mg_remembered s)"
    "owf (rm_models (mg_runtimes s))"
    "dom (map_of (mg_loaded s)) = dom (map_of (r_entries (mg_residency s)))"
    "dom (map_of (rm_models (mg_runtimes s))) = dom (map_of (r_entries (mg_residency s)))"
    "[] \<notin> dom (map_of (r_entries (mg_residency s)))"
    "rm_limit (mg_runtimes s) = r_limit (mg_residency s)"
    "\<And>k i. map_of (mg_loaded s) k = Some i \<Longrightarrow> row_ok s k i"
  shows "mg_inv s"
  using assms unfolding mg_inv_def by blast

lemma mg_inv_parts:
  assumes "mg_inv s"
  shows "res_inv (mg_residency s)" "owf (mg_loaded s)" "owf (mg_remembered s)"
    "owf (rm_models (mg_runtimes s))" "owf (r_entries (mg_residency s))"
    "dom (map_of (mg_loaded s)) = dom (map_of (r_entries (mg_residency s)))"
    "dom (map_of (rm_models (mg_runtimes s))) = dom (map_of (r_entries (mg_residency s)))"
    "[] \<notin> dom (map_of (r_entries (mg_residency s)))"
    "rm_limit (mg_runtimes s) = r_limit (mg_residency s)"
  using assms by (simp_all add: mg_inv_def res_inv_def)

lemma mg_inv_loaded:
  assumes "mg_inv s" and "map_of (mg_loaded s) k = Some i"
  obtains m c e where "map_of (rm_models (mg_runtimes s)) k = Some m" "map_of (mg_remembered s) k = Some c"
    "map_of (r_entries (mg_residency s)) k = Some e" "spec_id (lm_spec m) = k"
    "spec_context_tokens (lm_spec m) = mi_context_tokens i"
    "load_context_tokens c = mi_context_tokens i" "load_options c = mi_options i"
    "load_keep_alive c = re_keep_alive e"
  using assms unfolding mg_inv_def row_ok_def by blast

lemma mg_inv_entry:
  assumes "mg_inv s" and "map_of (r_entries (mg_residency s)) k = Some e"
  obtains i m where "map_of (mg_loaded s) k = Some i" "map_of (rm_models (mg_runtimes s)) k = Some m"
proof -
  have "k \<in> dom (map_of (mg_loaded s))" "k \<in> dom (map_of (rm_models (mg_runtimes s)))"
    using mg_inv_parts(6,7) [OF assms(1)] assms(2) by auto
  then show ?thesis using that by blast
qed

lemma mg_inv_same: "same_models s s' \<Longrightarrow> mg_inv s' \<longleftrightarrow> mg_inv s"
  by (simp add: mg_inv_def row_ok_def same_models_def)

lemma make_models_inv: "0 \<le> max_models opts \<Longrightarrow> mg_inv (make_models opts hw host)"
  using make_residency_inv [of opts hw]
  by (simp add: mg_inv_def make_models_def make_runtimes_def) (simp add: make_residency_def Let_def)

text \<open>Under the invariant the reports do not throw.\<close>

lemma info_total:
  assumes "mg_inv s" and "map_of (mg_loaded s) k = Some i"
  shows "\<exists>s' x. loaded_info env k s = (s', Inr x) \<and> same_models s s'
    \<and> mi_context_tokens x = mi_context_tokens i \<and> mi_options x = mi_options i"
proof -
  obtain e where e: "map_of (r_entries (mg_residency s)) k = Some e" using mg_inv_loaded [OF assms] .
  show ?thesis
    by (cases "re_active e = 0")
      (simp_all add: loaded_info_def assms(2) entry_of_def e res_get_def expires_in_def act_bind_def)
qed

lemma info_map_total:
  "mg_inv s \<Longrightarrow> set ks \<subseteq> dom (map_of (mg_loaded s)) \<Longrightarrow>
     \<exists>s' xs. act_map (loaded_info env) ks s = (s', Inr xs) \<and> same_models s s'"
proof (induction ks arbitrary: s)
  case Nil
  then show ?case by simp
next
  case (Cons k ks)
  then obtain i where "map_of (mg_loaded s) k = Some i" by auto
  with info_total [OF Cons.prems(1)] obtain s1 x where
    1: "loaded_info env k s = (s1, Inr x)" "same_models s s1" by blast
  then have "mg_inv s1" "set ks \<subseteq> dom (map_of (mg_loaded s1))"
    using Cons.prems mg_inv_same [of s s1] by (simp_all add: same_models_def)
  with Cons.IH obtain s2 xs where
    2: "act_map (loaded_info env) ks s1 = (s2, Inr xs)" "same_models s1 s2" by blast
  then show ?case using 1 same_trans by (simp add: act_bind_def) blast
qed

lemma publish_total:
  assumes "mg_inv s"
  shows "\<exists>s'. publish env s = (s', Inr ()) \<and> same_models s s'"
proof -
  have "set (okeys (mg_loaded s)) \<subseteq> dom (map_of (mg_loaded s))" by (simp add: dom_map_of_conv_image_fst)
  from info_map_total [OF assms this] obtain s1 xs where
    1: "act_map (loaded_info env) (okeys (mg_loaded s)) s = (s1, Inr xs)" "same_models s s1" by blast
  then have "loaded_list env s = (s1, Inr xs)" by (simp add: loaded_list_def act_bind_def)
  then show ?thesis
    using 1(2) unfolding publish_def act_bind_def by (simp add: same_models_def del: ex_simps)
qed

section \<open>Evictions\<close>

lemma dropped_fields [simp]:
  "mg_loaded (dropped env a k s) = odel k (mg_loaded s)"
  "mg_remembered (dropped env a k s) = mg_remembered s"
  "mg_host (dropped env a k s) = env_before_unload env k (mg_host s)"
  "mg_runtimes (dropped env a k s) = (mg_runtimes s)\<lparr>rm_models := odel k (rm_models (mg_runtimes s))\<rparr>"
  "r_entries (mg_residency (dropped env a k s)) = odel k (r_entries (mg_residency s))"
  "r_limit (mg_residency (dropped env a k s)) = r_limit (mg_residency s)"
  "r_budget (mg_residency (dropped env a k s)) = r_budget (mg_residency s)"
  "r_reserve (mg_residency (dropped env a k s)) = r_reserve (mg_residency s)"
  by (simp_all add: dropped_def)

lemma dropped_inv:
  assumes inv: "mg_inv s" and e: "map_of (r_entries (mg_residency s)) k = Some e" "re_active e = 0"
  shows "mg_inv (dropped env a k s)"
proof (rule mg_invI)
  note p = mg_inv_parts [OF inv]
  show "res_inv (mg_residency (dropped env a k s))"
    by (rule erased_inv [OF p(1), of k a]) (simp add: res_erased_def e dropped_def)
  show "row_ok (dropped env a k s) j i" if "map_of (mg_loaded (dropped env a k s)) j = Some i" for j i
  proof -
    have j: "map_of (mg_loaded s) j = Some i" "j \<noteq> k" using that by (auto split: if_splits)
    then have "row_ok s j i" using inv by (simp add: mg_inv_def)
    with j(2) show ?thesis by (simp add: row_ok_def)
  qed
  show "[] \<notin> dom (map_of (r_entries (mg_residency (dropped env a k s))))" using p(8) by auto
qed (use mg_inv_parts [OF inv] in simp_all)

lemma dropped_same: "same_models s t \<Longrightarrow> same_models (dropped env a k s) (dropped env a k t)"
  by (simp add: same_models_def dropped_def)

lemma evict_total:
  assumes inv: "mg_inv s" and e: "map_of (r_entries (mg_residency s)) k = Some e" "re_active e = 0"
  shows "\<exists>s'. evict_model env a k s = (s', Inr ()) \<and> same_models (dropped env a k s) s'"
proof -
  obtain m where "map_of (rm_models (mg_runtimes s)) k = Some m" using mg_inv_entry [OF inv e(1)] .
  then show ?thesis using publish_total [OF dropped_inv [OF inv e], of env env a] e by (simp add: evict_eq)
qed

text \<open>The models \<open>ks\<close>, each idle when its turn came, were evicted one after the other.\<close>

inductive evictions :: "'h models_env \<Rightarrow> ('m, 'h) models \<Rightarrow> qstring list \<Rightarrow> ('m, 'h) models \<Rightarrow> bool"
  for env :: "'h models_env" where
  none: "same_models s s' \<Longrightarrow> evictions env s [] s'"
| next_idle: "map_of (r_entries (mg_residency s)) k = Some e \<Longrightarrow> re_active e = 0 \<Longrightarrow>
    evictions env (dropped env True k s) ks s' \<Longrightarrow> evictions env s (k # ks) s'"

inductive_simps evictions_Nil [simp]: "evictions env s [] s'"
inductive_cases evictions_Cons: "evictions env s (k # ks) s'"

lemma evictions_start: "evictions env s ks s' \<Longrightarrow> same_models s t \<Longrightarrow> evictions env t ks s'"
proof (induction arbitrary: t rule: evictions.induct)
  case (none s s')
  then show ?case by (simp add: same_models_def)
next
  case (next_idle s k e ks s')
  then show ?case
    using dropped_same [OF next_idle.prems, of env True k]
    by (intro evictions.next_idle) (simp_all add: same_models_def)
qed

lemma evictions_end: "evictions env s ks s' \<Longrightarrow> same_models s' t \<Longrightarrow> evictions env s ks t"
  by (induction rule: evictions.induct) (auto intro: evictions.intros same_trans)

lemma evictions_trans: "evictions env s ks s1 \<Longrightarrow> evictions env s1 js s2 \<Longrightarrow> evictions env s (ks @ js) s2"
proof (induction rule: evictions.induct)
  case (none s s')
  then show ?case using evictions_start [of env s' js s2 s] by (simp add: same_models_def)
next
  case (next_idle s k e ks s')
  then show ?case by (simp add: evictions.next_idle)
qed

lemma evictions_keep_inv: "evictions env s ks s' \<Longrightarrow> mg_inv s \<Longrightarrow> mg_inv s'"
proof (induction rule: evictions.induct)
  case (none s s')
  then show ?case by (simp add: mg_inv_same)
next
  case (next_idle s k e ks s')
  then show ?case by (simp add: dropped_inv)
qed

lemma evictions_entries: "evictions env s ks s' \<Longrightarrow>
    map_of (r_entries (mg_residency s')) = map_of (r_entries (mg_residency s)) |` (- set ks)
    \<and> map_of (mg_loaded s') = map_of (mg_loaded s) |` (- set ks)
    \<and> map_of (rm_models (mg_runtimes s')) = map_of (rm_models (mg_runtimes s)) |` (- set ks)
    \<and> mg_remembered s' = mg_remembered s
    \<and> r_budget (mg_residency s') = r_budget (mg_residency s)
    \<and> r_reserve (mg_residency s') = r_reserve (mg_residency s)
    \<and> r_limit (mg_residency s') = r_limit (mg_residency s)"
proof (induction rule: evictions.induct)
  case (none s s')
  then show ?case by (simp add: same_models_def)
next
  case (next_idle s k e ks s')
  then show ?case by (auto simp: dropped_def restrict_map_def fun_eq_iff)
qed

lemma evictions_idle: "evictions env s ks s' \<Longrightarrow> j \<in> set ks \<Longrightarrow>
    \<exists>e. map_of (r_entries (mg_residency s)) j = Some e \<and> re_active e = 0"
proof (induction rule: evictions.induct)
  case (none s s')
  then show ?case by simp
next
  case (next_idle s k e ks s')
  then show ?case by (cases "j = k") (auto simp: dropped_def split: if_splits)
qed

lemma evictions_host: "evictions env s ks s' \<Longrightarrow> mg_host s' = fold (env_before_unload env) ks (mg_host s)"
  by (induction rule: evictions.induct) (simp_all add: same_models_def dropped_def)

lemma evictions_leases: "evictions env s ks s' \<Longrightarrow> lease_count (mg_residency s') = lease_count (mg_residency s)"
proof (rule ext)
  fix j assume ev: "evictions env s ks s'"
  show "lease_count (mg_residency s') j = lease_count (mg_residency s) j"
    using evictions_entries [OF ev] evictions_idle [OF ev, of j]
    by (cases "j \<in> set ks") (auto simp: lease_count_def)
qed

lemmas evictions_facts = evictions_keep_inv evictions_entries evictions_idle evictions_host evictions_leases

lemma evict_step:
  assumes "mg_inv s" and "map_of (r_entries (mg_residency s)) k = Some e" "re_active e = 0"
    and "evict_model env True k s = (s', r)"
  shows "r = Inr () \<and> evictions env s [k] s' \<and> mg_inv s'"
proof -
  from evict_total [OF assms(1-3), of env True] assms(4) have
    "r = Inr ()" "same_models (dropped env True k s) s'" by auto
  moreover have ev: "evictions env s [k] s'" using assms(2,3) calculation(2) by (auto intro: evictions.next_idle)
  ultimately show ?thesis using evictions_keep_inv [OF ev assms(1)] by simp
qed

lemma victim_idle:
  assumes "mg_inv s" and "oldest_idle (mg_residency s) \<noteq> []"
  shows "\<exists>e. map_of (r_entries (mg_residency s)) (oldest_idle (mg_residency s)) = Some e \<and> re_active e = 0"
  using oldest_idle_victim [OF mg_inv_parts(5) [OF assms(1)] refl assms(2)] by blast

lemma mg_inv_tick [simp]: "mg_inv (s\<lparr>mg_tick := n\<rparr>) \<longleftrightarrow> mg_inv s"
  by (rule mg_inv_same) (simp add: same_models_def)

lemma make_room_spec:
  "mg_inv s \<Longrightarrow> make_room env required s = (s', r) \<Longrightarrow>
     (\<exists>ks. evictions env s ks s') \<and> (r = Inr () \<longrightarrow> (\<exists>n. fits (mg_residency s') required (env_ram env n) = Inr True))"
proof (induction "length (r_entries (mg_residency s))" arbitrary: s rule: less_induct)
  case less
  let ?s1 = "s\<lparr>mg_tick := Suc (mg_tick s)\<rparr>"
  let ?s2 = "?s1\<lparr>mg_tick := Suc (mg_tick ?s1)\<rparr>"
  let ?v = "oldest_idle (mg_residency s)"
  obtain b where fits: "fits (mg_residency s) required (env_ram env (mg_tick s)) = Inr b"
    using fits_exact [OF mg_inv_parts(1) [OF less.prems(1)]] by blast
  have stay: ?case if "s' = ?s1 \<and> r = Inr () \<and> b \<or> s' = ?s2 \<and> r \<noteq> Inr ()"
    using that fits by (intro conjI exI [of _ "[]"]) auto
  show ?case
  proof (cases "b \<or> env_cancelled env (Suc (mg_tick s)) \<or> ?v = []")
    case True
    then show ?thesis using less.prems(2) fits
      by (intro stay, cases b) (auto simp: make_room.simps [of env required s] Let_def split: if_splits)
  next
    case False
    have inv2: "mg_inv ?s2" using less.prems(1) by simp
    obtain e where e: "map_of (r_entries (mg_residency ?s2)) ?v = Some e" "re_active e = 0"
      using victim_idle [OF less.prems(1)] False by auto
    obtain s3 q where ev: "evict_model env True ?v ?s2 = (s3, q)" by fastforce
    note st = evict_step [OF inv2 e ev]
    have next_run: "make_room env required s3 = (s', r)"
      using less.prems(2) fits False ev st by (simp add: make_room.simps [of env required s] Let_def)
    have "length (r_entries (mg_residency s3)) < length (r_entries (mg_residency s))"
      using evict_shorter [of env True ?v ?s2 s3] ev st by simp
    from less.hyps [OF this _ next_run] st have
      "(\<exists>ks. evictions env s3 ks s') \<and> (r = Inr () \<longrightarrow> (\<exists>n. fits (mg_residency s') required (env_ram env n) = Inr True))"
      by blast
    moreover have "evictions env s [?v] s3"
      using st evictions_start [of env ?s2 "[?v]" s3 s] by (simp add: same_models_def)
    ultimately show ?thesis using evictions_trans by blast
  qed
qed


lemma relieve_spec:
  "mg_inv s \<Longrightarrow> \<exists>s' ks n. relieve_pressure env s = (s', Inr ()) \<and> evictions env s ks s'
     \<and> (env_ram env n = None \<or> (\<exists>a. env_ram env n = Some a \<and> r_reserve (mg_residency s') \<le> a)
        \<or> oldest_idle (mg_residency s') = [])"
proof (induction "length (r_entries (mg_residency s))" arbitrary: s rule: less_induct)
  case less
  let ?s1 = "s\<lparr>mg_tick := Suc (mg_tick s)\<rparr>"
  let ?v = "oldest_idle (mg_residency s)"
  show ?case
  proof (cases "\<exists>a. env_ram env (mg_tick s) = Some a \<and> a < r_reserve (mg_residency s) \<and> ?v \<noteq> []")
    case False
    then have "relieve_pressure env s = (?s1, Inr ())"
      by (auto simp: relieve_pressure.simps [of env s] Let_def split: option.split)
    then show ?thesis using False
      by (intro exI [of _ ?s1] exI [of _ "[]"] exI [of _ "mg_tick s"])
        (auto simp: not_less split: option.split)
  next
    case True
    then obtain a where a: "env_ram env (mg_tick s) = Some a" "a < r_reserve (mg_residency s)" "?v \<noteq> []" by blast
    have inv1: "mg_inv ?s1" using less.prems(1) by simp
    obtain e where e: "map_of (r_entries (mg_residency ?s1)) ?v = Some e" "re_active e = 0"
      using victim_idle [OF less.prems(1) a(3)] by auto
    obtain s2 q where ev: "evict_model env True ?v ?s1 = (s2, q)" by fastforce
    note st = evict_step [OF inv1 e ev]
    have run: "relieve_pressure env s = relieve_pressure env s2"
      using a ev st by (simp add: relieve_pressure.simps [of env s] Let_def)
    have "length (r_entries (mg_residency s2)) < length (r_entries (mg_residency s))"
      using evict_shorter [of env True ?v ?s1 s2] ev st by simp
    from less.hyps [OF this] st obtain s' ks n where
      *: "relieve_pressure env s2 = (s', Inr ())" "evictions env s2 ks s'"
        "env_ram env n = None \<or> (\<exists>a. env_ram env n = Some a \<and> r_reserve (mg_residency s') \<le> a)
        \<or> oldest_idle (mg_residency s') = []" by blast
    have "evictions env s [?v] s2"
      using st evictions_start [of env ?s1 "[?v]" s2 s] by (simp add: same_models_def)
    then have "evictions env s ([?v] @ ks) s'" using *(2) by (rule evictions_trans)
    then show ?thesis using * run by metis
  qed
qed

lemma evict_each:
  "mg_inv s \<Longrightarrow> distinct ks \<Longrightarrow> \<forall>k \<in> set ks. \<exists>e. map_of (r_entries (mg_residency s)) k = Some e \<and> re_active e = 0 \<Longrightarrow>
     \<exists>s'. for_each (evict_model env True) ks s = (s', Inr ()) \<and> evictions env s ks s'"
proof (induction ks arbitrary: s)
  case Nil
  then show ?case by simp
next
  case (Cons k ks)
  then obtain e where e: "map_of (r_entries (mg_residency s)) k = Some e" "re_active e = 0" by auto
  obtain s1 q where ev: "evict_model env True k s = (s1, q)" by fastforce
  note st = evict_step [OF Cons.prems(1) e ev]
  have "map_of (r_entries (mg_residency s1)) = map_of (r_entries (mg_residency s)) |` (- {k})"
    using evictions_entries [of env s "[k]" s1] st by simp
  then have "\<forall>j \<in> set ks. \<exists>e. map_of (r_entries (mg_residency s1)) j = Some e \<and> re_active e = 0"
    using Cons.prems by (fastforce simp: restrict_map_def)
  with Cons.IH [of s1] st Cons.prems(2) obtain s' where
    "for_each (evict_model env True) ks s1 = (s', Inr ())" "evictions env s1 ks s'" by auto
  then show ?case using ev st evictions_trans [of env s "[k]" s1 ks s'] by simp
qed

text \<open>Maintenance returns, evicts idle models only, and leaves none that is overdue or in the way.\<close>

lemma maintain_spec:
  assumes inv: "mg_inv s"
  shows "\<exists>s' ks n. maintain env s = (s', Inr ()) \<and> evictions env s ks s'
    \<and> (\<forall>k e. map_of (r_entries (mg_residency s')) k = Some e \<and> re_active e = 0 \<longrightarrow> env_clock env (mg_tick s) < re_expires e)
    \<and> (env_ram env n = None \<or> (\<exists>a. env_ram env n = Some a \<and> r_reserve (mg_residency s') \<le> a)
        \<or> oldest_idle (mg_residency s') = [])"
proof -
  let ?s1 = "s\<lparr>mg_tick := Suc (mg_tick s)\<rparr>"
  let ?ids = "expired (env_clock env (mg_tick s)) (mg_residency s)"
  have wf: "owf (r_entries (mg_residency s))" using mg_inv_parts(5) [OF inv] .
  have ids: "k \<in> set ?ids \<longleftrightarrow> (\<exists>e. map_of (r_entries (mg_residency s)) k = Some e \<and> re_active e = 0
      \<and> re_expires e \<le> env_clock env (mg_tick s))" for k
    using om.mem_items [OF wf] by (force simp: expired_def)
  have "distinct ?ids"
    unfolding expired_def using owf_distinct [OF owf_filter [OF wf]] .
  with evict_each [of ?s1 ?ids env] inv ids obtain s2 where
    2: "for_each (evict_model env True) ?ids ?s1 = (s2, Inr ())" "evictions env ?s1 ?ids s2" by auto
  then have inv2: "mg_inv s2" using evictions_keep_inv inv by fastforce
  from relieve_spec [OF this] obtain s' ks n where
    3: "relieve_pressure env s2 = (s', Inr ())" "evictions env s2 ks s'"
       "env_ram env n = None \<or> (\<exists>a. env_ram env n = Some a \<and> r_reserve (mg_residency s') \<le> a)
        \<or> oldest_idle (mg_residency s') = []" by blast
  have ev: "evictions env s (?ids @ ks) s'"
    using evictions_trans [OF _ 3(2)] evictions_start [OF 2(2), of s] by (simp add: same_models_def)
  have "env_clock env (mg_tick s) < re_expires e"
    if "map_of (r_entries (mg_residency s')) k = Some e \<and> re_active e = 0" for k e
  proof -
    have "k \<notin> set ?ids" "map_of (r_entries (mg_residency s)) k = Some e"
      using that evictions_entries [OF ev] by (auto simp: restrict_map_def split: if_splits)
    then show ?thesis using ids [of k] that by (simp add: not_le)
  qed
  moreover have "maintain env s = (s', Inr ())" using 2(1) 3(1) by (simp add: maintain_def act_bind_def)
  ultimately show ?thesis using ev 3(3) by blast
qed

section \<open>Loading\<close>

lemma manager_load_effect:
  "manager_load c ex spec rm = Inr (rm', ri) \<Longrightarrow>
     \<exists>m. rm' = rm\<lparr>rm_models := oput (spec_id spec) m (rm_models rm)\<rparr> \<and> lm_spec m = spec"
  unfolding manager_load_def Let_def
  by (simp only: bindr_Inr_iff split: if_split_asm prod.split_asm) (auto split: prod.splits)

text \<open>The model \<open>k\<close> was entered into the tables as planned, and nothing else changed.\<close>

definition entered :: "'h models_env \<Rightarrow> qstring \<Rightarrow> qstring \<Rightarrow> load_plan \<Rightarrow> ('m, 'h) models \<Rightarrow> ('m, 'h) models \<Rightarrow> bool" where
  "entered env k uri p s s' \<longleftrightarrow> (\<exists>now m i e.
     res_loaded k (lp_memory p) (load_keep_alive (lp_config p)) now (mg_residency s) = Inr (mg_residency s')
     \<and> r_entries (mg_residency s') = oput k e (r_entries (mg_residency s)) \<and> re_active e = 0
     \<and> mg_runtimes s' = (mg_runtimes s)\<lparr>rm_models := oput k m (rm_models (mg_runtimes s))\<rparr>
     \<and> lm_spec m = spec_of env k (lp_resolved p) (lp_context p) (lp_config p)
     \<and> mg_loaded s' = oput k i (mg_loaded s) \<and> mi_context_tokens i = lp_context p
     \<and> mi_options i = load_options (lp_config p)
     \<and> mg_remembered s' = oput k \<lparr>load_model = uri, load_context_tokens = lp_context p,
         load_options = load_options (lp_config p), load_keep_alive = re_keep_alive e\<rparr> (mg_remembered s)
     \<and> mg_host s' = mg_host s)"

lemma entered_inv:
  assumes inv: "mg_inv s" and fresh: "map_of (mg_loaded s) k = None" and k: "k \<noteq> []"
    and en: "entered env k uri p s s'"
  shows "mg_inv s'"
proof -
  note q = mg_inv_parts [OF inv]
  obtain now m i e where
    res: "res_loaded k (lp_memory p) (load_keep_alive (lp_config p)) now (mg_residency s) = Inr (mg_residency s')"
    and ent: "r_entries (mg_residency s') = oput k e (r_entries (mg_residency s))"
    and rm: "mg_runtimes s' = (mg_runtimes s)\<lparr>rm_models := oput k m (rm_models (mg_runtimes s))\<rparr>"
      "lm_spec m = spec_of env k (lp_resolved p) (lp_context p) (lp_config p)"
    and ld: "mg_loaded s' = oput k i (mg_loaded s)" "mi_context_tokens i = lp_context p"
      "mi_options i = load_options (lp_config p)"
    and rem: "mg_remembered s' = oput k \<lparr>load_model = uri, load_context_tokens = lp_context p,
         load_options = load_options (lp_config p), load_keep_alive = re_keep_alive e\<rparr> (mg_remembered s)"
    using en unfolding entered_def by blast
  have lim: "r_limit (mg_residency s') = r_limit (mg_residency s)"
    using apply_params [of "OpLoaded k (lp_memory p) (load_keep_alive (lp_config p)) now"] res by simp
  have row: "row_ok s' j x" if "map_of (mg_loaded s') j = Some x" for j x
  proof (cases "j = k")
    case True
    then have "x = i" using that by (simp add: ld(1))
    then show ?thesis using True ld(2,3) by (simp add: row_ok_def ent rm rem spec_of_def Let_def)
  next
    case False
    then have "row_ok s j x" using that inv by (simp add: mg_inv_def ld)
    with False show ?thesis by (simp add: row_ok_def ent rm rem)
  qed
  show ?thesis
    by (rule mg_invI) (use q k lim row loaded_inv [OF q(1) res] in \<open>simp_all add: ent rm ld rem\<close>)
qed

lemma entered_leases: "entered env k uri p s s' \<Longrightarrow> map_of (r_entries (mg_residency s)) k = None \<Longrightarrow>
    lease_count (mg_residency s') = lease_count (mg_residency s)"
  by (auto simp: entered_def lease_count_def fun_eq_iff)

lemma entered_host: "entered env k uri p s s' \<Longrightarrow> mg_host s' = mg_host s"
  by (auto simp: entered_def)

lemma enter_model_ok:
  assumes inv: "mg_inv s0" and fresh: "map_of (mg_loaded s0) k = None"
    and s: "s = s0\<lparr>mg_runtimes := (mg_runtimes s0)\<lparr>rm_models := oput k m (rm_models (mg_runtimes s0))\<rparr>\<rparr>"
    and m: "lm_spec m = spec_of env k (lp_resolved p) (lp_context p) (lp_config p)"
    and req: "total_bytes (lp_memory p) = Inr (lp_required p)"
    and fit: "fits (mg_residency s0) (lp_required p) a = Inr True"
    and i: "mi_context_tokens i = lp_context p" "mi_options i = load_options (lp_config p)"
  shows "\<exists>s'. enter_model env k (lp_config p) (lp_context p) (lp_memory p) now i uri s = (s', Inr ())
    \<and> entered env k uri p s0 s'"
proof -
  let ?r = "mg_residency s0" and ?ka = "load_keep_alive (lp_config p)"
  have r: "mg_residency s = ?r" "mg_loaded s = mg_loaded s0" by (simp_all add: s)
  have absent: "map_of (r_entries ?r) k = None" using mg_inv_parts(6) [OF inv] fresh by (metis domIff)
  have fit0: "fits ?r (lp_required p) None = Inr True"
    using fit fits_exact [OF mg_inv_parts(1) [OF inv]] by simp
  define ttl where "ttl = (if ?ka < 0 then r_keep_alive ?r else ?ka)"
  define e where "e = \<lparr>re_memory = lp_memory p, re_keep_alive = ttl, re_expires = now + ttl * 1000000,
    re_access = r_clock ?r + 1, re_active = 0\<rparr>"
  define r' where "r' = ?r\<lparr>r_clock := r_clock ?r + 1, r_loads := r_loads ?r + 1, r_entries := oput k e (r_entries ?r)\<rparr>"
  have ld: "res_loaded k (lp_memory p) ?ka now ?r = Inr r'"
    using absent req fit0 by (simp add: res_loaded_def ohas_def Let_def r'_def e_def ttl_def)
  define s' where "s' = s\<lparr>mg_residency := r', mg_loaded := oput k i (mg_loaded s0),
    mg_remembered := oput k \<lparr>load_model = uri, load_context_tokens = lp_context p,
         load_options = load_options (lp_config p), load_keep_alive = re_keep_alive e\<rparr> (mg_remembered s0)\<rparr>"
  have entry: "res_get r' k = Inr e" by (simp add: res_get_def r'_def)
  have "enter_model env k (lp_config p) (lp_context p) (lp_memory p) now i uri s = (s', Inr ())"
    unfolding enter_model_def try_catch_def
    by (simp add: act_bind_def on_residency_def r ld ohas_def fresh entry_of_def entry s'_def)
      (simp add: s)
  moreover have "entered env k uri p s0 s'"
    unfolding entered_def using ld m i
    by (intro exI [of _ now] exI [of _ m] exI [of _ i] exI [of _ e]) (simp add: s'_def s, simp add: r'_def e_def)
  ultimately show ?thesis by blast
qed

lemma carry_out_spec:
  assumes inv: "mg_inv s" and fresh: "map_of (mg_loaded s) k = None" and k: "k \<noteq> []"
    and req: "total_bytes (lp_memory p) = Inr (lp_required p)"
    and run: "carry_out env k uri p s = (s', r)"
  shows "\<exists>ks s1. evictions env s ks s1 \<and> (case r of
       Inl e \<Rightarrow> same_models s1 s' \<and> (make_room env (lp_required p) s = (s1, Inl e) \<or>
         (\<exists>n. manager_load (env_load_checks env n) (env_path_exists env)
            (spec_of env k (lp_resolved p) (lp_context p) (lp_config p)) (mg_runtimes s1) = Inl e))
     | Inr info \<Rightarrow> entered env k uri p s1 s' \<and> mi_context_tokens info = lp_context p
         \<and> mi_options info = load_options (lp_config p))"
proof -
  let ?spec = "spec_of env k (lp_resolved p) (lp_context p) (lp_config p)"
  obtain s1 q where mk: "make_room env (lp_required p) s = (s1, q)" by fastforce
  from make_room_spec [OF inv mk] obtain ks where ks: "evictions env s ks s1"
    and fit: "q = Inr () \<Longrightarrow> \<exists>a. fits (mg_residency s1) (lp_required p) a = Inr True" by blast
  have inv1: "mg_inv s1" using evictions_keep_inv [OF ks inv] .
  have fresh1: "map_of (mg_loaded s1) k = None" using evictions_entries [OF ks] fresh by (simp add: restrict_map_def)
  show ?thesis
  proof (cases q)
    case (Inl e)
    then show ?thesis using run mk ks by (auto simp: carry_out_def intro!: exI [of _ s1])
  next
    case (Inr u)
    let ?s2 = "s1\<lparr>mg_tick := Suc (mg_tick s1)\<rparr>"
    show ?thesis
    proof (cases "manager_load (env_load_checks env (mg_tick s1)) (env_path_exists env) ?spec (mg_runtimes s1)")
      case (Inl e)
      then have "s' = ?s2 \<and> r = Inl e" using run mk Inr by (auto simp: carry_out_def runtimes_load_def act_bind_def)
      then show ?thesis using ks Inl by (intro exI [of _ ks] exI [of _ s1]) auto
    next
      case ok: (Inr y)
      obtain rm ri where y: "y = (rm, ri)" by (cases y)
      from manager_load_effect [OF ok [unfolded y]] obtain m where
        m: "rm = (mg_runtimes s1)\<lparr>rm_models := oput k m (rm_models (mg_runtimes s1))\<rparr>" "lm_spec m = ?spec"
        by (auto simp: spec_of_def Let_def)
      let ?i = "new_info (lp_resolved p) (lp_context p) (lp_config p) (ri_execution ri)"
      define s0 where "s0 = ?s2\<lparr>mg_tick := Suc (mg_tick ?s2)\<rparr>"
      define s3 where "s3 = s0\<lparr>mg_runtimes := (mg_runtimes s0)\<lparr>rm_models := oput k m (rm_models (mg_runtimes s0))\<rparr>\<rparr>"
      have same0: "same_models s1 s0" by (simp add: s0_def)
      then have inv0: "mg_inv s0" "map_of (mg_loaded s0) k = None"
        using inv1 fresh1 mg_inv_same [of s1 s0] by (simp_all add: same_models_def)
      obtain a where fit0: "fits (mg_residency s0) (lp_required p) a = Inr True"
        using fit Inr same0 by (auto simp: same_models_def)
      have info: "mi_context_tokens ?i = lp_context p" "mi_options ?i = load_options (lp_config p)"
        by (simp_all add: new_info_def)
      from enter_model_ok [OF inv0 s3_def m(2) req fit0 info, where now = "env_clock env (mg_tick ?s2)" and uri = uri]
      obtain s4 where s4: "enter_model env k (lp_config p) (lp_context p) (lp_memory p)
          (env_clock env (mg_tick ?s2)) ?i uri s3 = (s4, Inr ())" "entered env k uri p s0 s4" by blast
      have inv4: "mg_inv s4" using entered_inv [OF inv0 k s4(2)] .
      obtain s5 where s5: "publish env s4 = (s5, Inr ())" "same_models s4 s5" using publish_total [OF inv4] by blast
      have inv5: "mg_inv s5" using inv4 s5(2) by (simp add: mg_inv_same)
      obtain i where i: "map_of (mg_loaded s5) k = Some i" "mi_context_tokens i = lp_context p"
        "mi_options i = load_options (lp_config p)"
        using s4(2) s5(2) by (auto simp: entered_def same_models_def)
      from info_total [OF inv5 i(1)] obtain s6 x where s6: "loaded_info env k s5 = (s6, Inr x)" "same_models s5 s6"
        "mi_context_tokens x = lp_context p" "mi_options x = load_options (lp_config p)" using i by metis
      have s3: "s1\<lparr>mg_runtimes := rm, mg_tick := Suc (Suc (mg_tick s1))\<rparr> = s3"
        by (simp add: s3_def s0_def m(1))
      have "carry_out env k uri p s = (s6, Inr x)"
        unfolding carry_out_def using mk Inr ok y s4(1) s5(1) s6(1)
        by (simp add: act_bind_def runtimes_load_def s3)
      then have "s' = s6" "r = Inr x" using run by simp_all
      moreover have "entered env k uri p s1 s6"
        using s4(2) same0 same_trans [OF s5(2) s6(2)] by (simp add: entered_def same_models_def)
      ultimately show ?thesis using ks s6 by auto
    qed
  qed
qed

lemma plan_required: "plan_load env k rq s = Inr p \<Longrightarrow> total_bytes (lp_memory p) = Inr (lp_required p)"
  by (auto simp: plan_load_def Let_def split: if_splits)

text \<open>The entry was touched, its keep_alive remembered; nothing else changed.\<close>

definition refreshed :: "qstring \<Rightarrow> int \<Rightarrow> ('m, 'h) models \<Rightarrow> ('m, 'h) models \<Rightarrow> bool" where
  "refreshed k ka s s' \<longleftrightarrow> (\<exists>now c e. res_touch k ka now (mg_residency s) = Inr (mg_residency s')
     \<and> map_of (mg_remembered s) k = Some c
     \<and> map_of (r_entries (mg_residency s')) k = Some e
     \<and> mg_remembered s' = oput k (c\<lparr>load_keep_alive := re_keep_alive e\<rparr>) (mg_remembered s)
     \<and> mg_loaded s' = mg_loaded s \<and> mg_runtimes s' = mg_runtimes s \<and> mg_host s' = mg_host s)"

lemma touch_entries: "res_touch k ka now r = Inr r' \<Longrightarrow>
    map_of (r_entries r') = (map_of (r_entries r))(k \<mapsto> the (map_of (r_entries r') k))
    \<and> k \<in> dom (map_of (r_entries r)) \<and> r_limit r' = r_limit r"
  by (auto simp: res_touch_def split: option.splits)

lemma row_update:
  assumes row: "row_ok s j i"
    and ent: "map_of (r_entries (mg_residency s')) = (map_of (r_entries (mg_residency s)))(k \<mapsto> e)"
    and c: "map_of (mg_remembered s) k = Some c"
    and rem: "mg_remembered s' = oput k (c\<lparr>load_keep_alive := re_keep_alive e\<rparr>) (mg_remembered s)"
    and rm: "mg_runtimes s' = mg_runtimes s"
  shows "row_ok s' j i"
proof (cases "j = k")
  case True
  then show ?thesis using row c by (auto simp: row_ok_def ent rem rm)
next
  case False
  then show ?thesis using row by (simp add: row_ok_def ent rem rm)
qed

lemma refreshed_inv:
  assumes inv: "mg_inv s" and re: "refreshed k ka s s'"
  shows "mg_inv s'"
proof -
  note q = mg_inv_parts [OF inv]
  obtain now c e where t: "res_touch k ka now (mg_residency s) = Inr (mg_residency s')"
    and c: "map_of (mg_remembered s) k = Some c" and e: "map_of (r_entries (mg_residency s')) k = Some e"
    and rem: "mg_remembered s' = oput k (c\<lparr>load_keep_alive := re_keep_alive e\<rparr>) (mg_remembered s)"
    and rest: "mg_loaded s' = mg_loaded s" "mg_runtimes s' = mg_runtimes s"
    using re unfolding refreshed_def by blast
  have ent: "map_of (r_entries (mg_residency s')) = (map_of (r_entries (mg_residency s)))(k \<mapsto> e)"
    "k \<in> dom (map_of (r_entries (mg_residency s)))" "r_limit (mg_residency s') = r_limit (mg_residency s)"
    using touch_entries [OF t] e by simp_all
  have "row_ok s' j i" if "map_of (mg_loaded s') j = Some i" for j i
    using that inv row_update [OF _ ent(1) c rem rest(2)] by (simp add: mg_inv_def rest)
  then show ?thesis
    by (intro mg_invI) (use q touch_inv [OF q(1) t] ent(2,3) in \<open>simp_all add: ent(1) rem rest insert_absorb\<close>)
qed

lemma refreshed_leases: "refreshed k ka s s' \<Longrightarrow> lease_count (mg_residency s') = lease_count (mg_residency s)"
  by (auto simp: refreshed_def dest: touch_lease)

lemma refreshed_host: "refreshed k ka s s' \<Longrightarrow> mg_host s' = mg_host s"
  by (auto simp: refreshed_def)

lemma remember_total:
  assumes "map_of (r_entries (mg_residency s)) k = Some e" and "map_of (mg_remembered s) k = Some c"
  shows "remember_keep_alive k s =
    (s\<lparr>mg_remembered := oput k (c\<lparr>load_keep_alive := re_keep_alive e\<rparr>) (mg_remembered s)\<rparr>, Inr ())"
  using assms by (simp add: remember_keep_alive_def act_bind_def entry_of_def res_get_def)

lemma load_again_spec:
  assumes inv: "mg_inv s" and i: "map_of (mg_loaded s) k = Some i" and run: "load_again env k rq i s = (s', r)"
  shows "case r of Inl _ \<Rightarrow> config_conflict rq i \<and> s' = s
     | Inr info \<Rightarrow> refreshed k (load_keep_alive rq) s s' \<and> mi_context_tokens info = mi_context_tokens i
         \<and> mi_options info = mi_options i"
proof (cases "config_conflict rq i")
  case True
  then show ?thesis using run by (auto simp: load_again_def throw_def)
next
  case False
  obtain c e0 where c: "map_of (mg_remembered s) k = Some c" "map_of (r_entries (mg_residency s)) k = Some e0"
    using mg_inv_loaded [OF inv i] by metis
  let ?s1 = "s\<lparr>mg_tick := Suc (mg_tick s)\<rparr>" and ?now = "env_clock env (mg_tick s)"
  obtain r1 where r1: "res_touch k (load_keep_alive rq) ?now (mg_residency s) = Inr r1"
    using touch_total c(2) by (metis option.distinct(1))
  obtain e where e: "map_of (r_entries r1) k = Some e"
    using touch_entries [OF r1] by (metis fun_upd_same)
  define s2 where "s2 = ?s1\<lparr>mg_residency := r1,
    mg_remembered := oput k (c\<lparr>load_keep_alive := re_keep_alive e\<rparr>) (mg_remembered s)\<rparr>"
  have ref: "refreshed k (load_keep_alive rq) s s2"
    unfolding refreshed_def using r1 c(1) e by (intro exI [of _ ?now] exI [of _ c] exI [of _ e]) (simp add: s2_def)
  have inv2: "mg_inv s2" using refreshed_inv [OF inv ref] .
  obtain s3 where s3: "publish env s2 = (s3, Inr ())" "same_models s2 s3" using publish_total [OF inv2] by blast
  have "mg_inv s3" "map_of (mg_loaded s3) k = Some i"
    using inv2 s3(2) i by (simp_all add: mg_inv_same) (simp add: same_models_def s2_def)
  from info_total [OF this] obtain s4 x where s4: "loaded_info env k s3 = (s4, Inr x)" "same_models s3 s4"
    "mi_context_tokens x = mi_context_tokens i" "mi_options x = mi_options i" by blast
  have "load_again env k rq i s = (s4, Inr x)"
    using False r1 remember_total [of "?s1\<lparr>mg_residency := r1\<rparr>" k e c] e c(1) s3(1) s4(1)
    by (simp add: load_again_def act_bind_def on_residency_def s2_def)
  moreover have "refreshed k (load_keep_alive rq) s s4"
    using ref same_trans [OF s3(2) s4(2)] by (simp add: refreshed_def same_models_def)
  ultimately show ?thesis using run s4(3,4) by simp
qed

lemma model_id_nonempty: "model_id uri = Inr k \<Longrightarrow> k \<noteq> []"
  by (auto simp: model_id_def valid_id_def id_syntax_def before_dollar_def split: if_splits)

text \<open>What a load has done, however it ends: evicted idle models, then entered or refreshed one.\<close>

definition load_outcome :: "'h models_env \<Rightarrow> model_load_request \<Rightarrow> ('m, 'h) models \<Rightarrow> qstring list \<Rightarrow> ('m, 'h) models \<Rightarrow>
    ('m, 'h) models \<Rightarrow> model_info res \<Rightarrow> bool" where
  "load_outcome env rq s ks s1 s' r \<longleftrightarrow> evictions env s ks s1 \<and> (case r of Inl _ \<Rightarrow> same_models s1 s'
     | Inr info \<Rightarrow> \<exists>uri k. env_canonical env (load_model rq) = Inr uri \<and> model_id uri = Inr k
         \<and> ((\<exists>i. map_of (mg_loaded s) k = Some i \<and> s1 = s \<and> refreshed k (load_keep_alive rq) s s'
               \<and> mi_context_tokens info = mi_context_tokens i \<and> mi_options info = mi_options i)
           \<or> (\<exists>p. map_of (mg_loaded s) k = None \<and> plan_load env k (rq\<lparr>load_model := uri\<rparr>) s = Inr p
               \<and> entered env k uri p s1 s' \<and> mi_context_tokens info = lp_context p
               \<and> mi_options info = load_options (lp_config p))))"

lemma load_outcome_throw: "load_outcome env rq s [] s s (Inl e)"
  by (simp add: load_outcome_def)

lemma models_load_spec:
  assumes inv: "mg_inv s" and run: "models_load env rq s = (s', r)"
  shows "\<exists>ks s1. load_outcome env rq s ks s1 s' r"
proof (cases "\<exists>uri k. env_canonical env (load_model rq) = Inr uri \<and> model_id uri = Inr k
    \<and> (\<forall>key \<in> set forbidden_options. \<not> jhas (load_options rq) key) \<and> load_request_ok rq = Inr ()")
  case False
  then have "s' = s \<and> (\<exists>e. r = Inl e)"
    using run unfolding models_load_def
    by (auto simp: act_bind_def require_def throw_def split: sum.splits if_splits)
  then show ?thesis using load_outcome_throw by blast
next
  case True
  then obtain uri k where uri: "env_canonical env (load_model rq) = Inr uri" "model_id uri = Inr k"
    and start: "models_load env rq s = (case map_of (mg_loaded s) k of
        Some i \<Rightarrow> load_again env k (rq\<lparr>load_model := uri\<rparr>) i s | None \<Rightarrow> load_new env k (rq\<lparr>load_model := uri\<rparr>) s)"
    unfolding models_load_def by (auto simp: act_bind_def require_def split: option.split)
  show ?thesis
  proof (cases "map_of (mg_loaded s) k")
    case (Some i)
    have again: "load_again env k (rq\<lparr>load_model := uri\<rparr>) i s = (s', r)" using run start Some by simp
    have "load_outcome env rq s [] s s' r"
      using load_again_spec [OF inv Some again] uri Some
      by (cases r) (simp_all add: load_outcome_def)
    then show ?thesis by blast
  next
    case None
    have new: "load_new env k (rq\<lparr>load_model := uri\<rparr>) s = (s', r)" using run start None by simp
    show ?thesis
    proof (cases "plan_load env k (rq\<lparr>load_model := uri\<rparr>) s")
      case (Inl e)
      then have "s' = s \<and> r = Inl e" using new by (simp add: load_new_def act_bind_def)
      then show ?thesis using load_outcome_throw by blast
    next
      case (Inr p)
      then have "carry_out env k uri p s = (s', r)" using new by (simp add: load_new_def act_bind_def)
      from carry_out_spec [OF inv None model_id_nonempty [OF uri(2)] plan_required [OF Inr] this] obtain ks s1 where
        "evictions env s ks s1" "case r of Inl e \<Rightarrow> same_models s1 s'
     | Inr info \<Rightarrow> entered env k uri p s1 s' \<and> mi_context_tokens info = lp_context p
         \<and> mi_options info = load_options (lp_config p)"
        by (cases r) auto
      then have "load_outcome env rq s ks s1 s' r"
        using uri None Inr by (cases r) (auto simp: load_outcome_def)
      then show ?thesis by blast
    qed
  qed
qed

lemma load_outcome_keeps:
  assumes inv: "mg_inv s" and out: "load_outcome env rq s ks s1 s' r"
  shows "mg_inv s' \<and> lease_count (mg_residency s') = lease_count (mg_residency s) \<and> mg_host s' = mg_host s1"
proof -
  have ev: "evictions env s ks s1" using out by (simp add: load_outcome_def)
  have inv1: "mg_inv s1" "lease_count (mg_residency s1) = lease_count (mg_residency s)"
    using evictions_keep_inv [OF ev inv] evictions_leases [OF ev] by simp_all
  show ?thesis
  proof (cases r)
    case (Inl e)
    then have "same_models s1 s'" using out by (simp add: load_outcome_def)
    then show ?thesis using inv1 mg_inv_same by (simp add: same_models_def) blast
  next
    case (Inr info)
    then obtain uri k where "model_id uri = Inr k" and
      "(s1 = s \<and> refreshed k (load_keep_alive rq) s s')
       \<or> (\<exists>p. map_of (mg_loaded s) k = None \<and> entered env k uri p s1 s')"
      using out unfolding load_outcome_def by auto
    then show ?thesis
    proof (elim disjE conjE exE)
      assume "s1 = s" "refreshed k (load_keep_alive rq) s s'"
      then show ?thesis using refreshed_inv [OF inv] refreshed_leases refreshed_host by metis
    next
      fix p assume k: "model_id uri = Inr k" and fresh: "map_of (mg_loaded s) k = None" and en: "entered env k uri p s1 s'"
      have fresh1: "map_of (mg_loaded s1) k = None" using evictions_entries [OF ev] fresh by (simp add: restrict_map_def)
      then have "map_of (r_entries (mg_residency s1)) k = None"
        using mg_inv_parts(6) [OF inv1(1)] by (metis domIff)
      then show ?thesis
        using entered_inv [OF inv1(1) fresh1 model_id_nonempty [OF k] en] entered_leases [OF en] inv1(2) entered_host [OF en]
        by simp
    qed
  qed
qed

section \<open>Leases\<close>

lemma acquire_replaced:
  assumes inv: "mg_inv s" and acq: "res_acquire k ka now (mg_residency s) = Inr r'"
    and ka: "ka < 0 \<or> (\<exists>c. map_of (mg_remembered s) k = Some c \<and> load_keep_alive c = ka)"
  shows "mg_inv (s\<lparr>mg_residency := r'\<rparr>)"
proof -
  note q = mg_inv_parts [OF inv]
  obtain e0 where e0: "map_of (r_entries (mg_residency s)) k = Some e0"
    and r': "map_of (r_entries r') = (map_of (r_entries (mg_residency s)))(k \<mapsto>
        (touch_entry ka now (r_clock (mg_residency s) + 1) e0)\<lparr>re_active := re_active e0 + 1\<rparr>)"
      "r_limit r' = r_limit (mg_residency s)"
    using acq by (auto simp: res_acquire_def res_touch_def touch_entry_def Let_def split: option.splits)
  have same: "re_keep_alive (touch_entry ka now n e0) = re_keep_alive e0" for n
  proof -
    obtain i where "map_of (mg_loaded s) k = Some i" using mg_inv_entry [OF inv e0] .
    from mg_inv_loaded [OF inv this] obtain c where "map_of (mg_remembered s) k = Some c"
      "load_keep_alive c = re_keep_alive e0" using e0 by auto
    then show ?thesis using ka by (auto simp: touch_entry_def Let_def)
  qed
  have "row_ok (s\<lparr>mg_residency := r'\<rparr>) j i" if "map_of (mg_loaded s) j = Some i" for j i
  proof -
    have "row_ok s j i" using that inv by (simp add: mg_inv_def)
    then show ?thesis using e0 by (cases "j = k") (auto simp: row_ok_def r'(1) same)
  qed
  then show ?thesis
    by (intro mg_invI) (use q acquire_inv [OF q(1) acq] e0 in \<open>auto simp: r' domIff\<close>)
qed

text \<open>The registry answers a model URI by itself.\<close>

definition canonical_ok :: "(qstring \<Rightarrow> qstring res) \<Rightarrow> bool" where
  "canonical_ok canonical \<longleftrightarrow> (\<forall>uri k. model_id uri = Inr k \<longrightarrow> canonical uri = Inr uri)"

lemma model_uri_id: "model_uri k = Inr uri \<Longrightarrow> model_id uri = Inr k"
  by (auto simp: model_uri_def model_id_def uri_prefix_def starts_with_def split: if_splits)

lemma touch_keep_alive: "res_touch k ka now r = Inr r' \<Longrightarrow> 0 \<le> ka \<Longrightarrow> map_of (r_entries r') k = Some e \<Longrightarrow>
    re_keep_alive e = ka"
  by (auto simp: res_touch_def touch_entry_def Let_def split: option.splits)

lemma loaded_keep_alive: "res_loaded k mem ka now r = Inr r' \<Longrightarrow> 0 \<le> ka \<Longrightarrow> map_of (r_entries r') k = Some e \<Longrightarrow>
    re_keep_alive e = ka"
  by (auto simp: res_loaded_def Let_def split: if_splits)

lemma load_remembers:
  assumes inv: "mg_inv s" and out: "load_outcome env rq s ks s1 s' (Inr info)"
    and k: "env_canonical env (load_model rq) = Inr uri" "model_id uri = Inr k" and ka: "load_keep_alive rq \<ge> 0"
  shows "\<exists>c. map_of (mg_remembered s') k = Some c \<and> load_keep_alive c = load_keep_alive rq"
proof -
  consider (re) "refreshed k (load_keep_alive rq) s s'"
    | (new) p where "plan_load env k (rq\<lparr>load_model := uri\<rparr>) s = Inr p" "entered env k uri p s1 s'"
    using out k unfolding load_outcome_def by auto
  then show ?thesis
  proof cases
    case re
    then show ?thesis
      using touch_keep_alive [OF _ ka] by (auto simp: refreshed_def)
  next
    case new
    have "lp_config p = merge_config (map_of (mg_remembered s) k) (rq\<lparr>load_model := uri\<rparr>)"
      using new(1) by (auto simp: plan_load_def Let_def split: if_splits)
    then have "load_keep_alive (lp_config p) = load_keep_alive rq"
      using ka by (simp add: merge_config_def split: option.split)
    then show ?thesis using new(2) loaded_keep_alive [of k "lp_memory p" "load_keep_alive rq"] ka
      by (auto simp: entered_def)
  qed
qed

lemma models_acquire_spec:
  assumes inv: "mg_inv s" and can: "canonical_ok (env_canonical env)" and run: "models_acquire env k ka s = (s', r)"
  shows "mg_inv s' \<and> (case r of
      Inl _ \<Rightarrow> lease_count (mg_residency s') = lease_count (mg_residency s)
    | Inr m \<Rightarrow> lease_count (mg_residency s') = (lease_count (mg_residency s))(k := lease_count (mg_residency s) k + 1)
        \<and> map_of (rm_models (mg_runtimes s')) k = Some m)
    \<and> (\<exists>ks s1. evictions env s ks s1 \<and> mg_host s' = mg_host s1)"
proof (cases "model_uri k")
  case (Inl e)
  then have "s' = s" "r = Inl e" using run by (simp_all add: models_acquire_def act_bind_def)
  then show ?thesis using inv by (auto intro!: exI [of _ "[]"] exI [of _ s])
next
  case (Inr uri)
  let ?rq = "\<lparr>load_model = uri, load_context_tokens = 0, load_options = [], load_keep_alive = ka\<rparr>"
  have id: "model_id uri = Inr k" using Inr by (rule model_uri_id)
  have canon: "env_canonical env (load_model ?rq) = Inr uri" using can id by (simp add: canonical_ok_def)
  obtain s2 q where ld: "models_load env ?rq s = (s2, q)" by fastforce
  from models_load_spec [OF inv ld] obtain ks s1 where out: "load_outcome env ?rq s ks s1 s2 q" by blast
  then have ev: "evictions env s ks s1" by (simp add: load_outcome_def)
  note kept = load_outcome_keeps [OF inv out]
  show ?thesis
  proof (cases q)
    case err: (Inl e)
    then have "s' = s2" "r = Inl e" using run Inr ld by (simp_all add: models_acquire_def act_bind_def)
    then show ?thesis using kept ev by auto
  next
    case info: (Inr info)
    let ?s3 = "s2\<lparr>mg_tick := Suc (mg_tick s2)\<rparr>" and ?now = "env_clock env (mg_tick s2)"
    show ?thesis
    proof (cases "res_acquire k ka ?now (mg_residency s2)")
      case err: (Inl e)
      then have "s' = ?s3" "r = Inl e"
        using run Inr ld info by (simp_all add: models_acquire_def act_bind_def on_residency_def)
      then show ?thesis using kept ev by auto
    next
      case acq: (Inr r')
      let ?s4 = "?s3\<lparr>mg_residency := r'\<rparr>"
      have inv3: "mg_inv ?s3" using kept by simp
      have "ka < 0 \<or> (\<exists>c. map_of (mg_remembered ?s3) k = Some c \<and> load_keep_alive c = ka)"
        using load_remembers [OF inv out [unfolded info] canon id] by force
      then have inv4: "mg_inv ?s4" using acquire_replaced [OF inv3 _, of k ka ?now r'] acq by simp
      obtain s5 where s5: "publish env ?s4 = (s5, Inr ())" "same_models ?s4 s5" using publish_total [OF inv4] by blast
      have "k \<in> dom (map_of (r_entries r'))"
        using acq touch_entries by (fastforce simp: res_acquire_def split: option.splits)
      then obtain m where m: "map_of (rm_models (mg_runtimes s2)) k = Some m"
        using mg_inv_parts(7) [OF inv4] by auto
      have "models_acquire env k ka s = (s5, Inr m)"
        using Inr ld info acq s5 m by (simp add: models_acquire_def act_bind_def on_residency_def manager_get_def same_models_def)
      then have "s' = s5" "r = Inr m" using run by simp_all
      moreover have "mg_inv s5" using inv4 s5(2) mg_inv_same by blast
      ultimately show ?thesis
        using s5(2) acquire_lease [OF acq] kept m ev by (auto simp: same_models_def)
    qed
  qed
qed

lemma release_entries: "res_release k now r = Inr r' \<Longrightarrow>
    \<exists>e e'. map_of (r_entries r) k = Some e \<and> map_of (r_entries r') = (map_of (r_entries r))(k \<mapsto> e')
      \<and> re_keep_alive e' = re_keep_alive e \<and> r_limit r' = r_limit r"
  by (auto simp: res_release_def res_touch_def touch_entry_def Let_def split: option.splits if_splits)

text \<open>A release of a held model succeeds; without a lease it throws and changes nothing.\<close>

lemma models_release_spec:
  assumes inv: "mg_inv s" and run: "models_release env k s = (s', r)"
  shows "mg_inv s' \<and> (case r of
      Inl _ \<Rightarrow> lease_count (mg_residency s) k \<le> 0 \<and> same_models s s'
    | Inr _ \<Rightarrow> lease_count (mg_residency s') = (lease_count (mg_residency s))(k := lease_count (mg_residency s) k - 1))
    \<and> (\<exists>ks s1. evictions env s1 ks s' \<and> mg_host s1 = mg_host s \<and> mg_loaded s1 = mg_loaded s)"
proof -
  let ?s1 = "s\<lparr>mg_tick := Suc (mg_tick s)\<rparr>" and ?now = "env_clock env (mg_tick s)"
  show ?thesis
  proof (cases "res_release k ?now (mg_residency s)")
    case (Inl e)
    then have "s' = ?s1" "r = Inl e" using run by (simp_all add: models_release_def act_bind_def on_residency_def)
    moreover have "lease_count (mg_residency s) k \<le> 0"
      using release_total [of "mg_residency s" k ?now] Inl by (metis not_le ok_simps(2))
    ultimately show ?thesis using inv by (auto intro!: exI [of _ "[]"] exI [of _ s])
  next
    case (Inr r')
    from release_entries [OF this] obtain e e' where
      e: "map_of (r_entries (mg_residency s)) k = Some e"
      and ent: "map_of (r_entries r') = (map_of (r_entries (mg_residency s)))(k \<mapsto> e')"
      and lim: "re_keep_alive e' = re_keep_alive e" "r_limit r' = r_limit (mg_residency s)" by blast
    obtain i where "map_of (mg_loaded s) k = Some i" using mg_inv_entry [OF inv e] .
    from mg_inv_loaded [OF inv this] obtain c where c: "map_of (mg_remembered s) k = Some c" by metis
    define s2 where "s2 = ?s1\<lparr>mg_residency := r',
      mg_remembered := oput k (c\<lparr>load_keep_alive := re_keep_alive e'\<rparr>) (mg_remembered s)\<rparr>"
    note q = mg_inv_parts [OF inv]
    have row: "row_ok s2 j x" if "map_of (mg_loaded s2) j = Some x" for j x
    proof -
      have "row_ok s j x" using that inv by (simp add: mg_inv_def s2_def)
      then show ?thesis by (rule row_update [where k = k and e = e' and c = c]) (simp_all add: s2_def ent c)
    qed
    have inv2: "mg_inv s2"
      by (rule mg_invI) (use q row release_inv [OF q(1) Inr] e in \<open>auto simp: s2_def ent lim domIff\<close>)
    from maintain_spec [OF inv2] obtain s3 ks where
      3: "maintain env s2 = (s3, Inr ())" "evictions env s2 ks s3" by blast
    have inv3: "mg_inv s3" using evictions_keep_inv [OF 3(2) inv2] .
    obtain s4 where 4: "publish env s3 = (s4, Inr ())" "same_models s3 s4" using publish_total [OF inv3] by blast
    have "models_release env k s = (s4, Inr ())"
      using Inr 3(1) 4(1) remember_total [of "?s1\<lparr>mg_residency := r'\<rparr>" k e' c] c ent
      by (simp add: models_release_def act_bind_def on_residency_def s2_def)
    then have r: "s' = s4" "r = Inr ()" using run by simp_all
    have ev: "evictions env s2 ks s4" using evictions_end [OF 3(2) 4(2)] .
    have "lease_count (mg_residency s4) = lease_count (mg_residency s2)" by (rule evictions_leases [OF ev])
    then have "lease_count (mg_residency s4) = (lease_count (mg_residency s))(k := lease_count (mg_residency s) k - 1)"
      using release_lease [OF Inr] by (simp add: s2_def)
    moreover have "mg_inv s4" using inv3 4(2) mg_inv_same by blast
    ultimately show ?thesis using r ev by (auto simp: s2_def intro!: exI [of _ ks] exI [of _ s2])
  qed
qed

lemma models_unload_spec:
  assumes inv: "mg_inv s" and run: "models_unload env ref s = (s', r)"
  shows "mg_inv s' \<and> (case r of Inl _ \<Rightarrow> same_models s s'
    | Inr _ \<Rightarrow> \<exists>k. map_of (mg_loaded s) k \<noteq> None \<and> lease_count (mg_residency s) k = 0
        \<and> same_models (dropped env False k s) s')"
proof (cases "\<exists>uri k. env_canonical env ref = Inr uri \<and> model_id uri = Inr k \<and> map_of (mg_loaded s) k \<noteq> None")
  case False
  then have "same_models s s' \<and> (\<exists>e. r = Inl e)"
    using run by (auto simp: models_unload_def act_bind_def loaded_info_def throw_def split: sum.splits option.splits)
  then show ?thesis using inv mg_inv_same by auto
next
  case True
  then obtain uri k i where k: "env_canonical env ref = Inr uri" "model_id uri = Inr k" "map_of (mg_loaded s) k = Some i"
    by auto
  from info_total [OF inv k(3)] obtain s1 x where 1: "loaded_info env k s = (s1, Inr x)" "same_models s s1" by blast
  have inv1: "mg_inv s1" using inv 1(2) mg_inv_same by blast
  have run1: "evict_model env False k s1 = (s', r)" using run k(1,2) 1(1) by (simp add: models_unload_def act_bind_def)
  obtain e where e: "map_of (r_entries (mg_residency s1)) k = Some e"
    using mg_inv_loaded [OF inv k(3)] 1(2) by (metis same_models_def)
  show ?thesis
  proof (cases "re_active e = 0")
    case False
    then have "s' = s1" "\<exists>e. r = Inl e" using run1 e by (auto simp: evict_eq throw_def)
    then show ?thesis using 1(2) inv1 by auto
  next
    case True
    from evict_total [OF inv1 e True, of env False] run1 have
      r: "r = Inr ()" "same_models (dropped env False k s1) s'" by auto
    have "lease_count (mg_residency s) k = 0" using e True 1(2) by (simp add: lease_count_def same_models_def)
    moreover have "mg_inv s'" using dropped_inv [OF inv1 e True] r(2) mg_inv_same by blast
    ultimately show ?thesis
      using r k(3) same_trans [OF dropped_same [OF 1(2)] r(2)] by auto
  qed
qed

lemma row_forget: "row_ok s j i \<Longrightarrow> j \<noteq> k \<Longrightarrow> row_ok (s\<lparr>mg_remembered := odel k (mg_remembered s)\<rparr>) j i"
  by (simp add: row_ok_def)

lemma models_remove_inv: "keeps mg_inv (models_remove env ref)"
proof -
  have forget: "mg_inv (s\<lparr>mg_remembered := odel k (mg_remembered s)\<rparr>)"
    if "mg_inv s" "map_of (mg_loaded s) k = None" for s :: "('a, 'b) models" and k
  proof (rule mg_invI)
    show "row_ok (s\<lparr>mg_remembered := odel k (mg_remembered s)\<rparr>) j i"
      if "map_of (mg_loaded (s\<lparr>mg_remembered := odel k (mg_remembered s)\<rparr>)) j = Some i" for j i
      using that \<open>mg_inv s\<close> \<open>map_of (mg_loaded s) k = None\<close> by (intro row_forget) (auto simp: mg_inv_def)
  qed (use mg_inv_parts [OF that(1)] in simp_all)
  show ?thesis
    unfolding keeps_iff models_remove_def
    by (auto simp: act_bind_def ohas_def forget split: sum.split)
qed

lemma models_add_runtime_inv: "keeps mg_inv (models_add_runtime rt)"
proof -
  have same: "mg_inv (s\<lparr>mg_runtimes := (mg_runtimes s)\<lparr>rm_runtimes := rts\<rparr>\<rparr>)" if "mg_inv s"
    for s :: "('a, 'b) models" and rts
    using that by (simp add: mg_inv_def row_ok_def)
  show ?thesis
    unfolding keeps_iff models_add_runtime_def on_runtimes_def add_runtime_def
    by (auto simp: same throw_def split: option.split)
qed

end
