(* ===== verification/ModelLeases.thy ===== *)
theory ModelLeases
  imports ModelRules
begin

text \<open>
  The properties of the model manager: every run keeps its tables in agreement, a load changes
  only what it says, maintenance leaves no overdue model, and acquire and release bracket work as
  the interface \<open>lease_table\<close> asks.
\<close>

section \<open>Runs\<close>

datatype ('m, 'h) models_op = MLoad "'h models_env" model_load_request | MAcquire "'h models_env" qstring int
  | MRelease "'h models_env" qstring | MUnload "'h models_env" qstring | MRemove "'h models_env" qstring
  | MMaintain "'h models_env" | MAddRuntime "'m runtime option"

fun op_env_ok :: "('m, 'h) models_op \<Rightarrow> bool" where
  "op_env_ok (MAcquire env k ka) = canonical_ok (env_canonical env)"
| "op_env_ok _ = True"

fun models_apply :: "('m, 'h) models_op \<Rightarrow> ('m, 'h) models \<Rightarrow> ('m, 'h) models" where
  "models_apply (MLoad env rq) s = fst (models_load env rq s)"
| "models_apply (MAcquire env k ka) s = fst (models_acquire env k ka s)"
| "models_apply (MRelease env k) s = fst (models_release env k s)"
| "models_apply (MUnload env ref) s = fst (models_unload env ref s)"
| "models_apply (MRemove env ref) s = fst (models_remove env ref s)"
| "models_apply (MMaintain env) s = fst (maintain env s)"
| "models_apply (MAddRuntime rt) s = fst (models_add_runtime rt s)"

lemma models_apply_inv:
  assumes inv: "mg_inv s" and env: "op_env_ok a"
  shows "mg_inv (models_apply a s)"
proof (cases a)
  case (MLoad env rq)
  obtain s' r where run: "models_load env rq s = (s', r)" by fastforce
  from models_load_spec [OF inv this] load_outcome_keeps [OF inv] have "mg_inv s'" by blast
  then show ?thesis using run MLoad by simp
next
  case (MAcquire env k ka)
  then show ?thesis using models_acquire_spec [OF inv, of env k ka] env
    by (cases "models_acquire env k ka s") auto
next
  case (MRelease env k)
  then show ?thesis using models_release_spec [OF inv, of env k] by (cases "models_release env k s") auto
next
  case (MUnload env ref)
  then show ?thesis using models_unload_spec [OF inv, of env ref] by (cases "models_unload env ref s") auto
next
  case (MRemove env ref)
  then show ?thesis using models_remove_inv inv by (fastforce simp: keeps_iff)
next
  case (MMaintain env)
  from maintain_spec [OF inv, of env] obtain s' ks where "maintain env s = (s', Inr ())" "evictions env s ks s'" by blast
  then show ?thesis using MMaintain evictions_keep_inv inv by (metis fst_conv models_apply.simps(6))
next
  case (MAddRuntime rt)
  then show ?thesis using models_add_runtime_inv inv by (fastforce simp: keeps_iff)
qed

lemma models_run_inv: "mg_inv s \<Longrightarrow> \<forall>a \<in> set as. op_env_ok a \<Longrightarrow> mg_inv (fold models_apply as s)"
  by (induction as arbitrary: s) (simp_all add: models_apply_inv)

section \<open>The lease contract\<close>

definition acquire_res :: "'h models_env \<Rightarrow> int \<Rightarrow> qstring \<Rightarrow> ('m, 'h) models \<Rightarrow> ('m, 'h) models res" where
  "acquire_res env ka k s = (case models_acquire env k ka s of (s', Inr _) \<Rightarrow> Inr s' | (_, Inl e) \<Rightarrow> Inl e)"

definition release_res :: "'h models_env \<Rightarrow> qstring \<Rightarrow> ('m, 'h) models \<Rightarrow> ('m, 'h) models res" where
  "release_res env k s = (case models_release env k s of (s', Inr _) \<Rightarrow> Inr s' | (_, Inl e) \<Rightarrow> Inl e)"

definition held :: "('m, 'h) models \<Rightarrow> qstring \<Rightarrow> int" where
  "held s = lease_count (mg_residency s)"

text \<open>
  Whatever the environment of the calls, the model manager is a lease table, as long as the registry
  answers model URIs by themselves.
\<close>

definition with_registry :: "'h models_env \<Rightarrow> 'h models_env" where
  "with_registry env = env\<lparr>env_canonical := (\<lambda>ref. case model_id ref of Inr _ \<Rightarrow> Inr ref | Inl _ \<Rightarrow> env_canonical env ref)\<rparr>"

lemma with_registry_ok [simp]: "canonical_ok (env_canonical (with_registry env))"
  by (simp add: canonical_ok_def with_registry_def)

lemma with_registry_id: "canonical_ok (env_canonical env) \<Longrightarrow> with_registry env = env"
proof -
  assume can: "canonical_ok (env_canonical env)"
  have "(case model_id ref of Inr _ \<Rightarrow> Inr ref | Inl _ \<Rightarrow> env_canonical env ref) = env_canonical env ref" for ref
    using can by (cases "model_id ref") (simp_all add: canonical_ok_def)
  then show ?thesis by (simp add: with_registry_def)
qed

lemma acquire_res_facts:
  assumes "mg_inv s" and "acquire_res (with_registry env) ka k s = Inr s'"
  shows "mg_inv s' \<and> held s' = (held s)(k := held s k + 1)"
  using assms models_acquire_spec [OF assms(1) with_registry_ok, of env k ka]
  unfolding acquire_res_def held_def
  by (cases "models_acquire (with_registry env) k ka s") (auto split: sum.splits)

lemma release_res_facts:
  assumes "mg_inv s" and "release_res env k s = Inr s'"
  shows "mg_inv s' \<and> held s' = (held s)(k := held s k - 1)"
  using assms models_release_spec [OF assms(1), of env k]
  unfolding release_res_def held_def
  by (cases "models_release env k s") (auto split: sum.splits)

lemma release_res_total:
  assumes "mg_inv s" and "0 < held s k"
  shows "ok (release_res env k s)"
  using assms models_release_spec [OF assms(1), of env k]
  unfolding release_res_def held_def
  by (cases "models_release env k s") (auto split: sum.splits)

interpretation ml: lease_table "acquire_res (with_registry env) ka" "release_res env'" held mg_inv
  for env env' :: "'h models_env" and ka
proof unfold_locales
  fix s s' :: "('m, 'h) models" and k
  assume inv: "mg_inv s"
  show "acquire_res (with_registry env) ka k s = Inr s' \<Longrightarrow> held s' = (held s)(k := held s k + 1)"
    "acquire_res (with_registry env) ka k s = Inr s' \<Longrightarrow> mg_inv s'"
    using acquire_res_facts [OF inv] by blast+
  show "release_res env' k s = Inr s' \<Longrightarrow> held s' = (held s)(k := held s k - 1)"
    "release_res env' k s = Inr s' \<Longrightarrow> mg_inv s'"
    using release_res_facts [OF inv] by blast+
  show "0 < held s k \<Longrightarrow> ok (release_res env' k s)" using release_res_total [OF inv] .
  show "0 \<le> held s k"
    using mg_inv_parts(1) [OF inv] by (simp add: held_def lease_count_def entry_active split: option.split)
qed

lemma only_observes: "keeps (same_models s) m \<Longrightarrow> m s = (s', r) \<Longrightarrow> same_models s s'"
  using keepsD [of "same_models s" m s s' r] by simp

text \<open>An acquire whose load went through goes through.\<close>

lemma acquire_after_load:
  assumes inv: "mg_inv s" and can: "canonical_ok (env_canonical env)" and uri: "model_uri k = Inr uri"
    and ld: "models_load env \<lparr>load_model = uri, load_context_tokens = 0, load_options = [], load_keep_alive = ka\<rparr> s = (s2, Inr info)"
    and dom: "k \<in> dom (map_of (r_entries (mg_residency s2)))"
  shows "\<exists>s' m. models_acquire env k ka s = (s', Inr m)"
proof -
  obtain r' where r': "res_acquire k ka (env_clock env (mg_tick s2)) (mg_residency s2) = Inr r'"
    using dom by (auto simp: res_acquire_def res_touch_def)
  obtain ks s1 where out: "load_outcome env \<lparr>load_model = uri, load_context_tokens = 0, load_options = [],
      load_keep_alive = ka\<rparr> s ks s1 s2 (Inr info)"
    using models_load_spec [OF inv ld] by blast
  obtain s' r where run: "models_acquire env k ka s = (s', r)" by fastforce
  have "r \<noteq> Inl e" for e
  proof
    assume "r = Inl e"
    then have "lease_count (mg_residency s') = lease_count (mg_residency s)"
      using models_acquire_spec [OF inv can run] by simp
    moreover have "lease_count (mg_residency s') = lease_count r'"
    proof -
      let ?s4 = "s2\<lparr>mg_tick := Suc (mg_tick s2), mg_residency := r'\<rparr>"
      have "keeps (same_models ?s4) (act_bind (publish env) (\<lambda>_. act_bind (gets mg_runtimes) (\<lambda>rm. lift_res (manager_get rm k))))"
        by (intro triples)
      moreover have "act_bind (publish env) (\<lambda>_. act_bind (gets mg_runtimes) (\<lambda>rm. lift_res (manager_get rm k))) ?s4 = (s', r)"
        using run uri ld r' by (simp add: models_acquire_def on_residency_def)
      ultimately have "same_models ?s4 s'" by (rule only_observes)
      then show ?thesis by (simp add: same_models_def)
    qed
    moreover have "lease_count r' k = lease_count (mg_residency s) k + 1"
      using acquire_lease [OF r'] load_outcome_keeps [OF inv out] by simp
    ultimately show False by simp
  qed
  then show ?thesis using run by (cases r) auto
qed

lemma acquire_loaded:
  assumes inv: "mg_inv s" and can: "canonical_ok (env_canonical env)" and i: "map_of (mg_loaded s) k = Some i"
    and k: "valid_id k" and ka: "-1 \<le> ka" "ka \<le> 7 * 86400000"
  shows "\<exists>s' m. models_acquire env k ka s = (s', Inr m)"
proof -
  let ?rq = "\<lparr>load_model = uri_prefix @ k, load_context_tokens = 0, load_options = [], load_keep_alive = ka\<rparr>"
  have uri: "model_uri k = Inr (uri_prefix @ k)" using k by (simp add: model_uri_def)
  have id: "model_id (uri_prefix @ k) = Inr k" using uri by (rule model_uri_id)
  obtain s2 q where ag: "load_again env k ?rq i s = (s2, q)" by fastforce
  have "\<not> config_conflict ?rq i" by (simp add: config_conflict_def)
  with load_again_spec [OF inv i ag] obtain info where q: "q = Inr info" "refreshed k ka s s2"
    by (cases q) auto
  have ld: "models_load env ?rq s = (s2, Inr info)"
    using can id i ag ka q(1)
    by (simp add: models_load_def act_bind_def canonical_ok_def require_def jhas_def ohas_def load_request_ok_def)
  have "k \<in> dom (map_of (r_entries (mg_residency s2)))" using q(2) by (auto simp: refreshed_def)
  from acquire_after_load [OF inv can uri ld this] show ?thesis .
qed

lemma on_residency_Inr: "on_residency f s = (s', Inr u) \<longleftrightarrow> (\<exists>r. f (mg_residency s) = Inr r \<and> s' = s\<lparr>mg_residency := r\<rparr>)"
  by (auto simp: on_residency_def split: sum.split)

lemma acquire_steps:
  assumes "models_acquire env k ka s = (s', Inr m)"
  obtains uri s2 info now r' where "model_uri k = Inr uri"
    "models_load env \<lparr>load_model = uri, load_context_tokens = 0, load_options = [], load_keep_alive = ka\<rparr> s = (s2, Inr info)"
    "res_acquire k ka now (mg_residency s2) = Inr r'" "same_models (s2\<lparr>mg_residency := r'\<rparr>) s'"
    "map_of (rm_models (mg_runtimes s2)) k = Some m"
proof -
  obtain uri s2 info r' s5 where 1: "model_uri k = Inr uri"
    "models_load env \<lparr>load_model = uri, load_context_tokens = 0, load_options = [], load_keep_alive = ka\<rparr> s = (s2, Inr info)"
    "res_acquire k ka (env_clock env (mg_tick s2)) (mg_residency s2) = Inr r'"
    "publish env (s2\<lparr>mg_tick := Suc (mg_tick s2), mg_residency := r'\<rparr>) = (s5, Inr ())"
    "s' = s5" "manager_get (mg_runtimes s5) k = Inr m"
    using assms unfolding models_acquire_def
    by (auto simp: act_bind_Inr on_residency_Inr)
  have same: "same_models (s2\<lparr>mg_tick := Suc (mg_tick s2), mg_residency := r'\<rparr>) s5"
    using 1(4) by (rule publish_same)
  then have "same_models (s2\<lparr>mg_residency := r'\<rparr>) s'" "mg_runtimes s5 = mg_runtimes s2"
    using 1(5) by (simp_all add: same_models_def)
  then show ?thesis using that [OF 1(1-3)] 1(6) by (simp add: manager_get_def split: option.splits)
qed

section \<open>Properties\<close>

text \<open>
  C6. After any sequence of loads, acquisitions, releases, unloads, removals and maintenance, each
  in an environment of its own and whether it returned or threw, the loaded table, the residency
  entries and the runtime manager hold the same models, as many as allowed and within the budget,
  and the remembered configuration of a loaded model is its own.
\<close>

theorem models_agree:
  assumes "0 \<le> max_models opts" and "\<forall>a \<in> set as. op_env_ok a"
  shows "let s = fold models_apply as (make_models opts hw host); loaded = map_of (mg_loaded s);
      entries = map_of (r_entries (mg_residency s)) in
    dom loaded = dom entries \<and> dom (map_of (rm_models (mg_runtimes s))) = dom entries
    \<and> int (length (r_entries (mg_residency s))) \<le> r_limit (mg_residency s)
    \<and> reserved (mg_residency s) \<le> unat (r_budget (mg_residency s))
    \<and> (\<forall>k i. loaded k = Some i \<longrightarrow> (\<exists>c e. map_of (mg_remembered s) k = Some c \<and> entries k = Some e
         \<and> load_context_tokens c = mi_context_tokens i \<and> load_options c = mi_options i
         \<and> load_keep_alive c = re_keep_alive e))"
proof -
  let ?s = "fold models_apply as (make_models opts hw host)"
  have inv: "mg_inv ?s" by (rule models_run_inv [OF make_models_inv [OF assms(1)] assms(2)])
  then have "\<exists>c e. map_of (mg_remembered ?s) k = Some c \<and> map_of (r_entries (mg_residency ?s)) k = Some e
      \<and> load_context_tokens c = mi_context_tokens i \<and> load_options c = mi_options i
      \<and> load_keep_alive c = re_keep_alive e" if "map_of (mg_loaded ?s) k = Some i" for k i
    using mg_inv_loaded [OF inv that] by metis
  moreover have "int (length (r_entries (mg_residency ?s))) \<le> r_limit (mg_residency ?s)"
    "reserved (mg_residency ?s) \<le> unat (r_budget (mg_residency ?s))"
    using mg_inv_parts(1) [OF inv] by (simp_all add: res_inv_def)
  ultimately show ?thesis using mg_inv_parts(6,7) [OF inv] by (simp add: Let_def)
qed

text \<open>
  C7. A load evicts idle models only, running the unload hook for each. If it throws, that is all it
  did. If it returns, it loaded the one model it was asked for, or refreshed it when it was loaded
  already, and the report carries the context size and options of the table.
\<close>

theorem load_evicts_idle_only:
  assumes "mg_inv s" and "models_load env rq s = (s', r)"
  shows "\<exists>ks. (\<forall>j \<in> set ks. \<exists>e. map_of (r_entries (mg_residency s)) j = Some e \<and> re_active e = 0)
    \<and> mg_host s' = fold (env_before_unload env) ks (mg_host s)
    \<and> (case r of
        Inl _ \<Rightarrow> map_of (mg_loaded s') = map_of (mg_loaded s) |` (- set ks)
          \<and> map_of (rm_models (mg_runtimes s')) = map_of (rm_models (mg_runtimes s)) |` (- set ks)
          \<and> map_of (r_entries (mg_residency s')) = map_of (r_entries (mg_residency s)) |` (- set ks)
          \<and> mg_remembered s' = mg_remembered s
      | Inr info \<Rightarrow> \<exists>uri k i. env_canonical env (load_model rq) = Inr uri \<and> model_id uri = Inr k
          \<and> map_of (mg_loaded s') = (map_of (mg_loaded s) |` (- set ks))(k \<mapsto> i)
          \<and> mi_context_tokens info = mi_context_tokens i \<and> mi_options info = mi_options i
          \<and> (map_of (mg_loaded s) k = Some i \<and> ks = [] \<or> map_of (mg_loaded s) k = None))"
proof -
  from models_load_spec [OF assms] obtain ks s1 where out: "load_outcome env rq s ks s1 s' r" by blast
  then have ev: "evictions env s ks s1" by (simp add: load_outcome_def)
  note ent = evictions_entries [OF ev]
  have host: "mg_host s' = fold (env_before_unload env) ks (mg_host s)"
    using load_outcome_keeps [OF assms(1) out] evictions_host [OF ev] by simp
  show ?thesis
  proof (cases r)
    case (Inl e)
    then have "same_models s1 s'" using out by (simp add: load_outcome_def)
    then show ?thesis using Inl host ent evictions_idle [OF ev]
      by (intro exI [of _ ks]) (simp add: same_models_def)
  next
    case (Inr info)
    then obtain uri k where uri: "env_canonical env (load_model rq) = Inr uri" "model_id uri = Inr k"
      and how: "(\<exists>i. map_of (mg_loaded s) k = Some i \<and> s1 = s \<and> refreshed k (load_keep_alive rq) s s'
               \<and> mi_context_tokens info = mi_context_tokens i \<and> mi_options info = mi_options i)
           \<or> (\<exists>p. map_of (mg_loaded s) k = None \<and> entered env k uri p s1 s'
               \<and> mi_context_tokens info = lp_context p \<and> mi_options info = load_options (lp_config p))"
      using out unfolding load_outcome_def by auto
    from how show ?thesis
    proof (elim disjE exE conjE)
      fix i assume i: "map_of (mg_loaded s) k = Some i" and ref: "refreshed k (load_keep_alive rq) s s'"
        and info: "mi_context_tokens info = mi_context_tokens i" "mi_options info = mi_options i"
      have "map_of (mg_loaded s') = (map_of (mg_loaded s))(k \<mapsto> i)" "mg_host s' = mg_host s"
        using ref i by (auto simp: refreshed_def fun_upd_idem)
      then show ?thesis using Inr uri i info
        by (intro exI [of _ "[]"]) (auto simp: restrict_map_def)
    next
      fix p assume fresh: "map_of (mg_loaded s) k = None" and en: "entered env k uri p s1 s'"
        and info: "mi_context_tokens info = lp_context p" "mi_options info = load_options (lp_config p)"
      obtain i where "map_of (mg_loaded s') = (map_of (mg_loaded s1))(k \<mapsto> i)"
        "mi_context_tokens i = lp_context p" "mi_options i = load_options (lp_config p)"
        using en unfolding entered_def by force
      then show ?thesis using Inr uri fresh info host ent evictions_idle [OF ev]
        by (intro exI [of _ ks]) auto
    qed
  qed
qed

text \<open>
  C8. Between an acquire and its release the service may do anything that leaves the lease counts
  alone; the release then succeeds, whatever it evicts, and restores every count.
\<close>

theorem models_lease_bracket:
  fixes s s1 s2 :: "('m, 'h) models"
  assumes "mg_inv s" and "canonical_ok (env_canonical env)"
    and "models_acquire env k ka s = (s1, Inr m)" and "mg_inv s2" and "held s2 = held s1"
  shows "\<exists>s3. models_release env' k s2 = (s3, Inr ()) \<and> mg_inv s3 \<and> held s3 = held s
    \<and> map_of (rm_models (mg_runtimes s1)) k = Some m"
proof -
  have acq: "acquire_res (with_registry env) ka k s = Inr s1"
    using assms(2,3) by (simp add: acquire_res_def with_registry_id)
  from ml.bracket [OF assms(1) acq assms(4,5)] obtain s3 where
    s3: "release_res env' k s2 = Inr s3" "mg_inv s3" "held s3 = held s" by blast
  then have "models_release env' k s2 = (s3, Inr ())"
    by (auto simp: release_res_def split: prod.splits sum.splits)
  with s3 models_acquire_spec [OF assms(1,2,3)] show ?thesis by simp
qed

text \<open>
  C9. Maintenance always returns. It evicts idle models only; no idle model is left whose time is
  over, and it stops only when the free memory is unknown or above the reserve, or no idle model
  is left.
\<close>

theorem maintenance_ends:
  assumes "mg_inv s"
  shows "\<exists>s' ks n. maintain env s = (s', Inr ())
    \<and> (\<forall>j \<in> set ks. \<exists>e. map_of (r_entries (mg_residency s)) j = Some e \<and> re_active e = 0)
    \<and> map_of (mg_loaded s') = map_of (mg_loaded s) |` (- set ks)
    \<and> map_of (r_entries (mg_residency s')) = map_of (r_entries (mg_residency s)) |` (- set ks)
    \<and> (\<forall>k e. map_of (r_entries (mg_residency s')) k = Some e \<and> re_active e = 0 \<longrightarrow>
         env_clock env (mg_tick s) < re_expires e)
    \<and> (env_ram env n = None \<or> (\<exists>a. env_ram env n = Some a \<and> r_reserve (mg_residency s') \<le> a)
        \<or> (\<forall>k e. map_of (r_entries (mg_residency s')) k = Some e \<longrightarrow> re_active e \<noteq> 0))"
proof -
  from maintain_spec [OF assms, of env] obtain s' ks n where
    run: "maintain env s = (s', Inr ())" and ev: "evictions env s ks s'"
    and due: "\<forall>k e. map_of (r_entries (mg_residency s')) k = Some e \<and> re_active e = 0 \<longrightarrow> env_clock env (mg_tick s) < re_expires e"
    and stop: "env_ram env n = None \<or> (\<exists>a. env_ram env n = Some a \<and> r_reserve (mg_residency s') \<le> a)
        \<or> oldest_idle (mg_residency s') = []" by blast
  note q = mg_inv_parts [OF evictions_keep_inv [OF ev assms]]
  have "re_active e \<noteq> 0" if "oldest_idle (mg_residency s') = []" "map_of (r_entries (mg_residency s')) k = Some e" for k e
    using oldest_idle_empty [OF that(1) _ map_of_SomeD [OF that(2)]] q(8) by (simp add: dom_map_of_conv_image_fst)
  then show ?thesis
    using run due stop evictions_entries [OF ev] evictions_idle [OF ev]
    by (intro exI [of _ s'] exI [of _ ks] exI [of _ n]) auto
qed

text \<open>
  A model that was evicted comes back, when it is acquired again, with the context size, the
  options and the keep_alive it had.
\<close>

theorem reload_keeps_configuration:
  assumes "mg_inv s" and "canonical_ok (env_canonical env)"
    and "map_of (mg_loaded s) k = None" and "map_of (mg_remembered s) k = Some c"
    and "load_context_tokens c \<noteq> 0" and "0 \<le> load_keep_alive c"
    and "models_acquire env k (- 1) s = (s', Inr m)"
  shows "spec_context_tokens (lm_spec m) = load_context_tokens c \<and> spec_options (lm_spec m) = load_options c
    \<and> (\<exists>e. map_of (r_entries (mg_residency s')) k = Some e \<and> re_keep_alive e = load_keep_alive c)"
proof -
  let ?rq = "\<lambda>uri. \<lparr>load_model = uri, load_context_tokens = 0, load_options = [], load_keep_alive = - 1\<rparr>"
  obtain uri s2 info now r' where uri: "model_uri k = Inr uri"
    and ld: "models_load env (?rq uri) s = (s2, Inr info)"
    and acq: "res_acquire k (- 1) now (mg_residency s2) = Inr r'" "same_models (s2\<lparr>mg_residency := r'\<rparr>) s'"
    and m: "map_of (rm_models (mg_runtimes s2)) k = Some m"
    using acquire_steps [OF assms(7)] .
  have canon: "env_canonical env uri = Inr uri" "model_id uri = Inr k"
    using assms(2) model_uri_id [OF uri] by (simp_all add: canonical_ok_def)
  from models_load_spec [OF assms(1) ld] canon assms(3) obtain p s1 where
    p: "plan_load env k (?rq uri) s = Inr p" and en: "entered env k uri p s1 s2"
    by (auto simp: load_outcome_def)
  have "lp_config p = merge_config (Some c) (?rq uri)"
    "choose_context (env_options env) (lp_config p) (mr_manifest (rsv_record (lp_resolved p))) = Inr (lp_context p)"
    using p assms(4) by (auto simp: plan_load_def Let_def split: if_splits)
  then have cfg: "load_options (lp_config p) = load_options c" "load_keep_alive (lp_config p) = load_keep_alive c"
    "lp_context p = load_context_tokens c"
    using assms(5) by (auto simp: merge_config_def choose_context_def Let_def split: if_splits)
  obtain n e where lres: "res_loaded k (lp_memory p) (load_keep_alive c) n (mg_residency s1) = Inr (mg_residency s2)"
    using en cfg unfolding entered_def by auto
  obtain e where e: "map_of (r_entries (mg_residency s2)) k = Some e" using en by (auto simp: entered_def)
  have "re_keep_alive e = load_keep_alive c" using loaded_keep_alive [OF lres assms(6) e] .
  then have "\<exists>e'. map_of (r_entries r') k = Some e' \<and> re_keep_alive e' = load_keep_alive c"
    using acq(1) e by (auto simp: res_acquire_def res_touch_def touch_entry_def Let_def split: option.splits)
  moreover have "mg_residency s' = r'" using acq(2) by (simp add: same_models_def)
  moreover have "lm_spec m = spec_of env k (lp_resolved p) (lp_context p) (lp_config p)"
    using en m by (auto simp: entered_def)
  ultimately show ?thesis using cfg by (simp add: spec_of_def Let_def)
qed

section \<open>Concrete runs\<close>

text \<open>One idle model whose time was over at 5, observed at 9.\<close>

definition sample_info :: model_info where
  "sample_info = \<lparr>mi_model = \<lparr>mr_uri = qs ''model://m'', mr_manifest = sample_manifest, mr_loaded = True\<rparr>,
     mi_context_tokens = 2048, mi_options = [], mi_execution = \<lparr>sel_runtime = qs ''demo'',
       sel_device = \<lparr>dev_backend = Cpu, dev_id = []\<rparr>, sel_reason = [], sel_fallback_reasons = []\<rparr>,
     mi_memory = \<lparr>weights_bytes = 0, context_bytes = 0, overhead_bytes = 0, basis = []\<rparr>,
     mi_keep_alive = 0, mi_expires_in = 0, mi_active = 0\<rparr>"

definition sample_residency :: residency where
  "sample_residency = \<lparr>r_limit = 2, r_budget = 1000, r_reserve = 0, r_clock = 1, r_loads = 1, r_evictions = 0,
     r_keep_alive = 5, r_entries = [(qs ''m'', \<lparr>re_memory = \<lparr>weights_bytes = 10, context_bytes = 2,
       overhead_bytes = 1, basis = []\<rparr>, re_keep_alive = 5, re_expires = 5, re_access = 1, re_active = 0\<rparr>)]\<rparr>"

definition sample_models :: "(nat, unit) models" where
  "sample_models = \<lparr>mg_runtimes = sample_manager\<lparr>rm_models := [(qs ''m'', \<lparr>lm_spec = sample_spec,
       lm_execution = mi_execution sample_info, lm_runtime = 42\<rparr>)]\<rparr>,
     mg_residency = sample_residency, mg_loaded = [(qs ''m'', sample_info)],
     mg_remembered = [(qs ''m'', \<lparr>load_model = qs ''model://m'', load_context_tokens = 2048, load_options = [],
       load_keep_alive = 5\<rparr>)],
     mg_host = (), mg_observed = [], mg_observed_at = 0, mg_tick = 0\<rparr>"

definition sample_env :: "unit models_env" where
  "sample_env = with_registry \<lparr>env_options = default_service_options, env_canonical = (\<lambda>_. throw NotFound ''no alias''),
     env_resolve = (\<lambda>_. Inr \<lparr>rsv_record = mi_model sample_info, rsv_directory = qs ''/m'', rsv_entry_path = qs ''/m.gguf''\<rparr>),
     env_verify = (\<lambda>uri. Inr \<lparr>mv_model = uri, mv_valid = True, mv_checked_files = 0, mv_checked_bytes = 0, mv_issues = []\<rparr>),
     env_remove = (\<lambda>_. Inr ()), env_list = \<lparr>ml_models = [], ml_issues = []\<rparr>,
     env_install = (\<lambda>_. throw NotFound ''no package''), env_pull = (\<lambda>_. throw NotFound ''no package''),
     env_file_path = (\<lambda>d f. d @ f), env_path_exists = (\<lambda>_. True), env_before_unload = (\<lambda>_ h. h),
     env_clock = (\<lambda>_. 9), env_ram = (\<lambda>_. None), env_cancelled = (\<lambda>_. False), env_load_checks = (\<lambda>_ _. False)\<rparr>"

lemma sample_models_inv: "mg_inv sample_models"
proof (rule mg_invI)
  show "res_inv (mg_residency sample_models)"
    by (simp add: sample_models_def sample_residency_def res_inv_def owf_def reserved_def entry_total_def)
  show "row_ok sample_models k i" if "map_of (mg_loaded sample_models) k = Some i" for k i
    using that
    by (auto simp: row_ok_def sample_models_def sample_residency_def sample_info_def sample_spec_def split: if_splits)
qed (simp_all add: sample_models_def sample_residency_def sample_manager_def owf_def)

lemma sample_env_ok: "canonical_ok (env_canonical sample_env)"
  by (simp add: sample_env_def)

lemma sample_env_eval [simp]: "env_clock sample_env n = 9" "env_ram sample_env n = None"
  by (simp_all add: sample_env_def with_registry_def)

lemma valid_m: "valid_id (qs ''m'')"
  by (simp add: valid_id_def id_syntax_def id_reserved_def before_dollar_def device_names_def
      starts_with_def qs_def qc_def is_alnum_def is_id_char_def is_lower_def is_digit_def)

text \<open>The same service after the model was evicted.\<close>

definition emptied :: "(nat, unit) models" where
  "emptied = dropped sample_env True (qs ''m'') sample_models"

lemma emptied_inv: "mg_inv emptied"
proof -
  obtain e where "map_of (r_entries (mg_residency sample_models)) (qs ''m'') = Some e" "re_active e = 0"
    by (simp add: sample_models_def sample_residency_def)
  then show ?thesis unfolding emptied_def by (rule dropped_inv [OF sample_models_inv])
qed

theorem models_agree_witness:
  "dom (map_of (mg_loaded (fold models_apply [MMaintain sample_env, MAcquire sample_env (qs ''m'') 5]
      (make_models default_service_options sample_hardware () :: (nat, unit) models))))
   = dom (map_of (r_entries (mg_residency (fold models_apply [MMaintain sample_env, MAcquire sample_env (qs ''m'') 5]
      (make_models default_service_options sample_hardware () :: (nat, unit) models)))))"
proof -
  have opts: "0 \<le> max_models default_service_options" by (simp add: default_service_options_def)
  have ops: "\<forall>a \<in> set [MMaintain sample_env, MAcquire sample_env (qs ''m'') 5 :: (nat, unit) models_op]. op_env_ok a"
    by (simp add: sample_env_ok)
  show ?thesis by (rule models_agree [OF opts ops, unfolded Let_def, THEN conjunct1])
qed

theorem load_evicts_idle_only_witness:
  "\<exists>s' info. models_load sample_env \<lparr>load_model = qs ''model://m'', load_context_tokens = 2048, load_options = [],
      load_keep_alive = 7\<rparr> sample_models = (s', Inr info)
    \<and> dom (map_of (mg_loaded s')) = {qs ''m''} \<and> mi_context_tokens info = 2048"
proof -
  let ?rq = "\<lparr>load_model = qs ''model://m'', load_context_tokens = 2048, load_options = [], load_keep_alive = 7\<rparr>"
  have i: "map_of (mg_loaded sample_models) (qs ''m'') = Some sample_info" by (simp add: sample_models_def)
  have id: "model_id (qs ''model://m'') = Inr (qs ''m'')"
    using model_uri_id [of "qs ''m''" "qs ''model://m''"] valid_m
    by (simp add: model_uri_def uri_prefix_def flip: qs_append)
  have nc: "\<not> config_conflict ?rq sample_info" by (simp add: config_conflict_def sample_info_def)
  obtain s' r where ag: "load_again sample_env (qs ''m'') ?rq sample_info sample_models = (s', r)" by fastforce
  have run: "models_load sample_env ?rq sample_models = (s', r)"
    using ag i id sample_env_ok
    by (simp add: models_load_def act_bind_def canonical_ok_def require_def jhas_def ohas_def load_request_ok_def)
  obtain info where r: "r = Inr info" using load_again_spec [OF sample_models_inv i ag] nc by (cases r) auto
  from load_evicts_idle_only [OF sample_models_inv run] r obtain ks uri k j where
    k: "env_canonical sample_env (load_model ?rq) = Inr uri" "model_id uri = Inr k"
      "map_of (mg_loaded s') = (map_of (mg_loaded sample_models) |` (- set ks))(k \<mapsto> j)"
      "mi_context_tokens info = mi_context_tokens j"
      "map_of (mg_loaded sample_models) k = Some j \<and> ks = [] \<or> map_of (mg_loaded sample_models) k = None"
    by auto
  have "uri = qs ''model://m''" using k(1) id sample_env_ok by (auto simp: canonical_ok_def)
  then have "k = qs ''m''" using k(2) id by simp
  then have "j = sample_info" "ks = []" using k(5) i by auto
  then have "dom (map_of (mg_loaded s')) = {qs ''m''}" "mi_context_tokens info = 2048"
    using k(3,4) \<open>k = qs ''m''\<close> by (auto simp: sample_models_def sample_info_def split: if_splits)
  then show ?thesis using run r by blast
qed

theorem models_lease_bracket_witness:
  "\<exists>s1 m s3. models_acquire sample_env (qs ''m'') 5 sample_models = (s1, Inr m)
    \<and> models_release sample_env (qs ''m'') s1 = (s3, Inr ()) \<and> held s3 = held sample_models"
proof -
  have "map_of (mg_loaded sample_models) (qs ''m'') = Some sample_info" by (simp add: sample_models_def)
  from acquire_loaded [OF sample_models_inv sample_env_ok this valid_m, of 5] obtain s1 m where
    run: "models_acquire sample_env (qs ''m'') 5 sample_models = (s1, Inr m)" by auto
  have "mg_inv s1" using models_acquire_spec [OF sample_models_inv sample_env_ok run] by simp
  from models_lease_bracket [OF sample_models_inv sample_env_ok run this refl] run show ?thesis by blast
qed

theorem maintenance_ends_witness:
  "\<exists>s'. maintain sample_env sample_models = (s', Inr ()) \<and> map_of (r_entries (mg_residency s')) (qs ''m'') = None"
proof -
  from maintenance_ends [OF sample_models_inv, of sample_env] obtain s' ks where
    run: "maintain sample_env sample_models = (s', Inr ())"
    and ent: "map_of (r_entries (mg_residency s')) = map_of (r_entries (mg_residency sample_models)) |` (- set ks)"
    and due: "\<forall>k e. map_of (r_entries (mg_residency s')) k = Some e \<and> re_active e = 0 \<longrightarrow> 9 < re_expires e"
    unfolding sample_env_eval(1) by blast
  obtain e where e: "map_of (r_entries (mg_residency sample_models)) (qs ''m'') = Some e" "re_active e = 0" "re_expires e = 5"
    by (simp add: sample_models_def sample_residency_def)
  have "map_of (r_entries (mg_residency s')) (qs ''m'') = None"
  proof (rule ccontr)
    assume "map_of (r_entries (mg_residency s')) (qs ''m'') \<noteq> None"
    then have "map_of (r_entries (mg_residency s')) (qs ''m'') = Some e" using ent e by (simp add: restrict_map_def split: if_splits)
    then show False using due e by fastforce
  qed
  with run show ?thesis by blast
qed

text \<open>The evicted model is loaded again.\<close>

lemma uri_m: "model_uri (qs ''m'') = Inr (qs ''model://m'')"
  using valid_m by (simp add: model_uri_def uri_prefix_def flip: qs_append)

abbreviation reload_request :: model_load_request where
  "reload_request \<equiv> \<lparr>load_model = qs ''model://m'', load_context_tokens = 0, load_options = [], load_keep_alive = -1\<rparr>"

definition reload_plan :: load_plan where
  "reload_plan = \<lparr>lp_config = reload_request\<lparr>load_context_tokens := 2048, load_keep_alive := 5\<rparr>,
     lp_resolved = \<lparr>rsv_record = mi_model sample_info, rsv_directory = qs ''/m'', rsv_entry_path = qs ''/m.gguf''\<rparr>,
     lp_context = 2048, lp_memory = \<lparr>weights_bytes = 7, context_bytes = 2, overhead_bytes = 1, basis = []\<rparr>, lp_required = 10\<rparr>"

lemma emptied_fields:
  "mg_loaded emptied = []" "r_entries (mg_residency emptied) = []" "mg_runtimes emptied = sample_manager"
  "r_budget (mg_residency emptied) = 1000" "r_limit (mg_residency emptied) = 2"
  "map_of (mg_remembered emptied) (qs ''m'') = Some \<lparr>load_model = qs ''model://m'', load_context_tokens = 2048,
     load_options = [], load_keep_alive = 5\<rparr>"
  by (simp_all add: emptied_def sample_models_def sample_residency_def sample_manager_def)

lemma reload_planned: "plan_load sample_env (qs ''m'') reload_request emptied = Inr reload_plan"
proof -
  have ctx: "choose_context (env_options sample_env) (reload_request\<lparr>load_context_tokens := 2048, load_keep_alive := 5\<rparr>)
      (mr_manifest (mi_model sample_info)) = Inr 2048"
    by (simp add: choose_context_def sample_env_def with_registry_def default_service_options_def sample_info_def sample_manifest_def)
  have est: "manager_estimate sample_manager spec n = Inr (lp_memory reload_plan)" for spec n
    by (simp add: manager_estimate_def sample_manager_def sample_runtime_def reload_plan_def total_bytes_sum)
  have cfg: "merge_config (map_of (mg_remembered emptied) (qs ''m'')) reload_request
      = reload_request\<lparr>load_context_tokens := 2048, load_keep_alive := 5\<rparr>"
    by (simp add: merge_config_def emptied_fields)
  have res: "env_resolve sample_env ref = Inr (lp_resolved reload_plan)"
    "env_verify sample_env ref = Inr \<lparr>mv_model = ref, mv_valid = True, mv_checked_files = 0, mv_checked_bytes = 0, mv_issues = []\<rparr>" for ref
    by (simp_all add: sample_env_def with_registry_def reload_plan_def)
  have "total_bytes (lp_memory reload_plan) = Inr 10" by (simp add: reload_plan_def total_bytes_sum)
  then show ?thesis
    using ctx unfolding plan_load_def Let_def cfg res bindr_simps
    by (simp add: reload_plan_def est [unfolded reload_plan_def] emptied_fields require_def)
qed

lemma reload_loads:
  "\<exists>s2 info. models_load sample_env reload_request emptied = (s2, Inr info) \<and> qs ''m'' \<in> dom (map_of (r_entries (mg_residency s2)))"
proof -
  have id: "model_id (qs ''model://m'') = Inr (qs ''m'')" using model_uri_id [OF uri_m] .
  obtain s2 r where run: "carry_out sample_env (qs ''m'') (qs ''model://m'') reload_plan emptied = (s2, r)" by fastforce
  have fresh: "map_of (mg_loaded emptied) (qs ''m'') = None" by (simp add: emptied_fields)
  have req: "total_bytes (lp_memory reload_plan) = Inr (lp_required reload_plan)"
    using plan_required [OF reload_planned] .
  have spec: "spec_of sample_env (qs ''m'') (lp_resolved reload_plan) (lp_context reload_plan) (lp_config reload_plan) = sample_spec"
    by (simp add: spec_of_def reload_plan_def sample_spec_def sample_info_def sample_manifest_def)
  have fit: "fits (mg_residency emptied) 10 None = Inr True"
    by (simp add: fits_def res_bytes_def emptied_fields size_t_def)
  have room: "make_room sample_env (lp_required reload_plan) emptied = (emptied\<lparr>mg_tick := Suc (mg_tick emptied)\<rparr>, Inr ())"
    using fit by (simp add: make_room.simps [of sample_env _ emptied] Let_def reload_plan_def)
  from carry_out_spec [OF emptied_inv fresh _ req run] obtain ks s1 where
    ev: "evictions sample_env emptied ks s1" and out: "case r of
       Inl e \<Rightarrow> same_models s1 s2 \<and> (make_room sample_env (lp_required reload_plan) emptied = (s1, Inl e) \<or>
         (\<exists>n. manager_load (env_load_checks sample_env n) (env_path_exists sample_env) sample_spec (mg_runtimes s1) = Inl e))
     | Inr info \<Rightarrow> entered sample_env (qs ''m'') (qs ''model://m'') reload_plan s1 s2 \<and> mi_context_tokens info = lp_context reload_plan
         \<and> mi_options info = load_options (lp_config reload_plan)"
    unfolding spec by auto
  have "ks = []" using evictions_idle [OF ev] by (cases ks) (auto simp: emptied_fields)
  then have "mg_runtimes s1 = sample_manager" using ev by (simp add: same_models_def emptied_fields)
  moreover have "env_load_checks sample_env n = (\<lambda>_. False)" "env_path_exists sample_env = (\<lambda>_. True)" for n
    by (simp_all add: sample_env_def with_registry_def)
  ultimately obtain info where r: "r = Inr info" using out sample_load room by (cases r) auto
  then have "qs ''m'' \<in> dom (map_of (r_entries (mg_residency s2)))" using out by (auto simp: entered_def)
  moreover have "models_load sample_env reload_request emptied = (s2, Inr info)"
    using run r id sample_env_ok reload_planned
    by (simp add: models_load_def load_new_def act_bind_def canonical_ok_def require_def jhas_def ohas_def
        load_request_ok_def emptied_fields)
  ultimately show ?thesis by blast
qed

theorem reload_keeps_configuration_witness:
  "\<exists>s' m. models_acquire sample_env (qs ''m'') (- 1) emptied = (s', Inr m) \<and> spec_context_tokens (lm_spec m) = 2048"
proof -
  obtain s2 info where ld: "models_load sample_env reload_request emptied = (s2, Inr info)"
    "qs ''m'' \<in> dom (map_of (r_entries (mg_residency s2)))"
    using reload_loads by blast
  obtain s' m where acq: "models_acquire sample_env (qs ''m'') (- 1) emptied = (s', Inr m)"
    using acquire_after_load [OF emptied_inv sample_env_ok uri_m ld] by blast
  have "map_of (mg_loaded emptied) (qs ''m'') = None" by (simp add: emptied_fields)
  from reload_keeps_configuration [OF emptied_inv sample_env_ok this emptied_fields(6) _ _ acq] acq
  show ?thesis by auto
qed

end
