(* ===== verification/Conversation.thy ===== *)
theory Conversation
  imports GenerationRules Media
begin

text \<open>
  Structured conversations (\<^verbatim>\<open>src/service/Conversation.cpp\<close>): what a request and the
  reply of a runtime have to satisfy. The JSON parser of function arguments is the argument
  \<open>parse\<close> (\<^verbatim>\<open>None\<close> for a parse error), the compact printer \<open>compacted\<close>, and
  \<open>fresh\<close> gives the identifiers that \<^verbatim>\<open>QUuid::createUuid\<close> draws, one per call.
\<close>

record runtime_reply =
  reply_text :: qstring
  reply_reasoning :: qstring
  reply_tool_calls :: "json list"

section \<open>Checks\<close>

definition check_allowed :: "json_object \<Rightarrow> string list \<Rightarrow> unit res" where
  "check_allowed obj allowed = fold_res (\<lambda>(k, _) _. if k \<in> set (map qs allowed) then Inr ()
     else throwq InvalidArgument (qs ''Unsupported structured conversation field: '' @ k)) obj ()"

definition is_name_unit :: "qchar \<Rightarrow> bool" where
  "is_name_unit c \<longleftrightarrow> (65 \<le> c \<and> c \<le> 90) \<or> (97 \<le> c \<and> c \<le> 122) \<or> (48 \<le> c \<and> c \<le> 57)
     \<or> c \<in> set (qs ''_.:-'')"

text \<open>\<^verbatim>\<open>^[A-Za-z0-9_.:-]{1,128}$\<close>: the dollar sign also matches before a final newline.\<close>

definition name_valid :: "qstring \<Rightarrow> bool" where
  "name_valid s \<longleftrightarrow> before_dollar s \<noteq> [] \<and> length (before_dollar s) \<le> 128 \<and> (\<forall>c \<in> set (before_dollar s). is_name_unit c)"

definition function_of :: "json \<Rightarrow> json_object" where
  "function_of v = to_object (jvalue (to_object v) ''function'')"

definition function_name :: "json \<Rightarrow> qstring" where
  "function_name v = to_string (jvalue (function_of v) ''name'')"

definition call_id :: "json \<Rightarrow> qstring" where
  "call_id v = to_string (jvalue (to_object v) ''id'')"

definition parses_to_object :: "(qstring \<Rightarrow> json option) \<Rightarrow> qstring \<Rightarrow> bool" where
  "parses_to_object parse s = (case parse s of None \<Rightarrow> False | Some v \<Rightarrow> is_object v)"

definition check_call :: "(qstring \<Rightarrow> json option) \<Rightarrow> error_code \<Rightarrow> json \<Rightarrow> qstring res" where
  "check_call parse code v =
     (let call = to_object v; arguments = jvalue (function_of v) ''arguments'' in
      bindr (require (is_object v \<and> jvalue call ''type'' = JStr (qs ''function'') \<and> name_valid (function_name v))
        code ''Invalid function call'') (\<lambda>_.
      bindr (require (is_string (jvalue call ''id'') \<and> call_id v \<noteq> [] \<and> length (call_id v) \<le> 128)
        code ''Invalid function call ID'') (\<lambda>_.
      bindr (require (is_string arguments \<and> parses_to_object parse (to_string arguments)) code
        ''Function arguments must be a JSON object encoded as a string'') (\<lambda>_.
      Inr (call_id v)))))"

definition check_tool :: "json \<Rightarrow> qstring set \<Rightarrow> qstring set res" where
  "check_tool v names =
     (let tool = to_object v; f = function_of v in
      bindr (check_allowed tool [''type'', ''function'']) (\<lambda>_.
      bindr (check_allowed f [''name'', ''description'', ''parameters'']) (\<lambda>_.
      bindr (require (jvalue tool ''type'' = JStr (qs ''function'') \<and> name_valid (function_name v)
          \<and> function_name v \<notin> names \<and> is_object (jvalue f ''parameters''))
        InvalidArgument ''Invalid or duplicate function definition'') (\<lambda>_.
      bindr (require (\<not> jhas f ''description'' \<or> is_string (jvalue f ''description''))
        InvalidArgument ''Invalid function description'') (\<lambda>_.
      Inr (insert (function_name v) names))))))"

section \<open>The messages of a request\<close>

definition message_role :: "json \<Rightarrow> qstring" where
  "message_role v = to_string (jvalue (to_object v) ''role'')"

definition result_id :: "json \<Rightarrow> qstring" where
  "result_id v = to_string (jvalue (to_object v) ''tool_call_id'')"

definition tool_calls_of :: "json \<Rightarrow> json list" where
  "tool_calls_of v = to_array (jvalue (to_object v) ''tool_calls'')"

text \<open>The state: the call ids seen so far and those that wait for their result.\<close>

type_synonym call_state = "qstring set \<times> qstring set"

definition add_call :: "(qstring \<Rightarrow> json option) \<Rightarrow> json \<Rightarrow> call_state \<Rightarrow> call_state res" where
  "add_call parse v st = bindr (check_call parse InvalidArgument v) (\<lambda>k.
     bindr (require (k \<notin> fst st) InvalidArgument ''Duplicate tool call ID'') (\<lambda>_.
       Inr (insert k (fst st), insert k (snd st))))"

text \<open>The guards every message passes, in the order of the code.\<close>

definition check_shape :: "(json \<Rightarrow> qstring) \<Rightarrow> int \<Rightarrow> nat \<Rightarrow> json \<Rightarrow> qstring set \<Rightarrow> unit res" where
  "check_shape compacted limit i v pending =
     (let m = to_object v; role = message_role v; content = jvalue m ''content'' in
      bindr (check_allowed m [''role'', ''content'', ''tool_calls'', ''tool_call_id'', ''reasoning_content'', ''name'']) (\<lambda>_.
      bindr (require (is_object v \<and> role \<in> {qs ''system'', qs ''user'', qs ''assistant'', qs ''tool''})
        InvalidArgument ''Unsupported conversation role'') (\<lambda>_.
      bindr (require (\<not> jhas m ''content'' \<or> content = JNull \<or> is_string content
          \<or> (role \<in> {qs ''user'', qs ''tool''} \<and> is_array content)) InvalidArgument ''Invalid conversation content'') (\<lambda>_.
      bindr (if is_array content then bindr (native_content compacted (to_array content) limit) (\<lambda>bs.
          require (bs \<noteq> []) InvalidArgument ''Empty native content'') else Inr ()) (\<lambda>_.
      bindr (require (\<not> jhas m ''reasoning_content'' \<or> (role = qs ''assistant'' \<and> is_string (jvalue m ''reasoning_content'')))
        InvalidArgument ''Only assistant messages may contain string reasoning_content'') (\<lambda>_.
      bindr (require (\<not> jhas m ''name'' \<or> (role = qs ''tool'' \<and> is_string (jvalue m ''name'')))
        InvalidArgument ''Invalid tool result name'') (\<lambda>_.
      bindr (require (role \<noteq> qs ''system'' \<or> i = 0) InvalidArgument ''System message must be first'') (\<lambda>_.
      bindr (require (role = qs ''tool'' \<or> pending = {}) InvalidArgument
        ''Tool results must precede another conversation message'') (\<lambda>_.
      bindr (require (role = qs ''assistant'' \<or> \<not> jhas m ''tool_calls'') InvalidArgument
        ''Only assistant messages may call tools'') (\<lambda>_.
      require (role = qs ''tool'' \<or> \<not> jhas m ''tool_call_id'') InvalidArgument
        ''Only tool messages may contain a result ID''))))))))))"

definition check_turn :: "(qstring \<Rightarrow> json option) \<Rightarrow> json \<Rightarrow> call_state \<Rightarrow> call_state res" where
  "check_turn parse v st =
     (let m = to_object v; role = message_role v; content = jvalue m ''content'' in
      if role = qs ''tool'' then
        bindr (require (result_id v \<in> snd st \<and> (is_string content \<or> is_array content)) InvalidArgument
          ''Orphan or duplicate tool result'') (\<lambda>_. Inr (fst st, snd st - {result_id v}))
      else if role = qs ''assistant'' \<and> jhas m ''tool_calls'' then
        bindr (require (is_array (jvalue m ''tool_calls'')) InvalidArgument ''tool_calls must be an array'') (\<lambda>_.
        bindr (require (tool_calls_of v \<noteq> [] \<and> length (tool_calls_of v) \<le> 64) InvalidArgument
          ''Invalid tool call count'') (\<lambda>_.
        fold_res (add_call parse) (tool_calls_of v) st))
      else bindr (require (trimmed (to_string content) \<noteq> [] \<or> is_array content) InvalidArgument
        ''Empty conversation message'') (\<lambda>_. Inr st))"

definition check_message :: "(json \<Rightarrow> qstring) \<Rightarrow> (qstring \<Rightarrow> json option) \<Rightarrow> int \<Rightarrow> nat \<Rightarrow> json \<Rightarrow> call_state \<Rightarrow> call_state res" where
  "check_message compacted parse limit i v st =
     bindr (check_shape compacted limit i v (snd st)) (\<lambda>_. check_turn parse v st)"

primrec check_messages :: "(json \<Rightarrow> qstring) \<Rightarrow> (qstring \<Rightarrow> json option) \<Rightarrow> int \<Rightarrow> nat \<Rightarrow> json list \<Rightarrow> call_state \<Rightarrow> call_state res" where
  "check_messages compacted parse limit i [] st = Inr st"
| "check_messages compacted parse limit i (v # vs) st =
     bindr (check_message compacted parse limit i v st) (check_messages compacted parse limit (Suc i) vs)"

definition request_json :: "conversation_request \<Rightarrow> json_object" where
  "request_json r = jobj [(''messages'', JArr (conv_messages r)), (''tools'', JArr (conv_tools r)),
     (''response_schema'', JObj (conv_response_schema r))]"

definition validate_conversation_request :: "qt \<Rightarrow> catalog \<Rightarrow> (json \<Rightarrow> qstring) \<Rightarrow> (qstring \<Rightarrow> json option) \<Rightarrow>
    conversation_request \<Rightarrow> int \<Rightarrow> unit res" where
  "validate_conversation_request q c compacted parse r limit =
     bindr (validate_generation_options q c (conv_options r) []) (\<lambda>_.
     bindr (require (length (conv_context_id r) \<le> 128 \<and> conv_keep_alive r \<ge> -1 \<and> conv_keep_alive r \<le> 7 * 86400000)
       InvalidArgument ''Invalid conversation context or lifetime'') (\<lambda>_.
     bindr (require (conv_tool_choice r \<in> {qs ''auto'', qs ''none'', qs ''required''}) InvalidArgument ''Invalid tool choice'') (\<lambda>_.
     bindr (require (conv_tool_choice r \<noteq> qs ''required'' \<or> conv_tools r \<noteq> []) InvalidArgument
       ''Required tool choice needs tools'') (\<lambda>_.
     bindr (require (conv_messages r \<noteq> [] \<and> length (conv_messages r) \<le> 4096 \<and> length (conv_tools r) \<le> 256)
       InvalidArgument ''Invalid conversation size'') (\<lambda>_.
     bindr (require (int (length (compacted (JObj (request_json r)))) \<le> limit) InvalidArgument
       ''Conversation exceeds service input limit'') (\<lambda>_.
     bindr (fold_res check_tool (conv_tools r) {}) (\<lambda>_.
     bindr (check_messages compacted parse limit 0 (conv_messages r) ({}, {})) (\<lambda>(ids, pending).
     require (pending = {} \<and> message_role (last (conv_messages r)) \<in> {qs ''user'', qs ''tool''}) InvalidArgument
       ''Conversation must end in user input or complete tool results''))))))))"

section \<open>The reply of a runtime\<close>

definition fill_id :: "qstring \<Rightarrow> json \<Rightarrow> json" where
  "fill_id k v = (let call = to_object v in
     JObj (if \<not> jhas call ''id'' \<or> jvalue call ''id'' = JStr [] then oput (qs ''id'') (JStr k) call else call))"

primrec reply_calls :: "(qstring \<Rightarrow> json option) \<Rightarrow> (nat \<Rightarrow> qstring) \<Rightarrow> qstring set \<Rightarrow> nat \<Rightarrow> json list \<Rightarrow> qstring set \<Rightarrow>
    json list res" where
  "reply_calls parse fresh names i [] ids = Inr []"
| "reply_calls parse fresh names i (v # vs) ids =
     (let call = fill_id (fresh i) v in
      bindr (check_call parse ProtocolError call) (\<lambda>k.
      bindr (require (k \<notin> ids \<and> function_name call \<in> names) ProtocolError
        ''Runtime returned an unknown tool or duplicate ID'') (\<lambda>_.
      bindr (reply_calls parse fresh names (Suc i) vs (insert k ids)) (\<lambda>calls. Inr (call # calls)))))"

definition validate_conversation_reply :: "(qstring \<Rightarrow> json option) \<Rightarrow> (nat \<Rightarrow> qstring) \<Rightarrow> runtime_reply \<Rightarrow>
    conversation_request \<Rightarrow> runtime_reply res" where
  "validate_conversation_reply parse fresh reply request =
     (let calls = reply_tool_calls reply; choice = conv_tool_choice request in
      bindr (require (length calls \<le> 64) ProtocolError ''Runtime returned too many tool calls'') (\<lambda>_.
      bindr (require (conv_parallel_tool_calls request \<or> length calls \<le> 1) ProtocolError
        ''Runtime ignored parallel_tool_calls false'') (\<lambda>_.
      bindr (require (choice \<noteq> qs ''none'' \<or> calls = []) ProtocolError ''Runtime ignored tool_choice none'') (\<lambda>_.
      bindr (require (choice \<noteq> qs ''required'' \<or> calls \<noteq> []) ProtocolError ''Runtime ignored required tool choice'') (\<lambda>_.
      bindr (reply_calls parse fresh (set (map function_name (conv_tools request))) 0 calls
          (set (map call_id (concat (map tool_calls_of (conv_messages request)))))) (\<lambda>checked.
        Inr (reply\<lparr>reply_tool_calls := checked\<rparr>)))))))"

section \<open>Lemmas\<close>

definition call_ids :: "json list \<Rightarrow> qstring list" where
  "call_ids vs = map call_id (concat (map tool_calls_of vs))"

definition results_of :: "json \<Rightarrow> qstring list" where
  "results_of v = (if message_role v = qs ''tool'' then [result_id v] else [])"

definition result_ids :: "json list \<Rightarrow> qstring list" where
  "result_ids vs = concat (map results_of vs)"

lemma ids_append [simp]:
  "call_ids (vs @ ws) = call_ids vs @ call_ids ws" "result_ids (vs @ ws) = result_ids vs @ result_ids ws"
  "call_ids (v # vs) = map call_id (tool_calls_of v) @ call_ids vs" "result_ids (v # vs) = results_of v @ result_ids vs"
  "call_ids [] = []" "result_ids [] = []"
  by (simp_all add: call_ids_def result_ids_def)

lemma check_call_result: "check_call parse code v = Inr k \<Longrightarrow> k = call_id v"
  by (simp add: check_call_def Let_def)

lemma check_call_code: "check_call parse code v = Inr k \<longleftrightarrow> check_call parse code' v = Inr k"
  by (simp add: check_call_def Let_def)

lemma add_calls: "fold_res (add_call parse) cs (ids, pending) = Inr (ids', pending') \<longleftrightarrow>
    (\<forall>v \<in> set cs. ok (check_call parse InvalidArgument v)) \<and> distinct (map call_id cs)
    \<and> set (map call_id cs) \<inter> ids = {} \<and> ids' = ids \<union> set (map call_id cs) \<and> pending' = pending \<union> set (map call_id cs)"
proof (induction cs arbitrary: ids pending)
  case Nil
  then show ?case by auto
next
  case (Cons v cs)
  show ?case
  proof (cases "check_call parse InvalidArgument v")
    case (Inl e)
    then show ?thesis by (simp add: add_call_def)
  next
    case (Inr k)
    then have "k = call_id v" by (rule check_call_result)
    then show ?thesis
      using Inr Cons.IH [of "insert k ids" "insert k pending"]
      by (cases "k \<in> ids") (auto simp: add_call_def require_def throw_def)
  qed
qed

lemma no_tool_calls: "\<not> jhas (to_object v) ''tool_calls'' \<Longrightarrow> tool_calls_of v = []"
  by (simp add: tool_calls_of_def jvalue_def jhas_def ohas_def split: option.split)

lemma check_shapeD:
  assumes "check_shape compacted limit i v pending = Inr u"
  shows "message_role v \<in> {qs ''system'', qs ''user'', qs ''assistant'', qs ''tool''}"
    and "message_role v = qs ''system'' \<Longrightarrow> i = 0" and "message_role v \<noteq> qs ''tool'' \<Longrightarrow> pending = {}"
    and "message_role v \<noteq> qs ''assistant'' \<Longrightarrow> tool_calls_of v = []"
  using assms unfolding check_shape_def Let_def bindr_Inr_iff require_Inr
  by (blast intro: no_tool_calls)+

text \<open>What the code knows after the messages \<open>done\<close>.\<close>

definition calls_inv :: "json list \<Rightarrow> call_state \<Rightarrow> bool" where
  "calls_inv vs st \<longleftrightarrow> fst st = set (call_ids vs) \<and> distinct (call_ids vs) \<and> distinct (result_ids vs)
     \<and> set (result_ids vs) \<subseteq> set (call_ids vs) \<and> snd st = set (call_ids vs) - set (result_ids vs)"

lemma check_message_inv:
  assumes "calls_inv vs st" and "check_message compacted parse limit i v st = Inr st'"
  shows "calls_inv (vs @ [v]) st'"
proof -
  have shape: "check_shape compacted limit i v (snd st) = Inr ()" and turn: "check_turn parse v st = Inr st'"
    using assms(2) by (auto simp: check_message_def)
  note facts = check_shapeD [OF shape]
  consider (tool) "message_role v = qs ''tool''" | (calls) "message_role v = qs ''assistant''" "jhas (to_object v) ''tool_calls''"
    | (plain) "message_role v \<noteq> qs ''tool''" "\<not> (message_role v = qs ''assistant'' \<and> jhas (to_object v) ''tool_calls'')"
    by blast
  then show ?thesis
  proof cases
    case tool
    then have "result_id v \<in> snd st" "st' = (fst st, snd st - {result_id v})"
      using turn by (auto simp: check_turn_def Let_def)
    then show ?thesis using assms(1) tool facts(4) by (auto simp: calls_inv_def results_of_def)
  next
    case calls
    obtain ids pending where st: "st = (ids, pending)" by (cases st)
    obtain ids' pending' where st': "st' = (ids', pending')" by (cases st')
    have "fold_res (add_call parse) (tool_calls_of v) (ids, pending) = Inr (ids', pending')"
      using turn calls by (auto simp: check_turn_def Let_def st st')
    then show ?thesis
      using assms(1) calls facts(3) unfolding add_calls by (auto simp: calls_inv_def results_of_def st st')
  next
    case plain
    then have "st' = st" "tool_calls_of v = []"
      using turn facts(4) no_tool_calls by (auto simp: check_turn_def Let_def)
    then show ?thesis using assms(1) plain by (simp add: calls_inv_def results_of_def)
  qed
qed

lemma check_messages_inv:
  "check_messages compacted parse limit i vs st = Inr st' \<Longrightarrow> calls_inv us st \<Longrightarrow> i = length us \<Longrightarrow>
     calls_inv (us @ vs) st' \<and> (\<forall>j. i \<le> j \<and> j < length (us @ vs) \<longrightarrow>
       (message_role ((us @ vs) ! j) = qs ''system'' \<longrightarrow> j = 0)
       \<and> (message_role ((us @ vs) ! j) \<noteq> qs ''tool'' \<longrightarrow> set (call_ids (take j (us @ vs))) = set (result_ids (take j (us @ vs)))))"
proof (induction vs arbitrary: i us st)
  case Nil
  then show ?case by auto
next
  case (Cons v vs)
  then obtain st1 where step: "check_message compacted parse limit i v st = Inr st1"
    and rest: "check_messages compacted parse limit (Suc i) vs st1 = Inr st'" by auto
  have shape: "check_shape compacted limit i v (snd st) = Inr ()" using step by (auto simp: check_message_def)
  have IH: "calls_inv ((us @ [v]) @ vs) st' \<and> (\<forall>j. Suc i \<le> j \<and> j < length ((us @ [v]) @ vs) \<longrightarrow>
       (message_role (((us @ [v]) @ vs) ! j) = qs ''system'' \<longrightarrow> j = 0)
       \<and> (message_role (((us @ [v]) @ vs) ! j) \<noteq> qs ''tool'' \<longrightarrow>
          set (call_ids (take j ((us @ [v]) @ vs))) = set (result_ids (take j ((us @ [v]) @ vs)))))"
    using Cons.IH [OF rest check_message_inv [OF Cons.prems(2) step]] Cons.prems(3) by simp
  have here: "(message_role v = qs ''system'' \<longrightarrow> i = 0) \<and> (message_role v \<noteq> qs ''tool'' \<longrightarrow> set (call_ids us) = set (result_ids us))"
    using check_shapeD(2,3) [OF shape] Cons.prems(2) by (auto simp: calls_inv_def)
  show ?case
  proof (intro conjI allI impI)
    show "calls_inv (us @ v # vs) st'" using IH by simp
  next
    fix j
    assume "i \<le> j \<and> j < length (us @ v # vs)" "message_role ((us @ v # vs) ! j) = qs ''system''"
    then show "j = 0" using IH here Cons.prems(3) by (cases "j = i") auto
  next
    fix j
    assume "i \<le> j \<and> j < length (us @ v # vs)" "message_role ((us @ v # vs) ! j) \<noteq> qs ''tool''"
    then show "set (call_ids (take j (us @ v # vs))) = set (result_ids (take j (us @ v # vs)))"
      using IH here Cons.prems(3) by (cases "j = i") auto
  qed
qed

lemma check_messages_append: "check_messages compacted parse limit i (us @ vs) st =
    bindr (check_messages compacted parse limit i us st) (check_messages compacted parse limit (i + length us) vs)"
proof (induction us arbitrary: i st)
  case Nil
  then show ?case by simp
next
  case (Cons u us)
  then show ?case by (cases "check_message compacted parse limit i u st") simp_all
qed

lemma calls_inv_Nil: "calls_inv [] ({}, {})"
  by (simp add: calls_inv_def)

lemma validate_request_iff: "validate_conversation_request q c compacted parse r limit = Inr () \<longleftrightarrow>
    validate_generation_options q c (conv_options r) [] = Inr ()
    \<and> (length (conv_context_id r) \<le> 128 \<and> conv_keep_alive r \<ge> -1 \<and> conv_keep_alive r \<le> 604800000)
    \<and> conv_tool_choice r \<in> {qs ''auto'', qs ''none'', qs ''required''}
    \<and> (conv_tool_choice r \<noteq> qs ''required'' \<or> conv_tools r \<noteq> [])
    \<and> (conv_messages r \<noteq> [] \<and> length (conv_messages r) \<le> 4096 \<and> length (conv_tools r) \<le> 256)
    \<and> int (length (compacted (JObj (request_json r)))) \<le> limit
    \<and> ok (fold_res check_tool (conv_tools r) {})
    \<and> (\<exists>ids. check_messages compacted parse limit 0 (conv_messages r) ({}, {}) = Inr (ids, {}))
    \<and> message_role (last (conv_messages r)) \<in> {qs ''user'', qs ''tool''}"
  unfolding validate_conversation_request_def bindr_Inr_iff require_Inr ok_def
  by (simp only: split_paired_Ex split_conv mult_numeral_left require_Inr simp_thms) auto

lemma check_allowed_iff: "check_allowed obj allowed = Inr () \<longleftrightarrow> fst ` set obj \<subseteq> set (map qs allowed)"
  by (induction obj) (auto simp: check_allowed_def split: if_splits)

lemma reply_calls_ok:
  "reply_calls parse fresh names i vs ids = Inr cs \<Longrightarrow>
     length cs = length vs \<and> (\<forall>j < length vs. cs ! j = fill_id (fresh (i + j)) (vs ! j))
     \<and> (\<forall>v \<in> set cs. ok (check_call parse InvalidArgument v) \<and> function_name v \<in> names)
     \<and> distinct (map call_id cs) \<and> set (map call_id cs) \<inter> ids = {}"
proof (induction vs arbitrary: i ids cs)
  case Nil
  then show ?case by simp
next
  case (Cons v vs)
  let ?c = "fill_id (fresh i) v"
  from Cons.prems obtain k ds where k: "check_call parse ProtocolError ?c = Inr k" "k \<notin> ids" "function_name ?c \<in> names"
    and ds: "reply_calls parse fresh names (Suc i) vs (insert k ids) = Inr ds" "cs = ?c # ds"
    by (auto simp: Let_def)
  have id: "k = call_id ?c" and "ok (check_call parse InvalidArgument ?c)"
    using check_call_result [OF k(1)] check_call_code [of parse ProtocolError ?c k InvalidArgument] k(1)
    by (auto simp: ok_def)
  moreover have "(?c # ds) ! j = fill_id (fresh (i + j)) ((v # vs) ! j)" if "j < Suc (length vs)" for j
    using Cons.IH [OF ds(1)] that by (cases j) auto
  ultimately show ?case using Cons.IH [OF ds(1)] k(2,3) by (auto simp: ds(2))
qed

section \<open>A further turn\<close>

text \<open>The messages a client appends: the calls of the reply and their results.\<close>

definition assistant_turn :: "qstring \<Rightarrow> json list \<Rightarrow> json" where
  "assistant_turn t calls = JObj (jobj [(''role'', JStr (qs ''assistant'')), (''content'', JStr t), (''tool_calls'', JArr calls)])"

definition tool_result :: "qstring \<times> qstring \<Rightarrow> json" where
  "tool_result kt = JObj (jobj [(''role'', JStr (qs ''tool'')), (''tool_call_id'', JStr (fst kt)), (''content'', JStr (snd kt))])"

lemma turn_fields [simp]:
  "to_object (assistant_turn t calls) = jobj [(''role'', JStr (qs ''assistant'')), (''content'', JStr t), (''tool_calls'', JArr calls)]"
  "to_object (tool_result (k, t)) = jobj [(''role'', JStr (qs ''tool'')), (''tool_call_id'', JStr k), (''content'', JStr t)]"
  by (simp_all add: assistant_turn_def tool_result_def)

lemma jobj_has: "distinct (map fst kvs) \<Longrightarrow> jhas (jobj kvs) k \<longleftrightarrow> k \<in> fst ` set kvs"
  by (simp add: jhas_def ohas_def map_of_jobj) force

lemma assistant_turn_check:
  assumes "calls \<noteq> []" "length calls \<le> 64" "\<forall>v \<in> set calls. ok (check_call parse InvalidArgument v)"
    "distinct (map call_id calls)" "set (map call_id calls) \<inter> ids = {}"
  shows "check_message compacted parse limit i (assistant_turn t calls) (ids, {})
    = Inr (ids \<union> set (map call_id calls), set (map call_id calls))"
proof -
  have role: "message_role (assistant_turn t calls) = qs ''assistant''" "tool_calls_of (assistant_turn t calls) = calls"
    by (simp_all add: message_role_def tool_calls_of_def jobj_value)
  have "check_allowed (to_object (assistant_turn t calls))
      [''role'', ''content'', ''tool_calls'', ''tool_call_id'', ''reasoning_content'', ''name''] = Inr ()"
    unfolding check_allowed_iff turn_fields by (simp add: set_jobj)
  then have "check_shape compacted limit i (assistant_turn t calls) {} = Inr ()"
    by (simp add: check_shape_def Let_def role jobj_value jobj_has require_def) (simp add: assistant_turn_def)
  moreover have "fold_res (add_call parse) calls (ids, {}) = Inr (ids \<union> set (map call_id calls), set (map call_id calls))"
    unfolding add_calls using assms by simp
  ultimately show ?thesis
    using assms(1,2) by (simp add: check_message_def check_turn_def Let_def role jobj_value jobj_has require_def)
qed

lemma tool_result_check:
  assumes "k \<in> pending"
  shows "check_message compacted parse limit i (tool_result (k, t)) (ids, pending) = Inr (ids, pending - {k})"
proof -
  have role: "message_role (tool_result (k, t)) = qs ''tool''" "result_id (tool_result (k, t)) = k"
    by (simp_all add: message_role_def result_id_def jobj_value)
  have "check_allowed (to_object (tool_result (k, t)))
      [''role'', ''content'', ''tool_calls'', ''tool_call_id'', ''reasoning_content'', ''name''] = Inr ()"
    unfolding check_allowed_iff turn_fields by (simp add: set_jobj)
  then have "check_shape compacted limit i (tool_result (k, t)) pending = Inr ()"
    by (simp add: check_shape_def Let_def role jobj_value jobj_has require_def) (simp add: tool_result_def)
  then show ?thesis
    using assms by (simp add: check_message_def check_turn_def Let_def role jobj_value require_def)
qed

lemma tool_results_check:
  "distinct (map fst kts) \<Longrightarrow> set (map fst kts) \<subseteq> pending \<Longrightarrow>
     check_messages compacted parse limit i (map tool_result kts) (ids, pending) = Inr (ids, pending - set (map fst kts))"
proof (induction kts arbitrary: i pending)
  case Nil
  then show ?case by simp
next
  case (Cons kt kts)
  obtain k t where kt: "kt = (k, t)" by (cases kt)
  have "set (map fst kts) \<subseteq> pending - {k}" using Cons.prems by (auto simp: kt)
  moreover have "pending - {k} - set (map fst kts) = pending - insert k (set (map fst kts))" by blast
  ultimately show ?case
    using Cons.IH [of "pending - {k}" "Suc i"] Cons.prems tool_result_check [of k pending compacted parse limit i t ids]
    by (simp add: kt)
qed

section \<open>Properties\<close>

text \<open>
  C11. In a conversation that is accepted every call id is used once and every call is answered by
  exactly one tool message; a message that is not a tool result only comes when all calls before it are answered, a
  system message only comes first, and the last message is user input or a tool result.
\<close>

theorem conversation_calls_answered:
  assumes "validate_conversation_request q c compacted parse r limit = Inr ()"
  shows "distinct (call_ids (conv_messages r)) \<and> distinct (result_ids (conv_messages r))
    \<and> set (result_ids (conv_messages r)) = set (call_ids (conv_messages r))
    \<and> (\<forall>j < length (conv_messages r).
         (message_role (conv_messages r ! j) = qs ''system'' \<longrightarrow> j = 0)
         \<and> (message_role (conv_messages r ! j) \<noteq> qs ''tool'' \<longrightarrow>
             set (call_ids (take j (conv_messages r))) = set (result_ids (take j (conv_messages r)))))
    \<and> message_role (last (conv_messages r)) \<in> {qs ''user'', qs ''tool''}"
proof -
  from assms obtain ids where "check_messages compacted parse limit 0 (conv_messages r) ({}, {}) = Inr (ids, {})"
    and last: "message_role (last (conv_messages r)) \<in> {qs ''user'', qs ''tool''}"
    unfolding validate_request_iff by blast
  from check_messages_inv [OF this(1) calls_inv_Nil] last show ?thesis by (simp add: calls_inv_def) blast
qed

text \<open>
  C12. When the reply to an accepted conversation is accepted and calls tools, the calls are those of
  the runtime with missing ids filled in, each of a declared tool; and the conversation with the reply and one result for each call, in
  any order, is accepted again, within the limits on its size.
\<close>

theorem conversation_continues:
  assumes "validate_conversation_request q c compacted parse r limit = Inr ()"
    and "validate_conversation_reply parse fresh reply r = Inr accepted"
    and "reply_tool_calls accepted \<noteq> []"
    and "distinct (map fst results)" and "set (map fst results) = set (map call_id (reply_tool_calls accepted))"
    and "next_messages = conv_messages r @ assistant_turn t (reply_tool_calls accepted) # map tool_result results"
    and "length next_messages \<le> 4096"
    and "int (length (compacted (JObj (request_json (r\<lparr>conv_messages := next_messages\<rparr>))))) \<le> limit"
  shows "(\<forall>j < length (reply_tool_calls reply). reply_tool_calls accepted ! j = fill_id (fresh j) (reply_tool_calls reply ! j)
       \<and> function_name (reply_tool_calls accepted ! j) \<in> function_name ` set (conv_tools r))
    \<and> validate_conversation_request q c compacted parse (r\<lparr>conv_messages := next_messages\<rparr>) limit = Inr ()"
proof -
  let ?calls = "reply_tool_calls accepted" and ?ms = "conv_messages r"
  have len: "length (reply_tool_calls reply) \<le> 64"
    and calls: "reply_calls parse fresh (set (map function_name (conv_tools r))) 0 (reply_tool_calls reply) (set (call_ids ?ms)) = Inr ?calls"
    using assms(2) by (auto simp: validate_conversation_reply_def Let_def call_ids_def)
  note accepted = reply_calls_ok [OF calls]
  from assms(1) obtain ids where ms: "check_messages compacted parse limit 0 ?ms ({}, {}) = Inr (ids, {})"
    unfolding validate_request_iff by blast
  then have ids: "ids = set (call_ids ?ms)"
    using check_messages_inv [OF ms calls_inv_Nil] by (simp add: calls_inv_def)
  have "check_messages compacted parse limit 0 next_messages ({}, {})
      = check_messages compacted parse limit (length ?ms) (assistant_turn t ?calls # map tool_result results) (ids, {})"
    using ms by (simp add: assms(6) check_messages_append)
  also have "\<dots> = check_messages compacted parse limit (Suc (length ?ms)) (map tool_result results)
      (ids \<union> set (map call_id ?calls), set (map call_id ?calls))"
    using assistant_turn_check [of ?calls parse ids] assms(3) accepted len ids by simp
  also have "\<dots> = Inr (ids \<union> set (map call_id ?calls), {})"
    using tool_results_check [OF assms(4), of "set (map call_id ?calls)"] assms(5) by simp
  finally have run: "check_messages compacted parse limit 0 next_messages ({}, {}) = Inr (ids \<union> set (map call_id ?calls), {})" .
  have "results \<noteq> []" using assms(3,5) by (cases ?calls) auto
  then have "last next_messages = tool_result (last results)" by (simp add: assms(6) last_map)
  then have "message_role (last next_messages) = qs ''tool''"
    by (cases "last results") (simp add: message_role_def jobj_value)
  then have "validate_conversation_request q c compacted parse (r\<lparr>conv_messages := next_messages\<rparr>) limit = Inr ()"
    using assms(1,6,7,8) run unfolding validate_request_iff by simp
  moreover have "\<forall>v \<in> set ?calls. function_name v \<in> function_name ` set (conv_tools r)"
    "length ?calls = length (reply_tool_calls reply)" using accepted by auto
  then have "\<forall>j < length (reply_tool_calls reply). function_name (?calls ! j) \<in> function_name ` set (conv_tools r)"
    by (metis nth_mem)
  ultimately show ?thesis using accepted by simp
qed

section \<open>A concrete conversation\<close>

definition sample_tool :: json where
  "sample_tool = JObj (jobj [(''type'', JStr (qs ''function'')), (''function'', JObj (jobj
     [(''name'', JStr (qs ''f'')), (''parameters'', JObj [])]))])"

definition sample_request :: conversation_request where
  "sample_request = \<lparr>conv_model = qs ''m'', conv_messages = [JObj (jobj [(''role'', JStr (qs ''user'')), (''content'', JStr (qs ''go''))])],
     conv_tools = [sample_tool], conv_tool_choice = qs ''required'', conv_context_id = [],
     conv_options = default_generation_options, conv_keep_alive = -1, conv_parallel_tool_calls = False,
     conv_response_schema = [], conv_enable_thinking = None\<rparr>"

definition sample_call :: "(string \<times> json) list \<Rightarrow> json" where
  "sample_call kvs = JObj (jobj ([(''type'', JStr (qs ''function'')), (''function'', JObj (jobj
     [(''name'', JStr (qs ''f'')), (''arguments'', JStr (qs ''{}''))]))] @ kvs))"

definition sample_reply :: runtime_reply where
  "sample_reply = \<lparr>reply_text = [], reply_reasoning = [], reply_tool_calls = [sample_call []]\<rparr>"

lemma name_f: "name_valid (qs ''f'')"
  by (simp add: name_valid_def before_dollar_def qs_def qc_def is_name_unit_def)

lemma sample_request_ok:
  "validate_conversation_request no_regex generation_catalog (\<lambda>_. []) (\<lambda>_. Some (JObj [])) sample_request 1024 = Inr ()"
proof -
  have options: "validate_generation_options no_regex generation_catalog default_generation_options [] = Inr ()"
    using generation_read(1) [OF generation_catalog_ok default_options_ok] by (simp add: validate_generation_options_def)
  have tool: "ok (fold_res check_tool [sample_tool] {})"
    by (simp add: check_tool_def Let_def function_name_def function_of_def sample_tool_def jobj_value jobj_has
        check_allowed_iff set_jobj name_f ok_bindr require_def)
  have "check_allowed (jobj [(''role'', JStr (qs ''user'')), (''content'', JStr (qs ''go''))])
      [''role'', ''content'', ''tool_calls'', ''tool_call_id'', ''reasoning_content'', ''name''] = Inr ()"
    unfolding check_allowed_iff by (simp add: set_jobj)
  moreover have "trimmed (qs ''go'') \<noteq> []"
    by (rule trimmed_nonempty [of "qc (CHR ''g'')"]) (simp_all add: qs_def is_space_def qc_def)
  ultimately have "check_messages (\<lambda>_. []) (\<lambda>_. Some (JObj [])) 1024 0
      [JObj (jobj [(''role'', JStr (qs ''user'')), (''content'', JStr (qs ''go''))])] ({}, {}) = Inr ({}, {})"
    by (simp add: check_message_def check_shape_def check_turn_def Let_def message_role_def jobj_value jobj_has require_def)
  with options tool show ?thesis
    unfolding validate_request_iff by (simp add: sample_request_def message_role_def jobj_value)
qed

lemma sample_reply_ok: "\<exists>call. call_id call = qs ''c0'' \<and>
    validate_conversation_reply (\<lambda>_. Some (JObj [])) (\<lambda>_. qs ''c0'') sample_reply sample_request
      = Inr \<lparr>reply_text = [], reply_reasoning = [], reply_tool_calls = [call]\<rparr>"
proof -
  let ?c = "fill_id (qs ''c0'') (sample_call [])"
  have c: "?c = JObj (oput (qs ''id'') (JStr (qs ''c0'')) (jobj [(''type'', JStr (qs ''function'')), (''function'', JObj (jobj
     [(''name'', JStr (qs ''f'')), (''arguments'', JStr (qs ''{}''))]))]))"
    by (simp add: fill_id_def sample_call_def jobj_has)
  have parts: "function_name ?c = qs ''f''" "call_id ?c = qs ''c0''" "is_object ?c"
    "jvalue (to_object ?c) ''type'' = JStr (qs ''function'')" "jvalue (to_object ?c) ''id'' = JStr (qs ''c0'')"
    "jvalue (function_of ?c) ''arguments'' = JStr (qs ''{}'')"
    by (simp_all add: c function_name_def function_of_def call_id_def jobj_value jvalue_oput)
  have "check_call (\<lambda>_. Some (JObj [])) ProtocolError ?c = Inr (qs ''c0'')"
    using name_f parts by (simp add: check_call_def Let_def parses_to_object_def require_def)
  moreover have "function_name sample_tool = qs ''f''"
    by (simp add: sample_tool_def function_name_def function_of_def jobj_value)
  ultimately show ?thesis
    using parts by (intro exI [of _ ?c]) (simp add: validate_conversation_reply_def Let_def sample_reply_def sample_request_def
        require_def tool_calls_of_def jobj_value)
qed

theorem conversation_calls_answered_witness:
  "result_ids (conv_messages sample_request) = [] \<and> call_ids (conv_messages sample_request) = []
   \<and> message_role (last (conv_messages sample_request)) = qs ''user''"
  using conversation_calls_answered [OF sample_request_ok]
  by (simp add: sample_request_def message_role_def tool_calls_of_def jobj_value results_of_def)

theorem conversation_continues_witness:
  "\<exists>calls. calls \<noteq> [] \<and> validate_conversation_request no_regex generation_catalog (\<lambda>_. []) (\<lambda>_. Some (JObj []))
     (sample_request\<lparr>conv_messages := conv_messages sample_request @ assistant_turn [] calls
        # map tool_result [(qs ''c0'', qs ''ok'')]\<rparr>) 1024 = Inr ()"
proof -
  obtain call where "call_id call = qs ''c0''" and reply: "validate_conversation_reply (\<lambda>_. Some (JObj [])) (\<lambda>_. qs ''c0'')
      sample_reply sample_request = Inr \<lparr>reply_text = [], reply_reasoning = [], reply_tool_calls = [call]\<rparr>"
    using sample_reply_ok by blast
  then show ?thesis
    using conversation_continues [OF sample_request_ok reply, of "[(qs ''c0'', qs ''ok'')]" _ "[]"]
    by (intro exI [of _ "[call]"]) (simp add: sample_request_def)
qed

end
