(* ===== verification/Service.thy ===== *)
theory Service
  imports Conversation Sessions StopFilter ContextCache ModelLeases
begin

text \<open>
  The service facade (\<^verbatim>\<open>src/service/Service.cpp\<close>): what the worker runs for each
  request, over the model manager, the sessions and the context cache. The cache is the host state
  of the model manager, and erasing the contexts of a model is what runs before its unload. A job is the service
  with the local variables of the running request. Runtimes, the tokenizer, identifiers, cancellation and the stream
  consumer are observed through \<open>service_env\<close>; successive observations are numbered by
  \<open>sv_tick\<close>.
\<close>

section \<open>Runs of a runtime\<close>

text \<open>
  A generation calls the consumer of text any number of times, sees what each call returned or
  threw, and ends.
\<close>

record runtime_result =
  rr_finish :: finish_reason
  rr_generated :: int
  rr_cached :: int

datatype gen_run = GenDone "runtime_result res" | GenText qstring "bool res \<Rightarrow> gen_run"

primrec run_gen :: "gen_run \<Rightarrow> (qstring \<Rightarrow> ('s, bool) act) \<Rightarrow> ('s, runtime_result) act" where
  "run_gen (GenDone r) on_text = lift_res r"
| "run_gen (GenText t next) on_text = (\<lambda>s. case on_text t s of (s', b) \<Rightarrow> run_gen (next b) on_text s')"

record 'p conversation_prompt =
  cp_tokens :: token_list
  cp_stop :: "qstring list"
  cp_state :: 'p
  cp_input_tokens :: int

definition token_count :: "'p conversation_prompt \<Rightarrow> int" where
  "token_count p = (if cp_input_tokens p \<noteq> 0 then cp_input_tokens p else int (length (cp_tokens p)))"

section \<open>State and environment\<close>

record ('m, 'c, 'p) service_env =
  se_options :: service_options
  se_models :: "'c ctx_cache models_env"
  se_qt :: qt
  se_catalog :: catalog
  se_compact :: "json \<Rightarrow> qstring"
  se_parse :: "qstring \<Rightarrow> json option"
  se_digest :: "qstring \<Rightarrow> qstring"
  se_through_utf8 :: "qstring \<Rightarrow> qstring"
  se_fresh :: "nat \<Rightarrow> qstring"
  se_cancelled :: "nat \<Rightarrow> bool"
  se_prepare_checks :: "nat \<Rightarrow> nat \<Rightarrow> bool"
  se_consumer :: "(nat \<Rightarrow> stream_event \<Rightarrow> bool) option"
  se_tokenize :: "nat \<Rightarrow> 'm \<Rightarrow> chat_message list \<Rightarrow> token_list res"
  se_context :: "nat \<Rightarrow> 'm \<Rightarrow> 'c option res"
  se_generate :: "nat \<Rightarrow> 'c \<Rightarrow> token_list \<Rightarrow> generation_options \<Rightarrow> gen_run"
  se_prepare :: "nat \<Rightarrow> 'm \<Rightarrow> conversation_request \<Rightarrow> 'p conversation_prompt res"
  se_converse :: "nat \<Rightarrow> 'c \<Rightarrow> 'p conversation_prompt \<Rightarrow> generation_options \<Rightarrow> gen_run"
  se_reply :: "nat \<Rightarrow> 'm \<Rightarrow> 'p conversation_prompt \<Rightarrow> qstring \<Rightarrow> runtime_reply res"
  se_embed :: "nat \<Rightarrow> 'm \<Rightarrow> (qstring \<Rightarrow> dbl list res) option"

record ('m, 'c) service =
  sv_models :: "('m, 'c ctx_cache) models"
  sv_sessions :: session_manager
  sv_events :: "stream_event list"
  sv_tick :: nat

record ('m, 'c) job = "('m, 'c) service" +
  jb_result :: generation_result
  jb_request :: chat_request
  jb_temporary :: qstring
  jb_leased :: qstring
  jb_cache :: qstring
  jb_filter :: stop_filter
  jb_raw :: qstring

definition options_checked :: "service_options \<Rightarrow> service_options res" where
  "options_checked o1 =
     (if max_queued_requests o1 < 1 \<or> max_models o1 < 1 \<or> max_sessions o1 < 1 \<or> max_cached_contexts o1 < 1
         \<or> max_cached_context_tokens o1 < 2 \<or> max_input_characters o1 < 1 \<or> default_context_tokens o1 < 2
         \<or> trimmed (models_directory o1) = [] \<or> keep_alive_ms o1 < -1 \<or> keep_alive_ms o1 > 7 * 86400000
      then throw InvalidArgument ''Service limits must be positive'' else Inr o1)"

definition make_service :: "service_options \<Rightarrow> hardware_info \<Rightarrow> ('m, 'c) service" where
  "make_service o1 hw = \<lparr>sv_models = make_models o1 hw (make_cache (max_cached_contexts o1) (max_cached_context_tokens o1)),
     sv_sessions = \<lparr>sm_limit = max_sessions o1, sm_sessions = []\<rparr>, sv_events = [], sv_tick = 0\<rparr>"

text \<open>\<^verbatim>\<open>models.setBeforeUnload([this](const QString& id) { cache.eraseModel(id); })\<close>\<close>

definition models_of :: "('m, 'c, 'p) service_env \<Rightarrow> 'c ctx_cache models_env" where
  "models_of env = (se_models env)\<lparr>env_options := se_options env, env_before_unload := cache_erase_model\<rparr>"

definition on_models :: "('m, 'c ctx_cache, 'a) models_act \<Rightarrow> (('m, 'c, 'x) service_scheme, 'a) act" where
  "on_models m s = (case m (sv_models s) of (g, r) \<Rightarrow> (s\<lparr>sv_models := g\<rparr>, r))"

definition cache_of :: "('m, 'c, 'x) service_scheme \<Rightarrow> 'c ctx_cache" where
  "cache_of s = mg_host (sv_models s)"

definition on_cache :: "('c ctx_cache \<Rightarrow> 'c ctx_cache \<times> 'a res) \<Rightarrow> (('m, 'c, 'x) service_scheme, 'a) act" where
  "on_cache f = on_models (\<lambda>g. case f (mg_host g) of (c, r) \<Rightarrow> (g\<lparr>mg_host := c\<rparr>, r))"

definition drop_context :: "qstring \<Rightarrow> (('m, 'c, 'x) service_scheme, unit) act" where
  "drop_context k = on_cache (\<lambda>c. (cache_erase k c, Inr ()))"

definition on_sessions :: "(session_manager \<Rightarrow> session_manager res) \<Rightarrow> (('m, 'c, 'x) service_scheme, unit) act" where
  "on_sessions f s = (case f (sv_sessions s) of Inl e \<Rightarrow> (s, Inl e) | Inr sm \<Rightarrow> (s\<lparr>sv_sessions := sm\<rparr>, Inr ()))"

definition get_session :: "qstring \<Rightarrow> (('m, 'c, 'x) service_scheme, session_snapshot) act" where
  "get_session k s = (s, session_get (sv_sessions s) k)"

definition stamp :: "(nat \<Rightarrow> 'a res) \<Rightarrow> (('m, 'c, 'x) service_scheme, 'a) act" where
  "stamp f s = (s\<lparr>sv_tick := Suc (sv_tick s)\<rparr>, f (sv_tick s))"

definition poll :: "('m, 'c, 'p) service_env \<Rightarrow> (('m, 'c, 'x) service_scheme, unit) act" where
  "poll env = stamp (\<lambda>n. if se_cancelled env n then throw Cancelled ''Request cancelled'' else Inr ())"

text \<open>A call of the consumer counts as delivered even when it throws.\<close>

definition deliver :: "('m, 'c, 'p) service_env \<Rightarrow> stream_event \<Rightarrow> (('m, 'c, 'x) service_scheme, unit) act" where
  "deliver env ev s = (case se_consumer env of
     None \<Rightarrow> (s, Inr ())
   | Some f \<Rightarrow> (s\<lparr>sv_events := sv_events s @ [ev], sv_tick := Suc (sv_tick s)\<rparr>,
       if f (sv_tick s) ev then Inr () else throw ConsumerFailure ''Stream consumer threw an exception''))"

definition notify :: "('m, 'c, 'p) service_env \<Rightarrow> stream_event_kind \<Rightarrow> qstring \<Rightarrow> (('m, 'c) job, unit) act" where
  "notify env kind t = act_bind (gets jb_result) (\<lambda>r. deliver env \<lparr>ev_kind = kind, ev_request_id = res_request_id r,
     ev_session_id = res_session_id r, ev_text = t, ev_result = None\<rparr>)"

definition finish :: "('m, 'c, 'p) service_env \<Rightarrow> generation_result \<Rightarrow> (('m, 'c, 'x) service_scheme, unit) act" where
  "finish env r = try_catch (deliver env \<lparr>ev_kind = Finished, ev_request_id = res_request_id r,
     ev_session_id = res_session_id r, ev_text = [], ev_result = Some r\<rparr>) (\<lambda>_. ret ())"

definition failure :: "error_code \<Rightarrow> qstring \<Rightarrow> generation_result \<Rightarrow> generation_result" where
  "failure c m r = r\<lparr>res_finish_reason := (if c = Cancelled then FinishCancelled else FinishError),
     res_error_code := c, res_error_message := m, res_tool_calls := [], res_reasoning := []\<rparr>"

text \<open>The three \<^verbatim>\<open>catch\<close> clauses.\<close>

definition caught :: "string \<Rightarrow> exn \<Rightarrow> generation_result \<Rightarrow> generation_result" where
  "caught unknown e = (case e of Error c m \<Rightarrow> failure c m | StdException w \<Rightarrow> failure RuntimeFailure w
     | UnknownException \<Rightarrow> failure RuntimeFailure (qs unknown))"

definition set_result :: "(generation_result \<Rightarrow> generation_result) \<Rightarrow> (('m, 'c) job, unit) act" where
  "set_result f = modify (\<lambda>s. s\<lparr>jb_result := f (jb_result s)\<rparr>)"

definition lease :: "('m, 'c, 'p) service_env \<Rightarrow> qstring \<Rightarrow> int \<Rightarrow> ('m loaded_model \<Rightarrow> qstring) \<Rightarrow>
    (('m, 'c) job, 'm loaded_model) act" where
  "lease env k ka name_of = act_bind (on_models (models_acquire (models_of env) k ka)) (\<lambda>m.
     act_bind (modify (\<lambda>s. s\<lparr>jb_leased := name_of m\<rparr>)) (\<lambda>_. ret m))"

definition end_lease :: "('m, 'c, 'p) service_env \<Rightarrow> (('m, 'c) job, unit) act" where
  "end_lease env = act_bind (gets jb_leased) (\<lambda>k. if k = [] then ret ()
     else on_models (models_release (models_of env) k))"

definition acquire_context :: "('m, 'c, 'p) service_env \<Rightarrow> qstring \<Rightarrow> 'm loaded_model \<Rightarrow> (('m, 'c) job, 'c) act" where
  "acquire_context env k m = act_bind (stamp (\<lambda>n. Inr (se_context env n (lm_runtime m)))) (\<lambda>create.
     on_cache (cache_acquire k (spec_id (lm_spec m)) (spec_context_tokens (lm_spec m)) create))"

text \<open>What every result of a runtime must satisfy, and what it adds to the result of the request.\<close>

definition check_terminal :: "runtime_result \<Rightarrow> (('m, 'c) job, unit) act" where
  "check_terminal g = lift_res (require (rr_finish g = FinishStop \<or> rr_finish g = FinishLength) RuntimeFailure
     ''Runtime returned an invalid terminal status'')"

definition record_usage :: "runtime_result \<Rightarrow> (('m, 'c) job, unit) act" where
  "record_usage g = modify (\<lambda>s. s\<lparr>jb_result := (jb_result s)
     \<lparr>res_finish_reason := (if sf_stopped (jb_filter s) then FinishStop else rr_finish g),
      res_usage := (res_usage (jb_result s))\<lparr>generated_tokens := rr_generated g, cached_tokens := rr_cached g\<rparr>\<rparr>\<rparr>)"

definition feed_filter :: "qstring \<Rightarrow> (('m, 'c) job, qstring) act" where
  "feed_filter t s = (case sf_push t (jb_filter s) of (out, f) \<Rightarrow> (s\<lparr>jb_filter := f\<rparr>, Inr out))"

definition flush_filter :: "(('m, 'c) job, qstring) act" where
  "flush_filter s = (case sf_finish (jb_filter s) of (out, f) \<Rightarrow> (s\<lparr>jb_filter := f\<rparr>, Inr out))"

definition begin_job :: "('m, 'c) service \<Rightarrow> generation_result \<Rightarrow> chat_request \<Rightarrow> ('m, 'c) job" where
  "begin_job s r rq = service.extend s (job.fields r rq [] [] [] (make_filter []) [])"

section \<open>Chat and completion\<close>

fun check_turns :: "int \<Rightarrow> nat \<Rightarrow> int \<Rightarrow> role \<Rightarrow> chat_message list \<Rightarrow> unit res" where
  "check_turns limit i characters expected [] = Inr ()"
| "check_turns limit i characters expected (m # ms) =
     (let characters' = characters + int (length (msg_content m)) in
      if characters' > limit \<or> trimmed (msg_content m) = []
      then throw InvalidArgument ''messages are empty or exceed the service input limit''
      else if i = 0 \<and> msg_role m = System then check_turns limit (Suc i) characters' expected ms
      else if msg_role m \<noteq> expected
      then throw InvalidArgument ''messages must alternate user/assistant after an optional initial system message''
      else check_turns limit (Suc i) characters' (if expected = User then Assistant else User) ms)"

definition check_completion :: "int \<Rightarrow> chat_message list \<Rightarrow> unit res" where
  "check_completion limit ms =
     bindr (require (ms \<noteq> [] \<and> msg_role (last ms) = User) InvalidArgument ''messages must end with a user message'') (\<lambda>_.
       check_turns limit 0 0 User ms)"

definition require_chat :: "model_record \<Rightarrow> unit res" where
  "require_chat info = require (qs ''chat'' \<in> set (mm_capabilities (mr_manifest info))) InvalidArgument
     ''Model manifest does not declare the chat capability''"

text \<open>\<^verbatim>\<open>sessions.create\<close> and the assignment through the reference \<^verbatim>\<open>sessions.get\<close> returns.\<close>

definition create_session_for :: "('m, 'c, 'p) service_env \<Rightarrow> qstring \<Rightarrow> qstring \<Rightarrow>
    (('m, 'c, 'x) service_scheme, qstring) act" where
  "create_session_for env model system = act_bind (stamp (\<lambda>n. Inr (se_fresh env n))) (\<lambda>fresh s.
     case session_create fresh model system (sv_sessions s) of
       Inl e \<Rightarrow> (s, Inl e)
     | Inr (sm, k) \<Rightarrow> (s\<lparr>sv_sessions := sm\<rparr>, Inr k))"

definition set_messages :: "qstring \<Rightarrow> chat_message list \<Rightarrow> session_manager \<Rightarrow> session_manager res" where
  "set_messages k ms sm = bindr (session_get sm k) (\<lambda>session.
     Inr (sm\<lparr>sm_sessions := oput k (session\<lparr>sess_messages := ms\<rparr>) (sm_sessions sm)\<rparr>))"

definition open_completion :: "('m, 'c, 'p) service_env \<Rightarrow> completion_request \<Rightarrow> (('m, 'c) job, unit) act" where
  "open_completion env rq =
     act_bind (on_models (models_resolve (models_of env) (completion_model rq))) (\<lambda>info.
     act_bind (lift_res (require_chat info)) (\<lambda>_.
     act_bind (lift_res (check_completion (max_input_characters (se_options env)) (completion_messages rq))) (\<lambda>_.
     act_bind (create_session_for env (mm_id (mr_manifest info)) []) (\<lambda>k.
     act_bind (modify (\<lambda>s. s\<lparr>jb_temporary := k\<rparr>)) (\<lambda>_.
     act_bind (on_sessions (set_messages k (butlast (completion_messages rq)))) (\<lambda>_.
     modify (\<lambda>s. s\<lparr>jb_request := \<lparr>chat_session_id = k, chat_prompt = msg_content (last (completion_messages rq)),
       chat_options = completion_options rq, chat_keep_alive = completion_keep_alive rq\<rparr>\<rparr>)))))))"

definition emit_text :: "('m, 'c, 'p) service_env \<Rightarrow> qstring \<Rightarrow> (('m, 'c) job, unit) act" where
  "emit_text env t = (if t = [] then ret ()
     else act_bind (set_result (\<lambda>r. r\<lparr>res_text := res_text r @ t\<rparr>)) (\<lambda>_. notify env Delta t))"

definition chat_text :: "('m, 'c, 'p) service_env \<Rightarrow> qstring \<Rightarrow> (('m, 'c) job, bool) act" where
  "chat_text env t = act_bind (poll env) (\<lambda>_. act_bind (feed_filter t) (\<lambda>out.
     act_bind (emit_text env out) (\<lambda>_. gets (\<lambda>s. \<not> sf_stopped (jb_filter s)))))"

text \<open>The generation itself, from the first event to the final status.\<close>

definition chat_stream :: "('m, 'c, 'p) service_env \<Rightarrow> 'c \<Rightarrow> token_list \<Rightarrow> generation_options \<Rightarrow> (('m, 'c) job, unit) act" where
  "chat_stream env ctx tokens opts =
     act_bind (notify env Started []) (\<lambda>_.
     act_bind (modify (\<lambda>s. s\<lparr>jb_filter := make_filter (stop opts)\<rparr>)) (\<lambda>_.
     act_bind (stamp (\<lambda>n. Inr (se_generate env n ctx tokens opts))) (\<lambda>run.
     act_bind (run_gen run (chat_text env)) (\<lambda>generated.
     act_bind (poll env) (\<lambda>_.
     act_bind flush_filter (\<lambda>rest.
     act_bind (emit_text env rest) (\<lambda>_.
     act_bind (poll env) (\<lambda>_.
     act_bind (check_terminal generated) (\<lambda>_.
       record_usage generated)))))))))"

definition prepare_chat :: "('m, 'c, 'p) service_env \<Rightarrow> session_snapshot \<Rightarrow> chat_request \<Rightarrow> 'm loaded_model \<Rightarrow>
    (('m, 'c) job, prepared_chat) act" where
  "prepare_chat env session rq m = act_bind (stamp (\<lambda>n. prepare_prompt (se_qt env) (se_catalog env) (se_prepare_checks env n)
       (se_tokenize env n (lm_runtime m)) (spec_context_tokens (lm_spec m)) session rq (max_input_characters (se_options env)))) (\<lambda>p.
     act_bind (set_result (\<lambda>r. r\<lparr>res_usage := (res_usage r)\<lparr>prompt_tokens := int (length (pc_tokens p)),
       dropped_messages := pc_dropped p\<rparr>\<rparr>)) (\<lambda>_. ret p))"

definition commit_turn :: "qstring \<Rightarrow> session_snapshot \<Rightarrow> prepared_chat \<Rightarrow> (('m, 'c) job, unit) act" where
  "commit_turn k session p = act_bind (gets jb_result) (\<lambda>r.
     act_bind (on_sessions (set_messages k (pc_messages p @ [\<lparr>msg_role = Assistant, msg_content = res_text r\<rparr>]))) (\<lambda>_.
     act_bind (gets jb_filter) (\<lambda>f. if sf_stopped f then drop_context (sess_id session) else ret ())))"

text \<open>From the prompt to the last event; then the turn is committed.\<close>

definition generate_turn :: "('m, 'c, 'p) service_env \<Rightarrow> session_snapshot \<Rightarrow> chat_request \<Rightarrow> 'm loaded_model \<Rightarrow>
    (('m, 'c) job, prepared_chat) act" where
  "generate_turn env session rq m =
     act_bind (prepare_chat env session rq m) (\<lambda>p.
     act_bind (acquire_context env (sess_id session) m) (\<lambda>ctx.
     act_bind (chat_stream env ctx (pc_tokens p) (chat_options rq)) (\<lambda>_. ret p)))"

definition chat_turn :: "('m, 'c, 'p) service_env \<Rightarrow> chat_request \<Rightarrow> (('m, 'c) job, unit) act" where
  "chat_turn env rq =
     act_bind (get_session (chat_session_id rq)) (\<lambda>session.
     act_bind (lease env (sess_model_id session) (chat_keep_alive rq) (\<lambda>_. sess_model_id session)) (\<lambda>m.
     act_bind (generate_turn env session rq m) (\<lambda>p. commit_turn (chat_session_id rq) session p)))"

definition chat_body :: "('m, 'c, 'p) service_env \<Rightarrow> completion_request option \<Rightarrow> (('m, 'c) job, unit) act" where
  "chat_body env completion =
     act_bind (poll env) (\<lambda>_.
     act_bind (case completion of None \<Rightarrow> ret () | Some rq \<Rightarrow> open_completion env rq) (\<lambda>_.
     act_bind (gets jb_request) (chat_turn env)))"

definition close_temporary :: "(('m, 'c) job, unit) act" where
  "close_temporary = act_bind (gets jb_temporary) (\<lambda>k. if k = [] then ret ()
     else act_bind (drop_context k) (\<lambda>_. on_sessions (session_close k)))"

text \<open>The job of \<^verbatim>\<open>Impl::generate\<close>; the value it returns is the one the promise gets.\<close>

definition chat_job :: "('m, 'c, 'p) service_env \<Rightarrow> completion_request option \<Rightarrow> (('m, 'c) job, generation_result) act" where
  "chat_job env completion =
     act_bind (try_catch (chat_body env completion) (\<lambda>e.
       act_bind (gets jb_request) (\<lambda>rq. act_bind (drop_context (chat_session_id rq)) (\<lambda>_.
         set_result (caught ''Unknown runtime failure'' e))))) (\<lambda>_.
     act_bind close_temporary (\<lambda>_.
     act_bind (end_lease env) (\<lambda>_.
     act_bind (gets jb_result) (\<lambda>r.
     act_bind (finish env r) (\<lambda>_. ret r)))))"

definition run_job :: "(('m, 'c) job, 'a) act \<Rightarrow> ('m, 'c) job \<Rightarrow> ('m, 'c) service \<times> 'a res" where
  "run_job m j = (case m j of (j', r) \<Rightarrow> (service.truncate j', r))"

definition no_request :: chat_request where
  "no_request = \<lparr>chat_session_id = [], chat_prompt = [], chat_options = default_generation_options, chat_keep_alive = -1\<rparr>"

definition service_chat :: "('m, 'c, 'p) service_env \<Rightarrow> qstring \<Rightarrow> chat_request \<Rightarrow> ('m, 'c) service \<Rightarrow>
    ('m, 'c) service \<times> generation_result res" where
  "service_chat env rid rq s = run_job (chat_job env None) (begin_job s (empty_result rid (chat_session_id rq)) rq)"

definition service_complete :: "('m, 'c, 'p) service_env \<Rightarrow> qstring \<Rightarrow> completion_request \<Rightarrow> ('m, 'c) service \<Rightarrow>
    ('m, 'c) service \<times> generation_result res" where
  "service_complete env rid rq s = run_job (chat_job env (Some rq)) (begin_job s (empty_result rid []) no_request)"

text \<open>What a request gets that never ran.\<close>

definition reject_request :: "('m, 'c, 'p) service_env \<Rightarrow> exn \<Rightarrow> generation_result \<Rightarrow> ('m, 'c) service \<Rightarrow>
    ('m, 'c) service \<times> generation_result res" where
  "reject_request env e initial = act_bind (finish env (failure (exn_code e) (exn_message e) initial)) (\<lambda>_.
     ret (failure (exn_code e) (exn_message e) initial))"

section \<open>Structured conversations\<close>

definition conversation_key :: "('m, 'c, 'p) service_env \<Rightarrow> conversation_request \<Rightarrow> qstring \<Rightarrow> qstring \<Rightarrow> qstring" where
  "conversation_key env rq rid model = qs ''conversation:'' @ model @ qs '':''
     @ se_digest env (if conv_context_id rq = [] then rid else conv_context_id rq)"

definition collect_text :: "('m, 'c, 'p) service_env \<Rightarrow> qstring \<Rightarrow> (('m, 'c) job, bool) act" where
  "collect_text env t = act_bind (poll env) (\<lambda>_. act_bind (feed_filter t) (\<lambda>out.
     act_bind (modify (\<lambda>s. s\<lparr>jb_raw := jb_raw s @ out\<rparr>)) (\<lambda>_.
     act_bind (gets jb_raw) (\<lambda>raw.
     act_bind (lift_res (require (\<not> int (length raw) > max_input_characters (se_options env)) ResourceLimit
       ''Structured response exceeds output limit'')) (\<lambda>_.
     gets (\<lambda>s. \<not> sf_stopped (jb_filter s)))))))"

definition converse_stream :: "('m, 'c, 'p) service_env \<Rightarrow> 'c \<Rightarrow> 'p conversation_prompt \<Rightarrow> conversation_request \<Rightarrow>
    (('m, 'c) job, unit) act" where
  "converse_stream env ctx p rq =
     act_bind (notify env Started []) (\<lambda>_.
     act_bind (modify (\<lambda>s. s\<lparr>jb_filter := make_filter (stop (conv_options rq) @ cp_stop p)\<rparr>)) (\<lambda>_.
     act_bind (stamp (\<lambda>n. Inr (se_converse env n ctx p (conv_options rq)))) (\<lambda>run.
     act_bind (run_gen run (collect_text env)) (\<lambda>generated.
     act_bind (poll env) (\<lambda>_.
     act_bind flush_filter (\<lambda>rest.
     act_bind (modify (\<lambda>s. s\<lparr>jb_raw := jb_raw s @ rest\<rparr>)) (\<lambda>_.
     act_bind (check_terminal generated) (\<lambda>_.
     act_bind (record_usage generated) (\<lambda>_.
     act_bind (gets jb_result) (\<lambda>r.
       lift_res (require (res_finish_reason r \<noteq> FinishLength) ProtocolError
         ''Structured response reached the output limit before a complete turn'')))))))))))"

definition take_reply :: "('m, 'c, 'p) service_env \<Rightarrow> 'm loaded_model \<Rightarrow> 'p conversation_prompt \<Rightarrow> conversation_request \<Rightarrow>
    (('m, 'c) job, unit) act" where
  "take_reply env m p rq =
     act_bind (gets jb_raw) (\<lambda>raw.
     act_bind (stamp (\<lambda>n. se_reply env n (lm_runtime m) p raw)) (\<lambda>reply.
     act_bind (stamp (\<lambda>n. validate_conversation_reply (se_parse env) (\<lambda>i. se_fresh env (n + i)) reply rq)) (\<lambda>checked.
     act_bind (set_result (\<lambda>r. r\<lparr>res_text := reply_text checked, res_tool_calls := reply_tool_calls checked,
       res_reasoning := reply_reasoning checked\<rparr>)) (\<lambda>_.
     if reply_text checked = [] then ret () else notify env Delta (reply_text checked)))))"

definition prepare_conversation :: "('m, 'c, 'p) service_env \<Rightarrow> 'm loaded_model \<Rightarrow> conversation_request \<Rightarrow>
    (('m, 'c) job, 'p conversation_prompt) act" where
  "prepare_conversation env m rq =
     act_bind (stamp (\<lambda>n. se_prepare env n (lm_runtime m) rq)) (\<lambda>p.
     act_bind (lift_res (require (\<not> (token_count p \<le> 0
         \<or> token_count p > spec_context_tokens (lm_spec m) - max_tokens (conv_options rq))) ContextOverflow
       ''Structured conversation exceeds context; compact its complete tool turns before retrying'')) (\<lambda>_.
     act_bind (set_result (\<lambda>r. r\<lparr>res_usage := (res_usage r)\<lparr>prompt_tokens := token_count p\<rparr>\<rparr>)) (\<lambda>_. ret p)))"

definition converse_turn :: "('m, 'c, 'p) service_env \<Rightarrow> conversation_request \<Rightarrow> 'm loaded_model \<Rightarrow> (('m, 'c) job, unit) act" where
  "converse_turn env rq m =
     act_bind (gets jb_result) (\<lambda>r.
     act_bind (modify (\<lambda>s. s\<lparr>jb_cache := conversation_key env rq (res_request_id r) (spec_id (lm_spec m))\<rparr>)) (\<lambda>_.
     act_bind (prepare_conversation env m rq) (\<lambda>p.
     act_bind (gets jb_cache) (\<lambda>k.
     act_bind (acquire_context env k m) (\<lambda>ctx.
     act_bind (converse_stream env ctx p rq) (\<lambda>_.
     act_bind (take_reply env m p rq) (\<lambda>_.
     act_bind (gets jb_filter) (\<lambda>f. if sf_stopped f then drop_context k else ret ()))))))))"

definition converse_body :: "('m, 'c, 'p) service_env \<Rightarrow> conversation_request \<Rightarrow> (('m, 'c) job, unit) act" where
  "converse_body env rq =
     act_bind (poll env) (\<lambda>_.
     act_bind (lift_res (validate_conversation_request (se_qt env) (se_catalog env) (se_compact env) (se_parse env) rq
       (max_input_characters (se_options env)))) (\<lambda>_.
     act_bind (on_models (models_resolve (models_of env) (conv_model rq))) (\<lambda>info.
     act_bind (lift_res (require (qs ''chat'' \<in> set (mm_capabilities (mr_manifest info))) InvalidArgument
       ''Model does not declare chat capability'')) (\<lambda>_.
     act_bind (lease env (mm_id (mr_manifest info)) (conv_keep_alive rq) (\<lambda>m. spec_id (lm_spec m)))
       (converse_turn env rq)))))"

definition converse_job :: "('m, 'c, 'p) service_env \<Rightarrow> conversation_request \<Rightarrow> (('m, 'c) job, generation_result) act" where
  "converse_job env rq =
     act_bind (try_catch (converse_body env rq) (\<lambda>e.
       act_bind (gets jb_cache) (\<lambda>k. act_bind (drop_context k) (\<lambda>_.
         set_result (caught ''Unknown structured runtime failure'' e))))) (\<lambda>_.
     act_bind (if conv_context_id rq = [] then act_bind (gets jb_cache) drop_context else ret ()) (\<lambda>_.
     act_bind (end_lease env) (\<lambda>_.
     act_bind (gets jb_result) (\<lambda>r.
     act_bind (finish env r) (\<lambda>_. ret r)))))"

definition service_converse :: "('m, 'c, 'p) service_env \<Rightarrow> qstring \<Rightarrow> conversation_request \<Rightarrow> ('m, 'c) service \<Rightarrow>
    ('m, 'c) service \<times> generation_result res" where
  "service_converse env rid rq s = run_job (converse_job env rq) (begin_job s (empty_result rid (conv_context_id rq)) no_request)"

section \<open>Embeddings and measurements\<close>

text \<open>
  \<open>se_through_utf8\<close> is the text after a conversion to UTF-8 and back. The sum of the squares
  of single-precision numbers neither overflows nor vanishes in the wider type the code sums in.
\<close>

definition embed_input_ok :: "('m, 'c, 'p) service_env \<Rightarrow> qstring \<Rightarrow> qstring \<Rightarrow> bool" where
  "embed_input_ok env model t \<longleftrightarrow> trimmed model \<noteq> [] \<and> trimmed t \<noteq> []
     \<and> int (length t) \<le> max_input_characters (se_options env) \<and> 0 \<notin> set t \<and> se_through_utf8 env t = t"

fun add_square :: "dbl \<Rightarrow> rat \<Rightarrow> rat res" where
  "add_square NonFinite acc = throw RuntimeFailure ''Runtime returned a non-finite embedding''"
| "add_square (Dbl v) acc = Inr (acc + v * v)"

definition check_embedding :: "dbl list \<Rightarrow> unit res" where
  "check_embedding vs =
     bindr (require (\<not> (vs = [] \<or> length vs > 16384)) RuntimeFailure ''Runtime returned an invalid embedding dimension'') (\<lambda>_.
     bindr (fold_res add_square vs 0) (\<lambda>squares.
     require (squares > 0) RuntimeFailure ''Runtime returned a zero or invalid embedding''))"

definition embed_body :: "('m, 'c, 'p) service_env \<Rightarrow> qstring \<Rightarrow> qstring \<Rightarrow> (('m, 'c) job, dbl list) act" where
  "embed_body env model t =
     act_bind (poll env) (\<lambda>_.
     act_bind (lift_res (require (embed_input_ok env model t) InvalidArgument ''Invalid embedding input'')) (\<lambda>_.
     act_bind (on_models (models_resolve (models_of env) model)) (\<lambda>info.
     act_bind (lift_res (require (qs ''embedding'' \<in> set (mm_capabilities (mr_manifest info))) RuntimeUnavailable
       ''Model does not declare embedding capability'')) (\<lambda>_.
     act_bind (lease env (mm_id (mr_manifest info)) (-1) (\<lambda>m. spec_id (lm_spec m))) (\<lambda>m.
     act_bind (stamp (\<lambda>n. case se_embed env n (lm_runtime m) of
         None \<Rightarrow> throw RuntimeUnavailable ''Selected runtime does not support embeddings'' | Some f \<Rightarrow> Inr f)) (\<lambda>f.
     act_bind (on_cache (\<lambda>c. (cache_erase_model (spec_id (lm_spec m)) c, Inr ()))) (\<lambda>_.
     act_bind (lift_res (f t)) (\<lambda>vs.
     act_bind (poll env) (\<lambda>_.
     act_bind (lift_res (check_embedding vs)) (\<lambda>_. ret vs))))))))))"

text \<open>The promise gets the value when the release after it succeeds, else what was thrown.\<close>

definition leased_job :: "('m, 'c, 'p) service_env \<Rightarrow> (('m, 'c) job, 'a) act \<Rightarrow> (('m, 'c) job, 'a) act" where
  "leased_job env body = try_catch
     (act_bind body (\<lambda>x. act_bind (end_lease env) (\<lambda>_. act_bind (modify (\<lambda>s. s\<lparr>jb_leased := []\<rparr>)) (\<lambda>_. ret x))))
     (\<lambda>e. act_bind (end_lease env) (\<lambda>_. lift_res (Inl e)))"

definition service_embed :: "('m, 'c, 'p) service_env \<Rightarrow> qstring \<Rightarrow> qstring \<Rightarrow> ('m, 'c) service \<Rightarrow>
    ('m, 'c) service \<times> dbl list res" where
  "service_embed env model t s = run_job (leased_job env (embed_body env model t)) (begin_job s (empty_result [] []) no_request)"

definition measure_body :: "('m, 'c, 'p) service_env \<Rightarrow> conversation_request \<Rightarrow> (('m, 'c) job, context_budget) act" where
  "measure_body env rq =
     act_bind (poll env) (\<lambda>_.
     act_bind (lift_res (validate_conversation_request (se_qt env) (se_catalog env) (se_compact env) (se_parse env) rq
       (max_input_characters (se_options env)))) (\<lambda>_.
     act_bind (on_models (models_resolve (models_of env) (conv_model rq))) (\<lambda>info.
     act_bind (lift_res (require (qs ''chat'' \<in> set (mm_capabilities (mr_manifest info))) RuntimeUnavailable
       ''Model does not support structured chat'')) (\<lambda>_.
     act_bind (lease env (mm_id (mr_manifest info)) (conv_keep_alive rq) (\<lambda>m. spec_id (lm_spec m))) (\<lambda>m.
     act_bind (stamp (\<lambda>n. se_prepare env n (lm_runtime m) rq)) (\<lambda>p.
     act_bind (poll env) (\<lambda>_.
     ret \<lparr>budget_input_tokens = token_count p, budget_context_tokens = spec_context_tokens (lm_spec m)\<rparr>)))))))"

definition service_measure :: "('m, 'c, 'p) service_env \<Rightarrow> conversation_request \<Rightarrow> ('m, 'c) service \<Rightarrow>
    ('m, 'c) service \<times> context_budget res" where
  "service_measure env rq s = run_job (leased_job env (measure_body env rq)) (begin_job s (empty_result [] []) no_request)"

section \<open>The other operations\<close>

text \<open>The check both removal and unloading make before they ask the model manager.\<close>

definition refuse_in_use :: "('m, 'c, 'p) service_env \<Rightarrow> qstring \<Rightarrow> string \<Rightarrow> (('m, 'c, 'x) service_scheme, unit) act" where
  "refuse_in_use env reference message =
     act_bind (lift_res (bindr (env_canonical (models_of env) reference) model_id)) (\<lambda>k.
     act_bind (gets sv_sessions) (\<lambda>sm. if session_uses_model sm k then raise ModelInUse message else ret ()))"

definition service_remove :: "('m, 'c, 'p) service_env \<Rightarrow> qstring \<Rightarrow> (('m, 'c, 'x) service_scheme, unit) act" where
  "service_remove env reference = act_bind (refuse_in_use env reference ''Close model sessions before removing'') (\<lambda>_.
     on_models (models_remove (models_of env) reference))"

definition service_unload :: "('m, 'c, 'p) service_env \<Rightarrow> qstring \<Rightarrow> (('m, 'c, 'x) service_scheme, unit) act" where
  "service_unload env reference = act_bind (refuse_in_use env reference ''Close model sessions before unloading'') (\<lambda>_.
     on_models (models_unload (models_of env) reference))"

definition service_load :: "('m, 'c, 'p) service_env \<Rightarrow> model_load_request \<Rightarrow> (('m, 'c, 'x) service_scheme, model_info) act" where
  "service_load env rq = on_models (models_load (models_of env) rq)"

definition service_register :: "'m runtime option \<Rightarrow> (('m, 'c, 'x) service_scheme, unit) act" where
  "service_register rt = on_models (models_add_runtime rt)"

definition service_maintain :: "('m, 'c, 'p) service_env \<Rightarrow> (('m, 'c, 'x) service_scheme, unit) act" where
  "service_maintain env = on_models (maintain (models_of env))"

definition service_create_session :: "('m, 'c, 'p) service_env \<Rightarrow> qstring \<Rightarrow> qstring \<Rightarrow> (('m, 'c, 'x) service_scheme, qstring) act" where
  "service_create_session env model system =
     act_bind (on_models (models_resolve (models_of env) model)) (\<lambda>info.
     act_bind (lift_res (require_chat info)) (\<lambda>_.
     act_bind (lift_res (require (\<not> int (length system) > max_input_characters (se_options env)) InvalidArgument
       ''System prompt exceeds input limit'')) (\<lambda>_.
     create_session_for env (mm_id (mr_manifest info)) system)))"

definition service_reset_session :: "qstring \<Rightarrow> (('m, 'c, 'x) service_scheme, unit) act" where
  "service_reset_session k = act_bind (on_sessions (session_reset k)) (\<lambda>_. drop_context k)"

definition service_close_session :: "qstring \<Rightarrow> (('m, 'c, 'x) service_scheme, unit) act" where
  "service_close_session k = act_bind (on_sessions (session_close k)) (\<lambda>_. drop_context k)"

definition no_stats :: service_stats where
  "no_stats = \<lparr>loaded_models = 0, stat_sessions = 0, cached_contexts = 0, reserved_context_tokens = 0, cache_evictions = 0,
     resident_bytes = 0, stat_memory_budget_bytes = 0, available_ram_bytes = 0, available_ram_known = False,
     default_keep_alive_ms = 0, model_loads = 0, model_evictions = 0\<rparr>"

definition service_stats_of :: "('m, 'c, 'p) service_env \<Rightarrow> (('m, 'c, 'x) service_scheme, service_stats) act" where
  "service_stats_of env =
     act_bind (on_models (loaded_list (models_of env))) (\<lambda>infos.
     act_bind (gets (\<lambda>s. cache_describe (cache_of s) (no_stats\<lparr>loaded_models := int (length infos),
       stat_sessions := session_size (sv_sessions s)\<rparr>))) (\<lambda>st.
     on_models (describe_models (models_of env) st)))"

text \<open>\<^verbatim>\<open>Service::models\<close> reads the last published list; durations truncate to milliseconds.\<close>

definition to_milliseconds :: "int \<Rightarrow> int" where
  "to_milliseconds ns = (if ns < 0 then - ((- ns) div 1000000) else ns div 1000000)"

definition observed_models :: "int \<Rightarrow> ('m, 'c, 'x) service_scheme \<Rightarrow> model_info list" where
  "observed_models now s = map (\<lambda>i. if mi_expires_in i \<ge> 0
     then i\<lparr>mi_expires_in := max 0 (mi_expires_in i - to_milliseconds (now - mg_observed_at (sv_models s)))\<rparr> else i)
     (mg_observed (sv_models s))"

end
