(* ===== verification/ServiceRules.thy ===== *)
theory ServiceRules
  imports Service
begin

text \<open>
  What the steps of a request keep. \<open>cache_agrees\<close> ties the cached contexts to the loaded
  models; \<open>quiet\<close> steps change nothing but the result, the filter and the events of the job.
\<close>

section \<open>Cached contexts belong to loaded models\<close>

definition cache_agrees :: "('m, 'c ctx_cache) models \<Rightarrow> bool" where
  "cache_agrees g \<longleftrightarrow> cache_inv (mg_host g)
     \<and> (\<forall>k e. map_of (cc_entries (mg_host g)) k = Some e \<longrightarrow> ce_model e \<in> dom (map_of (mg_loaded g)))
     \<and> (\<forall>k i. map_of (mg_loaded g) k = Some i \<longrightarrow> 2 \<le> mi_context_tokens i)"

lemma cache_agrees_cong: "mg_host g' = mg_host g \<Longrightarrow> mg_loaded g' = mg_loaded g \<Longrightarrow> cache_agrees g' = cache_agrees g"
  by (simp add: cache_agrees_def)

lemma cache_agrees_same: "same_models g g' \<Longrightarrow> cache_agrees g' = cache_agrees g"
  by (rule cache_agrees_cong) (simp_all add: same_models_def)

text \<open>Without the model and its contexts, or with a smaller cache.\<close>

lemma cache_agrees_drop:
  assumes ok: "cache_agrees g" and host: "mg_host g' = cache_erase_model k (mg_host g)"
    and loaded: "map_of (mg_loaded g') = (map_of (mg_loaded g))(k := None)"
  shows "cache_agrees g'"
proof -
  have inv: "cache_inv (mg_host g)" using ok by (simp add: cache_agrees_def)
  note spec = cache_erase_model_spec [OF inv, of k]
  have entries: "map_of (cc_entries (mg_host g')) j = (case map_of (cc_entries (mg_host g)) j of None \<Rightarrow> None
      | Some e \<Rightarrow> if ce_model e = k then None else Some e)" for j
    using cache_erase_model_spec [OF inv, of k j] by (simp add: host)
  show ?thesis
    unfolding cache_agrees_def
  proof (intro conjI allI impI)
    show "cache_inv (mg_host g')" using spec by (simp add: host)
    show "2 \<le> mi_context_tokens i" if "map_of (mg_loaded g') j = Some i" for j i
      using that ok by (simp add: loaded cache_agrees_def split: if_splits)
    show "ce_model e \<in> dom (map_of (mg_loaded g'))" if "map_of (cc_entries (mg_host g')) j = Some e" for j e
    proof -
      have "map_of (cc_entries (mg_host g)) j = Some e" "ce_model e \<noteq> k"
        using that by (auto simp: entries split: option.splits if_splits)
      then show ?thesis using ok unfolding cache_agrees_def loaded by auto
    qed
  qed
qed

lemma cache_agrees_dropped:
  "cache_agrees g \<Longrightarrow> env_before_unload env = cache_erase_model \<Longrightarrow> cache_agrees (dropped env a k g)"
  by (rule cache_agrees_drop [of g _ k]) (simp_all add: dropped_def)

lemma cache_agrees_evictions:
  "evictions env g ks g' \<Longrightarrow> env_before_unload env = cache_erase_model \<Longrightarrow> cache_agrees g \<Longrightarrow> cache_agrees g'"
  by (induction rule: evictions.induct) (simp_all add: cache_agrees_same cache_agrees_dropped)

lemma entered_positive:
  assumes "plan_load env k rq g = Inr p"
  shows "2 \<le> lp_context p"
  using assms by (auto simp: plan_load_def choose_context_def Let_def throw_def split: if_splits)

lemma cache_agrees_load:
  assumes out: "load_outcome env rq g ks g1 g' r" and env: "env_before_unload env = cache_erase_model" and ok: "cache_agrees g"
  shows "cache_agrees g'"
proof -
  have ev: "evictions env g ks g1" using out by (simp add: load_outcome_def)
  have ok1: "cache_agrees g1" using cache_agrees_evictions [OF ev env ok] .
  show ?thesis
  proof (cases r)
    case (Inl e)
    then show ?thesis using out ok1 cache_agrees_same by (auto simp: load_outcome_def)
  next
    case (Inr info)
    then consider (re) k where "g1 = g" "refreshed k (load_keep_alive rq) g g'"
      | (new) uri k p where "plan_load env k (rq\<lparr>load_model := uri\<rparr>) g = Inr p" "entered env k uri p g1 g'"
      using out unfolding load_outcome_def by auto
    then show ?thesis
    proof cases
      case re
      then have "mg_host g' = mg_host g" "mg_loaded g' = mg_loaded g" by (auto simp: refreshed_def)
      then show ?thesis using ok cache_agrees_cong by metis
    next
      case new
      then obtain i where i: "mg_host g' = mg_host g1" "mg_loaded g' = oput k i (mg_loaded g1)" "mi_context_tokens i = lp_context p"
        by (auto simp: entered_def)
      then show ?thesis using ok1 entered_positive [OF new(1)] by (auto simp: cache_agrees_def)
    qed
  qed
qed

lemma keeps_agrees_same:
  assumes "\<And>g0. keeps (same_models g0) m"
  shows "keeps cache_agrees m"
proof -
  have "cache_agrees (fst (m g)) = cache_agrees g" for g
    using assms [of g] same_refl cache_agrees_same unfolding keeps_iff by blast
  then show ?thesis by (simp add: keeps_iff)
qed

lemma keeps_agrees_steps [triples]:
  "keeps cache_agrees (observe f)" "keeps cache_agrees (publish env)" "keeps cache_agrees (loaded_info env k)"
  "keeps cache_agrees (loaded_list env)"
  by (rule keeps_agrees_same, rule triples)+

lemma keeps_agrees_residency [triples]: "keeps cache_agrees (on_residency h)"
  by (auto simp: keeps_iff on_residency_def cache_agrees_def split: sum.split)

text \<open>What every operation of the model manager keeps when it erases contexts before an unload.\<close>

definition models_good :: "('m, 'c ctx_cache) models \<Rightarrow> bool" where
  "models_good g \<longleftrightarrow> mg_inv g \<and> cache_agrees g"

lemma models_good_same: "same_models g g' \<Longrightarrow> models_good g' = models_good g"
  using mg_inv_same cache_agrees_same by (auto simp: models_good_def)

lemma load_good:
  assumes good: "models_good g" and env: "env_before_unload env = cache_erase_model" and run: "models_load env rq g = (g', r)"
  shows "models_good g' \<and> held g' = held g"
proof -
  have inv: "mg_inv g" using good by (simp add: models_good_def)
  from models_load_spec [OF inv run] obtain ks g1 where out: "load_outcome env rq g ks g1 g' r" by blast
  then show ?thesis using load_outcome_keeps [OF inv out] cache_agrees_load [OF out env] good
    by (simp add: models_good_def held_def)
qed

lemma acquire_good:
  assumes good: "models_good g" and env: "env_before_unload env = cache_erase_model"
    and can: "canonical_ok (env_canonical env)" and run: "models_acquire env k ka g = (g', r)"
  shows "models_good g' \<and> (case r of Inl _ \<Rightarrow> held g' = held g
    | Inr m \<Rightarrow> held g' = (held g)(k := held g k + 1) \<and> map_of (rm_models (mg_runtimes g')) k = Some m \<and> k \<noteq> [])"
proof -
  have inv: "mg_inv g" using good by (simp add: models_good_def)
  have spec: "mg_inv g'" "case r of Inl _ \<Rightarrow> lease_count (mg_residency g') = lease_count (mg_residency g)
    | Inr m \<Rightarrow> lease_count (mg_residency g') = (lease_count (mg_residency g))(k := lease_count (mg_residency g) k + 1)
        \<and> map_of (rm_models (mg_runtimes g')) k = Some m"
    using models_acquire_spec [OF inv can run] by blast+
  have "cache_agrees g'"
  proof (cases "model_uri k")
    case (Inl e)
    then have "g' = g" using run by (simp add: models_acquire_def act_bind_def)
    then show ?thesis using good by (simp add: models_good_def)
  next
    case (Inr uri)
    let ?rq = "\<lparr>load_model = uri, load_context_tokens = 0, load_options = [], load_keep_alive = ka\<rparr>"
    obtain g2 q where ld: "models_load env ?rq g = (g2, q)" by fastforce
    have g2: "cache_agrees g2" using load_good [OF good env ld] by (simp add: models_good_def)
    show ?thesis
    proof (cases q)
      case err: (Inl e)
      then have "g' = g2" using run Inr ld by (simp add: models_acquire_def)
      then show ?thesis using g2 by simp
    next
      case ok: (Inr info)
      have tail: "keeps cache_agrees (act_bind (observe (env_clock env)) (\<lambda>now.
          act_bind (on_residency (res_acquire k ka now)) (\<lambda>_.
          act_bind (publish env) (\<lambda>_. act_bind (gets mg_runtimes) (\<lambda>rm. lift_res (manager_get rm k))))))"
        by (intro triples)
      have rest: "act_bind (observe (env_clock env)) (\<lambda>now. act_bind (on_residency (res_acquire k ka now)) (\<lambda>_.
          act_bind (publish env) (\<lambda>_. act_bind (gets mg_runtimes) (\<lambda>rm. lift_res (manager_get rm k))))) g2 = (g', r)"
        using run Inr ld ok by (simp add: models_acquire_def)
      show ?thesis by (rule keepsD [OF tail g2 rest])
    qed
  qed
  then have good': "models_good g'" using spec(1) by (simp add: models_good_def)
  show ?thesis
  proof (cases r)
    case (Inl e)
    then show ?thesis using good' spec(2) by (simp add: held_def)
  next
    case (Inr m)
    then have "map_of (rm_models (mg_runtimes g')) k = Some m" using spec(2) by simp
    then have "k \<noteq> []" using mg_inv_parts(7,8) [OF spec(1)] by (metis domI)
    then show ?thesis using Inr good' spec(2) by (simp add: held_def)
  qed
qed

lemma release_good:
  assumes good: "models_good g" and env: "env_before_unload env = cache_erase_model"
    and run: "models_release env k g = (g', r)" and held: "0 < held g k"
  shows "models_good g' \<and> r = Inr () \<and> held g' = (held g)(k := held g k - 1)
    \<and> (\<exists>ks. mg_host g' = fold cache_erase_model ks (mg_host g))"
proof -
  have inv: "mg_inv g" using good by (simp add: models_good_def)
  note spec = models_release_spec [OF inv run]
  obtain ks g1 where ev: "evictions env g1 ks g'" "mg_host g1 = mg_host g" "mg_loaded g1 = mg_loaded g" using spec by blast
  have "cache_agrees g1" using good cache_agrees_cong [OF ev(2,3)] by (simp add: models_good_def)
  then have "cache_agrees g'" by (rule cache_agrees_evictions [OF ev(1) env])
  moreover obtain u where "r = Inr u" using spec held by (cases r) (auto simp: held_def)
  moreover have "mg_host g' = fold cache_erase_model ks (mg_host g)" using evictions_host [OF ev(1)] by (simp add: env ev(2))
  ultimately show ?thesis using spec by (auto simp: models_good_def held_def)
qed

lemma other_operations_good:
  assumes good: "models_good g" and env: "env_before_unload env = cache_erase_model"
  shows "models_good (fst (maintain env g))" "models_good (fst (models_unload env ref g))"
    "models_good (fst (models_remove env ref g))" "models_good (fst (models_add_runtime rt g))"
    "models_good (fst (models_resolve env ref g))" "models_good (fst (loaded_list env g))"
    "models_good (fst (describe_models env st g))"
proof -
  have inv: "mg_inv g" and agrees: "cache_agrees g" using good by (simp_all add: models_good_def)
  from maintain_spec [OF inv, of env] obtain g' ks where "maintain env g = (g', Inr ())" "evictions env g ks g'" by blast
  then show "models_good (fst (maintain env g))"
    using evictions_keep_inv [OF _ inv] cache_agrees_evictions [OF _ env agrees] by (simp add: models_good_def)
  obtain g' r where run: "models_unload env ref g = (g', r)" by fastforce
  note spec = models_unload_spec [OF inv run]
  have "cache_agrees g'"
    using spec cache_agrees_same agrees cache_agrees_dropped [OF agrees env] by (cases r) auto
  then show "models_good (fst (models_unload env ref g))" using spec run by (simp add: models_good_def)
  have "cache_agrees (fst (models_remove env ref g))"
    unfolding models_remove_def
    using agrees by (auto simp: act_bind_def cache_agrees_def split: sum.split)
  then show "models_good (fst (models_remove env ref g))"
    using models_remove_inv [unfolded keeps_iff] inv unfolding models_good_def by blast
  have "cache_agrees (fst (models_add_runtime rt g))"
    using agrees by (auto simp: models_add_runtime_def on_runtimes_def cache_agrees_def split: sum.split)
  then show "models_good (fst (models_add_runtime rt g))"
    using models_add_runtime_inv [unfolded keeps_iff] inv unfolding models_good_def by blast
  have "fst (models_resolve env ref g) = g"
    by (simp add: models_resolve_def act_bind_def Let_def split: sum.split)
  then show "models_good (fst (models_resolve env ref g))" using good by simp
  have "same_models g (fst (loaded_list env g))" using keeps_list [of g env] same_refl by (simp add: keeps_iff)
  then show "models_good (fst (loaded_list env g))" using good models_good_same by blast
  have "same_models g (fst (describe_models env st g))"
    by (simp add: describe_models_def act_bind_def split: sum.split)
  then show "models_good (fst (describe_models env st g))" using good models_good_same by blast
qed

lemma models_of_unload [simp]: "env_before_unload (models_of env) = cache_erase_model"
  "env_canonical (models_of env) = env_canonical (se_models env)"
  by (simp_all add: models_of_def)

section \<open>Sessions\<close>

definition sessions_ok :: "session_manager \<Rightarrow> bool" where
  "sessions_ok sm \<longleftrightarrow> owf (sm_sessions sm) \<and> int (length (sm_sessions sm)) \<le> sm_limit sm
     \<and> (\<forall>k x. map_of (sm_sessions sm) k = Some x \<longrightarrow> sess_id x = k)"

lemma session_create_ok:
  assumes ok: "sessions_ok sm" and run: "session_create fresh model system sm = Inr (sm', k)"
  shows "sessions_ok sm' \<and> k = fresh"
proof -
  have room: "int (length (sm_sessions sm)) < size_t (sm_limit sm)" and k: "k = fresh"
    using run by (auto simp: session_create_def Let_def split: if_splits)
  have "0 \<le> sm_limit sm" using ok by (auto simp: sessions_ok_def intro: order_trans [of 0 "int (length (sm_sessions sm))"])
  then have limit: "int (length (sm_sessions sm)) < sm_limit sm" using room by (simp add: size_t_def)
  show ?thesis
  proof (cases "ohas (sm_sessions sm) fresh")
    case True
    then show ?thesis using run ok by (simp add: session_create_def split: if_splits)
  next
    case False
    then have "map_of (sm_sessions sm) fresh = None" by (simp add: ohas_def)
    then have "length (oput fresh x (sm_sessions sm)) = Suc (length (sm_sessions sm))" for x
      using ok om.length_put_fresh [of "sm_sessions sm" fresh x] by (simp add: sessions_ok_def)
    then show ?thesis using run ok limit False by (auto simp: session_create_def sessions_ok_def split: if_splits)
  qed
qed

lemma session_put_ok:
  "sessions_ok sm \<Longrightarrow> session_get sm k = Inr x \<Longrightarrow>
     sessions_ok (sm\<lparr>sm_sessions := oput k (x\<lparr>sess_messages := ms\<rparr>) (sm_sessions sm)\<rparr>)"
  using om.length_put_old [of "sm_sessions sm" k] by (auto simp: sessions_ok_def session_get_def split: option.splits)

lemma session_updates_ok:
  assumes "sessions_ok sm"
  shows "session_reset k sm = Inr sm' \<Longrightarrow> sessions_ok sm'" "session_close k sm = Inr sm' \<Longrightarrow> sessions_ok sm'"
    "set_messages k ms sm = Inr sm' \<Longrightarrow> sessions_ok sm'"
proof -
  show "sessions_ok sm'" if "session_reset k sm = Inr sm'" using that assms session_put_ok by (auto simp: session_reset_def)
  show "sessions_ok sm'" if "set_messages k ms sm = Inr sm'" using that assms session_put_ok by (auto simp: set_messages_def)
  show "sessions_ok sm'" if close: "session_close k sm = Inr sm'"
  proof -
    obtain x where x: "map_of (sm_sessions sm) k = Some x" "sm' = sm\<lparr>sm_sessions := odel k (sm_sessions sm)\<rparr>"
      using close by (auto simp: session_close_def session_get_def split: option.splits)
    then show ?thesis using assms om.length_del [of "sm_sessions sm" k x] by (auto simp: sessions_ok_def)
  qed
qed

section \<open>Steps of a job\<close>

text \<open>
  A job stays near a state when only its result, filter, events and cached contexts have changed;
  the contexts agree with the models if they did before.
\<close>

definition near :: "('m, 'c) job \<Rightarrow> ('m, 'c) job \<Rightarrow> bool" where
  "near j0 j \<longleftrightarrow> sv_models j = (sv_models j0)\<lparr>mg_host := mg_host (sv_models j)\<rparr>
     \<and> sv_sessions j = sv_sessions j0 \<and> jb_leased j = jb_leased j0 \<and> jb_temporary j = jb_temporary j0
     \<and> jb_request j = jb_request j0 \<and> res_error_code (jb_result j) = res_error_code (jb_result j0)
     \<and> (models_good (sv_models j0) \<longrightarrow> models_good (sv_models j))"

lemma near_refl [simp]: "near j j"
  by (simp add: near_def)

lemma near_eq:
  assumes "near j0 j" and "sv_models j' = sv_models j" "sv_sessions j' = sv_sessions j" "jb_leased j' = jb_leased j"
    "jb_temporary j' = jb_temporary j" "jb_request j' = jb_request j"
    "res_error_code (jb_result j') = res_error_code (jb_result j)"
  shows "near j0 j'"
  using assms by (simp add: near_def)

lemma keeps_near_basic [triples]:
  "keeps (near j0) (stamp f)" "keeps (near j0) (poll env)" "keeps (near j0) (deliver env ev)"
  "keeps (near j0) (feed_filter t)" "keeps (near j0) (flush_filter)" "keeps (near j0) (check_terminal g)"
  "keeps (near j0) (record_usage g)" "keeps (near j0) (modify (\<lambda>s. s\<lparr>jb_filter := h s\<rparr>))"
  "keeps (near j0) (modify (\<lambda>s. s\<lparr>jb_raw := h' s\<rparr>))" "keeps (near j0) (modify (\<lambda>s. s\<lparr>jb_cache := h' s\<rparr>))"
  by (auto simp: keeps_iff stamp_def poll_def deliver_def feed_filter_def flush_filter_def check_terminal_def record_usage_def
      elim!: near_eq split: option.split prod.split)

lemma keeps_near_result [triples]:
  "(\<And>r. res_error_code (f r) = res_error_code r) \<Longrightarrow> keeps (near j0) (set_result f)"
  by (auto simp: keeps_iff set_result_def elim!: near_eq)

lemma keeps_near_notify [triples]: "keeps (near j0) (notify env kind t)"
  unfolding notify_def by (intro triples)

lemma keeps_near_emit [triples]: "keeps (near j0) (emit_text env t)"
  unfolding emit_text_def by (intro triple_if triples) simp_all

lemma keeps_run [triples]: "(\<And>t. keeps I (f t)) \<Longrightarrow> keeps I (run_gen g f)"
proof (induction g)
  case (GenDone r)
  then show ?case by (simp add: keeps_iff)
next
  case (GenText t next_run)
  have step: "keeps I (f t)" "\<And>b. keeps I (run_gen (next_run b) f)" using GenText by auto
  then show ?case by (simp add: keeps_iff split: prod.split) (metis fst_conv)
qed

lemma keeps_near_texts [triples]: "keeps (near j0) (chat_text env t)" "keeps (near j0) (collect_text env t)"
  unfolding chat_text_def collect_text_def by (intro triples)+

lemma keeps_near_streams [triples]:
  "keeps (near j0) (chat_stream env ctx ts opts)" "keeps (near j0) (converse_stream env ctx p crq)"
  unfolding chat_stream_def converse_stream_def by (intro triples)+

lemma keeps_near_prepare [triples]:
  "keeps (near j0) (prepare_chat env session rq m)" "keeps (near j0) (prepare_conversation env m crq)"
  unfolding prepare_chat_def prepare_conversation_def by (intro triples; simp)+

lemma keeps_near_reply [triples]: "keeps (near j0) (take_reply env m p crq)"
  unfolding take_reply_def by (intro triples triple_if; simp)

lemma acquire_models:
  assumes "cache_acquire key model n create c = (c', r)" and "map_of (cc_entries c') j = Some e"
  shows "ce_model e = model \<or> (\<exists>e0. map_of (cc_entries c) j = Some e0 \<and> ce_model e = ce_model e0)"
  using assms evict_loop_look [of n c j]
  by (auto simp: cache_acquire_def Let_def dest!: sym [of "Some e"] split: option.splits sum.splits if_splits)

lemma mg_inv_host [simp]: "mg_inv (g\<lparr>mg_host := c\<rparr>) = mg_inv g"
  by (simp add: mg_inv_def row_ok_def)

lemma acquire_context_good:
  assumes good: "models_good g" and m: "map_of (rm_models (mg_runtimes g)) k = Some m"
    and acq: "cache_acquire key (spec_id (lm_spec m)) (spec_context_tokens (lm_spec m)) create (mg_host g) = (c', r)"
  shows "models_good (g\<lparr>mg_host := c'\<rparr>)"
proof -
  have inv: "mg_inv g" and agrees: "cache_agrees g" using good by (simp_all add: models_good_def)
  have "k \<in> dom (map_of (mg_loaded g))" using m mg_inv_parts(6,7) [OF inv] by blast
  then obtain i where i: "map_of (mg_loaded g) k = Some i" by blast
  have spec: "spec_id (lm_spec m) = k" "spec_context_tokens (lm_spec m) = mi_context_tokens i"
    using mg_inv_loaded [OF inv i] m by (metis option.inject)+
  have "0 \<le> spec_context_tokens (lm_spec m)" using agrees i spec(2) unfolding cache_agrees_def by fastforce
  then have "cache_inv c'" using cache_acquire_inv [of "mg_host g"] agrees acq by (metis cache_agrees_def fst_conv)
  moreover have "ce_model e \<in> dom (map_of (mg_loaded g))" if "map_of (cc_entries c') j = Some e" for j e
    using acquire_models [OF acq that]
  proof
    assume "ce_model e = spec_id (lm_spec m)"
    then show ?thesis using i spec(1) by auto
  next
    assume "\<exists>e0. map_of (cc_entries (mg_host g)) j = Some e0 \<and> ce_model e = ce_model e0"
    then show ?thesis using agrees unfolding cache_agrees_def by metis
  qed
  ultimately show ?thesis using inv agrees by (simp add: models_good_def cache_agrees_def)
qed

lemma drop_good: "models_good g \<Longrightarrow> models_good (g\<lparr>mg_host := cache_erase k (mg_host g)\<rparr>)"
  by (auto simp: models_good_def cache_agrees_def erase_inv erase_entries split: if_splits)

lemma drop_context_eq: "drop_context k s = (s\<lparr>sv_models := (sv_models s)\<lparr>mg_host := cache_erase k (mg_host (sv_models s))\<rparr>\<rparr>, Inr ())"
  by (simp add: drop_context_def on_cache_def on_models_def)

lemma near_models: "near j0 j \<Longrightarrow> (sv_models j)\<lparr>mg_host := c\<rparr> = (sv_models j0)\<lparr>mg_host := c\<rparr>
    \<and> mg_runtimes (sv_models j) = mg_runtimes (sv_models j0) \<and> held (sv_models j) = held (sv_models j0)"
proof -
  assume "near j0 j"
  then obtain h where "sv_models j = (sv_models j0)\<lparr>mg_host := h\<rparr>" unfolding near_def by blast
  then show ?thesis by (simp add: held_def)
qed

lemma near_host:
  assumes "near j0 j" and "models_good (sv_models j) \<Longrightarrow> models_good ((sv_models j)\<lparr>mg_host := c\<rparr>)"
  shows "near j0 (j\<lparr>sv_models := (sv_models j)\<lparr>mg_host := c\<rparr>\<rparr>)"
  using assms near_models [OF assms(1), of c] by (simp add: near_def)

lemma keeps_near_drop [triples]: "keeps (near j0) (drop_context k)"
  unfolding keeps_iff drop_context_eq by (auto intro!: near_host drop_good)

lemma acquire_context_near:
  assumes good: "models_good (sv_models j0)" and m: "map_of (rm_models (mg_runtimes (sv_models j0))) k = Some m"
  shows "keeps (near j0) (acquire_context env key m)"
proof -
  have "near j0 (fst (on_cache (cache_acquire key (spec_id (lm_spec m)) (spec_context_tokens (lm_spec m)) create) j))"
    if near: "near j0 j" for create j
  proof -
    obtain c' r where acq: "cache_acquire key (spec_id (lm_spec m)) (spec_context_tokens (lm_spec m)) create
        (mg_host (sv_models j)) = (c', r)" by fastforce
    have good': "models_good (sv_models j)" using near good by (simp add: near_def)
    have "mg_runtimes (sv_models j) = mg_runtimes (sv_models j0)" using near_models [OF near] by blast
    then have "models_good ((sv_models j)\<lparr>mg_host := c'\<rparr>)" using acquire_context_good [OF good' _ acq] m by simp
    then show ?thesis using near_host [OF near] by (simp add: on_cache_def on_models_def acq)
  qed
  then have "keeps (near j0) (on_cache (cache_acquire key (spec_id (lm_spec m)) (spec_context_tokens (lm_spec m)) create))" for create
    by (simp add: keeps_iff)
  then show ?thesis unfolding acquire_context_def by (intro triples)
qed

text \<open>A successful stream ends with a stop or at the limit.\<close>

lemma check_terminal_Inr: "check_terminal g j = (j', Inr u) \<longleftrightarrow> j' = j \<and> (rr_finish g = FinishStop \<or> rr_finish g = FinishLength)"
  by (auto simp: check_terminal_def require_def throw_def)

lemma record_usage_finish:
  "record_usage g j = (j', r) \<Longrightarrow> rr_finish g = FinishStop \<or> rr_finish g = FinishLength \<Longrightarrow>
     res_finish_reason (jb_result j') \<in> {FinishStop, FinishLength} \<and> r = Inr ()"
  by (cases "sf_stopped (jb_filter j)") (auto simp: record_usage_def)

lemma chat_stream_finish:
  "chat_stream env ctx ts opts j = (j', Inr u) \<Longrightarrow> res_finish_reason (jb_result j') \<in> {FinishStop, FinishLength}"
  unfolding chat_stream_def act_bind_Inr check_terminal_Inr
  by (elim exE conjE) (drule record_usage_finish, simp_all)

lemma converse_stream_finish:
  "converse_stream env ctx p crq j = (j', Inr u) \<Longrightarrow> res_finish_reason (jb_result j') = FinishStop"
  unfolding converse_stream_def act_bind_Inr check_terminal_Inr
  by (elim exE conjE) (drule record_usage_finish, simp_all add: require_def throw_def split: if_splits)

section \<open>Leases\<close>

text \<open>The lease a job holds, beside those held when it began.\<close>

definition lease_state :: "(qstring \<Rightarrow> int) \<Rightarrow> ('m, 'c) job \<Rightarrow> bool" where
  "lease_state h0 j \<longleftrightarrow> models_good (sv_models j)
     \<and> held (sv_models j) = (if jb_leased j = [] then h0 else h0(jb_leased j := h0 (jb_leased j) + 1))"

lemma held_nonneg: "models_good g \<Longrightarrow> 0 \<le> held g k"
  using mg_inv_parts(1) [of g] by (simp add: models_good_def held_def lease_count_def entry_active split: option.split)

lemma lease_spec:
  assumes good: "models_good (sv_models j)" and can: "canonical_ok (env_canonical (se_models env))"
    and run: "lease env k ka name_of j = (j', r)"
  shows "(\<exists>e g. r = Inl e \<and> j' = j\<lparr>sv_models := g\<rparr> \<and> models_good g \<and> held g = held (sv_models j))
    \<or> (\<exists>m g. r = Inr m \<and> j' = j\<lparr>sv_models := g, jb_leased := name_of m\<rparr> \<and> models_good g
        \<and> held g = (held (sv_models j))(k := held (sv_models j) k + 1)
        \<and> map_of (rm_models (mg_runtimes g)) k = Some m \<and> k \<noteq> [] \<and> spec_id (lm_spec m) = k)"
proof -
  obtain g q where acq: "models_acquire (models_of env) k ka (sv_models j) = (g, q)" by fastforce
  have can': "canonical_ok (env_canonical (models_of env))" using can by simp
  note spec = acquire_good [OF good models_of_unload(1) can' acq]
  show ?thesis
  proof (cases q)
    case (Inl e)
    then show ?thesis using run acq spec by (auto simp: lease_def on_models_def)
  next
    case (Inr m)
    then have m: "map_of (rm_models (mg_runtimes g)) k = Some m" and inv: "mg_inv g" using spec by (simp_all add: models_good_def)
    then obtain i where "map_of (mg_loaded g) k = Some i" using mg_inv_parts(6,7) [OF inv] by blast
    then have "spec_id (lm_spec m) = k" using mg_inv_loaded [OF inv] m by (metis option.inject)
    moreover have "j' = j\<lparr>sv_models := g, jb_leased := name_of m\<rparr> \<and> r = Inr m"
      using run acq Inr by (simp add: lease_def on_models_def)
    ultimately show ?thesis using spec Inr m by auto
  qed
qed

lemma end_lease_spec:
  assumes "lease_state h0 j" and "\<And>k. 0 \<le> h0 k"
  shows "\<exists>g ks. end_lease env j = (j\<lparr>sv_models := g\<rparr>, Inr ()) \<and> models_good g \<and> held g = h0
    \<and> mg_host g = fold cache_erase_model ks (mg_host (sv_models j))"
proof (cases "jb_leased j = []")
  case True
  then have "end_lease env j = (j\<lparr>sv_models := sv_models j\<rparr>, Inr ())" by (simp add: end_lease_def)
  then show ?thesis using assms(1) True by (auto simp: lease_state_def intro!: exI [of _ "sv_models j"] exI [of _ "[]"])
next
  case False
  let ?k = "jb_leased j"
  have good: "models_good (sv_models j)" and held: "held (sv_models j) = h0(?k := h0 ?k + 1)"
    using assms(1) False by (simp_all add: lease_state_def)
  obtain g r where run: "models_release (models_of env) ?k (sv_models j) = (g, r)" by fastforce
  have "0 < held (sv_models j) ?k" using assms(2) [of ?k] held by simp
  from release_good [OF good models_of_unload(1) run this] held show ?thesis
    using run False by (auto simp: end_lease_def on_models_def)
qed

lemma near_facts:
  assumes "near j1 j"
  shows "sv_sessions j = sv_sessions j1" "jb_leased j = jb_leased j1" "jb_temporary j = jb_temporary j1"
    "jb_request j = jb_request j1" "res_error_code (jb_result j) = res_error_code (jb_result j1)"
    "models_good (sv_models j1) \<Longrightarrow> models_good (sv_models j)" "held (sv_models j) = held (sv_models j1)"
  using assms near_models [OF assms] unfolding near_def by blast+

lemma near_lease: "near j1 j \<Longrightarrow> lease_state h0 j1 \<Longrightarrow> lease_state h0 j"
  unfolding lease_state_def by (simp add: near_facts)

text \<open>Erasing the contexts of models makes none appear.\<close>

lemma erase_models_none:
  "cache_inv c \<Longrightarrow> map_of (cc_entries c) k = None \<Longrightarrow> map_of (cc_entries (fold cache_erase_model ks c)) k = None"
proof (induction ks arbitrary: c)
  case Nil
  then show ?case by simp
next
  case (Cons i ks)
  then show ?case using cache_erase_model_spec [OF Cons.prems(1), of i k] by simp
qed

end
