(* ===== verification/Requests.thy ===== *)
theory Requests
  imports ServiceRules
begin

text \<open>
  What a request does to the service, however it ends: the lease it took is given back, a chat turn
  is committed whole or not at all, a completion leaves no session behind, a failed structured
  conversation hands out no tool calls, and the cached contexts stay those of loaded models.
\<close>

section \<open>Chat turns\<close>

lemma generate_turn_near:
  assumes "models_good (sv_models j1)" and "map_of (rm_models (mg_runtimes (sv_models j1))) k = Some m"
  shows "keeps (near j1) (generate_turn env session rq m)"
  unfolding generate_turn_def by (intro triples acquire_context_near [OF assms])

definition prompt_of :: "('m, 'c, 'p) service_env \<Rightarrow> session_snapshot \<Rightarrow> chat_request \<Rightarrow> prepared_chat \<Rightarrow> bool" where
  "prompt_of env session rq p \<longleftrightarrow> (\<exists>n (m :: 'm loaded_model). prepare_prompt (se_qt env) (se_catalog env) (se_prepare_checks env n)
     (se_tokenize env n (lm_runtime m)) (spec_context_tokens (lm_spec m)) session rq (max_input_characters (se_options env)) = Inr p)"

lemma generate_turn_result:
  assumes "generate_turn env session rq m j = (j', Inr p)"
  shows "prompt_of env session rq p \<and> res_finish_reason (jb_result j') \<in> {FinishStop, FinishLength}"
proof -
  from assms obtain j1 j2 j3 q ctx where prep: "prepare_chat env session rq m j = (j1, Inr q)"
    and stream: "chat_stream env ctx (pc_tokens q) (chat_options rq) j2 = (j3, Inr ())" and "j' = j3" "p = q"
    unfolding generate_turn_def act_bind_Inr by auto
  moreover have "prompt_of env session rq q"
    using prep unfolding prepare_chat_def prompt_of_def by (auto simp: act_bind_Inr stamp_def)
  ultimately show ?thesis using chat_stream_finish [OF stream] by simp
qed

definition committed :: "qstring \<Rightarrow> session_snapshot \<Rightarrow> prepared_chat \<Rightarrow> qstring \<Rightarrow> session_manager \<Rightarrow> session_manager" where
  "committed k session p t sm = sm\<lparr>sm_sessions := oput k (session\<lparr>sess_messages :=
     pc_messages p @ [\<lparr>msg_role = Assistant, msg_content = t\<rparr>]\<rparr>) (sm_sessions sm)\<rparr>"

lemma commit_turn_spec:
  assumes "session_get (sv_sessions j) k = Inr session"
  shows "\<exists>j'. commit_turn k session p j = (j', Inr ()) \<and> jb_result j' = jb_result j
    \<and> near (j\<lparr>sv_sessions := committed k session p (res_text (jb_result j)) (sv_sessions j)\<rparr>) j'"
proof -
  let ?j = "j\<lparr>sv_sessions := committed k session p (res_text (jb_result j)) (sv_sessions j)\<rparr>"
  have set: "on_sessions (set_messages k (pc_messages p @ [\<lparr>msg_role = Assistant, msg_content = res_text (jb_result j)\<rparr>])) j
      = (?j, Inr ())"
    using assms by (simp add: on_sessions_def set_messages_def committed_def)
  show ?thesis
  proof (cases "sf_stopped (jb_filter j)")
    case False
    then show ?thesis using set by (simp add: commit_turn_def)
  next
    case True
    have "near ?j (fst (drop_context (sess_id session) ?j))"
      using keeps_near_drop [of ?j "sess_id session"] by (simp add: keeps_iff)
    then show ?thesis using True set by (simp add: commit_turn_def drop_context_eq)
  qed
qed

text \<open>The part of a job after its session is found.\<close>

definition turn_outcome :: "('m, 'c, 'p) service_env \<Rightarrow> chat_request \<Rightarrow> ('m, 'c) job \<Rightarrow> ('m, 'c) job \<Rightarrow> unit res \<Rightarrow> bool" where
  "turn_outcome env rq j j' r \<longleftrightarrow> lease_state (held (sv_models j)) j' \<and> jb_temporary j' = jb_temporary j
     \<and> jb_request j' = jb_request j \<and> res_error_code (jb_result j') = res_error_code (jb_result j)
     \<and> (case r of Inl _ \<Rightarrow> sv_sessions j' = sv_sessions j
        | Inr _ \<Rightarrow> res_finish_reason (jb_result j') \<in> {FinishStop, FinishLength}
            \<and> (\<exists>session p. session_get (sv_sessions j) (chat_session_id rq) = Inr session \<and> prompt_of env session rq p
                 \<and> sv_sessions j' = committed (chat_session_id rq) session p (res_text (jb_result j')) (sv_sessions j)))"

lemma chat_turn_spec:
  assumes good: "models_good (sv_models j)" and idle: "jb_leased j = []"
    and can: "canonical_ok (env_canonical (se_models env))" and run: "chat_turn env rq j = (j', r)"
  shows "turn_outcome env rq j j' r"
proof -
  let ?h = "held (sv_models j)"
  show ?thesis
  proof (cases "session_get (sv_sessions j) (chat_session_id rq)")
    case (Inl e)
    then have "j' = j" "r = Inl e" using run by (simp_all add: chat_turn_def get_session_def act_bind_def)
    then show ?thesis using good idle by (simp add: turn_outcome_def lease_state_def)
  next
    case (Inr session)
    let ?k = "sess_model_id session"
    obtain j1 q where ls: "lease env ?k (chat_keep_alive rq) (\<lambda>_. ?k) j = (j1, q)" by fastforce
    show ?thesis
      using lease_spec [OF good can ls]
    proof (elim disjE exE conjE)
      fix e g
      assume "q = Inl e" and g: "j1 = j\<lparr>sv_models := g\<rparr>" "models_good g" "held g = ?h"
      then have "j' = j1" "r = Inl e" using run Inr ls by (simp_all add: chat_turn_def get_session_def act_bind_def)
      then show ?thesis using g idle by (simp add: turn_outcome_def lease_state_def)
    next
      fix m g
      assume q: "q = Inr m" and j1: "j1 = j\<lparr>sv_models := g, jb_leased := ?k\<rparr>" and g: "models_good g"
        "held g = ?h(?k := ?h ?k + 1)" "map_of (rm_models (mg_runtimes g)) ?k = Some m" "?k \<noteq> []"
      have l1: "lease_state ?h j1" using g by (simp add: j1 lease_state_def)
      have good1: "models_good (sv_models j1)" and m1: "map_of (rm_models (mg_runtimes (sv_models j1))) ?k = Some m"
        using g by (simp_all add: j1)
      obtain j2 x where gen: "generate_turn env session rq m j1 = (j2, x)" by fastforce
      have near: "near j1 j2" using keepsD [OF generate_turn_near [OF good1 m1] near_refl gen] .
      note same = near_facts [OF near]
      show ?thesis
      proof (cases x)
        case err: (Inl e)
        then have "j' = j2" "r = Inl e"
          using run Inr ls q gen by (simp_all add: chat_turn_def get_session_def act_bind_def)
        then show ?thesis using same near_lease [OF near l1] by (simp add: turn_outcome_def j1)
      next
        case ok: (Inr p)
        have get2: "session_get (sv_sessions j2) (chat_session_id rq) = Inr session" using Inr same(1) by (simp add: j1)
        from commit_turn_spec [OF get2, of p] obtain j3 where
          3: "commit_turn (chat_session_id rq) session p j2 = (j3, Inr ())" "jb_result j3 = jb_result j2"
          and near3: "near (j2\<lparr>sv_sessions := committed (chat_session_id rq) session p (res_text (jb_result j2)) (sv_sessions j2)\<rparr>) j3"
          by blast
        have "j' = j3" "r = Inr ()" using run Inr ls q gen ok 3 by (simp_all add: chat_turn_def get_session_def act_bind_def)
        moreover have "lease_state ?h j3"
          using near_lease [OF near l1] by (intro near_lease [OF near3]) (simp add: lease_state_def)
        ultimately show ?thesis
          using near_facts [OF near3] same generate_turn_result [OF gen [unfolded ok]] Inr 3(2)
          by (auto simp: turn_outcome_def j1)
      qed
    qed
  qed
qed

section \<open>Completions\<close>

lemma resolve_same: "on_models (models_resolve env ref) j = (j', r) \<Longrightarrow> j' = j"
  by (auto simp: on_models_def models_resolve_def act_bind_def Let_def split: sum.splits)

definition fresh_ids :: "('m, 'c, 'p) service_env \<Rightarrow> session_manager \<Rightarrow> bool" where
  "fresh_ids env sm \<longleftrightarrow> (\<forall>n. se_fresh env n \<noteq> [] \<and> map_of (sm_sessions sm) (se_fresh env n) = None)"

text \<open>Opening changes nothing but the temporary session.\<close>

definition opened :: "('m, 'c) job \<Rightarrow> ('m, 'c) job \<Rightarrow> bool" where
  "opened j j' \<longleftrightarrow> sv_models j' = sv_models j \<and> jb_leased j' = jb_leased j \<and> jb_result j' = jb_result j
     \<and> (jb_temporary j' = [] \<and> sv_sessions j' = sv_sessions j
        \<or> jb_temporary j' \<noteq> [] \<and> map_of (sm_sessions (sv_sessions j)) (jb_temporary j') = None
          \<and> (\<exists>x. sv_sessions j' = (sv_sessions j)\<lparr>sm_sessions := oput (jb_temporary j') x (sm_sessions (sv_sessions j))\<rparr>))"

lemma create_session_spec:
  assumes "fresh_ids env (sv_sessions j)" and "create_session_for env model system j = (j', r)"
  shows "sv_models j' = sv_models j \<and> jb_leased j' = jb_leased j \<and> jb_result j' = jb_result j \<and> jb_temporary j' = jb_temporary j
    \<and> (case r of Inl _ \<Rightarrow> sv_sessions j' = sv_sessions j
      | Inr k \<Rightarrow> k \<noteq> [] \<and> map_of (sm_sessions (sv_sessions j)) k = None
          \<and> (\<exists>x. sv_sessions j' = (sv_sessions j)\<lparr>sm_sessions := oput k x (sm_sessions (sv_sessions j))\<rparr>))"
proof -
  let ?k = "se_fresh env (sv_tick j)"
  have fresh: "?k \<noteq> []" "map_of (sm_sessions (sv_sessions j)) ?k = None" "\<not> ohas (sm_sessions (sv_sessions j)) ?k"
    using assms(1) by (simp_all add: fresh_ids_def ohas_def)
  show ?thesis
    using assms(2) fresh
    by (auto simp: create_session_for_def stamp_def session_create_def throw_def Let_def act_bind_def split: if_splits)
qed

lemma open_completion_spec:
  assumes fresh: "fresh_ids env (sv_sessions j)" and none: "jb_temporary j = []"
    and run: "open_completion env rq j = (j', r)"
  shows "opened j j' \<and> (\<forall>u. r = Inr u \<longrightarrow> chat_session_id (jb_request j') = jb_temporary j' \<and> jb_temporary j' \<noteq> [])"
proof -
  obtain j1 x where res: "on_models (models_resolve (models_of env) (completion_model rq)) j = (j1, x)" by fastforce
  then have j1: "j1 = j" by (rule resolve_same)
  show ?thesis
  proof (cases "\<exists>info. x = Inr info \<and> require_chat info = Inr ()
      \<and> check_completion (max_input_characters (se_options env)) (completion_messages rq) = Inr ()")
    case False
    then have "j' = j \<and> (\<exists>e. r = Inl e)"
      using run res j1 by (auto simp: open_completion_def act_bind_def dest!: sym [of "Inl e" for e] split: sum.splits)
    then show ?thesis using none by (auto simp: opened_def)
  next
    case True
    then obtain info where info: "x = Inr info" "require_chat info = Inr ()"
      "check_completion (max_input_characters (se_options env)) (completion_messages rq) = Inr ()" by blast
    obtain j2 y where cr: "create_session_for env (mm_id (mr_manifest info)) [] j = (j2, y)" by fastforce
    note spec = create_session_spec [OF fresh cr]
    show ?thesis
    proof (cases y)
      case (Inl e)
      then have "j' = j2" "r = Inl e" using run res j1 info cr by (simp_all add: open_completion_def)
      then show ?thesis using spec Inl none by (auto simp: opened_def)
    next
      case (Inr k)
      then obtain x0 where k: "k \<noteq> []" "map_of (sm_sessions (sv_sessions j)) k = None" and
        s2: "sv_sessions j2 = (sv_sessions j)\<lparr>sm_sessions := oput k x0 (sm_sessions (sv_sessions j))\<rparr>"
        using spec by auto
      have "oput k y (oput k x0 m) = oput k y m" for y and m :: "(qstring, session_snapshot) omap" by (induction m) auto
      then have "j' = j2\<lparr>jb_temporary := k, sv_sessions := (sv_sessions j)\<lparr>sm_sessions := oput k
            (x0\<lparr>sess_messages := butlast (completion_messages rq)\<rparr>) (sm_sessions (sv_sessions j))\<rparr>,
          jb_request := \<lparr>chat_session_id = k, chat_prompt = msg_content (last (completion_messages rq)),
            chat_options = completion_options rq, chat_keep_alive = completion_keep_alive rq\<rparr>\<rparr>" "r = Inr ()"
        using run res j1 info cr Inr s2
        by (simp_all add: open_completion_def on_sessions_def set_messages_def session_get_def)
      then show ?thesis using spec k by (auto simp: opened_def)
    qed
  qed
qed

section \<open>The end of a job\<close>

lemma finish_spec: "\<exists>j'. finish env r j = (j', Inr ()) \<and> sv_models j' = sv_models j \<and> sv_sessions j' = sv_sessions j"
  by (simp add: finish_def try_catch_def deliver_def throw_def split: option.split)

text \<open>Leases given back, the terminal event sent: the result is the one of the job.\<close>

lemma settle_spec:
  assumes "lease_state h0 j" and "\<And>k. 0 \<le> h0 k"
  shows "\<exists>j' ks. act_bind (end_lease env) (\<lambda>_. act_bind (gets jb_result) (\<lambda>r. act_bind (finish env r) (\<lambda>_. ret r))) j
      = (j', Inr (jb_result j))
    \<and> models_good (sv_models j') \<and> held (sv_models j') = h0 \<and> sv_sessions j' = sv_sessions j
    \<and> mg_host (sv_models j') = fold cache_erase_model ks (mg_host (sv_models j))"
proof -
  from end_lease_spec [OF assms] obtain g ks where
    1: "end_lease env j = (j\<lparr>sv_models := g\<rparr>, Inr ())" "models_good g" "held g = h0"
      "mg_host g = fold cache_erase_model ks (mg_host (sv_models j))" by blast
  from finish_spec [of env "jb_result j" "j\<lparr>sv_models := g\<rparr>"] obtain j' where
    "finish env (jb_result j) (j\<lparr>sv_models := g\<rparr>) = (j', Inr ())" "sv_models j' = g" "sv_sessions j' = sv_sessions j" by auto
  then show ?thesis using 1 by auto
qed

lemma close_temporary_spec:
  assumes "jb_temporary j = [] \<or> map_of (sm_sessions (sv_sessions j)) (jb_temporary j) \<noteq> None"
  shows "\<exists>j'. close_temporary j = (j', Inr ()) \<and> jb_result j' = jb_result j \<and> near (j\<lparr>sv_sessions := sv_sessions j'\<rparr>) j'
    \<and> sv_sessions j' = (if jb_temporary j = [] then sv_sessions j
        else (sv_sessions j)\<lparr>sm_sessions := odel (jb_temporary j) (sm_sessions (sv_sessions j))\<rparr>)
    \<and> (\<forall>k. map_of (cc_entries (cache_of j)) k = None \<longrightarrow> map_of (cc_entries (cache_of j')) k = None)
    \<and> (jb_temporary j \<noteq> [] \<longrightarrow> map_of (cc_entries (cache_of j')) (jb_temporary j) = None)"
proof (cases "jb_temporary j = []")
  case True
  then show ?thesis by (simp add: close_temporary_def)
next
  case False
  let ?t = "jb_temporary j"
  obtain x where x: "map_of (sm_sessions (sv_sessions j)) ?t = Some x" using assms False by auto
  let ?j1 = "j\<lparr>sv_models := (sv_models j)\<lparr>mg_host := cache_erase ?t (mg_host (sv_models j))\<rparr>\<rparr>"
  let ?S = "(sv_sessions j)\<lparr>sm_sessions := odel ?t (sm_sessions (sv_sessions j))\<rparr>"
  have run: "close_temporary j = (?j1\<lparr>sv_sessions := ?S\<rparr>, Inr ())"
    using False x by (simp add: close_temporary_def drop_context_eq on_sessions_def session_close_def session_get_def)
  have "near (j\<lparr>sv_sessions := ?S\<rparr>) (?j1\<lparr>sv_sessions := ?S\<rparr>)" by (simp add: near_def drop_good)
  then show ?thesis using False run by (auto simp: cache_of_def erase_entries)
qed

text \<open>The handler: contexts of the request dropped, the result failed.\<close>

lemma handler_spec:
  "\<exists>j'. act_bind (drop_context k) (\<lambda>_. set_result (caught unknown e)) j = (j', Inr ())
     \<and> jb_result j' = caught unknown e (jb_result j) \<and> sv_sessions j' = sv_sessions j \<and> jb_temporary j' = jb_temporary j
     \<and> (lease_state h0 j \<longrightarrow> lease_state h0 j') \<and> map_of (cc_entries (cache_of j')) k = None
     \<and> (\<forall>i. map_of (cc_entries (cache_of j)) i = None \<longrightarrow> map_of (cc_entries (cache_of j')) i = None)"
proof -
  let ?j1 = "fst (drop_context k j)"
  have "near j ?j1" using keeps_near_drop [of j k] by (simp add: keeps_iff)
  then have "lease_state h0 ?j1" if "lease_state h0 j" using near_lease that by blast
  then show ?thesis by (simp add: drop_context_eq set_result_def lease_state_def cache_of_def erase_entries)
qed

definition failed :: "generation_result \<Rightarrow> bool" where
  "failed r \<longleftrightarrow> res_finish_reason r \<in> {FinishCancelled, FinishError} \<and> res_tool_calls r = [] \<and> res_reasoning r = []"

lemma caught_failed: "failed (caught unknown e r)"
  by (auto simp: caught_def failure_def failed_def split: exn.split)

lemma failed_reason: "failed r \<Longrightarrow> res_finish_reason r \<notin> {FinishStop, FinishLength}"
  by (auto simp: failed_def)

lemma job_fields [simp]:
  "sv_models (begin_job s r rq) = sv_models s" "sv_sessions (begin_job s r rq) = sv_sessions s"
  "sv_events (begin_job s r rq) = sv_events s" "sv_tick (begin_job s r rq) = sv_tick s"
  "jb_result (begin_job s r rq) = r" "jb_request (begin_job s r rq) = rq" "jb_temporary (begin_job s r rq) = []"
  "jb_leased (begin_job s r rq) = []" "jb_cache (begin_job s r rq) = []"
  "sv_models (service.truncate j) = sv_models j" "sv_sessions (service.truncate j) = sv_sessions j"
  by (simp_all add: begin_job_def service.defs job.defs)

lemma poll_near: "poll env j = (j', r) \<Longrightarrow> near j j'"
  using keepsD [OF keeps_near_basic(2) near_refl] by metis

lemma lease_state_start: "models_good (sv_models j) \<Longrightarrow> jb_leased j = [] \<Longrightarrow> lease_state (held (sv_models j)) j"
  by (simp add: lease_state_def)

text \<open>The body of a chat, then of a completion.\<close>

lemma chat_body_chat:
  assumes good: "models_good (sv_models j)" and idle: "jb_leased j = []"
    and can: "canonical_ok (env_canonical (se_models env))" and run: "chat_body env None j = (j', r)"
  shows "turn_outcome env (jb_request j) j j' r"
proof -
  obtain j1 x where pl: "poll env j = (j1, x)" by fastforce
  note same = near_facts [OF poll_near [OF pl]]
  show ?thesis
  proof (cases x)
    case (Inl e)
    then have "j' = j1" "r = Inl e" using run pl by (simp_all add: chat_body_def)
    then show ?thesis
      using same near_lease [OF poll_near [OF pl] lease_state_start [OF good idle]] by (simp add: turn_outcome_def)
  next
    case (Inr u)
    then have "chat_turn env (jb_request j) j1 = (j', r)" using run pl same(4) by (simp add: chat_body_def)
    have "jb_leased j1 = []" using same(2) idle by simp
    from chat_turn_spec [OF same(6) [OF good] this can \<open>chat_turn env (jb_request j) j1 = (j', r)\<close>]
    show ?thesis unfolding turn_outcome_def same .
  qed
qed

lemma chat_body_completion:
  assumes good: "models_good (sv_models j)" and idle: "jb_leased j = []" "jb_temporary j = []"
    and can: "canonical_ok (env_canonical (se_models env))" and fresh: "fresh_ids env (sv_sessions j)"
    and run: "chat_body env (Some crq) j = (j', r)"
  shows "lease_state (held (sv_models j)) j' \<and> res_error_code (jb_result j') = res_error_code (jb_result j)
    \<and> (case r of Inl _ \<Rightarrow> True | Inr _ \<Rightarrow> res_finish_reason (jb_result j') \<in> {FinishStop, FinishLength})
    \<and> (jb_temporary j' = [] \<and> sv_sessions j' = sv_sessions j
       \<or> jb_temporary j' \<noteq> [] \<and> map_of (sm_sessions (sv_sessions j)) (jb_temporary j') = None
         \<and> (\<exists>x. sv_sessions j' = (sv_sessions j)\<lparr>sm_sessions := oput (jb_temporary j') x (sm_sessions (sv_sessions j))\<rparr>))"
proof -
  obtain j1 x where pl: "poll env j = (j1, x)" by fastforce
  note same = near_facts [OF poll_near [OF pl]]
  show ?thesis
  proof (cases x)
    case (Inl e)
    then have "j' = j1" "r = Inl e" using run pl by (simp_all add: chat_body_def)
    then show ?thesis
      using same idle near_lease [OF poll_near [OF pl] lease_state_start [OF good idle(1)]] by simp
  next
    case (Inr u)
    obtain j2 y where op: "open_completion env crq j1 = (j2, y)" by fastforce
    have "fresh_ids env (sv_sessions j1)" "jb_temporary j1 = []" using fresh same idle by simp_all
    note spec = open_completion_spec [OF this op]
    then have 2: "sv_models j2 = sv_models j1" "jb_leased j2 = []" "jb_result j2 = jb_result j1" using same idle by (simp_all add: opened_def)
    have l2: "lease_state (held (sv_models j)) j2" using 2 same(6) [OF good] same(7) by (simp add: lease_state_def)
    show ?thesis
    proof (cases y)
      case err: (Inl e)
      then have "j' = j2" "r = Inl e" using run pl Inr op by (simp_all add: chat_body_def)
      then show ?thesis using spec l2 2 same by (auto simp: opened_def)
    next
      case ok: (Inr u')
      then have turn: "chat_turn env (jb_request j2) j2 = (j', r)" using run pl Inr op by (simp add: chat_body_def)
      have id: "chat_session_id (jb_request j2) = jb_temporary j2" "jb_temporary j2 \<noteq> []" using spec ok by auto
      have "models_good (sv_models j2)" using same(6) [OF good] 2(1) by simp
      note out = chat_turn_spec [OF this 2(2) can turn]
      then have temp: "jb_temporary j' = jb_temporary j2" by (simp add: turn_outcome_def)
      obtain x0 where fr: "map_of (sm_sessions (sv_sessions j)) (jb_temporary j2) = None"
        and s2: "sv_sessions j2 = (sv_sessions j)\<lparr>sm_sessions := oput (jb_temporary j2) x0 (sm_sessions (sv_sessions j))\<rparr>"
        using spec id(2) same(1) by (auto simp: opened_def)
      have twice: "oput k z (oput k x0 m) = oput k z m" for k z and m :: "(qstring, session_snapshot) omap" by (induction m) auto
      have "\<exists>z. sv_sessions j' = (sv_sessions j)\<lparr>sm_sessions := oput (jb_temporary j2) z (sm_sessions (sv_sessions j))\<rparr>"
      proof (cases r)
        case (Inl e)
        then show ?thesis using out s2 by (auto simp: turn_outcome_def)
      next
        case (Inr v)
        then obtain session p where "sv_sessions j' = committed (jb_temporary j2) session p (res_text (jb_result j')) (sv_sessions j2)"
          using out id(1) by (auto simp: turn_outcome_def)
        then show ?thesis by (auto simp: committed_def s2 twice)
      qed
      then show ?thesis using out temp fr id(2) 2 same by (auto simp: turn_outcome_def lease_state_def split: sum.splits)
    qed
  qed
qed

lemma job_tail:
  assumes "chat_body env completion j = (j1, x)" and "lease_state h0 j1" and "\<And>k. 0 \<le> h0 k"
    and "jb_temporary j1 = [] \<or> map_of (sm_sessions (sv_sessions j1)) (jb_temporary j1) \<noteq> None"
  shows "\<exists>j' r. chat_job env completion j = (j', Inr r) \<and> models_good (sv_models j') \<and> held (sv_models j') = h0
    \<and> sv_sessions j' = (if jb_temporary j1 = [] then sv_sessions j1
        else (sv_sessions j1)\<lparr>sm_sessions := odel (jb_temporary j1) (sm_sessions (sv_sessions j1))\<rparr>)
    \<and> (case x of Inr _ \<Rightarrow> r = jb_result j1
       | Inl _ \<Rightarrow> failed r \<and> map_of (cc_entries (cache_of j')) (chat_session_id (jb_request j1)) = None)
    \<and> (jb_temporary j1 \<noteq> [] \<longrightarrow> map_of (cc_entries (cache_of j')) (jb_temporary j1) = None)"
proof -
  let ?k = "chat_session_id (jb_request j1)"
  obtain j2 where caught: "try_catch (chat_body env completion) (\<lambda>e. act_bind (gets jb_request) (\<lambda>rq.
      act_bind (drop_context (chat_session_id rq)) (\<lambda>_. set_result (caught ''Unknown runtime failure'' e)))) j = (j2, Inr ())"
    and l2: "lease_state h0 j2" and s2: "sv_sessions j2 = sv_sessions j1" "jb_temporary j2 = jb_temporary j1"
    and r2: "case x of Inr _ \<Rightarrow> jb_result j2 = jb_result j1
      | Inl _ \<Rightarrow> failed (jb_result j2) \<and> map_of (cc_entries (cache_of j2)) ?k = None"
  proof (cases x)
    case (Inr u)
    then show ?thesis using that [of j1] assms(1,2) by (simp add: try_catch_def)
  next
    case (Inl e)
    from handler_spec [of ?k "''Unknown runtime failure''" e j1 h0] obtain j2 where
      "act_bind (drop_context ?k) (\<lambda>_. set_result (caught ''Unknown runtime failure'' e)) j1 = (j2, Inr ())"
      "jb_result j2 = caught ''Unknown runtime failure'' e (jb_result j1)" "sv_sessions j2 = sv_sessions j1"
      "jb_temporary j2 = jb_temporary j1" "lease_state h0 j2" "map_of (cc_entries (cache_of j2)) ?k = None"
      using assms(2) by blast
    then show ?thesis using that [of j2] assms(1) Inl caught_failed by (simp add: try_catch_def)
  qed
  have t2: "jb_temporary j2 = [] \<or> map_of (sm_sessions (sv_sessions j2)) (jb_temporary j2) \<noteq> None" using assms(4) s2 by simp
  from close_temporary_spec [OF t2] obtain j3 where
    3: "close_temporary j2 = (j3, Inr ())" "jb_result j3 = jb_result j2" and near: "near (j2\<lparr>sv_sessions := sv_sessions j3\<rparr>) j3"
    and s3: "sv_sessions j3 = (if jb_temporary j2 = [] then sv_sessions j2
        else (sv_sessions j2)\<lparr>sm_sessions := odel (jb_temporary j2) (sm_sessions (sv_sessions j2))\<rparr>)"
    and c3: "\<And>k. map_of (cc_entries (cache_of j2)) k = None \<Longrightarrow> map_of (cc_entries (cache_of j3)) k = None"
      "jb_temporary j2 \<noteq> [] \<Longrightarrow> map_of (cc_entries (cache_of j3)) (jb_temporary j2) = None"
    by blast
  have l3: "lease_state h0 j3" using l2 by (intro near_lease [OF near]) (simp add: lease_state_def)
  from settle_spec [OF l3 assms(3)] obtain j4 ks where
    4: "act_bind (end_lease env) (\<lambda>_. act_bind (gets jb_result) (\<lambda>r. act_bind (finish env r) (\<lambda>_. ret r))) j3 = (j4, Inr (jb_result j3))"
      "models_good (sv_models j4)" "held (sv_models j4) = h0" "sv_sessions j4 = sv_sessions j3"
      "mg_host (sv_models j4) = fold cache_erase_model ks (mg_host (sv_models j3))" by blast
  have c4: "map_of (cc_entries (cache_of j4)) k = None" if "map_of (cc_entries (cache_of j3)) k = None" for k
    using that erase_models_none [of "mg_host (sv_models j3)" k ks] l3 4(5)
    by (simp add: cache_of_def lease_state_def models_good_def cache_agrees_def)
  have "chat_job env completion j = (j4, Inr (jb_result j3))" using caught 3(1) 4(1) by (simp add: chat_job_def)
  then show ?thesis using 3(2) 4 s2 s3 r2 c3 c4 by (cases x) auto
qed

section \<open>Structured conversations\<close>

lemma converse_turn_near:
  assumes "models_good (sv_models j1)" and "map_of (rm_models (mg_runtimes (sv_models j1))) k = Some m"
  shows "keeps (near j1) (converse_turn env rq m)"
  unfolding converse_turn_def by (intro triples acquire_context_near [OF assms] triple_if)

lemma notify_result: "notify env kind t j = (j', r) \<Longrightarrow> jb_result j' = jb_result j"
  by (auto simp: notify_def deliver_def act_bind_def split: option.splits)

text \<open>The result of a conversation that went through: an accepted reply.\<close>

definition replied :: "('m, 'c, 'p) service_env \<Rightarrow> conversation_request \<Rightarrow> generation_result \<Rightarrow> bool" where
  "replied env rq r \<longleftrightarrow> res_finish_reason r = FinishStop
     \<and> (\<exists>given n accepted. validate_conversation_reply (se_parse env) (\<lambda>i. se_fresh env (n + i)) given rq = Inr accepted
          \<and> res_text r = reply_text accepted \<and> res_tool_calls r = reply_tool_calls accepted
          \<and> res_reasoning r = reply_reasoning accepted)"

lemma take_reply_result:
  assumes "take_reply env m p rq j = (j', Inr u)" and "res_finish_reason (jb_result j) = FinishStop"
  shows "replied env rq (jb_result j')"
proof -
  from assms(1) obtain given accepted where
    v: "validate_conversation_reply (se_parse env) (\<lambda>i. se_fresh env (Suc (sv_tick j) + i)) given rq = Inr accepted"
    and last: "(if reply_text accepted = [] then ret () else notify env Delta (reply_text accepted))
      (j\<lparr>sv_tick := Suc (Suc (sv_tick j)), jb_result := (jb_result j)\<lparr>res_text := reply_text accepted,
         res_tool_calls := reply_tool_calls accepted, res_reasoning := reply_reasoning accepted\<rparr>\<rparr>) = (j', Inr u)"
    by (auto simp: take_reply_def act_bind_Inr stamp_def set_result_def simp del: add_Suc)
  have "jb_result j' = (jb_result j)\<lparr>res_text := reply_text accepted,
      res_tool_calls := reply_tool_calls accepted, res_reasoning := reply_reasoning accepted\<rparr>"
    using last notify_result by (fastforce split: if_splits)
  then show ?thesis
    using v assms(2) unfolding replied_def
    by (intro conjI exI [of _ given] exI [of _ "Suc (sv_tick j)"] exI [of _ accepted]) simp_all
qed

lemma converse_turn_result:
  assumes "converse_turn env rq m j = (j', Inr u)"
  shows "replied env rq (jb_result j')"
proof -
  from assms obtain j1 j2 j3 ctx p k u1 u2 where stream: "converse_stream env ctx p rq j1 = (j2, Inr u1)"
    and reply: "take_reply env m p rq j2 = (j3, Inr u2)"
    and last: "(if sf_stopped (jb_filter j3) then drop_context k else ret ()) j3 = (j', Inr u)"
    unfolding converse_turn_def by (auto simp: act_bind_Inr)
  have "jb_result j' = jb_result j3" using last by (auto simp: drop_context_eq split: if_splits)
  then show ?thesis using take_reply_result [OF reply] converse_stream_finish [OF stream] by simp
qed

lemma converse_body_spec:
  assumes good: "models_good (sv_models j)" and idle: "jb_leased j = []"
    and can: "canonical_ok (env_canonical (se_models env))" and run: "converse_body env rq j = (j', r)"
  shows "lease_state (held (sv_models j)) j' \<and> sv_sessions j' = sv_sessions j
    \<and> res_error_code (jb_result j') = res_error_code (jb_result j)
    \<and> (\<forall>u. r = Inr u \<longrightarrow> replied env rq (jb_result j'))"
proof -
  let ?h = "held (sv_models j)"
  let ?ok = "validate_conversation_request (se_qt env) (se_catalog env) (se_compact env) (se_parse env) rq
    (max_input_characters (se_options env))"
  obtain j1 x where pl: "poll env j = (j1, x)" by fastforce
  note same = near_facts [OF poll_near [OF pl]]
  have l1: "lease_state ?h j1" by (rule near_lease [OF poll_near [OF pl] lease_state_start [OF good idle]])
  obtain j2 y where res: "on_models (models_resolve (models_of env) (conv_model rq)) j1 = (j2, y)" by fastforce
  have j2: "j2 = j1" by (rule resolve_same [OF res])
  show ?thesis
  proof (cases "\<exists>info. x = Inr () \<and> ?ok = Inr () \<and> y = Inr info \<and> qs ''chat'' \<in> set (mm_capabilities (mr_manifest info))")
    case False
    then have "j' = j1 \<and> (\<exists>e. r = Inl e)"
      using run pl res j2 by (auto simp: converse_body_def act_bind_def require_def throw_def dest!: sym [of "Inl e" for e] split: sum.splits if_splits)
    then show ?thesis using same l1 by auto
  next
    case True
    then obtain info where info: "x = Inr ()" "?ok = Inr ()" "y = Inr info" "qs ''chat'' \<in> set (mm_capabilities (mr_manifest info))" by blast
    let ?k = "mm_id (mr_manifest info)"
    obtain j3 q where ls: "lease env ?k (conv_keep_alive rq) (\<lambda>m. spec_id (lm_spec m)) j1 = (j3, q)" by fastforce
    have run3: "(case q of Inl e \<Rightarrow> (j3, Inl e) | Inr m \<Rightarrow> converse_turn env rq m j3) = (j', r)"
      using run pl res j2 info ls by (simp add: converse_body_def act_bind_def [of "lease env k ka f" for k ka f] require_def)
    show ?thesis
      using lease_spec [OF same(6) [OF good] can ls]
    proof (elim disjE exE conjE)
      fix e g
      assume "q = Inl e" "j3 = j1\<lparr>sv_models := g\<rparr>" "models_good g" "held g = held (sv_models j1)"
      then show ?thesis using run3 same idle by (auto simp: lease_state_def)
    next
      fix m g
      assume q: "q = Inr m" and j3: "j3 = j1\<lparr>sv_models := g, jb_leased := spec_id (lm_spec m)\<rparr>" and g: "models_good g"
        "held g = (held (sv_models j1))(?k := held (sv_models j1) ?k + 1)" "map_of (rm_models (mg_runtimes g)) ?k = Some m" "?k \<noteq> []"
        "spec_id (lm_spec m) = ?k"
      have l3: "lease_state ?h j3" using g same(7) by (simp add: j3 lease_state_def)
      have turn: "converse_turn env rq m j3 = (j', r)" using run3 q by simp
      have good3: "models_good (sv_models j3)" and m3: "map_of (rm_models (mg_runtimes (sv_models j3))) ?k = Some m" using g by (simp_all add: j3)
      have near: "near j3 j'" by (rule keepsD [OF converse_turn_near [OF good3 m3] near_refl turn])
      show ?thesis
        using near_facts [OF near] near_lease [OF near l3] same converse_turn_result turn by (auto simp: j3)
    qed
  qed
qed

section \<open>Requests from beginning to end\<close>

lemma chat_spec:
  assumes "models_good (sv_models s)" and "canonical_ok (env_canonical (se_models env))"
  shows "\<exists>s' r. service_chat env rid rq s = (s', Inr r) \<and> models_good (sv_models s') \<and> held (sv_models s') = held (sv_models s)
    \<and> (if res_finish_reason r \<in> {FinishStop, FinishLength}
       then res_error_code r = NoError \<and> (\<exists>session p. session_get (sv_sessions s) (chat_session_id rq) = Inr session
         \<and> prompt_of env session rq p
         \<and> sv_sessions s' = committed (chat_session_id rq) session p (res_text r) (sv_sessions s))
       else failed r \<and> sv_sessions s' = sv_sessions s
         \<and> map_of (cc_entries (cache_of s')) (chat_session_id rq) = None)"
proof -
  let ?j = "begin_job s (empty_result rid (chat_session_id rq)) rq"
  have good: "models_good (sv_models ?j)" and idle: "jb_leased ?j = []" using assms(1) by simp_all
  obtain j1 x where body: "chat_body env None ?j = (j1, x)" by fastforce
  note out = chat_body_chat [OF good idle assms(2) body]
  have l1: "lease_state (held (sv_models s)) j1" and temp: "jb_temporary j1 = []" and req: "jb_request j1 = rq"
    and code: "res_error_code (jb_result j1) = NoError"
    using out by (simp_all add: turn_outcome_def empty_result_def)
  from job_tail [OF body l1 held_nonneg [OF assms(1)]] temp req obtain j' r where
    run: "chat_job env None ?j = (j', Inr r)" "models_good (sv_models j')" "held (sv_models j') = held (sv_models s)"
      "sv_sessions j' = sv_sessions j1"
    and res: "case x of Inr _ \<Rightarrow> r = jb_result j1
       | Inl _ \<Rightarrow> failed r \<and> map_of (cc_entries (cache_of j')) (chat_session_id rq) = None"
    by auto
  have call: "service_chat env rid rq s = (service.truncate j', Inr r)" using run(1) by (simp add: service_chat_def run_job_def)
  have cache: "cache_of (service.truncate j') = cache_of j'" by (simp add: cache_of_def)
  show ?thesis
  proof (cases x)
    case (Inl e)
    then have "failed r" "map_of (cc_entries (cache_of j')) (chat_session_id rq) = None" "sv_sessions j1 = sv_sessions s"
      using res out by (simp_all add: turn_outcome_def)
    then show ?thesis using call run cache failed_reason [OF \<open>failed r\<close>] by auto
  next
    case (Inr u)
    then have "r = jb_result j1" using res by simp
    moreover from Inr out obtain session p where "res_finish_reason (jb_result j1) \<in> {FinishStop, FinishLength}"
      "session_get (sv_sessions s) (chat_session_id rq) = Inr session" "prompt_of env session rq p"
      "sv_sessions j1 = committed (chat_session_id rq) session p (res_text (jb_result j1)) (sv_sessions s)"
      by (auto simp: turn_outcome_def)
    ultimately show ?thesis using call run code by auto
  qed
qed

lemma completion_spec:
  assumes "models_good (sv_models s)" and "canonical_ok (env_canonical (se_models env))" and "fresh_ids env (sv_sessions s)"
  shows "\<exists>s' r. service_complete env rid rq s = (s', Inr r) \<and> models_good (sv_models s') \<and> held (sv_models s') = held (sv_models s)
    \<and> sv_sessions s' = sv_sessions s
    \<and> (res_finish_reason r \<in> {FinishStop, FinishLength} \<and> res_error_code r = NoError \<or> failed r)"
proof -
  let ?j = "begin_job s (empty_result rid []) no_request"
  have good: "models_good (sv_models ?j)" and idle: "jb_leased ?j = []" "jb_temporary ?j = []"
    and fresh: "fresh_ids env (sv_sessions ?j)" using assms by simp_all
  obtain j1 x where body: "chat_body env (Some rq) ?j = (j1, x)" by fastforce
  note out = chat_body_completion [OF good idle assms(2) fresh body]
  have l1: "lease_state (held (sv_models s)) j1" and code: "res_error_code (jb_result j1) = NoError"
    and temp: "jb_temporary j1 = [] \<or> map_of (sm_sessions (sv_sessions j1)) (jb_temporary j1) \<noteq> None"
    using out by (auto simp: empty_result_def)
  from job_tail [OF body l1 held_nonneg [OF assms(1)] temp] obtain j' r where
    run: "chat_job env (Some rq) ?j = (j', Inr r)" "models_good (sv_models j')" "held (sv_models j') = held (sv_models s)"
    and sess: "sv_sessions j' = (if jb_temporary j1 = [] then sv_sessions j1
        else (sv_sessions j1)\<lparr>sm_sessions := odel (jb_temporary j1) (sm_sessions (sv_sessions j1))\<rparr>)"
    and res: "case x of Inr _ \<Rightarrow> r = jb_result j1 | Inl _ \<Rightarrow> failed r"
    by (cases x) auto
  have "sv_sessions j' = sv_sessions s" using sess out by (auto simp: odel_absent)
  moreover have "res_finish_reason r \<in> {FinishStop, FinishLength} \<and> res_error_code r = NoError \<or> failed r"
    using res out code by (cases x) auto
  ultimately show ?thesis using run by (simp add: service_complete_def run_job_def)
qed

lemma conversation_spec:
  assumes "models_good (sv_models s)" and "canonical_ok (env_canonical (se_models env))"
  shows "\<exists>s' r. service_converse env rid rq s = (s', Inr r) \<and> models_good (sv_models s') \<and> held (sv_models s') = held (sv_models s)
    \<and> sv_sessions s' = sv_sessions s \<and> (replied env rq r \<and> res_error_code r = NoError \<or> failed r)"
proof -
  let ?j = "begin_job s (empty_result rid (conv_context_id rq)) no_request"
  have good: "models_good (sv_models ?j)" and idle: "jb_leased ?j = []" using assms(1) by simp_all
  obtain j1 x where body: "converse_body env rq ?j = (j1, x)" by fastforce
  note out = converse_body_spec [OF good idle assms(2) body]
  obtain j2 where caught: "try_catch (converse_body env rq) (\<lambda>e. act_bind (gets jb_cache) (\<lambda>k. act_bind (drop_context k) (\<lambda>_.
      set_result (caught ''Unknown structured runtime failure'' e)))) ?j = (j2, Inr ())"
    and l2: "lease_state (held (sv_models s)) j2" and s2: "sv_sessions j2 = sv_sessions s"
    and r2: "replied env rq (jb_result j2) \<and> res_error_code (jb_result j2) = NoError \<or> failed (jb_result j2)"
  proof (cases x)
    case (Inr u)
    then show ?thesis using that [of j1] out body by (simp add: try_catch_def empty_result_def)
  next
    case (Inl e)
    from handler_spec [of "jb_cache j1" "''Unknown structured runtime failure''" e j1 "held (sv_models s)"] obtain j2 where
      "act_bind (drop_context (jb_cache j1)) (\<lambda>_. set_result (caught ''Unknown structured runtime failure'' e)) j1 = (j2, Inr ())"
      "jb_result j2 = caught ''Unknown structured runtime failure'' e (jb_result j1)" "sv_sessions j2 = sv_sessions j1"
      "lease_state (held (sv_models s)) j2"
      using out by auto
    then show ?thesis using that [of j2] body Inl out caught_failed by (simp add: try_catch_def)
  qed
  obtain j3 where 3: "(if conv_context_id rq = [] then act_bind (gets jb_cache) drop_context else ret ()) j2 = (j3, Inr ())"
    "jb_result j3 = jb_result j2" and near: "near j2 j3"
  proof (cases "conv_context_id rq = []")
    case True
    have "near j2 (fst (drop_context (jb_cache j2) j2))" using keeps_near_drop [of j2 "jb_cache j2"] by (simp add: keeps_iff)
    then show ?thesis using that True by (simp add: drop_context_eq)
  next
    case False
    then show ?thesis using that [of j2] by simp
  qed
  from settle_spec [OF near_lease [OF near l2] held_nonneg [OF assms(1)]] obtain j4 where
    "act_bind (end_lease env) (\<lambda>_. act_bind (gets jb_result) (\<lambda>r. act_bind (finish env r) (\<lambda>_. ret r))) j3 = (j4, Inr (jb_result j3))"
    "models_good (sv_models j4)" "held (sv_models j4) = held (sv_models s)" "sv_sessions j4 = sv_sessions j3" by blast
  then show ?thesis
    using caught 3 r2 s2 near_facts(1) [OF near] by (simp add: service_converse_def run_job_def converse_job_def)
qed

end
