(* ===== verification/ServiceRuns.thy ===== *)
theory ServiceRuns
  imports Requests
begin

text \<open>
  The service over its whole life: any sequence of requests, each whatever way it ends, from a
  service that was started. Between requests no lease is held and the cached contexts are those of
  loaded models.
\<close>

section \<open>Embeddings and measurements\<close>

lemma keeps_near_erase_model [triples]: "keeps (near j0) (on_cache (\<lambda>c. (cache_erase_model k c, Inr ())))"
proof -
  have "models_good (g\<lparr>mg_host := cache_erase_model k (mg_host g)\<rparr>)" if good: "models_good g" for g :: "('a, 'b ctx_cache) models"
  proof -
    have inv: "cache_inv (mg_host g)" and belong: "\<forall>j e. map_of (cc_entries (mg_host g)) j = Some e \<longrightarrow> ce_model e \<in> dom (map_of (mg_loaded g))"
      using good unfolding models_good_def cache_agrees_def by blast+
    have "map_of (cc_entries (mg_host g)) j = Some e" if "map_of (cc_entries (cache_erase_model k (mg_host g))) j = Some e" for j e
      using that cache_erase_model_spec [OF inv, of k j] by (auto split: option.splits if_splits)
    then have "\<forall>j e. map_of (cc_entries (cache_erase_model k (mg_host g))) j = Some e \<longrightarrow> ce_model e \<in> dom (map_of (mg_loaded g))"
      using belong by blast
    moreover have "cache_inv (cache_erase_model k (mg_host g))" using cache_erase_model_spec [OF inv, of k] by blast
    ultimately show ?thesis using good by (simp add: models_good_def cache_agrees_def)
  qed
  then show ?thesis unfolding keeps_iff by (auto simp: on_cache_def on_models_def intro!: near_host)
qed

text \<open>A body that takes one lease and keeps near the state it took it in.\<close>

definition leasing :: "(('m, 'c) job, 'a) act \<Rightarrow> bool" where
  "leasing body \<longleftrightarrow> (\<forall>j. models_good (sv_models j) \<longrightarrow> jb_leased j = [] \<longrightarrow>
     lease_state (held (sv_models j)) (fst (body j)) \<and> sv_sessions (fst (body j)) = sv_sessions j)"

lemma leasing_near:
  fixes m :: "(('m, 'c) job, 'b) act" and f :: "'b \<Rightarrow> (('m, 'c) job, 'a) act"
  assumes "\<And>j0. keeps (near j0) m" and "\<And>x. leasing (f x)"
  shows "leasing (act_bind m f)"
  unfolding leasing_def
proof (intro allI impI)
  fix j :: "('m, 'c) job"
  assume good: "models_good (sv_models j)" and idle: "jb_leased j = []"
  obtain j1 r where run: "m j = (j1, r)" by fastforce
  have near: "near j j1" by (rule keepsD [OF assms(1) near_refl run])
  note same = near_facts [OF near]
  show "lease_state (held (sv_models j)) (fst (act_bind m f j)) \<and> sv_sessions (fst (act_bind m f j)) = sv_sessions j"
  proof (cases r)
    case (Inl e)
    then show ?thesis using run same near_lease [OF near lease_state_start [OF good idle]] by simp
  next
    case (Inr x)
    have "jb_leased j1 = []" using same(2) idle by simp
    from assms(2) [of x, unfolded leasing_def, rule_format, OF same(6) [OF good] this]
    show ?thesis using run Inr same by simp
  qed
qed

lemma leasing_lease:
  fixes env :: "('m, 'c, 'p) service_env" and f :: "'m loaded_model \<Rightarrow> (('m, 'c) job, 'a) act"
  assumes can: "canonical_ok (env_canonical (se_models env))"
    and body: "\<And>j1 m. models_good (sv_models j1) \<Longrightarrow> map_of (rm_models (mg_runtimes (sv_models j1))) k = Some m \<Longrightarrow> keeps (near j1) (f m)"
  shows "leasing (act_bind (lease env k ka (\<lambda>m. spec_id (lm_spec m))) f)"
  unfolding leasing_def
proof (intro allI impI)
  fix j :: "('m, 'c) job"
  assume good: "models_good (sv_models j)" and idle: "jb_leased j = []"
  let ?l = "lease env k ka (\<lambda>m. spec_id (lm_spec m))"
  obtain j1 q where ls: "?l j = (j1, q)" by fastforce
  show "lease_state (held (sv_models j)) (fst (act_bind ?l f j)) \<and> sv_sessions (fst (act_bind ?l f j)) = sv_sessions j"
    using lease_spec [OF good can ls]
  proof (elim disjE exE conjE)
    fix e g
    assume "q = Inl e" "j1 = j\<lparr>sv_models := g\<rparr>" "models_good g" "held g = held (sv_models j)"
    then show ?thesis using ls idle by (simp add: lease_state_def)
  next
    fix m g
    assume q: "q = Inr m" and j1: "j1 = j\<lparr>sv_models := g, jb_leased := spec_id (lm_spec m)\<rparr>" and g: "models_good g"
      "held g = (held (sv_models j))(k := held (sv_models j) k + 1)" "map_of (rm_models (mg_runtimes g)) k = Some m" "k \<noteq> []"
      "spec_id (lm_spec m) = k"
    have l1: "lease_state (held (sv_models j)) j1" using g by (simp add: j1 lease_state_def)
    have good1: "models_good (sv_models j1)" and m1: "map_of (rm_models (mg_runtimes (sv_models j1))) k = Some m"
      using g by (simp_all add: j1)
    have near: "near j1 (fst (f m j1))" using body [OF good1 m1] by (simp add: keeps_iff)
    have "act_bind ?l f j = f m j1" using ls q by simp
    then show ?thesis using near_facts(1) [OF near] near_lease [OF near l1] by (simp add: j1)
  qed
qed

lemma keeps_near_resolve [triples]: "keeps (near j0) (on_models (models_resolve env ref))"
  unfolding keeps_iff using resolve_same by (metis prod.collapse)

lemma embed_leasing: "canonical_ok (env_canonical (se_models env)) \<Longrightarrow> leasing (embed_body env model t)"
  unfolding embed_body_def by (intro leasing_near leasing_lease triples)

lemma measure_leasing: "canonical_ok (env_canonical (se_models env)) \<Longrightarrow> leasing (measure_body env rq)"
  unfolding measure_body_def by (intro leasing_near leasing_lease triples)

lemma leased_job_spec:
  assumes "leasing body" and "models_good (sv_models j)" and "jb_leased j = []"
  shows "\<exists>j'. leased_job env body j = (j', snd (body j)) \<and> models_good (sv_models j') \<and> held (sv_models j') = held (sv_models j)
    \<and> sv_sessions j' = sv_sessions j"
proof -
  obtain j1 r where body: "body j = (j1, r)" by fastforce
  have l1: "lease_state (held (sv_models j)) j1" and s1: "sv_sessions j1 = sv_sessions j"
    using assms body by (auto simp: leasing_def dest!: spec [of _ j])
  from end_lease_spec [OF l1 held_nonneg [OF assms(2)], of env] obtain g where
    "end_lease env j1 = (j1\<lparr>sv_models := g\<rparr>, Inr ())" "models_good g" "held g = held (sv_models j)" by blast
  then show ?thesis using body s1 by (cases r) (simp_all add: leased_job_def try_catch_def)
qed

section \<open>Requests\<close>

datatype 'm request = RqChat qstring chat_request | RqComplete qstring completion_request
  | RqConverse qstring conversation_request | RqEmbed qstring qstring | RqMeasure conversation_request
  | RqLoad model_load_request | RqUnload qstring | RqRemove qstring | RqRegister "'m runtime option" | RqMaintain
  | RqCreateSession qstring qstring | RqResetSession qstring | RqCloseSession qstring | RqStats

fun service_apply :: "('m, 'c, 'p) service_env \<Rightarrow> 'm request \<Rightarrow> ('m, 'c) service \<Rightarrow> ('m, 'c) service" where
  "service_apply env (RqChat rid rq) s = fst (service_chat env rid rq s)"
| "service_apply env (RqComplete rid rq) s = fst (service_complete env rid rq s)"
| "service_apply env (RqConverse rid rq) s = fst (service_converse env rid rq s)"
| "service_apply env (RqEmbed model t) s = fst (service_embed env model t s)"
| "service_apply env (RqMeasure rq) s = fst (service_measure env rq s)"
| "service_apply env (RqLoad rq) s = fst (service_load env rq s)"
| "service_apply env (RqUnload ref) s = fst (service_unload env ref s)"
| "service_apply env (RqRemove ref) s = fst (service_remove env ref s)"
| "service_apply env (RqRegister rt) s = fst (service_register rt s)"
| "service_apply env RqMaintain s = fst (service_maintain env s)"
| "service_apply env (RqCreateSession model system) s = fst (service_create_session env model system s)"
| "service_apply env (RqResetSession k) s = fst (service_reset_session k s)"
| "service_apply env (RqCloseSession k) s = fst (service_close_session k s)"
| "service_apply env RqStats s = fst (service_stats_of env s)"

definition idle_ok :: "('m, 'c) service \<Rightarrow> bool" where
  "idle_ok s \<longleftrightarrow> models_good (sv_models s) \<and> held (sv_models s) = (\<lambda>_. 0) \<and> sessions_ok (sv_sessions s)"

text \<open>What an operation of the model manager leaves of it.\<close>

definition calm :: "(('m, 'c ctx_cache, 'a) models_act) \<Rightarrow> bool" where
  "calm m \<longleftrightarrow> (\<forall>g. models_good g \<longrightarrow> models_good (fst (m g)) \<and> held (fst (m g)) = held g)"

lemma held_same: "same_models g g' \<Longrightarrow> held g' = held g"
  by (simp add: same_models_def held_def)

lemma held_dropped: "held g k = 0 \<Longrightarrow> held (dropped env a k g) = held g"
  by (auto simp: held_def dropped_def lease_count_def fun_eq_iff)

lemma calm_load: "env_before_unload env = cache_erase_model \<Longrightarrow> calm (models_load env rq)"
  unfolding calm_def using load_good by (metis prod.collapse)

lemma calm_maintain:
  fixes env :: "'c ctx_cache models_env"
  assumes env: "env_before_unload env = cache_erase_model"
  shows "calm (maintain env :: ('m, 'c ctx_cache, unit) models_act)"
  unfolding calm_def
proof (intro allI impI conjI)
  fix g :: "('m, 'c ctx_cache) models"
  assume good: "models_good g"
  show "models_good (fst (maintain env g))" by (rule other_operations_good(1) [OF good env])
  have "mg_inv g" using good by (simp add: models_good_def)
  from maintain_spec [OF this, of env] obtain g' ks where "maintain env g = (g', Inr ())" "evictions env g ks g'" by blast
  then show "held (fst (maintain env g)) = held g" using evictions_leases by (simp add: held_def)
qed

lemma calm_unload:
  fixes env :: "'c ctx_cache models_env"
  assumes env: "env_before_unload env = cache_erase_model"
  shows "calm (models_unload env ref :: ('m, 'c ctx_cache, unit) models_act)"
  unfolding calm_def
proof (intro allI impI conjI)
  fix g :: "('m, 'c ctx_cache) models"
  assume good: "models_good g"
  show "models_good (fst (models_unload env ref g))" by (rule other_operations_good(2) [OF good env])
  obtain g' r where run: "models_unload env ref g = (g', r)" by fastforce
  have "mg_inv g" using good by (simp add: models_good_def)
  from models_unload_spec [OF this run] have "same_models g g' \<or> (\<exists>k. held g k = 0 \<and> same_models (dropped env False k g) g')"
    by (cases r) (auto simp: held_def)
  then show "held (fst (models_unload env ref g)) = held g" using run held_same held_dropped by fastforce
qed

text \<open>The operations that leave the residency entries alone.\<close>

lemma calm_residency:
  assumes "\<And>g. mg_residency (fst (m g)) = mg_residency g" and "\<And>g. models_good g \<Longrightarrow> models_good (fst (m g))"
  shows "calm m"
  using assms by (simp add: calm_def held_def)

lemma calm_others:
  assumes env: "env_before_unload env = cache_erase_model"
  shows "calm (models_remove env ref)" "calm (models_resolve env ref)"
    "calm (loaded_list env)" "calm (describe_models env st)"
proof -
  note good = other_operations_good [OF _ env]
  show "calm (models_remove env ref)" by (rule calm_residency [OF _ good(3)]) (simp_all add: models_remove_def act_bind_def split: sum.split)
  show "calm (models_resolve env ref)"
    by (rule calm_residency [OF _ good(5)]) (simp_all add: models_resolve_def act_bind_def Let_def split: sum.split)
  show "calm (loaded_list env)"
    using keeps_list [of _ env] same_refl by (intro calm_residency [OF _ good(6)]) (auto simp: keeps_iff same_models_def)
  show "calm (describe_models env st)"
    by (rule calm_residency [OF _ good(7)]) (simp_all add: describe_models_def act_bind_def split: sum.split)
qed

lemma calm_add_runtime: "calm (models_add_runtime rt)"
proof (rule calm_residency)
  fix g :: "('a, 'b ctx_cache) models"
  show "mg_residency (fst (models_add_runtime rt g)) = mg_residency g"
    by (simp add: models_add_runtime_def on_runtimes_def split: sum.split)
  assume "models_good g"
  moreover have "cache_agrees (fst (models_add_runtime rt g)) = cache_agrees g"
    by (auto simp: models_add_runtime_def on_runtimes_def cache_agrees_def split: sum.split)
  ultimately show "models_good (fst (models_add_runtime rt g))"
    using models_add_runtime_inv [unfolded keeps_iff] unfolding models_good_def by blast
qed

lemmas calm_operations = calm_load calm_add_runtime calm_maintain calm_unload calm_others

text \<open>Between requests.\<close>

lemma idle_models: "idle_ok s \<Longrightarrow> calm m \<Longrightarrow> idle_ok (fst (on_models m s))"
  by (auto simp: idle_ok_def on_models_def calm_def split: prod.split dest!: spec [of _ "sv_models s"])

lemma keeps_idle_models [triples]: "calm m \<Longrightarrow> keeps idle_ok (on_models m)"
  by (simp add: keeps_iff idle_models)

lemma keeps_idle_drop [triples]: "keeps idle_ok (drop_context k)"
  by (auto simp: keeps_iff drop_context_eq idle_ok_def drop_good held_def)

lemma keeps_idle_sessions:
  "(\<And>sm sm'. sessions_ok sm \<Longrightarrow> f sm = Inr sm' \<Longrightarrow> sessions_ok sm') \<Longrightarrow> keeps idle_ok (on_sessions f)"
  by (auto simp: keeps_iff on_sessions_def idle_ok_def split: sum.split)

lemma keeps_idle_create [triples]: "keeps idle_ok (create_session_for env model system)"
proof -
  have "sessions_ok sm'" if "sessions_ok sm" "session_create fresh model system sm = Inr (sm', k)" for sm sm' fresh k
    using session_create_ok that by blast
  then show ?thesis
    by (auto simp: keeps_iff create_session_for_def stamp_def idle_ok_def act_bind_def split: sum.split)
qed

lemma keeps_idle_updates [triples]: "keeps idle_ok (on_sessions (session_reset k))" "keeps idle_ok (on_sessions (session_close k))"
  using session_updates_ok by (blast intro: keeps_idle_sessions)+

lemma keeps_idle_refuse [triples]: "keeps idle_ok (refuse_in_use env ref message)"
  unfolding refuse_in_use_def by (intro triples triple_if)

lemma keeps_idle_services:
  "keeps idle_ok (service_load env rq)" "keeps idle_ok (service_unload env ref)" "keeps idle_ok (service_remove env ref)"
  "keeps idle_ok (service_register rt)" "keeps idle_ok (service_maintain env)"
  "keeps idle_ok (service_create_session env model system)" "keeps idle_ok (service_reset_session k)"
  "keeps idle_ok (service_close_session k)" "keeps idle_ok (service_stats_of env)"
  unfolding service_load_def service_unload_def service_remove_def service_register_def service_maintain_def
    service_create_session_def service_reset_session_def service_close_session_def service_stats_of_def
  by (intro triples calm_operations models_of_unload)+

lemmas idle_services = keeps_idle_services [unfolded keeps_iff, rule_format]

lemma committed_ok: "sessions_ok sm \<Longrightarrow> session_get sm k = Inr session \<Longrightarrow> sessions_ok (committed k session p t sm)"
  unfolding committed_def by (rule session_put_ok)

lemma service_apply_idle:
  assumes idle: "idle_ok s" and can: "canonical_ok (env_canonical (se_models env))" and fresh: "fresh_ids env (sv_sessions s)"
  shows "idle_ok (service_apply env a s)"
proof -
  have good: "models_good (sv_models s)" "held (sv_models s) = (\<lambda>_. 0)" and sess: "sessions_ok (sv_sessions s)"
    using idle by (simp_all add: idle_ok_def)
  show ?thesis
  proof (cases a)
    case (RqChat rid rq)
    from chat_spec [OF good(1) can, of rid rq] obtain s' r where
      1: "service_chat env rid rq s = (s', Inr r)" "models_good (sv_models s')" "held (sv_models s') = held (sv_models s)"
      and 2: "if res_finish_reason r \<in> {FinishStop, FinishLength}
       then res_error_code r = NoError \<and> (\<exists>session p. session_get (sv_sessions s) (chat_session_id rq) = Inr session
         \<and> prompt_of env session rq p
         \<and> sv_sessions s' = committed (chat_session_id rq) session p (res_text r) (sv_sessions s))
       else failed r \<and> sv_sessions s' = sv_sessions s
         \<and> map_of (cc_entries (cache_of s')) (chat_session_id rq) = None" by blast
    then have "sessions_ok (sv_sessions s')" using sess committed_ok by (auto split: if_splits)
    then show ?thesis using 1 good RqChat by (simp add: idle_ok_def)
  next
    case (RqComplete rid rq)
    from completion_spec [OF good(1) can fresh, of rid rq] obtain s' r where "service_complete env rid rq s = (s', Inr r)"
      "models_good (sv_models s')" "held (sv_models s') = held (sv_models s)" "sv_sessions s' = sv_sessions s" by blast
    then show ?thesis using good sess RqComplete by (simp add: idle_ok_def)
  next
    case (RqConverse rid rq)
    from conversation_spec [OF good(1) can, of rid rq] obtain s' r where "service_converse env rid rq s = (s', Inr r)"
      "models_good (sv_models s')" "held (sv_models s') = held (sv_models s)" "sv_sessions s' = sv_sessions s" by blast
    then show ?thesis using good sess RqConverse by (simp add: idle_ok_def)
  next
    case (RqEmbed model t)
    from leased_job_spec [OF embed_leasing [OF can, of model t], of "begin_job s (empty_result [] []) no_request" env] good sess
    show ?thesis by (auto simp: RqEmbed idle_ok_def service_embed_def run_job_def)
  next
    case (RqMeasure rq)
    from leased_job_spec [OF measure_leasing [OF can, of rq], of "begin_job s (empty_result [] []) no_request" env] good sess
    show ?thesis by (auto simp: RqMeasure idle_ok_def service_measure_def run_job_def)
  qed (simp_all add: idle_services [OF idle])
qed

text \<open>A started service and what it reaches, each request in an environment of its own.\<close>

fun run_fresh :: "(('m, 'c, 'p) service_env \<times> 'm request) list \<Rightarrow> ('m, 'c) service \<Rightarrow> bool" where
  "run_fresh [] s \<longleftrightarrow> True"
| "run_fresh ((env, a) # as) s \<longleftrightarrow> canonical_ok (env_canonical (se_models env)) \<and> fresh_ids env (sv_sessions s)
     \<and> run_fresh as (service_apply env a s)"

fun service_run :: "(('m, 'c, 'p) service_env \<times> 'm request) list \<Rightarrow> ('m, 'c) service \<Rightarrow> ('m, 'c) service" where
  "service_run [] s = s"
| "service_run ((env, a) # as) s = service_run as (service_apply env a s)"

lemma service_run_idle: "run_fresh as s \<Longrightarrow> idle_ok s \<Longrightarrow> idle_ok (service_run as s)"
  by (induction as s rule: service_run.induct) (simp_all add: service_apply_idle)

lemma make_models_fields [simp]:
  "r_entries (mg_residency (make_models o1 hw h)) = []" "mg_loaded (make_models o1 hw h) = []" "mg_host (make_models o1 hw h) = h"
  by (simp_all add: make_models_def make_residency_def Let_def)

lemma make_service_idle:
  assumes "options_checked o1 = Inr o2"
  shows "idle_ok (make_service o2 hw :: ('m, 'c) service)"
proof -
  have o: "1 \<le> max_models o2" "1 \<le> max_sessions o2" "1 \<le> max_cached_contexts o2" "2 \<le> max_cached_context_tokens o2"
    using assms by (auto simp: options_checked_def throw_def split: if_splits)
  have "mg_inv (make_models o2 hw (make_cache (max_cached_contexts o2) (max_cached_context_tokens o2)) :: ('m, 'c ctx_cache) models)"
    using o by (intro make_models_inv) simp
  then show ?thesis
    using o by (simp add: idle_ok_def make_service_def models_good_def cache_agrees_def cache_inv_def sessions_ok_def held_def
        lease_count_def fun_eq_iff make_cache_def)
qed

section \<open>Properties\<close>

text \<open>
  C3. A chat request always gets its result, and then the service holds the leases it held before,
  with its tables in agreement. If the result is a finished one, the session holds exactly the
  prepared prompt and the answer that was streamed; otherwise the result carries no tool calls, every
  session is as it was and the context of the session is gone.
\<close>

theorem chat_turn_atomic:
  assumes "models_good (sv_models s)" and "canonical_ok (env_canonical (se_models env))"
  shows "\<exists>s' r. service_chat env rid rq s = (s', Inr r) \<and> models_good (sv_models s') \<and> held (sv_models s') = held (sv_models s)
    \<and> (if res_finish_reason r \<in> {FinishStop, FinishLength}
       then res_error_code r = NoError \<and> (\<exists>session p. session_get (sv_sessions s) (chat_session_id rq) = Inr session
         \<and> prompt_of env session rq p
         \<and> sv_sessions s' = committed (chat_session_id rq) session p (res_text r) (sv_sessions s))
       else failed r \<and> sv_sessions s' = sv_sessions s
         \<and> map_of (cc_entries (cache_of s')) (chat_session_id rq) = None)"
  by (rule chat_spec [OF assms])

text \<open>
  C4. A stateless completion always gets its result and leaves nothing behind: the sessions are the
  ones there were, the leases are given back, and a result that is not finished is a failed one.
\<close>

theorem completion_leaves_nothing:
  assumes "models_good (sv_models s)" and "canonical_ok (env_canonical (se_models env))" and "fresh_ids env (sv_sessions s)"
  shows "\<exists>s' r. service_complete env rid rq s = (s', Inr r) \<and> models_good (sv_models s') \<and> held (sv_models s') = held (sv_models s)
    \<and> sv_sessions s' = sv_sessions s
    \<and> (res_finish_reason r \<in> {FinishStop, FinishLength} \<and> res_error_code r = NoError \<or> failed r)"
  by (rule completion_spec [OF assms])

text \<open>
  C5. A structured conversation always gets its result, gives its lease back and leaves the sessions
  alone. Either its finish reason is a stop and its text and tool calls are those of a reply that
  passed validation against the request, or it failed and hands out no tool calls.
\<close>

theorem conversation_result:
  assumes "models_good (sv_models s)" and "canonical_ok (env_canonical (se_models env))"
  shows "\<exists>s' r. service_converse env rid rq s = (s', Inr r) \<and> models_good (sv_models s') \<and> held (sv_models s') = held (sv_models s)
    \<and> sv_sessions s' = sv_sessions s \<and> (replied env rq r \<and> res_error_code r = NoError \<or> failed r)"
  by (rule conversation_spec [OF assms])

text \<open>
  C2. However long a started service runs and whatever its requests do, between requests no model is
  leased, the loaded models are those of the residency policy, every cached context belongs to a
  loaded model, and the numbers of sessions and of contexts are within the limits.
\<close>

theorem service_invariant:
  assumes "options_checked o1 = Inr o2" and "run_fresh as (make_service o2 hw)"
  shows "let s = service_run as (make_service o2 hw) in
    (\<forall>k. held (sv_models s) k = 0)
    \<and> dom (map_of (mg_loaded (sv_models s))) = dom (map_of (r_entries (mg_residency (sv_models s))))
    \<and> (\<forall>k e. map_of (cc_entries (cache_of s)) k = Some e \<longrightarrow> ce_model e \<in> dom (map_of (mg_loaded (sv_models s))))
    \<and> int (length (cc_entries (cache_of s))) \<le> cc_max_count (cache_of s)
    \<and> int (length (sm_sessions (sv_sessions s))) \<le> sm_limit (sv_sessions s)"
proof -
  let ?s = "service_run as (make_service o2 hw)"
  have idle: "idle_ok ?s" by (rule service_run_idle [OF assms(2) make_service_idle [OF assms(1)]])
  then have "mg_inv (sv_models ?s)" by (simp add: idle_ok_def models_good_def)
  then have tables: "dom (map_of (mg_loaded (sv_models ?s))) = dom (map_of (r_entries (mg_residency (sv_models ?s))))"
    by (rule mg_inv_parts(6))
  have "\<forall>k. held (sv_models ?s) k = 0" "int (length (sm_sessions (sv_sessions ?s))) \<le> sm_limit (sv_sessions ?s)"
    using idle by (simp_all add: idle_ok_def sessions_ok_def)
  moreover have "cache_agrees (sv_models ?s)" using idle by (simp add: idle_ok_def models_good_def)
  then have "\<forall>k e. map_of (cc_entries (cache_of ?s)) k = Some e \<longrightarrow> ce_model e \<in> dom (map_of (mg_loaded (sv_models ?s)))"
    "int (length (cc_entries (cache_of ?s))) \<le> cc_max_count (cache_of ?s)"
    unfolding cache_agrees_def cache_of_def cache_inv_def by blast+
  ultimately show ?thesis unfolding Let_def using tables by blast
qed

section \<open>A service with one loaded model\<close>

definition ready_models :: "(nat, nat ctx_cache) models" where
  "ready_models = \<lparr>mg_runtimes = mg_runtimes sample_models, mg_residency = mg_residency sample_models,
     mg_loaded = mg_loaded sample_models, mg_remembered = mg_remembered sample_models, mg_host = make_cache 4 16384,
     mg_observed = [], mg_observed_at = 0, mg_tick = 0\<rparr>"

definition ready_service :: "(nat, nat) service" where
  "ready_service = \<lparr>sv_models = ready_models, sv_sessions = \<lparr>sm_limit = 2, sm_sessions =
       [(qs ''s'', \<lparr>sess_id = qs ''s'', sess_model_id = qs ''m'', sess_messages = []\<rparr>)]\<rparr>, sv_events = [], sv_tick = 0\<rparr>"

definition ready_env :: "(nat, nat, unit) service_env" where
  "ready_env = \<lparr>se_options = default_service_options,
     se_models = \<lparr>env_options = default_service_options, env_canonical = Inr, env_resolve = env_resolve sample_env,
       env_verify = env_verify sample_env, env_remove = (\<lambda>_. Inr ()), env_list = \<lparr>ml_models = [], ml_issues = []\<rparr>,
       env_install = env_install sample_env, env_pull = env_pull sample_env, env_file_path = (\<lambda>d f. d @ f),
       env_path_exists = (\<lambda>_. True), env_before_unload = (\<lambda>_ h. h), env_clock = (\<lambda>_. 9), env_ram = (\<lambda>_. None),
       env_cancelled = (\<lambda>_. False), env_load_checks = (\<lambda>_ _. False)\<rparr>,
     se_qt = no_regex, se_catalog = generation_catalog, se_compact = (\<lambda>_. []), se_parse = (\<lambda>_. Some (JObj [])),
     se_digest = (\<lambda>s. s), se_through_utf8 = (\<lambda>s. s), se_fresh = (\<lambda>_. qs ''t''), se_cancelled = (\<lambda>_. False),
     se_prepare_checks = (\<lambda>_ _. False), se_consumer = None, se_tokenize = (\<lambda>_ _ _. Inr [1]),
     se_context = (\<lambda>_ _. Inr (Some 7)),
     se_generate = (\<lambda>_ _ _ _. GenText (qs ''hi'') (\<lambda>_. GenDone (Inr \<lparr>rr_finish = FinishStop, rr_generated = 1, rr_cached = 0\<rparr>))),
     se_prepare = (\<lambda>_ _ _. Inr \<lparr>cp_tokens = [1], cp_stop = [], cp_state = (), cp_input_tokens = 0\<rparr>),
     se_converse = (\<lambda>_ _ _ _. GenDone (Inr \<lparr>rr_finish = FinishStop, rr_generated = 1, rr_cached = 0\<rparr>)),
     se_reply = (\<lambda>_ _ _ _. Inr sample_reply), se_embed = (\<lambda>_ _. None)\<rparr>"

lemma ready_good: "models_good ready_models"
proof -
  have row: "row_ok ready_models k i" if "row_ok sample_models k i" for k i
    using that unfolding row_ok_def ready_models_def by simp
  have "mg_inv ready_models"
    using sample_models_inv row unfolding mg_inv_def by (simp add: ready_models_def)
  moreover have "cache_agrees ready_models"
    by (simp add: cache_agrees_def ready_models_def cache_inv_def make_cache_def sample_models_def sample_info_def)
  ultimately show ?thesis by (simp add: models_good_def)
qed

lemma ready_env_ok: "canonical_ok (env_canonical (se_models ready_env))" "fresh_ids ready_env (sv_sessions ready_service)"
  by (simp_all add: ready_env_def canonical_ok_def fresh_ids_def ready_service_def)

lemma acquire_loaded_same:
  assumes inv: "mg_inv g" and can: "canonical_ok (env_canonical env)" and i: "map_of (mg_loaded g) k = Some i"
    and run: "models_acquire env k ka g = (g', Inr m)"
  shows "mg_host g' = mg_host g \<and> mg_runtimes g' = mg_runtimes g"
proof -
  from acquire_steps [OF run] obtain uri g2 info r' where uri: "model_uri k = Inr uri"
    and ld: "models_load env \<lparr>load_model = uri, load_context_tokens = 0, load_options = [], load_keep_alive = ka\<rparr> g = (g2, Inr info)"
    and same: "same_models (g2\<lparr>mg_residency := r'\<rparr>) g'" by metis
  from models_load_spec [OF inv ld] obtain ks g1 where
    out: "load_outcome env \<lparr>load_model = uri, load_context_tokens = 0, load_options = [], load_keep_alive = ka\<rparr> g ks g1 g2 (Inr info)"
    by blast
  have "env_canonical env uri = Inr uri" "model_id uri = Inr k" using can model_uri_id [OF uri] by (simp_all add: canonical_ok_def)
  then have "refreshed k ka g g2" using out i by (auto simp: load_outcome_def)
  then show ?thesis using same by (auto simp: refreshed_def same_models_def)
qed

lemma ready_acquire:
  "\<exists>g m. models_acquire (models_of ready_env) (qs ''m'') (-1) ready_models = (g, Inr m)
     \<and> mg_host g = make_cache 4 16384 \<and> lm_spec m = sample_spec"
proof -
  have inv: "mg_inv ready_models" using ready_good by (simp add: models_good_def)
  have can: "canonical_ok (env_canonical (models_of ready_env))" using ready_env_ok by simp
  have i: "map_of (mg_loaded ready_models) (qs ''m'') = Some sample_info" by (simp add: ready_models_def sample_models_def)
  obtain g m where acq: "models_acquire (models_of ready_env) (qs ''m'') (-1) ready_models = (g, Inr m)"
    using acquire_loaded [OF inv can i valid_m, of "-1"] by auto
  have "mg_host g = make_cache 4 16384" "mg_runtimes g = mg_runtimes sample_models"
    using acquire_loaded_same [OF inv can i acq] by (simp_all add: ready_models_def)
  moreover have "map_of (rm_models (mg_runtimes g)) (qs ''m'') = Some m"
    using models_acquire_spec [OF inv can acq] by simp
  ultimately have "lm_spec m = sample_spec" by (auto simp: sample_models_def)
  then show ?thesis using acq \<open>mg_host g = make_cache 4 16384\<close> by blast
qed

abbreviation ready_job :: "(nat, nat) job" where
  "ready_job \<equiv> begin_job ready_service (empty_result [] (qs ''s'')) short_request"

lemma ready_prompt:
  "prepare_prompt no_regex generation_catalog (\<lambda>_. False) (\<lambda>_. Inr [1]) 2048
     \<lparr>sess_id = qs ''s'', sess_model_id = qs ''m'', sess_messages = []\<rparr> short_request 1048576
   = Inr \<lparr>pc_messages = [user_message (qs ''three'')], pc_tokens = [1], pc_dropped = 0\<rparr>"
proof -
  have valid: "validate_generation_options no_regex generation_catalog (chat_options short_request) [] = Inr ()"
    using generation_read(1) [OF generation_catalog_ok short_request_ok, of no_regex]
    by (simp add: validate_generation_options_def)
  show ?thesis
    using short_prompt valid
    by (simp add: prepare_prompt_def require_def Let_def chat_options_ok_def prepare_loop.simps first_turn_def)
      (simp add: short_request_def default_generation_options_def)
qed

lemma ready_env_fields [simp]:
  "se_options ready_env = default_service_options" "se_qt ready_env = no_regex" "se_catalog ready_env = generation_catalog"
  "se_cancelled ready_env = (\<lambda>_. False)" "se_prepare_checks ready_env = (\<lambda>_ _. False)" "se_consumer ready_env = None"
  "se_tokenize ready_env = (\<lambda>_ _ _. Inr [1])" "se_context ready_env = (\<lambda>_ _. Inr (Some 7))"
  "se_generate ready_env = (\<lambda>_ _ _ _. GenText (qs ''hi'') (\<lambda>_. GenDone (Inr \<lparr>rr_finish = FinishStop, rr_generated = 1, rr_cached = 0\<rparr>)))"
  by (simp_all add: ready_env_def)

lemma default_input_limit [simp]: "max_input_characters default_service_options = 1048576"
  by (simp add: default_service_options_def)

lemma ready_chat_body: "\<exists>j'. chat_body ready_env None ready_job = (j', Inr ())"
proof -
  obtain g m where acq: "models_acquire (models_of ready_env) (qs ''m'') (-1) ready_models = (g, Inr m)"
    and g: "mg_host g = make_cache 4 16384" "lm_spec m = sample_spec" using ready_acquire by blast
  have request: "chat_session_id short_request = qs ''s''" "chat_keep_alive short_request = -1" "stop (chat_options short_request) = []"
    by (simp_all add: short_request_def default_generation_options_def)
  show ?thesis
    using acq g
    by (simp add: act_bind_def ready_service_def chat_body_def poll_def stamp_def chat_turn_def request get_session_def session_get_def lease_def on_models_def
      generate_turn_def prepare_chat_def sample_spec_def ready_prompt set_result_def acquire_context_def on_cache_def
      cache_acquire_def Let_def make_cache_def evict_loop.simps must_evict_def chat_stream_def notify_def deliver_def
      chat_text_def feed_filter_def sf_push_def make_filter_def held_back_def emit_text_def flush_filter_def sf_finish_def
      check_terminal_def require_def record_usage_def commit_turn_def on_sessions_def set_messages_def)
qed
lemma ready_chat:
  "\<exists>s' r. service_chat ready_env [] short_request ready_service = (s', Inr r) \<and> res_finish_reason r \<in> {FinishStop, FinishLength}"
proof -
  obtain j1 where body: "chat_body ready_env None ready_job = (j1, Inr ())" using ready_chat_body by blast
  have good: "models_good (sv_models ready_job)" and idle: "jb_leased ready_job = []" using ready_good by (simp_all add: ready_service_def)
  note out = chat_body_chat [OF good idle ready_env_ok(1) body]
  have l1: "lease_state (held (sv_models ready_service)) j1" and temp: "jb_temporary j1 = []"
    using out by (simp_all add: turn_outcome_def)
  have "models_good (sv_models ready_service)" using ready_good by (simp add: ready_service_def)
  from job_tail [OF body l1 held_nonneg [OF this]] temp obtain j' where
    "chat_job ready_env None ready_job = (j', Inr (jb_result j1))" by auto
  moreover have "res_finish_reason (jb_result j1) \<in> {FinishStop, FinishLength}" using out by (simp add: turn_outcome_def)
  moreover have "chat_session_id short_request = qs ''s''" by (simp add: short_request_def)
  ultimately show ?thesis by (simp add: service_chat_def run_job_def)
qed

definition ready_run :: "((nat, nat, unit) service_env \<times> nat request) list" where
  "ready_run = [(ready_env, RqCreateSession (qs ''model://m'') []),
     (ready_env\<lparr>se_fresh := \<lambda>_. qs ''u''\<rparr>, RqChat [] (short_request\<lparr>chat_session_id := qs ''t''\<rparr>))]"

theorem chat_turn_atomic_witness:
  "\<exists>s' r session p. service_chat ready_env [] short_request ready_service = (s', Inr r) \<and> res_error_code r = NoError
     \<and> sv_sessions s' = committed (qs ''s'') session p (res_text r) (sv_sessions ready_service)"
proof -
  obtain s' r where run: "service_chat ready_env [] short_request ready_service = (s', Inr r)"
    "res_finish_reason r \<in> {FinishStop, FinishLength}" using ready_chat by blast
  have "models_good (sv_models ready_service)" using ready_good by (simp add: ready_service_def)
  from chat_turn_atomic [OF this ready_env_ok(1), of "[]" short_request] run
  show ?thesis by (auto simp: short_request_def)
qed

theorem completion_leaves_nothing_witness:
  "\<exists>s' r. service_complete ready_env [] \<lparr>completion_model = qs ''model://m'', completion_messages = [user_message (qs ''hi'')],
     completion_options = default_generation_options, completion_keep_alive = -1\<rparr> ready_service = (s', Inr r)
     \<and> sv_sessions s' = sv_sessions ready_service"
proof -
  have "models_good (sv_models ready_service)" using ready_good by (simp add: ready_service_def)
  from completion_leaves_nothing [OF this ready_env_ok] show ?thesis by metis
qed

theorem conversation_result_witness:
  "\<exists>s' r. service_converse ready_env [] sample_request ready_service = (s', Inr r) \<and> sv_sessions s' = sv_sessions ready_service"
proof -
  have "models_good (sv_models ready_service)" using ready_good by (simp add: ready_service_def)
  from conversation_result [OF this ready_env_ok(1)] show ?thesis by metis
qed

theorem service_invariant_witness:
  "\<exists>s. s = service_run ready_run (make_service default_service_options empty_hardware)
     \<and> held (sv_models s) (qs ''m'') = 0 \<and> int (length (cc_entries (cache_of s))) \<le> cc_max_count (cache_of s)"
proof -
  have opts: "options_checked default_service_options = Inr default_service_options"
    by (simp add: options_checked_def default_service_options_def trimmed_def is_space_def qs_def qc_def)
  let ?s0 = "make_service default_service_options empty_hardware :: (nat, nat) service"
  let ?e1 = "ready_env\<lparr>se_fresh := \<lambda>_. qs ''u''\<rparr>"
  let ?s1 = "service_apply ready_env (RqCreateSession (qs ''model://m'') []) ?s0"
  have sessions: "sv_sessions ?s1 = \<lparr>sm_limit = 128, sm_sessions = [(qs ''t'', \<lparr>sess_id = qs ''t'', sess_model_id = qs ''abc'', sess_messages = []\<rparr>)]\<rparr>"
    by (simp add: act_bind_def service_create_session_def on_models_def models_resolve_def ready_env_def models_of_def sample_env_def with_registry_def make_service_def Let_def require_chat_def require_def sample_info_def sample_manifest_def create_session_for_def stamp_def session_create_def size_t_def default_service_options_def ohas_def)
  have "canonical_ok (env_canonical (se_models ?e1))" using ready_env_ok(1) by (simp add: ready_env_def)
  moreover have "fresh_ids ready_env (sv_sessions ?s0)" "fresh_ids ?e1 (sv_sessions ?s1)"
    unfolding sessions by (simp_all add: fresh_ids_def make_service_def ready_env_def)
  ultimately have "run_fresh ready_run ?s0" using ready_env_ok(1) by (simp add: ready_run_def del: service_apply.simps)
  from service_invariant [OF opts this] show ?thesis by (simp add: Let_def)
qed

end
