(* ===== verification/Ipc.thy ===== *)
theory Ipc
  imports ModelManager Parameters
begin

text \<open>
  The local socket server (\<^verbatim>\<open>src/service/LocalIpcServer.cpp\<close>, with the handles of
  \<^verbatim>\<open>src/service/Rpc.h\<close>): newline-delimited JSON requests, the operations they start
  on the service, the events and replies that come back. The state of one connection is the pair of
  its \<open>client\<close> and of the \<open>world\<close> around it: the cancellation flags, the calls made on
  the service and on the extension handler, and their results. The service, the JSON reader and
  printer and the socket below are observed through \<open>ipc_env\<close> and through the events of
  \<open>ipc_step\<close>; one event is one callback of the server's thread or one critical section
  of a worker.
\<close>

section \<open>Data\<close>

record ipc_options =
  max_connections :: int
  max_in_flight :: int
  max_frame_bytes :: int
  max_buffered_output :: int

definition default_ipc_options :: ipc_options where
  "default_ipc_options = \<lparr>max_connections = 16, max_in_flight = 64, max_frame_bytes = 1024 * 1024,
     max_buffered_output = 4 * 1024 * 1024\<rparr>"

record pull_progress =
  pp_model :: qstring
  pp_file :: qstring
  pp_received :: int
  pp_total :: int

record rpc_handle =
  h_request :: qstring
  h_token :: cancellation_token
  h_valid :: bool

text \<open>What a request asks of the service, or of the extension handler.\<close>

datatype ipc_call = ListInstalled | InstallPackage qstring | PullModel qstring | RemoveModel qstring
  | ResolveModel qstring | VerifyModel qstring | ListLoaded | LoadModel model_load_request
  | UnloadModel qstring | CreateSession qstring qstring | GetSession qstring | ResetSession qstring
  | CloseSession qstring | GetStats | Chat chat_request | Rpc qstring json_object qstring

text \<open>The values of the futures of these calls.\<close>

datatype ipc_value = VDone | VRecord model_record | VListing model_listing
  | VVerification model_verification | VInfo model_info | VInfos "model_info list"
  | VSessionId qstring | VSession session_snapshot | VStats service_stats | VJson json

text \<open>A call that was made: for which request of which client, and the handle it returned. Its
  position in \<open>wd_calls\<close> names its future; \<open>wd_results\<close> holds the futures that
  are ready. A chat has no watched future: its entry says that its last callback has run.\<close>

record issued =
  is_call :: ipc_call
  is_id :: qstring
  is_client :: nat
  is_handle :: rpc_handle

record world =
  wd_flags :: flag_store
  wd_calls :: "issued list"
  wd_results :: "nat \<Rightarrow> ipc_value res option"
  wd_tick :: nat

record rpc_inbox =
  in_events :: "json_object list"
  in_bytes :: int
  in_closed :: bool
  in_overflow :: bool

record watch =
  wt_id :: qstring
  wt_call :: nat
  wt_operation :: qstring

text \<open>\<open>cl_unsent\<close> is \<^verbatim>\<open>bytesToWrite()\<close>; \<open>cl_frames\<close> and \<open>cl_sent\<close>
  are the histories of the frames taken from the input and of the objects written to the socket.\<close>

record client =
  cl_number :: nat
  cl_connected :: bool
  cl_unsent :: int
  cl_input :: "byte list"
  cl_ids :: "qstring set"
  cl_generations :: "(qstring, cancellation_token) omap"
  cl_pending :: "watch list"
  cl_inbox :: rpc_inbox
  cl_frames :: "byte list list"
  cl_sent :: "json_object list"

type_synonym conn = "client \<times> world"

record ipc_env =
  ie_options :: ipc_options
  ie_qt :: qt
  ie_catalog :: catalog
  ie_hardware :: hardware_info
  ie_compact :: "json_object \<Rightarrow> byte list"
  ie_parse :: "byte list \<Rightarrow> json option"
  ie_rpc :: bool
  ie_submit :: "nat \<Rightarrow> ipc_call \<Rightarrow> rpc_handle res"

definition empty_inbox :: rpc_inbox where
  "empty_inbox = \<lparr>in_events = [], in_bytes = 0, in_closed = False, in_overflow = False\<rparr>"

definition new_client :: "nat \<Rightarrow> client" where
  "new_client n = \<lparr>cl_number = n, cl_connected = True, cl_unsent = 0, cl_input = [], cl_ids = {},
     cl_generations = [], cl_pending = [], cl_inbox = empty_inbox, cl_frames = [], cl_sent = []\<rparr>"

section \<open>Messages\<close>

definition ipc_error_object :: "error_code \<Rightarrow> qstring \<Rightarrow> json_object" where
  "ipc_error_object code message = jobj [(''code'', JStr (error_name code)), (''message'', JStr message)]"

definition jint :: "int \<Rightarrow> json" where
  "jint n = JNum (of_int n)"

text \<open>\<^verbatim>\<open>double(x)\<close> of a 64-bit integer.\<close>

definition jdouble :: "int \<Rightarrow> json" where
  "jdouble n = (case round_dbl (of_int n) of Dbl x \<Rightarrow> JNum x | NonFinite \<Rightarrow> JNull)"

definition result_object :: "generation_result \<Rightarrow> json_object" where
  "result_object r =
     (let out = jobj [(''request_id'', JStr (res_request_id r)), (''session_id'', JStr (res_session_id r)),
        (''text'', JStr (res_text r)), (''finish_reason'', JStr (finish_name (res_finish_reason r))),
        (''usage'', JObj (jobj [(''prompt_tokens'', jint (prompt_tokens (res_usage r))),
           (''generated_tokens'', jint (generated_tokens (res_usage r))),
           (''cached_tokens'', jint (cached_tokens (res_usage r))),
           (''dropped_messages'', jint (dropped_messages (res_usage r)))]))]
      in if res_error_code r \<noteq> NoError
         then oput (qs ''error'') (JObj (ipc_error_object (res_error_code r) (res_error_message r))) out else out)"

definition model_object :: "model_info \<Rightarrow> json_object res" where
  "model_object m = bindr (memory_estimate_object (mi_memory m)) (\<lambda>memory.
     Inr (oput (qs ''active_requests'') (jint (mi_active m))
       (oput (qs ''expires_in_ms'') (jint (mi_expires_in m))
       (oput (qs ''keep_alive_ms'') (jint (mi_keep_alive m))
       (oput (qs ''memory'') (JObj memory)
       (oput (qs ''execution'') (JObj (execution_object (mi_execution m)))
       (oput (qs ''options'') (JObj (mi_options m))
       (oput (qs ''context_tokens'') (jint (mi_context_tokens m)) (model_record_object (mi_model m))))))))))"

definition session_object :: "session_snapshot \<Rightarrow> json_object res" where
  "session_object session = bindr (model_uri (sess_model_id session)) (\<lambda>uri.
     Inr (jobj [(''session_id'', JStr (sess_id session)), (''model'', JStr uri),
       (''messages'', JArr (map (\<lambda>m. JObj (jobj [(''role'', JStr (role_name (msg_role m))),
          (''content'', JStr (msg_content m))])) (sess_messages session)))]))"

definition stats_object :: "service_stats \<Rightarrow> json_object" where
  "stats_object s = jobj [(''loaded_models'', jint (loaded_models s)), (''sessions'', jint (stat_sessions s)),
     (''cached_contexts'', jint (cached_contexts s)), (''reserved_context_tokens'', jint (reserved_context_tokens s)),
     (''cache_evictions'', dbl_of_u64 (cache_evictions s)), (''resident_estimated_bytes'', dbl_of_u64 (resident_bytes s)),
     (''memory_budget_bytes'', dbl_of_u64 (stat_memory_budget_bytes s)),
     (''available_ram_bytes'', if available_ram_known s then dbl_of_u64 (available_ram_bytes s) else JNull),
     (''default_keep_alive_ms'', jint (default_keep_alive_ms s)), (''model_loads'', dbl_of_u64 (model_loads s)),
     (''model_evictions'', dbl_of_u64 (model_evictions s))]"

text \<open>The value of a future as the reply reports it; one reporter per type.\<close>

definition value_json :: "ipc_value \<Rightarrow> json res" where
  "value_json v = (case v of
     VDone \<Rightarrow> Inr (JObj [])
   | VRecord m \<Rightarrow> Inr (JObj (model_record_object m))
   | VListing l \<Rightarrow> Inr (JObj (model_listing_object l))
   | VVerification r \<Rightarrow> Inr (JObj (verification_object r))
   | VInfo m \<Rightarrow> bindr (model_object m) (\<lambda>o1. Inr (JObj o1))
   | VInfos ms \<Rightarrow> bindr (fold_res (\<lambda>m acc. bindr (model_object m) (\<lambda>o1. Inr (acc @ [JObj o1]))) ms []) (\<lambda>xs. Inr (JArr xs))
   | VSessionId k \<Rightarrow> Inr (JObj (jobj [(''session_id'', JStr k)]))
   | VSession k \<Rightarrow> bindr (session_object k) (\<lambda>o1. Inr (JObj o1))
   | VStats s \<Rightarrow> Inr (JObj (stats_object s))
   | VJson j \<Rightarrow> Inr j)"

section \<open>Reading requests\<close>

definition string_field :: "json_object \<Rightarrow> string \<Rightarrow> bool \<Rightarrow> qstring res" where
  "string_field o1 key required =
     (let v = jvalue o1 key in
      if \<not> required \<and> v = JUndefined then Inr []
      else if \<not> is_string v \<or> (required \<and> trimmed (to_string v) = [])
      then throwq InvalidArgument (qs key @ qs '' must be a nonempty string'')
      else Inr (to_string v))"

definition number_field :: "json_object \<Rightarrow> string \<Rightarrow> rat \<Rightarrow> rat \<Rightarrow> rat \<Rightarrow> bool \<Rightarrow> rat res" where
  "number_field o1 key fallback least most integral =
     (let v = jvalue o1 key; n = to_double v in
      if v = JUndefined then Inr fallback
      else if \<not> is_double v \<or> n < least \<or> n > most \<or> (integral \<and> of_int \<lfloor>n\<rfloor> \<noteq> n)
      then throwq InvalidArgument (qs key @ qs '' has an invalid numeric value'')
      else Inr n)"

definition object_field :: "json_object \<Rightarrow> string \<Rightarrow> json_object res" where
  "object_field o1 key =
     (let v = jvalue o1 key in
      if v \<noteq> JUndefined \<and> \<not> is_object v then throwq InvalidArgument (qs key @ qs '' must be an object'')
      else Inr (to_object v))"

definition line_size :: "ipc_env \<Rightarrow> json_object \<Rightarrow> int" where
  "line_size env o1 = int (length (ie_compact env o1 @ [10]))"

section \<open>The socket\<close>

definition cancel_all :: "client \<Rightarrow> world \<Rightarrow> world" where
  "cancel_all c w = w\<lparr>wd_flags := fold (\<lambda>(_, t). cancel t) (cl_generations c) (wd_flags w)\<rparr>"

text \<open>\<^verbatim>\<open>abort()\<close> drops what is not written and emits \<^verbatim>\<open>disconnected\<close>, whose
  handler cancels the generations and closes the inbox.\<close>

definition socket_disconnected :: "conn \<Rightarrow> conn" where
  "socket_disconnected = (\<lambda>(c, w). (c\<lparr>cl_inbox := (cl_inbox c)\<lparr>in_closed := True\<rparr>\<rparr>, cancel_all c w))"

definition socket_abort :: "conn \<Rightarrow> conn" where
  "socket_abort = (\<lambda>(c, w). if cl_connected c
     then socket_disconnected (c\<lparr>cl_connected := False, cl_unsent := 0\<rparr>, w) else (c, w))"

definition disconnect_client :: "conn \<Rightarrow> conn" where
  "disconnect_client = (\<lambda>(c, w).
     (c\<lparr>cl_inbox := (cl_inbox c)\<lparr>in_closed := True, in_events := []\<rparr>, cl_generations := [],
        cl_connected := False, cl_unsent := 0\<rparr>, cancel_all c w))"

definition ipc_send :: "ipc_env \<Rightarrow> json_object \<Rightarrow> conn \<Rightarrow> conn" where
  "ipc_send env v = (\<lambda>(c, w).
     if \<not> cl_connected c then (c, w)
     else if cl_unsent c + line_size env v > max_buffered_output (ie_options env)
     then (case socket_abort (c, w) of (c', w') \<Rightarrow> (c', cancel_all c' w'))
     else (c\<lparr>cl_unsent := cl_unsent c + line_size env v, cl_sent := cl_sent c @ [v]\<rparr>, w))"

definition release_id :: "qstring \<Rightarrow> conn \<Rightarrow> conn" where
  "release_id k = (\<lambda>(c, w). (c\<lparr>cl_ids := cl_ids c - {k}\<rparr>, w))"

definition ipc_reply :: "ipc_env \<Rightarrow> qstring \<Rightarrow> json \<Rightarrow> conn \<Rightarrow> conn" where
  "ipc_reply env k v s = release_id k (ipc_send env (jobj [(''id'', JStr k), (''result'', v)]) s)"

text \<open>The two catch clauses around every operation: the program's own error is reported as it is,
  any other standard exception as a failure of the runtime. (Neither the service nor an extension
  handler throws anything else; the server would not catch it.)\<close>

fun reported_code :: "exn \<Rightarrow> error_code" where
  "reported_code (Error code m) = code"
| "reported_code e = RuntimeFailure"

fun reported_message :: "exn \<Rightarrow> qstring" where
  "reported_message (Error code m) = m"
| "reported_message (StdException m) = m"
| "reported_message UnknownException = []"

definition ipc_error :: "ipc_env \<Rightarrow> qstring \<Rightarrow> exn \<Rightarrow> bool \<Rightarrow> conn \<Rightarrow> conn" where
  "ipc_error env k e release s =
     (let s' = ipc_send env (jobj [(''id'', JStr k),
        (''error'', JObj (ipc_error_object (reported_code e) (reported_message e)))]) s
      in if release then release_id k s' else s')"

section \<open>Events and replies\<close>

definition is_done :: "json_object \<Rightarrow> bool" where
  "is_done e \<longleftrightarrow> jvalue e ''event'' = JStr (qs ''done'')"

definition send_event :: "ipc_env \<Rightarrow> json_object \<Rightarrow> conn \<Rightarrow> conn" where
  "send_event env e s = (case ipc_send env e s of (c, w) \<Rightarrow>
     if is_done e
     then (c\<lparr>cl_ids := cl_ids c - {to_string (jvalue e ''id'')},
            cl_generations := odel (to_string (jvalue e ''request_id'')) (cl_generations c)\<rparr>, w)
     else (c, w))"

definition drain :: "ipc_env \<Rightarrow> conn \<Rightarrow> conn \<times> bool" where
  "drain env = (\<lambda>(c, w).
     let inbox = cl_inbox c; c1 = c\<lparr>cl_inbox := inbox\<lparr>in_events := [], in_bytes := 0\<rparr>\<rparr> in
     if in_overflow inbox \<or> in_closed inbox
     then (case socket_abort (c1, w) of (c2, w2) \<Rightarrow> ((c2, cancel_all c2 w2), False))
     else (let s = fold (send_event env) (in_events inbox) (c1, w) in (s, cl_connected (fst s))))"

text \<open>A watched future: nothing when it is not ready; else every event first, then the reply. The
  boolean says that the watch is over.\<close>

definition run_watch :: "ipc_env \<Rightarrow> watch \<Rightarrow> conn \<Rightarrow> conn \<times> bool" where
  "run_watch env k s = (case wd_results (snd s) (wt_call k) of
     None \<Rightarrow> (s, False)
   | Some r \<Rightarrow> (case drain env s of
       (s1, False) \<Rightarrow> (s1, True)
     | ((c, w), True) \<Rightarrow>
         let s2 = (if wt_operation k \<noteq> [] then c\<lparr>cl_generations := odel (wt_operation k) (cl_generations c)\<rparr> else c, w) in
         (case bindr r value_json of
            Inr v \<Rightarrow> (ipc_reply env (wt_id k) v s2, True)
          | Inl e \<Rightarrow> (ipc_error env (wt_id k) e True s2, True))))"

fun run_pending :: "ipc_env \<Rightarrow> watch list \<Rightarrow> conn \<Rightarrow> conn \<times> watch list" where
  "run_pending env [] s = (s, [])"
| "run_pending env (k # ks) s = (case run_watch env k s of (s1, ready) \<Rightarrow>
     (case run_pending env ks s1 of (s2, rest) \<Rightarrow> (s2, if ready then rest else k # rest)))"

definition poll_client :: "ipc_env \<Rightarrow> conn \<Rightarrow> conn \<times> bool" where
  "poll_client env s =
     (if \<not> cl_connected (fst s) then (disconnect_client s, False)
      else case drain env s of
        (s1, False) \<Rightarrow> (disconnect_client s1, False)
      | (s1, True) \<Rightarrow> (case run_pending env (cl_pending (fst s1)) s1 of
          ((c, w), rest) \<Rightarrow> ((c\<lparr>cl_pending := rest\<rparr>, w), True)))"

section \<open>Requests\<close>

definition issue :: "ipc_env \<Rightarrow> qstring \<Rightarrow> ipc_call \<Rightarrow> (conn, nat \<times> rpc_handle) act" where
  "issue env k call = (\<lambda>(c, w). let w1 = w\<lparr>wd_tick := Suc (wd_tick w)\<rparr> in
     case ie_submit env (wd_tick w) call of
       Inl e \<Rightarrow> ((c, w1), Inl e)
     | Inr h \<Rightarrow> ((c, w1\<lparr>wd_calls := wd_calls w @ [\<lparr>is_call = call, is_id = k, is_client = cl_number c, is_handle = h\<rparr>]\<rparr>),
         Inr (length (wd_calls w), h)))"

definition watch_call :: "qstring \<Rightarrow> nat \<Rightarrow> qstring \<Rightarrow> conn \<Rightarrow> conn" where
  "watch_call k n operation = (\<lambda>(c, w).
     (c\<lparr>cl_pending := cl_pending c @ [\<lparr>wt_id = k, wt_call = n, wt_operation = operation\<rparr>]\<rparr>, w))"

definition own_generation :: "ipc_env \<Rightarrow> qstring \<Rightarrow> rpc_handle \<Rightarrow> conn \<Rightarrow> conn" where
  "own_generation env k h = (\<lambda>(c, w). ipc_send env
     (jobj [(''id'', JStr k), (''event'', JStr (qs ''accepted'')), (''request_id'', JStr (h_request h))])
     (c\<lparr>cl_generations := oput (h_request h) (h_token h) (cl_generations c)\<rparr>, w))"

definition watched :: "ipc_env \<Rightarrow> qstring \<Rightarrow> ipc_call \<Rightarrow> (conn, unit) act" where
  "watched env k call = act_bind (issue env k call) (\<lambda>(n, h). modify (watch_call k n []))"

definition start_pull :: "ipc_env \<Rightarrow> qstring \<Rightarrow> json_object \<Rightarrow> (conn, unit) act" where
  "start_pull env k p =
     act_bind (lift_res (require (length p = 1) InvalidArgument ''models.pull accepts only a model reference'')) (\<lambda>_.
     act_bind (lift_res (string_field p ''model'' True)) (\<lambda>model.
     act_bind (issue env k (PullModel model)) (\<lambda>(n, h).
     act_bind (modify (own_generation env k h)) (\<lambda>_. modify (watch_call k n (h_request h))))))"

definition start_chat :: "ipc_env \<Rightarrow> qstring \<Rightarrow> json_object \<Rightarrow> (conn, unit) act" where
  "start_chat env k p =
     act_bind (lift_res (string_field p ''session_id'' True)) (\<lambda>session.
     act_bind (lift_res (string_field p ''prompt'' True)) (\<lambda>prompt.
     act_bind (lift_res (parse_keep_alive (jvalue p ''keep_alive''))) (\<lambda>keep.
     act_bind (lift_res (object_field p ''options'')) (\<lambda>o1.
     act_bind (lift_res (generation_options_from_json (ie_qt env) (ie_catalog env) o1)) (\<lambda>options.
     act_bind (issue env k (Chat \<lparr>chat_session_id = session, chat_prompt = prompt, chat_options = options,
        chat_keep_alive = keep\<rparr>)) (\<lambda>(n, h). modify (own_generation env k h)))))))"

definition start_rpc :: "ipc_env \<Rightarrow> qstring \<Rightarrow> qstring \<Rightarrow> json_object \<Rightarrow> qstring \<Rightarrow> (conn, unit) act" where
  "start_rpc env k verb p auth =
     act_bind (issue env k (Rpc verb p auth)) (\<lambda>(n, h).
     if \<not> h_valid h \<or> h_request h = [] \<or> length (h_request h) > 128
     then act_bind (modify (\<lambda>(c, w). (c, w\<lparr>wd_flags := cancel (h_token h) (wd_flags w)\<rparr>))) (\<lambda>_.
       raise ProtocolError ''Invalid RPC handler response'')
     else act_bind (modify (own_generation env k h)) (\<lambda>_. modify (watch_call k n (h_request h))))"

definition cancel_request :: "ipc_env \<Rightarrow> qstring \<Rightarrow> json_object \<Rightarrow> (conn, unit) act" where
  "cancel_request env k p =
     act_bind (lift_res (string_field p ''request_id'' True)) (\<lambda>request.
     act_bind (gets (\<lambda>s. map_of (cl_generations (fst s)) request)) (\<lambda>found. case found of
       None \<Rightarrow> raise NotFound ''Request not owned by this connection''
     | Some t \<Rightarrow> act_bind (modify (\<lambda>(c, w). (c, w\<lparr>wd_flags := cancel t (wd_flags w)\<rparr>))) (\<lambda>_.
         modify (ipc_reply env k (JObj (jobj [(''cancel_requested'', JBool True)]))))))"

definition list_parameters :: "catalog \<Rightarrow> json" where
  "list_parameters c = JArr (map (\<lambda>(name, g). JObj (jobj [(''id'', JStr name), (''description'', JStr (g_description g)),
     (''phase'', JStr (phase_name (g_phase g))), (''fields'', jint (int (length (g_parameters g))))])) (c_groups c))"

definition get_parameters :: "ipc_env \<Rightarrow> qstring \<Rightarrow> json_object \<Rightarrow> (conn, unit) act" where
  "get_parameters env k p =
     act_bind (lift_res (string_field p ''group'' True)) (\<lambda>name.
     act_bind (lift_res (catalog_group (ie_catalog env) name)) (\<lambda>_.
     case find (\<lambda>g. jvalue (to_object g) ''id'' = JStr name)
         (to_array (jvalue (c_document (ie_catalog env)) ''groups'')) of
       None \<Rightarrow> ret () | Some g \<Rightarrow> modify (ipc_reply env k g)))"

definition validated_parameters :: "ipc_env \<Rightarrow> json_object \<Rightarrow> json_object res" where
  "validated_parameters env p =
     bindr (fold_res (\<lambda>flag _. require (\<not> jhas p flag \<or> is_bool (jvalue p flag)) InvalidArgument
       ''Parameter export flags must be boolean'') [''defaults'', ''redact''] ()) (\<lambda>_.
     bindr (string_field p ''group'' True) (\<lambda>g.
     bindr (object_field p ''values'') (\<lambda>vs.
     bindr (from_native_json (ie_qt env) (ie_catalog env) g vs) (\<lambda>parameters.
     bindr (object_validate (ie_qt env) True parameters) (\<lambda>issues.
     bindr (reject_first issue_text issues) (\<lambda>_.
       to_native_json (ie_qt env) (to_bool (jvalue p ''defaults'') False) (to_bool (jvalue p ''redact'') False) parameters))))))"

definition load_fields :: "qstring list" where
  "load_fields = map qs [''model'', ''context_tokens'', ''options'', ''keep_alive'']"

definition load_request :: "json_object \<Rightarrow> model_load_request res" where
  "load_request p =
     bindr (fold_res (\<lambda>(k, _) _. if k \<notin> set load_fields
       then throwq InvalidArgument (qs ''Unknown models.load field; execution is selected by the service: '' @ k)
       else Inr ()) p ()) (\<lambda>_.
     bindr (string_field p ''model'' True) (\<lambda>model.
     bindr (number_field p ''context_tokens'' 0 0 (1024 * 1024) True) (\<lambda>tokens.
     bindr (object_field p ''options'') (\<lambda>options.
     bindr (parse_keep_alive (jvalue p ''keep_alive'')) (\<lambda>keep.
       Inr \<lparr>load_model = model, load_context_tokens = \<lfloor>tokens\<rfloor>, load_options = options, load_keep_alive = keep\<rparr>)))))"

text \<open>A request whose one string parameter names what the call is about.\<close>

definition named :: "ipc_env \<Rightarrow> qstring \<Rightarrow> json_object \<Rightarrow> string \<Rightarrow> (qstring \<Rightarrow> ipc_call) \<Rightarrow> (conn, unit) act" where
  "named env k p key call = act_bind (lift_res (string_field p key True)) (\<lambda>x. watched env k (call x))"

definition dispatch :: "ipc_env \<Rightarrow> qstring \<Rightarrow> qstring \<Rightarrow> json_object \<Rightarrow> qstring \<Rightarrow> (conn, unit) act" where
  "dispatch env k verb p auth =
     (if verb = qs ''hardware.get'' then modify (ipc_reply env k (JObj (hardware_object (ie_hardware env))))
      else if verb = qs ''parameters.list'' then modify (ipc_reply env k (list_parameters (ie_catalog env)))
      else if verb = qs ''parameters.get'' then get_parameters env k p
      else if verb = qs ''parameters.validate''
      then act_bind (lift_res (validated_parameters env p)) (\<lambda>o1. modify (ipc_reply env k (JObj o1)))
      else if verb = qs ''models.list'' then watched env k ListInstalled
      else if verb = qs ''models.install'' then named env k p ''package_directory'' InstallPackage
      else if verb = qs ''models.pull'' then start_pull env k p
      else if verb = qs ''models.remove'' then named env k p ''model'' RemoveModel
      else if verb = qs ''models.resolve'' then named env k p ''model'' ResolveModel
      else if verb = qs ''models.verify'' then named env k p ''model'' VerifyModel
      else if verb = qs ''models.loaded'' then watched env k ListLoaded
      else if verb = qs ''models.load''
      then act_bind (lift_res (load_request p)) (\<lambda>m. watched env k (LoadModel m))
      else if verb = qs ''models.unload'' then named env k p ''model'' UnloadModel
      else if verb = qs ''sessions.create''
      then act_bind (lift_res (string_field p ''model'' True)) (\<lambda>m.
        act_bind (lift_res (string_field p ''system'' False)) (\<lambda>prompt. watched env k (CreateSession m prompt)))
      else if verb = qs ''sessions.get'' then named env k p ''session_id'' GetSession
      else if verb = qs ''sessions.reset'' then named env k p ''session_id'' ResetSession
      else if verb = qs ''sessions.close'' then named env k p ''session_id'' CloseSession
      else if verb = qs ''stats'' then watched env k GetStats
      else if verb = qs ''chat'' then start_chat env k p
      else if verb = qs ''cancel'' then cancel_request env k p
      else if ie_rpc env then start_rpc env k verb p auth
      else raise NotFound ''Unknown method'')"

text \<open>One frame: the request is answered under its \<open>id\<close>, the empty one when it has none; the
  identifier is taken before the request is dispatched and released by an error.\<close>

definition accept_request :: "ipc_env \<Rightarrow> json_object \<Rightarrow> qstring \<Rightarrow> client \<Rightarrow> qstring res" where
  "accept_request env request k c =
     bindr (require (length k \<le> 128) InvalidArgument ''Request id too long'') (\<lambda>_.
     bindr (require (k \<notin> cl_ids c) AlreadyExists ''Request id already in flight'') (\<lambda>_.
     bindr (string_field request ''method'' True) (\<lambda>verb.
     bindr (require (int (card (cl_ids c)) < max_in_flight (ie_options env) \<or> verb = qs ''cancel'') QueueFull
       ''Connection request limit reached'') (\<lambda>_. Inr verb))))"

definition dispatch_request :: "ipc_env \<Rightarrow> json_object \<Rightarrow> qstring \<Rightarrow> qstring \<Rightarrow> (conn, unit) act" where
  "dispatch_request env request k verb =
     act_bind (lift_res (object_field request ''params'')) (\<lambda>p.
     act_bind (lift_res (string_field request ''auth'' False)) (\<lambda>auth. dispatch env k verb p auth))"

definition handle_request :: "ipc_env \<Rightarrow> json_object \<Rightarrow> conn \<Rightarrow> conn" where
  "handle_request env request s =
     (case string_field request ''id'' True of
        Inl e \<Rightarrow> ipc_error env [] e False s
      | Inr k \<Rightarrow> (case accept_request env request k (fst s) of
          Inl e \<Rightarrow> ipc_error env k e False s
        | Inr verb \<Rightarrow>
            (case dispatch_request env request k verb
                (case s of (c, w) \<Rightarrow> (c\<lparr>cl_ids := insert k (cl_ids c)\<rparr>, w)) of
               (s1, Inl e) \<Rightarrow> ipc_error env k e True s1
             | (s1, Inr _) \<Rightarrow> s1)))"

definition handle_frame :: "ipc_env \<Rightarrow> byte list \<Rightarrow> conn \<Rightarrow> conn" where
  "handle_frame env line s =
     (case ie_parse env line of
        Some (JObj request) \<Rightarrow> handle_request env request s
      | _ \<Rightarrow> ipc_error env [] (Error ProtocolError (qs ''Expected one JSON object per line'')) False s)"

section \<open>What a dispatched request does\<close>

text \<open>A published catalog lists its groups in its document.\<close>

definition documented :: "catalog \<Rightarrow> bool" where
  "documented c \<longleftrightarrow> (\<forall>gid \<in> set (okeys (c_groups c)).
     \<exists>g \<in> set (to_array (jvalue (c_document c) ''groups'')). jvalue (to_object g) ''id'' = JStr gid)"

fun call_kind :: "ipc_call \<Rightarrow> nat" where
  "call_kind (Chat rq) = 2"
| "call_kind (PullModel m) = 1"
| "call_kind (Rpc verb p auth) = 1"
| "call_kind call = 0"

abbreviation is_chat :: "ipc_call \<Rightarrow> bool" where
  "is_chat call \<equiv> call_kind call = 2"

abbreviation is_operation :: "ipc_call \<Rightarrow> bool" where
  "is_operation call \<equiv> call_kind call = 1"

abbreviation with_flags :: "(flag_store \<Rightarrow> flag_store) \<Rightarrow> conn \<Rightarrow> conn" where
  "with_flags f s \<equiv> (fst s, (snd s)\<lparr>wd_flags := f (wd_flags (snd s))\<rparr>)"

text \<open>\<open>plain\<close> calls have no generation of their own: their reply is all there is.\<close>

inductive dispatched :: "ipc_env \<Rightarrow> qstring \<Rightarrow> conn \<Rightarrow> conn \<times> unit res \<Rightarrow> bool" for env k where
  failed: "dispatched env k s (s, Inl e)"
| silent: "\<not> documented (ie_catalog env) \<Longrightarrow> dispatched env k s (s, Inr ())"
| unissued: "issue env k call s = (s1, Inl e) \<Longrightarrow> dispatched env k s (s1, Inl e)"
| refused: "issue env k call s = (s1, Inr (n, h)) \<Longrightarrow> is_operation call \<Longrightarrow>
    \<not> h_valid h \<or> h_request h = [] \<or> length (h_request h) > 128 \<Longrightarrow>
    dispatched env k s (with_flags (cancel (h_token h)) s1, Inl e)"
| answered: "dispatched env k s (ipc_reply env k v s, Inr ())"
| cancelled: "map_of (cl_generations (fst s)) r = Some t \<Longrightarrow>
    dispatched env k s (ipc_reply env k v (with_flags (cancel t) s), Inr ())"
| plain: "issue env k call s = (s1, Inr (n, h)) \<Longrightarrow> call_kind call = 0 \<Longrightarrow>
    dispatched env k s (watch_call k n [] s1, Inr ())"
| operating: "issue env k call s = (s1, Inr (n, h)) \<Longrightarrow> is_operation call \<Longrightarrow>
    dispatched env k s (watch_call k n (h_request h) (own_generation env k h s1), Inr ())"
| chatting: "issue env k call s = (s1, Inr (n, h)) \<Longrightarrow> is_chat call \<Longrightarrow>
    dispatched env k s (own_generation env k h s1, Inr ())"

lemma dispatched_lift:
  assumes "\<And>x. r = Inr x \<Longrightarrow> dispatched env k s (f x s)"
  shows "dispatched env k s (act_bind (lift_res r) f s)"
  using assms by (cases r) (auto intro: failed)

lemma dispatched_raise: "dispatched env k s (raise c m s)"
  by (simp add: throw_def failed)

lemma dispatched_issue:
  assumes "\<And>s1 n h. issue env k call s = (s1, Inr (n, h)) \<Longrightarrow> dispatched env k s (f (n, h) s1)"
  shows "dispatched env k s (act_bind (issue env k call) f s)"
proof (cases "issue env k call s")
  case (Pair s1 r)
  with assms unissued [of env k call s] show ?thesis by (cases r) auto
qed

lemma dispatched_watched: "call_kind call = 0 \<Longrightarrow> dispatched env k s (watched env k call s)"
  unfolding watched_def by (rule dispatched_issue) (auto intro: plain)

lemma dispatched_named: "(\<And>x. call_kind (call x) = 0) \<Longrightarrow> dispatched env k s (named env k p key call s)"
  unfolding named_def by (intro dispatched_lift dispatched_watched)

lemma dispatched_pull: "dispatched env k s (start_pull env k p s)"
  unfolding start_pull_def
  by (intro dispatched_lift dispatched_issue) (auto intro!: operating)

lemma dispatched_chat: "dispatched env k s (start_chat env k p s)"
  unfolding start_chat_def
  by (intro dispatched_lift dispatched_issue) (auto intro!: chatting)

lemma dispatched_rpc: "dispatched env k s (start_rpc env k verb p auth s)"
  unfolding start_rpc_def
proof (rule dispatched_issue)
  fix s1 n h
  assume i: "issue env k (Rpc verb p auth) s = (s1, Inr (n, h))"
  show "dispatched env k s ((\<lambda>(n, h). if \<not> h_valid h \<or> h_request h = [] \<or> length (h_request h) > 128
     then act_bind (modify (\<lambda>(c, w). (c, w\<lparr>wd_flags := cancel (h_token h) (wd_flags w)\<rparr>))) (\<lambda>_.
       raise ProtocolError ''Invalid RPC handler response'')
     else act_bind (modify (own_generation env k h)) (\<lambda>_. modify (watch_call k n (h_request h)))) (n, h) s1)"
    using operating [OF i] refused [OF i] by (simp add: throw_def case_prod_beta)
qed

lemma dispatched_cancel: "dispatched env k s (cancel_request env k p s)"
  unfolding cancel_request_def
proof (rule dispatched_lift)
  fix r
  show "dispatched env k s (act_bind (gets (\<lambda>s. map_of (cl_generations (fst s)) r)) (\<lambda>found. case found of
       None \<Rightarrow> raise NotFound ''Request not owned by this connection''
     | Some t \<Rightarrow> act_bind (modify (\<lambda>(c, w). (c, w\<lparr>wd_flags := cancel t (wd_flags w)\<rparr>))) (\<lambda>_.
         modify (ipc_reply env k (JObj (jobj [(''cancel_requested'', JBool True)]))))) s)"
    using dispatched_raise [of env k s] cancelled [of s r]
    by (auto simp: case_prod_beta split: option.split)
qed

lemma dispatched_get: "dispatched env k s (get_parameters env k p s)"
  unfolding get_parameters_def
proof (intro dispatched_lift)
  fix name u
  assume group: "catalog_group (ie_catalog env) name = Inr u"
  let ?found = "find (\<lambda>g. jvalue (to_object g) ''id'' = JStr name)
    (to_array (jvalue (c_document (ie_catalog env)) ''groups''))"
  have "\<not> documented (ie_catalog env)" if "?found = None"
  proof -
    have "name \<in> set (okeys (c_groups (ie_catalog env)))"
      using group by (force simp: catalog_group_def throwq_def dest: map_of_SomeD split: option.splits)
    with that show ?thesis by (auto simp: documented_def find_None_iff)
  qed
  then show "dispatched env k s ((case ?found of None \<Rightarrow> ret () | Some g \<Rightarrow> modify (ipc_reply env k g)) s)"
    by (auto intro: silent answered split: option.split)
qed

lemma dispatch_cases: "dispatched env k s (dispatch env k verb p auth s)"
proof -
  have reply: "dispatched env k s (modify (ipc_reply env k v) s)" for v
    by (simp add: answered)
  have validate: "dispatched env k s
      (act_bind (lift_res (validated_parameters env p)) (\<lambda>o1. modify (ipc_reply env k (JObj o1))) s)"
    by (rule dispatched_lift) (rule reply)
  have load: "dispatched env k s (act_bind (lift_res (load_request p)) (\<lambda>m. watched env k (LoadModel m)) s)"
    by (rule dispatched_lift) (simp add: dispatched_watched)
  have create: "dispatched env k s (act_bind (lift_res (string_field p ''model'' True)) (\<lambda>m.
        act_bind (lift_res (string_field p ''system'' False)) (\<lambda>prompt. watched env k (CreateSession m prompt))) s)"
    by (intro dispatched_lift dispatched_watched) simp
  note branches = reply validate load create dispatched_get dispatched_watched dispatched_named dispatched_pull
    dispatched_chat dispatched_cancel dispatched_rpc dispatched_raise
  show ?thesis unfolding dispatch_def by (simp add: branches del: act_simps)
qed

lemma dispatch_request_cases: "dispatched env k s (dispatch_request env request k verb s)"
  unfolding dispatch_request_def by (intro dispatched_lift dispatch_cases)

section \<open>What a request leaves alone\<close>

text \<open>The input, the frames and the number of a connection change only where the input is read.\<close>

definition reading :: "conn \<Rightarrow> byte list \<times> byte list list \<times> nat" where
  "reading s = (cl_input (fst s), cl_frames (fst s), cl_number (fst s))"

lemma reading_abort [simp]: "reading (socket_abort s) = reading s"
  by (auto simp: reading_def socket_abort_def socket_disconnected_def split: prod.split)

lemma reading_send [simp]: "reading (ipc_send env v s) = reading s"
  using reading_abort [of s]
  by (auto simp: reading_def ipc_send_def split: prod.splits)

lemma reading_release [simp]: "reading (release_id k s) = reading s"
  by (auto simp: reading_def release_id_def split: prod.split)

lemma reading_reply [simp]: "reading (ipc_reply env k v s) = reading s"
  by (simp add: ipc_reply_def)

lemma reading_error [simp]: "reading (ipc_error env k e release s) = reading s"
  by (simp add: ipc_error_def Let_def)

lemma reading_own [simp]: "reading (own_generation env k h s) = reading s"
proof (cases s)
  case (Pair c w)
  with reading_send [of env _ "(c\<lparr>cl_generations := oput (h_request h) (h_token h) (cl_generations c)\<rparr>, w)"]
  show ?thesis by (simp add: own_generation_def) (simp add: reading_def)
qed

lemma reading_watch [simp]: "reading (watch_call k n q s) = reading s"
  by (auto simp: reading_def watch_call_def split: prod.split)

lemma reading_issue: "issue env k call s = (s1, r) \<Longrightarrow> reading s1 = reading s"
  by (auto simp: reading_def issue_def Let_def split: prod.splits sum.splits)

lemma reading_dispatched: "dispatched env k s r \<Longrightarrow> reading (fst r) = reading s"
  by (induction rule: dispatched.induct) (auto dest: reading_issue simp: reading_def [of "(_, _)"] simp flip: reading_def)

lemma reading_handle [simp]: "reading (handle_frame env line s) = reading s"
proof -
  have "reading (handle_request env request s) = reading s" for request
  proof -
    obtain c w where s: "s = (c, w)" by (cases s)
    have "reading (fst (dispatch_request env request k verb (c\<lparr>cl_ids := insert k (cl_ids c)\<rparr>, w))) = reading s" for k verb
      using reading_dispatched [OF dispatch_request_cases [of env k "(c\<lparr>cl_ids := insert k (cl_ids c)\<rparr>, w)" request verb]]
      by (simp add: reading_def s)
    then show ?thesis
      by (auto simp: handle_request_def s split: sum.splits prod.splits) (metis fst_conv)+
  qed
  then show ?thesis by (auto simp: handle_frame_def split: option.split json.split)
qed

section \<open>Reading the socket\<close>

fun split_line :: "byte list \<Rightarrow> (byte list \<times> byte list) option" where
  "split_line [] = None"
| "split_line (b # bs) = (if b = 10 then Some ([], bs)
     else map_option (\<lambda>(line, rest). (b # line, rest)) (split_line bs))"

lemma split_line_length: "split_line bs = Some (line, rest) \<Longrightarrow> length bs = length line + length rest + 1"
  by (induction bs arbitrary: line) (auto split: if_splits)

definition take_frame :: "byte list \<Rightarrow> byte list \<Rightarrow> conn \<Rightarrow> conn" where
  "take_frame line rest = (\<lambda>(c, w). (c\<lparr>cl_input := rest, cl_frames := cl_frames c @ [line]\<rparr>, w))"

function read_frames :: "ipc_env \<Rightarrow> conn \<Rightarrow> conn" where
  "read_frames env s = (case split_line (cl_input (fst s)) of
     None \<Rightarrow> if int (length (cl_input (fst s))) > max_frame_bytes (ie_options env) then socket_abort s else s
   | Some (line, rest) \<Rightarrow>
       if int (length line) > max_frame_bytes (ie_options env) then socket_abort s
       else read_frames env (handle_frame env line (take_frame line rest s)))"
  by pat_completeness auto
termination
proof (relation "measure (\<lambda>(env, s). length (cl_input (fst s)))")
  fix env :: ipc_env and s :: conn and p line rest
  assume split: "split_line (cl_input (fst s)) = Some p" "(line, rest) = p"
  have "cl_input (fst (handle_frame env line (take_frame line rest s))) = rest"
    using reading_handle [of env line "take_frame line rest s"]
    by (cases s) (simp add: reading_def take_frame_def)
  with split split_line_length [of "cl_input (fst s)" line rest]
  show "((env, handle_frame env line (take_frame line rest s)), env, s) \<in> measure (\<lambda>(env, s). length (cl_input (fst s)))"
    by simp
qed simp

declare read_frames.simps [simp del]

definition read_client :: "ipc_env \<Rightarrow> byte list \<Rightarrow> conn \<Rightarrow> conn" where
  "read_client env bytes = (\<lambda>(c, w). read_frames env (c\<lparr>cl_input := cl_input c @ bytes\<rparr>, w))"

end
