(* ===== verification/IpcServer.thy ===== *)
theory IpcServer
  imports Ipc
begin

text \<open>
  The socket server around its connections (\<^verbatim>\<open>src/service/LocalIpcServer.cpp\<close>): accepting
  clients, what the callbacks of running operations put into an inbox, the poll timer, closing. A
  list of events is an interleaving of the server's thread with the workers. A callback belongs to a
  call that has no result yet: the result of an operation comes after its last event
  (\<^verbatim>\<open>src/service/Rpc.h\<close>), and the last event of a chat is its completion.
\<close>

section \<open>State and steps\<close>

record ipc_server =
  ip_listening :: bool
  ip_rpc :: bool
  ip_clients :: "client list"
  ip_next :: nat
  ip_world :: world

definition make_ipc_server :: "ipc_options \<Rightarrow> flag_store \<Rightarrow> ipc_server res" where
  "make_ipc_server options st =
     bindr (require (max_connections options \<ge> 1 \<and> max_in_flight options \<ge> 1 \<and> max_frame_bytes options \<ge> 64
       \<and> max_buffered_output options \<ge> 256) InvalidArgument ''Invalid IPC limits'') (\<lambda>_.
     Inr \<lparr>ip_listening = False, ip_rpc = False, ip_clients = [], ip_next = 0,
       ip_world = \<lparr>wd_flags = st, wd_calls = [], wd_results = (\<lambda>_. None), wd_tick = 0\<rparr>\<rparr>)"

text \<open>What the file system and the socket below say to a call of \<^verbatim>\<open>listen\<close>.\<close>

record endpoint =
  ep_locked :: bool
  ep_exists :: bool
  ep_listens :: bool

definition ipc_listen :: "endpoint \<Rightarrow> qstring \<Rightarrow> ipc_server \<Rightarrow> ipc_server \<times> bool" where
  "ipc_listen ep name s =
     (if ip_listening s \<or> trimmed name = [] \<or> \<not> ep_locked ep \<or> ep_exists ep \<or> \<not> ep_listens ep then (s, False)
      else (s\<lparr>ip_listening := True\<rparr>, True))"

definition set_rpc_handler :: "bool \<Rightarrow> ipc_server \<Rightarrow> ipc_server res" where
  "set_rpc_handler handler s = bindr (require (\<not> ip_listening s) ModelInUse
     ''Close IPC before replacing its RPC handler'') (\<lambda>_. Inr (s\<lparr>ip_rpc := handler\<rparr>))"

definition accept_client :: "ipc_env \<Rightarrow> ipc_server \<Rightarrow> ipc_server" where
  "accept_client env s =
     (if int (length (ip_clients s)) \<ge> max_connections (ie_options env) then s
      else s\<lparr>ip_clients := ip_clients s @ [new_client (ip_next s)], ip_next := Suc (ip_next s)\<rparr>)"

text \<open>An operation on the client with a given number, if it is still there.\<close>

definition on_client :: "nat \<Rightarrow> (conn \<Rightarrow> conn) \<Rightarrow> ipc_server \<Rightarrow> ipc_server" where
  "on_client n f s = (case find (\<lambda>c. cl_number c = n) (ip_clients s) of
     None \<Rightarrow> s
   | Some c \<Rightarrow> (case f (c, ip_world s) of (c', w') \<Rightarrow>
       s\<lparr>ip_clients := map (\<lambda>d. if cl_number d = n then c' else d) (ip_clients s), ip_world := w'\<rparr>))"

definition push_event :: "ipc_env \<Rightarrow> json_object \<Rightarrow> rpc_inbox \<Rightarrow> rpc_inbox" where
  "push_event env e inbox =
     (if in_closed inbox \<or> in_overflow inbox \<or> in_bytes inbox + line_size env e > max_buffered_output (ie_options env)
      then inbox\<lparr>in_overflow := True\<rparr>
      else inbox\<lparr>in_bytes := in_bytes inbox + line_size env e, in_events := in_events inbox @ [e]\<rparr>)"

definition stream_object :: "qstring \<Rightarrow> stream_event \<Rightarrow> json_object" where
  "stream_object k e =
     (let base = jobj [(''id'', JStr k), (''request_id'', JStr (ev_request_id e))] in
      case ev_kind e of
        Started \<Rightarrow> oput (qs ''event'') (JStr (qs ''started'')) base
      | Delta \<Rightarrow> oput (qs ''text'') (JStr (ev_text e)) (oput (qs ''event'') (JStr (qs ''delta'')) base)
      | Finished \<Rightarrow> oput (qs ''result'') (JObj (case ev_result e of None \<Rightarrow> result_object (empty_result [] []) | Some r \<Rightarrow> result_object r))
          (oput (qs ''event'') (JStr (qs ''done'')) base))"

definition progress_object :: "qstring \<Rightarrow> pull_progress \<Rightarrow> json_object" where
  "progress_object k p = jobj [(''id'', JStr k), (''event'', JStr (qs ''progress'')), (''model'', JStr (pp_model p)),
     (''file'', JStr (pp_file p)), (''received_bytes'', jdouble (pp_received p)), (''total_bytes'', jdouble (pp_total p))]"

definition rpc_object :: "qstring \<Rightarrow> json_object \<Rightarrow> json_object" where
  "rpc_object k v = jobj [(''id'', JStr k), (''event'', JStr (qs ''rpc'')), (''data'', JObj v)]"

text \<open>The reports a running call can make, by kind of call.\<close>

datatype report = ChatEvent stream_event | PullEvent pull_progress | RpcEvent json_object

fun report_object :: "ipc_call \<Rightarrow> qstring \<Rightarrow> report \<Rightarrow> json_object option" where
  "report_object (Chat rq) k (ChatEvent e) = Some (stream_object k e)"
| "report_object (PullModel m) k (PullEvent p) = Some (progress_object k p)"
| "report_object (Rpc verb p auth) k (RpcEvent v) = Some (rpc_object k v)"
| "report_object call k r = None"

fun finishes :: "report \<Rightarrow> bool" where
  "finishes (ChatEvent e) = (ev_kind e = Finished)"
| "finishes r = False"

text \<open>The service stamps the events of a chat with the request of its handle.\<close>

fun stamped :: "qstring \<Rightarrow> report \<Rightarrow> bool" where
  "stamped request (ChatEvent e) = (ev_request_id e = request)"
| "stamped request r = True"

definition call_open :: "world \<Rightarrow> nat \<Rightarrow> bool" where
  "call_open w n \<longleftrightarrow> n < length (wd_calls w) \<and> wd_results w n = None"

definition set_result_of :: "nat \<Rightarrow> ipc_value res \<Rightarrow> ipc_server \<Rightarrow> ipc_server" where
  "set_result_of n r s = s\<lparr>ip_world := (ip_world s)\<lparr>wd_results := (wd_results (ip_world s))(n \<mapsto> r)\<rparr>\<rparr>"

definition push_report :: "ipc_env \<Rightarrow> nat \<Rightarrow> report \<Rightarrow> ipc_server \<Rightarrow> ipc_server" where
  "push_report env n r s =
     (if \<not> call_open (ip_world s) n \<or> \<not> stamped (h_request (is_handle (wd_calls (ip_world s) ! n))) r then s
      else let call = wd_calls (ip_world s) ! n in
        case report_object (is_call call) (is_id call) r of
          None \<Rightarrow> s
        | Some e \<Rightarrow>
            let s1 = on_client (is_client call) (\<lambda>(c, w). (c\<lparr>cl_inbox := push_event env e (cl_inbox c)\<rparr>, w)) s
            in if finishes r then set_result_of n (Inr VDone) s1 else s1)"

definition settle :: "nat \<Rightarrow> ipc_value res \<Rightarrow> ipc_server \<Rightarrow> ipc_server" where
  "settle n r s = (if call_open (ip_world s) n \<and> \<not> is_chat (is_call (wd_calls (ip_world s) ! n))
     then set_result_of n r s else s)"

fun poll_clients :: "ipc_env \<Rightarrow> client list \<Rightarrow> world \<Rightarrow> client list \<times> world" where
  "poll_clients env [] w = ([], w)"
| "poll_clients env (c # cs) w = (case poll_client env (c, w) of ((c1, w1), stays) \<Rightarrow>
     (case poll_clients env cs w1 of (cs1, w2) \<Rightarrow> (if stays then c1 # cs1 else cs1, w2)))"

definition ipc_poll :: "ipc_env \<Rightarrow> ipc_server \<Rightarrow> ipc_server" where
  "ipc_poll env s = (case poll_clients env (ip_clients s) (ip_world s) of (cs, w) \<Rightarrow> s\<lparr>ip_clients := cs, ip_world := w\<rparr>)"

definition ipc_close :: "ipc_server \<Rightarrow> ipc_server" where
  "ipc_close s = s\<lparr>ip_listening := False, ip_clients := [],
     ip_world := fold (\<lambda>c w. snd (disconnect_client (c, w))) (ip_clients s) (ip_world s)\<rparr>"

datatype ipc_event = Connect | Receive nat "byte list" | Written nat int | HangUp nat
  | Report nat report | Settle nat "ipc_value res" | Poll | Close

definition ipc_step :: "ipc_env \<Rightarrow> ipc_event \<Rightarrow> ipc_server \<Rightarrow> ipc_server" where
  "ipc_step env e s = (case e of
     Connect \<Rightarrow> if ip_listening s then accept_client env s else s
   | Receive n bytes \<Rightarrow> on_client n (\<lambda>x. if cl_connected (fst x)
       then read_client (env\<lparr>ie_rpc := ip_rpc s\<rparr>) bytes x else x) s
   | Written n k \<Rightarrow> on_client n (\<lambda>(c, w). (c\<lparr>cl_unsent := cl_unsent c - max 0 (min k (cl_unsent c))\<rparr>, w)) s
   | HangUp n \<Rightarrow> on_client n socket_abort s
   | Report n r \<Rightarrow> push_report env n r s
   | Settle n r \<Rightarrow> settle n r s
   | Poll \<Rightarrow> ipc_poll env s
   | Close \<Rightarrow> ipc_close s)"

inductive ipc_reachable :: "ipc_env \<Rightarrow> ipc_server \<Rightarrow> bool" for env where
  made: "make_ipc_server (ie_options env) st = Inr s \<Longrightarrow> ipc_reachable env s"
| listened: "ipc_reachable env s \<Longrightarrow> ipc_reachable env (fst (ipc_listen ep name s))"
| handler: "ipc_reachable env s \<Longrightarrow> set_rpc_handler b s = Inr s1 \<Longrightarrow> ipc_reachable env s1"
| stepped: "ipc_reachable env s \<Longrightarrow> ipc_reachable env (ipc_step env e s)"

fun ipc_run :: "ipc_env \<Rightarrow> ipc_event list \<Rightarrow> ipc_server \<Rightarrow> ipc_server" where
  "ipc_run env [] s = s"
| "ipc_run env (e # es) s = ipc_run env es (ipc_step env e s)"

end
