(* ===== verification/IpcRules.thy ===== *)
theory IpcRules
  imports IpcServer
begin

text \<open>
  What the socket server keeps true: the bounds of its buffers, the ledger of a connection (every
  frame is answered once), the requests in flight, and the ownership of running operations. Each
  invariant is proved for the pieces of a step first, then for \<open>ipc_step\<close>. While a request
  is being read the invariants hold up to the identifier that is owed or reserved.
\<close>

section \<open>Handles and counts\<close>

text \<open>What \<^verbatim>\<open>src/service/Rpc.h\<close> asks of every handler: a valid handle with a
  request identifier of its own. The service draws its identifiers from UUIDs.\<close>

definition handles_ok :: "ipc_env \<Rightarrow> bool" where
  "handles_ok env \<longleftrightarrow>
     (\<forall>t call h. ie_submit env t call = Inr h \<longrightarrow> h_valid h \<and> h_request h \<noteq> [] \<and> length (h_request h) \<le> 128) \<and>
     (\<forall>t u call other h i. ie_submit env t call = Inr h \<longrightarrow> ie_submit env u other = Inr i \<longrightarrow>
        h_request h = h_request i \<longrightarrow> t = u)"

lemma handles_valid:
  "handles_ok env \<Longrightarrow> ie_submit env t call = Inr h \<Longrightarrow> h_valid h \<and> h_request h \<noteq> [] \<and> length (h_request h) \<le> 128"
  by (simp add: handles_ok_def)

lemma handles_unique:
  "handles_ok env \<Longrightarrow> ie_submit env t call = Inr h \<Longrightarrow> ie_submit env u other = Inr i \<Longrightarrow>
     h_request h = h_request i \<Longrightarrow> t = u"
  unfolding handles_ok_def by blast

definition frame_id :: "ipc_env \<Rightarrow> byte list \<Rightarrow> qstring" where
  "frame_id env line = (case ie_parse env line of
     Some (JObj request) \<Rightarrow> (case string_field request ''id'' True of Inr k \<Rightarrow> k | Inl _ \<Rightarrow> [])
   | _ \<Rightarrow> [])"

definition final_for :: "qstring \<Rightarrow> json_object \<Rightarrow> bool" where
  "final_for k m \<longleftrightarrow> jvalue m ''id'' = JStr k \<and> (jhas m ''result'' \<or> jhas m ''error'')"

definition frames_of :: "ipc_env \<Rightarrow> qstring \<Rightarrow> client \<Rightarrow> nat" where
  "frames_of env k c = length (filter (\<lambda>line. frame_id env line = k) (cl_frames c))"

definition finals_of :: "qstring \<Rightarrow> client \<Rightarrow> nat" where
  "finals_of k c = length (filter (final_for k) (cl_sent c))"

text \<open>Every frame is answered, in flight, or owed: the one being read.\<close>

definition ledger :: "ipc_env \<Rightarrow> qstring option \<Rightarrow> client \<Rightarrow> bool" where
  "ledger env owed c \<longleftrightarrow> (cl_connected c \<longrightarrow>
     (\<forall>k. frames_of env k c = finals_of k c + of_bool (k \<in> cl_ids c) + of_bool (owed = Some k)))"

definition event_id :: "json_object \<Rightarrow> qstring" where
  "event_id e = to_string (jvalue e ''id'')"

text \<open>An event a callback may queue: only the completion of a chat answers its request.\<close>

definition event_shape :: "json_object \<Rightarrow> bool" where
  "event_shape e \<longleftrightarrow> jvalue e ''id'' = JStr (event_id e) \<and> (jhas e ''result'' \<longleftrightarrow> is_done e) \<and> \<not> jhas e ''error''"

fun queue_ok :: "json_object list \<Rightarrow> qstring set \<Rightarrow> bool" where
  "queue_ok [] ids = True"
| "queue_ok (e # es) ids \<longleftrightarrow> event_shape e \<and> event_id e \<in> ids \<and>
     queue_ok es (if is_done e then ids - {event_id e} else ids)"

definition left_after :: "json_object list \<Rightarrow> qstring set \<Rightarrow> qstring set" where
  "left_after es ids = ids - event_id ` {e \<in> set es. is_done e}"

text \<open>The chats of a client whose last callback has not run.\<close>

definition running :: "world \<Rightarrow> nat \<Rightarrow> qstring list" where
  "running w n = map (is_id \<circ> snd) (filter (\<lambda>(i, x). is_client x = n \<and> is_chat (is_call x) \<and> wd_results w i = None)
     (enumerate 0 (wd_calls w)))"

definition live :: "client \<Rightarrow> bool" where
  "live c \<longleftrightarrow> cl_connected c \<and> \<not> in_overflow (cl_inbox c) \<and> \<not> in_closed (cl_inbox c)"

abbreviation events_of :: "client \<Rightarrow> json_object list" where
  "events_of c \<equiv> in_events (cl_inbox c)"

definition all_watched :: "watch list \<Rightarrow> nat \<Rightarrow> world \<Rightarrow> bool" where
  "all_watched ks n w \<longleftrightarrow> (\<forall>i < length (wd_calls w). is_client (wd_calls w ! i) = n \<longrightarrow>
     \<not> is_chat (is_call (wd_calls w ! i)) \<longrightarrow> wd_results w i = None \<longrightarrow>
     (\<exists>k \<in> set ks. wt_call k = i \<and> wt_id k = is_id (wd_calls w ! i)))"

text \<open>The identifiers in flight are those of the watched futures \<open>ks\<close>, of the running chats, of
  the queued completions, and the reserved one.\<close>

definition flight :: "watch list \<Rightarrow> qstring set \<Rightarrow> conn \<Rightarrow> bool" where
  "flight ks rs = (\<lambda>(c, w). live c \<longrightarrow>
     queue_ok (events_of c) (cl_ids c) \<and>
     left_after (events_of c) (cl_ids c) = rs \<union> set (map wt_id ks @ running w (cl_number c)) \<and>
     distinct (map wt_id ks @ running w (cl_number c)) \<and>
     rs \<inter> (set (map wt_id ks @ running w (cl_number c)) \<union> event_id ` set (events_of c)) = {} \<and>
     all_watched ks (cl_number c) w)"

section \<open>Queues\<close>

lemma queue_ok_mono: "queue_ok es ids \<Longrightarrow> ids \<subseteq> more_ids \<Longrightarrow> queue_ok es more_ids"
proof (induction es arbitrary: ids more_ids)
  case (Cons e es)
  then show ?case by (cases "is_done e") (auto intro: Cons.IH [of "ids - {event_id e}"] Cons.IH [of ids])
qed simp

lemma queue_ok_ids: "queue_ok es ids \<Longrightarrow> event_id ` set es \<subseteq> ids"
proof (induction es arbitrary: ids)
  case (Cons e es)
  from Cons.IH [of "ids - {event_id e}"] Cons.IH [of ids] Cons.prems show ?case by (cases "is_done e") auto
qed simp

lemma queue_ok_remove: "queue_ok es ids \<Longrightarrow> k \<notin> event_id ` set es \<Longrightarrow> queue_ok es (ids - {k})"
proof (induction es arbitrary: ids)
  case (Cons e es)
  have "ids - {event_id e} - {k} = ids - {k} - {event_id e}" by blast
  with Cons.IH [of "ids - {event_id e}"] Cons.IH [of ids] Cons.prems show ?case by (cases "is_done e") auto
qed simp

lemma left_after_simps [simp]:
  "left_after [] ids = ids"
  "left_after (e # es) ids = left_after es (if is_done e then ids - {event_id e} else ids)"
  by (auto simp: left_after_def)

lemma queue_ok_append:
  "queue_ok (es @ [e]) ids \<longleftrightarrow> queue_ok es ids \<and> event_shape e \<and> event_id e \<in> left_after es ids"
  by (induction es arbitrary: ids) auto

lemma left_after_append: "left_after (es @ [e]) ids = left_after es ids - (if is_done e then {event_id e} else {})"
  by (auto simp: left_after_def)

lemma running_cong: "wd_calls w' = wd_calls w \<Longrightarrow> wd_results w' = wd_results w \<Longrightarrow> running w' n = running w n"
  by (simp add: running_def)

section \<open>Messages\<close>

lemma jvalue_id [simp]: "jvalue (jobj ((''id'', v) # kvs)) ''id'' = v" if "''id'' \<notin> fst ` set kvs" "distinct (map fst kvs)"
  using that by (simp add: jvalue_def map_of_jobj)

lemma final_reply: "final_for k (jobj [(''id'', JStr j), (''result'', v)]) \<longleftrightarrow> k = j"
  by (auto simp: final_for_def jhas_def ohas_def map_of_jobj)

lemma final_error: "final_for k (jobj [(''id'', JStr j), (''error'', v)]) \<longleftrightarrow> k = j"
  by (auto simp: final_for_def jhas_def ohas_def map_of_jobj)

lemma final_accepted: "\<not> final_for k (jobj [(''id'', JStr j), (''event'', v), (''request_id'', u)])"
  by (simp add: final_for_def jhas_def ohas_def map_of_jobj)

lemma final_event: "event_shape e \<Longrightarrow> final_for k e \<longleftrightarrow> is_done e \<and> event_id e = k"
  by (auto simp: final_for_def event_shape_def)

lemma progress_shape: "event_shape (progress_object k p)" "event_id (progress_object k p) = k"
    "\<not> is_done (progress_object k p)"
  by (auto simp: event_shape_def event_id_def progress_object_def is_done_def jvalue_def jhas_def ohas_def
    map_of_jobj)

lemma rpc_shape: "event_shape (rpc_object k v)" "event_id (rpc_object k v) = k" "\<not> is_done (rpc_object k v)"
  by (auto simp: event_shape_def event_id_def rpc_object_def is_done_def jvalue_def jhas_def ohas_def map_of_jobj)

lemma stream_shape: "event_shape (stream_object k e)" "event_id (stream_object k e) = k"
    "is_done (stream_object k e) \<longleftrightarrow> ev_kind e = Finished"
  by (cases "ev_kind e"; auto simp: event_shape_def event_id_def stream_object_def Let_def is_done_def jvalue_def
    jhas_def ohas_def map_of_jobj)+

lemma report_shape:
  assumes "report_object call k r = Some e"
  shows "event_shape e" "event_id e = k" "is_done e \<longleftrightarrow> finishes r"
  using assms by (cases "(call, k, r)" rule: report_object.cases; auto simp: stream_shape progress_shape rpc_shape)+

section \<open>Sending\<close>

text \<open>What \<open>ipc_send\<close> leaves of a connection: it writes the object or the client is gone.\<close>

definition tables :: "client \<Rightarrow> qstring set \<times> (qstring, cancellation_token) omap \<times> watch list" where
  "tables c = (cl_ids c, cl_generations c, cl_pending c)"

lemma socket_abort_gone: "\<not> cl_connected (fst (socket_abort s))"
  by (auto simp: socket_abort_def socket_disconnected_def split: prod.split)

lemma ipc_send_cases:
  obtains (sent) "cl_connected (fst s)" and "cl_unsent (fst s) + line_size env v \<le> max_buffered_output (ie_options env)"
      and "ipc_send env v s = ((fst s)\<lparr>cl_unsent := cl_unsent (fst s) + line_size env v, cl_sent := cl_sent (fst s) @ [v]\<rparr>, snd s)"
  | (gone) "\<not> cl_connected (fst (ipc_send env v s))"
proof (cases "cl_connected (fst s) \<and> cl_unsent (fst s) + line_size env v \<le> max_buffered_output (ie_options env)")
  case True
  then show ?thesis by (intro sent) (auto simp: ipc_send_def split: prod.split)
next
  case False
  with socket_abort_gone [of s] show ?thesis
    by (intro gone) (auto simp: ipc_send_def split: prod.splits)
qed

lemma tables_abort [simp]: "tables (fst (socket_abort s)) = tables (fst s)"
  by (auto simp: tables_def socket_abort_def socket_disconnected_def split: prod.split)

lemma tables_send [simp]: "tables (fst (ipc_send env v s)) = tables (fst s)"
  using tables_abort [of s] by (auto simp: ipc_send_def tables_def split: prod.splits)

text \<open>The world around a connection changes by cancellations and by calls made for it.\<close>

definition grows :: "nat \<Rightarrow> world \<Rightarrow> world \<Rightarrow> bool" where
  "grows n w w' \<longleftrightarrow> wd_results w' = wd_results w \<and> wd_tick w \<le> wd_tick w' \<and>
     (\<exists>new. wd_calls w' = wd_calls w @ new \<and> (\<forall>x \<in> set new. is_client x = n)) \<and>
     (\<forall>f. flags (wd_flags w) f \<longrightarrow> flags (wd_flags w') f)"

lemma grows_refl [simp]: "grows n w w"
  by (simp add: grows_def)

lemma grows_trans: "grows n w w1 \<Longrightarrow> grows n w1 w2 \<Longrightarrow> grows n w w2"
  by (auto simp: grows_def)

lemma cancel_all_flags:
  "flags (wd_flags (cancel_all c w)) f \<longleftrightarrow> flags (wd_flags w) f \<or> (\<exists>p \<in> set (cl_generations c). token_flag (snd p) = f)"
proof -
  have "flags (fold (\<lambda>(_, t). cancel t) gs st) f \<longleftrightarrow> flags st f \<or> (\<exists>p \<in> set gs. token_flag (snd p) = f)" for gs st
    by (induction gs arbitrary: st) (auto simp: cancel_def split: prod.splits)
  then show ?thesis by (simp add: cancel_all_def)
qed

lemma cancel_all_rest [simp]:
  "wd_calls (cancel_all c w) = wd_calls w" "wd_results (cancel_all c w) = wd_results w" "wd_tick (cancel_all c w) = wd_tick w"
  by (simp_all add: cancel_all_def)

lemma grows_cancel_all [simp]: "grows n w (cancel_all c w)"
  by (simp add: grows_def cancel_all_flags)

lemma grows_abort [simp]: "grows n (snd s) (snd (socket_abort s))"
  by (auto simp: socket_abort_def socket_disconnected_def split: prod.split)

lemma grows_send [simp]: "grows n (snd s) (snd (ipc_send env v s))"
  using grows_abort [of n s] grows_trans [OF grows_abort grows_cancel_all, of n s]
  by (auto simp: ipc_send_def split: prod.splits)

lemma send_calls [simp]:
  "wd_calls (snd (ipc_send env v s)) = wd_calls (snd s)" "wd_results (snd (ipc_send env v s)) = wd_results (snd s)"
  by (auto simp: ipc_send_def socket_abort_def socket_disconnected_def split: prod.splits)

lemma send_connected:
  assumes "cl_connected (fst (ipc_send env v s))"
  obtains u where "ipc_send env v s = ((fst s)\<lparr>cl_unsent := u, cl_sent := cl_sent (fst s) @ [v]\<rparr>, snd s)"
    and "cl_connected (fst s)"
  using assms by (cases rule: ipc_send_cases [of s env v]) auto

lemma ledger_gone: "\<not> cl_connected c \<Longrightarrow> ledger env owed c"
  by (simp add: ledger_def)

lemma flight_gone: "\<not> cl_connected (fst s) \<Longrightarrow> flight ks rs s"
  by (auto simp: flight_def live_def)

lemma frames_of_cong: "cl_frames c = cl_frames d \<Longrightarrow> frames_of env k c = frames_of env k d"
  by (simp add: frames_of_def)

lemma finals_of_sent: "cl_sent c' = cl_sent c @ [v] \<Longrightarrow> finals_of k c' = finals_of k c + of_bool (final_for k v)"
  by (simp add: finals_of_def)

text \<open>A message that answers nothing, the answer to an owed request, and to one in flight.\<close>

lemma ledger_send:
  assumes "ledger env owed (fst s)" and "\<And>k. \<not> final_for k v"
  shows "ledger env owed (fst (ipc_send env v s))"
proof (cases "cl_connected (fst (ipc_send env v s))")
  case True
  then show ?thesis
    by (rule send_connected) (use assms in \<open>auto simp: ledger_def frames_of_def finals_of_def\<close>)
qed (rule ledger_gone)

lemma ledger_answer:
  assumes "ledger env (Some k) (fst s)" and "\<And>j. final_for j v \<longleftrightarrow> j = k"
  shows "ledger env None (fst (ipc_send env v s))"
proof (cases "cl_connected (fst (ipc_send env v s))")
  case True
  then show ?thesis
    by (rule send_connected) (use assms in \<open>auto simp: ledger_def frames_of_def finals_of_def\<close>)
qed (rule ledger_gone)

lemma release_fst [simp]: "fst (release_id k s) = (fst s)\<lparr>cl_ids := cl_ids (fst s) - {k}\<rparr>"
    "snd (release_id k s) = snd s"
  by (simp_all add: release_id_def split: prod.split)

lemma ledger_final:
  assumes "ledger env None (fst s)" and "k \<in> cl_ids (fst s)" and "\<And>j. final_for j v \<longleftrightarrow> j = k"
  shows "ledger env None (fst (release_id k (ipc_send env v s)))"
proof (cases "cl_connected (fst (ipc_send env v s))")
  case True
  then show ?thesis
    by (rule send_connected) (use assms in \<open>auto simp: ledger_def frames_of_def finals_of_def\<close>)
qed (simp add: ledger_gone)

lemma ledger_reply:
  "ledger env None (fst s) \<Longrightarrow> k \<in> cl_ids (fst s) \<Longrightarrow> ledger env None (fst (ipc_reply env k v s))"
  unfolding ipc_reply_def by (rule ledger_final) (auto simp: final_reply)

lemma ledger_error:
  "ledger env None (fst s) \<Longrightarrow> k \<in> cl_ids (fst s) \<Longrightarrow> ledger env None (fst (ipc_error env k e True s))"
  unfolding ipc_error_def Let_def if_True by (rule ledger_final) (auto simp: final_error)

lemma ledger_refuse:
  "ledger env (Some k) (fst s) \<Longrightarrow> ledger env None (fst (ipc_error env k e False s))"
  by (auto simp: ipc_error_def final_error intro!: ledger_answer [of env k])

text \<open>Sending leaves what is in flight.\<close>

lemma flight_send:
  assumes "flight ks rs s"
  shows "flight ks rs (ipc_send env v s)"
proof (cases "cl_connected (fst (ipc_send env v s))")
  case True
  then show ?thesis
    by (rule send_connected) (use assms in \<open>cases s; simp add: flight_def live_def\<close>)
qed (rule flight_gone)

lemma flight_release:
  assumes "flight ks {k} s"
  shows "flight ks {} (release_id k s)"
proof (cases s)
  case (Pair c w)
  with assms show ?thesis
    by (auto simp: flight_def release_id_def live_def left_after_def intro: queue_ok_remove)
qed

lemma flight_reply: "flight ks {k} s \<Longrightarrow> flight ks {} (ipc_reply env k v s)"
  unfolding ipc_reply_def by (rule flight_release) (rule flight_send)

lemma flight_error: "flight ks {k} s \<Longrightarrow> flight ks {} (ipc_error env k e True s)"
  unfolding ipc_error_def Let_def if_True by (rule flight_release) (rule flight_send)

lemma flight_refuse: "flight ks rs s \<Longrightarrow> flight ks rs (ipc_error env k e False s)"
  by (simp add: ipc_error_def flight_send)

lemma flight_ids: "flight ks rs s \<Longrightarrow> live (fst s) \<Longrightarrow> rs \<union> set (map wt_id ks) \<subseteq> cl_ids (fst s)"
  by (auto simp: flight_def left_after_def split: prod.splits)

section \<open>Draining an inbox\<close>

lemma send_event_ids: "cl_ids (fst (send_event env e s)) = (if is_done e then cl_ids (fst s) - {event_id e} else cl_ids (fst s))"
  using tables_send [of env e s]
  by (cases "ipc_send env e s") (simp add: send_event_def tables_def event_id_def)

lemma send_event_world: "wd_calls (snd (send_event env e s)) = wd_calls (snd s)"
    "wd_results (snd (send_event env e s)) = wd_results (snd s)"
  using send_calls [where env = env and v = e and s = s] by (cases "ipc_send env e s"; simp add: send_event_def)+

lemma send_event_connected:
  assumes "cl_connected (fst (send_event env e s))"
  shows "cl_connected (fst s) \<and> cl_inbox (fst (send_event env e s)) = cl_inbox (fst s) \<and>
     cl_frames (fst (send_event env e s)) = cl_frames (fst s) \<and> cl_number (fst (send_event env e s)) = cl_number (fst s) \<and>
     cl_sent (fst (send_event env e s)) = cl_sent (fst s) @ [e]"
proof -
  have "cl_connected (fst (ipc_send env e s))"
    using assms by (auto simp: send_event_def split: prod.splits if_splits)
  then show ?thesis
    by (rule send_connected) (auto simp: send_event_def split: prod.splits)
qed

lemma send_events_ids: "cl_ids (fst (fold (send_event env) es s)) = left_after es (cl_ids (fst s))"
  by (induction es arbitrary: s) (simp_all add: send_event_ids)

lemma send_events_world: "wd_calls (snd (fold (send_event env) es s)) = wd_calls (snd s)"
    "wd_results (snd (fold (send_event env) es s)) = wd_results (snd s)"
  by (induction es arbitrary: s) (simp_all add: send_event_world)

lemma send_events_connected:
  assumes "cl_connected (fst (fold (send_event env) es s))"
  shows "cl_connected (fst s) \<and> cl_inbox (fst (fold (send_event env) es s)) = cl_inbox (fst s) \<and>
     cl_frames (fst (fold (send_event env) es s)) = cl_frames (fst s) \<and>
     cl_number (fst (fold (send_event env) es s)) = cl_number (fst s)"
  using assms
proof (induction es arbitrary: s)
  case (Cons e es)
  from Cons.IH [of "send_event env e s"] Cons.prems
  have "cl_connected (fst (send_event env e s))" by simp
  with Cons.IH [of "send_event env e s"] Cons.prems send_event_connected [of env e s] show ?case by simp
qed simp

lemma ledger_event:
  assumes "ledger env None (fst s)" and "event_shape e" and "event_id e \<in> cl_ids (fst s)"
  shows "ledger env None (fst (send_event env e s))"
proof (cases "cl_connected (fst (send_event env e s))")
  case True
  from send_event_connected [OF True] send_event_ids [of env e s] assms show ?thesis
    by (auto simp: ledger_def frames_of_def finals_of_def final_event)
qed (rule ledger_gone)

lemma ledger_events:
  "ledger env None (fst s) \<Longrightarrow> queue_ok es (cl_ids (fst s)) \<Longrightarrow> ledger env None (fst (fold (send_event env) es s))"
proof (induction es arbitrary: s)
  case (Cons e es)
  then show ?case
    using ledger_event [of env s e] by (auto simp: send_event_ids intro!: Cons.IH split: if_splits)
qed simp

lemma drain_cases:
  obtains (stopped) c' w' where "drain env (c, w) = ((c', w'), False)" and "\<not> cl_connected c'"
  | (drained) s' where "drain env (c, w) = (s', True)" and "cl_connected (fst s')" and "\<not> in_overflow (cl_inbox c)"
      and "\<not> in_closed (cl_inbox c)"
      and "s' = fold (send_event env) (events_of c) (c\<lparr>cl_inbox := (cl_inbox c)\<lparr>in_events := [], in_bytes := 0\<rparr>\<rparr>, w)"
proof (cases "in_overflow (cl_inbox c) \<or> in_closed (cl_inbox c)")
  case True
  let ?s = "socket_abort (c\<lparr>cl_inbox := (cl_inbox c)\<lparr>in_events := [], in_bytes := 0\<rparr>\<rparr>, w)"
  from True have "drain env (c, w) = ((fst ?s, cancel_all (fst ?s) (snd ?s)), False)"
    by (simp add: drain_def Let_def split: prod.split)
  then show ?thesis using socket_abort_gone by (rule stopped)
next
  case False
  let ?s = "fold (send_event env) (events_of c) (c\<lparr>cl_inbox := (cl_inbox c)\<lparr>in_events := [], in_bytes := 0\<rparr>\<rparr>, w)"
  from False have d: "drain env (c, w) = (?s, cl_connected (fst ?s))"
    by (simp add: drain_def Let_def)
  show ?thesis
  proof (cases "cl_connected (fst ?s)")
    case True
    with d have "drain env (c, w) = (?s, True)" by simp
    with True False show ?thesis by (intro drained) simp_all
  next
    case gone: False
    with d have "drain env (c, w) = ((fst ?s, snd ?s), False)" by simp
    then show ?thesis using gone by (rule stopped)
  qed
qed

lemma drain_keeps:
  assumes "drain env (c, w) = (s', True)" and "ledger env None c" and "flight ks rs (c, w)"
  shows "ledger env None (fst s')" and "flight ks rs s'" and "events_of (fst s') = []" and "live (fst s')"
proof -
  let ?c = "c\<lparr>cl_inbox := (cl_inbox c)\<lparr>in_events := [], in_bytes := 0\<rparr>\<rparr>"
  from assms(1) have s': "s' = fold (send_event env) (events_of c) (?c, w)" and conn: "cl_connected (fst s')"
    and open_inbox: "\<not> in_overflow (cl_inbox c)" "\<not> in_closed (cl_inbox c)"
    by (cases rule: drain_cases [of env c w]; simp)+
  have facts: "cl_connected c \<and> cl_inbox (fst s') = cl_inbox ?c \<and> cl_number (fst s') = cl_number c"
    using send_events_connected [of env "events_of c" "(?c, w)"] conn by (simp add: s')
  with open_inbox have alive: "live c" by (simp add: live_def)
  have ids: "cl_ids (fst s') = left_after (events_of c) (cl_ids c)"
    by (simp add: s' send_events_ids)
  have calls: "wd_calls (snd s') = wd_calls w" "wd_results (snd s') = wd_results w"
    by (simp_all add: s' send_events_world)
  show "events_of (fst s') = []" using facts by simp
  show "live (fst s')" using facts conn open_inbox by (simp add: live_def)
  show "ledger env None (fst s')"
    unfolding s' using assms(2,3) alive
    by (intro ledger_events) (auto simp: ledger_def frames_of_def finals_of_def flight_def)
  show "flight ks rs s'"
    using assms(3) alive facts ids calls running_cong [of "snd s'" w]
    by (auto simp: flight_def all_watched_def split: prod.splits)
qed

section \<open>Watched futures\<close>

lemma flight_finish:
  assumes "flight (js @ k # ks) {} s" and "events_of (fst s) = []" and "wd_results (snd s) (wt_call k) \<noteq> None"
  shows "flight (js @ ks) {wt_id k} s"
proof (cases s)
  case (Pair c w)
  have "all_watched (js @ ks) n w" if "all_watched (js @ k # ks) n w" for n
    using that assms(3) by (fastforce simp: all_watched_def Pair)
  then show ?thesis using assms(1,2) by (auto simp: flight_def Pair)
qed

lemma flight_generations: "flight ks rs (c\<lparr>cl_generations := g\<rparr>, w) = flight ks rs (c, w)"
  by (simp add: flight_def live_def)

lemma ledger_generations: "ledger env owed (c\<lparr>cl_generations := g\<rparr>) = ledger env owed c"
  by (simp add: ledger_def frames_of_def finals_of_def)

text \<open>The state in which the reply of a watched future is made.\<close>

abbreviation disowned :: "watch \<Rightarrow> conn \<Rightarrow> conn" where
  "disowned k s \<equiv> (if wt_operation k \<noteq> []
     then (fst s)\<lparr>cl_generations := odel (wt_operation k) (cl_generations (fst s))\<rparr> else fst s, snd s)"

lemma run_watch_drained:
  "wd_results (snd s) (wt_call k) = Some r \<Longrightarrow> drain env s = (s', True) \<Longrightarrow>
     run_watch env k s = (case bindr r value_json of
       Inr v \<Rightarrow> (ipc_reply env (wt_id k) v (disowned k s'), True)
     | Inl e \<Rightarrow> (ipc_error env (wt_id k) e True (disowned k s'), True))"
  by (cases s'; cases "bindr r value_json") (auto simp: run_watch_def Let_def)

lemma run_watch_keeps:
  assumes "ledger env None (fst s)" and "flight (js @ k # ks) {} s" and run: "run_watch env k s = (s1, ready)"
  shows "ledger env None (fst s1) \<and> flight (if ready then js @ ks else js @ k # ks) {} s1"
proof (cases "wd_results (snd s) (wt_call k)")
  case None
  with run assms show ?thesis by (auto simp: run_watch_def)
next
  case (Some r)
  obtain c w where s: "s = (c, w)" by (cases s)
  show ?thesis
  proof (cases rule: drain_cases [of env c w])
    case (stopped c' w')
    with run Some show ?thesis by (auto simp: run_watch_def s ledger_gone flight_gone)
  next
    case (drained s')
    note kept = drain_keeps [OF drained(1) _ assms(2) [unfolded s]]
    have "wd_results (snd s') (wt_call k) \<noteq> None"
      using Some by (simp add: drained(5) send_events_world s)
    with kept assms(1) have flight: "flight (js @ ks) {wt_id k} s'" and ledger: "ledger env None (fst s')" and alive: "live (fst s')"
      by (auto simp: s intro: flight_finish)
    have "wt_id k \<in> cl_ids (fst s')" using flight_ids [OF flight alive] by simp
    with flight ledger have ready: "flight (js @ ks) {wt_id k} (disowned k s')" "ledger env None (fst (disowned k s'))" "wt_id k \<in> cl_ids (fst (disowned k s'))"
      using flight_generations [where c = "fst s'" and w = "snd s'"] ledger_generations [where c = "fst s'"]
      by simp_all
    from run_watch_drained [OF Some] drained(1) have "run_watch env k s = (case bindr r value_json of
        Inr v \<Rightarrow> (ipc_reply env (wt_id k) v (disowned k s'), True)
      | Inl e \<Rightarrow> (ipc_error env (wt_id k) e True (disowned k s'), True))" by (simp add: s)
    with run have "ready" "s1 = (case bindr r value_json of Inr v \<Rightarrow> ipc_reply env (wt_id k) v (disowned k s')
        | Inl e \<Rightarrow> ipc_error env (wt_id k) e True (disowned k s'))"
      by (auto split: sum.splits)
    then show ?thesis
      using flight_reply [OF ready(1)] flight_error [OF ready(1)] ledger_reply [OF ready(2,3)] ledger_error [OF ready(2,3)]
      by (auto split: sum.split)
  qed
qed

lemma run_pending_keeps:
  assumes "run_pending env ks s = (s1, rest)" and "ledger env None (fst s)" and "flight (js @ ks) {} s"
  shows "ledger env None (fst s1) \<and> flight (js @ rest) {} s1"
  using assms
proof (induction ks arbitrary: s s1 js rest)
  case (Cons k ks)
  obtain s2 ready where w: "run_watch env k s = (s2, ready)" by (cases "run_watch env k s")
  obtain s3 rest' where p: "run_pending env ks s2 = (s3, rest')" by (cases "run_pending env ks s2")
  from run_watch_keeps [OF Cons.prems(2) Cons.prems(3) w]
  have kept: "ledger env None (fst s2)" "flight (if ready then js @ ks else js @ k # ks) {} s2" by simp_all
  from Cons.prems(1) w p have "s1 = s3" "rest = (if ready then rest' else k # rest')" by simp_all
  with Cons.IH [OF p kept(1), of "if ready then js else js @ [k]"] kept(2) show ?case by auto
qed simp

lemma flight_pending: "flight ks rs (c\<lparr>cl_pending := p\<rparr>, w) = flight ks rs (c, w)"
  by (simp add: flight_def live_def)

lemma ledger_pending: "ledger env owed (c\<lparr>cl_pending := p\<rparr>) = ledger env owed c"
  by (simp add: ledger_def frames_of_def finals_of_def)

text \<open>What holds of a connection between the steps of the server.\<close>

definition settled_flight :: "client \<Rightarrow> world \<Rightarrow> bool" where
  "settled_flight c w = flight (cl_pending c) {} (c, w)"

lemma drain_pending: "cl_pending (fst (fst (drain env s))) = cl_pending (fst s)"
proof -
  have event: "cl_pending (fst (send_event env e s)) = cl_pending (fst s)" for e s
    using tables_send [of env e s] by (cases "ipc_send env e s") (simp add: send_event_def tables_def)
  have events: "cl_pending (fst (fold (send_event env) es s)) = cl_pending (fst s)" for es s
    by (induction es arbitrary: s) (simp_all add: event)
  show ?thesis
  proof (cases s)
    case (Pair c w)
    let ?c = "c\<lparr>cl_inbox := (cl_inbox c)\<lparr>in_events := [], in_bytes := 0\<rparr>\<rparr>"
    show ?thesis using events [of "events_of c" "(?c, w)"] tables_abort [of "(?c, w)"]
      by (cases "socket_abort (?c, w)") (simp add: Pair drain_def Let_def tables_def)
  qed
qed

lemma poll_client_keeps:
  assumes "ledger env None c" and "settled_flight c w" and "poll_client env (c, w) = ((c', w'), True)"
  shows "ledger env None c' \<and> settled_flight c' w'"
proof -
  from assms(3) obtain s1 where d: "drain env (c, w) = (s1, True)"
    by (auto simp: poll_client_def split: if_splits prod.splits bool.splits)
  obtain c2 w2 rest where p: "run_pending env (cl_pending (fst s1)) s1 = ((c2, w2), rest)"
    by (metis prod.exhaust)
  from assms(3) d p have res: "c' = c2\<lparr>cl_pending := rest\<rparr>" "w' = w2"
    by (auto simp: poll_client_def split: if_splits)
  have pend: "cl_pending (fst s1) = cl_pending c"
    using drain_pending [of env "(c, w)"] d by simp
  from drain_keeps [OF d assms(1)] assms(2)
  have "ledger env None (fst s1)" "flight ([] @ cl_pending (fst s1)) {} s1" by (simp_all add: settled_flight_def pend)
  from run_pending_keeps [OF p this] show ?thesis
    by (simp add: res settled_flight_def flight_pending ledger_pending)
qed

section \<open>Requests\<close>

definition fresh_results :: "world \<Rightarrow> bool" where
  "fresh_results w \<longleftrightarrow> (\<forall>n \<ge> length (wd_calls w). wd_results w n = None)"

lemma issue_Inr:
  assumes "issue env k call s = (s1, Inr (n, h))"
  shows "s1 = (fst s, (snd s)\<lparr>wd_tick := Suc (wd_tick (snd s)), wd_calls := wd_calls (snd s) @
      [\<lparr>is_call = call, is_id = k, is_client = cl_number (fst s), is_handle = h\<rparr>]\<rparr>)"
    and "n = length (wd_calls (snd s))" and "ie_submit env (wd_tick (snd s)) call = Inr h"
  using assms by (auto simp: issue_def Let_def split: prod.splits sum.splits)

lemma issue_Inl:
  assumes "issue env k call s = (s1, Inl e)"
  shows "s1 = (fst s, (snd s)\<lparr>wd_tick := Suc (wd_tick (snd s))\<rparr>)"
  using assms by (auto simp: issue_def Let_def split: prod.splits sum.splits)

lemma issue_fst: "issue env k call s = (s1, r) \<Longrightarrow> fst s1 = fst s"
  by (auto simp: issue_def Let_def split: prod.splits sum.splits)

lemma flight_world:
  "wd_calls w' = wd_calls w \<Longrightarrow> wd_results w' = wd_results w \<Longrightarrow> flight ks rs (c, w') = flight ks rs (c, w)"
  by (simp add: flight_def all_watched_def running_def)

lemma running_issued:
  assumes "fresh_results w"
  shows "running (w\<lparr>wd_tick := t, wd_calls := wd_calls w @ [x]\<rparr>) n
     = running w n @ (if is_client x = n \<and> is_chat (is_call x) then [is_id x] else [])"
  using assms by (simp add: running_def fresh_results_def enumerate_append_eq)

lemma flight_chat:
  assumes "flight ks {k} s" and "issue env k call s = (s1, Inr (n, h))" and "is_chat call" and "fresh_results (snd s)"
  shows "flight ks {} s1"
proof (cases s)
  case (Pair c w)
  from assms show ?thesis
    unfolding issue_Inr(1) [OF assms(2)]
    by (auto simp: flight_def Pair running_issued all_watched_def nth_append)
qed

lemma flight_watch:
  assumes "flight ks {k} s" and "issue env k call s = (s1, Inr (n, h))" and "\<not> is_chat call" and "fresh_results (snd s)"
  shows "flight (ks @ [\<lparr>wt_id = k, wt_call = n, wt_operation = q\<rparr>]) {} s1"
proof (cases s)
  case (Pair c w)
  have "all_watched (ks @ [\<lparr>wt_id = k, wt_call = length (wd_calls w), wt_operation = q\<rparr>]) (cl_number c)
     (w\<lparr>wd_tick := t, wd_calls := wd_calls w @ [\<lparr>is_call = call, is_id = k, is_client = cl_number c, is_handle = h\<rparr>]\<rparr>)"
    if "all_watched ks (cl_number c) w" for t
    using that by (auto simp: all_watched_def nth_append less_Suc_eq)
  with assms show ?thesis
    unfolding issue_Inr(1) [OF assms(2)] issue_Inr(2) [OF assms(2)]
    by (auto simp: flight_def Pair running_issued)
qed

lemma watch_call_simps [simp]:
  "fst (watch_call k n q s) = (fst s)\<lparr>cl_pending := cl_pending (fst s) @ [\<lparr>wt_id = k, wt_call = n, wt_operation = q\<rparr>]\<rparr>"
  "snd (watch_call k n q s) = snd s"
  by (simp_all add: watch_call_def split: prod.split)

lemma flight_watch_call:
  "flight (cl_pending (fst (watch_call k n q s))) rs (watch_call k n q s) =
     flight (cl_pending (fst s) @ [\<lparr>wt_id = k, wt_call = n, wt_operation = q\<rparr>]) rs s"
  by (cases s) (simp add: watch_call_def flight_pending)

lemma own_generation_keeps:
  "flight ks rs s \<Longrightarrow> flight ks rs (own_generation env k h s)"
  "ledger env owed (fst s) \<Longrightarrow> ledger env owed (fst (own_generation env k h s))"
  "cl_pending (fst (own_generation env k h s)) = cl_pending (fst s)"
proof -
  let ?s = "((fst s)\<lparr>cl_generations := oput (h_request h) (h_token h) (cl_generations (fst s))\<rparr>, snd s)"
  have own: "own_generation env k h s = ipc_send env
     (jobj [(''id'', JStr k), (''event'', JStr (qs ''accepted'')), (''request_id'', JStr (h_request h))]) ?s"
    by (simp add: own_generation_def split: prod.split)
  show "flight ks rs s \<Longrightarrow> flight ks rs (own_generation env k h s)"
    unfolding own by (rule flight_send) (simp add: flight_generations)
  show "ledger env owed (fst s) \<Longrightarrow> ledger env owed (fst (own_generation env k h s))"
    unfolding own by (rule ledger_send) (simp_all add: ledger_generations final_accepted)
  show "cl_pending (fst (own_generation env k h s)) = cl_pending (fst s)"
    unfolding own using tables_send [where s = ?s and env = env] by (simp add: tables_def)
qed

lemma pending_reply [simp]: "cl_pending (fst (ipc_reply env k v s)) = cl_pending (fst s)"
    "cl_pending (fst (ipc_error env k e b s)) = cl_pending (fst s)"
  using tables_send [where s = s and env = env] by (simp_all add: ipc_reply_def ipc_error_def Let_def tables_def)

definition answerable :: "ipc_env \<Rightarrow> qstring \<Rightarrow> conn \<times> unit res \<Rightarrow> bool" where
  "answerable env k = (\<lambda>(s, r). ledger env None (fst s) \<and> (case r of
     Inr _ \<Rightarrow> flight (cl_pending (fst s)) {} s
   | Inl _ \<Rightarrow> flight (cl_pending (fst s)) {k} s \<and> k \<in> cl_ids (fst s)))"

lemma dispatched_keeps:
  assumes "dispatched env k s p" and "documented (ie_catalog env)" and "handles_ok env"
    and "flight (cl_pending (fst s)) {k} s" and "ledger env None (fst s)" and "k \<in> cl_ids (fst s)" and "fresh_results (snd s)"
  shows "answerable env k p"
  using assms
proof (induction rule: dispatched.induct)
  case (failed s e)
  then show ?case by (simp add: answerable_def)
next
  case (unissued call s s1 e)
  then show ?case
    using flight_world [of _ "snd s" _ _ "fst s"] by (simp add: answerable_def issue_Inl [OF unissued(1)])
next
  case (refused call s s1 n h)
  then show ?case using handles_valid [OF _ issue_Inr(3) [OF refused(1)]] by auto
next
  case (answered s v)
  then show ?case by (simp add: answerable_def flight_reply ledger_reply)
next
  case (cancelled s r t v)
  have "flight (cl_pending (fst s)) {k} (with_flags (cancel t) s)"
    using cancelled flight_world [of _ "snd s" _ _ "fst s"] by simp
  with cancelled show ?case by (simp add: answerable_def flight_reply ledger_reply)
next
  case (plain call s s1 n h)
  then show ?case
    using flight_watch [OF plain(5,1) _ plain(8), of "[]"] issue_fst [OF plain(1)] flight_watch_call [of k n "[]" s1 "{}"]
    by (simp add: answerable_def ledger_pending)
next
  case (operating call s s1 n h)
  then show ?case
    using flight_watch [OF operating(5,1) _ operating(8), of "h_request h"] issue_fst [OF operating(1)]
      own_generation_keeps(1) [of "cl_pending (fst s) @ [\<lparr>wt_id = k, wt_call = n, wt_operation = h_request h\<rparr>]" "{}" s1 env k h]
      own_generation_keeps(2) [of env None s1 k h] own_generation_keeps(3) [of env k h s1]
      flight_watch_call [of k n "h_request h" "own_generation env k h s1" "{}"]
    by (simp add: answerable_def ledger_pending)
next
  case (chatting call s s1 n h)
  then show ?case
    using flight_chat [OF chatting(5,1) _ chatting(8)] issue_fst [OF chatting(1)]
      own_generation_keeps(1) [of "cl_pending (fst s)" "{}" s1 env k h]
      own_generation_keeps(2) [of env None s1 k h] own_generation_keeps(3) [of env k h s1]
    by (simp add: answerable_def)
qed simp

section \<open>The world around a connection\<close>

lemma grows_with_flags: "grows n w (w\<lparr>wd_flags := cancel t (wd_flags w)\<rparr>)"
  by (simp add: grows_def cancel_def)

lemma grows_issue: "issue env k call s = (s1, r) \<Longrightarrow> grows (cl_number (fst s)) (snd s) (snd s1)"
  by (auto simp: issue_def Let_def grows_def split: prod.splits sum.splits)

lemma grows_reply [simp]: "grows n (snd s) (snd (ipc_reply env k v s))"
    "grows n (snd s) (snd (ipc_error env k e b s))"
  by (simp_all add: ipc_reply_def ipc_error_def Let_def)

lemma grows_own: "grows n (snd s) (snd (own_generation env k h s))"
  by (cases s) (simp add: own_generation_def grows_send [of n "(_, _)", simplified])

lemma grows_dispatched: "dispatched env k s p \<Longrightarrow> grows (cl_number (fst s)) (snd s) (snd (fst p))"
proof (induction rule: dispatched.induct)
  case (refused call s s1 n h)
  then show ?case using grows_trans [OF grows_issue grows_with_flags] by simp
next
  case (cancelled s r t v)
  have "grows (cl_number (fst s)) (snd s) (snd (with_flags (cancel t) s))" by (simp add: grows_with_flags)
  then show ?case using grows_trans grows_reply(1) by fastforce
next
  case (operating call s s1 n h)
  then show ?case using grows_trans [OF grows_issue grows_own] by simp
next
  case (chatting call s s1 n h)
  then show ?case using grows_trans [OF grows_issue grows_own] by simp
qed (simp_all add: grows_issue)

lemma grows_handle: "grows (cl_number (fst s)) (snd s) (snd (handle_frame env line s))"
proof -
  have request: "grows (cl_number (fst s)) (snd s) (snd (handle_request env request s))" for request
  proof -
    let ?s = "\<lambda>k. ((fst s)\<lparr>cl_ids := insert k (cl_ids (fst s))\<rparr>, snd s)"
    have went: "grows (cl_number (fst s)) (snd s) (snd (fst (dispatch_request env request k verb (?s k))))" for k verb
      using grows_dispatched [OF dispatch_request_cases [of env k "?s k" request verb]] by simp
    have "grows (cl_number (fst s)) (snd s) (snd (ipc_error env k e b (fst (dispatch_request env request k verb (?s k)))))"
      for k e b verb
      using grows_trans [OF went grows_reply(2)] .
    with went show ?thesis
      by (auto simp: handle_request_def case_prod_beta split: sum.split)
  qed
  then show ?thesis by (auto simp: handle_frame_def split: option.split json.split)
qed

lemma grows_fresh: "grows n w w' \<Longrightarrow> fresh_results w \<Longrightarrow> fresh_results w'"
  by (auto simp: grows_def fresh_results_def)

section \<open>Frames\<close>

definition conn_ok :: "ipc_env \<Rightarrow> conn \<Rightarrow> bool" where
  "conn_ok env s \<longleftrightarrow> ledger env None (fst s) \<and> flight (cl_pending (fst s)) {} s \<and> fresh_results (snd s)"

lemma flight_reserve:
  assumes "flight ks {} (c, w)" and "k \<notin> cl_ids c"
  shows "flight ks {k} (c\<lparr>cl_ids := insert k (cl_ids c)\<rparr>, w)"
proof -
  have left: "left_after (events_of c) (insert k (cl_ids c)) = insert k (left_after (events_of c) (cl_ids c))"
    if "queue_ok (events_of c) (cl_ids c)"
    using queue_ok_ids [OF that] assms(2) by (auto simp: left_after_def)
  have queue: "queue_ok (events_of c) (insert k (cl_ids c))" if "queue_ok (events_of c) (cl_ids c)"
    by (rule queue_ok_mono [OF that]) auto
  have apart: "k \<notin> event_id ` set (events_of c)" "k \<notin> left_after (events_of c) (cl_ids c)"
    if "queue_ok (events_of c) (cl_ids c)"
    using queue_ok_ids [OF that] assms(2) by (auto simp: left_after_def)
  show ?thesis
  proof (cases "live c")
    case True
    with assms(1) have "queue_ok (events_of c) (cl_ids c)" by (simp add: flight_def)
    from left [OF this] queue [OF this] apart [OF this] assms(1) True show ?thesis
      by (simp add: flight_def live_def)
  qed (auto simp: flight_def live_def)
qed

lemma string_field_nonempty: "string_field o1 key True = Inr k \<Longrightarrow> k \<noteq> []"
  by (auto simp: string_field_def Let_def throwq_def trimmed_def split: if_splits)

lemma handle_request_keeps:
  assumes "documented (ie_catalog env)" and "handles_ok env" and "fresh_results (snd s)"
    and "ledger env (Some (case string_field request ''id'' True of Inr k \<Rightarrow> k | Inl _ \<Rightarrow> [])) (fst s)"
    and "flight (cl_pending (fst s)) {} s"
  shows "ledger env None (fst (handle_request env request s)) \<and>
     flight (cl_pending (fst (handle_request env request s))) {} (handle_request env request s)"
proof (cases "string_field request ''id'' True")
  case (Inl e)
  then show ?thesis using assms by (simp add: handle_request_def ledger_refuse flight_refuse)
next
  case (Inr k)
  obtain c w where s: "s = (c, w)" by (cases s)
  show ?thesis
  proof (cases "accept_request env request k c")
    case (Inl e)
    then show ?thesis using assms Inr by (simp add: handle_request_def s ledger_refuse flight_refuse)
  next
    case accepted: (Inr verb)
    let ?s = "(c\<lparr>cl_ids := insert k (cl_ids c)\<rparr>, w)"
    have new: "k \<notin> cl_ids c"
      using accepted by (auto simp: accept_request_def bindr_def require_def throw_def split: if_splits)
    obtain s1 r where d: "dispatch_request env request k verb ?s = (s1, r)" by (metis prod.exhaust)
    have "answerable env k (s1, r)"
    proof (rule dispatched_keeps [of env k ?s])
      show "dispatched env k ?s (s1, r)" using dispatch_request_cases [of env k ?s request verb] by (simp add: d)
      show "flight (cl_pending (fst ?s)) {k} ?s" using assms(5) new by (simp add: s flight_reserve)
      show "ledger env None (fst ?s)"
        using assms(4) new by (auto simp: s Inr ledger_def frames_of_def finals_of_def)
    qed (use assms in \<open>simp_all add: s\<close>)
    then show ?thesis
      by (cases r) (auto simp: handle_request_def s Inr accepted d answerable_def intro: ledger_error flight_error)
  qed
qed

lemma handle_frame_keeps:
  assumes "documented (ie_catalog env)" and "handles_ok env" and "fresh_results (snd s)"
    and "ledger env (Some (frame_id env line)) (fst s)" and "flight (cl_pending (fst s)) {} s"
  shows "conn_ok env (handle_frame env line s)"
proof -
  have "fresh_results (snd (handle_frame env line s))" using grows_fresh [OF grows_handle] assms(3) .
  moreover have "ledger env None (fst (handle_frame env line s)) \<and>
     flight (cl_pending (fst (handle_frame env line s))) {} (handle_frame env line s)"
  proof (cases "\<exists>request. ie_parse env line = Some (JObj request)")
    case True
    then show ?thesis
      using handle_request_keeps [OF assms(1,2,3)] assms(4,5) by (auto simp: handle_frame_def frame_id_def)
  next
    case False
    then have "frame_id env line = []" and
      "handle_frame env line s = ipc_error env [] (Error ProtocolError (qs ''Expected one JSON object per line'')) False s"
      by (auto simp: handle_frame_def frame_id_def split: option.split json.split)
    then show ?thesis using assms(4,5) by (simp add: ledger_refuse flight_refuse)
  qed
  ultimately show ?thesis by (simp add: conn_ok_def)
qed

lemma abort_keeps: "conn_ok env s \<Longrightarrow> conn_ok env (socket_abort s)"
  using ledger_gone [OF socket_abort_gone [of s]] flight_gone [OF socket_abort_gone [of s]] grows_fresh [OF grows_abort]
  by (simp add: conn_ok_def)

lemma take_frame_simps [simp]:
  "fst (take_frame line rest s) = (fst s)\<lparr>cl_input := rest, cl_frames := cl_frames (fst s) @ [line]\<rparr>"
  "snd (take_frame line rest s) = snd s"
  by (simp_all add: take_frame_def split: prod.split)

lemma take_frame_keeps:
  assumes "conn_ok env s"
  shows "fresh_results (snd (take_frame line rest s)) \<and> ledger env (Some (frame_id env line)) (fst (take_frame line rest s)) \<and>
     flight (cl_pending (fst (take_frame line rest s))) {} (take_frame line rest s)"
  using assms by (cases s) (auto simp: conn_ok_def ledger_def frames_of_def finals_of_def flight_def live_def take_frame_def)

lemma read_frames_keeps:
  assumes "documented (ie_catalog env)" and "handles_ok env" and "conn_ok env s"
  shows "conn_ok env (read_frames env s)"
  using assms
proof (induction env s rule: read_frames.induct)
  case (1 env s)
  show ?case
  proof (cases "split_line (cl_input (fst s))")
    case None
    with 1 show ?thesis by (simp add: read_frames.simps [of env s] abort_keeps)
  next
    case (Some p)
    obtain line rest where p: "p = (line, rest)" by (cases p)
    have next_ok: "conn_ok env (handle_frame env line (take_frame line rest s))"
      using handle_frame_keeps take_frame_keeps 1(2-4) by blast
    have "conn_ok env (read_frames env (handle_frame env line (take_frame line rest s)))"
      if "\<not> max_frame_bytes (ie_options env) < int (length line)"
      using 1(1) [OF Some p [symmetric] that] next_ok 1(2,3) that by simp
    moreover have "conn_ok env (socket_abort s)"
      using 1(4) by (rule abort_keeps)
    ultimately show ?thesis using Some p by (simp add: read_frames.simps [of env s])
  qed
qed

section \<open>Steps of a connection and the other connections\<close>

lemma grows_read: "grows (cl_number (fst s)) (snd s) (snd (read_frames env s))"
proof (induction env s rule: read_frames.induct)
  case (1 env s)
  show ?case
  proof (cases "split_line (cl_input (fst s))")
    case None
    then show ?thesis by (simp add: read_frames.simps [of env s])
  next
    case (Some p)
    obtain line rest where p: "p = (line, rest)" by (cases p)
    let ?t = "take_frame line rest s"
    let ?h = "handle_frame env line ?t"
    have n: "cl_number (fst ?h) = cl_number (fst s)"
      using reading_handle [of env line ?t] by (simp add: reading_def)
    have h: "grows (cl_number (fst s)) (snd s) (snd ?h)" using grows_handle [of ?t env line] by simp
    have "grows (cl_number (fst s)) (snd s) (snd (read_frames env ?h))"
      if "\<not> max_frame_bytes (ie_options env) < int (length line)"
      using 1(1) [OF Some p [symmetric] that] grows_trans [OF h] by (simp add: n)
    then show ?thesis using Some p by (simp add: read_frames.simps [of env s])
  qed
qed

lemma number_read: "cl_number (fst (read_frames env s)) = cl_number (fst s)"
proof (induction env s rule: read_frames.induct)
  case (1 env s)
  show ?case
  proof (cases "split_line (cl_input (fst s))")
    case None
    then show ?thesis using reading_abort [of s] by (simp add: read_frames.simps [of env s] reading_def)
  next
    case (Some p)
    obtain line rest where p: "p = (line, rest)" by (cases p)
    have n: "cl_number (fst (handle_frame env line (take_frame line rest s))) = cl_number (fst s)"
      using reading_handle [of env line "take_frame line rest s"] by (simp add: reading_def)
    show ?thesis using Some p 1 [OF Some p [symmetric]] n reading_abort [of s]
      by (simp add: read_frames.simps [of env s] reading_def)
  qed
qed

lemma send_event_snd [simp]: "snd (send_event env e s) = snd (ipc_send env e s)"
  by (cases "ipc_send env e s") (simp add: send_event_def)

lemma send_event_reading [simp]: "reading (send_event env e s) = reading s"
  using reading_send [of env e s] by (cases "ipc_send env e s") (simp add: send_event_def reading_def)

lemma grows_events: "grows n (snd s) (snd (fold (send_event env) es s))"
proof (induction es arbitrary: s)
  case (Cons e es)
  have "grows n (snd s) (snd (send_event env e s))" by simp
  with Cons.IH [of "send_event env e s"] show ?case using grows_trans by fastforce
qed simp

lemma reading_events [simp]: "reading (fold (send_event env) es s) = reading s"
  by (induction es arbitrary: s) simp_all

lemma drain_frame:
  "grows n (snd s) (snd (fst (drain env s)))" "cl_number (fst (fst (drain env s))) = cl_number (fst s)"
proof -
  obtain c w where s: "s = (c, w)" by (cases s)
  let ?s = "(c\<lparr>cl_inbox := (cl_inbox c)\<lparr>in_events := [], in_bytes := 0\<rparr>\<rparr>, w)"
  have d: "fst (drain env s) = (if in_overflow (cl_inbox c) \<or> in_closed (cl_inbox c)
      then (fst (socket_abort ?s), cancel_all (fst (socket_abort ?s)) (snd (socket_abort ?s)))
      else fold (send_event env) (events_of c) ?s)"
    by (simp add: s drain_def Let_def split: prod.split)
  show "grows n (snd s) (snd (fst (drain env s)))"
    using grows_trans [OF grows_abort [of n ?s] grows_cancel_all] grows_events [of n ?s env "events_of c"]
    unfolding d by (simp add: s)
  show "cl_number (fst (fst (drain env s))) = cl_number (fst s)"
    using reading_abort [of ?s] reading_events [of env "events_of c" ?s] unfolding d by (simp add: s reading_def)
qed

lemma run_watch_frame:
  "grows n (snd s) (snd (fst (run_watch env k s)))" "cl_number (fst (fst (run_watch env k s))) = cl_number (fst s)"
proof -
  have "grows n (snd s) (snd (fst (run_watch env k s))) \<and> cl_number (fst (fst (run_watch env k s))) = cl_number (fst s)"
  proof (cases "wd_results (snd s) (wt_call k)")
    case (Some r)
    obtain s' b where d: "drain env s = (s', b)" by (metis prod.exhaust)
    from drain_frame(1) [of n s env] drain_frame(2) [of env s] d have keep: "grows n (snd s) (snd s')" "cl_number (fst s') = cl_number (fst s)" by simp_all
    have replies: "grows n (snd s) (snd (ipc_reply env i v (disowned k s')))"
        "grows n (snd s) (snd (ipc_error env i e b (disowned k s')))"
        "cl_number (fst (ipc_reply env i v (disowned k s'))) = cl_number (fst s)"
        "cl_number (fst (ipc_error env i e b (disowned k s'))) = cl_number (fst s)" for i v e b
      using grows_trans [OF keep(1) grows_reply(1) [of n "disowned k s'", unfolded snd_conv]]
        grows_trans [OF keep(1) grows_reply(2) [of n "disowned k s'", unfolded snd_conv]]
        reading_reply [of env i v "disowned k s'"] reading_error [of env i e b "disowned k s'"] keep(2)
      by (simp_all add: reading_def)
    show ?thesis
    proof (cases b)
      case True
      with run_watch_drained [OF Some] d replies show ?thesis by (auto split: sum.split)
    next
      case False
      with Some d keep show ?thesis by (simp add: run_watch_def)
    qed
  qed (simp add: run_watch_def)
  then show "grows n (snd s) (snd (fst (run_watch env k s)))"
    "cl_number (fst (fst (run_watch env k s))) = cl_number (fst s)" by simp_all
qed

lemma run_pending_frame:
  "grows n (snd s) (snd (fst (run_pending env ks s))) \<and> cl_number (fst (fst (run_pending env ks s))) = cl_number (fst s)"
proof (induction ks arbitrary: s)
  case (Cons k ks)
  obtain s2 ready where w: "run_watch env k s = (s2, ready)" by (metis prod.exhaust)
  from run_watch_frame(1) [of n s env k] run_watch_frame(2) [of env k s] w have "grows n (snd s) (snd s2)" "cl_number (fst s2) = cl_number (fst s)" by simp_all
  with Cons.IH [of s2] w show ?case by (auto split: prod.split dest: grows_trans)
qed simp

lemma poll_client_frame:
  "grows n (snd s) (snd (fst (poll_client env s)))" "cl_number (fst (fst (poll_client env s))) = cl_number (fst s)"
proof -
  have gone: "grows n (snd t) (snd (disconnect_client t))" "cl_number (fst (disconnect_client t)) = cl_number (fst t)" for t
    by (simp_all add: disconnect_client_def split: prod.split)
  obtain s1 b where d: "drain env s = (s1, b)" by (metis prod.exhaust)
  from drain_frame(1) [of n s env] drain_frame(2) [of env s] d have keep: "grows n (snd s) (snd s1)" "cl_number (fst s1) = cl_number (fst s)" by simp_all
  obtain c w rest where p: "run_pending env (cl_pending (fst s1)) s1 = ((c, w), rest)" by (metis prod.exhaust)
  from run_pending_frame [of n s1 env "cl_pending (fst s1)"] p
  have keep2: "grows n (snd s1) w" "cl_number c = cl_number (fst s1)" by simp_all
  show "grows n (snd s) (snd (fst (poll_client env s)))" "cl_number (fst (fst (poll_client env s))) = cl_number (fst s)"
    using gone keep keep2 grows_trans [OF keep(1)] d p
    by (cases b; simp add: poll_client_def)+
qed

lemma running_grows:
  assumes "grows n w w'" and "m \<noteq> n"
  shows "running w' m = running w m"
proof -
  from assms(1) obtain new where new: "wd_calls w' = wd_calls w @ new" "\<forall>x \<in> set new. is_client x = n"
    and results: "wd_results w' = wd_results w"
    by (auto simp: grows_def)
  have "filter (\<lambda>(i, x). is_client x = m \<and> is_chat (is_call x) \<and> wd_results w i = None)
      (enumerate (length (wd_calls w)) new) = []"
    using new(2) assms(2) by (auto simp: filter_empty_conv in_set_enumerate_eq)
  then show ?thesis by (simp add: running_def new(1) results enumerate_append_eq)
qed

lemma flight_other:
  assumes "grows n w w'" and "cl_number c \<noteq> n"
  shows "flight ks rs (c, w') \<longleftrightarrow> flight ks rs (c, w)"
proof -
  from assms(1) obtain new where new: "wd_calls w' = wd_calls w @ new" "\<forall>x \<in> set new. is_client x = n"
    and results: "wd_results w' = wd_results w"
    by (auto simp: grows_def)
  have "wd_calls w' ! i = wd_calls w ! i" if "is_client (wd_calls w' ! i) = cl_number c" "i < length (wd_calls w')" for i
    using new that assms(2) by (auto simp: nth_append split: if_splits dest: nth_mem)
  moreover have "i < length (wd_calls w)" if "is_client (wd_calls w' ! i) = cl_number c" "i < length (wd_calls w')" for i
    using new that assms(2) by (auto simp: nth_append not_less split: if_splits)
  moreover have "wd_calls w' ! i = wd_calls w ! i \<and> i < length (wd_calls w')" if "i < length (wd_calls w)" for i
    using new that by (simp add: nth_append)
  ultimately have "all_watched ks (cl_number c) w' \<longleftrightarrow> all_watched ks (cl_number c) w"
    unfolding all_watched_def results by (intro iffI allI impI) metis+
  with running_grows [OF assms] show ?thesis by (simp add: flight_def)
qed

end
