(* ===== verification/IpcRuns.thy ===== *)
theory IpcRuns
  imports IpcRules
begin

text \<open>
  Runs of the socket server: the invariants of the connections along every sequence of events, and
  the properties they give.
\<close>

section \<open>Every request is answered\<close>

definition clients_ok :: "ipc_env \<Rightarrow> client list \<Rightarrow> world \<Rightarrow> bool" where
  "clients_ok env cs w \<longleftrightarrow> fresh_results w \<and> (\<forall>c \<in> set cs. ledger env None c \<and> settled_flight c w)"

definition server_ok :: "ipc_env \<Rightarrow> ipc_server \<Rightarrow> bool" where
  "server_ok env s \<longleftrightarrow> clients_ok env (ip_clients s) (ip_world s) \<and> distinct (map cl_number (ip_clients s)) \<and>
     (\<forall>c \<in> set (ip_clients s). cl_number c < ip_next s) \<and>
     (\<forall>x \<in> set (wd_calls (ip_world s)). is_client x < ip_next s)"

lemma conn_ok_client: "fresh_results w \<Longrightarrow> conn_ok env (c, w) \<longleftrightarrow> ledger env None c \<and> settled_flight c w"
  by (simp add: conn_ok_def settled_flight_def)

lemma flight_new: "running w n = [] \<Longrightarrow> all_watched [] n w \<Longrightarrow> settled_flight (new_client n) w"
  by (simp add: settled_flight_def flight_def new_client_def empty_inbox_def)

lemma ledger_new: "ledger env None (new_client n)"
  by (simp add: ledger_def frames_of_def finals_of_def new_client_def)

lemma unissued_client:
  assumes "\<forall>x \<in> set (wd_calls w). is_client x < n"
  shows "running w n = []" and "all_watched ks n w"
  using assms by (auto simp: running_def all_watched_def filter_empty_conv in_set_enumerate_eq dest: nth_mem)

text \<open>An operation on one client that keeps the invariant of its connection keeps them all.\<close>

lemma find_number:
  assumes "find (\<lambda>c. cl_number c = n) cs = Some c"
  shows "c \<in> set cs" and "cl_number c = n"
  using assms by (auto simp: find_Some_iff)

lemma on_client_ok:
  assumes "server_ok env s"
    and keep: "\<And>c w. cl_number c = n \<Longrightarrow> conn_ok env (c, w) \<Longrightarrow> conn_ok env (f (c, w))"
    and frame: "\<And>c w. cl_number c = n \<Longrightarrow> grows n w (snd (f (c, w))) \<and> cl_number (fst (f (c, w))) = n"
  shows "server_ok env (on_client n f s)"
proof (cases "find (\<lambda>c. cl_number c = n) (ip_clients s)")
  case None
  with assms show ?thesis by (simp add: on_client_def)
next
  case (Some c)
  note c = find_number [OF Some]
  obtain c' w' where f: "f (c, ip_world s) = (c', w')" by (cases "f (c, ip_world s)")
  from frame [OF c(2), of "ip_world s"] have g: "grows n (ip_world s) w'" and n: "cl_number c' = n" by (simp_all add: f)
  from assms(1) have fresh: "fresh_results (ip_world s)" and
    all_ok: "\<And>d. d \<in> set (ip_clients s) \<Longrightarrow> ledger env None d \<and> settled_flight d (ip_world s)"
    by (auto simp: server_ok_def clients_ok_def)
  have fresh': "fresh_results w'" using grows_fresh [OF g fresh] .
  have "conn_ok env (c', w')" using keep [OF c(2), of "ip_world s"] all_ok [OF c(1)] fresh by (simp add: f conn_ok_client)
  moreover have "settled_flight d w'" if "d \<in> set (ip_clients s)" "cl_number d \<noteq> n" for d
    using all_ok [OF that(1)] flight_other [OF g that(2)] by (simp add: settled_flight_def)
  ultimately have "clients_ok env (map (\<lambda>d. if cl_number d = n then c' else d) (ip_clients s)) w'"
    using fresh' all_ok by (auto simp: clients_ok_def conn_ok_client)
  moreover have "map cl_number (map (\<lambda>d. if cl_number d = n then c' else d) (ip_clients s)) = map cl_number (ip_clients s)"
    by (simp add: n)
  then have "distinct (map cl_number (map (\<lambda>d. if cl_number d = n then c' else d) (ip_clients s)))"
    using assms(1) by (simp only: server_ok_def)
  moreover have "\<forall>x \<in> set (wd_calls w'). is_client x < ip_next s"
    using g assms(1) c by (auto simp: grows_def server_ok_def)
  ultimately show ?thesis
    using assms(1) n c by (auto simp: on_client_def Some f server_ok_def simp del: map_map)
qed

lemma conn_ok_rpc: "conn_ok (env\<lparr>ie_rpc := b\<rparr>) s \<longleftrightarrow> conn_ok env s"
  by (simp add: conn_ok_def ledger_def frames_of_def frame_id_def)

lemma read_client_ok:
  assumes "documented (ie_catalog env)" and "handles_ok env" and "conn_ok env s"
  shows "conn_ok env (read_client (env\<lparr>ie_rpc := b\<rparr>) bytes s)"
proof (cases s)
  case (Pair c w)
  have "conn_ok (env\<lparr>ie_rpc := b\<rparr>) (c\<lparr>cl_input := cl_input c @ bytes\<rparr>, w)"
    using assms(3) by (simp add: Pair conn_ok_def ledger_def frames_of_def frame_id_def finals_of_def flight_def live_def)
  with assms(1,2) show ?thesis
    unfolding Pair read_client_def by (simp flip: conn_ok_rpc [where env = env and b = b])
      (rule read_frames_keeps, simp_all add: handles_ok_def)
qed

lemma read_client_frame:
  "grows (cl_number (fst s)) (snd s) (snd (read_client env bytes s)) \<and> cl_number (fst (read_client env bytes s)) = cl_number (fst s)"
  using grows_read [of "((fst s)\<lparr>cl_input := cl_input (fst s) @ bytes\<rparr>, snd s)" env]
    number_read [of env "((fst s)\<lparr>cl_input := cl_input (fst s) @ bytes\<rparr>, snd s)"]
  by (cases s) (simp add: read_client_def)

text \<open>A report of a running call, and the end of a call.\<close>

lemma running_open:
  assumes "call_open w n" and "is_chat (is_call (wd_calls w ! n))"
  shows "is_id (wd_calls w ! n) \<in> set (running w (is_client (wd_calls w ! n)))"
proof -
  have "(n, wd_calls w ! n) \<in> set (enumerate 0 (wd_calls w))"
    using assms by (simp add: call_open_def in_set_enumerate_eq)
  with assms show ?thesis by (force simp: running_def call_open_def)
qed

lemma flight_report:
  assumes "flight ks {} (c, w)" and "call_open w n" and "is_client (wd_calls w ! n) = cl_number c"
    and e: "event_shape e" "event_id e = is_id (wd_calls w ! n)" "\<not> is_done e"
  shows "flight ks {} (c\<lparr>cl_inbox := push_event env e (cl_inbox c)\<rparr>, w)"
proof (cases "live (c\<lparr>cl_inbox := push_event env e (cl_inbox c)\<rparr>)")
  case True
  then have alive: "live c" and push: "in_events (push_event env e (cl_inbox c)) = events_of c @ [e]"
    by (auto simp: live_def push_event_def split: if_splits)
  have "event_id e \<in> left_after (events_of c) (cl_ids c)"
  proof (cases "is_chat (is_call (wd_calls w ! n))")
    case True
    with running_open [OF assms(2)] assms(1,3) e(2) alive show ?thesis by (auto simp: flight_def)
  next
    case False
    from assms(1) alive have "all_watched ks (cl_number c) w"
      and left: "left_after (events_of c) (cl_ids c) = wt_id ` set ks \<union> set (running w (cl_number c))"
      by (auto simp: flight_def)
    with assms(2,3) False obtain k where "k \<in> set ks" "wt_id k = event_id e"
      unfolding all_watched_def call_open_def e(2) by blast
    with left show ?thesis by (metis UnI1 image_eqI)
  qed
  with assms(1) alive e show ?thesis
    by (simp add: flight_def push queue_ok_append left_after_append live_def)
qed (simp add: flight_def)

definition with_result :: "nat \<Rightarrow> ipc_value res \<Rightarrow> world \<Rightarrow> world" where
  "with_result n r w = w\<lparr>wd_results := (wd_results w)(n \<mapsto> r)\<rparr>"

definition open_chats :: "world \<Rightarrow> nat \<Rightarrow> (nat \<times> issued) list" where
  "open_chats w m = filter (\<lambda>(i, x). is_client x = m \<and> is_chat (is_call x) \<and> wd_results w i = None) (enumerate 0 (wd_calls w))"

lemma running_map: "running w m = map (is_id \<circ> snd) (open_chats w m)"
  by (simp add: running_def open_chats_def)

lemma open_chats_result: "open_chats (with_result n r w) m = filter (\<lambda>p. fst p \<noteq> n) (open_chats w m)"
  by (auto simp: open_chats_def with_result_def intro!: filter_cong split: if_splits)

lemma running_result:
  assumes "call_open w n" and "is_chat (is_call (wd_calls w ! n))" and "is_client (wd_calls w ! n) = m"
    and "distinct (running w m)"
  shows "distinct (running (with_result n r w) m)"
    and "set (running (with_result n r w) m) = set (running w m) - {is_id (wd_calls w ! n)}"
proof -
  let ?f = "is_id \<circ> snd :: nat \<times> issued \<Rightarrow> qstring"
  have mem: "(n, wd_calls w ! n) \<in> set (open_chats w m)"
    using assms(1-3) by (auto simp: open_chats_def call_open_def in_set_enumerate_eq)
  have unique: "x = wd_calls w ! n" if "(n, x) \<in> set (open_chats w m)" for x
    using that by (auto simp: open_chats_def in_set_enumerate_eq)
  from assms(4) have inj: "inj_on ?f (set (open_chats w m))" by (simp add: running_map distinct_map)
  show "distinct (running (with_result n r w) m)"
    using assms(4) unfolding running_map open_chats_result by (rule distinct_map_filter)
  have "?f ` set (filter (\<lambda>p. fst p \<noteq> n) (open_chats w m)) = ?f ` (set (open_chats w m) - {(n, wd_calls w ! n)})"
    by (intro arg_cong [of _ _ "image ?f"]) (auto dest: unique)
  also have "\<dots> = ?f ` set (open_chats w m) - ?f ` {(n, wd_calls w ! n)}"
    using mem by (intro inj_on_image_set_diff [OF inj]) auto
  finally have "?f ` set (filter (\<lambda>p. fst p \<noteq> n) (open_chats w m)) = ?f ` set (open_chats w m) - {is_id (wd_calls w ! n)}"
    by (simp only: image_insert image_empty comp_apply snd_conv)
  then show "set (running (with_result n r w) m) = set (running w m) - {is_id (wd_calls w ! n)}"
    by (simp add: running_map open_chats_result del: set_filter)
qed

lemma running_result_other:
  assumes "is_client (wd_calls w ! n) \<noteq> m \<or> \<not> is_chat (is_call (wd_calls w ! n))"
  shows "running (with_result n r w) m = running w m"
proof -
  have "\<forall>p \<in> set (open_chats w m). fst p \<noteq> n"
    using assms by (auto simp: open_chats_def in_set_enumerate_eq)
  then have "filter (\<lambda>p. fst p \<noteq> n) (open_chats w m) = open_chats w m"
    by (auto simp: filter_id_conv)
  then show ?thesis by (simp add: running_map open_chats_result)
qed

lemma watched_result: "all_watched ks m w \<Longrightarrow> all_watched ks m (with_result n r w)"
  by (auto simp: all_watched_def with_result_def)

lemma flight_result_other:
  assumes "flight ks rs (c, w)" and "is_client (wd_calls w ! n) \<noteq> cl_number c \<or> \<not> is_chat (is_call (wd_calls w ! n))"
  shows "flight ks rs (c, with_result n r w)"
  using assms running_result_other [OF assms(2)] by (simp add: flight_def watched_result)

lemma flight_completion:
  assumes "flight ks {} (c, w)" and "call_open w n" and "is_chat (is_call (wd_calls w ! n))"
    and "is_client (wd_calls w ! n) = cl_number c"
    and e: "event_shape e" "event_id e = is_id (wd_calls w ! n)" "is_done e"
  shows "flight ks {} (c\<lparr>cl_inbox := push_event env e (cl_inbox c)\<rparr>, with_result n r w)"
proof (cases "live (c\<lparr>cl_inbox := push_event env e (cl_inbox c)\<rparr>)")
  case True
  then have alive: "live c" and push: "in_events (push_event env e (cl_inbox c)) = events_of c @ [e]"
    by (auto simp: live_def push_event_def split: if_splits)
  let ?k = "is_id (wd_calls w ! n)"
  from assms(1) alive have f: "queue_ok (events_of c) (cl_ids c)"
    "left_after (events_of c) (cl_ids c) = wt_id ` set ks \<union> set (running w (cl_number c))"
    "distinct (map wt_id ks)" "distinct (running w (cl_number c))"
    "wt_id ` set ks \<inter> set (running w (cl_number c)) = {}" "all_watched ks (cl_number c) w"
    by (auto simp: flight_def)
  note k = running_open [OF assms(2,3), unfolded assms(4)]
  note rest = running_result [OF assms(2-4) f(4)]
  have "?k \<notin> wt_id ` set ks" using f(5) k by blast
  then have "left_after (events_of c) (cl_ids c) - {?k} = wt_id ` set ks \<union> set (running (with_result n r w) (cl_number c))"
    using f(2) rest(2) by auto
  moreover have "wt_id ` set ks \<inter> set (running (with_result n r w) (cl_number c)) = {}" using f(5) rest(2) by auto
  ultimately show ?thesis
    using f k e rest(1) True by (simp add: flight_def push queue_ok_append left_after_append watched_result)
qed (simp add: flight_def)

lemma set_result_of_world: "set_result_of n r s = s\<lparr>ip_world := with_result n r (ip_world s)\<rparr>"
  by (simp add: set_result_of_def with_result_def)

lemma with_result_calls [simp]: "wd_calls (with_result n r w) = wd_calls w" "wd_flags (with_result n r w) = wd_flags w"
  by (simp_all add: with_result_def)

lemma fresh_with_result: "fresh_results w \<Longrightarrow> call_open w n \<Longrightarrow> fresh_results (with_result n r w)"
  by (auto simp: fresh_results_def with_result_def call_open_def)

lemma ledger_inbox: "ledger env owed (c\<lparr>cl_inbox := i\<rparr>) = ledger env owed c"
  by (simp add: ledger_def frames_of_def finals_of_def)

lemma flight_inbox_pending: "settled_flight (c\<lparr>cl_inbox := i\<rparr>) w = flight (cl_pending c) {} (c\<lparr>cl_inbox := i\<rparr>, w)"
  by (simp add: settled_flight_def)

lemma on_client_pure:
  assumes "distinct (map cl_number (ip_clients s))"
  shows "on_client m (\<lambda>(c, w). (f c, w)) s =
     s\<lparr>ip_clients := map (\<lambda>d. if cl_number d = m then f d else d) (ip_clients s)\<rparr>"
proof (cases "find (\<lambda>c. cl_number c = m) (ip_clients s)")
  case None
  then have "map (\<lambda>d. if cl_number d = m then f d else d) (ip_clients s) = ip_clients s"
    by (intro map_idI) (auto simp: find_None_iff)
  with None show ?thesis by (simp add: on_client_def)
next
  case (Some c)
  have "d = c" if "d \<in> set (ip_clients s)" "cl_number d = m" for d
    using assms find_number [OF Some] that by (auto simp: distinct_map inj_on_def)
  then have "map (\<lambda>d. if cl_number d = m then f c else d) (ip_clients s) = map (\<lambda>d. if cl_number d = m then f d else d) (ip_clients s)"
    by auto
  with Some show ?thesis by (simp add: on_client_def)
qed

lemma replace_ok:
  assumes "server_ok env s" and "fresh_results w'" and "wd_calls w' = wd_calls (ip_world s)"
    and "\<And>c. ledger env None (f c) = ledger env None c" and "\<And>c. cl_number (f c) = cl_number c"
    and "\<And>c. settled_flight c (ip_world s) \<Longrightarrow> cl_number c = m \<Longrightarrow> settled_flight (f c) w'"
    and "\<And>c. settled_flight c (ip_world s) \<Longrightarrow> cl_number c \<noteq> m \<Longrightarrow> settled_flight c w'"
  shows "server_ok env (s\<lparr>ip_clients := map (\<lambda>d. if cl_number d = m then f d else d) (ip_clients s), ip_world := w'\<rparr>)"
proof -
  let ?g = "\<lambda>d. if cl_number d = m then f d else d"
  have "map cl_number (map ?g (ip_clients s)) = map cl_number (ip_clients s)" by (simp add: assms(5))
  then have "distinct (map cl_number (map ?g (ip_clients s)))" using assms(1) by (simp only: server_ok_def)
  moreover have "clients_ok env (map ?g (ip_clients s)) w'"
    using assms(1,2,4,6,7) by (auto simp: clients_ok_def server_ok_def)
  ultimately show ?thesis using assms(1,3,5) by (auto simp: server_ok_def simp del: map_map)
qed

lemma push_report_ok:
  assumes "server_ok env s"
  shows "server_ok env (push_report env n r s)"
proof (cases "call_open (ip_world s) n \<and> stamped (h_request (is_handle (wd_calls (ip_world s) ! n))) r")
  case True
  let ?call = "wd_calls (ip_world s) ! n"
  from assms have fresh: "fresh_results (ip_world s)" and numbers: "distinct (map cl_number (ip_clients s))"
    by (auto simp: server_ok_def clients_ok_def)
  show ?thesis
  proof (cases "report_object (is_call ?call) (is_id ?call) r")
    case (Some e)
    note shape = report_shape [OF Some]
    have chat: "is_chat (is_call ?call)" if "finishes r"
      using that Some by (cases "(is_call ?call, is_id ?call, r)" rule: report_object.cases) auto
    define f :: "client \<Rightarrow> client" where "f c = c\<lparr>cl_inbox := push_event env e (cl_inbox c)\<rparr>" for c
    define w' where "w' = (if finishes r then with_result n (Inr VDone) (ip_world s) else ip_world s)"
    have report: "push_report env n r s = s\<lparr>ip_clients := map (\<lambda>d. if cl_number d = is_client ?call then f d else d)
        (ip_clients s), ip_world := w'\<rparr>"
      using True Some on_client_pure [OF numbers, of "is_client ?call" f]
      by (simp add: push_report_def Let_def set_result_of_world w'_def f_def)
    have "settled_flight (f c) w'" if "settled_flight c (ip_world s)" "cl_number c = is_client ?call" for c
      using that True shape chat
      by (auto simp: f_def w'_def settled_flight_def intro: flight_completion flight_report)
    moreover have "settled_flight c w'" if "settled_flight c (ip_world s)" "cl_number c \<noteq> is_client ?call" for c
      using that by (auto simp: w'_def settled_flight_def intro: flight_result_other)
    moreover have "fresh_results w'" using fresh True by (simp add: w'_def fresh_with_result)
    ultimately show ?thesis unfolding report
      by (intro replace_ok assms) (simp_all add: f_def ledger_inbox w'_def)
  qed (use assms True in \<open>simp add: push_report_def Let_def\<close>)
qed (use assms in \<open>auto simp: push_report_def\<close>)

lemma settle_ok:
  assumes "server_ok env s"
  shows "server_ok env (settle n r s)"
proof (cases "call_open (ip_world s) n \<and> \<not> is_chat (is_call (wd_calls (ip_world s) ! n))")
  case True
  then have "settle n r s = s\<lparr>ip_world := with_result n r (ip_world s)\<rparr>" by (simp add: settle_def set_result_of_world)
  moreover have "settled_flight c (with_result n r (ip_world s))" if "settled_flight c (ip_world s)" for c
    using that True by (auto simp: settled_flight_def intro: flight_result_other)
  ultimately show ?thesis
    using assms True by (simp add: server_ok_def clients_ok_def fresh_with_result)
qed (use assms in \<open>auto simp: settle_def\<close>)

lemma poll_clients_ok:
  assumes "clients_ok env cs w" and "distinct (map cl_number cs)" and "poll_clients env cs w = (cs', w')"
    and "\<forall>x \<in> set (wd_calls w). is_client x < n" and "\<forall>c \<in> set cs. cl_number c < n"
  shows "clients_ok env cs' w' \<and> distinct (map cl_number cs') \<and> cl_number ` set cs' \<subseteq> cl_number ` set cs \<and>
     (\<forall>x \<in> set (wd_calls w'). is_client x < n) \<and>
     (\<forall>ks d. cl_number d \<notin> cl_number ` set cs \<longrightarrow> flight ks {} (d, w) \<longrightarrow> flight ks {} (d, w'))"
  using assms
proof (induction cs arbitrary: w cs' w')
  case (Cons c cs)
  obtain c1 w1 stays where p: "poll_client env (c, w) = ((c1, w1), stays)" by (metis prod.exhaust)
  obtain cs1 w2 where q: "poll_clients env cs w1 = (cs1, w2)" by (metis prod.exhaust)
  from Cons.prems(3) p q have res: "cs' = (if stays then c1 # cs1 else cs1)" "w' = w2" by simp_all
  from poll_client_frame(1) [of "cl_number c" "(c, w)" env] poll_client_frame(2) [of env "(c, w)"] p
  have g: "grows (cl_number c) w w1" and n: "cl_number c1 = cl_number c" by simp_all
  have others: "flight ks {} (d, w1) \<longleftrightarrow> flight ks {} (d, w)" if "cl_number d \<noteq> cl_number c" for ks d
    using flight_other [OF g that] .
  have "settled_flight d w1" if "d \<in> set cs" for d
  proof -
    from that Cons.prems(2) have "cl_number d \<noteq> cl_number c" by (auto simp: image_iff)
    with that Cons.prems(1) others [of d "cl_pending d"] show ?thesis by (simp add: clients_ok_def settled_flight_def)
  qed
  with Cons.prems(1) grows_fresh [OF g] have "clients_ok env cs w1" by (simp add: clients_ok_def)
  moreover have "\<forall>x \<in> set (wd_calls w1). is_client x < n"
    using g Cons.prems(4,5) by (auto simp: grows_def)
  ultimately have IH: "clients_ok env cs1 w2" "distinct (map cl_number cs1)" "cl_number ` set cs1 \<subseteq> cl_number ` set cs"
      "\<forall>x \<in> set (wd_calls w2). is_client x < n"
      "\<And>ks d. cl_number d \<notin> cl_number ` set cs \<Longrightarrow> flight ks {} (d, w1) \<Longrightarrow> flight ks {} (d, w2)"
    using Cons.IH [OF _ _ q] Cons.prems(2,5) by auto
  have "ledger env None c1 \<and> settled_flight c1 w2" if stays
    using poll_client_keeps [of env c w c1 w1] Cons.prems(1,2) p that n IH(5) [of c1 "cl_pending c1"]
    by (auto simp: clients_ok_def settled_flight_def)
  with IH res n Cons.prems(2) show ?case
    using others by (auto simp: clients_ok_def)
qed simp

lemma ipc_poll_ok:
  assumes "server_ok env s"
  shows "server_ok env (ipc_poll env s)"
proof -
  obtain cs w where p: "poll_clients env (ip_clients s) (ip_world s) = (cs, w)" by (metis prod.exhaust)
  from poll_clients_ok [OF _ _ p, of "ip_next s"] assms show ?thesis
    by (fastforce simp: ipc_poll_def p server_ok_def)
qed

lemma grows_disconnect: "grows n w (snd (disconnect_client (c, w)))"
  by (simp add: disconnect_client_def)

lemma ipc_close_ok:
  assumes "server_ok env s"
  shows "server_ok env (ipc_close s)"
proof -
  have "wd_calls (fold (\<lambda>c w. snd (disconnect_client (c, w))) cs w) = wd_calls w \<and>
      wd_results (fold (\<lambda>c w. snd (disconnect_client (c, w))) cs w) = wd_results w" for cs w
    by (induction cs arbitrary: w) (simp_all add: disconnect_client_def)
  with assms show ?thesis by (simp add: ipc_close_def server_ok_def clients_ok_def fresh_results_def)
qed

lemma accept_client_ok:
  assumes "server_ok env s"
  shows "server_ok env (accept_client env s)"
proof -
  have "settled_flight (new_client (ip_next s)) (ip_world s)"
    using assms by (intro flight_new unissued_client) (auto simp: server_ok_def)
  with assms ledger_new show ?thesis
    by (fastforce simp: accept_client_def server_ok_def clients_ok_def new_client_def)
qed

lemma written_ok: "conn_ok env (c, w) \<Longrightarrow> conn_ok env (c\<lparr>cl_unsent := u\<rparr>, w)"
  by (simp add: conn_ok_def ledger_def frames_of_def finals_of_def flight_def live_def)

lemma ipc_step_ok:
  assumes "documented (ie_catalog env)" and "handles_ok env" and "server_ok env s"
  shows "server_ok env (ipc_step env e s)"
proof (cases e)
  case (Receive n bytes)
  show ?thesis
    unfolding ipc_step_def Receive ipc_event.case
    using read_client_frame [of "(_, _)"]
    by (intro on_client_ok [OF assms(3)]) (auto simp: read_client_ok assms(1,2))
next
  case (Written n k)
  show ?thesis
    unfolding ipc_step_def Written ipc_event.case
    by (intro on_client_ok [OF assms(3)]) (auto simp: written_ok)
next
  case (HangUp n)
  show ?thesis
    unfolding ipc_step_def HangUp ipc_event.case
    using reading_abort [of "(_, _)"] grows_abort [of _ "(_, _)"]
    by (intro on_client_ok [OF assms(3)]) (auto simp: abort_keeps reading_def)
qed (use assms(3) in \<open>simp_all add: ipc_step_def accept_client_ok push_report_ok settle_ok ipc_poll_ok ipc_close_ok\<close>)

lemma reachable_ok:
  assumes "ipc_reachable env s" and "documented (ie_catalog env)" and "handles_ok env"
  shows "server_ok env s"
  using assms
proof (induction rule: ipc_reachable.induct)
  case (made st s)
  then show ?case
    by (auto simp: make_ipc_server_def bindr_def require_def throw_def server_ok_def clients_ok_def fresh_results_def
      split: if_splits)
next
  case (listened s ep name)
  then show ?case by (simp add: ipc_listen_def server_ok_def)
next
  case (handler s b s1)
  then show ?case
    by (auto simp: set_rpc_handler_def bindr_def require_def throw_def server_ok_def split: if_splits)
next
  case (stepped s e)
  then show ?case by (simp add: ipc_step_ok)
qed

end
