(* ===== verification/IpcOwners.thy ===== *)
theory IpcOwners
  imports IpcRuns
begin

text \<open>
  Who may cancel what: a pull, a chat or an extension call that has no result yet is owned by the
  connection it was made for, under the request identifier of its handle, until it is cancelled. A
  connection that goes away therefore leaves no such call running.
\<close>

section \<open>Ownership\<close>

definition issued_ok :: "ipc_env \<Rightarrow> world \<Rightarrow> bool" where
  "issued_ok env w \<longleftrightarrow> (\<exists>ts. distinct ts \<and> (\<forall>t \<in> set ts. t < wd_tick w) \<and>
     list_all2 (\<lambda>t x. ie_submit env t (is_call x) = Inr (is_handle x)) ts (wd_calls w))"

abbreviation request_of :: "world \<Rightarrow> nat \<Rightarrow> qstring" where
  "request_of w i \<equiv> h_request (is_handle (wd_calls w ! i))"

abbreviation token_of :: "world \<Rightarrow> nat \<Rightarrow> cancellation_token" where
  "token_of w i \<equiv> h_token (is_handle (wd_calls w ! i))"

definition released :: "world \<Rightarrow> nat \<Rightarrow> bool" where
  "released w i \<longleftrightarrow> wd_results w i \<noteq> None \<or> flags (wd_flags w) (token_flag (token_of w i))"

definition owns :: "nat \<Rightarrow> conn \<Rightarrow> bool" where
  "owns n = (\<lambda>(c, w). \<forall>i < n. is_client (wd_calls w ! i) = cl_number c \<longrightarrow> call_kind (is_call (wd_calls w ! i)) \<noteq> 0 \<longrightarrow>
     released w i \<or> map_of (cl_generations c) (request_of w i) = Some (token_of w i))"

definition completed :: "world \<Rightarrow> qstring \<Rightarrow> bool" where
  "completed w r \<longleftrightarrow> (\<exists>i < length (wd_calls w). request_of w i = r \<and> wd_results w i \<noteq> None)"

definition completions_ok :: "world \<Rightarrow> json_object list \<Rightarrow> bool" where
  "completions_ok w es \<longleftrightarrow> (\<forall>e \<in> set es. is_done e \<longrightarrow> completed w (to_string (jvalue e ''request_id'')))"

definition watches_ok :: "world \<Rightarrow> watch list \<Rightarrow> bool" where
  "watches_ok w ks \<longleftrightarrow> (\<forall>k \<in> set ks. wt_call k < length (wd_calls w) \<and>
     (wt_operation k \<noteq> [] \<longrightarrow> request_of w (wt_call k) = wt_operation k))"

definition owner_ok :: "ipc_env \<Rightarrow> watch list \<Rightarrow> conn \<Rightarrow> bool" where
  "owner_ok env ks s \<longleftrightarrow> issued_ok env (snd s) \<and> owns (length (wd_calls (snd s))) s \<and>
     completions_ok (snd s) (events_of (fst s)) \<and> watches_ok (snd s) ks"

lemma unique_request:
  assumes "issued_ok env w" and "handles_ok env" and "i < length (wd_calls w)" and "j < length (wd_calls w)"
    and "request_of w i = request_of w j"
  shows "i = j"
proof -
  from assms(1) obtain ts where "distinct ts"
    and calls: "list_all2 (\<lambda>t x. ie_submit env t (is_call x) = Inr (is_handle x)) ts (wd_calls w)"
    unfolding issued_ok_def by blast
  note ts = this(1) list_all2_lengthD [OF calls]
  have submit: "ie_submit env (ts ! k) (is_call (wd_calls w ! k)) = Inr (is_handle (wd_calls w ! k))"
    if "k < length (wd_calls w)" for k
    using list_all2_nthD2 [OF calls that] .
  have "ts ! i = ts ! j" 
    by (rule handles_unique [OF assms(2) submit [OF assms(3)] submit [OF assms(4)] assms(5)])
  with ts assms(3,4) show ?thesis by (simp add: nth_eq_iff_index_eq)
qed

text \<open>What ownership depends on, and that cancelling more keeps it.\<close>

definition own_view :: "client \<Rightarrow> nat \<times> (qstring, cancellation_token) omap \<times> json_object list" where
  "own_view c = (cl_number c, cl_generations c, events_of c)"

definition same_calls :: "world \<Rightarrow> world \<Rightarrow> bool" where
  "same_calls w w' \<longleftrightarrow> wd_calls w' = wd_calls w \<and> wd_results w' = wd_results w \<and> wd_tick w' = wd_tick w \<and>
     (\<forall>f. flags (wd_flags w) f \<longrightarrow> flags (wd_flags w') f)"

lemma same_calls_refl [simp]: "same_calls w w"
  by (simp add: same_calls_def)

lemma same_calls_trans: "same_calls w w1 \<Longrightarrow> same_calls w1 w2 \<Longrightarrow> same_calls w w2"
  by (simp add: same_calls_def)

lemma same_calls_cancel [simp]: "same_calls w (cancel_all c w)" "same_calls w (w\<lparr>wd_flags := cancel t (wd_flags w)\<rparr>)"
  by (auto simp: same_calls_def cancel_all_flags) (simp add: cancel_def)

lemma released_mono: "same_calls w w' \<Longrightarrow> released w i \<Longrightarrow> released w' i"
  by (auto simp: released_def same_calls_def)

lemma owns_mono: "owns n (c, w) \<Longrightarrow> same_calls w w' \<Longrightarrow> own_view c' = own_view c \<Longrightarrow> owns n (c', w')"
  using released_mono [of w w'] by (fastforce simp: owns_def own_view_def same_calls_def)

lemma owner_mono:
  assumes "owner_ok env ks s" and "same_calls (snd s) (snd s')" and "own_view (fst s') = own_view (fst s)"
  shows "owner_ok env ks s'"
proof -
  have "owns (length (wd_calls (snd s'))) (fst s', snd s')"
    using assms owns_mono [of _ "fst s" "snd s" "snd s'" "fst s'"] by (simp add: owner_ok_def same_calls_def)
  with assms show ?thesis
    by (simp add: owner_ok_def same_calls_def issued_ok_def completions_ok_def completed_def watches_ok_def own_view_def)
qed

lemma same_calls_abort [simp]: "same_calls (snd s) (snd (socket_abort s))"
  by (auto simp: socket_abort_def socket_disconnected_def split: prod.split)

lemma own_view_abort [simp]: "own_view (fst (socket_abort s)) = own_view (fst s)"
  by (auto simp: own_view_def socket_abort_def socket_disconnected_def split: prod.split)

lemma same_calls_send [simp]: "same_calls (snd s) (snd (ipc_send env v s))"
  using same_calls_abort [of s] same_calls_trans [OF same_calls_abort same_calls_cancel(1), of s]
  by (auto simp: ipc_send_def split: prod.splits)

lemma own_view_send [simp]: "own_view (fst (ipc_send env v s)) = own_view (fst s)"
  using own_view_abort [of s] by (auto simp: own_view_def ipc_send_def split: prod.splits)

lemma own_view_release [simp]: "own_view (c\<lparr>cl_ids := ids\<rparr>) = own_view c" "own_view (c\<lparr>cl_pending := ks\<rparr>) = own_view c"
  by (simp_all add: own_view_def)

lemma owner_send: "owner_ok env ks s \<Longrightarrow> owner_ok env ks (ipc_send e v s)"
  by (rule owner_mono) simp_all

lemma owner_reply: "owner_ok env ks s \<Longrightarrow> owner_ok env ks (ipc_reply e k v s)"
    "owner_ok env ks s \<Longrightarrow> owner_ok env ks (ipc_error e k x b s)"
  by (rule owner_mono [of env ks s]; simp add: ipc_reply_def ipc_error_def Let_def)+

lemma owner_disown:
  assumes "owner_ok env ks (c, w)" and "completed w r" and "handles_ok env"
  shows "owner_ok env ks (c\<lparr>cl_generations := odel r (cl_generations c)\<rparr>, w)"
proof -
  have "released w i" if "i < length (wd_calls w)" "request_of w i = r" for i
    using assms that unique_request [of env w] by (auto simp: owner_ok_def completed_def released_def)
  with assms(1) show ?thesis by (auto simp: owner_ok_def owns_def)
qed

section \<open>Requests\<close>

lemma issued_issue:
  assumes "issued_ok env w" and "ie_submit env (wd_tick w) call = Inr h"
  shows "issued_ok env (w\<lparr>wd_tick := Suc (wd_tick w), wd_calls := wd_calls w @
     [\<lparr>is_call = call, is_id = k, is_client = n, is_handle = h\<rparr>]\<rparr>)"
proof -
  from assms(1) obtain ts where "distinct ts" "\<forall>t \<in> set ts. t < wd_tick w"
    "list_all2 (\<lambda>t x. ie_submit env t (is_call x) = Inr (is_handle x)) ts (wd_calls w)"
    by (auto simp: issued_ok_def)
  then have "distinct (ts @ [wd_tick w]) \<and> (\<forall>t \<in> set (ts @ [wd_tick w]). t < Suc (wd_tick w)) \<and>
    list_all2 (\<lambda>t x. ie_submit env t (is_call x) = Inr (is_handle x)) (ts @ [wd_tick w])
      (wd_calls w @ [\<lparr>is_call = call, is_id = k, is_client = n, is_handle = h\<rparr>])"
    using assms(2) by (auto intro: list_all2_appendI)
  then show ?thesis unfolding issued_ok_def by (intro exI [of _ "ts @ [wd_tick w]"]) simp
qed

lemma owner_issue:
  assumes "owner_ok env ks s" and "issue env k call s = (s1, Inr (n, h))"
  shows "issued_ok env (snd s1)" and "owns n s1" and "completions_ok (snd s1) (events_of (fst s1))"
    and "watches_ok (snd s1) (ks @ [\<lparr>wt_id = k, wt_call = n, wt_operation = []\<rparr>])"
    and "watches_ok (snd s1) (ks @ [\<lparr>wt_id = k, wt_call = n, wt_operation = h_request h\<rparr>])"
    and "length (wd_calls (snd s1)) = Suc n" and "wd_calls (snd s1) ! n = \<lparr>is_call = call, is_id = k, is_client = cl_number (fst s1), is_handle = h\<rparr>"
    and "fst s1 = fst s"
proof -
  note s1 = issue_Inr [OF assms(2)]
  obtain c w where s: "s = (c, w)" by (cases s)
  from assms(1) have ok: "issued_ok env w" "owns (length (wd_calls w)) (c, w)" "completions_ok w (events_of c)" "watches_ok w ks"
    by (simp_all add: owner_ok_def s)
  let ?w = "w\<lparr>wd_tick := Suc (wd_tick w), wd_calls := wd_calls w @ [\<lparr>is_call = call, is_id = k, is_client = cl_number c, is_handle = h\<rparr>]\<rparr>"
  have n: "n = length (wd_calls w)" and w1: "s1 = (c, ?w)" using s1 by (simp_all add: s)
  have old: "wd_calls ?w ! i = wd_calls w ! i" if "i < length (wd_calls w)" for i using that by (simp add: nth_append)
  show "issued_ok env (snd s1)" using issued_issue [OF ok(1)] s1(3) by (simp add: w1 s)
  show "owns n s1" using ok(2) by (auto simp: owns_def w1 n nth_append released_def)
  show "completions_ok (snd s1) (events_of (fst s1))"
    using ok(3) by (fastforce simp: completions_ok_def completed_def w1 nth_append less_Suc_eq)
  have "watches_ok ?w ks" using ok(4) by (auto simp: watches_ok_def nth_append less_Suc_eq)
  then show "watches_ok (snd s1) (ks @ [\<lparr>wt_id = k, wt_call = n, wt_operation = []\<rparr>])"
    "watches_ok (snd s1) (ks @ [\<lparr>wt_id = k, wt_call = n, wt_operation = h_request h\<rparr>])"
    by (auto simp: watches_ok_def w1 n)
  show "length (wd_calls (snd s1)) = Suc n" "fst s1 = fst s"
    "wd_calls (snd s1) ! n = \<lparr>is_call = call, is_id = k, is_client = cl_number (fst s1), is_handle = h\<rparr>"
    by (simp_all add: w1 n s)
qed

lemma owns_Suc: "owns (Suc n) (c, w) \<longleftrightarrow> owns n (c, w) \<and> (is_client (wd_calls w ! n) = cl_number c \<longrightarrow>
    call_kind (is_call (wd_calls w ! n)) \<noteq> 0 \<longrightarrow>
     released w n \<or> map_of (cl_generations c) (request_of w n) = Some (token_of w n))"
  by (auto simp: owns_def less_Suc_eq)

lemma owner_own_generation:
  assumes "owner_ok env ks s" and "handles_ok env" and "issue env k call s = (s1, Inr (n, h))"
  shows "owner_ok env ks (own_generation env k h s1)"
    and "owner_ok env (ks @ [\<lparr>wt_id = k, wt_call = n, wt_operation = h_request h\<rparr>]) (own_generation env k h s1)"
proof -
  note i = owner_issue [OF assms(1,3)]
  obtain c w where s1: "s1 = (c, w)" by (cases s1)
  let ?c = "c\<lparr>cl_generations := oput (h_request h) (h_token h) (cl_generations c)\<rparr>"
  have other: "request_of w j \<noteq> h_request h" if "j < n" for j
    using unique_request [OF i(1) assms(2), of j n] i(6,7) that by (auto simp: s1)
  have "owns n (?c, w)"
    using i(2) other by (auto simp: owns_def s1)
  then have owns: "owns (Suc n) (?c, w)" using i(7) by (simp add: owns_Suc s1)
  have "owner_ok env (ks @ [\<lparr>wt_id = k, wt_call = n, wt_operation = h_request h\<rparr>]) (?c, w)"
    using i owns by (simp add: owner_ok_def s1)
  then show two: "owner_ok env (ks @ [\<lparr>wt_id = k, wt_call = n, wt_operation = h_request h\<rparr>]) (own_generation env k h s1)"
    by (simp add: own_generation_def s1 owner_send)
  then show "owner_ok env ks (own_generation env k h s1)" by (simp add: owner_ok_def watches_ok_def)
qed

lemma owner_plain:
  assumes "owner_ok env ks s" and "issue env k call s = (s1, Inr (n, h))" and "call_kind call = 0"
  shows "owner_ok env (ks @ [\<lparr>wt_id = k, wt_call = n, wt_operation = []\<rparr>]) s1"
  using owner_issue [OF assms(1,2)] assms(3) by (cases s1) (simp add: owner_ok_def owns_Suc)

lemma owner_refused:
  assumes "owner_ok env ks s" and "issue env k call s = (s1, Inr (n, h))"
  shows "owner_ok env ks (with_flags (cancel (h_token h)) s1)"
proof -
  note i = owner_issue [OF assms]
  obtain c w where s1: "s1 = (c, w)" by (cases s1)
  let ?w = "w\<lparr>wd_flags := cancel (h_token h) (wd_flags w)\<rparr>"
  have "same_calls w ?w" by simp
  from owns_mono [OF i(2) [unfolded s1] this] have "owns n (c, ?w)" by simp
  moreover have "released ?w n" using i(7) by (simp add: released_def cancel_def s1)
  ultimately have "owns (Suc n) (c, ?w)" by (simp add: owns_Suc)
  with i show ?thesis
    by (simp add: owner_ok_def s1 issued_ok_def completions_ok_def completed_def watches_ok_def)
qed

lemma dispatched_owner:
  assumes "dispatched env k s p" and "handles_ok env" and "owner_ok env (cl_pending (fst s)) s"
  shows "owner_ok env (cl_pending (fst (fst p))) (fst p)"
  using assms
proof (induction rule: dispatched.induct)
  case (unissued call s s1 e)
  have "issued_ok env (snd s1)" using unissued(3) unfolding issue_Inl [OF unissued(1)]
    by (fastforce simp: owner_ok_def issued_ok_def less_Suc_eq)
  with unissued(3) issue_Inl [OF unissued(1)] show ?case
    by (cases s) (auto simp: owner_ok_def owns_def released_def completions_ok_def completed_def watches_ok_def)
next
  case (refused call s s1 n h)
  from owner_refused [OF refused(5,1)] issue_fst [OF refused(1)] show ?case by simp
next
  case (answered s v)
  then show ?case by (simp add: owner_reply)
next
  case (cancelled s r t v)
  have "owner_ok env (cl_pending (fst s)) (with_flags (cancel t) s)" using cancelled(3) by (rule owner_mono) simp_all
  then show ?case by (simp add: owner_reply)
next
  case (plain call s s1 n h)
  from owner_plain [OF plain(4,1,2)] issue_fst [OF plain(1)] show ?case
    by (auto intro: owner_mono)
next
  case (operating call s s1 n h)
  from owner_own_generation(2) [OF operating(4,3,1)] issue_fst [OF operating(1)] own_generation_keeps(3) [of env k h s1]
  show ?case by (auto intro: owner_mono)
next
  case (chatting call s s1 n h)
  from owner_own_generation(1) [OF chatting(4,3,1)] issue_fst [OF chatting(1)] own_generation_keeps(3) [of env k h s1]
  show ?case by simp
qed simp_all

lemma handle_frame_owner:
  assumes "handles_ok env" and "owner_ok env (cl_pending (fst s)) s"
  shows "owner_ok env (cl_pending (fst (handle_frame env line s))) (handle_frame env line s)"
proof -
  have error: "owner_ok env (cl_pending (fst (ipc_error env k e b t))) (ipc_error env k e b t)"
    if "owner_ok env (cl_pending (fst t)) t" for k e b t
    using owner_reply(2) [OF that] by simp
  have request: "owner_ok env (cl_pending (fst (handle_request env r s))) (handle_request env r s)" for r
  proof -
    obtain c w where s: "s = (c, w)" by (cases s)
    have "owner_ok env (cl_pending c) (c\<lparr>cl_ids := insert k (cl_ids c)\<rparr>, w)" for k
      using assms(2) unfolding s by (auto intro: owner_mono)
    then have "owner_ok env (cl_pending (fst s1)) s1"
      if "dispatch_request env r k verb (c\<lparr>cl_ids := insert k (cl_ids c)\<rparr>, w) = (s1, x)" for k verb s1 x
      using dispatched_owner [OF dispatch_request_cases [of env k "(c\<lparr>cl_ids := insert k (cl_ids c)\<rparr>, w)" r verb] assms(1)] that
      by simp
    then show ?thesis using assms(2) error
      by (auto simp: handle_request_def s split: sum.split prod.split)
  qed
  then show ?thesis using assms(2) error by (auto simp: handle_frame_def split: option.split json.split)
qed

lemma read_frames_owner:
  assumes "handles_ok env" and "owner_ok env (cl_pending (fst s)) s"
  shows "owner_ok env (cl_pending (fst (read_frames env s))) (read_frames env s)"
  using assms
proof (induction env s rule: read_frames.induct)
  case (1 env s)
  have stop: "owner_ok env (cl_pending (fst (socket_abort s))) (socket_abort s)"
    using owner_mono [OF 1(3), of "socket_abort s"] tables_abort [of s] by (simp add: tables_def)
  show ?case
  proof (cases "split_line (cl_input (fst s))")
    case None
    with 1(3) stop show ?thesis by (simp add: read_frames.simps [of env s])
  next
    case (Some p)
    obtain line rest where p: "p = (line, rest)" by (cases p)
    have "owner_ok env (cl_pending (fst (take_frame line rest s))) (take_frame line rest s)"
      using owner_mono [OF 1(3), of "take_frame line rest s"] by (simp add: own_view_def)
    from handle_frame_owner [OF 1(2) this] 1(1) [OF Some p [symmetric]] 1(2) stop Some p show ?thesis
      by (simp add: read_frames.simps [of env s])
  qed
qed

section \<open>Draining and watched futures\<close>

lemma send_event_owner:
  assumes "owner_ok env ks s" and "handles_ok env" and "is_done e \<Longrightarrow> completed (snd s) (to_string (jvalue e ''request_id''))"
  shows "owner_ok env ks (send_event env e s)" and "wd_calls (snd (send_event env e s)) = wd_calls (snd s)"
    and "wd_results (snd (send_event env e s)) = wd_results (snd s)"
proof -
  obtain c w where p: "ipc_send env e s = (c, w)" by (metis prod.exhaust)
  from owner_send [OF assms(1), of env e] p have ok: "owner_ok env ks (c, w)" by simp
  have calls: "wd_calls w = wd_calls (snd s)" "wd_results w = wd_results (snd s)"
    using send_calls [of env e s] by (simp_all add: p)
  with assms(3) have "is_done e \<Longrightarrow> completed w (to_string (jvalue e ''request_id''))" by (simp add: completed_def)
  then have "is_done e \<Longrightarrow> owner_ok env ks
      (c\<lparr>cl_generations := odel (to_string (jvalue e ''request_id'')) (cl_generations c)\<rparr>, w)"
    using owner_disown [OF ok _ assms(2)] by blast
  then have "is_done e \<Longrightarrow> owner_ok env ks (c\<lparr>cl_ids := cl_ids c - {to_string (jvalue e ''id'')},
      cl_generations := odel (to_string (jvalue e ''request_id'')) (cl_generations c)\<rparr>, w)"
    by (auto elim!: owner_mono simp: own_view_def)
  with ok show "owner_ok env ks (send_event env e s)" by (simp add: send_event_def p)
  show "wd_calls (snd (send_event env e s)) = wd_calls (snd s)" "wd_results (snd (send_event env e s)) = wd_results (snd s)"
    using calls by (simp_all add: p)
qed

lemma send_events_owner:
  "owner_ok env ks s \<Longrightarrow> handles_ok env \<Longrightarrow> completions_ok (snd s) es \<Longrightarrow> owner_ok env ks (fold (send_event env) es s)"
proof (induction es arbitrary: s)
  case (Cons e es)
  have "is_done e \<Longrightarrow> completed (snd s) (to_string (jvalue e ''request_id''))"
    using Cons.prems(3) by (simp add: completions_ok_def)
  note next_ok = send_event_owner [OF Cons.prems(1,2) this]
  then have "completions_ok (snd (send_event env e s)) es"
    using Cons.prems(3) by (simp add: completions_ok_def completed_def)
  with next_ok(1) Cons.prems(2) Cons.IH show ?case by simp
qed simp

lemma drain_owner:
  assumes "owner_ok env ks s" and "handles_ok env"
  shows "owner_ok env ks (fst (drain env s))"
proof -
  obtain c w where s: "s = (c, w)" by (cases s)
  let ?s = "(c\<lparr>cl_inbox := (cl_inbox c)\<lparr>in_events := [], in_bytes := 0\<rparr>\<rparr>, w)"
  have start: "owner_ok env ks ?s" using assms(1) by (simp add: owner_ok_def s owns_def completions_ok_def)
  have events: "owner_ok env ks (fold (send_event env) (events_of c) ?s)"
    using assms start by (intro send_events_owner) (simp_all add: owner_ok_def s)
  have "owner_ok env ks (socket_abort ?s)" 
    using start by (rule owner_mono) (use same_calls_abort [of ?s] in simp_all)
  then have "owner_ok env ks (fst (socket_abort ?s), cancel_all (fst (socket_abort ?s)) (snd (socket_abort ?s)))"
    by (rule owner_mono) simp_all
  with events show ?thesis by (cases "socket_abort ?s") (simp add: s drain_def Let_def)
qed

lemma drain_calls:
  assumes "drain env s = (s', True)"
  shows "wd_calls (snd s') = wd_calls (snd s)" and "wd_results (snd s') = wd_results (snd s)"
proof -
  obtain c w where s: "s = (c, w)" by (cases s)
  from assms have "s' = fold (send_event env) (events_of c) (c\<lparr>cl_inbox := (cl_inbox c)\<lparr>in_events := [], in_bytes := 0\<rparr>\<rparr>, w)"
    by (cases rule: drain_cases [of env c w]) (simp_all add: s)
  then show "wd_calls (snd s') = wd_calls (snd s)" "wd_results (snd s') = wd_results (snd s)"
    by (simp_all add: send_events_world s)
qed

lemma run_watch_owner:
  assumes "owner_ok env ks s" and "handles_ok env" and "k \<in> set ks"
  shows "owner_ok env ks (fst (run_watch env k s))"
proof (cases "wd_results (snd s) (wt_call k)")
  case (Some r)
  obtain s' b where d: "drain env s = (s', b)" by (metis prod.exhaust)
  from drain_owner [OF assms(1,2)] d have s': "owner_ok env ks s'" by simp
  show ?thesis
  proof (cases b)
    case True
    have same: "wd_calls (snd s') = wd_calls (snd s)" "wd_results (snd s') = wd_results (snd s)"
      using drain_calls [of env s s'] d True by simp_all
    have "owner_ok env ks (disowned k s')"
    proof (cases "wt_operation k = []")
      case False
      from assms(1,3) False have "wt_call k < length (wd_calls (snd s))" "request_of (snd s) (wt_call k) = wt_operation k"
        by (auto simp: owner_ok_def watches_ok_def)
      with Some same have "completed (snd s') (wt_operation k)" by (auto simp: completed_def)
      with owner_disown [of env ks "fst s'" "snd s'"] s' False assms(2) show ?thesis by simp
    qed (use s' in simp)
    note replies = owner_reply [OF this]
    from run_watch_drained [OF Some] d True replies show ?thesis by (auto split: sum.split)
  next
    case False
    with Some d s' show ?thesis by (simp add: run_watch_def)
  qed
qed (use assms in \<open>simp add: run_watch_def\<close>)

lemma run_pending_owner:
  "owner_ok env js s \<Longrightarrow> handles_ok env \<Longrightarrow> set ks \<subseteq> set js \<Longrightarrow>
     owner_ok env js (fst (run_pending env ks s)) \<and> set (snd (run_pending env ks s)) \<subseteq> set ks"
proof (induction ks arbitrary: s)
  case (Cons k ks)
  obtain s2 b where w: "run_watch env k s = (s2, b)" by (metis prod.exhaust)
  obtain s3 rest where p: "run_pending env ks s2 = (s3, rest)" by (metis prod.exhaust)
  from run_watch_owner [OF Cons.prems(1,2), of k] Cons.prems(3) w have "owner_ok env js s2" by simp
  from Cons.IH [OF this Cons.prems(2)] Cons.prems(3) w p show ?case by auto
qed simp

lemma poll_client_owner:
  assumes "owner_ok env (cl_pending c) (c, w)" and "handles_ok env" and "poll_client env (c, w) = (s1, True)"
  shows "owner_ok env (cl_pending (fst s1)) s1"
proof -
  obtain s2 b where d: "drain env (c, w) = (s2, b)" by (metis prod.exhaust)
  obtain c3 w3 rest where p: "run_pending env (cl_pending (fst s2)) s2 = ((c3, w3), rest)" by (metis prod.exhaust)
  from assms(3) d p have s1: "s1 = (c3\<lparr>cl_pending := rest\<rparr>, w3)"
    by (auto simp: poll_client_def split: if_splits bool.splits)
  have pend: "cl_pending (fst s2) = cl_pending c" using drain_pending [of env "(c, w)"] d by simp
  have "owner_ok env (cl_pending (fst s2)) s2" using drain_owner [OF assms(1,2)] d pend by simp
  from run_pending_owner [OF this assms(2) order_refl] p
  have "owner_ok env (cl_pending (fst s2)) (c3, w3)" "set rest \<subseteq> set (cl_pending (fst s2))" by simp_all
  then have "owner_ok env rest (c3, w3)" by (auto simp: owner_ok_def watches_ok_def)
  then show ?thesis by (auto simp: s1 intro: owner_mono)
qed

text \<open>A connection that is dropped has every one of its calls released.\<close>

lemma disconnect_releases:
  assumes "owner_ok env ks (c, w)" and "i < length (wd_calls w)" and "is_client (wd_calls w ! i) = cl_number c"
    and "call_kind (is_call (wd_calls w ! i)) \<noteq> 0"
  shows "released (cancel_all c w) i"
proof -
  from assms consider "released w i" | "map_of (cl_generations c) (request_of w i) = Some (token_of w i)"
    by (auto simp: owner_ok_def owns_def)
  then show ?thesis
  proof cases
    case 1
    then show ?thesis by (rule released_mono [rotated]) simp
  next
    case 2
    then show ?thesis by (force simp: released_def cancel_all_flags dest: map_of_SomeD)
  qed
qed

section \<open>The server\<close>

definition owned_by :: "client list \<Rightarrow> world \<Rightarrow> bool" where
  "owned_by cs w \<longleftrightarrow> (\<forall>i < length (wd_calls w). call_kind (is_call (wd_calls w ! i)) \<noteq> 0 \<longrightarrow>
     is_client (wd_calls w ! i) \<notin> cl_number ` set cs \<longrightarrow> released w i)"

definition owners_ok :: "ipc_env \<Rightarrow> client list \<Rightarrow> world \<Rightarrow> bool" where
  "owners_ok env cs w \<longleftrightarrow> issued_ok env w \<and> (\<forall>c \<in> set cs. owner_ok env (cl_pending c) (c, w)) \<and> owned_by cs w"

lemma grows_calls:
  assumes "grows n w w'"
  obtains new where "wd_calls w' = wd_calls w @ new" and "\<forall>x \<in> set new. is_client x = n" and "wd_results w' = wd_results w"
    and "\<forall>f. flags (wd_flags w) f \<longrightarrow> flags (wd_flags w') f"
  using assms by (auto simp: grows_def)

lemma grows_released: "grows n w w' \<Longrightarrow> i < length (wd_calls w) \<Longrightarrow> released w i \<Longrightarrow> released w' i"
  by (erule grows_calls) (auto simp: released_def nth_append)

lemma grows_nth:
  assumes "grows n w w'" and "i < length (wd_calls w')" and "is_client (wd_calls w' ! i) \<noteq> n"
  shows "i < length (wd_calls w) \<and> wd_calls w' ! i = wd_calls w ! i"
proof -
  obtain new where "wd_calls w' = wd_calls w @ new" "\<forall>x \<in> set new. is_client x = n"
    using assms(1) by (rule grows_calls)
  with assms(2,3) show ?thesis by (auto simp: nth_append split: if_splits)
qed

lemma owner_other:
  assumes "owner_ok env ks (c, w)" and "grows n w w'" and "cl_number c \<noteq> n" and "issued_ok env w'"
  shows "owner_ok env ks (c, w')"
proof -
  have old: "i < length (wd_calls w') \<and> wd_calls w' ! i = wd_calls w ! i" if "i < length (wd_calls w)" for i
    using assms(2) that by (auto elim!: grows_calls simp: nth_append)
  have results: "wd_results w' = wd_results w" using assms(2) by (simp add: grows_def)
  have "owns (length (wd_calls w')) (c, w')"
    unfolding owns_def case_prod_conv
  proof (intro allI impI)
    fix i
    assume i: "i < length (wd_calls w')" "is_client (wd_calls w' ! i) = cl_number c" "call_kind (is_call (wd_calls w' ! i)) \<noteq> 0"
    with grows_nth [OF assms(2) i(1)] assms(3) have "i < length (wd_calls w)" "wd_calls w' ! i = wd_calls w ! i" by simp_all
    with i assms(1) grows_released [OF assms(2)]
    show "released w' i \<or> map_of (cl_generations c) (request_of w' i) = Some (token_of w' i)"
      by (auto simp: owner_ok_def owns_def)
  qed
  moreover have "completions_ok w' (events_of c)"
    using assms(1) old by (fastforce simp: owner_ok_def completions_ok_def completed_def results)
  moreover have "watches_ok w' ks" using assms(1) old by (auto simp: owner_ok_def watches_ok_def)
  ultimately show ?thesis using assms(4) by (simp add: owner_ok_def)
qed

lemma owned_grows:
  assumes "owned_by cs w" and "grows n w w'" and "n \<in> cl_number ` set cs" and "cl_number ` set cs' = cl_number ` set cs"
  shows "owned_by cs' w'"
  unfolding owned_by_def
proof (intro allI impI)
  fix i
  assume i: "i < length (wd_calls w')" "call_kind (is_call (wd_calls w' ! i)) \<noteq> 0"
    "is_client (wd_calls w' ! i) \<notin> cl_number ` set cs'"
  with assms(3,4) have "is_client (wd_calls w' ! i) \<noteq> n" by auto
  from grows_nth [OF assms(2) i(1) this] i assms(1,4) grows_released [OF assms(2)] show "released w' i"
    by (auto simp: owned_by_def)
qed

lemma map_numbers:
  "(\<And>d. cl_number d = n \<Longrightarrow> cl_number (g d) = n) \<Longrightarrow>
     cl_number ` set (map (\<lambda>d. if cl_number d = n then g d else d) cs) = cl_number ` set cs"
  by (induction cs) auto

lemma on_client_owners:
  assumes "owners_ok env (ip_clients s) (ip_world s)" and "distinct (map cl_number (ip_clients s))"
    and keep: "\<And>c w. owner_ok env (cl_pending c) (c, w) \<Longrightarrow> owner_ok env (cl_pending (fst (f (c, w)))) (f (c, w))"
    and frame: "\<And>c w. cl_number c = n \<Longrightarrow> grows n w (snd (f (c, w))) \<and> cl_number (fst (f (c, w))) = n"
  shows "owners_ok env (ip_clients (on_client n f s)) (ip_world (on_client n f s))"
proof (cases "find (\<lambda>c. cl_number c = n) (ip_clients s)")
  case None
  with assms(1) show ?thesis by (simp add: on_client_def)
next
  case (Some c)
  note c = find_number [OF Some]
  obtain c' w' where f: "f (c, ip_world s) = (c', w')" by (cases "f (c, ip_world s)")
  from frame [OF c(2), of "ip_world s"] have g: "grows n (ip_world s) w'" and n: "cl_number c' = n" by (simp_all add: f)
  from assms(1) c(1) have owner: "owner_ok env (cl_pending c) (c, ip_world s)" by (simp add: owners_ok_def)
  from keep [OF owner] have here: "owner_ok env (cl_pending c') (c', w')" by (simp add: f)
  then have issued: "issued_ok env w'" by (simp add: owner_ok_def)
  let ?cs = "map (\<lambda>d. if cl_number d = n then c' else d) (ip_clients s)"
  have "owner_ok env (cl_pending d) (d, w')" if "d \<in> set ?cs" for d
    using that here owner_other [OF _ g _ issued] assms(1) by (auto simp: owners_ok_def split: if_splits)
  moreover have "cl_number ` set ?cs = cl_number ` set (ip_clients s)" by (rule map_numbers) (rule n)
  then have "owned_by ?cs w'" using owned_grows [OF _ g] assms(1) c by (force simp: owners_ok_def)
  ultimately show ?thesis using issued Some f by (simp add: on_client_def owners_ok_def)
qed

lemma released_result: "released w i \<Longrightarrow> released (with_result n r w) i"
  by (simp add: released_def with_result_def)

lemma owner_result: "owner_ok env ks (c, w) \<Longrightarrow> owner_ok env ks (c, with_result n r w)"
proof -
  assume ok: "owner_ok env ks (c, w)"
  have "completed w x \<Longrightarrow> completed (with_result n r w) x" for x
    by (auto simp: completed_def with_result_def)
  moreover have "owns m (c, w) \<Longrightarrow> owns m (c, with_result n r w)" for m
    using released_result [of w] by (auto simp: owns_def)
  moreover have "issued_ok env w \<Longrightarrow> issued_ok env (with_result n r w)"
    by (simp add: issued_ok_def with_result_def)
  ultimately show "owner_ok env ks (c, with_result n r w)"
    using ok by (auto simp: owner_ok_def completions_ok_def watches_ok_def)
qed

lemma owner_push:
  assumes "owner_ok env ks (c, w)" and "is_done e \<Longrightarrow> completed w (to_string (jvalue e ''request_id''))"
  shows "owner_ok env ks (c\<lparr>cl_inbox := push_event env e (cl_inbox c)\<rparr>, w)"
  using assms by (auto simp: owner_ok_def owns_def completions_ok_def push_event_def)

lemma owners_result:
  assumes "owners_ok env cs w"
  shows "owners_ok env cs (with_result n r w)"
proof -
  have "issued_ok env (with_result n r w)" using assms by (simp add: owners_ok_def issued_ok_def with_result_def)
  moreover have "owned_by cs (with_result n r w)" using assms released_result by (simp add: owners_ok_def owned_by_def)
  ultimately show ?thesis using assms owner_result by (simp add: owners_ok_def)
qed

lemma request_id_done:
  assumes "report_object call k r = Some e" and "stamped q r" and "finishes r"
  shows "to_string (jvalue e ''request_id'') = q"
  using assms by (cases "(call, k, r)" rule: report_object.cases)
    (auto simp: stream_object_def Let_def jvalue_def map_of_jobj)

lemma push_report_owners:
  assumes "owners_ok env (ip_clients s) (ip_world s)" and "distinct (map cl_number (ip_clients s))"
  shows "owners_ok env (ip_clients (push_report env n r s)) (ip_world (push_report env n r s))"
proof (cases "call_open (ip_world s) n \<and> stamped (request_of (ip_world s) n) r")
  case True
  let ?call = "wd_calls (ip_world s) ! n"
  show ?thesis
  proof (cases "report_object (is_call ?call) (is_id ?call) r")
    case (Some e)
    define f :: "client \<Rightarrow> client" where "f c = c\<lparr>cl_inbox := push_event env e (cl_inbox c)\<rparr>" for c
    define w' where "w' = (if finishes r then with_result n (Inr VDone) (ip_world s) else ip_world s)"
    have report: "push_report env n r s = s\<lparr>ip_clients := map (\<lambda>d. if cl_number d = is_client ?call then f d else d)
        (ip_clients s), ip_world := w'\<rparr>"
      using True Some on_client_pure [OF assms(2), of "is_client ?call" f]
      by (simp add: push_report_def Let_def set_result_of_world w'_def f_def)
    have w': "owners_ok env (ip_clients s) w'" using assms(1) owners_result by (simp add: w'_def)
    have "completed w' (to_string (jvalue e ''request_id''))" if "is_done e"
    proof -
      have "finishes r" using report_shape(3) [OF Some] that by simp
      with True request_id_done [OF Some _ this] show ?thesis
        by (auto simp: w'_def completed_def call_open_def with_result_def)
    qed
    then have "owner_ok env (cl_pending (f c)) (f c, w')" if "owner_ok env (cl_pending c) (c, w')" for c
      using that owner_push [of env "cl_pending c" c w' e] by (simp add: f_def)
    moreover have "cl_number ` set (map (\<lambda>d. if cl_number d = is_client ?call then f d else d) (ip_clients s))
        = cl_number ` set (ip_clients s)"
      by (intro map_numbers) (simp add: f_def)
    ultimately show ?thesis
      using w' unfolding report by (auto simp: owners_ok_def owned_by_def)
  qed (use assms True in \<open>simp add: push_report_def Let_def\<close>)
qed (use assms in \<open>auto simp: push_report_def\<close>)

text \<open>Polling makes no calls.\<close>

lemma same_calls_reply [simp]: "same_calls (snd s) (snd (ipc_reply env k v s))" "same_calls (snd s) (snd (ipc_error env k e b s))"
  by (simp_all add: ipc_reply_def ipc_error_def Let_def)

lemma same_calls_events: "same_calls (snd s) (snd (fold (send_event env) es s))"
proof (induction es arbitrary: s)
  case (Cons e es)
  have "same_calls (snd s) (snd (send_event env e s))" by simp
  from same_calls_trans [OF this Cons.IH [of "send_event env e s"]] show ?case by simp
qed simp

lemma same_calls_drain: "same_calls (snd s) (snd (fst (drain env s)))"
proof -
  obtain c w where s: "s = (c, w)" by (cases s)
  let ?s = "(c\<lparr>cl_inbox := (cl_inbox c)\<lparr>in_events := [], in_bytes := 0\<rparr>\<rparr>, w)"
  have "same_calls (snd ?s) (cancel_all (fst (socket_abort ?s)) (snd (socket_abort ?s)))"
    using same_calls_trans [OF same_calls_abort same_calls_cancel(1)] .
  with same_calls_events [of ?s env "events_of c"] show ?thesis
    by (cases "socket_abort ?s") (simp add: s drain_def Let_def)
qed

lemma same_calls_watch: "same_calls (snd s) (snd (fst (run_watch env k s)))"
proof (cases "wd_results (snd s) (wt_call k)")
  case (Some r)
  obtain s' b where d: "drain env s = (s', b)" by (metis prod.exhaust)
  from same_calls_drain [of s env] d have s': "same_calls (snd s) (snd s')" by simp
  have "same_calls (snd s) (snd (ipc_reply env i v (disowned k s')))"
    "same_calls (snd s) (snd (ipc_error env i e b (disowned k s')))" for i v e b
    using same_calls_trans [OF s' same_calls_reply(1) [of "disowned k s'", unfolded snd_conv]]
      same_calls_trans [OF s' same_calls_reply(2) [of "disowned k s'", unfolded snd_conv]] by simp_all
  with run_watch_drained [OF Some, of env s'] Some d s' show ?thesis
    by (cases b) (auto simp: run_watch_def split: sum.split)
qed (simp add: run_watch_def)

lemma same_calls_pending: "same_calls (snd s) (snd (fst (run_pending env ks s)))"
proof (induction ks arbitrary: s)
  case (Cons k ks)
  obtain s2 b where w: "run_watch env k s = (s2, b)" by (metis prod.exhaust)
  obtain s3 rest where p: "run_pending env ks s2 = (s3, rest)" by (metis prod.exhaust)
  from same_calls_watch [of s env k] w Cons.IH [of s2] p show ?case by (auto intro: same_calls_trans)
qed simp

text \<open>Polling one connection: it stays and keeps what it owns, or everything it owns is released.\<close>

lemma poll_client_cases:
  assumes "owner_ok env (cl_pending c) (c, w)" and "handles_ok env" and "poll_client env (c, w) = ((c1, w1), stays)"
  shows "same_calls w w1" and "cl_number c1 = cl_number c"
    and "stays \<Longrightarrow> cl_connected c \<and> owner_ok env (cl_pending c1) (c1, w1)"
    and "\<not> stays \<Longrightarrow> i < length (wd_calls w) \<Longrightarrow> is_client (wd_calls w ! i) = cl_number c \<Longrightarrow>
      call_kind (is_call (wd_calls w ! i)) \<noteq> 0 \<Longrightarrow> released w1 i"
proof -
  show "cl_number c1 = cl_number c" using poll_client_frame(2) [of env "(c, w)"] assms(3) by simp
  show "stays \<Longrightarrow> cl_connected c \<and> owner_ok env (cl_pending c1) (c1, w1)"
    using poll_client_owner [OF assms(1,2), of "(c1, w1)"] assms(3)
    by (auto simp: poll_client_def split: if_splits)
  obtain c2 w2 b where d: "drain env (c, w) = ((c2, w2), b)" by (metis prod.exhaust)
  from same_calls_drain [of "(c, w)" env] d have same: "same_calls w w2" by simp
  obtain c3 w3 rest where p: "run_pending env (cl_pending c2) (c2, w2) = ((c3, w3), rest)" by (metis prod.exhaust)
  from same_calls_pending [of "(c2, w2)" env "cl_pending c2"] p have same3: "same_calls w2 w3" by simp
  consider (off) "\<not> cl_connected c" "w1 = cancel_all c w" "\<not> stays" | (stopped) "w1 = cancel_all c2 w2" "\<not> stays"
    | (kept) "w1 = w3" "stays"
    using assms(3) d p by (auto simp: poll_client_def disconnect_client_def split: if_splits bool.splits)
  note cases = this
  show "same_calls w w1"
    using cases
  proof cases
    case stopped
    with same_calls_trans [OF same same_calls_cancel(1)] show ?thesis by simp
  next
    case kept
    with same_calls_trans [OF same same3] show ?thesis by simp
  qed simp
  assume i: "\<not> stays" "i < length (wd_calls w)" "is_client (wd_calls w ! i) = cl_number c"
    "call_kind (is_call (wd_calls w ! i)) \<noteq> 0"
  show "released w1 i"
    using cases
  proof cases
    case off
    with disconnect_releases [OF assms(1) i(2-4)] show ?thesis by simp
  next
    case stopped
    from drain_owner [OF assms(1,2)] d have "owner_ok env (cl_pending c) (c2, w2)" by simp
    moreover have "cl_number c2 = cl_number c" using drain_frame(2) [of env "(c, w)"] d by simp
    moreover have "wd_calls w2 = wd_calls w" using same by (simp add: same_calls_def)
    ultimately show ?thesis using disconnect_releases [of env "cl_pending c" c2 w2 i] i stopped by simp
  qed (use i in simp)
qed

lemma owned_same: "owned_by cs w \<Longrightarrow> same_calls w w' \<Longrightarrow> owned_by cs w'"
  using released_mono [of w w'] by (auto simp: owned_by_def same_calls_def)

lemma poll_clients_owners:
  assumes "owners_ok env (bs @ cs) w" and "handles_ok env" and "poll_clients env cs w = (cs', w')"
  shows "owners_ok env (bs @ cs') w' \<and> cl_number ` set cs' \<subseteq> cl_number ` {c \<in> set cs. cl_connected c} \<and> same_calls w w'"
  using assms
proof (induction cs arbitrary: bs w cs' w')
  case (Cons c cs)
  obtain c1 w1 stays where p: "poll_client env (c, w) = ((c1, w1), stays)" by (metis prod.exhaust)
  obtain cs1 w2 where q: "poll_clients env cs w1 = (cs1, w2)" by (metis prod.exhaust)
  from Cons.prems(3) p q have res: "cs' = (if stays then c1 # cs1 else cs1)" "w' = w2" by simp_all
  have "owner_ok env (cl_pending c) (c, w)" using Cons.prems(1) by (simp add: owners_ok_def)
  note step = poll_client_cases [OF this Cons.prems(2) p]
  let ?bs = "if stays then bs @ [c1] else bs"
  have others: "owner_ok env (cl_pending d) (d, w1)" if "d \<in> set (bs @ cs)" for d
    using Cons.prems(1) that step(1) owner_mono [of env "cl_pending d" "(d, w)" "(d, w1)"] by (auto simp: owners_ok_def)
  have "issued_ok env w1" using Cons.prems(1) step(1) by (simp add: owners_ok_def issued_ok_def same_calls_def)
  moreover have "owned_by (bs @ c # cs) w1" using owned_same [OF _ step(1)] Cons.prems(1) by (simp add: owners_ok_def)
  then have "owned_by (?bs @ cs) w1"
    using step(1,2,4) by (auto simp: owned_by_def same_calls_def)
  ultimately have "owners_ok env (?bs @ cs) w1"
    using others step(3) by (auto simp: owners_ok_def)
  from Cons.IH [OF this Cons.prems(2) q] show ?case
    using res step(1-3) by (auto intro: same_calls_trans)
qed simp

lemma disconnect_owners:
  assumes "owners_ok env (c # cs) w"
  shows "owners_ok env cs (cancel_all c w)"
proof -
  have c: "owner_ok env (cl_pending c) (c, w)" using assms by (simp add: owners_ok_def)
  have "owned_by (c # cs) (cancel_all c w)" using assms owned_same [of "c # cs" w] by (simp add: owners_ok_def)
  with disconnect_releases [OF c] have "owned_by cs (cancel_all c w)" by (auto simp: owned_by_def)
  moreover have "owner_ok env (cl_pending d) (d, cancel_all c w)" if "d \<in> set cs" for d
    using assms that owner_mono [of env "cl_pending d" "(d, w)" "(d, cancel_all c w)"] by (simp add: owners_ok_def)
  moreover have "issued_ok env (cancel_all c w)" using assms by (simp add: owners_ok_def issued_ok_def)
  ultimately show ?thesis by (simp add: owners_ok_def)
qed

lemma close_owners: "owners_ok env cs w \<Longrightarrow> owners_ok env [] (fold (\<lambda>c w. snd (disconnect_client (c, w))) cs w)"
  by (induction cs arbitrary: w) (auto simp: disconnect_client_def dest: disconnect_owners)

lemma owner_rpc [simp]: "owner_ok (env\<lparr>ie_rpc := b\<rparr>) ks s = owner_ok env ks s" "handles_ok (env\<lparr>ie_rpc := b\<rparr>) = handles_ok env"
  by (simp_all add: owner_ok_def issued_ok_def handles_ok_def)

lemma read_client_owner:
  assumes "handles_ok env" and "owner_ok env (cl_pending c) (c, w)"
  shows "owner_ok env (cl_pending (fst (read_client (env\<lparr>ie_rpc := b\<rparr>) bytes (c, w)))) (read_client (env\<lparr>ie_rpc := b\<rparr>) bytes (c, w))"
proof -
  have "owner_ok env (cl_pending c) (c\<lparr>cl_input := cl_input c @ bytes\<rparr>, w)"
    using owner_mono [OF assms(2), of "(c\<lparr>cl_input := cl_input c @ bytes\<rparr>, w)"] by (simp add: own_view_def)
  with read_frames_owner [of "env\<lparr>ie_rpc := b\<rparr>" "(c\<lparr>cl_input := cl_input c @ bytes\<rparr>, w)"] assms(1)
  show ?thesis by (simp add: read_client_def)
qed

lemma ipc_step_owners:
  assumes "handles_ok env" and "server_ok env s" and "owners_ok env (ip_clients s) (ip_world s)"
  shows "owners_ok env (ip_clients (ipc_step env e s)) (ip_world (ipc_step env e s))"
proof -
  have numbers: "distinct (map cl_number (ip_clients s))" using assms(2) by (simp add: server_ok_def)
  show ?thesis
  proof (cases e)
    case Connect
    have "is_client (wd_calls (ip_world s) ! i) \<noteq> ip_next s" if "i < length (wd_calls (ip_world s))" for i
      using assms(2) nth_mem [OF that] by (auto simp: server_ok_def)
    then have "owner_ok env [] (new_client (ip_next s), ip_world s)"
      using assms(3) by (auto simp: owner_ok_def owners_ok_def owns_def new_client_def empty_inbox_def
        completions_ok_def watches_ok_def)
    with assms(3) have "owners_ok env (ip_clients s @ [new_client (ip_next s)]) (ip_world s)"
      by (auto simp: owners_ok_def owned_by_def new_client_def)
    with assms(3) Connect show ?thesis by (simp add: ipc_step_def accept_client_def)
  next
    case (Receive n bytes)
    show ?thesis
      unfolding ipc_step_def Receive ipc_event.case
      using read_client_frame [of "(_, _)"] read_client_owner [OF assms(1)]
      by (intro on_client_owners [OF assms(3) numbers]) auto
  next
    case (Written n k)
    have "owner_ok env ks (c\<lparr>cl_unsent := u\<rparr>, w)" if "owner_ok env ks (c, w)" for ks c w u
      using owner_mono [OF that, of "(c\<lparr>cl_unsent := u\<rparr>, w)"] by (simp add: own_view_def)
    then show ?thesis
      unfolding ipc_step_def Written ipc_event.case
      by (intro on_client_owners [OF assms(3) numbers]) auto
  next
    case (HangUp n)
    have "owner_ok env (cl_pending (fst (socket_abort (c, w)))) (socket_abort (c, w))"
      if "owner_ok env (cl_pending c) (c, w)" for c w
      using owner_mono [OF that, of "socket_abort (c, w)"] tables_abort [of "(c, w)"] same_calls_abort [of "(c, w)"]
      by (simp add: tables_def)
    moreover have "grows n w (snd (socket_abort (c, w))) \<and> cl_number (fst (socket_abort (c, w))) = n" if "cl_number c = n" for c w
      using reading_abort [of "(c, w)"] grows_abort [of n "(c, w)"] that by (simp add: reading_def)
    ultimately show ?thesis
      unfolding ipc_step_def HangUp ipc_event.case by (intro on_client_owners [OF assms(3) numbers])
  next
    case (Report n r)
    with push_report_owners [OF assms(3) numbers] show ?thesis by (simp add: ipc_step_def)
  next
    case (Settle n r)
    with owners_result [OF assms(3)] assms(3) show ?thesis by (simp add: ipc_step_def settle_def set_result_of_world)
  next
    case Poll
    obtain cs w where p: "poll_clients env (ip_clients s) (ip_world s) = (cs, w)" by (metis prod.exhaust)
    from poll_clients_owners [of env "[]", OF _ assms(1) p] assms(3) Poll show ?thesis
      by (simp add: ipc_step_def ipc_poll_def p)
  next
    case Close
    with close_owners [OF assms(3)] show ?thesis by (simp add: ipc_step_def ipc_close_def)
  qed
qed

lemma reachable_owners:
  assumes "ipc_reachable env s" and "documented (ie_catalog env)" and "handles_ok env"
  shows "owners_ok env (ip_clients s) (ip_world s)"
  using assms
proof (induction rule: ipc_reachable.induct)
  case (made st s)
  then show ?case
    by (auto simp: make_ipc_server_def bindr_def require_def throw_def owners_ok_def issued_ok_def owned_by_def split: if_splits)
next
  case (listened s ep name)
  then show ?case by (simp add: ipc_listen_def)
next
  case (handler s b s1)
  then show ?case
    by (auto simp: set_rpc_handler_def bindr_def require_def throw_def split: if_splits)
next
  case (stepped s e)
  then show ?case using ipc_step_owners reachable_ok by blast
qed

text \<open>One turn of the timer after a connection is lost, everything that it had started has a result
  or is cancelled.\<close>

lemma released_cancelled: "released w i \<Longrightarrow> wd_results w i \<noteq> None \<or> is_cancelled (wd_flags w) (token_of w i)"
  by (cases "token_of w i") (auto simp: released_def)

lemma poll_releases:
  assumes "ipc_reachable env s" and "documented (ie_catalog env)" and "handles_ok env"
    and "i < length (wd_calls (ip_world s))" and "call_kind (is_call (wd_calls (ip_world s) ! i)) \<noteq> 0"
    and "\<And>c. c \<in> set (ip_clients s) \<Longrightarrow> cl_number c = is_client (wd_calls (ip_world s) ! i) \<Longrightarrow> \<not> cl_connected c"
  shows "wd_results (ip_world (ipc_poll env s)) i \<noteq> None
    \<or> is_cancelled (wd_flags (ip_world (ipc_poll env s))) (token_of (ip_world s) i)"
proof -
  obtain cs w where p: "poll_clients env (ip_clients s) (ip_world s) = (cs, w)" by (metis prod.exhaust)
  from poll_clients_owners [of env "[]", OF _ assms(3) p] reachable_owners [OF assms(1-3)]
  have owned: "owned_by cs w" and stay: "cl_number ` set cs \<subseteq> cl_number ` {c \<in> set (ip_clients s). cl_connected c}"
    and same: "same_calls (ip_world s) w"
    by (simp_all add: owners_ok_def)
  have "is_client (wd_calls (ip_world s) ! i) \<notin> cl_number ` set cs" using stay assms(6) by fastforce
  with owned same assms(4,5) have "released w i" by (auto simp: owned_by_def same_calls_def)
  from released_cancelled [OF this] same show ?thesis by (simp add: ipc_poll_def p same_calls_def)
qed

end
