(* ===== verification/IpcLimits.thy ===== *)
theory IpcLimits
  imports IpcRules
begin

text \<open>
  The limits of the socket server: its connections, the requests in flight on each, the input that
  waits for a newline, the output that waits for the socket and the events that wait in an inbox. The
  locales say what a property of a client must survive to survive a whole step.
\<close>

section \<open>Properties that sending and reading keep\<close>

locale kept_by_sending =
  fixes env :: ipc_env and I :: "client \<Rightarrow> bool"
  assumes send: "I (fst s) \<Longrightarrow> I (fst (ipc_send env v s))"
    and abort: "I (fst s) \<Longrightarrow> I (fst (socket_abort s))"
    and generations: "I c \<Longrightarrow> I (c\<lparr>cl_generations := g\<rparr>)"
    and pending: "I c \<Longrightarrow> I (c\<lparr>cl_pending := ks\<rparr>)"
    and release: "I c \<Longrightarrow> I (c\<lparr>cl_ids := cl_ids c - {k}\<rparr>)"
    and emptied: "I c \<Longrightarrow> I (c\<lparr>cl_inbox := (cl_inbox c)\<lparr>in_events := [], in_bytes := 0\<rparr>\<rparr>)"
begin

lemma reply: "I (fst s) \<Longrightarrow> I (fst (ipc_reply env k v s))"
  by (simp add: ipc_reply_def release send)

lemma error: "I (fst s) \<Longrightarrow> I (fst (ipc_error env k e b s))"
  by (simp add: ipc_error_def Let_def release send)

lemma own: "I (fst s) \<Longrightarrow> I (fst (own_generation env k h s))"
  by (cases s) (simp add: own_generation_def generations send)

lemma dispatched: "dispatched env k s p \<Longrightarrow> I (fst s) \<Longrightarrow> I (fst (fst p))"
  by (induction rule: dispatched.induct) (auto simp: reply pending own dest: issue_fst)

lemma event: "I (fst s) \<Longrightarrow> I (fst (send_event env e s))"
  using send [of s e] by (cases "ipc_send env e s") (auto simp: send_event_def intro: release generations)

lemma events: "I (fst s) \<Longrightarrow> I (fst (fold (send_event env) es s))"
  by (induction es arbitrary: s) (simp_all add: event)

lemma drained: "I (fst s) \<Longrightarrow> I (fst (fst (drain env s)))"
proof (cases s)
  case (Pair c w)
  assume "I (fst s)"
  with emptied [of c] Pair have "I (fst (c\<lparr>cl_inbox := (cl_inbox c)\<lparr>in_events := [], in_bytes := 0\<rparr>\<rparr>, w))" by simp
  from abort [OF this] events [OF this, of "events_of c"] show ?thesis
    by (auto simp: Pair drain_def Let_def split: prod.splits)
qed

lemma watch: "I (fst s) \<Longrightarrow> I (fst (fst (run_watch env k s)))"
proof (cases "wd_results (snd s) (wt_call k)")
  case (Some r)
  assume "I (fst s)"
  obtain s' b where d: "drain env s = (s', b)" by (metis prod.exhaust)
  from drained [OF \<open>I (fst s)\<close>] d have s': "I (fst s')" by simp
  then have "I (fst (disowned k s'))" by (simp add: generations)
  note kept = reply [OF this] error [OF this]
  show ?thesis
  proof (cases b)
    case True
    with run_watch_drained [OF Some] d kept show ?thesis by (auto split: sum.split)
  next
    case False
    with Some d s' show ?thesis by (simp add: run_watch_def)
  qed
qed (simp add: run_watch_def)

lemma watches: "I (fst s) \<Longrightarrow> I (fst (fst (run_pending env ks s)))"
proof (induction ks arbitrary: s)
  case (Cons k ks)
  obtain s2 b where w: "run_watch env k s = (s2, b)" by (metis prod.exhaust)
  obtain s3 rest where p: "run_pending env ks s2 = (s3, rest)" by (metis prod.exhaust)
  from watch [OF Cons.prems, of k] w Cons.IH [of s2] p show ?case by simp
qed simp

lemma polled: "I (fst s) \<Longrightarrow> poll_client env s = (s1, True) \<Longrightarrow> I (fst s1)"
proof -
  assume "I (fst s)" and p: "poll_client env s = (s1, True)"
  obtain s2 b where d: "drain env s = (s2, b)" by (metis prod.exhaust)
  from drained [OF \<open>I (fst s)\<close>] d have "I (fst s2)" by simp
  from watches [OF this, of "cl_pending (fst s2)"] p d show "I (fst s1)"
    by (auto simp: poll_client_def intro: pending split: if_splits bool.splits prod.splits)
qed

end

locale kept_by_reading = kept_by_sending +
  assumes reserve: "I c \<Longrightarrow> I (c\<lparr>cl_ids := insert k (cl_ids c)\<rparr>)"
    and input: "I c \<Longrightarrow> I (c\<lparr>cl_input := i\<rparr>)"
    and frames: "I c \<Longrightarrow> I (c\<lparr>cl_frames := f\<rparr>)"
begin

lemma request: "I (fst s) \<Longrightarrow> I (fst (handle_request env r s))"
proof (cases s)
  case (Pair c w)
  assume "I (fst s)"
  with Pair have "I (fst (c\<lparr>cl_ids := insert k (cl_ids c)\<rparr>, w))" for k by (simp add: reserve)
  from dispatched [OF dispatch_request_cases this, of r] error \<open>I (fst s)\<close> show ?thesis
    by (auto simp: Pair handle_request_def split: sum.split prod.split) (metis fst_conv)+
qed

lemma frame: "I (fst s) \<Longrightarrow> I (fst (handle_frame env line s))"
  using error request by (auto simp: handle_frame_def split: option.split json.split)

lemma read: "I (fst s) \<Longrightarrow> I (fst (read_frames env s))"
proof -
  have "I (fst s) \<longrightarrow> I (fst (read_frames e s))" if "e = env" for e
    using that
  proof (induction e s rule: read_frames.induct)
    case (1 e s)
    show ?case
    proof
      assume I: "I (fst s)"
      show "I (fst (read_frames e s))"
      proof (cases "split_line (cl_input (fst s))")
        case None
        with I abort [of s] show ?thesis by (simp add: read_frames.simps [of e s])
      next
        case (Some p)
        obtain line rest where p: "p = (line, rest)" by (cases p)
        have "I (fst (handle_frame e line (take_frame line rest s)))"
          using I input [of "fst s"] frames 1(2) by (auto intro: frame)
        with 1(1) [OF Some p [symmetric]] 1(2) I abort [of s] Some p show ?thesis
          by (simp add: read_frames.simps [of env s])
      qed
    qed
  qed
  then show "I (fst s) \<Longrightarrow> I (fst (read_frames env s))" by simp
qed

lemma read_client: "I (fst s) \<Longrightarrow> I (fst (read_client env bytes s))"
  by (cases s) (simp add: read_client_def input read)

end

section \<open>Buffers\<close>

definition buffers_ok :: "ipc_env \<Rightarrow> client \<Rightarrow> bool" where
  "buffers_ok env c \<longleftrightarrow> 0 \<le> cl_unsent c \<and> cl_unsent c \<le> max_buffered_output (ie_options env) \<and>
     in_bytes (cl_inbox c) = (\<Sum>e\<leftarrow>events_of c. line_size env e) \<and>
     in_bytes (cl_inbox c) \<le> max_buffered_output (ie_options env)"

lemma line_size_nonneg [simp]: "0 \<le> line_size env e"
  by (simp add: line_size_def)

lemma abort_buffers: "0 \<le> max_buffered_output (ie_options env) \<Longrightarrow> buffers_ok env (fst s) \<Longrightarrow> buffers_ok env (fst (socket_abort s))"
  by (auto simp: buffers_ok_def socket_abort_def socket_disconnected_def split: prod.split)

lemma send_buffers: "0 \<le> max_buffered_output (ie_options env) \<Longrightarrow> buffers_ok env (fst s) \<Longrightarrow> buffers_ok env (fst (ipc_send env v s))"
  using abort_buffers [of env s] by (auto simp: ipc_send_def buffers_ok_def split: prod.splits)

interpretation buffers: kept_by_reading env "\<lambda>c. 0 \<le> max_buffered_output (ie_options env) \<and> buffers_ok env c" for env
proof unfold_locales
  fix s :: conn and v
  assume I: "0 \<le> max_buffered_output (ie_options env) \<and> buffers_ok env (fst s)"
  show "0 \<le> max_buffered_output (ie_options env) \<and> buffers_ok env (fst (ipc_send env v s))"
    using I send_buffers by blast
  show "0 \<le> max_buffered_output (ie_options env) \<and> buffers_ok env (fst (socket_abort s))"
    using I abort_buffers by blast
qed (simp_all add: buffers_ok_def)

text \<open>The identifiers of a connection only leave while requests are answered.\<close>

interpretation fewer: kept_by_sending env "\<lambda>c. cl_ids c \<subseteq> ids" for env ids
  using tables_send [where env = env] tables_abort by unfold_locales (auto simp: tables_def)

definition input_ok :: "ipc_env \<Rightarrow> client \<Rightarrow> bool" where
  "input_ok env c \<longleftrightarrow> (cl_connected c \<longrightarrow> int (length (cl_input c)) \<le> max_frame_bytes (ie_options env))"

interpretation input: kept_by_sending env "input_ok env" for env
proof unfold_locales
  fix s :: conn and v
  assume "input_ok env (fst s)"
  then show "input_ok env (fst (ipc_send env v s))"
    by (cases rule: ipc_send_cases [of s env v]) (auto simp: input_ok_def)
  show "input_ok env (fst (socket_abort s))"
    using socket_abort_gone [of s] by (simp add: input_ok_def)
qed (auto simp: input_ok_def)

lemma read_input_ok: "input_ok env (fst (read_frames env s))"
proof (induction env s rule: read_frames.induct)
  case (1 env s)
  show ?case
  proof (cases "split_line (cl_input (fst s))")
    case None
    then show ?thesis using socket_abort_gone [of s]
      by (simp add: read_frames.simps [of env s] input_ok_def)
  next
    case (Some p)
    obtain line rest where p: "p = (line, rest)" by (cases p)
    with 1 [OF Some] Some socket_abort_gone [of s] show ?thesis
      by (simp add: read_frames.simps [of env s] input_ok_def)
  qed
qed

section \<open>Requests in flight\<close>

definition ids_ok :: "ipc_env \<Rightarrow> client \<Rightarrow> bool" where
  "ids_ok env c \<longleftrightarrow> finite (cl_ids c) \<and> int (card (cl_ids c)) \<le> max_in_flight (ie_options env)"

lemma ids_ok_fewer: "ids_ok env c \<Longrightarrow> cl_ids d \<subseteq> cl_ids c \<Longrightarrow> ids_ok env d"
  using card_mono [of "cl_ids c" "cl_ids d"] by (auto simp: ids_ok_def intro: finite_subset)

interpretation ids: kept_by_sending env "ids_ok env" for env
proof unfold_locales
  fix s :: conn and v and c :: client and k
  show "ids_ok env (fst s) \<Longrightarrow> ids_ok env (fst (ipc_send env v s))"
    using ids_ok_fewer fewer.send [of s "cl_ids (fst s)" env v] by blast
  show "ids_ok env (fst s) \<Longrightarrow> ids_ok env (fst (socket_abort s))"
    using ids_ok_fewer fewer.abort [of s "cl_ids (fst s)"] by blast
  show "ids_ok env c \<Longrightarrow> ids_ok env (c\<lparr>cl_ids := cl_ids c - {k}\<rparr>)"
    by (erule ids_ok_fewer) auto
qed (simp_all add: ids_ok_def)

text \<open>A cancellation is admitted over the limit, and is answered at once.\<close>

lemma dispatch_cancel: "dispatch env k (qs ''cancel'') p auth = cancel_request env k p"
  by (simp add: dispatch_def)

lemma cancel_answers:
  assumes "dispatch_request env request k (qs ''cancel'') s = (s1, Inr u)"
  shows "k \<notin> cl_ids (fst s1)"
  using assms
  by (cases s) (auto simp: dispatch_request_def dispatch_cancel cancel_request_def act_bind_Inr throw_def ipc_reply_def
    split: option.splits)

lemma handle_request_ids:
  assumes "ids_ok env (fst s)"
  shows "ids_ok env (fst (handle_request env request s))"
proof (cases "string_field request ''id'' True")
  case (Inl e)
  with assms show ?thesis by (simp add: handle_request_def ids.error)
next
  case (Inr k)
  obtain c w where s: "s = (c, w)" by (cases s)
  show ?thesis
  proof (cases "accept_request env request k c")
    case (Inl e)
    with assms Inr show ?thesis by (simp add: handle_request_def s ids.error)
  next
    case accepted: (Inr verb)
    let ?s = "(c\<lparr>cl_ids := insert k (cl_ids c)\<rparr>, w)"
    have new: "k \<notin> cl_ids c" and room: "int (card (cl_ids c)) < max_in_flight (ie_options env) \<or> verb = qs ''cancel''"
      using accepted by (auto simp: accept_request_def bindr_def require_def throw_def split: if_splits sum.splits)
    obtain s1 r where d: "dispatch_request env request k verb ?s = (s1, r)" by (metis prod.exhaust)
    from fewer.dispatched [OF dispatch_request_cases, of ?s "insert k (cl_ids c)" env request k verb]
    have sub: "cl_ids (fst s1) \<subseteq> insert k (cl_ids c)" by (simp add: d)
    have base: "finite (cl_ids c)" "int (card (cl_ids c)) \<le> max_in_flight (ie_options env)"
      using assms by (simp_all add: s ids_ok_def)
    show ?thesis
    proof (cases r)
      case (Inl e)
      have "cl_ids (fst (ipc_error env k e True s1)) \<subseteq> cl_ids c"
        using fewer.send [OF sub] new by (auto simp: ipc_error_def Let_def)
      then have "ids_ok env (fst (ipc_error env k e True s1))" using ids_ok_fewer assms by (simp add: s)
      with Inl show ?thesis by (simp add: handle_request_def s Inr accepted d)
    next
      case returned: (Inr u)
      have "ids_ok env (fst s1)"
      proof (cases "verb = qs ''cancel''")
        case True
        with cancel_answers [of env request k ?s s1 u] d returned have "k \<notin> cl_ids (fst s1)" by simp
        with sub have "cl_ids (fst s1) \<subseteq> cl_ids c" by blast
        then show ?thesis using ids_ok_fewer assms by (simp add: s)
      next
        case False
        with room base new have "ids_ok env (fst ?s)" by (simp add: ids_ok_def)
        then show ?thesis by (rule ids_ok_fewer) (simp add: sub)
      qed
      with returned show ?thesis by (simp add: handle_request_def s Inr accepted d)
    qed
  qed
qed

lemma handle_frame_ids: "ids_ok env (fst s) \<Longrightarrow> ids_ok env (fst (handle_frame env line s))"
  using ids.error handle_request_ids by (auto simp: handle_frame_def split: option.split json.split)

lemma read_frames_ids: "ids_ok env (fst s) \<Longrightarrow> ids_ok env (fst (read_frames env s))"
proof (induction env s rule: read_frames.induct)
  case (1 env s)
  show ?case
  proof (cases "split_line (cl_input (fst s))")
    case None
    with 1(2) ids.abort show ?thesis by (simp add: read_frames.simps [of env s])
  next
    case (Some p)
    obtain line rest where p: "p = (line, rest)" by (cases p)
    have "ids_ok env (fst (handle_frame env line (take_frame line rest s)))"
      using 1(2) by (intro handle_frame_ids) (simp add: ids_ok_def)
    with 1(1) [OF Some p [symmetric]] 1(2) ids.abort Some p show ?thesis
      by (simp add: read_frames.simps [of env s])
  qed
qed

section \<open>The limits of the server\<close>

definition client_limits :: "ipc_env \<Rightarrow> client \<Rightarrow> bool" where
  "client_limits env c \<longleftrightarrow> buffers_ok env c \<and> input_ok env c \<and> ids_ok env c"

definition options_hold :: "ipc_env \<Rightarrow> bool" where
  "options_hold env \<longleftrightarrow> max_connections (ie_options env) \<ge> 1 \<and> max_in_flight (ie_options env) \<ge> 1 \<and>
     max_frame_bytes (ie_options env) \<ge> 64 \<and> max_buffered_output (ie_options env) \<ge> 256"

definition server_limits :: "ipc_env \<Rightarrow> ipc_server \<Rightarrow> bool" where
  "server_limits env s \<longleftrightarrow> options_hold env \<and> int (length (ip_clients s)) \<le> max_connections (ie_options env) \<and>
     (\<forall>c \<in> set (ip_clients s). client_limits env c)"

lemma limits_rpc [simp]: "client_limits (env\<lparr>ie_rpc := b\<rparr>) c = client_limits env c"
  by (simp add: client_limits_def buffers_ok_def input_ok_def ids_ok_def line_size_def)

lemma on_client_limits:
  assumes "server_limits env s" and "\<And>c w. client_limits env c \<Longrightarrow> client_limits env (fst (f (c, w)))"
  shows "server_limits env (on_client n f s)"
proof (cases "find (\<lambda>c. cl_number c = n) (ip_clients s)")
  case (Some c)
  then have "c \<in> set (ip_clients s)" by (auto simp: find_Some_iff)
  with assms have "client_limits env (fst (f (c, ip_world s)))" by (simp add: server_limits_def)
  with assms(1) Some show ?thesis by (auto simp: on_client_def server_limits_def split: prod.split)
qed (use assms in \<open>simp add: on_client_def\<close>)

lemma read_limits:
  assumes "options_hold env" and "client_limits env (fst s)"
  shows "client_limits env (fst (read_client env bytes s))"
proof -
  let ?s = "((fst s)\<lparr>cl_input := cl_input (fst s) @ bytes\<rparr>, snd s)"
  have r: "read_client env bytes s = read_frames env ?s" by (simp add: read_client_def split: prod.split)
  have "ids_ok env (fst ?s)" using assms(2) by (simp add: client_limits_def ids_ok_def)
  with buffers.read_client [of env s bytes] assms read_input_ok [of env ?s] read_frames_ids [of env ?s]
  show ?thesis by (simp add: client_limits_def r options_hold_def)
qed

lemma push_limits: "client_limits env c \<Longrightarrow> client_limits env (c\<lparr>cl_inbox := push_event env e (cl_inbox c)\<rparr>)"
  by (auto simp: client_limits_def buffers_ok_def input_ok_def ids_ok_def push_event_def)

lemma push_report_limits: "server_limits env s \<Longrightarrow> server_limits env (push_report env n r s)"
proof -
  assume "server_limits env s"
  then have "server_limits env (on_client m (\<lambda>(c, w). (c\<lparr>cl_inbox := push_event env e (cl_inbox c)\<rparr>, w)) s)" for m e
    by (intro on_client_limits) (auto simp: push_limits)
  with \<open>server_limits env s\<close> show ?thesis
    by (auto simp: push_report_def Let_def set_result_of_def server_limits_def split: option.split)
qed

lemma poll_clients_limits:
  assumes "options_hold env" and "\<forall>c \<in> set cs. client_limits env c"
  shows "(\<forall>c \<in> set (fst (poll_clients env cs w)). client_limits env c) \<and> length (fst (poll_clients env cs w)) \<le> length cs"
  using assms(2)
proof (induction cs arbitrary: w)
  case (Cons c cs)
  obtain c1 w1 stays where p: "poll_client env (c, w) = ((c1, w1), stays)" by (metis prod.exhaust)
  have "client_limits env c1" if stays
    using that p Cons.prems assms(1) buffers.polled [of env "(c, w)" "(c1, w1)"]
      input.polled [of env "(c, w)" "(c1, w1)"] ids.polled [of env "(c, w)" "(c1, w1)"]
    by (auto simp: client_limits_def options_hold_def)
  moreover obtain cs1 w2 where q: "poll_clients env cs w1 = (cs1, w2)" by (metis prod.exhaust)
  moreover have "(\<forall>c \<in> set cs1. client_limits env c) \<and> length cs1 \<le> length cs"
    using Cons.IH [of w1] Cons.prems q by simp
  ultimately show ?case using p by simp
qed simp

lemma ipc_step_limits:
  assumes "server_limits env s"
  shows "server_limits env (ipc_step env e s)"
proof (cases e)
  case Connect
  have "client_limits env (new_client n)" for n
    using assms by (auto simp: client_limits_def buffers_ok_def input_ok_def ids_ok_def new_client_def empty_inbox_def
      server_limits_def options_hold_def)
  with assms Connect show ?thesis by (auto simp: ipc_step_def accept_client_def server_limits_def)
next
  case (Receive n bytes)
  have "options_hold (env\<lparr>ie_rpc := ip_rpc s\<rparr>)" using assms by (simp add: server_limits_def options_hold_def)
  note read = read_limits [OF this]
  show ?thesis
    unfolding ipc_step_def Receive ipc_event.case
  proof (rule on_client_limits [OF assms])
    fix c w
    assume "client_limits env c"
    then show "client_limits env (fst (if cl_connected (fst (c, w))
        then read_client (env\<lparr>ie_rpc := ip_rpc s\<rparr>) bytes (c, w) else (c, w)))"
      using read [of "(c, w)" bytes] by simp
  qed
next
  case (Written n k)
  show ?thesis
    unfolding ipc_step_def Written ipc_event.case
    by (intro on_client_limits [OF assms]) (auto simp: client_limits_def buffers_ok_def input_ok_def ids_ok_def)
next
  case (HangUp n)
  have o: "0 \<le> max_buffered_output (ie_options env)" using assms by (simp add: server_limits_def options_hold_def)
  show ?thesis
    unfolding ipc_step_def HangUp ipc_event.case
  proof (rule on_client_limits [OF assms])
    fix c w
    assume "client_limits env c"
    then show "client_limits env (fst (socket_abort (c, w)))"
      using abort_buffers [OF o, of "(c, w)"] input.abort [of env "(c, w)"] ids.abort [of env "(c, w)"]
      by (simp add: client_limits_def)
  qed
next
  case Poll
  from assms poll_clients_limits [of env "ip_clients s" "ip_world s"] Poll show ?thesis
    by (fastforce simp: ipc_step_def ipc_poll_def server_limits_def split: prod.split)
qed (use assms push_report_limits in \<open>auto simp: ipc_step_def settle_def set_result_of_def ipc_close_def server_limits_def options_hold_def\<close>)

lemma reachable_limits: "ipc_reachable env s \<Longrightarrow> server_limits env s"
proof (induction rule: ipc_reachable.induct)
  case (made st s)
  then show ?case
    by (auto simp: make_ipc_server_def bindr_def require_def throw_def server_limits_def options_hold_def split: if_splits)
next
  case (listened s ep name)
  then show ?case by (simp add: ipc_listen_def server_limits_def)
next
  case (handler s b s1)
  then show ?case
    by (auto simp: set_rpc_handler_def bindr_def require_def throw_def server_limits_def split: if_splits)
next
  case (stepped s e)
  then show ?case by (simp add: ipc_step_limits)
qed

end
