(* ===== verification/IpcChunks.thy ===== *)
theory IpcChunks
  imports IpcServer
begin

text \<open>
  The framing of \<^verbatim>\<open>read()\<close> does not see how the socket cuts the stream: handling a frame
  neither reads nor changes the bytes that wait behind it.
\<close>

definition behind :: "byte list \<Rightarrow> conn \<Rightarrow> conn" where
  "behind b s = ((fst s)\<lparr>cl_input := cl_input (fst s) @ b\<rparr>, snd s)"

definition blind :: "byte list \<Rightarrow> (conn \<Rightarrow> conn) \<Rightarrow> bool" where
  "blind b f \<longleftrightarrow> (\<forall>s. f (behind b s) = behind b (f s))"

definition blind_act :: "byte list \<Rightarrow> (conn, 'a) act \<Rightarrow> bool" where
  "blind_act b m \<longleftrightarrow> (\<forall>s. m (behind b s) = (behind b (fst (m s)), snd (m s)))"

lemma blindD: "blind b f \<Longrightarrow> f (behind b s) = behind b (f s)"
  by (simp only: blind_def)

lemma blindI: "(\<And>s. f (behind b s) = behind b (f s)) \<Longrightarrow> blind b f"
  by (simp only: blind_def) blast

named_theorems blind_rules \<open>operations that do not see the waiting input\<close>

lemma behind_simps [simp]:
  "snd (behind b s) = snd s" "cl_connected (fst (behind b s)) = cl_connected (fst s)"
  "cl_ids (fst (behind b s)) = cl_ids (fst s)" "cl_generations (fst (behind b s)) = cl_generations (fst s)"
  "cl_unsent (fst (behind b s)) = cl_unsent (fst s)" "cl_number (fst (behind b s)) = cl_number (fst s)"
  "cl_input (fst (behind b s)) = cl_input (fst s) @ b"
  by (simp_all add: behind_def)

lemma blind_actI: "(\<And>s. m (behind b s) = (behind b (fst (m s)), snd (m s))) \<Longrightarrow> blind_act b m"
  by (simp add: blind_act_def)

lemma blind_actD: "blind_act b m \<Longrightarrow> m (behind b s) = (behind b (fst (m s)), snd (m s))"
  by (simp only: blind_act_def)

lemma blind_lift [blind_rules]: "blind_act b (lift_res r)"
  by (simp add: blind_act_def)

lemma blind_raise [blind_rules]: "blind_act b (raise c m)"
  by (simp add: blind_act_def)

lemma blind_ret [blind_rules]: "blind_act b (ret x)"
  by (simp add: blind_act_def)

lemma blind_modify [blind_rules]: "blind b f \<Longrightarrow> blind_act b (modify f)"
  by (simp add: blind_act_def blind_def)

lemma blind_bind [blind_rules]: "blind_act b m \<Longrightarrow> (\<And>x. blind_act b (f x)) \<Longrightarrow> blind_act b (act_bind m f)"
  by (auto simp: blind_act_def act_bind_def split: prod.split sum.split)

lemma blind_if [blind_rules]: "blind_act b m \<Longrightarrow> blind_act b n \<Longrightarrow> blind_act b (if p then m else n)"
  by simp

lemma blind_option [blind_rules]:
  "blind_act b m \<Longrightarrow> (\<And>x. blind_act b (f x)) \<Longrightarrow> blind_act b (case v of None \<Rightarrow> m | Some x \<Rightarrow> f x)"
  by (simp split: option.split)

lemma blind_pair [blind_rules]: "(\<And>x y. p = (x, y) \<Longrightarrow> blind_act b (f x y)) \<Longrightarrow> blind_act b (case p of (x, y) \<Rightarrow> f x y)"
  by (simp split: prod.split)

lemma abort_blind: "blind b socket_abort"
  by (simp add: blind_def behind_def socket_abort_def socket_disconnected_def cancel_all_def split: prod.split)

lemma send_blind: "blind b (ipc_send env v)"
  using abort_blind [of b]
  by (auto simp: blind_def behind_def ipc_send_def cancel_all_def split: prod.splits)

lemma release_blind: "blind b (release_id k)"
  by (simp add: blind_def behind_def release_id_def split: prod.split)

lemma reply_blind [blind_rules]: "blind b (ipc_reply env k v)" "blind b (ipc_error env k e rel)"
  by (auto intro!: blindI simp: ipc_reply_def ipc_error_def Let_def blindD [OF send_blind] blindD [OF release_blind])

lemma flags_blind [blind_rules]: "blind b (\<lambda>(c, w). (c, w\<lparr>wd_flags := g (wd_flags w)\<rparr>))"
  by (simp add: blind_def behind_def split: prod.split)

lemma watch_blind [blind_rules]: "blind b (watch_call k n q)"
  by (simp add: blind_def behind_def watch_call_def split: prod.split)

lemma own_blind [blind_rules]: "blind b (own_generation env k h)"
proof (rule blindI)
  fix s :: conn
  let ?s = "((fst s)\<lparr>cl_generations := oput (h_request h) (h_token h) (cl_generations (fst s))\<rparr>, snd s)"
  have "own_generation env k h (behind b s) = ipc_send env
     (jobj [(''id'', JStr k), (''event'', JStr (qs ''accepted'')), (''request_id'', JStr (h_request h))]) (behind b ?s)"
  proof (cases s)
    case (Pair c w)
    then show ?thesis by (cases c) (simp add: own_generation_def behind_def)
  qed
  then show "own_generation env k h (behind b s) = behind b (own_generation env k h s)"
    by (cases s) (simp add: own_generation_def blindD [OF send_blind])
qed

lemma issue_blind [blind_rules]: "blind_act b (issue env k call)"
  by (auto simp: blind_act_def behind_def issue_def Let_def split: prod.split sum.split)

lemma gets_blind [blind_rules]: "blind_act b (gets (\<lambda>s. g (cl_generations (fst s))))"
  by (simp add: blind_act_def)

lemma dispatch_request_blind: "blind_act b (dispatch_request env request k verb)"
  unfolding dispatch_request_def dispatch_def named_def watched_def start_pull_def start_chat_def start_rpc_def
    cancel_request_def get_parameters_def
  by (intro blind_rules)

lemma handle_frame_blind: "handle_frame env line (behind b s) = behind b (handle_frame env line s)"
proof -
  have request: "handle_request env r (behind b s) = behind b (handle_request env r s)" for r
  proof -
    have reserve: "(case behind b s of (c, w) \<Rightarrow> (c\<lparr>cl_ids := insert k (cl_ids c)\<rparr>, w))
       = behind b (case s of (c, w) \<Rightarrow> (c\<lparr>cl_ids := insert k (cl_ids c)\<rparr>, w))" for k
      by (cases s) (simp add: behind_def)
    have accept: "accept_request env r k (fst (behind b s)) = accept_request env r k (fst s)" for k
      by (simp add: accept_request_def)
    show ?thesis
      by (auto simp: handle_request_def accept reserve blind_actD [OF dispatch_request_blind] blindD [OF reply_blind(2)]
        split: sum.split prod.split)
  qed
  show ?thesis
    by (auto simp: handle_frame_def request blindD [OF reply_blind(2)] split: option.split json.split)
qed

lemma split_line_append: "split_line x = Some (line, rest) \<Longrightarrow> split_line (x @ b) = Some (line, rest @ b)"
  by (induction x arbitrary: line) (auto split: if_splits)

lemma take_frame_behind: "take_frame line (rest @ b) (behind b s) = behind b (take_frame line rest s)"
proof (cases s)
  case (Pair c w)
  then show ?thesis by (cases c) (simp add: take_frame_def behind_def)
qed

lemma abort_off: "\<not> cl_connected (fst (socket_abort s))"
  by (auto simp: socket_abort_def socket_disconnected_def split: prod.split)

lemma read_frames_chunks:
  assumes "cl_connected (fst (read_frames env s))"
  shows "read_frames env (behind b (read_frames env s)) = read_frames env (behind b s)"
  using assms
proof (induction env s rule: read_frames.induct)
  case (1 env s)
  show ?case
  proof (cases "split_line (cl_input (fst s))")
    case None
    with 1(2) abort_off [of s] have "read_frames env s = s"
      by (simp add: read_frames.simps [of env s] split: if_splits)
    then show ?thesis by simp
  next
    case (Some p)
    obtain line rest where p: "p = (line, rest)" by (cases p)
    let ?t = "handle_frame env line (take_frame line rest s)"
    have fits: "\<not> max_frame_bytes (ie_options env) < int (length line)" and run: "read_frames env s = read_frames env ?t"
      using 1(2) Some p abort_off [of s] by (auto simp: read_frames.simps [of env s] split: if_splits)
    have "handle_frame env line (take_frame line (rest @ b) (behind b s)) = behind b ?t"
      by (simp add: take_frame_behind handle_frame_blind)
    then have "read_frames env (behind b s) = read_frames env (behind b ?t)"
      using Some p fits split_line_append [of "cl_input (fst s)" line rest b]
      by (simp add: read_frames.simps [of env "behind b s"])
    moreover have "read_frames env (behind b (read_frames env ?t)) = read_frames env (behind b ?t)"
      using 1(1) [OF Some p [symmetric] fits] 1(2) by (simp add: run)
    ultimately show ?thesis by (simp add: run)
  qed
qed

lemma read_client_chunks:
  assumes "cl_connected (fst (read_client env a s))"
  shows "read_client env b (read_client env a s) = read_client env (a @ b) s"
proof -
  have read: "read_client env x t = read_frames env (behind x t)" for x t
    by (simp add: read_client_def behind_def split: prod.split)
  have "behind (a @ b) s = behind b (behind a s)" by (simp add: behind_def)
  with read_frames_chunks [of env "behind a s" b] assms show ?thesis by (simp add: read)
qed

end
