(* ===== verification/IpcProperties.thy ===== *)
theory IpcProperties
  imports IpcOwners IpcLimits IpcChunks
begin

text \<open>
  The properties of the socket server, with a small server that shows their hypotheses can hold: one
  client sends a pull request and a line that is not a request, then hangs up.
\<close>

section \<open>A small server\<close>

definition sample_request :: json_object where
  "sample_request = jobj [(''id'', JStr (qs ''a'')), (''method'', JStr (qs ''models.pull'')),
     (''params'', JObj (jobj [(''model'', JStr (qs ''m''))]))]"

definition sample_ipc_env :: ipc_env where
  "sample_ipc_env = \<lparr>ie_options = default_ipc_options,
     ie_qt = \<lparr>qt_valid_pattern = (\<lambda>_. True), qt_matches = (\<lambda>_ _. True), qt_compact = (\<lambda>_. [])\<rparr>,
     ie_catalog = \<lparr>c_document = [], c_groups = [], c_indexes = [], c_patterns = []\<rparr>,
     ie_hardware = empty_hardware, ie_compact = (\<lambda>_. [123, 125]),
     ie_parse = (\<lambda>line. if line = [1] then Some (JObj sample_request) else None), ie_rpc = False,
     ie_submit = (\<lambda>t call. if t < 100 then Inr \<lparr>h_request = replicate (Suc t) 65, h_token = Token t None, h_valid = True\<rparr>
       else throw QueueFull ''full'')\<rparr>"

definition sample_ipc_server :: ipc_server where
  "sample_ipc_server = \<lparr>ip_listening = True, ip_rpc = False, ip_clients = [], ip_next = 0,
     ip_world = \<lparr>wd_flags = no_flags, wd_calls = [], wd_results = (\<lambda>_. None), wd_tick = 0\<rparr>\<rparr>"

definition sample_run :: "ipc_event list \<Rightarrow> ipc_server" where
  "sample_run es = ipc_run sample_ipc_env es sample_ipc_server"

lemma sample_hypotheses: "documented (ie_catalog sample_ipc_env)" "handles_ok sample_ipc_env"
proof -
  show "documented (ie_catalog sample_ipc_env)" by (simp add: documented_def sample_ipc_env_def)
  have "replicate (Suc t) (65 :: qchar) = replicate (Suc u) 65 \<Longrightarrow> t = u" for t u
    by (metis length_replicate nat.inject)
  then show "handles_ok sample_ipc_env"
    by (auto simp: handles_ok_def sample_ipc_env_def throw_def split: if_splits)
qed

lemma ipc_run_reachable: "ipc_reachable env s \<Longrightarrow> ipc_reachable env (ipc_run env es s)"
  by (induction es arbitrary: s) (auto intro: ipc_reachable.stepped)

lemma sample_reachable: "ipc_reachable sample_ipc_env (sample_run es)"
proof -
  let ?s = "sample_ipc_server\<lparr>ip_listening := False\<rparr>"
  have "ipc_reachable sample_ipc_env ?s"
    by (rule ipc_reachable.made [of _ no_flags])
      (simp add: make_ipc_server_def sample_ipc_env_def default_ipc_options_def require_def sample_ipc_server_def)
  from ipc_reachable.listened [OF this, of "\<lparr>ep_locked = True, ep_exists = False, ep_listens = True\<rparr>" "qs ''s''"]
  have "ipc_reachable sample_ipc_env sample_ipc_server"
    by (simp add: ipc_listen_def sample_ipc_server_def trimmed_def qs_def is_space_def qc_def)
  then show ?thesis by (simp add: sample_run_def ipc_run_reachable)
qed

text \<open>The client after its two lines: the pull is in flight, the other line was answered.\<close>

definition sample_events :: "ipc_event list" where
  "sample_events = [Connect, Receive 0 [1, 10, 2], Receive 0 [10]]"

lemma sample_client:
  "ip_clients (sample_run sample_events) = [\<lparr>cl_number = 0, cl_connected = True, cl_unsent = 6, cl_input = [],
     cl_ids = {qs ''a''}, cl_generations = [([65], Token 0 None)],
     cl_pending = [\<lparr>wt_id = qs ''a'', wt_call = 0, wt_operation = [65]\<rparr>], cl_inbox = empty_inbox,
     cl_frames = [[1], [2]],
     cl_sent = [jobj [(''id'', JStr (qs ''a'')), (''event'', JStr (qs ''accepted'')), (''request_id'', JStr [65])],
       jobj [(''id'', JStr []), (''error'', JObj (ipc_error_object ProtocolError (qs ''Expected one JSON object per line'')))]]\<rparr>]"
  by code_simp

section \<open>Properties\<close>

text \<open>C13. On a connected client every frame is answered once: for each identifier, the frames read under
  it are its final messages plus the one in flight. What is in flight are the watched futures, the
  running chats and the completions that wait in the inbox, each under an identifier of its own.\<close>

theorem ipc_requests_answered:
  assumes "ipc_reachable env s" and "documented (ie_catalog env)" and "handles_ok env"
    and "c \<in> set (ip_clients s)" and "cl_connected c"
  shows "(\<forall>k. frames_of env k c = finals_of k c + of_bool (k \<in> cl_ids c)) \<and>
    (live c \<longrightarrow> distinct (map wt_id (cl_pending c) @ running (ip_world s) (cl_number c)) \<and>
       cl_ids c = set (map wt_id (cl_pending c) @ running (ip_world s) (cl_number c)) \<union>
         event_id ` {e \<in> set (events_of c). is_done e})"
proof -
  from reachable_ok [OF assms(1-3)] assms(4)
  have ok: "ledger env None c" "settled_flight c (ip_world s)" by (auto simp: server_ok_def clients_ok_def)
  from ok(1) assms(5) have "\<forall>k. frames_of env k c = finals_of k c + of_bool (k \<in> cl_ids c)" by (simp add: ledger_def)
  moreover have "cl_ids c = set (map wt_id (cl_pending c) @ running (ip_world s) (cl_number c)) \<union>
         event_id ` {e \<in> set (events_of c). is_done e}" if "live c"
  proof -
    have "queue_ok (events_of c) (cl_ids c)"
      and left: "left_after (events_of c) (cl_ids c) = set (map wt_id (cl_pending c) @ running (ip_world s) (cl_number c))"
      using ok(2) that by (simp_all add: settled_flight_def flight_def)
    from queue_ok_ids [OF this(1)] show ?thesis unfolding left [symmetric] left_after_def by blast
  qed
  ultimately show ?thesis using ok(2) by (simp add: settled_flight_def flight_def)
qed

lemma ipc_requests_answered_witness:
  "\<exists>c. ip_clients (sample_run sample_events) = [c] \<and> frames_of sample_ipc_env (qs ''a'') c = 1 \<and>
     finals_of (qs ''a'') c = 0 \<and> frames_of sample_ipc_env [] c = finals_of [] c"
proof -
  obtain c where c: "ip_clients (sample_run sample_events) = [c]" "cl_connected c" "cl_ids c = {qs ''a''}" "cl_frames c = [[1], [2]]"
    using sample_client by simp
  have frames: "frames_of sample_ipc_env (qs ''a'') c = 1"
    unfolding frames_of_def c(4) by code_simp
  from ipc_requests_answered [OF sample_reachable sample_hypotheses, of c sample_events] c(1,2)
  have "frames_of sample_ipc_env k c = finals_of k c + of_bool (k \<in> cl_ids c)" for k by simp
  from this [of "qs ''a''"] this [of "[]"] frames c(3) have "finals_of (qs ''a'') c = 0"
    "frames_of sample_ipc_env [] c = finals_of [] c"
    by (simp_all add: qs_def)
  with c(1) frames show ?thesis by blast
qed

text \<open>C14. Whatever clients and workers do, the server stays within its limits: connections, requests in
  flight, bytes of input without a newline, bytes of output the socket has not taken, and bytes of
  events in an inbox, whose counter is exact.\<close>

theorem ipc_limits_hold:
  assumes "ipc_reachable env s"
  shows "int (length (ip_clients s)) \<le> max_connections (ie_options env) \<and>
    (\<forall>c \<in> set (ip_clients s). finite (cl_ids c) \<and> int (card (cl_ids c)) \<le> max_in_flight (ie_options env) \<and>
       (cl_connected c \<longrightarrow> int (length (cl_input c)) \<le> max_frame_bytes (ie_options env)) \<and>
       0 \<le> cl_unsent c \<and> cl_unsent c \<le> max_buffered_output (ie_options env) \<and>
       in_bytes (cl_inbox c) = (\<Sum>e\<leftarrow>events_of c. line_size env e) \<and>
       in_bytes (cl_inbox c) \<le> max_buffered_output (ie_options env))"
  using reachable_limits [OF assms]
  unfolding server_limits_def client_limits_def buffers_ok_def input_ok_def ids_ok_def by blast

lemma ipc_limits_hold_witness:
  "\<exists>c. ip_clients (sample_run sample_events) = [c] \<and> cl_unsent c = 6 \<and> cl_unsent c \<le> 4 * 1024 * 1024 \<and>
     int (card (cl_ids c)) \<le> 64"
proof -
  obtain c where c: "ip_clients (sample_run sample_events) = [c]" "cl_unsent c = 6"
    using sample_client by simp
  with ipc_limits_hold [OF sample_reachable [of sample_events]] show ?thesis
    by (simp add: sample_ipc_env_def default_ipc_options_def)
qed

text \<open>C15. A connection owns what it starts: one turn of the timer after it is lost, every pull, chat and
  extension call it had made has a result or is cancelled.\<close>

theorem ipc_lost_connection_releases:
  assumes "ipc_reachable env s" and "documented (ie_catalog env)" and "handles_ok env"
    and "i < length (wd_calls (ip_world s))" and "call_kind (is_call (wd_calls (ip_world s) ! i)) \<noteq> 0"
    and "\<forall>c \<in> set (ip_clients s). cl_number c = is_client (wd_calls (ip_world s) ! i) \<longrightarrow> \<not> cl_connected c"
  shows "wd_results (ip_world (ipc_step env Poll s)) i \<noteq> None \<or>
    is_cancelled (wd_flags (ip_world (ipc_step env Poll s))) (h_token (is_handle (wd_calls (ip_world s) ! i)))"
  using poll_releases [OF assms(1-5)] assms(6) by (simp add: ipc_step_def)

lemma sample_hang_up:
  "wd_calls (ip_world (sample_run (sample_events @ [HangUp 0]))) =
     [\<lparr>is_call = PullModel (qs ''m''), is_id = qs ''a'', is_client = 0,
       is_handle = \<lparr>h_request = [65], h_token = Token 0 None, h_valid = True\<rparr>\<rparr>]"
  "map cl_connected (ip_clients (sample_run (sample_events @ [HangUp 0]))) = [False]"
  by code_simp+

lemma sample_no_result: "wd_results (ip_world (ipc_step sample_ipc_env Poll (sample_run (sample_events @ [HangUp 0])))) 0 = None"
  by code_simp

lemma ipc_lost_connection_releases_witness:
  "is_cancelled (wd_flags (ip_world (ipc_step sample_ipc_env Poll (sample_run (sample_events @ [HangUp 0]))))) (Token 0 None)"
proof -
  let ?s = "sample_run (sample_events @ [HangUp 0])"
  have "\<forall>c \<in> set (ip_clients ?s). \<not> cl_connected c"
    using sample_hang_up(2) by auto
  with ipc_lost_connection_releases [OF sample_reachable sample_hypotheses, of 0 "sample_events @ [HangUp 0]"]
    sample_hang_up(1) sample_no_result
  show ?thesis by simp
qed

text \<open>C16. The framing does not depend on how the socket cuts the stream: while the connection lasts,
  reading the chunks one by one is reading them at once, with every reply and every call.\<close>

interpretation gone: kept_by_reading env "\<lambda>c. \<not> cl_connected c" for env
proof unfold_locales
  fix s :: conn and v
  assume "\<not> cl_connected (fst s)"
  then show "\<not> cl_connected (fst (ipc_send env v s))" by (auto elim: send_connected)
qed (auto simp: socket_abort_gone)

theorem ipc_chunks_equal_stream:
  assumes "cl_connected (fst (fold (read_client env) (chunk # chunks) s))"
  shows "fold (read_client env) (chunk # chunks) s = read_client env (concat (chunk # chunks)) s"
proof -
  have lost: "\<not> cl_connected (fst t) \<Longrightarrow> \<not> cl_connected (fst (fold (read_client env) bs t))" for bs t
    by (induction bs arbitrary: t) (simp_all add: gone.read_client)
  have "fold (read_client env) bs (read_client env a s) = read_client env (a @ concat bs) s"
    if "cl_connected (fst (fold (read_client env) bs (read_client env a s)))" for a bs
    using that
  proof (induction bs arbitrary: a)
    case (Cons b bs)
    have "cl_connected (fst (read_client env a s))" using lost [of _ "b # bs"] Cons.prems by blast
    from read_client_chunks [OF this] Cons.IH [of "a @ b"] Cons.prems show ?case by simp
  qed simp
  with assms show ?thesis by simp
qed

lemma ipc_chunks_equal_stream_witness:
  "fold (read_client sample_ipc_env) [[1, 10, 2], [10]] (new_client 0, ip_world sample_ipc_server)
     = read_client sample_ipc_env [1, 10, 2, 10] (new_client 0, ip_world sample_ipc_server)"
proof -
  have "cl_connected (fst (fold (read_client sample_ipc_env) [[1, 10, 2], [10]] (new_client 0, ip_world sample_ipc_server)))"
    by code_simp
  from ipc_chunks_equal_stream [OF this] show ?thesis by simp
qed

end
