(* ===== verification/Http.thy ===== *)
theory Http
  imports Ipc Conversation
begin

text \<open>
  The requests and the responses of the HTTP server (\<^verbatim>\<open>src/service/HttpApiServer.cpp\<close>):
  the status of an error, the checks in front of every route, the request body of a chat completion,
  the objects and the event-stream frames of its answer. Headers and bodies are byte strings; the
  JSON reader and printers, the UTF-8 codec, the service and the extension handler are fields of
  \<open>http_env\<close>.
\<close>

section \<open>Data\<close>

record http_options =
  worker_threads :: int
  max_queued_connections :: int
  max_request_bytes :: int
  max_buffered_output_bytes :: int
  read_timeout :: int
  write_timeout :: int
  request_timeout :: int
  max_control_requests :: int

definition default_http_options :: http_options where
  "default_http_options = \<lparr>worker_threads = 8, max_queued_connections = 16, max_request_bytes = 1024 * 1024,
     max_buffered_output_bytes = 4 * 1024 * 1024, read_timeout = 5000, write_timeout = 5000,
     request_timeout = 300000, max_control_requests = 2\<rparr>"

record parsed_completion =
  pc_request :: completion_request
  pc_conversation :: "conversation_request option"
  pc_stream :: bool
  pc_include_usage :: bool

text \<open>What a request starts: on the service, or on the extension handler.\<close>

datatype http_job = ModelsJob | CompleteJob completion_request | ConverseJob conversation_request
  | RpcJob qstring json_object qstring bool

record http_env =
  he_options :: http_options
  he_qt :: qt
  he_catalog :: catalog
  he_compact :: "json_object \<Rightarrow> byte list"
  he_compact_array :: "json list \<Rightarrow> byte list"
  he_parse :: "byte list \<Rightarrow> json option"
  he_utf8 :: "qstring \<Rightarrow> byte list"
  he_text :: "byte list \<Rightarrow> qstring"
  he_control :: "qstring \<Rightarrow> bool"
  he_start :: "nat \<Rightarrow> http_job \<Rightarrow> rpc_handle res"

text \<open>The part of an HTTP request the server reads; \<open>rq_origin\<close> and \<open>rq_authorization\<close>
  hold all values of their header.\<close>

datatype route = HealthRoute | ModelsRoute | CompletionsRoute | RpcRoute

record http_request =
  rq_route :: route
  rq_port :: nat
  rq_host :: "byte list"
  rq_origin :: "byte list list"
  rq_content_type :: "byte list"
  rq_authorization :: "byte list list"
  rq_body :: "byte list"

record http_reply =
  rp_status :: int
  rp_body :: json_object
  rp_challenge :: bool

definition bs :: "string \<Rightarrow> byte list" where
  "bs s = map of_char s"

section \<open>Errors and replies\<close>

fun status_for :: "error_code \<Rightarrow> int" where
  "status_for Unauthorized = 401"
| "status_for InvalidArgument = 400"
| "status_for InvalidManifest = 400"
| "status_for ContextOverflow = 400"
| "status_for NotFound = 404"
| "status_for AlreadyExists = 409"
| "status_for ModelInUse = 409"
| "status_for QueueFull = 429"
| "status_for ResourceLimit = 429"
| "status_for Timeout = 504"
| "status_for RuntimeUnavailable = 503"
| "status_for ShuttingDown = 503"
| "status_for Cancelled = 499"
| "status_for code = 500"

definition http_error_object :: "error_code \<Rightarrow> qstring \<Rightarrow> json_object" where
  "http_error_object code message = jobj [(''error'', JObj (jobj [(''message'', JStr message),
     (''type'', JStr (qs (if status_for code < 500 then ''invalid_request_error'' else ''server_error''))),
     (''param'', JNull), (''code'', JStr (error_name code))]))]"

definition respond :: "json_object \<Rightarrow> int \<Rightarrow> http_reply" where
  "respond body status = \<lparr>rp_status = status, rp_body = body, rp_challenge = False\<rparr>"

fun http_code :: "exn \<Rightarrow> error_code" where
  "http_code (Error code m) = code"
| "http_code e = RuntimeFailure"

fun http_message :: "exn \<Rightarrow> qstring" where
  "http_message (Error code m) = m"
| "http_message (StdException m) = m"
| "http_message UnknownException = qs ''Unhandled HTTP failure''"

definition fail_reply :: "exn \<Rightarrow> http_reply" where
  "fail_reply e = (respond (http_error_object (http_code e) (http_message e)) (status_for (http_code e)))
     \<lparr>rp_challenge := http_code e = Unauthorized\<rparr>"

text \<open>A large body is written piece by piece: what the provider writes when it is asked for
  \<open>wanted\<close> bytes from \<open>offset\<close>.\<close>

definition body_piece :: "byte list \<Rightarrow> nat \<Rightarrow> nat \<Rightarrow> byte list option" where
  "body_piece body offset wanted =
     (if offset > length body then None
      else let count = min (min wanted (length body - offset)) 65536 in
        if count = 0 then None else Some (take count (drop offset body)))"

definition rejected_reply :: "int \<Rightarrow> http_reply" where
  "rejected_reply status = respond (http_error_object
     (if status = 413 then ResourceLimit else if status = 404 then NotFound else InvalidArgument)
     (qs ''HTTP request rejected ('' @ decimal (nat status) @ qs '')'')) status"

section \<open>Checks before the routes\<close>

definition port_bytes :: "nat \<Rightarrow> byte list" where
  "port_bytes port = map (\<lambda>c. of_nat (unat c)) (decimal port)"

definition local_host :: "http_request \<Rightarrow> bool" where
  "local_host rq \<longleftrightarrow> rq_host rq = bs ''127.0.0.1:'' @ port_bytes (rq_port rq)
     \<or> rq_host rq = bs ''localhost:'' @ port_bytes (rq_port rq)"

definition same_origin :: "http_request \<Rightarrow> bool" where
  "same_origin rq \<longleftrightarrow> (case rq_origin rq of
     [] \<Rightarrow> True
   | origin # _ \<Rightarrow> origin = bs ''http://127.0.0.1:'' @ port_bytes (rq_port rq)
       \<or> origin = bs ''http://localhost:'' @ port_bytes (rq_port rq))"

definition pre_routing :: "bool \<Rightarrow> http_request \<Rightarrow> http_reply option" where
  "pre_routing stopping rq =
     (if \<not> local_host rq \<or> \<not> same_origin rq
      then Some (respond (http_error_object InvalidArgument
        (qs ''Only direct localhost clients or same-origin requests are accepted'')) 403)
      else if stopping then Some (fail_reply (Error ShuttingDown (qs ''HTTP server is stopping'')))
      else None)"

text \<open>Case folding of Qt on the characters that fold to a letter of \<^verbatim>\<open>application/json\<close>.\<close>

definition fold_char :: "qchar \<Rightarrow> qchar" where
  "fold_char c = (if c = 0x17F then qc (CHR ''s'') else lower_char c)"

definition json_content :: "http_env \<Rightarrow> http_request \<Rightarrow> bool" where
  "json_content env rq \<longleftrightarrow> map fold_char (trimmed (takeWhile (\<lambda>c. c \<noteq> qc (CHR '';''))
     (he_text env (rq_content_type rq)))) = qs ''application/json''"

definition unsupported_content :: http_reply where
  "unsupported_content = respond (http_error_object InvalidArgument
     (qs ''Content-Type must be application/json'')) 415"

section \<open>Reading a chat completion\<close>

definition http_require :: "bool \<Rightarrow> string \<Rightarrow> unit res" where
  "http_require condition message = require condition InvalidArgument message"

definition http_fields :: "string list \<Rightarrow> json_object \<Rightarrow> unit res" where
  "http_fields allowed o1 = fold_res (\<lambda>(k, v) u.
     if k \<in> set (map qs allowed) then Inr () else throwq InvalidArgument (qs ''Unsupported field: '' @ k)) o1 ()"

definition http_number :: "json_object \<Rightarrow> string \<Rightarrow> rat \<Rightarrow> rat \<Rightarrow> rat \<Rightarrow> bool \<Rightarrow> rat res" where
  "http_number o1 name fallback least most integral =
     (let v = jvalue o1 name; n = to_double v in
      if v = JUndefined then Inr fallback
      else if is_double v \<and> least \<le> n \<and> n \<le> most \<and> (integral \<longrightarrow> of_int \<lfloor>n\<rfloor> = n) then Inr n
      else throw InvalidArgument (''Invalid numeric field: '' @ name))"

definition http_boolean :: "json_object \<Rightarrow> string \<Rightarrow> bool \<Rightarrow> bool res" where
  "http_boolean o1 name fallback =
     (let v = jvalue o1 name in
      bindr (http_require (v = JUndefined \<or> is_bool v) (name @ '' must be a boolean'')) (\<lambda>_.
      Inr (if v = JUndefined then fallback else to_bool v False)))"

fun text_or :: "json \<Rightarrow> qstring \<Rightarrow> qstring" where
  "text_or (JStr s) d = s"
| "text_or v d = d"

definition completion_fields :: "string list" where
  "completion_fields = [''model'', ''messages'', ''stream'', ''stream_options'', ''max_tokens'',
     ''max_completion_tokens'', ''temperature'', ''top_p'', ''top_k'', ''seed'', ''stop'', ''n'', ''keep_alive'',
     ''min_p'', ''typical_p'', ''min_keep'', ''repetition_penalty'', ''repetition_context_size'',
     ''presence_penalty'', ''frequency_penalty'', ''xtc_probability'', ''xtc_threshold'', ''logit_bias'',
     ''tools'', ''tool_choice'', ''parallel_tool_calls'']"

definition structured_message :: "json \<Rightarrow> bool" where
  "structured_message v = (let m = to_object v in
     jvalue m ''role'' = JStr (qs ''tool'') \<or> jhas m ''tool_calls'' \<or> jhas m ''tool_call_id''
     \<or> jhas m ''reasoning_content'' \<or> is_array (jvalue m ''content''))"

definition parse_message :: "bool \<Rightarrow> json \<Rightarrow> chat_message list \<Rightarrow> chat_message list res" where
  "parse_message structured v messages =
     bindr (http_require (is_object v) ''Each message must be an object'') (\<lambda>_.
     let m = to_object v in
     if structured
     then bindr (http_fields [''role'', ''content'', ''tool_calls'', ''tool_call_id'', ''reasoning_content'', ''name''] m)
       (\<lambda>_. Inr messages)
     else
       bindr (http_fields [''role'', ''content''] m) (\<lambda>_.
       bindr (http_require (is_string (jvalue m ''role'') \<and> is_string (jvalue m ''content''))
         ''Only string role/content messages are supported'') (\<lambda>_.
       let name = to_string (jvalue m ''role'') in
       bindr (http_require (name = qs ''system'' \<or> name = qs ''user'' \<or> name = qs ''assistant'')
         ''Unsupported message role'') (\<lambda>_.
       Inr (messages @ [\<lparr>msg_role = (if name = qs ''system'' then System
           else if name = qs ''user'' then User else Assistant),
         msg_content = to_string (jvalue m ''content'')\<rparr>])))))"

definition parse_stream_options :: "json_object \<Rightarrow> bool \<Rightarrow> bool res" where
  "parse_stream_options o1 stream =
     (if \<not> jhas o1 ''stream_options'' then Inr False
      else bindr (http_require (stream \<and> is_object (jvalue o1 ''stream_options''))
          ''stream_options requires stream=true and an object'') (\<lambda>_.
        let options = to_object (jvalue o1 ''stream_options'') in
        bindr (http_fields [''include_usage''] options) (\<lambda>_. http_boolean options ''include_usage'' False)))"

text \<open>The published generation fields of the request, with the newer name of the token limit and a
  single stop string brought into their form.\<close>

definition generation_fields_of :: "parameter_group \<Rightarrow> json_object \<Rightarrow> json_object" where
  "generation_fields_of g o1 =
     (let g1 = fold (\<lambda>p acc. case map_of o1 (p_name p) of None \<Rightarrow> acc | Some v \<Rightarrow> oput (p_name p) v acc) (g_parameters g) [];
          g2 = (if jhas o1 ''max_completion_tokens''
            then oput (qs ''max_tokens'') (jvalue o1 ''max_completion_tokens'') g1 else g1)
      in if is_string (jvalue g2 ''stop'') then oput (qs ''stop'') (JArr [jvalue g2 ''stop'']) g2 else g2)"

definition parse_options :: "http_env \<Rightarrow> json_object \<Rightarrow> generation_options res" where
  "parse_options env o1 =
     bindr (http_require (\<not> jhas o1 ''max_tokens'' \<or> \<not> jhas o1 ''max_completion_tokens'') ''Specify one token limit field'') (\<lambda>_.
     bindr (catalog_group (he_catalog env) generation_id) (\<lambda>g.
     bindr (generation_options_from_json (he_qt env) (he_catalog env) (generation_fields_of g o1)) (\<lambda>options.
     bindr (http_require (case temperature options of Dbl t \<Rightarrow> t \<le> 2 | NonFinite \<Rightarrow> False) ''HTTP temperature must be in [0, 2]'') (\<lambda>_.
     bindr (http_number o1 ''n'' 1 1 1 True) (\<lambda>_. Inr options)))))"

definition parse_choice :: "json_object \<Rightarrow> qstring res" where
  "parse_choice o1 =
     (let choice = text_or (jvalue o1 ''tool_choice'') (qs ''auto'') in
      bindr (http_require (\<not> jhas o1 ''tools'' \<or> is_array (jvalue o1 ''tools'')) ''tools must be an array'') (\<lambda>_.
      bindr (http_require (\<not> jhas o1 ''tool_choice'' \<or> (is_string (jvalue o1 ''tool_choice'')
          \<and> (choice = qs ''auto'' \<or> choice = qs ''none'' \<or> choice = qs ''required'')))
        ''tool_choice supports auto, none, or required'') (\<lambda>_. Inr choice)))"

definition is_structured :: "json_object \<Rightarrow> qstring \<Rightarrow> bool" where
  "is_structured o1 choice \<longleftrightarrow> to_array (jvalue o1 ''tools'') \<noteq> [] \<or> choice = qs ''required''
     \<or> list_ex structured_message (to_array (jvalue o1 ''messages''))"

definition parse_completion :: "http_env \<Rightarrow> byte list \<Rightarrow> parsed_completion res" where
  "parse_completion env body =
     (let document = he_parse env body in
      bindr (http_require (case document of Some v \<Rightarrow> is_object v | None \<Rightarrow> False) ''Expected a JSON object'') (\<lambda>_.
      let o1 = to_object (the document); model = to_string (jvalue o1 ''model''); messages = to_array (jvalue o1 ''messages'') in
      bindr (http_fields completion_fields o1) (\<lambda>_.
      bindr (http_require (is_string (jvalue o1 ''model'')) ''model must be a model:// URI'') (\<lambda>_.
      bindr (http_require (trimmed model \<noteq> []) ''model must be a model:// URI or registered alias'') (\<lambda>_.
      bindr (parse_keep_alive (jvalue o1 ''keep_alive'')) (\<lambda>keep_alive.
      bindr (http_require (is_array (jvalue o1 ''messages'')) ''messages must be an array'') (\<lambda>_.
      bindr (http_require (messages \<noteq> [] \<and> length messages \<le> 4096) ''messages must contain 1 to 4096 text messages'') (\<lambda>_.
      bindr (parse_choice o1) (\<lambda>choice.
      bindr (http_boolean o1 ''parallel_tool_calls'' True) (\<lambda>parallel.
      bindr (fold_res (parse_message (is_structured o1 choice)) messages []) (\<lambda>chat.
      bindr (http_boolean o1 ''stream'' False) (\<lambda>stream.
      bindr (parse_stream_options o1 stream) (\<lambda>include_usage.
      bindr (parse_options env o1) (\<lambda>options.
      Inr \<lparr>pc_request = \<lparr>completion_model = model, completion_messages = chat, completion_options = options,
             completion_keep_alive = keep_alive\<rparr>,
           pc_conversation = (if is_structured o1 choice then Some \<lparr>conv_model = model, conv_messages = messages,
             conv_tools = to_array (jvalue o1 ''tools''), conv_tool_choice = choice, conv_context_id = [],
             conv_options = options, conv_keep_alive = keep_alive, conv_parallel_tool_calls = parallel,
             conv_response_schema = [], conv_enable_thinking = None\<rparr> else None),
           pc_stream = stream, pc_include_usage = include_usage\<rparr>))))))))))))))"

section \<open>Objects and frames of the answer\<close>

definition completion_reason :: "generation_result \<Rightarrow> qstring" where
  "completion_reason r = (if res_tool_calls r = [] then finish_name (res_finish_reason r) else qs ''tool_calls'')"

definition usage_object :: "usage \<Rightarrow> json_object" where
  "usage_object u = jobj [(''prompt_tokens'', jint (prompt_tokens u)), (''completion_tokens'', jint (generated_tokens u)),
     (''total_tokens'', jint (prompt_tokens u + generated_tokens u)),
     (''prompt_tokens_details'', JObj (jobj [(''cached_tokens'', jint (cached_tokens u))]))]"

definition envelope :: "qstring \<Rightarrow> qstring \<Rightarrow> int \<Rightarrow> bool \<Rightarrow> json_object" where
  "envelope id1 model created streaming = jobj [(''id'', JStr id1),
     (''object'', JStr (qs (if streaming then ''chat.completion.chunk'' else ''chat.completion''))),
     (''created'', jint created), (''model'', JStr model)]"

definition chunk_object :: "qstring \<Rightarrow> qstring \<Rightarrow> int \<Rightarrow> json_object \<Rightarrow> json \<Rightarrow> json_object" where
  "chunk_object id1 model created delta reason = oput (qs ''choices'') (JArr [JObj (jobj [(''index'', jint 0),
     (''delta'', JObj delta), (''finish_reason'', reason)])]) (envelope id1 model created True)"

definition sse_frame :: "http_env \<Rightarrow> json_object \<Rightarrow> byte list" where
  "sse_frame env o1 = bs ''data: '' @ he_compact env o1 @ [10, 10]"

definition sse_done :: "byte list" where
  "sse_done = bs ''data: [DONE]'' @ [10, 10]"

definition completion_id :: "qstring \<Rightarrow> qstring" where
  "completion_id request = qs ''chatcmpl-'' @ request"

definition message_object :: "generation_result \<Rightarrow> json_object" where
  "message_object r =
     (let m = jobj [(''role'', JStr (qs ''assistant'')), (''content'', JStr (res_text r))];
          m1 = (if res_tool_calls r \<noteq> [] then
            let m' = oput (qs ''tool_calls'') (JArr (res_tool_calls r)) m
            in if res_text r = [] then oput (qs ''content'') JNull m' else m' else m)
      in if res_reasoning r \<noteq> [] then oput (qs ''reasoning_content'') (JStr (res_reasoning r)) m1 else m1)"

definition completion_object :: "parsed_completion \<Rightarrow> int \<Rightarrow> generation_result \<Rightarrow> json_object" where
  "completion_object p created r =
     oput (qs ''usage'') (JObj (usage_object (res_usage r)))
       (oput (qs ''choices'') (JArr [JObj (jobj [(''index'', jint 0), (''message'', JObj (message_object r)),
          (''finish_reason'', JStr (completion_reason r))])])
         (envelope (completion_id (res_request_id r)) (completion_model (pc_request p)) created False))"

end
