(* ===== verification/HttpServer.thy ===== *)
theory HttpServer
  imports Http
begin

text \<open>
  The HTTP server at work (\<^verbatim>\<open>src/service/HttpApiServer.cpp\<close>): admission, the three
  kinds of exchange a request can open, the callbacks of the service and of the extension handler,
  the loops of the handler threads and of the stream providers, the end of a response, stopping. One
  event is one pass of such a loop or one critical section; a list of events is an interleaving of
  the transport threads with the workers. Clock, connection and socket are observed by the event.
\<close>

section \<open>State\<close>

text \<open>The two buffers between a worker and a stream provider.\<close>

record stream_state =
  ss_frames :: "byte list list"
  ss_buffered :: int
  ss_output :: int
  ss_started :: bool
  ss_finished :: bool
  ss_overflow :: bool
  ss_abandoned :: bool
  ss_result :: generation_result

record rpc_stream_state =
  rs_frames :: "byte list list"
  rs_buffered :: int
  rs_overflow :: bool
  rs_abandoned :: bool

text \<open>What an exchange is for. A chat keeps its parsed request, the time stamp of the answer and, as
  history, the events its callback took; a call of the extension its identifier and, as history, the
  events it pushed.\<close>

datatype exchange_kind = ModelList
  | ChatExchange parsed_completion int stream_state "stream_event list"
  | RpcExchange qstring bool rpc_stream_state "json_object list"

text \<open>\<open>Starting\<close>: the work is submitted, the handler has not registered it. \<open>Waiting\<close>:
  the handler waits for a reply. \<open>Streaming\<close>: the provider writes frames. \<open>Answered\<close>:
  the reply is decided. \<open>Closed\<close>: the stream ended, in order or not.\<close>

datatype phase = Starting | Waiting | Streaming | Answered http_reply | Closed bool

record exchange =
  ex_number :: nat
  ex_control :: bool
  ex_handle :: rpc_handle
  ex_kind :: exchange_kind
  ex_future :: "ipc_value res option"
  ex_phase :: phase
  ex_sent :: "byte list list"

record http_server =
  hs_stopping :: bool
  hs_running :: bool
  hs_rpc :: bool
  hs_work :: int
  hs_controls :: int
  hs_active :: "cancellation_token list"
  hs_active_rpc :: "(qstring, cancellation_token) omap"
  hs_exchanges :: "exchange list"
  hs_next :: nat
  hs_flags :: flag_store

definition empty_stream :: stream_state where
  "empty_stream = \<lparr>ss_frames = [], ss_buffered = 0, ss_output = 0, ss_started = False, ss_finished = False,
     ss_overflow = False, ss_abandoned = False, ss_result = empty_result [] []\<rparr>"

definition empty_rpc_stream :: rpc_stream_state where
  "empty_rpc_stream = \<lparr>rs_frames = [], rs_buffered = 0, rs_overflow = False, rs_abandoned = False\<rparr>"

definition make_http_server :: "http_options \<Rightarrow> flag_store \<Rightarrow> http_server res" where
  "make_http_server options st =
     bindr (http_require (1 \<le> worker_threads options \<and> worker_threads options \<le> 64 \<and> 1 \<le> max_queued_connections options
       \<and> 1 \<le> max_control_requests options \<and> max_control_requests options \<le> 16
       \<and> 0 < max_request_bytes options \<and> 0 < max_buffered_output_bytes options
       \<and> 0 < read_timeout options \<and> 0 < write_timeout options \<and> 0 < request_timeout options) ''Invalid HTTP limits'') (\<lambda>_.
     Inr \<lparr>hs_stopping = True, hs_running = False, hs_rpc = False, hs_work = 0, hs_controls = 0, hs_active = [],
       hs_active_rpc = [], hs_exchanges = [], hs_next = 0, hs_flags = st\<rparr>)"

section \<open>Callbacks\<close>

definition event_result :: "stream_event \<Rightarrow> generation_result" where
  "event_result e = (case ev_result e of None \<Rightarrow> empty_result [] [] | Some r \<Rightarrow> r)"

definition make_chunk :: "http_env \<Rightarrow> parsed_completion \<Rightarrow> int \<Rightarrow> stream_event \<Rightarrow> json_object \<Rightarrow> json \<Rightarrow> byte list" where
  "make_chunk env p created e delta reason =
     (let v = chunk_object (completion_id (ev_request_id e)) (completion_model (pc_request p)) created delta reason
      in sse_frame env (if pc_include_usage p then oput (qs ''usage'') JNull v else v))"

definition indexed_calls :: "json list \<Rightarrow> json list" where
  "indexed_calls calls = map (\<lambda>(i, call). JObj (oput (qs ''index'') (jint (int i)) (to_object call))) (List.enumerate 0 calls)"

definition usage_frame :: "http_env \<Rightarrow> parsed_completion \<Rightarrow> int \<Rightarrow> stream_event \<Rightarrow> byte list" where
  "usage_frame env p created e = sse_frame env
     (oput (qs ''usage'') (JObj (usage_object (res_usage (event_result e))))
       (oput (qs ''choices'') (JArr [])
         (envelope (completion_id (ev_request_id e)) (completion_model (pc_request p)) created True)))"

text \<open>The bytes an event adds to the stream.\<close>

definition finished_bytes :: "http_env \<Rightarrow> parsed_completion \<Rightarrow> int \<Rightarrow> stream_event \<Rightarrow> byte list" where
  "finished_bytes env p created e =
     (let r = event_result e in
      (if res_error_code r = NoError
       then (if res_reasoning r \<noteq> [] then make_chunk env p created e (jobj [(''reasoning_content'', JStr (res_reasoning r))]) JNull else [])
         @ (if res_tool_calls r \<noteq> [] then make_chunk env p created e (jobj [(''tool_calls'', JArr (indexed_calls (res_tool_calls r)))]) JNull else [])
         @ make_chunk env p created e [] (JStr (completion_reason r))
         @ (if pc_include_usage p then usage_frame env p created e else [])
       else sse_frame env (http_error_object (res_error_code r) (res_error_message r)))
      @ sse_done)"

definition event_bytes :: "http_env \<Rightarrow> parsed_completion \<Rightarrow> int \<Rightarrow> stream_event \<Rightarrow> byte list" where
  "event_bytes env p created e =
     (if \<not> pc_stream p then []
      else case ev_kind e of
        Started \<Rightarrow> make_chunk env p created e (jobj [(''role'', JStr (qs ''assistant'')), (''content'', JStr [])]) JNull
      | Delta \<Rightarrow> make_chunk env p created e (jobj [(''content'', JStr (ev_text e))]) JNull
      | Finished \<Rightarrow> finished_bytes env p created e)"

text \<open>The part of the answer an event adds: text, tool calls and reasoning.\<close>

definition event_output :: "http_env \<Rightarrow> stream_event \<Rightarrow> int" where
  "event_output env e = (case ev_kind e of
     Started \<Rightarrow> 0
   | Delta \<Rightarrow> int (length (he_utf8 env (ev_text e)))
   | Finished \<Rightarrow> (if res_tool_calls (event_result e) \<noteq> []
         then int (length (he_compact_array env (res_tool_calls (event_result e)))) else 0)
       + int (length (he_utf8 env (res_reasoning (event_result e)))))"

definition note_event :: "http_env \<Rightarrow> stream_event \<Rightarrow> stream_state \<Rightarrow> stream_state" where
  "note_event env e st =
     (let st1 = st\<lparr>ss_output := ss_output st + event_output env e\<rparr> in
      case ev_kind e of
        Started \<Rightarrow> st1\<lparr>ss_started := True\<rparr>
      | Delta \<Rightarrow> st1
      | Finished \<Rightarrow> st1\<lparr>ss_finished := True, ss_result := event_result e\<rparr>)"

definition on_event :: "http_env \<Rightarrow> parsed_completion \<Rightarrow> int \<Rightarrow> stream_event \<Rightarrow> (stream_state, unit) act" where
  "on_event env p created e st =
     (if ss_abandoned st then (st, Inr ())
      else let bytes = event_bytes env p created e; st1 = note_event env e st;
               limit = max_buffered_output_bytes (he_options env) in
        if ss_output st1 > limit \<or> ss_buffered st1 + int (length bytes) > limit
        then (st1\<lparr>ss_overflow := True\<rparr>,
          if ev_kind e \<noteq> Finished then throw ResourceLimit ''HTTP output limit exceeded'' else Inr ())
        else if bytes \<noteq> []
        then (st1\<lparr>ss_buffered := ss_buffered st1 + int (length bytes), ss_frames := ss_frames st1 @ [bytes]\<rparr>, Inr ())
        else (st1, Inr ()))"

definition rpc_frame :: "http_env \<Rightarrow> qstring \<Rightarrow> json_object \<Rightarrow> byte list" where
  "rpc_frame env k e = sse_frame env (jobj [(''id'', JStr k), (''event'', JStr (qs ''rpc'')), (''data'', JObj e)])"

definition on_rpc_event :: "http_env \<Rightarrow> qstring \<Rightarrow> json_object \<Rightarrow> (rpc_stream_state, unit) act" where
  "on_rpc_event env k e st =
     (let bytes = rpc_frame env k e; limit = max_buffered_output_bytes (he_options env) in
      if rs_abandoned st then (st, throw Cancelled ''RPC connection closed'')
      else if rs_overflow st \<or> int (length bytes) > limit - rs_buffered st
      then (st\<lparr>rs_overflow := True\<rparr>, throw ResourceLimit ''HTTP RPC output limit exceeded'')
      else (st\<lparr>rs_buffered := rs_buffered st + int (length bytes), rs_frames := rs_frames st @ [bytes]\<rparr>, Inr ()))"

section \<open>Opening an exchange\<close>

record observed =
  ob_gone :: bool
  ob_late :: bool
  ob_left :: bool

definition http_check :: "bool \<Rightarrow> observed \<Rightarrow> unit res" where
  "http_check stopping ob =
     bindr (require (\<not> stopping) ShuttingDown ''HTTP server is stopping'') (\<lambda>_.
     bindr (require (\<not> ob_gone ob) Cancelled ''HTTP client disconnected'') (\<lambda>_.
     require (\<not> ob_late ob) Timeout ''HTTP request deadline exceeded''))"

definition admit :: "http_env \<Rightarrow> bool \<Rightarrow> http_server \<Rightarrow> http_server res" where
  "admit env control s =
     (if control
      then (if hs_controls s \<ge> max_control_requests (he_options env) then throw QueueFull ''HTTP control capacity reached''
        else Inr (s\<lparr>hs_controls := hs_controls s + 1\<rparr>))
      else (if hs_work s \<ge> worker_threads (he_options env) then throw QueueFull ''HTTP work capacity reached''
        else Inr (s\<lparr>hs_work := hs_work s + 1\<rparr>)))"

definition no_handle :: rpc_handle where
  "no_handle = \<lparr>h_request = [], h_token = Token 0 None, h_valid = False\<rparr>"

text \<open>A new exchange; \<open>start\<close> is what its handler got from the service.\<close>

definition open_exchange :: "bool \<Rightarrow> exchange_kind \<Rightarrow> rpc_handle res \<Rightarrow> http_server \<Rightarrow> http_server" where
  "open_exchange control kind start s =
     s\<lparr>hs_next := Suc (hs_next s), hs_exchanges := hs_exchanges s @ [
        \<lparr>ex_number = hs_next s, ex_control = control, ex_handle = (case start of Inl e \<Rightarrow> no_handle | Inr h \<Rightarrow> h),
         ex_kind = kind, ex_future = None,
         ex_phase = (case start of Inl e \<Rightarrow> Answered (fail_reply e)
           | Inr h \<Rightarrow> (case kind of ModelList \<Rightarrow> Waiting | _ \<Rightarrow> Starting)), ex_sent = []\<rparr>]\<rparr>"

definition job_of :: "parsed_completion \<Rightarrow> http_job" where
  "job_of p = (case pc_conversation p of Some c \<Rightarrow> ConverseJob c | None \<Rightarrow> CompleteJob (pc_request p))"

record rpc_request =
  rr_id :: qstring
  rr_verb :: qstring
  rr_params :: json_object
  rr_credential :: qstring
  rr_streaming :: bool

definition short_text :: "json \<Rightarrow> bool" where
  "short_text v \<longleftrightarrow> is_string v \<and> trimmed (to_string v) \<noteq> [] \<and> length (to_string v) \<le> 128"

definition bearer :: "http_request \<Rightarrow> bool" where
  "bearer rq \<longleftrightarrow> (case rq_authorization rq of
     [auth] \<Rightarrow> take 7 auth = bs ''Bearer '' \<and> length auth \<le> 263 | _ \<Rightarrow> False)"

definition parse_rpc :: "http_env \<Rightarrow> http_request \<Rightarrow> rpc_request res" where
  "parse_rpc env rq =
     (let document = he_parse env (rq_body rq) in
      bindr (http_require (case document of Some v \<Rightarrow> is_object v | None \<Rightarrow> False) ''Expected a JSON object'') (\<lambda>_.
      let body = to_object (the document) in
      bindr (http_fields [''id'', ''method'', ''params'', ''stream''] body) (\<lambda>_.
      bindr (http_require (short_text (jvalue body ''id'')) ''Invalid RPC id'') (\<lambda>_.
      bindr (http_require (short_text (jvalue body ''method'')) ''Invalid RPC method'') (\<lambda>_.
      bindr (http_require (\<not> jhas body ''params'' \<or> is_object (jvalue body ''params'')) ''RPC params must be an object'') (\<lambda>_.
      bindr (require (bearer rq) Unauthorized ''Expected one Bearer credential'') (\<lambda>_.
      bindr (http_boolean body ''stream'' False) (\<lambda>streaming.
      Inr \<lparr>rr_id = to_string (jvalue body ''id''), rr_verb = to_string (jvalue body ''method''),
        rr_params = to_object (jvalue body ''params''), rr_credential = he_text env (drop 7 (hd (rq_authorization rq))),
        rr_streaming = streaming\<rparr>))))))))"

definition start_completion :: "http_env \<Rightarrow> http_request \<Rightarrow> int \<Rightarrow> http_server \<Rightarrow> http_server \<times> http_reply option" where
  "start_completion env rq created s =
     (if \<not> json_content env rq then (s, Some unsupported_content)
      else case parse_completion env (rq_body rq) of
        Inl e \<Rightarrow> (s, Some (fail_reply e))
      | Inr p \<Rightarrow> (case admit env False s of
          Inl e \<Rightarrow> (s, Some (fail_reply e))
        | Inr s1 \<Rightarrow> (open_exchange False (ChatExchange p created empty_stream []) (he_start env (hs_next s1) (job_of p)) s1, None)))"

definition start_rpc_call :: "http_env \<Rightarrow> http_request \<Rightarrow> observed \<Rightarrow> http_server \<Rightarrow> http_server \<times> http_reply option" where
  "start_rpc_call env rq ob s =
     (if \<not> hs_rpc s then (s, Some (fail_reply (Error NotFound (qs ''RPC API is not configured''))))
      else if \<not> json_content env rq then (s, Some unsupported_content)
      else case parse_rpc env rq of
        Inl e \<Rightarrow> (s, Some (fail_reply e))
      | Inr r \<Rightarrow> (case admit env (he_control env (rr_verb r)) s of
          Inl e \<Rightarrow> (s, Some (fail_reply e))
        | Inr s1 \<Rightarrow> (open_exchange (he_control env (rr_verb r))
            (RpcExchange (rr_id r) (rr_streaming r) empty_rpc_stream [])
            (bindr (http_check (hs_stopping s1) ob) (\<lambda>_.
              he_start env (hs_next s1) (RpcJob (rr_verb r) (rr_params r) (rr_credential r) (rr_streaming r)))) s1, None)))"

definition http_request_step :: "http_env \<Rightarrow> http_request \<Rightarrow> int \<Rightarrow> observed \<Rightarrow> http_server \<Rightarrow> http_server \<times> http_reply option" where
  "http_request_step env rq created ob s = (case pre_routing (hs_stopping s) rq of
     Some r \<Rightarrow> (s, Some r)
   | None \<Rightarrow> (case rq_route rq of
       HealthRoute \<Rightarrow> (s, Some (respond (jobj [(''status'', JStr (qs ''ok''))]) 200))
     | ModelsRoute \<Rightarrow> (case admit env False s of
         Inl e \<Rightarrow> (s, Some (fail_reply e))
       | Inr s1 \<Rightarrow> (open_exchange False ModelList (he_start env (hs_next s1) ModelsJob) s1, None))
     | CompletionsRoute \<Rightarrow> start_completion env rq created s
     | RpcRoute \<Rightarrow> start_rpc_call env rq ob s))"

section \<open>The handler thread\<close>

text \<open>What the scope guard of a handler or of a stream provider does at its end.\<close>

definition release_chat :: "exchange \<Rightarrow> http_server \<Rightarrow> exchange \<times> http_server" where
  "release_chat x s = (let flags1 = cancel (h_token (ex_handle x)) (hs_flags s) in
     (x\<lparr>ex_kind := (case ex_kind x of ChatExchange p c st es \<Rightarrow> ChatExchange p c (st\<lparr>ss_abandoned := True\<rparr>) es | k \<Rightarrow> k)\<rparr>,
      s\<lparr>hs_flags := flags1, hs_active := filter (\<lambda>t. \<not> is_cancelled flags1 t) (hs_active s)\<rparr>))"

definition release_rpc :: "exchange \<Rightarrow> http_server \<Rightarrow> exchange \<times> http_server" where
  "release_rpc x s =
     (x\<lparr>ex_kind := (case ex_kind x of
          RpcExchange k b st es \<Rightarrow> RpcExchange k b (st\<lparr>rs_abandoned := True, rs_frames := [], rs_buffered := 0\<rparr>) es | k \<Rightarrow> k)\<rparr>,
      s\<lparr>hs_flags := (if \<not> h_valid (ex_handle x) \<or> ex_future x = None
            then cancel (h_token (ex_handle x)) (hs_flags s) else hs_flags s),
        hs_active_rpc := odel (h_request (ex_handle x)) (hs_active_rpc s)\<rparr>)"

definition release_exchange :: "exchange \<Rightarrow> http_server \<Rightarrow> exchange \<times> http_server" where
  "release_exchange x s = (case ex_kind x of
     ModelList \<Rightarrow> (x, s)
   | ChatExchange p c st es \<Rightarrow> release_chat x s
   | RpcExchange k b st es \<Rightarrow> release_rpc x s)"

text \<open>The reply is decided; leaving the handler's scope runs its guard.\<close>

definition answer :: "http_reply \<Rightarrow> exchange \<Rightarrow> http_server \<Rightarrow> exchange \<times> http_server" where
  "answer r x s = (case release_exchange x s of (x1, s1) \<Rightarrow> (x1\<lparr>ex_phase := Answered r\<rparr>, s1))"

definition rpc_envelope :: "qstring \<Rightarrow> exchange \<Rightarrow> json_object" where
  "rpc_envelope k x = jobj [(''id'', JStr k), (''request_id'', JStr (h_request (ex_handle x)))]"

definition register :: "http_env \<Rightarrow> exchange \<Rightarrow> http_server \<Rightarrow> exchange \<times> http_server" where
  "register env x s = (case ex_kind x of
     ModelList \<Rightarrow> (x, s)
   | ChatExchange p c st es \<Rightarrow> (x\<lparr>ex_phase := Waiting\<rparr>, s\<lparr>hs_active := hs_active s @ [h_token (ex_handle x)]\<rparr>)
   | RpcExchange k streaming st es \<Rightarrow>
       let h = ex_handle x in
       if \<not> h_valid h \<or> h_request h = [] \<or> length (h_request h) > 128
       then answer (fail_reply (Error InvalidArgument (qs ''Invalid RPC handler response''))) x s
       else let s1 = (if ohas (hs_active_rpc s) (h_request h) then s
                else s\<lparr>hs_active_rpc := oput (h_request h) (h_token h) (hs_active_rpc s)\<rparr>) in
         if \<not> streaming then (x\<lparr>ex_phase := Waiting\<rparr>, s1)
         else let first = sse_frame env (oput (qs ''event'') (JStr (qs ''accepted'')) (rpc_envelope k x));
                  buffered = rs_buffered st + int (length first) in
           (x\<lparr>ex_phase := Streaming, ex_kind := RpcExchange k streaming (st\<lparr>rs_buffered := buffered,
                rs_frames := first # rs_frames st,
                rs_overflow := rs_overflow st \<or> buffered > max_buffered_output_bytes (he_options env)\<rparr>) es\<rparr>, s1))"

text \<open>\<^verbatim>\<open>GET /v1/models\<close> and a call without a stream wait for their future, checking the
  connection once more when it is ready.\<close>

definition models_reply :: "ipc_value \<Rightarrow> http_reply" where
  "models_reply v = respond (jobj [(''object'', JStr (qs ''list'')), (''data'', JArr (map (\<lambda>m. JObj (jobj
     [(''id'', JStr (mr_uri (mi_model m))), (''object'', JStr (qs ''model'')), (''created'', jint 0), (''owned_by'', JStr (qs ''local''))]))
     (case v of VInfos ms \<Rightarrow> ms | _ \<Rightarrow> [])))]) 200"

definition rpc_result :: "http_env \<Rightarrow> qstring \<Rightarrow> exchange \<Rightarrow> ipc_value res \<Rightarrow> json_object res" where
  "rpc_result env k x r = bindr r (\<lambda>v.
     let result = oput (qs ''result'') (case v of VJson j \<Rightarrow> j | _ \<Rightarrow> JUndefined) (rpc_envelope k x) in
     bindr (require (int (length (he_compact env result)) \<le> max_buffered_output_bytes (he_options env))
       ResourceLimit ''HTTP RPC result limit exceeded'') (\<lambda>_. Inr result))"

definition merge_object :: "json_object \<Rightarrow> json_object \<Rightarrow> json_object" where
  "merge_object from into = fold (\<lambda>(k, v). oput k v) from into"

definition rpc_failure :: "qstring \<Rightarrow> exchange \<Rightarrow> exn \<Rightarrow> http_reply" where
  "rpc_failure k x e = (case e of
     Error code m \<Rightarrow> respond (merge_object (rpc_envelope k x) (http_error_object code m)) (status_for code)
   | _ \<Rightarrow> fail_reply e)"

definition completion_decided :: "parsed_completion \<Rightarrow> stream_state \<Rightarrow> bool" where
  "completion_decided p st \<longleftrightarrow> pc_stream p \<and> ss_started st \<or> ss_finished st \<or> ss_overflow st"

definition completion_reply :: "parsed_completion \<Rightarrow> int \<Rightarrow> stream_state \<Rightarrow> http_reply" where
  "completion_reply p created st = (let r = ss_result st in
     if res_error_code r \<noteq> NoError then fail_reply (Error (res_error_code r) (res_error_message r))
     else respond (completion_object p created r) 200)"

text \<open>One pass of a waiting handler.\<close>

definition wake :: "http_env \<Rightarrow> observed \<Rightarrow> exchange \<Rightarrow> http_server \<Rightarrow> exchange \<times> http_server" where
  "wake env ob x s = (case ex_kind x of
     ModelList \<Rightarrow> (case http_check (hs_stopping s) ob of
         Inl e \<Rightarrow> answer (fail_reply e) x s
       | Inr _ \<Rightarrow> (case ex_future x of
           None \<Rightarrow> (x, s)
         | Some (Inl e) \<Rightarrow> answer (fail_reply e) x s
         | Some (Inr v) \<Rightarrow> answer (models_reply v) x s))
   | RpcExchange k streaming st es \<Rightarrow> (case http_check (hs_stopping s) ob of
         Inl e \<Rightarrow> answer (rpc_failure k x e) x s
       | Inr _ \<Rightarrow> (case ex_future x of
           None \<Rightarrow> (x, s)
         | Some r \<Rightarrow> (case rpc_result env k x r of
             Inl e \<Rightarrow> answer (rpc_failure k x e) x s
           | Inr result \<Rightarrow> answer (respond result 200) x s)))
   | ChatExchange p created st es \<Rightarrow>
       (if \<not> completion_decided p st
        then (case http_check (hs_stopping s) ob of Inl e \<Rightarrow> answer (fail_reply e) x s | Inr _ \<Rightarrow> (x, s))
        else if ss_overflow st then answer (fail_reply (Error ResourceLimit (qs ''HTTP output limit exceeded''))) x s
        else if ss_finished st \<and> (\<not> pc_stream p \<or> \<not> ss_started st) then answer (completion_reply p created st) x s
        else (x\<lparr>ex_phase := Streaming\<rparr>, s)))"

section \<open>The stream provider\<close>

text \<open>\<open>room\<close> is the number of writes the socket takes before one fails. The writes that
  succeeded become part of \<open>ex_sent\<close>.\<close>

definition write_frames :: "nat \<Rightarrow> byte list list \<Rightarrow> exchange \<Rightarrow> exchange \<times> bool" where
  "write_frames room frames x = (x\<lparr>ex_sent := ex_sent x @ take room frames\<rparr>, length frames \<le> room)"

definition cancel_work :: "exchange \<Rightarrow> http_server \<Rightarrow> http_server" where
  "cancel_work x s = s\<lparr>hs_flags := cancel (h_token (ex_handle x)) (hs_flags s)\<rparr>"

definition close_stream :: "bool \<Rightarrow> exchange \<Rightarrow> exchange" where
  "close_stream orderly x = x\<lparr>ex_phase := Closed orderly\<rparr>"

text \<open>The last frame of a stream: nothing more follows it, whether it could be written or not.\<close>

definition last_frame :: "nat \<Rightarrow> byte list \<Rightarrow> exchange \<Rightarrow> exchange" where
  "last_frame room bytes x = (case write_frames room [bytes] x of (x1, written) \<Rightarrow> close_stream written x1)"

definition chat_failed :: "http_env \<Rightarrow> nat \<Rightarrow> error_code \<Rightarrow> qstring \<Rightarrow> exchange \<Rightarrow> http_server \<Rightarrow> exchange \<times> http_server" where
  "chat_failed env room code m x s =
     (if code = Cancelled \<or> code = ShuttingDown then (close_stream False x, cancel_work x s)
      else (last_frame room (sse_frame env (http_error_object code m) @ sse_done) x, cancel_work x s))"

definition serve_chat :: "http_env \<Rightarrow> observed \<Rightarrow> nat \<Rightarrow> exchange \<Rightarrow> http_server \<Rightarrow> exchange \<times> http_server" where
  "serve_chat env ob room x s = (case ex_kind x of
     ChatExchange p created st es \<Rightarrow>
       (case http_check (hs_stopping s) ob of
          Inl e \<Rightarrow> chat_failed env room (http_code e) (http_message e) x s
        | Inr _ \<Rightarrow>
            if ss_frames st = [] \<and> \<not> ss_finished st \<and> \<not> ss_overflow st then (x, s)
            else if ss_overflow st then chat_failed env room ResourceLimit (qs ''HTTP output limit exceeded'') x s
            else (case write_frames room (ss_frames st)
                (x\<lparr>ex_kind := ChatExchange p created (st\<lparr>ss_frames := [], ss_buffered := 0\<rparr>) es\<rparr>) of
              (x1, written) \<Rightarrow>
                if \<not> written then (close_stream False x1, cancel_work x1 s)
                else if ss_finished st then (close_stream True x1, s)
                else (x1, s)))
   | _ \<Rightarrow> (x, s))"

definition rpc_stream_failure :: "exn \<Rightarrow> error_code \<times> qstring" where
  "rpc_stream_failure e = (case e of
     Error code m \<Rightarrow> (code, m)
   | StdException m \<Rightarrow> (RuntimeFailure, qs ''RPC handler failed'')
   | UnknownException \<Rightarrow> (RuntimeFailure, qs ''Unknown RPC handler failure''))"

definition rpc_failed :: "http_env \<Rightarrow> observed \<Rightarrow> nat \<Rightarrow> qstring \<Rightarrow> exn \<Rightarrow> exchange \<Rightarrow> http_server \<Rightarrow> exchange \<times> http_server" where
  "rpc_failed env ob room k e x s =
     (if ob_left ob \<or> hs_stopping s then (close_stream False x, cancel_work x s)
      else case rpc_stream_failure e of (code, m) \<Rightarrow>
        (last_frame room (sse_frame env (oput (qs ''error'') (jvalue (http_error_object code m) ''error'')
           (oput (qs ''event'') (JStr (qs ''done'')) (rpc_envelope k x))) @ sse_done) x, cancel_work x s))"

definition result_frame :: "http_env \<Rightarrow> json_object \<Rightarrow> byte list" where
  "result_frame env result = sse_frame env (oput (qs ''event'') (JStr (qs ''done'')) result) @ sse_done"

definition rpc_turn :: "http_env \<Rightarrow> observed \<Rightarrow> nat \<Rightarrow> exchange \<Rightarrow> http_server \<Rightarrow> exchange \<times> http_server" where
  "rpc_turn env ob room x s = (case ex_kind x of
     RpcExchange k streaming st es \<Rightarrow>
       (case http_check (hs_stopping s) ob of
          Inl e \<Rightarrow> rpc_failed env ob room k e x s
        | Inr _ \<Rightarrow>
            if rs_overflow st then rpc_failed env ob room k (Error ResourceLimit (qs ''HTTP RPC output limit exceeded'')) x s
            else (case write_frames room (rs_frames st)
                (x\<lparr>ex_kind := RpcExchange k streaming (st\<lparr>rs_frames := [], rs_buffered := 0\<rparr>) es\<rparr>) of
              (x1, written) \<Rightarrow>
                if \<not> written then (close_stream False x1, s)
                else (case ex_future x of
                    None \<Rightarrow> (x1, s)
                  | Some r \<Rightarrow>
                      let rest = room - length (rs_frames st) in
                      (case rpc_result env k x r of
                         Inl e \<Rightarrow> rpc_failed env ob rest k e x1 s
                       | Inr result \<Rightarrow> (last_frame rest (result_frame env result) x1, s)))))
   | _ \<Rightarrow> (x, s))"

definition turn :: "http_env \<Rightarrow> observed \<Rightarrow> nat \<Rightarrow> exchange \<Rightarrow> http_server \<Rightarrow> exchange \<times> http_server" where
  "turn env ob room x = (case ex_kind x of ChatExchange p c st es \<Rightarrow> serve_chat env ob room x | _ \<Rightarrow> rpc_turn env ob room x)"

section \<open>The server\<close>

definition find_exchange :: "nat \<Rightarrow> http_server \<Rightarrow> exchange option" where
  "find_exchange n s = find (\<lambda>x. ex_number x = n) (hs_exchanges s)"

definition put_exchange :: "exchange \<times> http_server \<Rightarrow> http_server" where
  "put_exchange = (\<lambda>(x, s). s\<lparr>hs_exchanges := map (\<lambda>y. if ex_number y = ex_number x then x else y) (hs_exchanges s)\<rparr>)"

definition on_exchange :: "nat \<Rightarrow> (exchange \<Rightarrow> bool) \<Rightarrow> (exchange \<Rightarrow> http_server \<Rightarrow> exchange \<times> http_server) \<Rightarrow>
    http_server \<Rightarrow> http_server" where
  "on_exchange n ready f s = (case find_exchange n s of
     None \<Rightarrow> s
   | Some x \<Rightarrow> if ready x then put_exchange (f x s) else s)"

text \<open>The library destroys the response: after the reply was written, after the provider
  ended the stream, or because the connection broke between two calls of the provider.\<close>

definition leavable :: "exchange \<Rightarrow> bool" where
  "leavable x = (case ex_phase x of Starting \<Rightarrow> False | Waiting \<Rightarrow> False | _ \<Rightarrow> True)"

definition give_back :: "exchange \<Rightarrow> http_server \<Rightarrow> http_server" where
  "give_back x s = (if ex_control x then s\<lparr>hs_controls := hs_controls s - 1\<rparr> else s\<lparr>hs_work := hs_work s - 1\<rparr>)"

definition leave :: "nat \<Rightarrow> http_server \<Rightarrow> http_server" where
  "leave n s = (case find_exchange n s of
     None \<Rightarrow> s
   | Some x \<Rightarrow> if \<not> leavable x then s
       else let s1 = (case ex_phase x of Answered r \<Rightarrow> s | _ \<Rightarrow> snd (release_exchange x s)) in
         give_back x (s1\<lparr>hs_exchanges := filter (\<lambda>y. ex_number y \<noteq> n) (hs_exchanges s1)\<rparr>))"

text \<open>What workers do: an event of a chat, until its last one; an event of a streaming call and the
  value of a future, until the future is ready.\<close>

definition chat_over :: "stream_event list \<Rightarrow> bool" where
  "chat_over es \<longleftrightarrow> list_ex (\<lambda>e. ev_kind e = Finished) es"

definition take_event :: "http_env \<Rightarrow> stream_event \<Rightarrow> exchange \<Rightarrow> http_server \<Rightarrow> exchange \<times> http_server" where
  "take_event env e x s = (case ex_kind x of
     ChatExchange p created st es \<Rightarrow>
       if chat_over es \<or> ev_request_id e \<noteq> h_request (ex_handle x) then (x, s)
       else (x\<lparr>ex_kind := ChatExchange p created (fst (on_event env p created e st))
              (if ss_abandoned st then es else es @ [e])\<rparr>, s)
   | _ \<Rightarrow> (x, s))"

definition take_rpc_event :: "http_env \<Rightarrow> json_object \<Rightarrow> exchange \<Rightarrow> http_server \<Rightarrow> exchange \<times> http_server" where
  "take_rpc_event env e x s = (case ex_kind x of
     RpcExchange k True st es \<Rightarrow>
       if ex_future x \<noteq> None then (x, s)
       else (case on_rpc_event env k e st of
           (st1, Inr _) \<Rightarrow> (x\<lparr>ex_kind := RpcExchange k True st1 (es @ [e])\<rparr>, s)
         | (st1, Inl _) \<Rightarrow> (x\<lparr>ex_kind := RpcExchange k True st1 es\<rparr>, s))
   | _ \<Rightarrow> (x, s))"

fun fits_kind :: "ipc_value res \<Rightarrow> exchange_kind \<Rightarrow> bool" where
  "fits_kind (Inl e) k = (case k of ChatExchange p c st es \<Rightarrow> False | _ \<Rightarrow> True)"
| "fits_kind (Inr v) k = (case (v, k) of (VInfos ms, ModelList) \<Rightarrow> True | (VJson j, RpcExchange i b st es) \<Rightarrow> True | _ \<Rightarrow> False)"

definition take_result :: "ipc_value res \<Rightarrow> exchange \<Rightarrow> http_server \<Rightarrow> exchange \<times> http_server" where
  "take_result r x s = (if ex_future x = None \<and> fits_kind r (ex_kind x) then (x\<lparr>ex_future := Some r\<rparr>, s) else (x, s))"

definition stop_server :: "http_server \<Rightarrow> http_server" where
  "stop_server s = s\<lparr>hs_stopping := True,
     hs_flags := fold (\<lambda>(_, t). cancel t) (hs_active_rpc s) (fold cancel (hs_active s) (hs_flags s))\<rparr>"

text \<open>\<^verbatim>\<open>listen\<close>: the socket may not bind, the listener may not start; then
  \<^verbatim>\<open>close\<close> undoes it.\<close>

definition http_listen :: "bool \<Rightarrow> bool \<Rightarrow> http_server \<Rightarrow> http_server \<times> bool" where
  "http_listen binds starts s =
     (if hs_running s \<or> \<not> binds then (s, False)
      else if starts then (s\<lparr>hs_stopping := False, hs_running := True\<rparr>, True)
      else (stop_server s, False))"

definition http_set_rpc_handler :: "bool \<Rightarrow> http_server \<Rightarrow> http_server res" where
  "http_set_rpc_handler handler s = bindr (require (\<not> hs_running s) ModelInUse
     ''Close HTTP before replacing its RPC handler'') (\<lambda>_. Inr (s\<lparr>hs_rpc := handler\<rparr>))"

datatype http_event = Arrive http_request int observed | Register nat | Wake nat observed
  | Turn nat observed nat | Leave nat | Take nat stream_event | TakeRpc nat json_object
  | Result nat "ipc_value res" | Stop | Joined

definition http_step :: "http_env \<Rightarrow> http_event \<Rightarrow> http_server \<Rightarrow> http_server" where
  "http_step env e s = (case e of
     Arrive rq created ob \<Rightarrow> if hs_running s then fst (http_request_step env rq created ob s) else s
   | Register n \<Rightarrow> on_exchange n (\<lambda>x. ex_phase x = Starting) (register env) s
   | Wake n ob \<Rightarrow> on_exchange n (\<lambda>x. ex_phase x = Waiting) (wake env ob) s
   | Turn n ob room \<Rightarrow> on_exchange n (\<lambda>x. ex_phase x = Streaming) (turn env ob room) s
   | Leave n \<Rightarrow> leave n s
   | Take n v \<Rightarrow> on_exchange n (\<lambda>x. True) (take_event env v) s
   | TakeRpc n v \<Rightarrow> on_exchange n (\<lambda>x. True) (take_rpc_event env v) s
   | Result n r \<Rightarrow> on_exchange n (\<lambda>x. True) (take_result r) s
   | Stop \<Rightarrow> stop_server s
   | Joined \<Rightarrow> if hs_stopping s \<and> hs_exchanges s = [] then s\<lparr>hs_running := False\<rparr> else s)"

inductive http_reachable :: "http_env \<Rightarrow> http_server \<Rightarrow> bool" for env where
  made: "make_http_server (he_options env) st = Inr s \<Longrightarrow> http_reachable env s"
| listened: "http_reachable env s \<Longrightarrow> http_reachable env (fst (http_listen binds starts s))"
| handler: "http_reachable env s \<Longrightarrow> http_set_rpc_handler b s = Inr s1 \<Longrightarrow> http_reachable env s1"
| stepped: "http_reachable env s \<Longrightarrow> http_reachable env (http_step env e s)"

fun http_run :: "http_env \<Rightarrow> http_event list \<Rightarrow> http_server \<Rightarrow> http_server" where
  "http_run env [] s = s"
| "http_run env (e # es) s = http_run env es (http_step env e s)"

end
