(* ===== verification/HttpRules.thy ===== *)
theory HttpRules
  imports HttpServer "HOL-Library.Sublist"
begin

text \<open>
  Facts about the exchanges of the HTTP server. \<open>exchange_step\<close> is the interface of the
  operations on one exchange: which parts of the exchange and of the server they leave alone. The
  events of the server that work on an exchange are instances of it.
\<close>

section \<open>Operations on one exchange\<close>

text \<open>What an operation on an exchange must leave alone in the server.\<close>

definition same_house :: "http_server \<Rightarrow> http_server \<Rightarrow> bool" where
  "same_house s t \<longleftrightarrow> hs_exchanges t = hs_exchanges s \<and> hs_next t = hs_next s \<and> hs_work t = hs_work s
     \<and> hs_controls t = hs_controls s \<and> hs_stopping t = hs_stopping s \<and> hs_running t = hs_running s \<and> hs_rpc t = hs_rpc s"

lemma same_house_refl [simp]: "same_house s s"
  by (simp add: same_house_def)

lemma same_house_updates [simp]:
  "same_house s (t\<lparr>hs_flags := f\<rparr>) \<longleftrightarrow> same_house s t"
  "same_house s (t\<lparr>hs_active := a\<rparr>) \<longleftrightarrow> same_house s t"
  "same_house s (t\<lparr>hs_active_rpc := r\<rparr>) \<longleftrightarrow> same_house s t"
  by (simp_all add: same_house_def)

text \<open>What it must leave alone in the exchange.\<close>

definition same_exchange :: "exchange \<Rightarrow> exchange \<Rightarrow> bool" where
  "same_exchange x y \<longleftrightarrow> ex_number y = ex_number x \<and> ex_control y = ex_control x \<and> ex_handle y = ex_handle x"

lemma same_exchange_refl [simp]: "same_exchange x x"
  by (simp add: same_exchange_def)

lemma same_exchange_updates [simp]:
  "same_exchange x (y\<lparr>ex_kind := k\<rparr>) \<longleftrightarrow> same_exchange x y"
  "same_exchange x (y\<lparr>ex_future := f\<rparr>) \<longleftrightarrow> same_exchange x y"
  "same_exchange x (y\<lparr>ex_phase := ph\<rparr>) \<longleftrightarrow> same_exchange x y"
  "same_exchange x (y\<lparr>ex_sent := b\<rparr>) \<longleftrightarrow> same_exchange x y"
  by (simp_all add: same_exchange_def)

definition members :: "http_server \<Rightarrow> exchange set" where
  "members s = set (hs_exchanges s)"

definition numbered :: "http_server \<Rightarrow> bool" where
  "numbered s \<longleftrightarrow> distinct (map ex_number (hs_exchanges s)) \<and> (\<forall>x \<in> members s. ex_number x < hs_next s)"

definition leases_ok :: "http_server \<Rightarrow> bool" where
  "leases_ok s \<longleftrightarrow> hs_work s = int (length (filter (\<lambda>x. \<not> ex_control x) (hs_exchanges s)))
     \<and> hs_controls s = int (length (filter ex_control (hs_exchanges s)))"

lemma find_exchange_Some: "find_exchange n s = Some x \<Longrightarrow> x \<in> members s \<and> ex_number x = n"
  by (auto simp: find_exchange_def find_Some_iff members_def)

lemma find_exchange_member: "numbered s \<Longrightarrow> x \<in> members s \<Longrightarrow> find_exchange (ex_number x) s = Some x"
proof -
  assume n: "numbered s" and x: "x \<in> members s"
  then obtain y where y: "find_exchange (ex_number x) s = Some y"
    by (cases "find_exchange (ex_number x) s") (auto simp: find_exchange_def find_None_iff members_def)
  with n x show ?thesis
    using find_exchange_Some [OF y] by (auto simp: numbered_def members_def distinct_map inj_on_def)
qed

locale exchange_step =
  fixes f :: "exchange \<Rightarrow> http_server \<Rightarrow> exchange \<times> http_server"
  assumes exchange: "same_exchange x (fst (f x s))"
    and house: "same_house s (snd (f x s))"
begin

lemma kept: "ex_number (fst (f x s)) = ex_number x" "ex_control (fst (f x s)) = ex_control x"
    "hs_exchanges (snd (f x s)) = hs_exchanges s" "hs_next (snd (f x s)) = hs_next s"
    "hs_work (snd (f x s)) = hs_work s" "hs_controls (snd (f x s)) = hs_controls s"
  using exchange [of x s] house [of s x] by (simp_all add: same_exchange_def same_house_def)

lemma put_kept:
  assumes "x \<in> members s" and "numbered s"
  shows "members (put_exchange (f x s)) = insert (fst (f x s)) (members s - {x})"
proof -
  have one: "ex_number y = ex_number x \<longleftrightarrow> y = x" if "y \<in> members s" for y
    using assms that by (auto simp: numbered_def members_def distinct_map inj_on_def)
  have "members (put_exchange (f x s)) = (\<lambda>y. if ex_number y = ex_number x then fst (f x s) else y) ` members s"
    by (simp add: put_exchange_def split_def members_def kept)
  also have "\<dots> = (\<lambda>y. if y = x then fst (f x s) else y) ` members s"
    using one by (intro image_cong) simp_all
  also have "\<dots> = insert (fst (f x s)) (members s - {x})"
    using assms(1) by auto
  finally show ?thesis .
qed

lemma put_other:
  "hs_next (put_exchange (f x s)) = hs_next s" "hs_work (put_exchange (f x s)) = hs_work s"
  "hs_controls (put_exchange (f x s)) = hs_controls s" "hs_flags (put_exchange (f x s)) = hs_flags (snd (f x s))"
  "hs_active (put_exchange (f x s)) = hs_active (snd (f x s))"
  "hs_active_rpc (put_exchange (f x s)) = hs_active_rpc (snd (f x s))"
  "map ex_number (hs_exchanges (put_exchange (f x s))) = map ex_number (hs_exchanges s)"
  using kept [of x s] by (simp_all add: put_exchange_def split_def comp_def cong: map_cong)

lemma numbered: "numbered s \<Longrightarrow> numbered (on_exchange n ready f s)"
proof (cases "find_exchange n s")
  case (Some x)
  assume n: "numbered s"
  with Some find_exchange_Some [OF Some] kept(1) [of x s] show ?thesis
    by (auto simp: on_exchange_def numbered_def put_other put_kept [OF _ n])
qed (simp add: on_exchange_def)

lemma leases:
  assumes "leases_ok s" and "numbered s"
  shows "leases_ok (on_exchange n ready f s)"
proof (cases "find_exchange n s")
  case (Some x)
  have "map ex_control (hs_exchanges (put_exchange (f x s))) = map ex_control (hs_exchanges s)"
  proof -
    have "ex_control (if ex_number y = ex_number x then fst (f x s) else y) = ex_control y" if "y \<in> members s" for y
      using that assms(2) find_exchange_Some [OF Some] kept(2) [of x s]
      by (auto simp: numbered_def members_def distinct_map inj_on_def)
    then show ?thesis using kept(1,3) [of x s] by (simp add: put_exchange_def split_def members_def)
  qed
  then have "length (filter (P \<circ> ex_control) (hs_exchanges (put_exchange (f x s)))) = length (filter (P \<circ> ex_control) (hs_exchanges s))" for P
    by (metis filter_map length_map)
  from this [of Not] this [of "\<lambda>b. b"] assms(1) show ?thesis
    by (simp add: on_exchange_def Some leases_ok_def put_other comp_def)
qed (use assms in \<open>simp add: on_exchange_def\<close>)

lemma members_cases:
  assumes "y \<in> members (on_exchange n ready f s)" and "numbered s"
  obtains (same) "y \<in> members s" | (moved) x where "x \<in> members s" "ready x" "y = fst (f x s)"
proof (cases "find_exchange n s")
  case None
  with assms(1) same show ?thesis by (simp add: on_exchange_def)
next
  case (Some x)
  from find_exchange_Some [OF Some] have x: "x \<in> members s" by simp
  show ?thesis
  proof (cases "ready x")
    case True
    with assms(1) have "y \<in> insert (fst (f x s)) (members s - {x})"
      by (simp add: on_exchange_def Some put_kept [OF x assms(2)])
    with same moved [OF x True] show ?thesis by auto
  next
    case False
    with assms(1) same show ?thesis by (simp add: on_exchange_def Some)
  qed
qed

end

lemma release_exchange_step: "exchange_step release_exchange"
  by unfold_locales (simp_all add: release_exchange_def release_chat_def release_rpc_def Let_def split: exchange_kind.split)

interpretation released: exchange_step release_exchange
  by (rule release_exchange_step)

lemma answer_same: "same_exchange x (fst (answer r x s))" "same_house s (snd (answer r x s))"
  using released.exchange [of x s] released.house [of s x] by (simp_all add: answer_def split_def)

interpretation registering: exchange_step "register env" for env
  by unfold_locales (simp_all add: register_def Let_def answer_same split: exchange_kind.split)

interpretation waking: exchange_step "wake env ob" for env ob
  by unfold_locales (auto simp: wake_def answer_same split: exchange_kind.split sum.split option.split)

lemma write_frames_same [simp]: "same_exchange x (fst (write_frames room frames y)) \<longleftrightarrow> same_exchange x y"
  by (simp add: write_frames_def)

lemma closing_same [simp]:
  "same_exchange x (close_stream b y) \<longleftrightarrow> same_exchange x y" "same_exchange x (last_frame room bytes y) \<longleftrightarrow> same_exchange x y"
  by (simp_all add: close_stream_def last_frame_def write_frames_def)

lemma cancel_work_same [simp]: "same_house s (cancel_work x t) \<longleftrightarrow> same_house s t"
  by (simp add: cancel_work_def)

lemma failed_same:
  "same_exchange x (fst (chat_failed env room code m y s)) \<longleftrightarrow> same_exchange x y"
  "same_house t (snd (chat_failed env room code m y s)) \<longleftrightarrow> same_house t s"
  "same_exchange x (fst (rpc_failed env ob room k e y s)) \<longleftrightarrow> same_exchange x y"
  "same_house t (snd (rpc_failed env ob room k e y s)) \<longleftrightarrow> same_house t s"
  by (simp_all add: chat_failed_def rpc_failed_def split_def)

interpretation chat_turning: exchange_step "serve_chat env ob room" for env ob room
  by unfold_locales (auto simp: serve_chat_def failed_same write_frames_def split: exchange_kind.split sum.split)

interpretation rpc_turning: exchange_step "rpc_turn env ob room" for env ob room
  by unfold_locales
    (auto simp: rpc_turn_def failed_same write_frames_def Let_def split: exchange_kind.split sum.split option.split)

interpretation turning: exchange_step "turn env ob room" for env ob room
  by unfold_locales (simp_all add: turn_def chat_turning.exchange chat_turning.house rpc_turning.exchange rpc_turning.house
      split: exchange_kind.split)

interpretation taking: exchange_step "take_event env e" for env e
  by unfold_locales (auto simp: take_event_def split: exchange_kind.split)

interpretation taking_rpc: exchange_step "take_rpc_event env e" for env e
  by unfold_locales (auto simp: take_rpc_event_def split: exchange_kind.split prod.split sum.split bool.split)

interpretation settling: exchange_step "take_result r" for r
  by unfold_locales (auto simp: take_result_def)

section \<open>Opening and leaving\<close>

lemma open_members: "members (open_exchange control kind start s) = insert (last (hs_exchanges (open_exchange control kind start s))) (members s)"
  by (simp add: open_exchange_def members_def)

lemma open_numbered: "numbered s \<Longrightarrow> numbered (open_exchange control kind start s)"
  by (auto simp: numbered_def open_exchange_def members_def less_Suc_eq)

lemma request_step_cases:
  assumes "fst (http_request_step env rq created ob s) \<noteq> s"
  obtains s1 control kind start where "admit env control s = Inr s1"
    "fst (http_request_step env rq created ob s) = open_exchange control kind start s1"
    "kind = ModelList \<or> (\<exists>p. kind = ChatExchange p created empty_stream []) \<or> (\<exists>k b. kind = RpcExchange k b empty_rpc_stream [])"
  using assms
  by (fastforce simp: http_request_step_def start_completion_def start_rpc_call_def Let_def
      split: option.splits route.splits sum.splits if_splits)

definition capacity_ok :: "http_env \<Rightarrow> http_server \<Rightarrow> bool" where
  "capacity_ok env s \<longleftrightarrow> numbered s \<and> leases_ok s \<and> hs_work s \<le> worker_threads (he_options env)
     \<and> hs_controls s \<le> max_control_requests (he_options env)"

lemma capacity_updates [simp]:
  "capacity_ok env (s\<lparr>hs_flags := f\<rparr>) \<longleftrightarrow> capacity_ok env s" "capacity_ok env (s\<lparr>hs_stopping := b\<rparr>) \<longleftrightarrow> capacity_ok env s"
  "capacity_ok env (s\<lparr>hs_running := b\<rparr>) \<longleftrightarrow> capacity_ok env s" "capacity_ok env (s\<lparr>hs_rpc := b\<rparr>) \<longleftrightarrow> capacity_ok env s"
  by (simp_all add: capacity_ok_def numbered_def leases_ok_def members_def)

lemma admitted:
  assumes "admit env control s = Inr s1"
  shows "hs_exchanges s1 = hs_exchanges s" "hs_next s1 = hs_next s" "hs_flags s1 = hs_flags s" "hs_active s1 = hs_active s"
    "hs_active_rpc s1 = hs_active_rpc s" "hs_work s1 = hs_work s + of_bool (\<not> control)"
    "hs_controls s1 = hs_controls s + of_bool control"
    "hs_work s \<le> worker_threads (he_options env) \<Longrightarrow> hs_work s1 \<le> worker_threads (he_options env)"
    "hs_controls s \<le> max_control_requests (he_options env) \<Longrightarrow> hs_controls s1 \<le> max_control_requests (he_options env)"
    "hs_stopping s1 = hs_stopping s" "hs_running s1 = hs_running s"
  using assms by (auto simp: admit_def split: if_splits)

lemma open_capacity:
  assumes "capacity_ok env s" and "admit env control s = Inr s1"
  shows "capacity_ok env (open_exchange control kind start s1)"
proof -
  note kept = admitted [OF assms(2)]
  have "numbered s1" using assms(1) by (simp add: capacity_ok_def numbered_def members_def kept)
  from open_numbered [OF this] have "numbered (open_exchange control kind start s1)" .
  moreover have "leases_ok (open_exchange control kind start s1)"
    using assms(1) by (simp add: capacity_ok_def leases_ok_def open_exchange_def kept)
  moreover have "hs_work (open_exchange control kind start s1) = hs_work s1"
      "hs_controls (open_exchange control kind start s1) = hs_controls s1" by (simp_all add: open_exchange_def)
  ultimately show ?thesis using kept(8,9) assms(1) by (simp add: capacity_ok_def)
qed

lemma release_snd: "hs_exchanges (snd (release_exchange x s)) = hs_exchanges s" "hs_next (snd (release_exchange x s)) = hs_next s"
    "hs_work (snd (release_exchange x s)) = hs_work s" "hs_controls (snd (release_exchange x s)) = hs_controls s"
  by (rule released.kept)+

text \<open>The state after an exchange has left, seen from its exchanges.\<close>

lemma leave_house:
  assumes "find_exchange n s = Some x" and "leavable x"
  shows "hs_exchanges (leave n s) = filter (\<lambda>y. ex_number y \<noteq> n) (hs_exchanges s)" "hs_next (leave n s) = hs_next s"
    "hs_work (leave n s) = hs_work s - of_bool (\<not> ex_control x)" "hs_controls (leave n s) = hs_controls s - of_bool (ex_control x)"
  using assms by (auto simp: leave_def Let_def give_back_def release_snd split: phase.split)

lemma leave_members: "numbered s \<Longrightarrow> find_exchange n s = Some x \<Longrightarrow> leavable x \<Longrightarrow> members (leave n s) = members s - {x}"
  using find_exchange_Some [of n s x]
  by (auto simp: members_def leave_house numbered_def distinct_map inj_on_def)

lemma length_filter_one:
  assumes "distinct (map g xs)" and "x \<in> set xs"
  shows "length (filter P (filter (\<lambda>y. g y \<noteq> g x) xs)) = length (filter P xs) - of_bool (P x)"
    and "P x \<Longrightarrow> 0 < length (filter P xs)"
proof -
  obtain ys zs where xs: "xs = ys @ x # zs" using assms(2) by (auto simp: in_set_conv_decomp)
  have "filter (\<lambda>y. g y \<noteq> g x) ys = ys" "filter (\<lambda>y. g y \<noteq> g x) zs = zs"
    using assms(1) by (auto simp: xs filter_id_conv image_iff)
  then show "length (filter P (filter (\<lambda>y. g y \<noteq> g x) xs)) = length (filter P xs) - of_bool (P x)" by (simp add: xs)
  show "P x \<Longrightarrow> 0 < length (filter P xs)" by (simp add: xs)
qed

lemma leave_capacity:
  assumes "capacity_ok env s"
  shows "capacity_ok env (leave n s)"
proof (cases "\<exists>x. find_exchange n s = Some x \<and> leavable x")
  case True
  then obtain x where x: "find_exchange n s = Some x" "leavable x" by blast
  note kept = leave_house [OF x]
  from find_exchange_Some [OF x(1)] have mem: "x \<in> set (hs_exchanges s)" and n: "n = ex_number x" by (simp_all add: members_def)
  have dist: "distinct (map ex_number (hs_exchanges s))" using assms by (simp add: capacity_ok_def numbered_def)
  have "distinct (map ex_number (filter P (hs_exchanges s)))" for P using dist by (simp add: distinct_map_filter)
  then have "numbered (leave n s)" using assms by (auto simp: capacity_ok_def numbered_def kept members_def)
  moreover have "leases_ok (leave n s)"
    using assms length_filter_one [OF dist mem, of ex_control] length_filter_one [OF dist mem, of "\<lambda>y. \<not> ex_control y"]
    unfolding capacity_ok_def leases_ok_def kept unfolding n by (cases "ex_control x") (auto simp: of_nat_diff Suc_leI)
  ultimately show ?thesis using assms by (auto simp: capacity_ok_def kept)
next
  case False
  then have "leave n s = s" by (auto simp: leave_def split: option.splits)
  with assms show ?thesis by simp
qed

context exchange_step
begin

lemma on_counters: "hs_work (on_exchange n ready f s) = hs_work s" "hs_controls (on_exchange n ready f s) = hs_controls s"
  by (simp_all add: on_exchange_def put_other split: option.split)

lemma capacity: "capacity_ok env s \<Longrightarrow> capacity_ok env (on_exchange n ready f s)"
  by (simp add: capacity_ok_def numbered leases on_counters)

end

lemma step_capacity: "capacity_ok env s \<Longrightarrow> capacity_ok env (http_step env e s)"
proof (cases e)
  case (Arrive rq created ob)
  assume s: "capacity_ok env s"
  show ?thesis
  proof (cases "fst (http_request_step env rq created ob s) = s")
    case True
    with s Arrive show ?thesis by (simp add: http_step_def)
  next
    case False
    then show ?thesis
      by (rule request_step_cases) (use s open_capacity in \<open>simp add: http_step_def Arrive\<close>)
  qed
qed (auto simp: http_step_def leave_capacity registering.capacity waking.capacity turning.capacity taking.capacity
    taking_rpc.capacity settling.capacity stop_server_def)

lemma reachable_leases: "http_reachable env s \<Longrightarrow> capacity_ok env s"
proof (induction rule: http_reachable.induct)
  case (made st s)
  then show ?case
    by (auto simp: make_http_server_def http_require_def capacity_ok_def numbered_def leases_ok_def members_def)
next
  case (listened s binds starts)
  then show ?case by (simp add: http_listen_def stop_server_def)
next
  case (handler s b s1)
  then show ?case by (auto simp: http_set_rpc_handler_def)
next
  case (stepped s e)
  then show ?case by (simp add: step_capacity)
qed

end
