(* ===== verification/HttpStreams.thy ===== *)
theory HttpStreams
  imports HttpRules
begin

text \<open>
  What the client of a chat completion receives: the event stream is the encoding of the events the
  service sent, in order, complete when the stream ends in order; a buffer never holds more than its
  limit; a plain reply carries the result of the last event.
\<close>

section \<open>The encoded stream\<close>

definition encoded :: "http_env \<Rightarrow> parsed_completion \<Rightarrow> int \<Rightarrow> stream_event list \<Rightarrow> byte list list" where
  "encoded env p created es = filter (\<lambda>b. b \<noteq> []) (map (event_bytes env p created) es)"

definition error_frame :: "http_env \<Rightarrow> byte list \<Rightarrow> bool" where
  "error_frame env b \<longleftrightarrow> (\<exists>code m. b = sse_frame env (http_error_object code m) @ sse_done)"

definition total_length :: "byte list list \<Rightarrow> int" where
  "total_length frames = (\<Sum>b\<leftarrow>frames. int (length b))"

definition output_of :: "http_env \<Rightarrow> stream_event list \<Rightarrow> int" where
  "output_of env es = (\<Sum>e\<leftarrow>es. event_output env e)"

lemma encoded_append [simp]: "encoded env p c (es @ [e]) = encoded env p c es @ (if event_bytes env p c e = [] then [] else [event_bytes env p c e])"
  by (simp add: encoded_def)

lemma encoded_Nil [simp]: "encoded env p c [] = []"
  by (simp add: encoded_def)

lemma encoded_plain [simp]: "\<not> pc_stream p \<Longrightarrow> encoded env p c es = []"
  by (simp add: encoded_def event_bytes_def)

lemma total_simps [simp]: "total_length [] = 0" "total_length (a @ b) = total_length a + total_length b"
    "total_length [x] = int (length x)"
  by (simp_all add: total_length_def)

lemma output_simps [simp]: "output_of env [] = 0" "output_of env (es @ [e]) = output_of env es + event_output env e"
  by (simp_all add: output_of_def)

section \<open>The buffer\<close>

text \<open>The buffer of a chat against the events it took.\<close>

definition buffer_ok :: "http_env \<Rightarrow> stream_state \<Rightarrow> stream_event list \<Rightarrow> bool" where
  "buffer_ok env st es \<longleftrightarrow>
     ss_buffered st = total_length (ss_frames st) \<and> ss_buffered st \<le> max_buffered_output_bytes (he_options env)
     \<and> (ss_finished st \<longleftrightarrow> chat_over es) \<and> (ss_started st \<longleftrightarrow> list_ex (\<lambda>e. ev_kind e = Started) es)
     \<and> (ss_finished st \<longrightarrow> (\<exists>e \<in> set es. ev_kind e = Finished \<and> ss_result st = event_result e))
     \<and> ss_output st = output_of env es \<and> (ss_overflow st \<or> ss_output st \<le> max_buffered_output_bytes (he_options env))"

text \<open>What was sent and what waits are the stream so far; once something was left out, what was
  sent is the beginning of it.\<close>

definition flow_ok :: "http_env \<Rightarrow> parsed_completion \<Rightarrow> int \<Rightarrow> stream_state \<Rightarrow> stream_event list \<Rightarrow> byte list list \<Rightarrow> bool" where
  "flow_ok env p c st es sent \<longleftrightarrow> prefix sent (encoded env p c es)
     \<and> (ss_overflow st \<or> sent @ ss_frames st = encoded env p c es)"

lemma note_event_fields:
  "ss_frames (note_event env e st) = ss_frames st" "ss_buffered (note_event env e st) = ss_buffered st"
  "ss_output (note_event env e st) = ss_output st + event_output env e"
  "ss_started (note_event env e st) \<longleftrightarrow> ss_started st \<or> ev_kind e = Started"
  "ss_finished (note_event env e st) \<longleftrightarrow> ss_finished st \<or> ev_kind e = Finished"
  "ss_overflow (note_event env e st) = ss_overflow st" "ss_abandoned (note_event env e st) = ss_abandoned st"
  "ss_result (note_event env e st) = (if ev_kind e = Finished then event_result e else ss_result st)"
  by (auto simp: note_event_def Let_def split: stream_event_kind.split)

lemma on_event_state:
  assumes "\<not> ss_abandoned st" and "st1 = fst (on_event env p c e st)"
  shows "ss_output st1 = ss_output st + event_output env e" "ss_started st1 \<longleftrightarrow> ss_started st \<or> ev_kind e = Started"
    "ss_finished st1 \<longleftrightarrow> ss_finished st \<or> ev_kind e = Finished" "ss_abandoned st1 = ss_abandoned st"
    "ss_result st1 = (if ev_kind e = Finished then event_result e else ss_result st)"
  using assms by (auto simp: on_event_def Let_def note_event_fields split: if_splits)

text \<open>Either the event fits and its bytes are the next frame, or the overflow is noted and the frames
  stay as they are.\<close>

lemma on_event_frames:
  assumes "\<not> ss_abandoned st"
  obtains (fits) "ss_output st + event_output env e \<le> max_buffered_output_bytes (he_options env)"
      "ss_buffered st + int (length (event_bytes env p c e)) \<le> max_buffered_output_bytes (he_options env)"
      "ss_overflow (fst (on_event env p c e st)) = ss_overflow st"
      "ss_buffered (fst (on_event env p c e st)) = ss_buffered st + int (length (event_bytes env p c e))"
      "ss_frames (fst (on_event env p c e st)) = ss_frames st @ (if event_bytes env p c e = [] then [] else [event_bytes env p c e])"
  | (overflows) "ss_overflow (fst (on_event env p c e st))" "ss_buffered (fst (on_event env p c e st)) = ss_buffered st"
      "ss_frames (fst (on_event env p c e st)) = ss_frames st"
proof (cases "ss_output st + event_output env e > max_buffered_output_bytes (he_options env)
    \<or> ss_buffered st + int (length (event_bytes env p c e)) > max_buffered_output_bytes (he_options env)")
  case True
  with assms overflows show ?thesis by (simp add: on_event_def Let_def note_event_fields)
next
  case False
  with assms fits show ?thesis
    by (cases "event_bytes env p c e = []") (simp_all add: on_event_def Let_def note_event_fields)
qed

lemma on_event_buffer:
  assumes "buffer_ok env st es" and "\<not> chat_over es" and "\<not> ss_abandoned st"
  shows "buffer_ok env (fst (on_event env p c e st)) (es @ [e])"
proof -
  note state = on_event_state [OF assms(3) refl, of env p c e]
  have over: "ev_kind e = Finished \<Longrightarrow> \<exists>e1 \<in> set (es @ [e]). ev_kind e1 = Finished \<and> event_result e = event_result e1" by auto
  show ?thesis
    using assms(1,2) over
    by (cases rule: on_event_frames [OF assms(3), of env e p c])
      (auto simp: buffer_ok_def state chat_over_def)
qed

lemma on_event_flow:
  assumes "flow_ok env p c st es sent" and "\<not> ss_abandoned st"
  shows "flow_ok env p c (fst (on_event env p c e st)) (es @ [e]) sent"
  using assms(1)
  by (cases rule: on_event_frames [OF assms(2), of env e p c]) (auto simp: flow_ok_def)

section \<open>The phases of a chat\<close>

definition good_reply :: "parsed_completion \<Rightarrow> int \<Rightarrow> stream_event list \<Rightarrow> http_reply \<Rightarrow> bool" where
  "good_reply p c es r \<longleftrightarrow> (rp_status r = 200 \<longrightarrow> (\<exists>e \<in> set es. ev_kind e = Finished \<and> res_error_code (event_result e) = NoError
     \<and> r = respond (completion_object p c (event_result e)) 200))"

definition good_end :: "http_env \<Rightarrow> parsed_completion \<Rightarrow> int \<Rightarrow> stream_event list \<Rightarrow> byte list list \<Rightarrow> bool" where
  "good_end env p c es sent \<longleftrightarrow> chat_over es \<and> sent = encoded env p c es
     \<or> (\<exists>part b. sent = part @ [b] \<and> prefix part (encoded env p c es) \<and> error_frame env b)"

fun chat_phase_ok :: "http_env \<Rightarrow> parsed_completion \<Rightarrow> int \<Rightarrow> stream_state \<Rightarrow> stream_event list \<Rightarrow> byte list list \<Rightarrow> phase \<Rightarrow> bool" where
  "chat_phase_ok env p c st es sent Starting \<longleftrightarrow> sent = [] \<and> \<not> ss_abandoned st \<and> flow_ok env p c st es sent"
| "chat_phase_ok env p c st es sent Waiting \<longleftrightarrow> sent = [] \<and> \<not> ss_abandoned st \<and> flow_ok env p c st es sent"
| "chat_phase_ok env p c st es sent Streaming \<longleftrightarrow> pc_stream p \<and> \<not> ss_abandoned st \<and> flow_ok env p c st es sent"
| "chat_phase_ok env p c st es sent (Answered r) \<longleftrightarrow> sent = [] \<and> good_reply p c es r"
| "chat_phase_ok env p c st es sent (Closed orderly) \<longleftrightarrow> pc_stream p \<and>
     (if orderly then good_end env p c es sent else prefix sent (encoded env p c es))"

definition chat_ok :: "http_env \<Rightarrow> exchange \<Rightarrow> bool" where
  "chat_ok env x \<longleftrightarrow> (case ex_kind x of
     ChatExchange p c st es \<Rightarrow> buffer_ok env st es \<and> chat_phase_ok env p c st es (ex_sent x) (ex_phase x)
   | _ \<Rightarrow> True)"

lemma prefix_extend: "prefix xs ys \<Longrightarrow> prefix xs (ys @ zs)"
  by (auto simp: prefix_def)

lemma good_reply_more: "good_reply p c es r \<Longrightarrow> good_reply p c (es @ [e]) r"
  by (auto simp: good_reply_def)

lemma take_event_chat:
  assumes "chat_ok env x"
  shows "chat_ok env (fst (take_event env e x s))"
proof (cases "ex_kind x")
  case (ChatExchange p c st es)
  note kind = this
  show ?thesis
  proof (cases "chat_over es \<or> ev_request_id e \<noteq> h_request (ex_handle x) \<or> ss_abandoned st")
    case True
    with kind assms show ?thesis by (auto simp: take_event_def on_event_def chat_ok_def)
  next
    case False
    then have new: "\<not> chat_over es" "\<not> ss_abandoned st" by simp_all
    let ?st = "fst (on_event env p c e st)"
    have x1: "fst (take_event env e x s) = x\<lparr>ex_kind := ChatExchange p c ?st (es @ [e])\<rparr>"
      using False kind by (simp add: take_event_def)
    have "\<not> ss_abandoned ?st" using on_event_state(4) [OF new(2) refl, of env p c e] new(2) by simp
    then have "chat_phase_ok env p c ?st (es @ [e]) (ex_sent x) (ex_phase x)"
      using assms kind new on_event_flow [OF _ new(2), of env p c es "ex_sent x" e]
      by (cases "ex_phase x")
        (auto simp: chat_ok_def good_end_def prefix_extend good_reply_more)
    with x1 kind assms on_event_buffer [OF _ new, of env p c e] show ?thesis by (simp add: chat_ok_def)
  qed
qed (simp_all add: chat_ok_def take_event_def)

lemma fail_status [simp]: "rp_status (fail_reply e) \<noteq> 200"
  by (cases "http_code e") (simp_all add: fail_reply_def respond_def)

lemma good_fail [simp]: "good_reply p c es (fail_reply e)"
  by (simp add: good_reply_def)

lemma buffer_abandoned [simp]: "buffer_ok env (st\<lparr>ss_abandoned := b\<rparr>) es \<longleftrightarrow> buffer_ok env st es"
  by (simp add: buffer_ok_def)

lemma answer_chat:
  assumes "ex_kind x = ChatExchange p c st es" and "buffer_ok env st es" and "ex_sent x = []" and "good_reply p c es r"
  shows "chat_ok env (fst (answer r x s))"
  using assms by (simp add: answer_def release_exchange_def release_chat_def Let_def chat_ok_def)

lemma answer_kind:
  "ex_kind x = RpcExchange k b st es \<Longrightarrow> ex_kind (fst (answer r x s)) =
     RpcExchange k b (st\<lparr>rs_abandoned := True, rs_frames := [], rs_buffered := 0\<rparr>) es"
  "ex_kind x = ModelList \<Longrightarrow> ex_kind (fst (answer r x s)) = ModelList"
  by (simp_all add: answer_def release_exchange_def release_rpc_def)

lemma register_chat:
  assumes "chat_ok env x" and "ex_phase x = Starting"
  shows "chat_ok env (fst (register env x s))"
proof (cases "ex_kind x")
  case (ChatExchange p c st es)
  with assms show ?thesis by (auto simp: register_def chat_ok_def)
qed (auto simp: register_def Let_def answer_kind chat_ok_def)

lemma wake_chat:
  assumes "chat_ok env x" and "ex_phase x = Waiting"
  shows "chat_ok env (fst (wake env ob x s))"
proof (cases "ex_kind x")
  case (ChatExchange p c st es)
  note kind = this
  from assms kind have ok: "buffer_ok env st es" "ex_sent x = []" "\<not> ss_abandoned st" "flow_ok env p c st es []"
    by (auto simp: chat_ok_def)
  note reply = answer_chat [OF kind ok(1,2)]
  have good: "good_reply p c es (completion_reply p c st)" if "ss_finished st"
  proof -
    from ok(1) that obtain e where "e \<in> set es" "ev_kind e = Finished" "ss_result st = event_result e" by (auto simp: buffer_ok_def)
    then show ?thesis by (auto simp: completion_reply_def Let_def good_reply_def)
  qed
  have "chat_ok env (x\<lparr>ex_phase := Streaming\<rparr>)" if "pc_stream p" using ok that kind by (simp add: chat_ok_def)
  then show ?thesis
    using kind good assms
    by (auto simp: wake_def completion_decided_def intro!: reply split: sum.split)
qed (use assms in \<open>auto simp: wake_def answer_kind chat_ok_def split: sum.split option.split\<close>)

lemma last_frame_closed:
  "ex_phase (last_frame room b x) = Closed (0 < room)" "ex_sent (last_frame room b x) = ex_sent x @ (if 0 < room then [b] else [])"
  "ex_kind (last_frame room b x) = ex_kind x"
  by (cases room) (simp_all add: last_frame_def write_frames_def close_stream_def)

lemma chat_failed_ok:
  assumes "ex_kind x = ChatExchange p c st es" and "buffer_ok env st es" and "pc_stream p" and "prefix (ex_sent x) (encoded env p c es)"
  shows "chat_ok env (fst (chat_failed env room code m x s))"
  using assms by (auto simp: chat_failed_def chat_ok_def close_stream_def last_frame_closed good_end_def error_frame_def)

lemma serve_chat_ok:
  assumes "chat_ok env x" and "ex_phase x = Streaming" and "0 \<le> max_buffered_output_bytes (he_options env)"
  shows "chat_ok env (fst (serve_chat env ob room x s))"
proof (cases "ex_kind x")
  case (ChatExchange p c st es)
  note kind = this
  from assms kind have ok: "buffer_ok env st es" "pc_stream p" "\<not> ss_abandoned st" "flow_ok env p c st es (ex_sent x)"
    by (simp_all add: chat_ok_def)
  then have part: "prefix (ex_sent x) (encoded env p c es)" by (simp add: flow_ok_def)
  let ?st = "st\<lparr>ss_frames := [], ss_buffered := 0\<rparr>"
  have swapped: "buffer_ok env ?st es" using ok(1) assms(3) by (auto simp: buffer_ok_def)
  have sent: "ex_sent x @ ss_frames st = encoded env p c es" if "\<not> ss_overflow st" using ok(4) that by (simp add: flow_ok_def)
  have some: "prefix (ex_sent x @ take room (ss_frames st)) (encoded env p c es)" if "\<not> ss_overflow st"
    using sent [OF that] by (metis append_take_drop_id append_assoc prefixI)
  have "chat_ok env (fst (let (x1, written) = write_frames room (ss_frames st) (x\<lparr>ex_kind := ChatExchange p c ?st es\<rparr>) in
       if \<not> written then (close_stream False x1, cancel_work x1 s)
       else if ss_finished st then (close_stream True x1, s) else (x1, s)))" if "\<not> ss_overflow st"
    using that ok swapped some [OF that] sent [OF that] assms(2)
    by (auto simp: write_frames_def close_stream_def chat_ok_def good_end_def flow_ok_def buffer_ok_def)
  then show ?thesis
    using kind assms(1) chat_failed_ok [OF kind ok(1,2) part]
    by (auto simp: serve_chat_def Let_def split: sum.split)
qed (use assms in \<open>auto simp: serve_chat_def\<close>)

lemma rpc_failed_kind [simp]: "ex_kind (fst (rpc_failed env ob room k e x s)) = ex_kind x"
  by (simp add: rpc_failed_def close_stream_def last_frame_closed split_def)

lemma turn_ok:
  assumes "chat_ok env x" and "ex_phase x = Streaming" and "0 \<le> max_buffered_output_bytes (he_options env)"
  shows "chat_ok env (fst (turn env ob room x s))"
proof (cases "ex_kind x")
  case (ChatExchange p c st es)
  with serve_chat_ok [OF assms] show ?thesis by (simp add: turn_def)
next
  case (RpcExchange k b st es)
  then show ?thesis
    by (auto simp: turn_def rpc_turn_def Let_def chat_ok_def write_frames_def close_stream_def last_frame_closed
        split: sum.split option.split)
qed (use assms in \<open>simp add: turn_def rpc_turn_def\<close>)

lemma take_others:
  "chat_ok env x \<Longrightarrow> chat_ok env (fst (take_rpc_event env e x s))" "chat_ok env x \<Longrightarrow> chat_ok env (fst (take_result r x s))"
  by (auto simp: take_rpc_event_def take_result_def chat_ok_def split: exchange_kind.split bool.split prod.split sum.split)

section \<open>Streams of the extension handler\<close>

definition accepted_frame :: "http_env \<Rightarrow> qstring \<Rightarrow> exchange \<Rightarrow> byte list" where
  "accepted_frame env k x = sse_frame env (oput (qs ''event'') (JStr (qs ''accepted'')) (rpc_envelope k x))"

definition rpc_stream :: "http_env \<Rightarrow> qstring \<Rightarrow> exchange \<Rightarrow> json_object list \<Rightarrow> byte list list" where
  "rpc_stream env k x es = accepted_frame env k x # map (rpc_frame env k) es"

definition rpc_error_frame :: "http_env \<Rightarrow> qstring \<Rightarrow> exchange \<Rightarrow> byte list \<Rightarrow> bool" where
  "rpc_error_frame env k x b \<longleftrightarrow> (\<exists>code m. b = sse_frame env (oput (qs ''error'') (jvalue (http_error_object code m) ''error'')
     (oput (qs ''event'') (JStr (qs ''done'')) (rpc_envelope k x))) @ sse_done)"

definition rpc_flow :: "http_env \<Rightarrow> byte list list \<Rightarrow> rpc_stream_state \<Rightarrow> byte list list \<Rightarrow> bool" where
  "rpc_flow env stream st sent \<longleftrightarrow> prefix sent stream \<and> (rs_overflow st \<or> sent @ rs_frames st = stream)
     \<and> rs_buffered st = total_length (rs_frames st)
     \<and> (rs_overflow st \<or> rs_buffered st \<le> max_buffered_output_bytes (he_options env))"

definition rpc_end :: "http_env \<Rightarrow> qstring \<Rightarrow> exchange \<Rightarrow> json_object list \<Rightarrow> bool" where
  "rpc_end env k x es \<longleftrightarrow>
     (\<exists>r result. ex_future x = Some r \<and> rpc_result env k x r = Inr result
        \<and> ex_sent x = rpc_stream env k x es @ [result_frame env result])
     \<or> (\<exists>part b. ex_sent x = part @ [b] \<and> prefix part (rpc_stream env k x es) \<and> rpc_error_frame env k x b)"

definition rpc_ok :: "http_env \<Rightarrow> exchange \<Rightarrow> bool" where
  "rpc_ok env x \<longleftrightarrow> (case ex_kind x of
     RpcExchange k True st es \<Rightarrow> (case ex_phase x of
         Starting \<Rightarrow> ex_sent x = [] \<and> \<not> rs_abandoned st \<and> rpc_flow env (map (rpc_frame env k) es) st []
       | Streaming \<Rightarrow> \<not> rs_abandoned st \<and> rpc_flow env (rpc_stream env k x es) st (ex_sent x)
       | Closed True \<Rightarrow> rpc_end env k x es
       | Closed False \<Rightarrow> prefix (ex_sent x) (rpc_stream env k x es)
       | Waiting \<Rightarrow> False
       | Answered r \<Rightarrow> ex_sent x = [])
   | _ \<Rightarrow> True)"

lemma on_rpc_event_flow:
  assumes "rpc_flow env stream st sent" and "\<not> rs_abandoned st"
  shows "case on_rpc_event env k e st of
      (st1, Inr _) \<Rightarrow> \<not> rs_abandoned st1 \<and> rpc_flow env (stream @ [rpc_frame env k e]) st1 sent
    | (st1, Inl _) \<Rightarrow> \<not> rs_abandoned st1 \<and> rpc_flow env stream st1 sent"
  using assms by (auto simp: on_rpc_event_def Let_def rpc_flow_def throw_def prefix_extend)

lemma rpc_stream_same [simp]:
  "rpc_stream env k (x\<lparr>ex_kind := kd\<rparr>) es = rpc_stream env k x es" "rpc_stream env k (x\<lparr>ex_phase := ph\<rparr>) es = rpc_stream env k x es"
  "rpc_stream env k (x\<lparr>ex_sent := b\<rparr>) es = rpc_stream env k x es" "rpc_stream env k (x\<lparr>ex_future := fu\<rparr>) es = rpc_stream env k x es"
  by (simp_all add: rpc_stream_def accepted_frame_def rpc_envelope_def)

lemma rpc_stream_append: "rpc_stream env k x (es @ [e]) = rpc_stream env k x es @ [rpc_frame env k e]"
  by (simp add: rpc_stream_def)

lemma rpc_end_same:
  "rpc_envelope k (x\<lparr>ex_kind := kd\<rparr>) = rpc_envelope k x" "rpc_envelope k (x\<lparr>ex_phase := ph\<rparr>) = rpc_envelope k x"
  "rpc_envelope k (x\<lparr>ex_sent := b\<rparr>) = rpc_envelope k x" "rpc_envelope k (x\<lparr>ex_future := fu\<rparr>) = rpc_envelope k x"
  by (simp_all add: rpc_envelope_def)

lemma rpc_frame_same [simp]:
  "rpc_error_frame env k (x\<lparr>ex_kind := kd\<rparr>) b = rpc_error_frame env k x b"
  "rpc_error_frame env k (x\<lparr>ex_future := fu\<rparr>) b = rpc_error_frame env k x b"
  "rpc_end env k (x\<lparr>ex_kind := kd\<rparr>) es = rpc_end env k x es"
  by (simp_all add: rpc_error_frame_def rpc_end_def rpc_result_def rpc_end_same)

lemma rpc_end_settled: "rpc_end env k x es \<Longrightarrow> ex_future x = None \<Longrightarrow> rpc_end env k (x\<lparr>ex_future := Some r\<rparr>) es"
  by (auto simp: rpc_end_def)

lemma take_rpc_event_ok:
  assumes "rpc_ok env x"
  shows "rpc_ok env (fst (take_rpc_event env e x s))"
proof (cases "\<exists>k st es. ex_kind x = RpcExchange k True st es \<and> ex_future x = None")
  case True
  then obtain k st es where kind: "ex_kind x = RpcExchange k True st es" "ex_future x = None" by blast
  obtain st1 r where ev: "on_rpc_event env k e st = (st1, r)" by fastforce
  let ?es = "case r of Inr _ \<Rightarrow> es @ [e] | Inl _ \<Rightarrow> es"
  have x1: "fst (take_rpc_event env e x s) = x\<lparr>ex_kind := RpcExchange k True st1 ?es\<rparr>"
    using kind ev by (cases r) (simp_all add: take_rpc_event_def)
  have starting: "rpc_flow env (map (rpc_frame env k) ?es) st1 []" "\<not> rs_abandoned st1"
    if "rpc_flow env (map (rpc_frame env k) es) st []" "\<not> rs_abandoned st"
    using on_rpc_event_flow [OF that, of k e] ev by (cases r; simp)+
  have streaming: "rpc_flow env (rpc_stream env k x ?es) st1 (ex_sent x)" "\<not> rs_abandoned st1"
    if "rpc_flow env (rpc_stream env k x es) st (ex_sent x)" "\<not> rs_abandoned st"
    using on_rpc_event_flow [OF that, of k e] ev by (cases r; simp add: rpc_stream_append)+
  have more: "prefix p (rpc_stream env k x ?es)" if "prefix p (rpc_stream env k x es)" for p
    using that by (cases r) (simp_all add: rpc_stream_append prefix_extend)
  show ?thesis
    using assms kind starting streaming more
    unfolding x1 rpc_ok_def by (auto simp: rpc_end_def split: phase.splits bool.splits)
next
  case False
  then have "fst (take_rpc_event env e x s) = x"
    by (auto simp: take_rpc_event_def split: exchange_kind.split bool.split)
  with assms show ?thesis by simp
qed

lemma register_rpc:
  assumes "rpc_ok env x" and "ex_phase x = Starting"
  shows "rpc_ok env (fst (register env x s))"
proof (cases "\<exists>k st es. ex_kind x = RpcExchange k True st es")
  case True
  then obtain k st es where kind: "ex_kind x = RpcExchange k True st es" by blast
  with assms have "ex_sent x = []" "\<not> rs_abandoned st" "rpc_flow env (map (rpc_frame env k) es) st []" by (auto simp: rpc_ok_def)
  then show ?thesis
    using kind by (auto simp: register_def Let_def rpc_ok_def answer_kind answer_def release_exchange_def release_rpc_def
        rpc_flow_def rpc_stream_def accepted_frame_def total_length_def rpc_end_same)
next
  case False
  then show ?thesis
    by (auto simp: register_def Let_def rpc_ok_def answer_def release_exchange_def release_rpc_def split: exchange_kind.split bool.split)
qed

lemma last_frame_same [simp]:
  "rpc_envelope k (last_frame room b x) = rpc_envelope k x" "rpc_stream env k (last_frame room b x) es = rpc_stream env k x es"
  by (simp_all add: last_frame_def write_frames_def close_stream_def rpc_end_same)

lemma rpc_failed_ok:
  assumes "ex_kind x = RpcExchange k True st es" and "prefix (ex_sent x) (rpc_stream env k x es)"
  shows "rpc_ok env (fst (rpc_failed env ob room k e x s))"
proof (cases "ob_left ob \<or> hs_stopping s")
  case True
  with assms show ?thesis by (simp add: rpc_failed_def rpc_ok_def close_stream_def)
next
  case False
  obtain code m where e: "rpc_stream_failure e = (code, m)" by fastforce
  let ?b = "sse_frame env (oput (qs ''error'') (jvalue (http_error_object code m) ''error'')
     (oput (qs ''event'') (JStr (qs ''done'')) (rpc_envelope k x))) @ sse_done"
  let ?x = "last_frame room ?b x"
  have x1: "fst (rpc_failed env ob room k e x s) = ?x" using False e by (simp add: rpc_failed_def)
  have "rpc_error_frame env k ?x ?b" by (auto simp: rpc_error_frame_def)
  then show ?thesis
    unfolding x1 using assms by (cases "0 < room") (auto simp: rpc_ok_def last_frame_closed rpc_end_def)
qed

lemma rpc_turn_ok:
  assumes "rpc_ok env x" and "ex_phase x = Streaming" and "ex_kind x = RpcExchange k True st es"
    and "0 \<le> max_buffered_output_bytes (he_options env)"
  shows "rpc_ok env (fst (rpc_turn env ob room x s))"
proof -
  from assms have ok: "\<not> rs_abandoned st" "rpc_flow env (rpc_stream env k x es) st (ex_sent x)" by (auto simp: rpc_ok_def)
  then have part: "prefix (ex_sent x) (rpc_stream env k x es)" by (simp add: rpc_flow_def)
  let ?st = "st\<lparr>rs_frames := [], rs_buffered := 0\<rparr>"
  let ?x = "x\<lparr>ex_kind := RpcExchange k True ?st es, ex_sent := ex_sent x @ take room (rs_frames st)\<rparr>"
  have "rpc_ok env (fst (let (x1, written) = write_frames room (rs_frames st) (x\<lparr>ex_kind := RpcExchange k True ?st es\<rparr>) in
      if \<not> written then (close_stream False x1, s)
      else (case ex_future x of None \<Rightarrow> (x1, s)
        | Some r \<Rightarrow> let rest = room - length (rs_frames st) in
            (case rpc_result env k x r of
               Inl e \<Rightarrow> rpc_failed env ob rest k e x1 s
             | Inr result \<Rightarrow> (last_frame rest (result_frame env result) x1, s)))))" if "\<not> rs_overflow st"
  proof -
    have sent: "ex_sent x @ rs_frames st = rpc_stream env k x es" using ok(2) that by (simp add: rpc_flow_def)
    have some: "prefix (ex_sent ?x) (rpc_stream env k x es)"
      using sent by (simp, metis append_take_drop_id append_assoc prefixI)
    have x: "write_frames room (rs_frames st) (x\<lparr>ex_kind := RpcExchange k True ?st es\<rparr>) = (?x, length (rs_frames st) \<le> room)"
      by (simp add: write_frames_def)
    have whole: "ex_sent ?x = rpc_stream env k x es" if "length (rs_frames st) \<le> room" using sent that by simp
    show ?thesis
    proof (cases "length (rs_frames st) \<le> room")
      case False
      with some show ?thesis by (simp add: write_frames_def close_stream_def rpc_ok_def)
    next
      case True
      show ?thesis
      proof (cases "ex_future x")
        case None
        with True whole [OF True] assms(2,4) ok(1) that show ?thesis
          by (simp add: write_frames_def rpc_ok_def rpc_flow_def)
      next
        case (Some r)
        show ?thesis
        proof (cases "rpc_result env k x r")
          case (Inl e)
          have "rpc_ok env (fst (rpc_failed env ob (room - length (rs_frames st)) k e ?x s))"
            by (rule rpc_failed_ok [of _ k ?st es]) (use some in simp_all)
          with True Some Inl show ?thesis by (simp add: x)
        next
          case (Inr result)
          let ?y = "last_frame (room - length (rs_frames st)) (result_frame env result) ?x"
          have "ex_future ?y = Some r" "rpc_result env k ?y r = Inr result" "rpc_stream env k ?y es = rpc_stream env k x es"
            using Some Inr by (simp_all add: last_frame_def write_frames_def close_stream_def rpc_result_def rpc_end_same)
          then have "rpc_ok env ?y"
            using whole [OF True]
            by (cases "length (rs_frames st) < room") (auto simp: rpc_ok_def last_frame_closed rpc_end_def)
          with True Some Inr show ?thesis by (simp add: x)
        qed
      qed
    qed
  qed
  with assms(1,3) rpc_failed_ok [OF assms(3) part] show ?thesis
    by (auto simp: rpc_turn_def split: sum.split)
qed

lemma turn_rpc:
  assumes "rpc_ok env x" and "ex_phase x = Streaming" and "0 \<le> max_buffered_output_bytes (he_options env)"
  shows "rpc_ok env (fst (turn env ob room x s))"
proof (cases "\<exists>k st es. ex_kind x = RpcExchange k True st es")
  case True
  with rpc_turn_ok [OF assms(1,2) _ assms(3)] show ?thesis by (auto simp: turn_def)
next
  case False
  have kind: "ex_kind (fst (serve_chat env ob room x s)) = ex_kind x \<or> (\<exists>p c st es. ex_kind (fst (serve_chat env ob room x s)) = ChatExchange p c st es)"
    by (auto simp: serve_chat_def chat_failed_def close_stream_def last_frame_closed write_frames_def split: exchange_kind.split sum.split)
  show ?thesis
  proof (cases "ex_kind x")
    case (RpcExchange k b st es)
    with False have "ex_kind x = RpcExchange k False st es" by auto
    then show ?thesis
      by (auto simp: turn_def rpc_turn_def rpc_ok_def Let_def write_frames_def close_stream_def last_frame_closed split: sum.split option.split)
  qed (use kind assms in \<open>auto simp: turn_def rpc_turn_def rpc_ok_def\<close>)
qed

lemma take_others_rpc:
  "rpc_ok env x \<Longrightarrow> rpc_ok env (fst (take_event env e x s))" "rpc_ok env x \<Longrightarrow> rpc_ok env (fst (take_result r x s))"
  by (auto simp: take_event_def take_result_def rpc_ok_def rpc_end_settled
      split: exchange_kind.splits bool.splits phase.splits)

lemma wake_rpc:
  assumes "rpc_ok env x" and "ex_phase x = Waiting"
  shows "rpc_ok env (fst (wake env ob x s))"
proof (cases "ex_kind x")
  case (RpcExchange k b st es)
  with assms show ?thesis
    by (cases b) (auto simp: wake_def rpc_ok_def answer_kind split: sum.split option.split)
next
  case (ChatExchange p c st es)
  then have "\<exists>st1. ex_kind (fst (wake env ob x s)) = ChatExchange p c st1 es"
    by (auto simp: wake_def answer_def release_exchange_def release_chat_def Let_def split: sum.split)
  then show ?thesis by (auto simp: rpc_ok_def)
next
  case ModelList
  then have "ex_kind (fst (wake env ob x s)) = ModelList"
    by (auto simp: wake_def answer_kind split: sum.split option.split)
  then show ?thesis by (auto simp: rpc_ok_def)
qed

section \<open>Limits\<close>

text \<open>The buffer of a call of the extension holds at most the limit; only the accepted frame is put
  before what waits without regard to it, and then the overflow is noted. An answer with status 200 is
  one the limit admitted.\<close>

definition limit_ok :: "http_env \<Rightarrow> exchange \<Rightarrow> bool" where
  "limit_ok env x \<longleftrightarrow> (case ex_kind x of
     ModelList \<Rightarrow> True
   | ChatExchange p c st es \<Rightarrow>
       (\<forall>r. ex_phase x = Answered r \<and> rp_status r = 200 \<longrightarrow> ss_abandoned st \<and> \<not> ss_overflow st)
   | RpcExchange k b st es \<Rightarrow> rs_buffered st = total_length (rs_frames st)
       \<and> rs_buffered st \<le> max_buffered_output_bytes (he_options env)
           + (if rs_overflow st \<and> ex_phase x \<noteq> Starting then int (length (accepted_frame env k x)) else 0)
       \<and> (\<forall>r. ex_phase x = Answered r \<and> rp_status r = 200 \<longrightarrow>
             (\<exists>v result. ex_future x = Some v \<and> rpc_result env k x v = Inr result \<and> r = respond result 200)))"

lemma accepted_same [simp]:
  "accepted_frame env k (x\<lparr>ex_kind := kd\<rparr>) = accepted_frame env k x" "accepted_frame env k (x\<lparr>ex_phase := ph\<rparr>) = accepted_frame env k x"
  "accepted_frame env k (x\<lparr>ex_sent := b\<rparr>) = accepted_frame env k x" "accepted_frame env k (x\<lparr>ex_future := fu\<rparr>) = accepted_frame env k x"
  by (simp_all add: accepted_frame_def rpc_envelope_def)

lemma result_same [simp]:
  "rpc_result env k (x\<lparr>ex_kind := kd\<rparr>) = rpc_result env k x" "rpc_result env k (x\<lparr>ex_phase := ph\<rparr>) = rpc_result env k x"
  "rpc_result env k (x\<lparr>ex_future := fu\<rparr>) = rpc_result env k x" "rpc_result env k (x\<lparr>ex_sent := b\<rparr>) = rpc_result env k x"
  by (auto simp: rpc_result_def rpc_end_same)

lemma rpc_failure_status [simp]: "rp_status (rpc_failure k x e) \<noteq> 200"
proof (cases e)
  case (Error code m)
  then show ?thesis by (cases code) (simp_all add: rpc_failure_def respond_def)
qed (simp_all add: rpc_failure_def del: fail_status, simp_all)

lemma answer_limit:
  assumes "limit_ok env x" and "0 \<le> max_buffered_output_bytes (he_options env)"
    and "rp_status r = 200 \<Longrightarrow> (case ex_kind x of ModelList \<Rightarrow> True | ChatExchange p c st es \<Rightarrow> \<not> ss_overflow st
      | RpcExchange k b st es \<Rightarrow> \<exists>v result. ex_future x = Some v \<and> rpc_result env k x v = Inr result \<and> r = respond result 200)"
  shows "limit_ok env (fst (answer r x s))"
  using assms by (cases "ex_kind x")
    (auto simp: limit_ok_def answer_def release_exchange_def release_chat_def release_rpc_def Let_def total_length_def)

lemma register_limit:
  assumes "limit_ok env x" and "ex_phase x = Starting" and "0 \<le> max_buffered_output_bytes (he_options env)"
  shows "limit_ok env (fst (register env x s))"
proof (cases "ex_kind x")
  case (RpcExchange k b st es)
  note bad = answer_limit [OF assms(1,3), of "fail_reply (Error InvalidArgument (qs ''Invalid RPC handler response''))" s]
  show ?thesis using assms RpcExchange bad
    by (auto simp: register_def Let_def limit_ok_def accepted_frame_def rpc_end_same total_length_def)
qed (use assms in \<open>auto simp: register_def limit_ok_def\<close>)

lemma wake_limit:
  assumes "limit_ok env x" and "ex_phase x = Waiting" and "0 \<le> max_buffered_output_bytes (he_options env)"
  shows "limit_ok env (fst (wake env ob x s))"
proof -
  note reply = answer_limit [OF assms(1,3)]
  have streaming: "limit_ok env (x\<lparr>ex_phase := Streaming\<rparr>)" using assms(1,2) by (auto simp: limit_ok_def split: exchange_kind.split)
  show ?thesis
    by (cases "ex_kind x") (auto simp: wake_def assms(1) streaming intro!: reply split: sum.split option.split)
qed

lemma close_limit [simp]: "limit_ok env x \<Longrightarrow> ex_phase x = Streaming \<Longrightarrow> limit_ok env (close_stream b x)"
  by (auto simp: limit_ok_def close_stream_def split: exchange_kind.split)

lemma sent_limit [simp]: "limit_ok env (x\<lparr>ex_sent := b\<rparr>) \<longleftrightarrow> limit_ok env x"
  by (auto simp: limit_ok_def split: exchange_kind.split)

lemma last_limit [simp]: "limit_ok env x \<Longrightarrow> ex_phase x = Streaming \<Longrightarrow> limit_ok env (last_frame room b x)"
  by (simp add: last_frame_def write_frames_def)

lemma failed_limit [simp]:
  "limit_ok env x \<Longrightarrow> ex_phase x = Streaming \<Longrightarrow> limit_ok env (fst (rpc_failed env ob room k e x s))"
  "limit_ok env x \<Longrightarrow> ex_phase x = Streaming \<Longrightarrow> limit_ok env (fst (chat_failed env room c m x s))"
  by (simp_all add: rpc_failed_def chat_failed_def split_def)

lemma turn_limit:
  assumes "limit_ok env x" and "ex_phase x = Streaming" and "0 \<le> max_buffered_output_bytes (he_options env)"
  shows "limit_ok env (fst (turn env ob room x s))"
proof (cases "ex_kind x")
  case (ChatExchange p c st es)
  have "limit_ok env (x\<lparr>ex_kind := ChatExchange p c (st\<lparr>ss_frames := [], ss_buffered := 0\<rparr>) es\<rparr>)"
    using assms(2) by (simp add: limit_ok_def)
  then show ?thesis using ChatExchange assms
    by (auto simp: turn_def serve_chat_def write_frames_def split: sum.split)
next
  case (RpcExchange k b st es)
  have "limit_ok env (x\<lparr>ex_kind := RpcExchange k b (st\<lparr>rs_frames := [], rs_buffered := 0\<rparr>) es\<rparr>)"
    using assms by (simp add: limit_ok_def total_length_def)
  then show ?thesis using RpcExchange assms
    by (auto simp: turn_def rpc_turn_def write_frames_def Let_def split: sum.split option.split)
qed (use assms in \<open>simp add: turn_def rpc_turn_def\<close>)

lemma take_event_limit: "limit_ok env x \<Longrightarrow> limit_ok env (fst (take_event env e x s))"
  by (auto simp: take_event_def limit_ok_def on_event_def split: exchange_kind.split)

lemma take_rpc_event_limit:
  assumes "limit_ok env x"
  shows "limit_ok env (fst (take_rpc_event env e x s))"
  using assms
  by (cases "ex_kind x") (auto simp: take_rpc_event_def limit_ok_def on_rpc_event_def throw_def Let_def total_length_def split: bool.split)

lemma take_result_limit: "limit_ok env x \<Longrightarrow> limit_ok env (fst (take_result r x s))"
  by (auto simp: take_result_def limit_ok_def split: exchange_kind.split)

section \<open>Reachable servers\<close>

definition streams_ok :: "http_env \<Rightarrow> http_server \<Rightarrow> bool" where
  "streams_ok env s \<longleftrightarrow> 0 < max_buffered_output_bytes (he_options env) \<and> (\<forall>x \<in> members s. chat_ok env x \<and> rpc_ok env x \<and> limit_ok env x)"

lemma streams_subset: "streams_ok env s \<Longrightarrow> members t \<subseteq> members s \<Longrightarrow> streams_ok env t"
  by (auto simp: streams_ok_def)

context exchange_step
begin

lemma streams:
  assumes "streams_ok env s" and "numbered s"
    and "\<And>x. ready x \<Longrightarrow> chat_ok env x \<Longrightarrow> chat_ok env (fst (f x s))" and "\<And>x. ready x \<Longrightarrow> rpc_ok env x \<Longrightarrow> rpc_ok env (fst (f x s))"
    and "\<And>x. ready x \<Longrightarrow> limit_ok env x \<Longrightarrow> limit_ok env (fst (f x s))"
  shows "streams_ok env (on_exchange n ready f s)"
proof -
  have "chat_ok env y \<and> rpc_ok env y \<and> limit_ok env y" if "y \<in> members (on_exchange n ready f s)" for y
    using that assms(2) by (cases rule: members_cases) (use assms in \<open>auto simp: streams_ok_def\<close>)
  with assms(1) show ?thesis by (simp add: streams_ok_def)
qed

end

lemma leave_subset: "members (leave n s) \<subseteq> members s"
proof (cases "\<exists>x. find_exchange n s = Some x \<and> leavable x")
  case True
  then show ?thesis by (auto simp: members_def leave_house)
next
  case False
  then have "leave n s = s" by (auto simp: leave_def split: option.splits)
  then show ?thesis by simp
qed

lemma open_streams:
  assumes "streams_ok env s" and "kind = ModelList \<or> (\<exists>p. kind = ChatExchange p created empty_stream [])
      \<or> (\<exists>k b. kind = RpcExchange k b empty_rpc_stream [])"
  shows "streams_ok env (open_exchange control kind start s)"
proof -
  have "buffer_ok env empty_stream []" if "0 < max_buffered_output_bytes (he_options env)"
    using that by (simp add: buffer_ok_def empty_stream_def chat_over_def)
  moreover have "flow_ok env p created empty_stream [] []" for p
    by (simp add: flow_ok_def empty_stream_def)
  moreover have "rpc_flow env [] empty_rpc_stream []" if "0 < max_buffered_output_bytes (he_options env)"
    using that by (simp add: rpc_flow_def empty_rpc_stream_def)
  moreover have "\<not> ss_abandoned empty_stream" "\<not> rs_abandoned empty_rpc_stream"
      "rs_buffered empty_rpc_stream = total_length (rs_frames empty_rpc_stream)" "total_length (rs_frames empty_rpc_stream) = 0"
      "\<not> rs_overflow empty_rpc_stream"
    by (simp_all add: empty_stream_def empty_rpc_stream_def total_length_def)
  ultimately show ?thesis
    using assms by (cases start) (auto simp: streams_ok_def members_def open_exchange_def chat_ok_def rpc_ok_def limit_ok_def
      split: bool.split)
qed

lemma step_streams:
  assumes "streams_ok env s" and "capacity_ok env s"
  shows "streams_ok env (http_step env e s)"
proof -
  have n: "numbered s" and limit: "0 \<le> max_buffered_output_bytes (he_options env)"
    using assms by (simp_all add: capacity_ok_def streams_ok_def)
  note chats = register_chat wake_chat turn_ok [OF _ _ limit] take_event_chat take_others(1) take_others(2)
  note rpcs = register_rpc wake_rpc turn_rpc [OF _ _ limit] take_others_rpc(1) take_rpc_event_ok take_others_rpc(2)
  note limits = register_limit [OF _ _ limit] wake_limit [OF _ _ limit] turn_limit [OF _ _ limit] take_event_limit take_rpc_event_limit take_result_limit
  show ?thesis
  proof (cases e)
    case (Arrive rq created ob)
    show ?thesis
    proof (cases "fst (http_request_step env rq created ob s) = s")
      case True
      with assms Arrive show ?thesis by (simp add: http_step_def)
    next
      case False
      then show ?thesis
      proof (rule request_step_cases)
        fix s1 control kind start
        assume new: "admit env control s = Inr s1"
          "fst (http_request_step env rq created ob s) = open_exchange control kind start s1"
          "kind = ModelList \<or> (\<exists>p. kind = ChatExchange p created empty_stream []) \<or> (\<exists>k b. kind = RpcExchange k b empty_rpc_stream [])"
        have "streams_ok env s1" using assms(1) by (simp add: streams_ok_def members_def admitted [OF new(1)])
        from open_streams [OF this new(3)] assms(1) new(2) show ?thesis by (simp add: http_step_def Arrive)
      qed
    qed
  next
    case (Leave n)
    with streams_subset [OF assms(1) leave_subset] show ?thesis by (simp add: http_step_def)
  next
    case Stop
    with assms(1) show ?thesis by (simp add: http_step_def stop_server_def streams_ok_def members_def)
  next
    case Joined
    with assms(1) show ?thesis by (simp add: http_step_def streams_ok_def members_def)
  qed (simp_all add: http_step_def registering.streams [OF assms(1) n] waking.streams [OF assms(1) n] turning.streams [OF assms(1) n]
      taking.streams [OF assms(1) n] taking_rpc.streams [OF assms(1) n] settling.streams [OF assms(1) n] chats rpcs limits)
qed

lemma reachable_streams: "http_reachable env s \<Longrightarrow> streams_ok env s"
proof (induction rule: http_reachable.induct)
  case (made st s)
  then show ?case by (auto simp: make_http_server_def http_require_def streams_ok_def members_def)
next
  case (listened s binds starts)
  then show ?case by (simp add: http_listen_def stop_server_def streams_ok_def members_def)
next
  case (handler s b s1)
  then show ?case by (auto simp: http_set_rpc_handler_def streams_ok_def members_def)
next
  case (stepped s e)
  then show ?case by (simp add: step_streams reachable_leases)
qed

end
