(* ===== verification/HttpOwners.thy ===== *)
theory HttpOwners
  imports HttpRules
begin

text \<open>
  Who can cancel the work of an exchange: while it lasts its token is registered with the server, so
  that stopping reaches it; when it ends its token is cancelled, unless the call was finished. The
  extension handler promises a request identifier of its own for every call
  (\<^verbatim>\<open>src/service/Rpc.h\<close>), stated as \<open>rpc_unique\<close>.
\<close>

section \<open>Registered work\<close>

definition is_rpc_job :: "http_job \<Rightarrow> bool" where
  "is_rpc_job j \<longleftrightarrow> (case j of RpcJob m p c b \<Rightarrow> True | _ \<Rightarrow> False)"

definition rpc_unique :: "http_env \<Rightarrow> bool" where
  "rpc_unique env \<longleftrightarrow> (\<forall>t u j1 j2 h1 h2. is_rpc_job j1 \<longrightarrow> is_rpc_job j2 \<longrightarrow> he_start env t j1 = Inr h1 \<longrightarrow>
     he_start env u j2 = Inr h2 \<longrightarrow> h_request h1 = h_request h2 \<longrightarrow> t = u)"

definition is_rpc :: "exchange \<Rightarrow> bool" where
  "is_rpc x \<longleftrightarrow> (case ex_kind x of RpcExchange k b st es \<Rightarrow> True | _ \<Rightarrow> False)"

definition registered :: "exchange \<Rightarrow> bool" where
  "registered x \<longleftrightarrow> (case ex_phase x of Waiting \<Rightarrow> True | Streaming \<Rightarrow> True | Closed b \<Rightarrow> True | _ \<Rightarrow> False)"

abbreviation token_of_exchange :: "exchange \<Rightarrow> cancellation_token" where
  "token_of_exchange x \<equiv> h_token (ex_handle x)"

definition owns :: "exchange \<Rightarrow> qstring \<Rightarrow> bool" where
  "owns x k \<longleftrightarrow> is_rpc x \<and> registered x \<and> h_request (ex_handle x) = k"

text \<open>What the server keeps of an exchange, by kind and phase.\<close>

definition held :: "http_server \<Rightarrow> exchange \<Rightarrow> bool" where
  "held s x \<longleftrightarrow> (case ex_kind x of
     ModelList \<Rightarrow> True
   | ChatExchange p c st es \<Rightarrow> h_valid (ex_handle x) \<longrightarrow>
       (registered x \<longrightarrow> token_of_exchange x \<in> set (hs_active s) \<or> is_cancelled (hs_flags s) (token_of_exchange x)) \<and>
       ((\<exists>r. ex_phase x = Answered r) \<longrightarrow> is_cancelled (hs_flags s) (token_of_exchange x))
   | RpcExchange k b st es \<Rightarrow>
       (registered x \<longrightarrow> h_valid (ex_handle x) \<and> h_request (ex_handle x) \<noteq> [] \<and>
          map_of (hs_active_rpc s) (h_request (ex_handle x)) = Some (token_of_exchange x)) \<and>
       ((\<exists>r. ex_phase x = Answered r) \<longrightarrow> h_valid (ex_handle x) \<longrightarrow>
          is_cancelled (hs_flags s) (token_of_exchange x) \<or> ex_future x \<noteq> None))"

definition keeps :: "exchange \<Rightarrow> http_server \<Rightarrow> http_server \<Rightarrow> bool" where
  "keeps x s t \<longleftrightarrow> (\<forall>u. is_cancelled (hs_flags s) u \<longrightarrow> is_cancelled (hs_flags t) u)
     \<and> (\<forall>u \<in> set (hs_active s). u \<in> set (hs_active t) \<or> is_cancelled (hs_flags t) u)
     \<and> (\<forall>k. map_of (hs_active_rpc t) k = map_of (hs_active_rpc s) k \<or> is_rpc x \<and> h_request (ex_handle x) = k)"

lemma keeps_refl [simp]: "keeps x s s"
  by (simp add: keeps_def)

lemma keeps_cancelled [simp]: "keeps x s (s\<lparr>hs_flags := cancel t (hs_flags s)\<rparr>)"
  by (simp add: keeps_def cancel_mono)

lemma held_kept:
  assumes "held s y" and "keeps x s t" and "\<not> (is_rpc x \<and> is_rpc y \<and> registered y \<and> h_request (ex_handle x) = h_request (ex_handle y))"
  shows "held t y"
proof (cases "ex_kind y")
  case ModelList
  then show ?thesis by (simp add: held_def)
next
  case (ChatExchange p c st es)
  with assms(1,2) show ?thesis by (auto simp: held_def keeps_def)
next
  case (RpcExchange k b st es)
  then have "map_of (hs_active_rpc t) (h_request (ex_handle y)) = map_of (hs_active_rpc s) (h_request (ex_handle y))" if "registered y"
    using assms(2,3) that by (auto simp: keeps_def is_rpc_def)
  with RpcExchange assms(1,2) show ?thesis by (auto simp: held_def keeps_def)
qed

text \<open>An operation on an exchange whose work the server holds. A call that is not registered yet has no
  entry under its identifier.\<close>

definition unlisted :: "http_server \<Rightarrow> exchange \<Rightarrow> bool" where
  "unlisted s x \<longleftrightarrow> is_rpc x \<and> \<not> registered x \<longrightarrow> map_of (hs_active_rpc s) (h_request (ex_handle x)) = None"

locale holding_step = exchange_step f for f +
  fixes ready :: "exchange \<Rightarrow> bool"
  assumes keeps: "keeps x s (snd (f x s))"
    and held: "ready x \<Longrightarrow> held s x \<Longrightarrow> unlisted s x \<Longrightarrow> held (snd (f x s)) (fst (f x s))"
    and listed: "ready x \<Longrightarrow> held s x \<Longrightarrow> unlisted s x \<Longrightarrow> map_of (hs_active_rpc (snd (f x s))) k \<noteq> None \<Longrightarrow>
      owns (fst (f x s)) k \<or> map_of (hs_active_rpc s) k \<noteq> None \<and> \<not> owns x k"
    and kind: "is_rpc (fst (f x s)) = is_rpc x"

section \<open>The operations\<close>

lemma owns_same [simp]:
  "is_rpc (x\<lparr>ex_phase := ph\<rparr>) = is_rpc x" "is_rpc (x\<lparr>ex_sent := b\<rparr>) = is_rpc x" "is_rpc (x\<lparr>ex_future := fu\<rparr>) = is_rpc x"
  "registered (x\<lparr>ex_kind := kd\<rparr>) = registered x" "registered (x\<lparr>ex_sent := b\<rparr>) = registered x"
  "registered (x\<lparr>ex_future := fu\<rparr>) = registered x"
  by (simp_all add: is_rpc_def registered_def)

lemma registered_phases [simp]:
  "registered (x\<lparr>ex_phase := Waiting\<rparr>)" "registered (x\<lparr>ex_phase := Streaming\<rparr>)" "registered (x\<lparr>ex_phase := Closed b\<rparr>)"
  "\<not> registered (x\<lparr>ex_phase := Answered r\<rparr>)" "ex_phase x = Waiting \<Longrightarrow> registered x" "ex_phase x = Streaming \<Longrightarrow> registered x"
  "ex_phase x = Starting \<Longrightarrow> \<not> registered x" "ex_phase x = Closed b \<Longrightarrow> registered x" "ex_phase x = Answered r \<Longrightarrow> \<not> registered x"
  by (simp_all add: registered_def)

lemma release_keeps: "keeps x s (snd (release_exchange x s))"
  by (auto simp: release_exchange_def release_chat_def release_rpc_def Let_def keeps_def cancel_mono is_rpc_def
      split: exchange_kind.split)

lemma release_facts:
  "is_rpc (fst (release_exchange x s)) = is_rpc x" "ex_phase (fst (release_exchange x s)) = ex_phase x"
  "ex_handle (fst (release_exchange x s)) = ex_handle x" "ex_future (fst (release_exchange x s)) = ex_future x"
  by (auto simp: release_exchange_def release_chat_def release_rpc_def Let_def is_rpc_def split: exchange_kind.split)

lemma release_cancels:
  "ex_kind x = ChatExchange p c st es \<Longrightarrow> is_cancelled (hs_flags (snd (release_exchange x s))) (token_of_exchange x)"
  "is_rpc x \<Longrightarrow> ex_future x = None \<Longrightarrow> is_cancelled (hs_flags (snd (release_exchange x s))) (token_of_exchange x)"
  "is_rpc x \<Longrightarrow> map_of (hs_active_rpc (snd (release_exchange x s))) (h_request (ex_handle x)) = None"
  by (auto simp: release_exchange_def release_chat_def release_rpc_def Let_def cancel_self is_rpc_def split: exchange_kind.splits)

lemma release_unlists: "\<not> is_rpc x \<Longrightarrow> hs_active_rpc (snd (release_exchange x s)) = hs_active_rpc s"
    "map_of (hs_active_rpc (snd (release_exchange x s))) k \<noteq> None \<Longrightarrow> map_of (hs_active_rpc s) k \<noteq> None \<and> \<not> owns x k"
  by (auto simp: release_exchange_def release_chat_def release_rpc_def Let_def is_rpc_def owns_def
      split: exchange_kind.splits if_splits)

lemma answer_facts:
  "keeps x s (snd (answer r x s))" "is_rpc (fst (answer r x s)) = is_rpc x" "held (snd (answer r x s)) (fst (answer r x s))"
  "map_of (hs_active_rpc (snd (answer r x s))) k \<noteq> None \<Longrightarrow> map_of (hs_active_rpc s) k \<noteq> None \<and> \<not> owns x k"
proof -
  obtain x1 s1 where rel: "release_exchange x s = (x1, s1)" by fastforce
  have a: "answer r x s = (x1\<lparr>ex_phase := Answered r\<rparr>, s1)" by (simp add: answer_def rel)
  show "keeps x s (snd (answer r x s))" using release_keeps [of x s] by (simp add: a rel)
  show "is_rpc (fst (answer r x s)) = is_rpc x" using release_facts(1) [of x s] by (simp add: a rel)
  show "map_of (hs_active_rpc (snd (answer r x s))) k \<noteq> None \<Longrightarrow> map_of (hs_active_rpc s) k \<noteq> None \<and> \<not> owns x k"
    using release_unlists(2) [of x s k] by (simp add: a rel)
  have "held s1 (x1\<lparr>ex_phase := Answered r\<rparr>)"
  proof (cases "ex_kind x")
    case ModelList
    then have "ex_kind x1 = ModelList" using rel by (simp add: release_exchange_def)
    then show ?thesis by (simp add: held_def)
  next
    case (ChatExchange p c st es)
    then have "\<exists>st1. ex_kind x1 = ChatExchange p c st1 es" using rel by (auto simp: release_exchange_def release_chat_def Let_def)
    with release_cancels(1) [OF ChatExchange, of s] release_facts(3) [of x s] rel show ?thesis by (auto simp: held_def)
  next
    case (RpcExchange k b st es)
    then have "\<exists>st1. ex_kind x1 = RpcExchange k b st1 es" using rel by (auto simp: release_exchange_def release_rpc_def)
    with RpcExchange release_cancels(2) [of x s] release_facts(3,4) [of x s] rel show ?thesis by (auto simp: held_def is_rpc_def)
  qed
  then show "held (snd (answer r x s)) (fst (answer r x s))" by (simp add: a)
qed

lemma answer_held: "ready x \<Longrightarrow> held (snd (answer r x s)) (fst (answer r x s))"
  by (rule answer_facts)

lemma register_holding: "holding_step (register env) (\<lambda>x. ex_phase x = Starting)"
proof unfold_locales
  fix x s
  show "keeps x s (snd (register env x s))"
  proof (cases "ex_kind x")
    case (RpcExchange k b st es)
    then show ?thesis by (auto simp: register_def Let_def answer_facts) (auto simp: keeps_def is_rpc_def)
  qed (auto simp: register_def keeps_def)
  show "is_rpc (fst (register env x s)) = is_rpc x"
    by (auto simp: register_def Let_def answer_facts split: exchange_kind.split) (simp_all add: is_rpc_def)
next
  fix x s k
  assume x: "ex_phase x = Starting" "held s x" "unlisted s x"
  show "held (snd (register env x s)) (fst (register env x s))"
  proof (cases "ex_kind x")
    case (RpcExchange i b st es)
    then have "\<not> ohas (hs_active_rpc s) (h_request (ex_handle x))" using x by (simp add: unlisted_def is_rpc_def ohas_def)
    then show ?thesis using RpcExchange by (auto simp: register_def Let_def answer_facts) (auto simp: held_def)
  qed (auto simp: register_def held_def)
  show "map_of (hs_active_rpc (snd (register env x s))) k \<noteq> None \<Longrightarrow>
      owns (fst (register env x s)) k \<or> map_of (hs_active_rpc s) k \<noteq> None \<and> \<not> owns x k"
  proof (cases "ex_kind x")
    case (RpcExchange i b st es)
    have "\<not> owns x k" using x(1) by (simp add: owns_def)
    then show "map_of (hs_active_rpc (snd (register env x s))) k \<noteq> None \<Longrightarrow>
        owns (fst (register env x s)) k \<or> map_of (hs_active_rpc s) k \<noteq> None \<and> \<not> owns x k"
      using RpcExchange answer_facts(4) [of _ x s k]
      by (auto simp: register_def Let_def owns_def is_rpc_def split: if_splits)
  qed (use x in \<open>auto simp: register_def owns_def is_rpc_def\<close>)
qed

interpretation register_holds: holding_step "register env" "\<lambda>x. ex_phase x = Starting" for env
  by (rule register_holding)

lemma wake_cases:
  obtains "wake env ob x s = (x, s)" | r where "wake env ob x s = answer r x s"
    | p c st es where "ex_kind x = ChatExchange p c st es" "wake env ob x s = (x\<lparr>ex_phase := Streaming\<rparr>, s)"
proof -
  have "wake env ob x s = (x, s) \<or> (\<exists>r. wake env ob x s = answer r x s)
      \<or> (\<exists>p c st es. ex_kind x = ChatExchange p c st es \<and> wake env ob x s = (x\<lparr>ex_phase := Streaming\<rparr>, s))"
    by (auto simp: wake_def split: exchange_kind.split sum.split option.split)
  with that show ?thesis by blast
qed

lemma wake_holding: "holding_step (wake env ob) (\<lambda>x. ex_phase x = Waiting)"
proof unfold_locales
  fix x s
  show "keeps x s (snd (wake env ob x s))" by (cases rule: wake_cases [of env ob x s]) (simp_all add: answer_facts)
  show "is_rpc (fst (wake env ob x s)) = is_rpc x" by (cases rule: wake_cases [of env ob x s]) (simp_all add: answer_facts)
next
  fix x s k
  assume x: "ex_phase x = Waiting" "held s x" "unlisted s x"
  show "held (snd (wake env ob x s)) (fst (wake env ob x s))"
  proof (cases rule: wake_cases [of env ob x s])
    case (3 p c st es)
    with x show ?thesis by (auto simp: held_def)
  qed (use x in \<open>simp_all add: answer_facts\<close>)
  show "map_of (hs_active_rpc (snd (wake env ob x s))) k \<noteq> None \<Longrightarrow>
      owns (fst (wake env ob x s)) k \<or> map_of (hs_active_rpc s) k \<noteq> None \<and> \<not> owns x k"
    by (cases rule: wake_cases [of env ob x s])
      (use answer_facts(4) [of _ x s k] in \<open>auto simp: owns_def is_rpc_def\<close>)
qed

interpretation wake_holds: holding_step "wake env ob" "\<lambda>x. ex_phase x = Waiting" for env ob
  by (rule wake_holding)

text \<open>The other operations keep the lists of the server and only cancel.\<close>

lemma held_alt: "held s x \<longleftrightarrow> ex_kind x = ModelList \<or>
   (if is_rpc x
    then (registered x \<longrightarrow> h_valid (ex_handle x) \<and> h_request (ex_handle x) \<noteq> [] \<and>
          map_of (hs_active_rpc s) (h_request (ex_handle x)) = Some (token_of_exchange x)) \<and>
       ((\<exists>r. ex_phase x = Answered r) \<longrightarrow> h_valid (ex_handle x) \<longrightarrow> is_cancelled (hs_flags s) (token_of_exchange x) \<or> ex_future x \<noteq> None)
    else h_valid (ex_handle x) \<longrightarrow>
       (registered x \<longrightarrow> token_of_exchange x \<in> set (hs_active s) \<or> is_cancelled (hs_flags s) (token_of_exchange x)) \<and>
       ((\<exists>r. ex_phase x = Answered r) \<longrightarrow> is_cancelled (hs_flags s) (token_of_exchange x)))"
  by (cases "ex_kind x") (auto simp: held_def is_rpc_def)

lemma holding_stepI:
  assumes "exchange_step f"
    and "\<And>x s. snd (f x s) = s \<or> (\<exists>t. snd (f x s) = s\<lparr>hs_flags := cancel t (hs_flags s)\<rparr>)"
    and "\<And>x s. ready x \<Longrightarrow> registered (fst (f x s)) = registered x
       \<and> ((\<exists>r. ex_phase (fst (f x s)) = Answered r) \<longleftrightarrow> (\<exists>r. ex_phase x = Answered r))
       \<and> (ex_future x \<noteq> None \<longrightarrow> ex_future (fst (f x s)) \<noteq> None)"
    and "\<And>x s. is_rpc (fst (f x s)) = is_rpc x \<and> (ex_kind (fst (f x s)) = ModelList \<longleftrightarrow> ex_kind x = ModelList)"
  shows "holding_step f ready"
proof (intro holding_step.intro assms(1) holding_step_axioms.intro)
  fix x s k
  have h: "ex_handle (fst (f x s)) = ex_handle x"
    using exchange_step.exchange [OF assms(1), of x s] by (simp add: same_exchange_def)
  show keeps: "keeps x s (snd (f x s))" using assms(2) [of x s] by auto
  show kind: "is_rpc (fst (f x s)) = is_rpc x" using assms(4) by blast
  have lists: "hs_active (snd (f x s)) = hs_active s" "hs_active_rpc (snd (f x s)) = hs_active_rpc s" using assms(2) [of x s] by auto
  assume ready: "ready x"
  show "held s x \<Longrightarrow> held (snd (f x s)) (fst (f x s))"
    using assms(3) [OF ready, of s] assms(4) [of x s] keeps unfolding held_alt h lists keeps_def by (auto split: if_splits)
  show "map_of (hs_active_rpc (snd (f x s))) k \<noteq> None \<Longrightarrow>
      owns (fst (f x s)) k \<or> map_of (hs_active_rpc s) k \<noteq> None \<and> \<not> owns x k"
    using assms(3) [OF ready, of s] kind by (auto simp: lists owns_def h)
qed

lemma failed_facts:
  "ex_kind (fst (chat_failed env room code m x s)) = ex_kind x" "\<exists>b. ex_phase (fst (chat_failed env room code m x s)) = Closed b"
  "ex_future (fst (chat_failed env room code m x s)) = ex_future x" "snd (chat_failed env room code m x s) = cancel_work x s"
  "ex_kind (fst (rpc_failed env ob room k e x s)) = ex_kind x" "\<exists>b. ex_phase (fst (rpc_failed env ob room k e x s)) = Closed b"
  "ex_future (fst (rpc_failed env ob room k e x s)) = ex_future x" "snd (rpc_failed env ob room k e x s) = cancel_work x s"
  by (auto simp: chat_failed_def rpc_failed_def last_frame_def write_frames_def close_stream_def split_def)

text \<open>A turn of a provider: the stream goes on or is closed, and the work goes on or is cancelled.\<close>

lemma turn_facts:
  "snd (turn env ob room x s) = s \<or> snd (turn env ob room x s) = cancel_work x s"
  "ex_phase (fst (turn env ob room x s)) = ex_phase x \<or> (\<exists>b. ex_phase (fst (turn env ob room x s)) = Closed b)"
  "ex_future (fst (turn env ob room x s)) = ex_future x" "is_rpc (fst (turn env ob room x s)) = is_rpc x"
  "ex_kind (fst (turn env ob room x s)) = ModelList \<longleftrightarrow> ex_kind x = ModelList"
  by (auto simp: turn_def serve_chat_def rpc_turn_def failed_facts write_frames_def close_stream_def last_frame_def Let_def
      cancel_work_def is_rpc_def split: exchange_kind.split sum.split option.split)

lemma turn_holding: "holding_step (turn env ob room) (\<lambda>x. ex_phase x = Streaming)"
proof (rule holding_stepI)
  show "exchange_step (turn env ob room)" by (rule turning.exchange_step_axioms)
next
  fix x s
  show "snd (turn env ob room x s) = s \<or> (\<exists>t. snd (turn env ob room x s) = s\<lparr>hs_flags := cancel t (hs_flags s)\<rparr>)"
    using turn_facts(1) [of env ob room x s] by (auto simp: cancel_work_def)
  show "is_rpc (fst (turn env ob room x s)) = is_rpc x \<and> (ex_kind (fst (turn env ob room x s)) = ModelList \<longleftrightarrow> ex_kind x = ModelList)"
    by (simp add: turn_facts)
  assume "ex_phase x = Streaming"
  then show "registered (fst (turn env ob room x s)) = registered x
       \<and> ((\<exists>r. ex_phase (fst (turn env ob room x s)) = Answered r) \<longleftrightarrow> (\<exists>r. ex_phase x = Answered r))
       \<and> (ex_future x \<noteq> None \<longrightarrow> ex_future (fst (turn env ob room x s)) \<noteq> None)"
    using turn_facts(2) [of env ob room x s] turn_facts(3) [of env ob room x s] by auto
qed

interpretation turn_holds: holding_step "turn env ob room" "\<lambda>x. ex_phase x = Streaming" for env ob room
  by (rule turn_holding)

interpretation take_holds: holding_step "take_event env e" "\<lambda>x. True" for env e
  by (rule holding_stepI [OF taking.exchange_step_axioms])
    (auto simp: take_event_def is_rpc_def split: exchange_kind.split)

interpretation take_rpc_holds: holding_step "take_rpc_event env e" "\<lambda>x. True" for env e
  by (rule holding_stepI [OF taking_rpc.exchange_step_axioms])
    (auto simp: take_rpc_event_def is_rpc_def split: exchange_kind.split prod.split sum.split bool.split)

interpretation settle_holds: holding_step "take_result r" "\<lambda>x. True" for r
  by (rule holding_stepI [OF settling.exchange_step_axioms]) (auto simp: take_result_def is_rpc_def)

section \<open>The server\<close>

definition started_by :: "http_env \<Rightarrow> exchange \<Rightarrow> bool" where
  "started_by env x \<longleftrightarrow> (\<exists>j. is_rpc_job j \<and> he_start env (ex_number x) j = Inr (ex_handle x))
     \<or> (\<exists>r. ex_phase x = Answered r) \<and> ex_handle x = no_handle"

definition owned :: "http_env \<Rightarrow> http_server \<Rightarrow> bool" where
  "owned env s \<longleftrightarrow> numbered s \<and> (\<forall>x \<in> members s. held s x \<and> (is_rpc x \<longrightarrow> started_by env x))
     \<and> (\<forall>k. map_of (hs_active_rpc s) k \<noteq> None \<longrightarrow> (\<exists>x \<in> members s. owns x k))"

lemma ownedD:
  assumes "owned env s"
  shows "numbered s" "x \<in> members s \<Longrightarrow> held s x" "x \<in> members s \<Longrightarrow> is_rpc x \<Longrightarrow> started_by env x"
    "map_of (hs_active_rpc s) k \<noteq> None \<Longrightarrow> \<exists>x \<in> members s. owns x k"
  using assms by (simp_all add: owned_def)

lemma no_handle_simps [simp]: "h_request no_handle = []" "\<not> h_valid no_handle"
  by (simp_all add: no_handle_def)

lemma held_registered:
  "held s x \<Longrightarrow> is_rpc x \<Longrightarrow> registered x \<Longrightarrow> h_valid (ex_handle x) \<and> h_request (ex_handle x) \<noteq> []
     \<and> map_of (hs_active_rpc s) (h_request (ex_handle x)) = Some (token_of_exchange x)"
  by (auto simp: held_alt is_rpc_def)

text \<open>Calls have identifiers of their own.\<close>

lemma one_owner:
  assumes "owned env s" and "rpc_unique env" and "x \<in> members s" and "y \<in> members s" and "is_rpc x" and "is_rpc y"
    and "registered y" and "h_request (ex_handle x) = h_request (ex_handle y)"
  shows "x = y"
proof -
  from held_registered [OF ownedD(2) [OF assms(1,4)] assms(6,7)] have y: "h_valid (ex_handle y)" "h_request (ex_handle y) \<noteq> []" by simp_all
  from ownedD(3) [OF assms(1,4,6)] y(1) obtain j where j: "is_rpc_job j" "he_start env (ex_number y) j = Inr (ex_handle y)"
    by (auto simp: started_by_def)
  from ownedD(3) [OF assms(1,3,5)] y(2) assms(8) obtain i where i: "is_rpc_job i" "he_start env (ex_number x) i = Inr (ex_handle x)"
    by (auto simp: started_by_def)
  from assms(2,8) i j have "ex_number x = ex_number y" unfolding rpc_unique_def by blast
  with ownedD(1) [OF assms(1)] assms(3,4) show ?thesis by (auto simp: numbered_def members_def distinct_map inj_on_def)
qed

lemma owned_unlisted:
  assumes "owned env s" and "rpc_unique env" and "x \<in> members s"
  shows "unlisted s x"
proof (rule ccontr)
  assume "\<not> unlisted s x"
  then have x: "is_rpc x" "\<not> registered x" "map_of (hs_active_rpc s) (h_request (ex_handle x)) \<noteq> None" by (auto simp: unlisted_def)
  from ownedD(4) [OF assms(1) x(3)] obtain y where "y \<in> members s" "is_rpc y" "registered y" "h_request (ex_handle y) = h_request (ex_handle x)"
    by (auto simp: owns_def)
  with one_owner [OF assms _ x(1)] x(2) show False by metis
qed

context holding_step
begin

lemma handle: "ex_handle (fst (f x s)) = ex_handle x" "ex_number (fst (f x s)) = ex_number x"
  using exchange [of x s] by (simp_all add: same_exchange_def)

lemma owned_step:
  assumes "owned env s" and "rpc_unique env"
    and "\<And>x. ready x \<Longrightarrow> ex_handle x = no_handle \<Longrightarrow> (\<exists>r. ex_phase x = Answered r) \<Longrightarrow> (\<exists>r. ex_phase (fst (f x s)) = Answered r)"
  shows "owned env (on_exchange n ready f s)"
proof (cases "\<exists>x. find_exchange n s = Some x \<and> ready x")
  case False
  then have "on_exchange n ready f s = s" by (auto simp: on_exchange_def split: option.split)
  with assms(1) show ?thesis by simp
next
  case True
  then obtain x where x: "find_exchange n s = Some x" "ready x" by blast
  have mem: "x \<in> members s" using find_exchange_Some [OF x(1)] by simp
  note num = ownedD(1) [OF assms(1)]
  let ?t = "put_exchange (f x s)" and ?x = "fst (f x s)"
  have t: "on_exchange n ready f s = ?t" using x by (simp add: on_exchange_def)
  have mems: "members ?t = insert ?x (members s - {x})" by (rule put_kept [OF mem num])
  have same: "held ?t y \<longleftrightarrow> held (snd (f x s)) y" for y by (simp add: held_alt put_other)
  have unl: "unlisted s x" by (rule owned_unlisted [OF assms(1,2) mem])
  have "held ?t y \<and> (is_rpc y \<longrightarrow> started_by env y)" if "y \<in> members ?t" for y
  proof (cases "y = ?x")
    case True
    have "started_by env ?x" if "is_rpc ?x"
      using ownedD(3) [OF assms(1) mem] assms(3) [OF x(2)] that by (auto simp: started_by_def kind handle)
    with True held [OF x(2) ownedD(2) [OF assms(1) mem] unl] show ?thesis by (simp add: same)
  next
    case False
    with that mems have y: "y \<in> members s" "y \<noteq> x" by auto
    then have "\<not> (is_rpc x \<and> is_rpc y \<and> registered y \<and> h_request (ex_handle x) = h_request (ex_handle y))"
      using one_owner [OF assms(1,2) mem y(1)] by auto
    with held_kept [OF ownedD(2) [OF assms(1) y(1)] keeps] ownedD(3) [OF assms(1) y(1)] show ?thesis by (simp add: same)
  qed
  moreover have "\<exists>y \<in> members ?t. owns y k" if "map_of (hs_active_rpc ?t) k \<noteq> None" for k
    using listed [OF x(2) ownedD(2) [OF assms(1) mem] unl, of k] that ownedD(4) [OF assms(1), of k]
    unfolding mems put_other by auto
  moreover have "numbered ?t" using numbered [OF num, of n ready] t by simp
  ultimately show ?thesis unfolding t owned_def by blast
qed

end

text \<open>Flags that only grow, with the same lists, keep everything held.\<close>

lemma held_flags:
  assumes "held s x" and "\<And>u. is_cancelled (hs_flags s) u \<Longrightarrow> is_cancelled (hs_flags t) u"
    and "hs_active t = hs_active s" and "hs_active_rpc t = hs_active_rpc s"
  shows "held t x"
  using assms by (auto simp: held_alt split: if_splits)

lemma cancel_list_mono: "is_cancelled st u \<Longrightarrow> is_cancelled (fold cancel ts st) u"
  by (induction ts arbitrary: st) (simp_all add: cancel_mono)

lemma cancel_map_mono: "is_cancelled st u \<Longrightarrow> is_cancelled (fold (\<lambda>(_, t). cancel t) m st) u"
  by (induction m arbitrary: st) (auto simp: cancel_mono)

lemma cancel_list_all: "t \<in> set ts \<Longrightarrow> is_cancelled (fold cancel ts st) t"
  by (induction ts arbitrary: st) (auto simp: cancel_self cancel_list_mono)

lemma cancel_map_all: "(k, t) \<in> set m \<Longrightarrow> is_cancelled (fold (\<lambda>(_, t). cancel t) m st) t"
  by (induction m arbitrary: st) (auto simp: cancel_self cancel_map_mono)

lemma owned_stop: "owned env s \<Longrightarrow> owned env (stop_server s)"
  using held_flags [of s _ "stop_server s"]
  by (auto simp: owned_def stop_server_def members_def numbered_def cancel_list_mono cancel_map_mono)

lemma owned_plain:
  "owned env s \<Longrightarrow> hs_exchanges t = hs_exchanges s \<Longrightarrow> hs_next t = hs_next s \<Longrightarrow> hs_flags t = hs_flags s \<Longrightarrow>
   hs_active t = hs_active s \<Longrightarrow> hs_active_rpc t = hs_active_rpc s \<Longrightarrow> owned env t"
  using held_flags [of s _ t] by (auto simp: owned_def members_def numbered_def)

lemma owned_open:
  assumes "owned env s" and "start = Inl e \<or> (\<exists>j. start = he_start env (hs_next s) j \<and> (is_rpc_job j \<longleftrightarrow> (\<exists>k b st es. kind = RpcExchange k b st es)))"
  shows "owned env (open_exchange control kind start s)"
proof -
  let ?x = "last (hs_exchanges (open_exchange control kind start s))"
  let ?t = "open_exchange control kind start s"
  have "held ?t ?x" by (auto simp: open_exchange_def held_def registered_def split: sum.split exchange_kind.split)
  moreover have "started_by env ?x" if "is_rpc ?x"
    using that assms(2) by (cases start) (auto simp: open_exchange_def started_by_def is_rpc_def split: exchange_kind.splits)
  moreover have "held ?t y" if "y \<in> members s" for y
    by (rule held_flags [OF ownedD(2) [OF assms(1) that]]) (simp_all add: open_exchange_def)
  moreover have "\<exists>y \<in> members ?t. owns y k" if "map_of (hs_active_rpc ?t) k \<noteq> None" for k
  proof -
    have "hs_active_rpc ?t = hs_active_rpc s" by (simp add: open_exchange_def)
    with that ownedD(4) [OF assms(1), of k] obtain y where "y \<in> members s" "owns y k" by auto
    then show ?thesis unfolding open_members [of control kind start s] by blast
  qed
  ultimately show ?thesis
    using open_numbered [OF ownedD(1) [OF assms(1)]] ownedD(3) [OF assms(1)]
    unfolding owned_def open_members [of control kind start s] by auto
qed

lemma request_step_owned:
  assumes "owned env s"
  shows "owned env (fst (http_request_step env rq created ob s))"
proof -
  have kept: "owned env s1" if "admit env control s = Inr s1" for control s1
    by (rule owned_plain [OF assms]) (simp_all add: admitted [OF that])
  have job: "\<not> is_rpc_job (job_of p)" for p by (simp add: job_of_def is_rpc_job_def split: option.split)
  have chat: "owned env (fst (start_completion env rq created s))"
    using assms by (auto simp: start_completion_def job intro!: owned_open [OF kept] split: sum.split)
  have rpc: "owned env (fst (start_rpc_call env rq ob s))"
  proof -
    have "owned env (open_exchange b (RpcExchange k c st es) (bindr r (\<lambda>_. he_start env (hs_next s1) (RpcJob m p a c))) s1)"
      if "admit env b s = Inr s1" for b k c st es and r :: "unit res" and s1 m p a
      by (cases r) (auto simp: is_rpc_job_def intro!: owned_open [OF kept [OF that]])
    with assms show ?thesis by (auto simp: start_rpc_call_def Let_def split: sum.split)
  qed
  have models: "owned env (open_exchange False ModelList (he_start env (hs_next s1) ModelsJob) s1)" if "admit env False s = Inr s1" for s1
    by (auto simp: is_rpc_job_def intro!: owned_open [OF kept [OF that]])
  show ?thesis
    using assms chat rpc models by (auto simp: http_request_step_def split: option.split route.split sum.split)
qed

text \<open>Leaving: the guard of a stream runs now, the guard of an answered exchange has run before.\<close>

definition before_leave :: "exchange \<Rightarrow> http_server \<Rightarrow> http_server" where
  "before_leave x s = (case ex_phase x of Answered r \<Rightarrow> s | _ \<Rightarrow> snd (release_exchange x s))"

lemma leave_lists:
  assumes "find_exchange n s = Some x" and "leavable x"
  shows "hs_flags (leave n s) = hs_flags (before_leave x s)" "hs_active (leave n s) = hs_active (before_leave x s)"
    "hs_active_rpc (leave n s) = hs_active_rpc (before_leave x s)"
  using assms by (auto simp: leave_def Let_def before_leave_def give_back_def split: phase.splits)

lemma leave_owned:
  assumes "owned env s" and "rpc_unique env"
  shows "owned env (leave n s)"
proof (cases "\<exists>x. find_exchange n s = Some x \<and> leavable x")
  case False
  then have "leave n s = s" by (auto simp: leave_def split: option.splits)
  with assms(1) show ?thesis by simp
next
  case True
  then obtain x where x: "find_exchange n s = Some x" "leavable x" by blast
  have mem: "x \<in> members s" using find_exchange_Some [OF x(1)] by simp
  note num = ownedD(1) [OF assms(1)]
  note lists = leave_lists [OF x] and house = leave_house [OF x] and mems = leave_members [OF num x]
  have keeps: "keeps x s (before_leave x s)" using release_keeps [of x s] by (auto simp: before_leave_def split: phase.split)
  have "held (leave n s) y" if y: "y \<in> members s" "y \<noteq> x" for y
  proof -
    have "\<not> (is_rpc x \<and> is_rpc y \<and> registered y \<and> h_request (ex_handle x) = h_request (ex_handle y))"
      using one_owner [OF assms mem y(1)] y(2) by auto
    from held_kept [OF ownedD(2) [OF assms(1) y(1)] keeps this] show ?thesis
      by (rule held_flags) (simp_all add: lists)
  qed
  moreover have "\<exists>y \<in> members s - {x}. owns y k" if "map_of (hs_active_rpc (leave n s)) k \<noteq> None" for k
  proof -
    have "map_of (hs_active_rpc s) k \<noteq> None \<and> \<not> owns x k"
      using that release_unlists(2) [of x s k] unfolding lists before_leave_def
      by (cases "ex_phase x") (auto simp: owns_def)
    with ownedD(4) [OF assms(1), of k] show ?thesis by auto
  qed
  moreover have "numbered (leave n s)"
    using num by (auto simp: numbered_def house members_def distinct_map_filter)
  ultimately show ?thesis using ownedD(3) [OF assms(1)] unfolding owned_def mems by simp
qed

lemma step_owned:
  assumes "owned env s" and "rpc_unique env"
  shows "owned env (http_step env e s)"
proof (cases e)
  case (Joined)
  with owned_plain [OF assms(1), of "s\<lparr>hs_running := False\<rparr>"] assms(1) show ?thesis by (simp add: http_step_def)
qed (use assms in \<open>auto simp: http_step_def request_step_owned leave_owned owned_stop take_event_def take_rpc_event_def take_result_def
    intro!: register_holds.owned_step wake_holds.owned_step turn_holds.owned_step take_holds.owned_step take_rpc_holds.owned_step
      settle_holds.owned_step split: exchange_kind.split bool.split prod.split sum.split\<close>)

lemma reachable_owned: "http_reachable env s \<Longrightarrow> rpc_unique env \<Longrightarrow> owned env s"
proof (induction rule: http_reachable.induct)
  case (made st s)
  then show ?case by (auto simp: make_http_server_def http_require_def owned_def members_def numbered_def)
next
  case (listened s binds starts)
  with owned_plain [of env s "s\<lparr>hs_stopping := False, hs_running := True\<rparr>"] show ?case by (simp add: http_listen_def owned_stop)
next
  case (handler s b s1)
  with owned_plain [of env s "s\<lparr>hs_rpc := b\<rparr>"] show ?case by (auto simp: http_set_rpc_handler_def)
next
  case (stepped s e)
  then show ?case by (simp add: step_owned)
qed

section \<open>Released work\<close>

lemma kept_numbers: "ex_number x \<notin> ex_number ` members (http_step env e s) \<Longrightarrow> x \<in> members s \<Longrightarrow> numbered s \<Longrightarrow>
    e = Leave (ex_number x) \<and> leavable x \<and> find_exchange (ex_number x) s = Some x"
proof -
  assume gone: "ex_number x \<notin> ex_number ` members (http_step env e s)" and x: "x \<in> members s" and num: "numbered s"
  have found: "find_exchange (ex_number x) s = Some x" by (rule find_exchange_member [OF num x])
  have same: "ex_number ` members t = ex_number ` members s" if "map ex_number (hs_exchanges t) = map ex_number (hs_exchanges s)" for t
    using arg_cong [OF that, of set] by (simp add: members_def)
  have on: "ex_number ` members (on_exchange n ready f s) = ex_number ` members s" if "exchange_step f" for n ready f
    by (rule same) (simp add: on_exchange_def exchange_step.put_other(7) [OF that] split: option.split)
  note ons = on [OF registering.exchange_step_axioms] on [OF waking.exchange_step_axioms] on [OF turning.exchange_step_axioms]
    on [OF taking.exchange_step_axioms] on [OF taking_rpc.exchange_step_axioms] on [OF settling.exchange_step_axioms]
  show ?thesis
  proof (cases e)
    case (Arrive rq created ob)
    have "members s \<subseteq> members (fst (http_request_step env rq created ob s))"
    proof (cases "fst (http_request_step env rq created ob s) = s")
      case False
      then show ?thesis
        by (rule request_step_cases) (use open_members admitted in \<open>auto simp: members_def open_exchange_def\<close>)
    qed simp
    with gone x Arrive show ?thesis by (auto simp: http_step_def split: if_splits)
  next
    case (Leave n)
    show ?thesis
    proof (cases "\<exists>y. find_exchange n s = Some y \<and> leavable y")
      case True
      then obtain y where y: "find_exchange n s = Some y" "leavable y" by blast
      from leave_members [OF num y] gone x Leave have "y = x" by (auto simp: http_step_def)
      with y find_exchange_Some [OF y(1)] Leave show ?thesis by simp
    next
      case False
      then have "leave n s = s" by (auto simp: leave_def split: option.splits)
      with gone x Leave show ?thesis by (simp add: http_step_def)
    qed
  qed (use gone x ons in \<open>auto simp: http_step_def stop_server_def members_def split: if_splits\<close>)
qed

lemma gone_released:
  assumes "http_reachable env s" and "rpc_unique env" and "x \<in> set (hs_exchanges s)"
    and "h_valid (ex_handle x)" and "ex_kind x \<noteq> ModelList"
    and "ex_number x \<notin> ex_number ` set (hs_exchanges (http_step env e s))"
  shows "is_cancelled (hs_flags (http_step env e s)) (h_token (ex_handle x)) \<or> is_rpc x \<and> ex_future x \<noteq> None"
proof -
  note ok = reachable_owned [OF assms(1,2)]
  have mem: "x \<in> members s" using assms(3) by (simp add: members_def)
  from kept_numbers [OF assms(6) [folded members_def] mem ownedD(1) [OF ok]]
  have e: "e = Leave (ex_number x)" and x: "leavable x" "find_exchange (ex_number x) s = Some x" by simp_all
  have flags: "hs_flags (http_step env e s) = hs_flags (before_leave x s)"
    using leave_lists(1) [OF x(2,1)] by (simp add: e http_step_def)
  show ?thesis
  proof (cases "\<exists>r. ex_phase x = Answered r")
    case True
    with ownedD(2) [OF ok mem] assms(4,5) show ?thesis by (auto simp: flags before_leave_def held_alt split: if_splits)
  next
    case False
    then have "before_leave x s = snd (release_exchange x s)" by (auto simp: before_leave_def split: phase.split)
    with release_cancels [of x] assms(5) show ?thesis by (cases "ex_kind x") (auto simp: flags is_rpc_def)
  qed
qed

lemma stop_released:
  assumes "http_reachable env s" and "rpc_unique env" and "x \<in> set (hs_exchanges s)"
    and "h_valid (ex_handle x)" and "ex_kind x \<noteq> ModelList" and "ex_phase x \<noteq> Starting"
  shows "is_cancelled (hs_flags (http_step env Stop s)) (h_token (ex_handle x)) \<or> is_rpc x \<and> ex_future x \<noteq> None"
proof -
  have "held s x" using ownedD(2) [OF reachable_owned [OF assms(1,2)]] assms(3) by (simp add: members_def)
  have flags: "hs_flags (http_step env Stop s) = fold (\<lambda>(_, t). cancel t) (hs_active_rpc s) (fold cancel (hs_active s) (hs_flags s))"
    by (simp add: http_step_def stop_server_def)
  have grow: "is_cancelled (hs_flags s) u \<Longrightarrow> is_cancelled (hs_flags (http_step env Stop s)) u" for u
    by (simp add: flags cancel_map_mono cancel_list_mono)
  have active: "u \<in> set (hs_active s) \<Longrightarrow> is_cancelled (hs_flags (http_step env Stop s)) u" for u
    by (simp add: flags cancel_map_mono cancel_list_all)
  have rpc: "map_of (hs_active_rpc s) k = Some u \<Longrightarrow> is_cancelled (hs_flags (http_step env Stop s)) u" for k u
    unfolding flags by (rule cancel_map_all [OF map_of_SomeD])
  from assms(6) have "registered x \<or> (\<exists>r. ex_phase x = Answered r)" by (cases "ex_phase x") (simp_all add: registered_def)
  with \<open>held s x\<close> assms(4,5) grow active rpc show ?thesis by (auto simp: held_alt split: if_splits)
qed

end
