(* ===== verification/HttpProperties.thy ===== *)
theory HttpProperties
  imports HttpStreams HttpOwners GenerationRules
begin

text \<open>
  The properties of the HTTP server, with a small server that shows their hypotheses can hold: one
  streaming chat completion and one streaming call of the extension.
\<close>

section \<open>A small server\<close>

definition web_completion :: json where
  "web_completion = JObj (jobj [(''model'', JStr (qs ''m'')), (''stream'', JBool True),
     (''messages'', JArr [JObj (jobj [(''role'', JStr (qs ''user'')), (''content'', JStr (qs ''hi''))])])])"

definition web_call :: json where
  "web_call = JObj (jobj [(''id'', JStr (qs ''7'')), (''method'', JStr (qs ''x'')), (''stream'', JBool True)])"

definition web_env :: "catalog \<Rightarrow> http_env" where
  "web_env c = \<lparr>he_options = default_http_options, he_qt = no_regex, he_catalog = c,
     he_compact = (\<lambda>_. [123, 125]), he_compact_array = (\<lambda>_. [91, 93]),
     he_parse = (\<lambda>body. if body = [1] then Some web_completion else if body = [2] then Some web_call else None),
     he_utf8 = map (\<lambda>c. of_nat (unat c)), he_text = map (\<lambda>b. of_nat (unat b)), he_control = (\<lambda>_. False),
     he_start = (\<lambda>t j. if t < 100 then Inr \<lparr>h_request = replicate (Suc t) 65, h_token = Token t None, h_valid = True\<rparr>
       else throw QueueFull ''full'')\<rparr>"

definition web_http_env :: http_env where
  "web_http_env = web_env generation_catalog"

definition web_http_server :: http_server where
  "web_http_server = \<lparr>hs_stopping = False, hs_running = True, hs_rpc = True, hs_work = 0, hs_controls = 0, hs_active = [],
     hs_active_rpc = [], hs_exchanges = [], hs_next = 0, hs_flags = no_flags\<rparr>"

definition web_rq :: "route \<Rightarrow> byte list \<Rightarrow> http_request" where
  "web_rq r body = \<lparr>rq_route = r, rq_port = 80, rq_host = bs ''localhost:80'', rq_origin = [],
     rq_content_type = bs ''application/json'', rq_authorization = [bs ''Bearer k''], rq_body = body\<rparr>"

definition fine :: observed where
  "fine = \<lparr>ob_gone = False, ob_late = False, ob_left = False\<rparr>"

lemma default_options_read:
  assumes "has_generation_group c"
  shows "generation_options_from_json q c [] = Inr default_generation_options"
proof -
  obtain g where g: "map_of (c_groups c) generation_id = Some g"
    using assms by (auto simp: has_generation_group_def split: option.splits)
  let ?po = "\<lparr>po_group = generation_id, po_catalog = c, po_values = []\<rparr>"
  have "from_native_json q c generation_id [] = Inr ?po"
    using from_native_exact [OF g, of "[]" q ?po]
    by (simp add: all_valid_def precision_conflict_def generation_id_def starts_with_def qs_def)
  moreover have "object_value ?po (qs n) = Inr d" if "(n, s, d) \<in> set generation_fields" for n s d
    using generation_lookup [OF assms that] by (auto simp: object_value_def object_definition_def)
  ultimately show ?thesis
    unfolding generation_options_from_json_def
    by (simp add: generation_fields_def default_generation_options_def check_logit_bias_def strings_of_def
      del: to_int.simps) simp
qed

definition web_parsed :: parsed_completion where
  "web_parsed = \<lparr>pc_request = \<lparr>completion_model = qs ''m'', completion_messages = [\<lparr>msg_role = User, msg_content = qs ''hi''\<rparr>],
     completion_options = default_generation_options, completion_keep_alive = - 1\<rparr>, pc_conversation = None,
     pc_stream = True, pc_include_usage = False\<rparr>"

lemma web_fields: "generation_fields_of generation_group (to_object web_completion) = []"
    "http_fields completion_fields (to_object web_completion) = Inr ()"
  by code_simp+

definition web_message :: json where
  "web_message = JObj (jobj [(''role'', JStr (qs ''user'')), (''content'', JStr (qs ''hi''))])"

lemma web_look: "map_of (to_object web_completion) (qs k) =
    map_of [(''model'', JStr (qs ''m'')), (''stream'', JBool True), (''messages'', JArr [web_message])] k"
  by (simp add: web_completion_def web_message_def map_of_jobj)

lemma message_look: "map_of (to_object web_message) (qs k) =
    map_of [(''role'', JStr (qs ''user'')), (''content'', JStr (qs ''hi''))] k"
  by (simp add: web_message_def map_of_jobj)

lemma web_message_parsed:
  "\<not> structured_message web_message" "parse_message False web_message [] = Inr [\<lparr>msg_role = User, msg_content = qs ''hi''\<rparr>]"
proof -
  show "\<not> structured_message web_message"
    by (simp add: structured_message_def Let_def jvalue_def jhas_def ohas_def message_look)
  have "http_fields [''role'', ''content''] (to_object web_message) = Inr ()" by code_simp
  then show "parse_message False web_message [] = Inr [\<lparr>msg_role = User, msg_content = qs ''hi''\<rparr>]"
    by (simp add: parse_message_def Let_def jvalue_def message_look http_require_def require_def) (simp add: web_message_def)
qed

lemma web_parse: "parse_completion web_http_env [1] = Inr web_parsed"
proof -
  note look = jvalue_def jhas_def ohas_def web_look http_require_def require_def Let_def
  have options: "parse_options web_http_env (to_object web_completion) = Inr default_generation_options"
  proof -
    have group: "catalog_group generation_catalog generation_id = Inr generation_group"
      by (simp add: catalog_group_def generation_catalog_def)
    have "temperature default_generation_options = Dbl (7 / 10)" by (simp add: default_generation_options_def)
    with group default_options_read [OF generation_catalog_ok(1), of no_regex] web_fields(1) show ?thesis
      by (simp add: parse_options_def look web_http_env_def web_env_def http_number_def)
  qed
  have document: "he_parse web_http_env [1] = Some web_completion" "is_object web_completion"
    by (simp_all add: web_http_env_def web_env_def web_completion_def)
  have "trimmed (qs ''m'') \<noteq> []" by (simp add: trimmed_empty_iff qs_def is_space_def qc_def)
  then show ?thesis
    using web_fields(2) options
    by (simp add: parse_completion_def document look parse_choice_def is_structured_def web_message_parsed http_boolean_def
      parse_stream_options_def parse_keep_alive_def web_parsed_def)
qed

lemma web_reachable: "http_reachable web_http_env (http_run web_http_env es web_http_server)"
proof -
  let ?s = "web_http_server\<lparr>hs_stopping := True, hs_running := False, hs_rpc := False\<rparr>"
  have "http_reachable web_http_env ?s"
    by (rule http_reachable.made [of _ no_flags])
      (simp add: make_http_server_def http_require_def require_def web_http_env_def web_env_def default_http_options_def web_http_server_def)
  from http_reachable.handler [OF this, of True "?s\<lparr>hs_rpc := True\<rparr>"]
  have "http_reachable web_http_env (?s\<lparr>hs_rpc := True\<rparr>)"
    by (simp add: http_set_rpc_handler_def require_def web_http_server_def)
  from http_reachable.listened [OF this, of True True]
  have "http_reachable web_http_env web_http_server" by (simp add: http_listen_def web_http_server_def)
  then show ?thesis
  proof (induction es arbitrary: rule: rev_induct)
    case (snoc e es)
    have "http_run env (as @ [e]) s = http_step env e (http_run env as s)" for env as s
      by (induction as arbitrary: s) simp_all
    with snoc http_reachable.stepped show ?case by simp
  qed simp
qed

definition web_arrival :: http_event where
  "web_arrival = Arrive (web_rq CompletionsRoute [1]) 0 fine"

definition web_open :: "parsed_completion \<Rightarrow> http_server" where
  "web_open p = web_http_server\<lparr>hs_work := 1, hs_next := 1, hs_exchanges := [\<lparr>ex_number = 0, ex_control = False,
     ex_handle = \<lparr>h_request = [65], h_token = Token 0 None, h_valid = True\<rparr>, ex_kind = ChatExchange p 0 empty_stream [],
     ex_future = None, ex_phase = Starting, ex_sent = []\<rparr>]\<rparr>"

lemma web_gate: "pre_routing False (web_rq r body) = None" "json_content web_http_env (web_rq r body)"
proof -
  have "pre_routing False (web_rq r body) = None" "json_content (web_env c) (web_rq r body)" for c by code_simp+
  then show "pre_routing False (web_rq r body) = None" "json_content web_http_env (web_rq r body)"
    by (simp_all add: web_http_env_def)
qed

lemma web_opened: "http_step web_http_env web_arrival web_http_server = web_open web_parsed"
proof -
  have "rq_route (web_rq CompletionsRoute [1]) = CompletionsRoute" "rq_body (web_rq CompletionsRoute [1]) = [1]"
    by (simp_all add: web_rq_def)
  then show ?thesis
    by (simp add: http_step_def web_arrival_def http_request_step_def web_http_server_def web_gate start_completion_def
        web_parse admit_def open_exchange_def web_open_def)
      (simp add: web_http_env_def web_env_def default_http_options_def)
qed

definition web_event :: "stream_event_kind \<Rightarrow> stream_event" where
  "web_event k = \<lparr>ev_kind = k, ev_request_id = [65], ev_session_id = [], ev_text = [66],
     ev_result = Some ((empty_result [65] [])\<lparr>res_finish_reason := FinishStop, res_text := [66]\<rparr>)\<rparr>"

text \<open>A completion from its request to the end of its stream.\<close>

definition web_chat :: "http_event list" where
  "web_chat = [web_arrival, Register 0, Take 0 (web_event Started), Wake 0 fine, Turn 0 fine 9,
     Take 0 (web_event Delta), Take 0 (web_event Finished), Turn 0 fine 9]"

lemma web_chat_end:
  "map (\<lambda>x. (case ex_kind x of ChatExchange p c st es \<Rightarrow> True | _ \<Rightarrow> False, ex_phase x, length (ex_sent x)))
     (hs_exchanges (http_run web_http_env web_chat web_http_server)) = [(True, Closed True, 3)]"
proof -
  have "map (\<lambda>x. (case ex_kind x of ChatExchange p c st es \<Rightarrow> True | _ \<Rightarrow> False, ex_phase x, length (ex_sent x)))
      (hs_exchanges (http_run (web_env c) (tl web_chat)
      (web_open \<lparr>pc_request = rq, pc_conversation = None, pc_stream = True, pc_include_usage = False\<rparr>))) = [(True, Closed True, 3)]" for c rq
    by code_simp
  then show ?thesis
    by (simp add: web_chat_def web_opened [unfolded web_parsed_def web_http_env_def] web_http_env_def)
qed

text \<open>A call of the extension that pushes one event and ends.\<close>

definition web_rpc :: "http_event list" where
  "web_rpc = [Arrive (web_rq RpcRoute [2]) 0 fine, Register 0, TakeRpc 0 [], Turn 0 fine 1, Turn 0 fine 9,
     Result 0 (Inr (VJson JNull)), Turn 0 fine 9]"

lemma web_rpc_end:
  "map (\<lambda>x. (ex_number x, ex_phase x, length (ex_sent x))) (hs_exchanges (http_run web_http_env (take 4 web_rpc) web_http_server))
     = [(0, Closed False, 1)]"
  "map (\<lambda>x. (ex_number x, ex_phase x, length (ex_sent x))) (hs_exchanges (http_run web_http_env (take 3 web_rpc @ drop 4 web_rpc) web_http_server))
     = [(0, Closed True, 3)]"
proof -
  have "map (\<lambda>x. (ex_number x, ex_phase x, length (ex_sent x))) (hs_exchanges (http_run (web_env c) (take 4 web_rpc) web_http_server))
     = [(0, Closed False, 1)]" for c by code_simp
  then show "map (\<lambda>x. (ex_number x, ex_phase x, length (ex_sent x))) (hs_exchanges (http_run web_http_env (take 4 web_rpc) web_http_server))
     = [(0, Closed False, 1)]" by (simp only: web_http_env_def)
  have "map (\<lambda>x. (ex_number x, ex_phase x, length (ex_sent x))) (hs_exchanges (http_run (web_env c) (take 3 web_rpc @ drop 4 web_rpc) web_http_server))
     = [(0, Closed True, 3)]" for c by code_simp
  then show "map (\<lambda>x. (ex_number x, ex_phase x, length (ex_sent x))) (hs_exchanges (http_run web_http_env (take 3 web_rpc @ drop 4 web_rpc) web_http_server))
     = [(0, Closed True, 3)]" by (simp only: web_http_env_def)
qed

section \<open>Messages of a request\<close>

text \<open>A plain message and its entry in the request of the service.\<close>

definition same_message :: "json \<Rightarrow> chat_message \<Rightarrow> bool" where
  "same_message v m \<longleftrightarrow> jvalue (to_object v) ''role'' = JStr (role_name (msg_role m))
     \<and> jvalue (to_object v) ''content'' = JStr (msg_content m)"

lemma is_string_iff: "is_string v \<longleftrightarrow> v = JStr (to_string v)"
  by (cases v) simp_all

lemma parse_plain:
  assumes "parse_message False v ms = Inr ms1"
  shows "\<exists>m. ms1 = ms @ [m] \<and> same_message v m"
proof -
  let ?role = "to_string (jvalue (to_object v) ''role'')" and ?content = "to_string (jvalue (to_object v) ''content'')"
  from assms have parsed: "is_string (jvalue (to_object v) ''role'')" "is_string (jvalue (to_object v) ''content'')"
      "?role = qs ''system'' \<or> ?role = qs ''user'' \<or> ?role = qs ''assistant''"
    and ms1: "ms1 = ms @ [\<lparr>msg_role = (if ?role = qs ''system'' then System else if ?role = qs ''user'' then User else Assistant),
      msg_content = ?content\<rparr>]"
    by (auto simp: parse_message_def http_require_def Let_def)
  have "jvalue (to_object v) ''role'' = JStr ?role" "jvalue (to_object v) ''content'' = JStr ?content"
    using parsed(1,2) is_string_iff by blast+
  with parsed(3) show ?thesis unfolding ms1 same_message_def by auto
qed

lemma parse_plain_all:
  "fold_res (parse_message False) vs ms = Inr ms1 \<Longrightarrow> \<exists>new. ms1 = ms @ new \<and> list_all2 same_message vs new"
proof (induction vs arbitrary: ms)
  case (Cons v vs)
  then obtain ms2 where "parse_message False v ms = Inr ms2" "fold_res (parse_message False) vs ms2 = Inr ms1" by auto
  with parse_plain [of v ms ms2] Cons.IH [of ms2] show ?case by fastforce
qed simp

lemma parse_structured_all: "fold_res (parse_message True) vs ms = Inr ms1 \<Longrightarrow> ms1 = ms"
  by (induction vs arbitrary: ms) (auto simp: parse_message_def Let_def)

lemma keep_alive_range: "parse_keep_alive v = Inr k \<Longrightarrow> - 1 \<le> k \<and> k \<le> 7 * 86400000"
  by (auto simp: parse_keep_alive_def Let_def floor_le_iff split: if_splits dbl.splits)

lemma fields_known: "http_fields allowed o1 = Inr u \<Longrightarrow> fst ` set o1 \<subseteq> set (map qs allowed)"
proof -
  have "fold_res (\<lambda>(k, v) u. if k \<in> A then Inr () else throwq InvalidArgument (qs ''Unsupported field: '' @ k)) o1 w = Inr u \<Longrightarrow>
      fst ` set o1 \<subseteq> A" for A w
    by (induction o1 arbitrary: w) (auto split: if_splits)
  then show "http_fields allowed o1 = Inr u \<Longrightarrow> fst ` set o1 \<subseteq> set (map qs allowed)" unfolding http_fields_def .
qed

text \<open>A message names known fields only: those of a plain one, or those of the protocol of tools.\<close>

definition known_message :: "bool \<Rightarrow> json \<Rightarrow> bool" where
  "known_message structured v \<longleftrightarrow> is_object v \<and> fst ` set (to_object v) \<subseteq> set (map qs (if structured
     then [''role'', ''content'', ''tool_calls'', ''tool_call_id'', ''reasoning_content'', ''name''] else [''role'', ''content'']))"

lemma known_messages: "fold_res (parse_message structured) vs ms = Inr ms1 \<Longrightarrow> list_all (known_message structured) vs"
proof (induction vs arbitrary: ms)
  case (Cons v vs)
  then obtain ms2 where v: "parse_message structured v ms = Inr ms2" and "fold_res (parse_message structured) vs ms2 = Inr ms1" by auto
  from Cons.IH [OF this(2)] v show ?case
    by (cases structured) (auto simp: parse_message_def http_require_def Let_def known_message_def dest!: fields_known)
qed simp

section \<open>Fields of a request\<close>

text \<open>A flag is the boolean of its field, or its default when the field is missing.\<close>

definition flag_is :: "json_object \<Rightarrow> string \<Rightarrow> bool \<Rightarrow> bool \<Rightarrow> bool" where
  "flag_is o1 name d b \<longleftrightarrow> jvalue o1 name = JBool b \<or> jvalue o1 name = JUndefined \<and> b = d"

lemma flag_read: "http_boolean o1 name d = Inr b \<Longrightarrow> flag_is o1 name d b"
  by (cases "jvalue o1 name") (auto simp: http_boolean_def http_require_def flag_is_def Let_def)

definition usage_is :: "json_object \<Rightarrow> bool \<Rightarrow> bool \<Rightarrow> bool" where
  "usage_is o1 stream b \<longleftrightarrow> (if jhas o1 ''stream_options''
     then stream \<and> (\<exists>so. jvalue o1 ''stream_options'' = JObj so \<and> fst ` set so \<subseteq> {qs ''include_usage''} \<and> flag_is so ''include_usage'' False b)
     else \<not> b)"

lemma usage_read: "parse_stream_options o1 stream = Inr b \<Longrightarrow> usage_is o1 stream b"
  by (cases "jvalue o1 ''stream_options''")
    (auto simp: parse_stream_options_def http_require_def usage_is_def flag_read dest!: fields_known split: if_splits)

text \<open>The generation field of a name: the field of the request when the catalog publishes it; the newer
  name of the token limit stands for the older one, and a single stop string for a list of one.\<close>

definition generation_source :: "parameter_group \<Rightarrow> json_object \<Rightarrow> qstring \<Rightarrow> json option" where
  "generation_source g o1 k =
     (let v = (if k = qs ''max_tokens'' \<and> jhas o1 ''max_completion_tokens'' then Some (jvalue o1 ''max_completion_tokens'')
        else if k \<in> p_name ` set (g_parameters g) then map_of o1 k else None)
      in if k = qs ''stop'' then map_option (\<lambda>v. if is_string v then JArr [v] else v) v else v)"

lemma published_fields:
  "map_of (fold (\<lambda>p acc. case map_of o1 (p_name p) of None \<Rightarrow> acc | Some v \<Rightarrow> oput (p_name p) v acc) ps acc) k
     = (if k \<in> p_name ` set ps \<and> map_of o1 k \<noteq> None then map_of o1 k else map_of acc k)"
  by (induction ps arbitrary: acc) (auto split: option.split)

lemma fields_source: "map_of (generation_fields_of g o1) k = generation_source g o1 k"
proof -
  have ne: "qs ''stop'' \<noteq> qs ''max_tokens''" by (simp add: qs_def)
  show ?thesis using ne
    by (auto simp: generation_fields_of_def generation_source_def Let_def published_fields jvalue_def jhas_def ohas_def
        split: option.splits)
qed

lemma options_source:
  assumes "parse_options env o1 = Inr options"
  shows "\<exists>g vals t. catalog_group (he_catalog env) generation_id = Inr g \<and> (\<forall>k. map_of vals k = generation_source g o1 k)
    \<and> generation_options_from_json (he_qt env) (he_catalog env) vals = Inr options
    \<and> \<not> (jhas o1 ''max_tokens'' \<and> jhas o1 ''max_completion_tokens'') \<and> temperature options = Dbl t \<and> t \<le> 2
    \<and> jvalue o1 ''n'' \<in> {JUndefined, JNum 1}"
proof -
  obtain g n where run: "catalog_group (he_catalog env) generation_id = Inr g"
      "generation_options_from_json (he_qt env) (he_catalog env) (generation_fields_of g o1) = Inr options"
      "\<not> (jhas o1 ''max_tokens'' \<and> jhas o1 ''max_completion_tokens'')"
      "case temperature options of Dbl t \<Rightarrow> t \<le> 2 | NonFinite \<Rightarrow> False" "http_number o1 ''n'' 1 1 1 True = Inr n"
    using assms by (auto simp: parse_options_def http_require_def)
  have "jvalue o1 ''n'' \<in> {JUndefined, JNum 1}"
    using run(5) by (cases "jvalue o1 ''n''") (auto simp: http_number_def Let_def split: if_splits)
  moreover obtain t where "temperature options = Dbl t" "t \<le> 2" using run(4) by (cases "temperature options") auto
  ultimately show ?thesis using run(1-3) fields_source by blast
qed

lemma choice_read:
  assumes "parse_choice o1 = Inr choice"
  shows "jvalue o1 ''tool_choice'' = (if jhas o1 ''tool_choice'' then JStr choice else JUndefined)
    \<and> choice \<in> {qs ''auto'', qs ''none'', qs ''required''} \<and> (\<not> jhas o1 ''tool_choice'' \<longrightarrow> choice = qs ''auto'')
    \<and> (jhas o1 ''tools'' \<longrightarrow> is_array (jvalue o1 ''tools''))"
proof -
  have "jvalue o1 ''tool_choice'' = JUndefined" if "\<not> jhas o1 ''tool_choice''"
    using that by (auto simp: jvalue_def jhas_def ohas_def)
  then show ?thesis using assms
    by (cases "jvalue o1 ''tool_choice''") (auto simp: parse_choice_def http_require_def Let_def)
qed

lemma rpc_result_limit: "rpc_result env k x v = Inr result \<Longrightarrow>
    int (length (he_compact env result)) \<le> max_buffered_output_bytes (he_options env)"
  by (auto simp: rpc_result_def Let_def)

section \<open>Properties\<close>

text \<open>C17. Streaming a chat completion loses, repeats and invents nothing: while the stream runs, what was
  written and what waits in the buffer are the frames of the events the service sent, in order; a
  stream that ended in order carries all of them up to the last one, or stops with one error frame
  after a part of them; a broken one is a part of them. A plain 200 reply is the result of the last
  event.\<close>

theorem http_stream_exact:
  assumes "http_reachable env s" and "x \<in> set (hs_exchanges s)" and "ex_kind x = ChatExchange p created st es"
  shows "(ex_phase x = Streaming \<longrightarrow> prefix (ex_sent x) (encoded env p created es) \<and>
        (ss_overflow st \<or> ex_sent x @ ss_frames st = encoded env p created es)) \<and>
     (ex_phase x = Closed True \<longrightarrow> chat_over es \<and> ex_sent x = encoded env p created es \<or>
        (\<exists>part b. ex_sent x = part @ [b] \<and> prefix part (encoded env p created es) \<and> error_frame env b)) \<and>
     (ex_phase x = Closed False \<longrightarrow> prefix (ex_sent x) (encoded env p created es)) \<and>
     (\<forall>r. ex_phase x = Answered r \<and> rp_status r = 200 \<longrightarrow> (\<exists>e \<in> set es. ev_kind e = Finished \<and>
        res_error_code (event_result e) = NoError \<and> r = respond (completion_object p created (event_result e)) 200))"
proof -
  have "chat_ok env x" using reachable_streams [OF assms(1)] assms(2) by (simp add: streams_ok_def members_def)
  with assms(3) have "chat_phase_ok env p created st es (ex_sent x) (ex_phase x)" by (simp add: chat_ok_def)
  then show ?thesis by (cases "ex_phase x") (auto simp: flow_ok_def good_end_def good_reply_def split: if_splits)
qed

lemma http_stream_exact_witness:
  "\<exists>x p created st es. hs_exchanges (http_run web_http_env web_chat web_http_server) = [x] \<and>
     ex_kind x = ChatExchange p created st es \<and> ex_phase x = Closed True \<and> length (ex_sent x) = 3 \<and>
     (ex_sent x = encoded web_http_env p created es \<or>
       (\<exists>part b. ex_sent x = part @ [b] \<and> prefix part (encoded web_http_env p created es) \<and> error_frame web_http_env b))"
proof -
  obtain x where x: "hs_exchanges (http_run web_http_env web_chat web_http_server) = [x]" "ex_phase x = Closed True"
      "length (ex_sent x) = 3" "\<exists>p c st es. ex_kind x = ChatExchange p c st es"
    using web_chat_end by (auto split: exchange_kind.splits)
  then obtain p created st es where kind: "ex_kind x = ChatExchange p created st es" by blast
  from http_stream_exact [OF web_reachable, of x web_chat, OF _ kind] x show ?thesis
    using kind by auto
qed

text \<open>The stream of an extension call likewise: the accepted frame first, then the events of the
  handler in order, then its result, or one error frame after a part of them.\<close>

theorem http_rpc_stream_exact:
  assumes "http_reachable env s" and "x \<in> set (hs_exchanges s)" and "ex_kind x = RpcExchange k True st es"
  shows "(ex_phase x = Streaming \<longrightarrow> prefix (ex_sent x) (rpc_stream env k x es) \<and>
        (rs_overflow st \<or> ex_sent x @ rs_frames st = rpc_stream env k x es)) \<and>
     (ex_phase x = Closed True \<longrightarrow>
        (\<exists>r result. ex_future x = Some r \<and> rpc_result env k x r = Inr result \<and>
           ex_sent x = rpc_stream env k x es @ [result_frame env result]) \<or>
        (\<exists>part b. ex_sent x = part @ [b] \<and> prefix part (rpc_stream env k x es) \<and> rpc_error_frame env k x b)) \<and>
     (ex_phase x = Closed False \<longrightarrow> prefix (ex_sent x) (rpc_stream env k x es))"
proof -
  have "rpc_ok env x" using reachable_streams [OF assms(1)] assms(2) by (simp add: streams_ok_def members_def)
  with assms(3) show ?thesis by (auto simp: rpc_ok_def rpc_flow_def rpc_end_def)
qed

lemma http_rpc_stream_exact_witness:
  "\<exists>x k st es. hs_exchanges (http_run web_http_env (take 3 web_rpc) web_http_server) = [x] \<and>
     ex_kind x = RpcExchange k True st es \<and> ex_phase x = Streaming \<and> prefix (ex_sent x) (rpc_stream web_http_env k x es)"
proof -
  have "map (\<lambda>x. (case ex_kind x of RpcExchange k b st es \<Rightarrow> b | _ \<Rightarrow> False, ex_phase x))
     (hs_exchanges (http_run (web_env c) (take 3 web_rpc) web_http_server)) = [(True, Streaming)]" for c by code_simp
  from this [of generation_catalog] obtain x where x: "hs_exchanges (http_run web_http_env (take 3 web_rpc) web_http_server) = [x]"
      "ex_phase x = Streaming" "case ex_kind x of RpcExchange k b st es \<Rightarrow> b | _ \<Rightarrow> False"
    unfolding web_http_env_def by auto
  then obtain k st es where kind: "ex_kind x = RpcExchange k True st es" by (auto split: exchange_kind.splits)
  from http_rpc_stream_exact [OF web_reachable, of x "take 3 web_rpc", OF _ kind] x kind show ?thesis by auto
qed

text \<open>C20. The server stays within its limits, whatever requests arrive. Ordinary and control responses
  hold the leases that are counted, at most as many as configured. Of a chat, the bytes that wait for the
  client are counted exactly and within the limit, and so is the text of the answer, or the overflow is noted;
  a plain answer was given only for a text within the limit. Of a call of the extension, the bytes that wait
  are counted exactly and within the limit, or the overflow is noted, and then they exceed it by the
  accepted frame at most; the result it was answered with, plainly or as the last frame of its stream,
  is within the limit, or the stream ends with an error frame.\<close>

theorem http_limits_hold:
  assumes "http_reachable env s"
  shows "hs_work s = int (length (filter (\<lambda>x. \<not> ex_control x) (hs_exchanges s))) \<and>
     hs_work s \<le> worker_threads (he_options env) \<and>
     hs_controls s = int (length (filter ex_control (hs_exchanges s))) \<and>
     hs_controls s \<le> max_control_requests (he_options env) \<and>
     (\<forall>x \<in> set (hs_exchanges s). \<forall>p created st es. ex_kind x = ChatExchange p created st es \<longrightarrow>
        ss_buffered st = total_length (ss_frames st) \<and> ss_buffered st \<le> max_buffered_output_bytes (he_options env) \<and>
        ss_output st = output_of env es \<and> (ss_overflow st \<or> ss_output st \<le> max_buffered_output_bytes (he_options env)) \<and>
        (\<forall>r. ex_phase x = Answered r \<and> rp_status r = 200 \<longrightarrow> output_of env es \<le> max_buffered_output_bytes (he_options env))) \<and>
     (\<forall>x \<in> set (hs_exchanges s). \<forall>k streaming st es. ex_kind x = RpcExchange k streaming st es \<longrightarrow>
        rs_buffered st = total_length (rs_frames st) \<and>
        (\<not> rs_overflow st \<longrightarrow> rs_buffered st \<le> max_buffered_output_bytes (he_options env)) \<and>
        rs_buffered st \<le> max_buffered_output_bytes (he_options env) + int (length (accepted_frame env k x)) \<and>
        (\<forall>r. ex_phase x = Answered r \<and> rp_status r = 200 \<longrightarrow>
           int (length (he_compact env (rp_body r))) \<le> max_buffered_output_bytes (he_options env)) \<and>
        (streaming \<and> ex_phase x = Closed True \<longrightarrow> ex_sent x \<noteq> [] \<and> (rpc_error_frame env k x (last (ex_sent x)) \<or>
           (\<exists>result. last (ex_sent x) = result_frame env result \<and>
              int (length (he_compact env result)) \<le> max_buffered_output_bytes (he_options env)))))"
proof (intro conjI ballI allI impI)
  show "hs_work s = int (length (filter (\<lambda>x. \<not> ex_control x) (hs_exchanges s)))" "hs_work s \<le> worker_threads (he_options env)"
    "hs_controls s = int (length (filter ex_control (hs_exchanges s)))" "hs_controls s \<le> max_control_requests (he_options env)"
    using reachable_leases [OF assms] by (auto simp: capacity_ok_def leases_ok_def)
  fix x assume "x \<in> set (hs_exchanges s)"
  then have x: "chat_ok env x" "rpc_ok env x" "limit_ok env x" using reachable_streams [OF assms] by (auto simp: streams_ok_def members_def)
  {
    fix p created st es assume kind: "ex_kind x = ChatExchange p created st es"
    then show "ss_buffered st = total_length (ss_frames st)" "ss_buffered st \<le> max_buffered_output_bytes (he_options env)"
      "ss_output st = output_of env es" "ss_overflow st \<or> ss_output st \<le> max_buffered_output_bytes (he_options env)"
      using x(1) by (auto simp: chat_ok_def buffer_ok_def)
    show "output_of env es \<le> max_buffered_output_bytes (he_options env)" if "ex_phase x = Answered r \<and> rp_status r = 200" for r
      using kind x(1,3) that by (auto simp: chat_ok_def buffer_ok_def limit_ok_def)
  }
  fix k streaming st es assume kind: "ex_kind x = RpcExchange k streaming st es"
  then show "rs_buffered st = total_length (rs_frames st)" "rs_buffered st \<le> max_buffered_output_bytes (he_options env) + int (length (accepted_frame env k x))"
    using x(3) by (auto simp: limit_ok_def split: if_splits)
  show "rs_buffered st \<le> max_buffered_output_bytes (he_options env)" if "\<not> rs_overflow st"
    using kind x(3) that by (simp add: limit_ok_def)
  show "int (length (he_compact env (rp_body r))) \<le> max_buffered_output_bytes (he_options env)"
    if "ex_phase x = Answered r \<and> rp_status r = 200" for r
    using kind x(3) that by (auto simp: limit_ok_def respond_def dest: rpc_result_limit)
  assume over: "streaming \<and> ex_phase x = Closed True"
  then have "rpc_end env k x es" using kind x(2) by (simp add: rpc_ok_def)
  then show "ex_sent x \<noteq> []" "rpc_error_frame env k x (last (ex_sent x)) \<or>
      (\<exists>result. last (ex_sent x) = result_frame env result \<and>
        int (length (he_compact env result)) \<le> max_buffered_output_bytes (he_options env))"
    by (auto simp: rpc_end_def dest: rpc_result_limit)
qed

lemma http_limits_hold_witness:
  "hs_work (http_run web_http_env web_chat web_http_server) = 1 \<and>
     length (filter (\<lambda>x. \<not> ex_control x) (hs_exchanges (http_run web_http_env web_chat web_http_server))) = 1 \<and>
   (\<exists>x k st es. hs_exchanges (http_run web_http_env (take 3 web_rpc) web_http_server) = [x] \<and>
     ex_kind x = RpcExchange k True st es \<and> length (rs_frames st) = 2 \<and>
     rs_buffered st = total_length (rs_frames st) \<and> (rs_overflow st \<or> rs_buffered st \<le> 4194304))"
proof (rule context_conjI)
  obtain x where x: "hs_exchanges (http_run web_http_env web_chat web_http_server) = [x]"
    using web_chat_end by auto
  have "hs_controls (http_run (web_env c) (tl web_chat)
      (web_open \<lparr>pc_request = rq, pc_conversation = None, pc_stream = True, pc_include_usage = False\<rparr>)) = 0" for c rq
    by code_simp
  then have "hs_controls (http_run web_http_env web_chat web_http_server) = 0"
    by (simp add: web_chat_def web_opened [unfolded web_parsed_def web_http_env_def] web_http_env_def)
  with http_limits_hold [OF web_reachable [of web_chat]] x show "hs_work (http_run web_http_env web_chat web_http_server) = 1"
    by (auto split: if_splits)
  then show "length (filter (\<lambda>x. \<not> ex_control x) (hs_exchanges (http_run web_http_env web_chat web_http_server))) = 1 \<and>
   (\<exists>x k st es. hs_exchanges (http_run web_http_env (take 3 web_rpc) web_http_server) = [x] \<and>
     ex_kind x = RpcExchange k True st es \<and> length (rs_frames st) = 2 \<and>
     rs_buffered st = total_length (rs_frames st) \<and> (rs_overflow st \<or> rs_buffered st \<le> 4194304))"
  proof (intro conjI)
    show "length (filter (\<lambda>x. \<not> ex_control x) (hs_exchanges (http_run web_http_env web_chat web_http_server))) = 1"
      if "hs_work (http_run web_http_env web_chat web_http_server) = 1"
      using that http_limits_hold [OF web_reachable [of web_chat]] by auto
    have "map (\<lambda>x. case ex_kind x of RpcExchange k b st es \<Rightarrow> b \<and> length (rs_frames st) = 2 | _ \<Rightarrow> False)
        (hs_exchanges (http_run (web_env c) (take 3 web_rpc) web_http_server)) = [True]" for c by code_simp
    from this [of generation_catalog] obtain y where y: "hs_exchanges (http_run web_http_env (take 3 web_rpc) web_http_server) = [y]"
        "case ex_kind y of RpcExchange k b st es \<Rightarrow> b \<and> length (rs_frames st) = 2 | _ \<Rightarrow> False"
      unfolding web_http_env_def by auto
    then obtain k st es where kind: "ex_kind y = RpcExchange k True st es" "length (rs_frames st) = 2"
      by (auto split: exchange_kind.splits)
    have "max_buffered_output_bytes (he_options web_http_env) = 4194304"
      by (simp add: web_http_env_def web_env_def default_http_options_def)
    with http_limits_hold [OF web_reachable [of "take 3 web_rpc"]] y(1) kind
    show "\<exists>x k st es. hs_exchanges (http_run web_http_env (take 3 web_rpc) web_http_server) = [x] \<and>
      ex_kind x = RpcExchange k True st es \<and> length (rs_frames st) = 2 \<and>
      rs_buffered st = total_length (rs_frames st) \<and> (rs_overflow st \<or> rs_buffered st \<le> 4194304)"
      by (intro exI [of _ y] exI [of _ k] exI [of _ st] exI [of _ es]) auto
  qed
qed

text \<open>C18. No work outlives its response: when an exchange has left the server its operation is
  cancelled, unless it was a call that had finished; and stopping the server cancels the operation of
  every exchange whose handler has registered it.\<close>

theorem http_ends_release:
  assumes "http_reachable env s" and "rpc_unique env" and "x \<in> set (hs_exchanges s)"
    and "h_valid (ex_handle x)" and "ex_kind x \<noteq> ModelList"
  shows "(ex_number x \<notin> ex_number ` set (hs_exchanges (http_step env e s)) \<longrightarrow>
       is_cancelled (hs_flags (http_step env e s)) (h_token (ex_handle x)) \<or> is_rpc x \<and> ex_future x \<noteq> None) \<and>
     (ex_phase x \<noteq> Starting \<longrightarrow>
       is_cancelled (hs_flags (http_step env Stop s)) (h_token (ex_handle x)) \<or> is_rpc x \<and> ex_future x \<noteq> None)"
  using gone_released [OF assms] stop_released [OF assms] by blast

lemma http_ends_release_witness:
  "is_cancelled (hs_flags (http_step web_http_env (Leave 0) (http_run web_http_env web_chat web_http_server))) (Token 0 None)"
proof -
  let ?s = "http_run web_http_env web_chat web_http_server"
  have run: "map (\<lambda>x. (ex_number x, ex_handle x, is_rpc x, ex_kind x = ModelList)) (hs_exchanges (http_run (web_env c) (tl web_chat)
        (web_open \<lparr>pc_request = rq, pc_conversation = None, pc_stream = True, pc_include_usage = False\<rparr>))) =
      [(0, \<lparr>h_request = [65], h_token = Token 0 None, h_valid = True\<rparr>, False, False)] \<and>
    hs_exchanges (http_step (web_env c) (Leave 0) (http_run (web_env c) (tl web_chat)
        (web_open \<lparr>pc_request = rq, pc_conversation = None, pc_stream = True, pc_include_usage = False\<rparr>))) = []" for c rq
    by code_simp
  have eq: "?s = http_run web_http_env (tl web_chat) (web_open web_parsed)"
    by (simp add: web_chat_def web_opened)
  have left: "map (\<lambda>x. (ex_number x, ex_handle x, is_rpc x, ex_kind x = ModelList)) (hs_exchanges ?s) =
      [(0, \<lparr>h_request = [65], h_token = Token 0 None, h_valid = True\<rparr>, False, False)]"
      "hs_exchanges (http_step web_http_env (Leave 0) ?s) = []"
    using run [of generation_catalog "pc_request web_parsed"] unfolding eq by (simp_all add: web_http_env_def web_parsed_def)
  obtain x where x: "hs_exchanges ?s = [x]" "ex_number x = 0" "ex_handle x = \<lparr>h_request = [65], h_token = Token 0 None, h_valid = True\<rparr>"
      "\<not> is_rpc x" "ex_kind x \<noteq> ModelList"
    using left(1) by auto
  have "rpc_unique web_http_env"
    by (auto simp: rpc_unique_def web_http_env_def web_env_def throw_def split: if_splits)
  from http_ends_release [OF web_reachable this, of x web_chat "Leave 0"] x left show ?thesis by simp
qed

text \<open>C19. Work starts only behind the checks: a request that opens an exchange came from a local client with
  no foreign origin, before the server was stopping; a chat has a JSON body that was read completely; a
  call of the extension carries exactly one bearer credential, and the handler gets that credential.\<close>

theorem http_gate:
  assumes "http_request_step env rq created ob s = (s1, None)"
  shows "rq_host rq \<in> {bs ''127.0.0.1:'' @ port_bytes (rq_port rq), bs ''localhost:'' @ port_bytes (rq_port rq)} \<and>
     (rq_origin rq = [] \<or> hd (rq_origin rq) \<in> {bs ''http://127.0.0.1:'' @ port_bytes (rq_port rq),
        bs ''http://localhost:'' @ port_bytes (rq_port rq)}) \<and> \<not> hs_stopping s \<and>
     (\<exists>x. hs_exchanges s1 = hs_exchanges s @ [x] \<and> (case ex_kind x of
        ModelList \<Rightarrow> rq_route rq = ModelsRoute
      | ChatExchange p c st es \<Rightarrow> rq_route rq = CompletionsRoute \<and> json_content env rq \<and>
          parse_completion env (rq_body rq) = Inr p \<and>
          (ex_phase x = Starting \<longrightarrow> he_start env (hs_next s) (job_of p) = Inr (ex_handle x))
      | RpcExchange k b st es \<Rightarrow> rq_route rq = RpcRoute \<and> hs_rpc s \<and> json_content env rq \<and>
          (\<exists>auth r. rq_authorization rq = [auth] \<and> take 7 auth = bs ''Bearer '' \<and> length auth \<le> 263 \<and>
             parse_rpc env rq = Inr r \<and> rr_id r = k \<and> (ex_phase x = Starting \<longrightarrow>
             he_start env (hs_next s) (RpcJob (rr_verb r) (rr_params r) (he_text env (drop 7 auth)) b) = Inr (ex_handle x)))))"
proof -
  have gate: "pre_routing (hs_stopping s) rq = None" using assms by (auto simp: http_request_step_def split: option.splits)
  then have checked: "local_host rq" "same_origin rq" "\<not> hs_stopping s" by (auto simp: pre_routing_def split: if_splits)
  then have local: "rq_host rq \<in> {bs ''127.0.0.1:'' @ port_bytes (rq_port rq), bs ''localhost:'' @ port_bytes (rq_port rq)}"
      "rq_origin rq = [] \<or> hd (rq_origin rq) \<in> {bs ''http://127.0.0.1:'' @ port_bytes (rq_port rq), bs ''http://localhost:'' @ port_bytes (rq_port rq)}"
    by (auto simp: local_host_def same_origin_def split: list.splits)
  note local = local checked(3)
  have phase: "(case start of Inl e \<Rightarrow> Answered (fail_reply e) | Inr h \<Rightarrow> Starting) = Starting \<Longrightarrow> \<exists>h. start = Inr h"
    for start :: "rpc_handle res" by (cases start) simp_all
  show ?thesis
  proof (cases "rq_route rq")
    case CompletionsRoute
    with assms gate have run: "start_completion env rq created s = (s1, None)" by (simp add: http_request_step_def)
    then obtain p s0 where p: "json_content env rq" "parse_completion env (rq_body rq) = Inr p" "admit env False s = Inr s0"
        "s1 = open_exchange False (ChatExchange p created empty_stream []) (he_start env (hs_next s0) (job_of p)) s0"
      by (auto simp: start_completion_def split: if_splits sum.splits)
    with CompletionsRoute local show ?thesis
      by (cases "he_start env (hs_next s0) (job_of p)") (auto simp: open_exchange_def admitted [OF p(3)])
  next
    case RpcRoute
    with assms gate have run: "start_rpc_call env rq ob s = (s1, None)" by (simp add: http_request_step_def)
    then obtain r s0 where r: "hs_rpc s" "json_content env rq" "parse_rpc env rq = Inr r" "admit env (he_control env (rr_verb r)) s = Inr s0"
        "s1 = open_exchange (he_control env (rr_verb r)) (RpcExchange (rr_id r) (rr_streaming r) empty_rpc_stream [])
          (bindr (http_check (hs_stopping s0) ob) (\<lambda>_.
            he_start env (hs_next s0) (RpcJob (rr_verb r) (rr_params r) (rr_credential r) (rr_streaming r)))) s0"
      by (auto simp: start_rpc_call_def Let_def split: if_splits sum.splits)
    have "bearer rq" "rr_credential r = he_text env (drop 7 (hd (rq_authorization rq)))"
      using r(3) by (auto simp: parse_rpc_def Let_def)
    then obtain auth where "rq_authorization rq = [auth]" "take 7 auth = bs ''Bearer ''" "length auth \<le> 263"
        "rr_credential r = he_text env (drop 7 auth)"
      by (auto simp: bearer_def split: list.splits)
    with r RpcRoute local show ?thesis
      by (cases "bindr (http_check (hs_stopping s0) ob) (\<lambda>_.
            he_start env (hs_next s0) (RpcJob (rr_verb r) (rr_params r) (rr_credential r) (rr_streaming r)))")
        (auto simp: open_exchange_def admitted [OF r(4)])
  next
    case ModelsRoute
    with assms gate obtain s0 where "admit env False s = Inr s0"
        "s1 = open_exchange False ModelList (he_start env (hs_next s0) ModelsJob) s0"
      by (auto simp: http_request_step_def split: sum.splits)
    with ModelsRoute local show ?thesis by (auto simp: open_exchange_def admitted)
  next
    case HealthRoute
    with assms gate show ?thesis by (simp add: http_request_step_def)
  qed
qed

lemma http_gate_witness:
  "\<exists>x s1. http_request_step web_http_env (web_rq RpcRoute [2]) 0 fine web_http_server = (s1, None) \<and> hs_exchanges s1 = [x]
     \<and> rq_authorization (web_rq RpcRoute [2]) = [bs ''Bearer k'']"
proof -
  have "snd (http_request_step (web_env c) (web_rq RpcRoute [2]) 0 fine web_http_server) = None \<and>
     map (\<lambda>x. case ex_kind x of RpcExchange k b st es \<Rightarrow> True | _ \<Rightarrow> False)
       (hs_exchanges (fst (http_request_step (web_env c) (web_rq RpcRoute [2]) 0 fine web_http_server))) = [True]" for c
    by code_simp
  note seen = this [of generation_catalog, folded web_http_env_def]
  obtain s1 reply where run: "http_request_step web_http_env (web_rq RpcRoute [2]) 0 fine web_http_server = (s1, reply)" by fastforce
  with seen obtain x where x: "reply = None" "hs_exchanges s1 = [x]" "case ex_kind x of RpcExchange k b st es \<Rightarrow> True | _ \<Rightarrow> False"
    by auto
  have "hs_exchanges web_http_server = []" by (simp add: web_http_server_def)
  moreover have "rq_authorization (web_rq RpcRoute [2]) = [bs ''Bearer k'']" by (simp add: web_rq_def)
  ultimately show ?thesis using http_gate [OF run [unfolded x(1)]] run x by (auto split: exchange_kind.splits)
qed

text \<open>C21. What an accepted completion request says reaches the service exactly. The body is an object that
  names known fields only; its model is a string that is not blank, its lifetime the one read from
  \<^verbatim>\<open>keep_alive\<close> and in range, its messages 1 to 4096 objects. The generation options are
  those read from the generation fields of the body, the newer name of the token limit taken for the older
  one - never both given - and a single stop string as a list, with the temperature at most 2 and one
  choice. Each flag is the boolean of the body or its default, and the usage is included only in a
  stream that asks for it. The request is structured just when it has tools, requires a call or
  has a structured message. A plain one carries its messages, role and text, unchanged and in order; a structured
  one carries the model, the messages, the tools, the tool choice, whether calls may be parallel, the
  options and the lifetime, and nothing else.\<close>

theorem http_completion_accepted:
  assumes "parse_completion env body = Inr p"
  shows "\<exists>o1 messages choice parallel g vals t. he_parse env body = Some (JObj o1) \<and>
     fst ` set o1 \<subseteq> set (map qs completion_fields) \<and>
     jvalue o1 ''model'' = JStr (completion_model (pc_request p)) \<and> trimmed (completion_model (pc_request p)) \<noteq> [] \<and>
     parse_keep_alive (jvalue o1 ''keep_alive'') = Inr (completion_keep_alive (pc_request p)) \<and>
     - 1 \<le> completion_keep_alive (pc_request p) \<and> completion_keep_alive (pc_request p) \<le> 7 * 86400000 \<and>
     catalog_group (he_catalog env) generation_id = Inr g \<and> (\<forall>k. map_of vals k = generation_source g o1 k) \<and>
     generation_options_from_json (he_qt env) (he_catalog env) vals = Inr (completion_options (pc_request p)) \<and>
     \<not> (jhas o1 ''max_tokens'' \<and> jhas o1 ''max_completion_tokens'') \<and>
     temperature (completion_options (pc_request p)) = Dbl t \<and> t \<le> 2 \<and>
     jvalue o1 ''n'' \<in> {JUndefined, JNum 1} \<and>
     jvalue o1 ''messages'' = JArr messages \<and> messages \<noteq> [] \<and> length messages \<le> 4096 \<and>
     list_all (known_message (pc_conversation p \<noteq> None)) messages \<and>
     jvalue o1 ''tool_choice'' = (if jhas o1 ''tool_choice'' then JStr choice else JUndefined) \<and>
     choice \<in> {qs ''auto'', qs ''none'', qs ''required''} \<and> (\<not> jhas o1 ''tool_choice'' \<longrightarrow> choice = qs ''auto'') \<and>
     flag_is o1 ''parallel_tool_calls'' True parallel \<and> flag_is o1 ''stream'' False (pc_stream p) \<and>
     usage_is o1 (pc_stream p) (pc_include_usage p) \<and>
     (jhas o1 ''tools'' \<longrightarrow> is_array (jvalue o1 ''tools'')) \<and>
     (pc_conversation p \<noteq> None \<longleftrightarrow> to_array (jvalue o1 ''tools'') \<noteq> [] \<or> choice = qs ''required'' \<or> list_ex structured_message messages) \<and>
     (case pc_conversation p of
        None \<Rightarrow> list_all2 same_message messages (completion_messages (pc_request p))
      | Some c \<Rightarrow> completion_messages (pc_request p) = [] \<and>
          c = \<lparr>conv_model = completion_model (pc_request p), conv_messages = messages,
             conv_tools = to_array (jvalue o1 ''tools''), conv_tool_choice = choice, conv_context_id = [],
             conv_options = completion_options (pc_request p), conv_keep_alive = completion_keep_alive (pc_request p),
             conv_parallel_tool_calls = parallel, conv_response_schema = [], conv_enable_thinking = None\<rparr>)"
proof -
  have obj: "\<exists>o1. v = JObj o1" if "is_object v" for v using that by (cases v) simp_all
  have arr: "v = JArr (to_array v)" if "is_array v" for v using that by (cases v) simp_all
  obtain v where v: "he_parse env body = Some v" "is_object v"
    using assms by (auto simp: parse_completion_def Let_def http_require_def split: option.splits)
  then obtain o1 where doc: "he_parse env body = Some (JObj o1)" using obj by blast
  let ?messages = "to_array (jvalue o1 ''messages'')"
  obtain u keep_alive choice parallel chat stream include_usage options where run:
      "http_fields completion_fields o1 = Inr u" "is_string (jvalue o1 ''model'')" "trimmed (to_string (jvalue o1 ''model'')) \<noteq> []"
      "parse_keep_alive (jvalue o1 ''keep_alive'') = Inr keep_alive" "is_array (jvalue o1 ''messages'')"
      "?messages \<noteq> []" "length ?messages \<le> 4096" "parse_choice o1 = Inr choice"
      "http_boolean o1 ''parallel_tool_calls'' True = Inr parallel"
      "fold_res (parse_message (is_structured o1 choice)) ?messages [] = Inr chat" "http_boolean o1 ''stream'' False = Inr stream"
      "parse_stream_options o1 stream = Inr include_usage" "parse_options env o1 = Inr options"
    and p0: "Inr \<lparr>pc_request = \<lparr>completion_model = to_string (jvalue o1 ''model''), completion_messages = chat, completion_options = options,
             completion_keep_alive = keep_alive\<rparr>,
           pc_conversation = (if is_structured o1 choice then Some \<lparr>conv_model = to_string (jvalue o1 ''model''), conv_messages = ?messages,
             conv_tools = to_array (jvalue o1 ''tools''), conv_tool_choice = choice, conv_context_id = [],
             conv_options = options, conv_keep_alive = keep_alive, conv_parallel_tool_calls = parallel,
             conv_response_schema = [], conv_enable_thinking = None\<rparr> else None),
           pc_stream = stream, pc_include_usage = include_usage\<rparr> = (Inr p :: parsed_completion res)"
    using assms unfolding parse_completion_def Let_def doc http_require_def bindr_Inr_iff require_Inr option.sel to_object.simps
    by blast
  note p = sum.inject(2) [THEN iffD1, OF p0, symmetric]
  obtain g vals t where options: "catalog_group (he_catalog env) generation_id = Inr g"
      "\<forall>k. map_of vals k = generation_source g o1 k"
      "generation_options_from_json (he_qt env) (he_catalog env) vals = Inr options"
      "\<not> (jhas o1 ''max_tokens'' \<and> jhas o1 ''max_completion_tokens'')" "temperature options = Dbl t" "t \<le> 2"
      "jvalue o1 ''n'' \<in> {JUndefined, JNum 1}"
    using options_source [OF run(13)] by blast
  have "list_all (known_message (is_structured o1 choice)) ?messages" using known_messages [OF run(10)] .
  moreover have "list_all2 same_message ?messages chat" if "\<not> is_structured o1 choice"
    using parse_plain_all [of ?messages "[]" chat] run(10) that by auto
  moreover have "chat = []" if "is_structured o1 choice" using parse_structured_all [of ?messages "[]" chat] run(10) that by simp
  ultimately show ?thesis
    using doc fields_known [OF run(1)] run(2-4) keep_alive_range [OF run(4)] arr [OF run(5)] run(6,7)
      choice_read [OF run(8)] flag_read [OF run(9)] flag_read [OF run(11)] usage_read [OF run(12)] options
    by - (rule exI [of _ o1], rule exI [of _ ?messages], rule exI [of _ choice], rule exI [of _ parallel],
        rule exI [of _ g], rule exI [of _ vals], rule exI [of _ t], cases "is_structured o1 choice",
        (simp_all add: p is_string_iff)[2], simp_all add: is_structured_def)
qed

lemma http_completion_accepted_witness:
  "\<exists>o1. he_parse web_http_env [1] = Some (JObj o1) \<and> jvalue o1 ''model'' = JStr (qs ''m'') \<and> flag_is o1 ''stream'' False True \<and>
     usage_is o1 True False \<and> list_all2 same_message (to_array (jvalue o1 ''messages'')) [\<lparr>msg_role = User, msg_content = qs ''hi''\<rparr>]"
  using http_completion_accepted [OF web_parse] by (auto simp: web_parsed_def)

end
