(* ===== verification/ToolTurn.thy ===== *)
theory ToolTurn
  imports Effects
begin

text \<open>
  The single tool turn of the llama.cpp runtime: where a generated text completes one call
  (\<^verbatim>\<open>completeSingleToolTurn\<close> in \<^verbatim>\<open>src/runtimes/ToolTurn.h\<close>), the callback that ends the
  generation there (\<^verbatim>\<open>generateConversation\<close> in \<^verbatim>\<open>src/runtimes/LlamaRuntime.cpp\<close>), and the
  repair of a template (\<^verbatim>\<open>src/runtimes/ToolTemplate.h\<close>). \<open>parse\<close> stands for
  \<^verbatim>\<open>QJsonDocument::fromJson\<close> on the UTF-8 of a text. The callback looks for the end of the call
  only after a piece with a closing bracket; \<open>gated_complete\<close> shows that it misses none.
\<close>

section \<open>Positions in strings\<close>

text \<open>\<^verbatim>\<open>indexOf(pattern, from)\<close> and \<^verbatim>\<open>mid(position, n)\<close>; a negative length takes the rest.\<close>

definition index_from :: "qstring \<Rightarrow> qstring \<Rightarrow> nat \<Rightarrow> nat option" where
  "index_from p s n = map_option ((+) n) (index_of p (drop n s))"

definition mid :: "qstring \<Rightarrow> int \<Rightarrow> int \<Rightarrow> qstring" where
  "mid s pos n = (if n < 0 then drop (nat pos) s else take (nat n) (drop (nat pos) s))"

lemma index_from_Some:
  assumes "index_from p s n = Some k" and "n \<le> length s"
  shows "n \<le> k \<and> k + length p \<le> length s \<and> take (length p) (drop k s) = p"
proof -
  obtain j where j: "index_of p (drop n s) = Some j" "k = n + j"
    using assms(1) by (auto simp: index_from_def)
  from index_of_Some [OF j(1)] assms(2) show ?thesis by (auto simp: j(2) add.commute)
qed

lemma index_from_past: "length s < n + length p \<Longrightarrow> p \<noteq> [] \<Longrightarrow> index_from p s n = None"
proof (rule ccontr)
  assume len: "length s < n + length p" "p \<noteq> []" and "index_from p s n \<noteq> None"
  then obtain j where "index_of p (drop n s) = Some j" by (auto simp: index_from_def)
  from index_of_Some [OF this] len show False by (cases p) auto
qed

section \<open>The end of a call\<close>

definition tool_open :: qstring where
  "tool_open = qs ''<tool_call>''"

definition tool_close :: qstring where
  "tool_close = qs ''</tool_call>''"

lemma tool_close_length [simp]: "length tool_close = 12"
  by (simp add: tool_close_def)

text \<open>Where the payload begins.\<close>

definition payload_start :: "qstring \<Rightarrow> qstring \<Rightarrow> nat option" where
  "payload_start prefill generated =
     (if ends_with tool_open (trimmed prefill) \<or> starts_with (qs ''{'') (trimmed generated) then Some 0
      else case index_of tool_open generated of None \<Rightarrow> None | Some tag \<Rightarrow> Some (tag + length tool_open))"

text \<open>A whole payload: an object of a tool's name and its arguments, nothing else.\<close>

definition is_call :: "(qstring \<Rightarrow> json option) \<Rightarrow> qstring list \<Rightarrow> qstring \<Rightarrow> bool" where
  "is_call parse tools payload = (case parse (trimmed payload) of
     Some (JObj call) \<Rightarrow> length call = 2 \<and> is_string (jvalue call ''name'')
       \<and> to_string (jvalue call ''name'') \<in> set tools \<and> is_object (jvalue call ''arguments'')
   | _ \<Rightarrow> False)"

function scan_calls :: "(qstring \<Rightarrow> json option) \<Rightarrow> qstring list \<Rightarrow> qstring \<Rightarrow> nat \<Rightarrow> nat \<Rightarrow> nat option" where
  "scan_calls parse tools generated start from = (case index_from tool_close generated from of
     None \<Rightarrow> None
   | Some end' \<Rightarrow>
       if is_call parse tools (mid generated (int start) (int end' - int start)) then Some (end' + 12)
       else scan_calls parse tools generated start (end' + 12))"
  by pat_completeness auto
termination
proof (relation "measure (\<lambda>(_, _, g, _, off). length g + 1 - off)", goal_cases)
  case (2 parse tools g start off e)
  then have "off \<le> length g"
    using index_from_past [of g off tool_close] by (cases "off \<le> length g") (auto simp: tool_close_def)
  with 2(1) index_from_Some [of tool_close g off e] show ?case by auto
qed simp

declare scan_calls.simps [simp del]

definition complete_single_tool_turn :: "(qstring \<Rightarrow> json option) \<Rightarrow> qstring \<Rightarrow> qstring \<Rightarrow> qstring list \<Rightarrow> nat option" where
  "complete_single_tool_turn parse prefill generated tools = (case payload_start prefill generated of
     None \<Rightarrow> None | Some start \<Rightarrow> scan_calls parse tools generated start start)"

section \<open>The callback\<close>

record tool_turn =
  tt_generated :: qstring
  tt_delivered :: int
  tt_yielded :: bool

definition fresh_turn :: tool_turn where
  "fresh_turn = \<lparr>tt_generated = [], tt_delivered = 0, tt_yielded = False\<rparr>"

text \<open>The variables the callback captures are beside the state of the consumer it calls.\<close>

definition tool_text :: "(qstring \<Rightarrow> json option) \<Rightarrow> qstring \<Rightarrow> qstring list \<Rightarrow> (qstring \<Rightarrow> ('u, bool) act) \<Rightarrow>
    qstring \<Rightarrow> ('u \<times> tool_turn, bool) act" where
  "tool_text parse prefill tools on_text piece = (\<lambda>(u, t).
     if tt_yielded t then ((u, t), Inr False)
     else let
         t1 = t\<lparr>tt_generated := tt_generated t @ piece\<rparr>;
         boundary = (if qc CHR ''>'' \<in> set piece
           then complete_single_tool_turn parse prefill (tt_generated t1) tools else None);
         end' = (case boundary of Some b \<Rightarrow> int b | None \<Rightarrow> int (length (tt_generated t1)));
         settle = (\<lambda>go u'. ((u', t1\<lparr>tt_delivered := end', tt_yielded := boundary \<noteq> None\<rparr>),
           Inr (go \<and> boundary = None)))
       in if end' = tt_delivered t then settle True u
          else (case on_text (mid (tt_generated t1) (tt_delivered t) (end' - tt_delivered t)) u of
              (u', Inl e) \<Rightarrow> ((u', t1), Inl e)
            | (u', Inr go) \<Rightarrow> settle go u'))"

section \<open>A call ends once, wherever the text was cut\<close>

lemma is_space_open: "\<not> is_space (qc CHR ''<'')" "\<not> is_space (qc CHR ''{'')"
  by (simp_all add: is_space_def qc_def)

lemma trimmed_head:
  assumes "\<not> is_space c"
  shows "starts_with [c] (trimmed s) \<longleftrightarrow> (\<exists>t. dropWhile is_space s = c # t)"
proof (cases "dropWhile is_space s")
  case Nil
  have "trimmed s = []" by (simp only: trimmed_def Nil) simp
  then show ?thesis using Nil by (simp only: starts_with_def) simp
next
  case (Cons d t)
  then have d: "\<not> is_space d" by (metis hd_dropWhile list.distinct(1) list.sel(1))
  have "trimmed s = d # rev (dropWhile is_space (rev t))"
  proof (cases "\<forall>x \<in> set (rev t). is_space x")
    case True
    then have "dropWhile is_space (rev t @ [d]) = [d]" "dropWhile is_space (rev t) = []"
      using d True by (simp_all add: dropWhile_append dropWhile_eq_Nil_conv)
    then show ?thesis by (simp only: trimmed_def Cons rev.simps append.simps)
  next
    case False
    then obtain x where "x \<in> set (rev t)" "\<not> is_space x" by blast
    then show ?thesis by (simp add: trimmed_def Cons dropWhile_append1)
  qed
  then show ?thesis by (auto simp: Cons starts_with_def)
qed

lemma dropWhile_grows:
  assumes "x \<in> set g" and "\<not> P x"
  shows "(\<exists>t. dropWhile P (g @ piece) = c # t) \<longleftrightarrow> (\<exists>t. dropWhile P g = c # t)"
proof -
  have "dropWhile P g \<noteq> []" using assms by (auto simp: dropWhile_eq_Nil_conv)
  moreover have "dropWhile P (g @ piece) = dropWhile P g @ piece"
    using assms by (simp add: dropWhile_append1)
  ultimately show ?thesis by (cases "dropWhile P g") auto
qed

text \<open>The first occurrence of a pattern in a prefix is its first occurrence.\<close>

lemma index_of_grows:
  assumes "n + length p \<le> length g" and "p \<noteq> []"
  shows "index_of p (g @ piece) = Some n \<longleftrightarrow> index_of p g = Some n"
  using assms
proof (induction g arbitrary: n)
  case Nil
  then show ?case by simp
next
  case (Cons c g)
  have head: "take (length p) ((c # g) @ piece) = p \<longleftrightarrow> take (length p) (c # g) = p"
  proof (cases "length p \<le> length (c # g)")
    case True
    then have "take (length p) ((c # g) @ piece) = take (length p) (c # g)" by (simp del: append_Cons)
    then show ?thesis by (simp only:)
  next
    case False
    then show ?thesis using Cons.prems by simp
  qed
  show ?case
  proof (cases n)
    case 0
    then show ?thesis using head by (simp split: if_splits)
  next
    case (Suc m)
    have "index_of p (g @ piece) = Some m \<longleftrightarrow> index_of p g = Some m"
      using Cons Suc by simp
    then show ?thesis using head Suc by (auto split: if_splits)
  qed
qed

text \<open>\<open>call_ends\<close>: a whole call of one of the tools ends at \<open>b\<close>.\<close>

definition closes_at :: "qstring \<Rightarrow> nat \<Rightarrow> bool" where
  "closes_at g e \<longleftrightarrow> take 12 (drop e g) = tool_close"

definition call_ends :: "(qstring \<Rightarrow> json option) \<Rightarrow> qstring \<Rightarrow> qstring list \<Rightarrow> qstring \<Rightarrow> nat \<Rightarrow> bool" where
  "call_ends parse prefill tools g b \<longleftrightarrow> (\<exists>start e. payload_start prefill g = Some start \<and> start \<le> e
     \<and> b = e + 12 \<and> closes_at g e \<and> is_call parse tools (mid g (int start) (int e - int start)))"

lemma closes_at_length: "closes_at g e \<Longrightarrow> e + 12 \<le> length g"
proof -
  assume "closes_at g e"
  then have "length (take 12 (drop e g)) = 12" by (simp only: closes_at_def tool_close_length)
  then show ?thesis by simp
qed

lemma closes_at_nth: "closes_at g e \<Longrightarrow> i < 12 \<Longrightarrow> g ! (e + i) = tool_close ! i"
proof -
  assume c: "closes_at g e" "i < 12"
  have "tool_close ! i = take 12 (drop e g) ! i" using c(1) by (simp only: closes_at_def)
  also have "\<dots> = g ! (e + i)" using c closes_at_length [OF c(1)] by simp
  finally show ?thesis by simp
qed

lemma tool_close_angle: "i < 12 \<Longrightarrow> tool_close ! i = qc CHR ''<'' \<longleftrightarrow> i = 0"
proof -
  assume "i < 12"
  then have "i = 0 \<or> i = 1 \<or> i = 2 \<or> i = 3 \<or> i = 4 \<or> i = 5 \<or> i = 6 \<or> i = 7 \<or> i = 8 \<or> i = 9 \<or> i = 10 \<or> i = 11"
    by presburger
  then show ?thesis by (elim disjE) (simp_all add: tool_close_def qs_def)
qed

lemma closes_apart:
  assumes "closes_at g e" and "closes_at g e'" and "e < e'"
  shows "e + 12 \<le> e'"
proof (rule ccontr)
  assume "\<not> e + 12 \<le> e'"
  then have i: "e' - e < 12" "e' = e + (e' - e)" using assms(3) by simp_all
  have "tool_close ! (e' - e) = g ! e'" using closes_at_nth [OF assms(1) i(1)] i(2) by simp
  also have "\<dots> = tool_close ! 0" using closes_at_nth [OF assms(2), of 0] by simp
  also have "\<dots> = qc CHR ''<''" by (simp add: tool_close_def qs_def)
  finally show False using tool_close_angle [OF i(1)] assms(3) by simp
qed

lemma closes_grows: "e + 12 \<le> length g \<Longrightarrow> closes_at (g @ piece) e \<longleftrightarrow> closes_at g e"
  by (simp add: closes_at_def)

lemma index_from_closes:
  assumes "off \<le> length g"
  shows "index_from tool_close g off = Some e \<Longrightarrow>
      off \<le> e \<and> closes_at g e \<and> (\<forall>e'. off \<le> e' \<longrightarrow> e' < e \<longrightarrow> \<not> closes_at g e')"
    and "index_from tool_close g off = None \<Longrightarrow> off \<le> e \<Longrightarrow> \<not> closes_at g e"
proof -
  assume some: "index_from tool_close g off = Some e"
  then obtain j where j: "index_of tool_close (drop off g) = Some j" "e = off + j"
    by (auto simp: index_from_def)
  have "\<not> closes_at g e'" if "off \<le> e'" "e' < e" for e'
    using index_of_least [OF j(1), of "e' - off"] that j(2) by (auto simp: closes_at_def)
  then show "off \<le> e \<and> closes_at g e \<and> (\<forall>e'. off \<le> e' \<longrightarrow> e' < e \<longrightarrow> \<not> closes_at g e')"
    using index_from_Some [OF some assms] by (auto simp: closes_at_def)
next
  assume none: "index_from tool_close g off = None" and le: "off \<le> e"
  show "\<not> closes_at g e"
  proof
    assume c: "closes_at g e"
    then have "(e - off) + length tool_close \<le> length (drop off g)"
      using closes_at_length [OF c] le by simp
    from index_of_None [OF _ this] none c le show False
      by (auto simp: index_from_def closes_at_def)
  qed
qed

definition payload_calls :: "(qstring \<Rightarrow> json option) \<Rightarrow> qstring list \<Rightarrow> qstring \<Rightarrow> nat \<Rightarrow> nat \<Rightarrow> bool" where
  "payload_calls parse tools g start e \<longleftrightarrow>
     closes_at g e \<and> is_call parse tools (mid g (int start) (int e - int start))"

lemma scan_calls_least:
  "off \<le> length g \<Longrightarrow> (case scan_calls parse tools g start off of
     Some b \<Rightarrow> \<exists>e. b = e + 12 \<and> off \<le> e \<and> payload_calls parse tools g start e
       \<and> (\<forall>e'. off \<le> e' \<longrightarrow> e' < e \<longrightarrow> \<not> payload_calls parse tools g start e')
   | None \<Rightarrow> \<forall>e. off \<le> e \<longrightarrow> \<not> payload_calls parse tools g start e)"
proof (induction parse tools g start off rule: scan_calls.induct)
  case (1 parse tools g start off)
  show ?case
  proof (cases "index_from tool_close g off")
    case None
    then show ?thesis using index_from_closes(2) [OF "1.prems" None]
      by (simp add: scan_calls.simps [of parse tools g start off] payload_calls_def)
  next
    case (Some e)
    note first = index_from_closes(1) [OF "1.prems" Some]
    show ?thesis
    proof (cases "is_call parse tools (mid g (int start) (int e - int start))")
      case True
      then show ?thesis using first Some
        by (auto simp: scan_calls.simps [of parse tools g start off] payload_calls_def)
    next
      case False
      have skip: "\<not> payload_calls parse tools g start e'" if "off \<le> e'" "e' < e + 12" for e'
      proof
        assume "payload_calls parse tools g start e'"
        then have c: "closes_at g e'" and call: "is_call parse tools (mid g (int start) (int e' - int start))"
          by (simp_all add: payload_calls_def)
        have "\<not> e' < e" using first c that(1) by blast
        moreover have "\<not> e < e'" using closes_apart [of g e e'] first c that(2) by auto
        ultimately have "e' = e" by simp
        with call False show False by simp
      qed
      have len: "e + 12 \<le> length g" using first closes_at_length by blast
      have eq: "scan_calls parse tools g start off = scan_calls parse tools g start (e + 12)"
        using Some False by (simp add: scan_calls.simps [of parse tools g start off])
      show ?thesis
      proof (cases "scan_calls parse tools g start (e + 12)")
        case None
        then show ?thesis using "1.IH" [OF Some False len] eq skip by auto (metis not_le_imp_less)
      next
        case (Some b)
        with "1.IH" [OF \<open>index_from tool_close g off = Some e\<close> False len]
        obtain e2 where e2: "b = e2 + 12" "e + 12 \<le> e2" "payload_calls parse tools g start e2"
          "\<And>e'. e + 12 \<le> e' \<Longrightarrow> e' < e2 \<Longrightarrow> \<not> payload_calls parse tools g start e'" by auto
        have "\<not> payload_calls parse tools g start e'" if "off \<le> e'" "e' < e2" for e'
          using skip e2(4) that by (cases "e' < e + 12") auto
        moreover have "off \<le> e2" using first e2(2) by simp
        ultimately show ?thesis using e2(1,3) eq Some by auto
      qed
    qed
  qed
qed

lemma call_ends_payload: "call_ends parse prefill tools g b \<longleftrightarrow>
    (\<exists>start e. payload_start prefill g = Some start \<and> start \<le> e \<and> b = e + 12 \<and> payload_calls parse tools g start e)"
  by (auto simp: call_ends_def payload_calls_def)

lemma payload_start_bound: "payload_start prefill g = Some start \<Longrightarrow> start \<le> length g"
  using index_of_Some [of tool_open g] by (auto simp: payload_start_def split: if_splits option.splits)

lemma complete_least:
  shows "complete_single_tool_turn parse prefill g tools = Some b \<Longrightarrow>
      call_ends parse prefill tools g b \<and> (\<forall>b'. call_ends parse prefill tools g b' \<longrightarrow> b \<le> b')"
    and "complete_single_tool_turn parse prefill g tools = None \<Longrightarrow> \<not> call_ends parse prefill tools g b'"
proof -
  show "call_ends parse prefill tools g b \<and> (\<forall>b'. call_ends parse prefill tools g b' \<longrightarrow> b \<le> b')"
    if some: "complete_single_tool_turn parse prefill g tools = Some b"
  proof -
    obtain start where st: "payload_start prefill g = Some start" "scan_calls parse tools g start start = Some b"
      using some by (auto simp: complete_single_tool_turn_def split: option.splits)
    from scan_calls_least [OF payload_start_bound [OF st(1)], of parse tools start] st(2)
    obtain e where e: "b = e + 12" "start \<le> e" "payload_calls parse tools g start e"
      "\<And>e'. start \<le> e' \<Longrightarrow> e' < e \<Longrightarrow> \<not> payload_calls parse tools g start e'" by auto
    then have "b \<le> b'" if "call_ends parse prefill tools g b'" for b'
      using that st(1) by (auto simp: call_ends_payload) (metis not_le_imp_less)
    with e st(1) show ?thesis by (auto simp: call_ends_payload)
  qed
  show "\<not> call_ends parse prefill tools g b'"
    if "complete_single_tool_turn parse prefill g tools = None"
  proof (cases "payload_start prefill g")
    case None
    then show ?thesis by (simp add: call_ends_payload)
  next
    case (Some start)
    then have "scan_calls parse tools g start start = None"
      using that by (simp add: complete_single_tool_turn_def)
    with scan_calls_least [OF payload_start_bound [OF Some], of parse tools start] Some
    show ?thesis by (auto simp: call_ends_payload)
  qed
qed

lemma complete_iff: "complete_single_tool_turn parse prefill g tools = Some b \<longleftrightarrow>
    call_ends parse prefill tools g b \<and> (\<forall>b'. call_ends parse prefill tools g b' \<longrightarrow> b \<le> b')"
proof (cases "complete_single_tool_turn parse prefill g tools")
  case None
  then show ?thesis using complete_least(2) by auto
next
  case (Some b')
  with complete_least(1) [OF Some] show ?thesis by (auto intro: le_antisym)
qed

text \<open>What is known of a text stays true when it grows.\<close>

lemma starts_object_grows:
  assumes "closes_at g e"
  shows "starts_with (qs ''{'') (trimmed (g @ piece)) \<longleftrightarrow> starts_with (qs ''{'') (trimmed g)"
proof -
  have "g ! (e + 0) = tool_close ! 0" by (rule closes_at_nth [OF assms]) simp
  then have "g ! e = qc CHR ''<''" by (simp add: tool_close_def qs_def)
  then have mem: "qc CHR ''<'' \<in> set g" using closes_at_length [OF assms] nth_mem [of e g] by simp
  have brace: "qs ''{'' = [qc CHR ''{'']" by (simp add: qs_def)
  show ?thesis
    unfolding brace trimmed_head [OF is_space_open(2)]
    by (rule dropWhile_grows [of "qc CHR ''<''"]) (use mem is_space_open in auto)
qed

lemma payload_start_grows:
  assumes "closes_at g e" and "start \<le> e"
  shows "payload_start prefill (g @ piece) = Some start \<longleftrightarrow> payload_start prefill g = Some start"
proof -
  have len: "length tool_open = 11" "tool_open \<noteq> []" by (simp_all add: tool_open_def)
  have grows: "index_of tool_open (g @ piece) = Some n \<longleftrightarrow> index_of tool_open g = Some n" if "n + 11 \<le> e" for n
    by (rule index_of_grows) (use that len closes_at_length [OF assms(1)] in simp_all)
  show ?thesis
  proof (cases "ends_with tool_open (trimmed prefill) \<or> starts_with (qs ''{'') (trimmed g)")
    case True
    then show ?thesis using starts_object_grows [OF assms(1)] by (simp add: payload_start_def)
  next
    case False
    have "payload_start prefill h = Some start \<longleftrightarrow> (\<exists>n. index_of tool_open h = Some n \<and> start = n + 11)"
      if "h = g \<or> h = g @ piece" for h
      using False starts_object_grows [OF assms(1)] that len
      by (auto simp: payload_start_def split: option.splits)
    then show ?thesis using grows assms(2) by (metis le_trans)
  qed
qed

lemma call_ends_grows:
  assumes "b \<le> length g"
  shows "call_ends parse prefill tools (g @ piece) b \<longleftrightarrow> call_ends parse prefill tools g b"
proof -
  have same: "(payload_start prefill (g @ piece) = Some start \<and> start \<le> e \<and> b = e + 12 \<and> closes_at (g @ piece) e
        \<and> is_call parse tools (mid (g @ piece) (int start) (int e - int start)))
    \<longleftrightarrow> (payload_start prefill g = Some start \<and> start \<le> e \<and> b = e + 12 \<and> closes_at g e
        \<and> is_call parse tools (mid g (int start) (int e - int start)))" for start e
  proof (cases "b = e + 12 \<and> start \<le> e \<and> closes_at g e")
    case True
    then have "closes_at (g @ piece) e" "mid (g @ piece) (int start) (int e - int start)
        = mid g (int start) (int e - int start)"
      using assms closes_grows [of e g] by (simp_all add: mid_def)
    then show ?thesis using payload_start_grows [of g e start prefill piece] True by simp
  next
    case False
    then show ?thesis using assms closes_grows [of e g] by auto
  qed
  show ?thesis unfolding call_ends_def same ..
qed

lemma complete_grows:
  assumes "complete_single_tool_turn parse prefill g tools = Some b"
  shows "complete_single_tool_turn parse prefill (g @ piece) tools = Some b"
proof -
  have b: "call_ends parse prefill tools g b" "\<And>b'. call_ends parse prefill tools g b' \<Longrightarrow> b \<le> b'"
    using assms by (auto simp: complete_iff)
  have "b \<le> length g" using b(1) closes_at_length by (auto simp: call_ends_def)
  then have "b \<le> b'" if "call_ends parse prefill tools (g @ piece) b'" for b'
    using b(2) call_ends_grows [of b' g parse prefill tools piece] that by (cases "b' \<le> length g") auto
  then show ?thesis unfolding complete_iff
    using b(1) call_ends_grows [OF \<open>b \<le> length g\<close>] by blast
qed

lemma complete_new:
  assumes "complete_single_tool_turn parse prefill g tools = None"
    and "complete_single_tool_turn parse prefill (g @ piece) tools = Some b"
  shows "length g < b \<and> b \<le> length g + length piece \<and> qc CHR ''>'' \<in> set piece"
proof -
  have ends: "call_ends parse prefill tools (g @ piece) b" using assms(2) by (simp add: complete_iff)
  then obtain e where e: "b = e + 12" "closes_at (g @ piece) e" by (auto simp: call_ends_def)
  have long: "b \<le> length g + length piece" using closes_at_length [OF e(2)] e(1) by simp
  have new: "length g < b"
    using call_ends_grows [of b g] ends complete_least(2) [OF assms(1)] by (metis not_le_imp_less)
  have "(g @ piece) ! (e + 11) = tool_close ! 11" by (rule closes_at_nth [OF e(2)]) simp
  then have "piece ! (e + 11 - length g) = qc CHR ''>''"
    using new e(1) by (simp add: nth_append tool_close_def qs_def)
  moreover have "e + 11 - length g < length piece" using long e(1) new by simp
  ultimately show ?thesis using new long nth_mem by fastforce
qed

section \<open>What the consumer receives\<close>

text \<open>The generation calls the callback for each piece until it is refused or throws.\<close>

primrec feed_pieces :: "(qstring \<Rightarrow> ('s, bool) act) \<Rightarrow> qstring list \<Rightarrow> ('s, bool) act" where
  "feed_pieces f [] = ret True"
| "feed_pieces f (p # ps) = act_bind (f p) (\<lambda>go. if go then feed_pieces f ps else ret False)"

text \<open>A consumer that keeps the text and asks for more.\<close>

definition collect_piece :: "qstring \<Rightarrow> (qstring, bool) act" where
  "collect_piece piece u = (u @ piece, Inr True)"

definition turn_at :: "qstring \<Rightarrow> tool_turn \<Rightarrow> bool" where
  "turn_at T t \<longleftrightarrow> t = \<lparr>tt_generated = T, tt_delivered = int (length T), tt_yielded = False\<rparr>"

lemma tool_text_on:
  assumes "turn_at T t" and "complete_single_tool_turn parse prefill T tools = None"
    and "complete_single_tool_turn parse prefill (T @ piece) tools = None"
  shows "\<exists>t'. tool_text parse prefill tools collect_piece piece (T, t) = ((T @ piece, t'), Inr True)
    \<and> turn_at (T @ piece) t'"
  using assms by (simp add: tool_text_def turn_at_def Let_def mid_def collect_piece_def)

lemma tool_text_end:
  assumes "turn_at T t" and "complete_single_tool_turn parse prefill T tools = None"
    and "complete_single_tool_turn parse prefill (T @ piece) tools = Some b"
  shows "\<exists>t'. tool_text parse prefill tools collect_piece piece (T, t) = ((take b (T @ piece), t'), Inr False)
    \<and> tt_yielded t'"
proof -
  from complete_new [OF assms(2,3)]
  have b: "length T < b" "b \<le> length T + length piece" "qc CHR ''>'' \<in> set piece" by simp_all
  then have "nat (int b - int (length T)) = b - length T" by simp
  then show ?thesis using assms b by (simp add: tool_text_def turn_at_def Let_def mid_def collect_piece_def)
qed

lemma complete_empty: "complete_single_tool_turn parse prefill [] tools = None"
proof (cases "complete_single_tool_turn parse prefill [] tools")
  case (Some b)
  then have "call_ends parse prefill tools [] b" by (simp add: complete_iff)
  then show ?thesis using closes_at_length by (fastforce simp: call_ends_def)
qed

definition turn_text :: "(qstring \<Rightarrow> json option) \<Rightarrow> qstring \<Rightarrow> qstring list \<Rightarrow> qstring \<Rightarrow> qstring" where
  "turn_text parse prefill tools g = (case complete_single_tool_turn parse prefill g tools of
     Some b \<Rightarrow> take b g | None \<Rightarrow> g)"

lemma feed_turn:
  "turn_at T t \<Longrightarrow> complete_single_tool_turn parse prefill T tools = None \<Longrightarrow>
   \<exists>t'. feed_pieces (tool_text parse prefill tools collect_piece) pieces (T, t)
     = ((turn_text parse prefill tools (T @ concat pieces), t'),
        Inr (complete_single_tool_turn parse prefill (T @ concat pieces) tools = None))
     \<and> tt_yielded t' = (complete_single_tool_turn parse prefill (T @ concat pieces) tools \<noteq> None)"
proof (induction pieces arbitrary: T t)
  case Nil
  then show ?case by (simp add: turn_text_def turn_at_def)
next
  case (Cons piece pieces)
  show ?case
  proof (cases "complete_single_tool_turn parse prefill (T @ piece) tools")
    case None
    from tool_text_on [OF Cons.prems None] obtain t'
      where t': "tool_text parse prefill tools collect_piece piece (T, t) = ((T @ piece, t'), Inr True)"
        "turn_at (T @ piece) t'" by blast
    from Cons.IH [OF t'(2) None] show ?thesis by (simp add: t'(1))
  next
    case (Some b)
    from tool_text_end [OF Cons.prems Some] obtain t'
      where t': "tool_text parse prefill tools collect_piece piece (T, t) = ((take b (T @ piece), t'), Inr False)"
        "tt_yielded t'" by blast
    have all: "complete_single_tool_turn parse prefill (T @ piece @ concat pieces) tools = Some b"
      using complete_grows [OF Some, of "concat pieces"] by simp
    from Some have "call_ends parse prefill tools (T @ piece) b" by (simp add: complete_iff)
    then have "b \<le> length T + length piece"
      using closes_at_length by (fastforce simp: call_ends_def)
    then show ?thesis using t' by (simp add: all turn_text_def act_bind_def)
  qed
qed

text \<open>
  C24. A single tool turn is cut at the right place, whatever pieces it arrives in: the consumer gets
  exactly the text up to the end of the first complete call of one of the tools, and the generation
  is told to stop just when there is one; without one it gets the whole text. The callback tests
  only pieces that hold a closing bracket, and nothing is lost by it. A piece after the end, such as
  the rest of a truncated code point, delivers nothing and is refused.
\<close>

theorem tool_turn_delivers:
  "\<exists>t'. feed_pieces (tool_text parse prefill tools collect_piece) pieces ([], fresh_turn)
     = ((turn_text parse prefill tools (concat pieces), t'),
        Inr (complete_single_tool_turn parse prefill (concat pieces) tools = None))
     \<and> (if complete_single_tool_turn parse prefill (concat pieces) tools = None then \<not> tt_yielded t'
        else \<forall>on_text tail (u :: 'u). tool_text parse prefill tools on_text tail (u, t') = ((u, t'), Inr False))"
proof -
  have "turn_at [] fresh_turn" by (simp add: turn_at_def fresh_turn_def)
  from feed_turn [OF this complete_empty, of parse prefill tools pieces]
  show ?thesis by (auto simp: tool_text_def)
qed

text \<open>
  Where a turn ends: at the least position that closes a whole call, an object of exactly the
  name of an offered tool and an object of arguments, between the payload's start and a closing tag. A
  closing tag inside a quoted argument ends nothing.
\<close>

theorem tool_turn_end: "complete_single_tool_turn parse prefill g tools
    = (if \<exists>b. call_ends parse prefill tools g b then Some (LEAST b. call_ends parse prefill tools g b) else None)"
proof (cases "complete_single_tool_turn parse prefill g tools")
  case None
  then show ?thesis using complete_least(2) [OF None] by simp
next
  case (Some b)
  with complete_least(1) [OF Some] have "call_ends parse prefill tools g b"
    and "(LEAST b. call_ends parse prefill tools g b) = b" by (auto intro: Least_equality)
  then show ?thesis using Some by auto
qed

end
