(* ===== verification/Llama.thy ===== *)
theory Llama
  imports ToolTurn GenerationRules Service
begin

text \<open>
  The context of the llama.cpp runtime: what \<^verbatim>\<open>LlamaContext\<close> in
  \<^verbatim>\<open>src/runtimes/LlamaRuntime.cpp\<close> does around the native library for one generation, that is
  the checks, the reuse of the evaluated prefix, the evaluation of the prompt in batches, the choice of
  samplers and the loop over sampled tokens. The calls of \<^verbatim>\<open>llama.h\<close>,
  \<^verbatim>\<open>mtmd.h\<close> and \<^verbatim>\<open>sampling.h\<close> are the fields of the record \<open>llama\<close>:
  the memory of the native context (its KV cache) is a value of type \<open>'m\<close>, a sampler of type
  \<open>'s\<close>, a media chunk of type \<open>'k\<close>, and \<open>'d\<close> is the state of Qt's incremental
  UTF-8 decoder, which \<^verbatim>\<open>src/runtimes/Utf8Stream.h\<close> extends. A cancellation check is answered
  by its number; the native calls that poll the token see how many checks were made.
  \<open>llama_n_batch\<close> is at least one in every context, so the record holds its predecessor.
\<close>

section \<open>Samplers\<close>

text \<open>A \<^verbatim>\<open>double\<close> given where the library takes a \<^verbatim>\<open>float\<close>: binary32, ties to even.\<close>

definition float_exponent :: "rat \<Rightarrow> int" where
  "float_exponent r = (let (a, b) = quotient_of r;
       k = bit_length a - bit_length b;
       e = (if r < pow2 k then k - 24 else k - 23)
     in max e (- 149))"

fun to_float :: "dbl \<Rightarrow> dbl" where
  "to_float (Dbl r) = (let e = float_exponent \<bar>r\<bar>; m = of_int (nearest_even (\<bar>r\<bar> / pow2 e)) * pow2 e in
     if 2 ^ 128 \<le> m then NonFinite else Dbl (if r < 0 then - m else m))"
| "to_float NonFinite = NonFinite"

datatype sampler_stage =
    StageLogitBias int "(int \<times> dbl) list"
  | StagePenalties int int dbl dbl dbl
  | StageGreedy
  | StageTopK int
  | StageTypical dbl int
  | StageTopP dbl int
  | StageMinP dbl int
  | StageXtc dbl dbl int u32
  | StageTemp dbl
  | StageDist u32

text \<open>The grammar triggers of a chat template; the code names the two kinds it handles.\<close>

datatype trigger_type = TriggerToken | TriggerWord | TriggerOther nat

record grammar_trigger =
  tr_type :: trigger_type
  tr_value :: "byte list"
  tr_token :: int

datatype sampler_kind = KindPenalties | KindTopK | KindTypicalP | KindTopP | KindMinP | KindXtc | KindTemperature

record structured_sampling =
  ss_seed :: u32
  ss_min_keep :: int
  ss_top_k :: int
  ss_top_p :: dbl
  ss_min_p :: dbl
  ss_typ_p :: dbl
  ss_temp :: dbl
  ss_xtc_probability :: dbl
  ss_xtc_threshold :: dbl
  ss_penalty_repeat :: dbl
  ss_penalty_freq :: dbl
  ss_penalty_present :: dbl
  ss_penalty_last_n :: int
  ss_logit_bias :: "(int \<times> dbl) list"
  ss_samplers :: "sampler_kind list"
  ss_grammar :: "byte list option"
  ss_grammar_lazy :: bool
  ss_generation_prompt :: "byte list"
  ss_preserved_tokens :: "int list"
  ss_grammar_triggers :: "grammar_trigger list"

text \<open>What a conversation's template was applied to, as far as a generation reads it.\<close>

record 'k conversation_state =
  cs_grammar :: "byte list"
  cs_grammar_lazy :: bool
  cs_generation_prompt :: "byte list"
  cs_preserved_tokens :: "byte list list"
  cs_grammar_triggers :: "grammar_trigger list"
  cs_parser_prompt :: "byte list"
  cs_single_turn_tools :: "qstring list"
  cs_chunks :: "'k list option"
  cs_input_tokens :: int

record ('m, 's, 'd, 'k) llama =
  ll_qt :: qt
  ll_catalog :: catalog
  ll_vocab_size :: int
  ll_context_size :: int
  ll_batch_rest :: nat
  ll_cancelled :: "nat \<Rightarrow> bool"
  ll_seq_rm :: "int \<Rightarrow> 'm \<Rightarrow> bool \<times> 'm"
  ll_clear :: "'m \<Rightarrow> 'm"
  ll_decode :: "nat \<Rightarrow> (int \<times> int) list \<Rightarrow> 'm \<Rightarrow> int \<times> 'm"
  ll_eval_chunk :: "nat \<Rightarrow> 'k \<Rightarrow> int \<Rightarrow> bool \<Rightarrow> 'm \<Rightarrow> int \<times> int \<times> 'm"
  ll_chain :: "sampler_stage list \<Rightarrow> 's"
  ll_accept :: "int \<Rightarrow> 's \<Rightarrow> 's"
  ll_sample :: "'m \<Rightarrow> 's \<Rightarrow> int \<times> 's"
  ll_structured :: "structured_sampling \<Rightarrow> 's option"
  ll_structured_accept :: "int \<Rightarrow> bool \<Rightarrow> 's \<Rightarrow> 's"
  ll_structured_sample :: "'m \<Rightarrow> 's \<Rightarrow> int \<times> 's"
  ll_tokenize :: "byte list \<Rightarrow> token_list"
  ll_is_eog :: "int \<Rightarrow> bool"
  ll_piece :: "int \<Rightarrow> nat \<Rightarrow> bool \<Rightarrow> int \<times> byte list"
  ll_decoder :: 'd
  ll_utf8 :: "byte list \<Rightarrow> 'd \<Rightarrow> qstring \<times> 'd"
  ll_remaining :: "'d \<Rightarrow> nat"
  ll_from_utf8 :: "byte list \<Rightarrow> qstring"
  ll_parse :: "qstring \<Rightarrow> json option"

definition token_of_key :: "qstring \<Rightarrow> int" where
  "token_of_key k = int (digits_value 0 k)"

text \<open>The loop over the logit biases: the keys are canonical numbers, the options were validated.\<close>

fun read_biases :: "int \<Rightarrow> json_object \<Rightarrow> (int \<times> dbl) list \<Rightarrow> (int \<times> dbl) list res" where
  "read_biases vocab [] acc = Inr acc"
| "read_biases vocab ((k, v) # rest) acc =
     (if token_of_key k \<ge> vocab then throw InvalidArgument ''logit_bias token is outside the vocabulary''
      else read_biases vocab rest (acc @ [(token_of_key k, to_float (Dbl (to_double v)))]))"

fun positive :: "dbl \<Rightarrow> bool" where
  "positive (Dbl q) \<longleftrightarrow> 0 < q"
| "positive NonFinite \<longleftrightarrow> False"

definition penalty_window :: "int \<Rightarrow> generation_options \<Rightarrow> int" where
  "penalty_window n_ctx opts = (if repetition_context_size opts < 0 then n_ctx else repetition_context_size opts)"

definition sampler_chain :: "int \<Rightarrow> int \<Rightarrow> (int \<times> dbl) list \<Rightarrow> generation_options \<Rightarrow> sampler_stage list" where
  "sampler_chain vocab n_ctx biases opts =
     (if biases \<noteq> [] then [StageLogitBias vocab biases] else [])
   @ (if repetition_context_size opts \<noteq> 0 \<and> (repetition_penalty opts \<noteq> Dbl 1
          \<or> presence_penalty opts \<noteq> Dbl 0 \<or> frequency_penalty opts \<noteq> Dbl 0)
      then [StagePenalties vocab (penalty_window n_ctx opts) (to_float (repetition_penalty opts))
              (to_float (frequency_penalty opts)) (to_float (presence_penalty opts))] else [])
   @ (if temperature opts = Dbl 0 then [StageGreedy]
      else [StageTopK (top_k opts)]
        @ (if typical_p opts \<noteq> Dbl 1 then [StageTypical (to_float (typical_p opts)) (min_keep opts)] else [])
        @ [StageTopP (to_float (top_p opts)) (min_keep opts)]
        @ (if positive (min_p opts) then [StageMinP (to_float (min_p opts)) (min_keep opts)] else [])
        @ (if positive (xtc_probability opts) then [StageXtc (to_float (xtc_probability opts))
              (to_float (xtc_threshold opts)) (min_keep opts) (seed opts)] else [])
        @ [StageTemp (to_float (temperature opts)), StageDist (seed opts)])"

text \<open>The preserved tokens: the texts that are one token, a set of numbers.\<close>

fun preserved_tokens :: "(byte list \<Rightarrow> token_list) \<Rightarrow> byte list list \<Rightarrow> int list \<Rightarrow> int list" where
  "preserved_tokens tokens [] acc = acc"
| "preserved_tokens tokens (t # ts) acc = preserved_tokens tokens ts
     (case tokens t of [x] \<Rightarrow> if x \<in> set acc then acc else insort x acc | _ \<Rightarrow> acc)"

fun read_triggers :: "(byte list \<Rightarrow> token_list) \<Rightarrow> int list \<Rightarrow> grammar_trigger list \<Rightarrow> grammar_trigger list \<Rightarrow>
    grammar_trigger list res" where
  "read_triggers tokens preserved [] acc = Inr acc"
| "read_triggers tokens preserved (t # ts) acc =
     (case (if tr_type t = TriggerWord then tokens (tr_value t) else []) of
        [x] \<Rightarrow> if x \<notin> set preserved then throw RuntimeFailure ''Unpreserved grammar trigger token''
               else read_triggers tokens preserved ts (acc @ [t\<lparr>tr_type := TriggerToken, tr_token := x\<rparr>])
      | _ \<Rightarrow> read_triggers tokens preserved ts (acc @ [t]))"

definition structured_params :: "int \<Rightarrow> (int \<times> dbl) list \<Rightarrow> generation_options \<Rightarrow> 'k conversation_state \<Rightarrow>
    int list \<Rightarrow> grammar_trigger list \<Rightarrow> structured_sampling" where
  "structured_params n_ctx biases opts c preserved triggers =
     \<lparr>ss_seed = seed opts, ss_min_keep = min_keep opts, ss_top_k = top_k opts,
      ss_top_p = to_float (top_p opts), ss_min_p = to_float (min_p opts), ss_typ_p = to_float (typical_p opts),
      ss_temp = to_float (temperature opts), ss_xtc_probability = to_float (xtc_probability opts),
      ss_xtc_threshold = to_float (xtc_threshold opts), ss_penalty_repeat = to_float (repetition_penalty opts),
      ss_penalty_freq = to_float (frequency_penalty opts), ss_penalty_present = to_float (presence_penalty opts),
      ss_penalty_last_n = penalty_window n_ctx opts, ss_logit_bias = biases,
      ss_samplers = [KindPenalties, KindTopK, KindTypicalP, KindTopP, KindMinP, KindXtc, KindTemperature],
      ss_grammar = (if cs_grammar c \<noteq> [] then Some (cs_grammar c) else None),
      ss_grammar_lazy = cs_grammar_lazy c, ss_generation_prompt = cs_generation_prompt c,
      ss_preserved_tokens = preserved, ss_grammar_triggers = triggers\<rparr>"

text \<open>The sampler of a request with the prompt in its history, and the tokens shown as special.\<close>

definition make_sampler :: "('m, 's, 'd, 'k) llama \<Rightarrow> (int \<times> dbl) list \<Rightarrow> generation_options \<Rightarrow>
    'k conversation_state option \<Rightarrow> token_list \<Rightarrow> ('s \<times> int list) res" where
  "make_sampler L biases opts conversation prompt = (case conversation of
     Some c \<Rightarrow>
       (let preserved = preserved_tokens (ll_tokenize L) (cs_preserved_tokens c) [] in
        bindr (read_triggers (ll_tokenize L) preserved (cs_grammar_triggers c) []) (\<lambda>triggers.
        case ll_structured L (structured_params (ll_context_size L) biases opts c preserved triggers) of
          None \<Rightarrow> throw RuntimeFailure ''Cannot initialize structured sampler''
        | Some smp \<Rightarrow> Inr (fold (\<lambda>t. ll_structured_accept L t False) prompt smp, preserved)))
   | None \<Rightarrow>
       Inr (fold (ll_accept L) prompt
         (ll_chain L (sampler_chain (ll_vocab_size L) (ll_context_size L) biases opts)), []))"

section \<open>A context and its memory\<close>

text \<open>
  The fields of \<^verbatim>\<open>LlamaContext\<close>, the number of cancellation checks made, and the state of
  the consumer the text goes to.
\<close>

record ('m, 'u) llama_context =
  lx_memory :: 'm
  lx_previous :: token_list
  lx_next :: int
  lx_checks :: nat
  lx_client :: 'u

type_synonym ('m, 'u, 'a) llama_act = "(('m, 'u) llama_context, 'a) act"

definition new_llama_context :: "'m \<Rightarrow> 'u \<Rightarrow> ('m, 'u) llama_context" where
  "new_llama_context m u = \<lparr>lx_memory = m, lx_previous = [], lx_next = 0, lx_checks = 0, lx_client = u\<rparr>"

definition check_cancel :: "('m, 's, 'd, 'k) llama \<Rightarrow> ('m, 'u, unit) llama_act" where
  "check_cancel L s = (s\<lparr>lx_checks := Suc (lx_checks s)\<rparr>,
     if ll_cancelled L (lx_checks s) then throw Cancelled ''Request cancelled'' else Inr ())"

definition consume :: "(qstring \<Rightarrow> ('u, bool) act) \<Rightarrow> qstring \<Rightarrow> ('m, 'u, bool) llama_act" where
  "consume on_text t s = (case on_text t (lx_client s) of (u, r) \<Rightarrow> (s\<lparr>lx_client := u\<rparr>, r))"

definition signed_decimal :: "int \<Rightarrow> qstring" where
  "signed_decimal n = (if n < 0 then qs ''-'' @ decimal (nat (- n)) else decimal (nat n))"

definition batch_size :: "('m, 's, 'd, 'k) llama \<Rightarrow> nat" where
  "batch_size L = Suc (ll_batch_rest L)"

text \<open>One \<^verbatim>\<open>llama_decode\<close>: the tokens of a batch with the positions they get.\<close>

definition decode_batch :: "('m, 's, 'd, 'k) llama \<Rightarrow> token_list \<Rightarrow> bool \<Rightarrow> ('m, 'u, unit) llama_act" where
  "decode_batch L batch track =
     act_bind (check_cancel L) (\<lambda>_.
     act_bind (\<lambda>s. case ll_decode L (lx_checks s) (zip (map ((+) (lx_next s)) [0..int (length batch) - 1]) batch)
         (lx_memory s) of (status, m) \<Rightarrow> (s\<lparr>lx_memory := m\<rparr>, Inr status)) (\<lambda>status.
     act_bind (check_cancel L) (\<lambda>_.
     if status \<noteq> 0 then lift_res (throwq RuntimeFailure (qs ''llama_decode failed: '' @ signed_decimal status))
     else modify (\<lambda>s. s\<lparr>lx_previous := (if track then lx_previous s @ batch else lx_previous s),
       lx_next := lx_next s + int (length batch)\<rparr>))))"

function decode_tokens :: "('m, 's, 'd, 'k) llama \<Rightarrow> token_list \<Rightarrow> bool \<Rightarrow> ('m, 'u, unit) llama_act" where
  "decode_tokens L tokens track =
     (if tokens = [] then ret ()
      else act_bind (decode_batch L (take (batch_size L) tokens) track) (\<lambda>_.
        decode_tokens L (drop (batch_size L) tokens) track))"
  by pat_completeness auto
termination
  by (relation "measure (\<lambda>(_, tokens, _). length tokens)") (auto simp: batch_size_def)

declare decode_tokens.simps [simp del]

text \<open>
  The length of the longest common prefix that leaves at least the last token of the prompt to decode.
\<close>

fun reuse_count :: "token_list \<Rightarrow> token_list \<Rightarrow> nat" where
  "reuse_count (p # ps) (q # r # rs) = (if p = q then Suc (reuse_count ps (r # rs)) else 0)"
| "reuse_count _ _ = 0"

text \<open>Cutting the memory and the history back; the count of tokens really kept.\<close>

definition cut_memory :: "('m, 's, 'd, 'k) llama \<Rightarrow> nat \<Rightarrow> ('m, 'u, nat) llama_act" where
  "cut_memory L reuse s = (case ll_seq_rm L (int reuse) (lx_memory s) of (removed, m) \<Rightarrow>
     let kept = (if removed then reuse else 0) in
       (s\<lparr>lx_memory := (if removed then m else ll_clear L m), lx_previous := take kept (lx_previous s),
           lx_next := int kept\<rparr>, Inr kept))"

fun eval_chunks :: "('m, 's, 'd, 'k) llama \<Rightarrow> 'k list \<Rightarrow> ('m, 'u, unit) llama_act" where
  "eval_chunks L [] = ret ()"
| "eval_chunks L (c # cs) =
     act_bind (check_cancel L) (\<lambda>_.
     act_bind (\<lambda>s. case ll_eval_chunk L (lx_checks s) c (lx_next s) (cs = []) (lx_memory s) of
         (status, next, m) \<Rightarrow> (s\<lparr>lx_memory := m, lx_next := next\<rparr>, Inr status)) (\<lambda>status.
     act_bind (check_cancel L) (\<lambda>_.
     if status \<noteq> 0
     then lift_res (throwq RuntimeFailure (qs ''Native media evaluation failed: '' @ signed_decimal status))
     else eval_chunks L cs)))"

definition media_chunks :: "'k conversation_state option \<Rightarrow> 'k list option" where
  "media_chunks conversation = (case conversation of None \<Rightarrow> None | Some c \<Rightarrow> cs_chunks c)"

definition evaluate_prompt :: "('m, 's, 'd, 'k) llama \<Rightarrow> token_list \<Rightarrow> 'k conversation_state option \<Rightarrow>
    ('m, 'u, nat) llama_act" where
  "evaluate_prompt L prompt conversation = (case media_chunks conversation of
     Some chunks \<Rightarrow> act_bind (cut_memory L 0) (\<lambda>kept. act_bind (eval_chunks L chunks) (\<lambda>_. ret kept))
   | None \<Rightarrow>
       act_bind (gets (\<lambda>s. reuse_count (lx_previous s) prompt)) (\<lambda>reuse.
       act_bind (cut_memory L reuse) (\<lambda>kept.
       act_bind (decode_tokens L (drop kept prompt) True) (\<lambda>_. ret kept))))"

section \<open>The generation\<close>

definition next_token :: "('m, 's, 'd, 'k) llama \<Rightarrow> bool \<Rightarrow> 'm \<Rightarrow> 's \<Rightarrow> int \<times> 's" where
  "next_token L structured m smp =
     (if structured then (case ll_structured_sample L m smp of (t, smp') \<Rightarrow> (t, ll_structured_accept L t True smp'))
      else ll_sample L m smp)"

text \<open>The bytes of a token: a buffer of 32, then one of the size the library asks for.\<close>

definition token_bytes :: "('m, 's, 'd, 'k) llama \<Rightarrow> int \<Rightarrow> bool \<Rightarrow> byte list res" where
  "token_bytes L token special =
     (let (n, buffer) = ll_piece L token 32 special;
          (n, buffer) = (if n < 0 then ll_piece L token (nat (- n)) special else (n, buffer))
      in if n < 0 then throw RuntimeFailure ''Token decoding failed'' else Inr (take (nat n) buffer))"

text \<open>\<^verbatim>\<open>Utf8Stream::finish\<close>: a truncated code point becomes the replacement character.\<close>

definition utf8_finish :: "('m, 's, 'd, 'k) llama \<Rightarrow> 'd \<Rightarrow> qstring" where
  "utf8_finish L d = (if ll_remaining L d \<noteq> 0 then [0xFFFD] else [])"

definition offer :: "(qstring \<Rightarrow> ('u, bool) act) \<Rightarrow> qstring \<Rightarrow> ('m, 'u, bool) llama_act" where
  "offer on_text t = (if t = [] then ret True else consume on_text t)"

text \<open>
  The loop over \<^verbatim>\<open>n\<close> with \<open>left\<close> tokens to go; the last sampled token is not
  evaluated. It returns why it ended, the count of sampled tokens and the decoder.
\<close>

primrec sampling :: "('m, 's, 'd, 'k) llama \<Rightarrow> 'k conversation_state option \<Rightarrow> int list \<Rightarrow>
    (qstring \<Rightarrow> ('u, bool) act) \<Rightarrow> nat \<Rightarrow> 's \<Rightarrow> 'd \<Rightarrow> int \<Rightarrow> ('m, 'u, finish_reason \<times> int \<times> 'd) llama_act" where
  "sampling L conversation preserved on_text 0 smp dec gen = ret (FinishLength, gen, dec)"
| "sampling L conversation preserved on_text (Suc left) smp dec gen =
     act_bind (check_cancel L) (\<lambda>_.
     act_bind (gets (\<lambda>s. next_token L (conversation \<noteq> None) (lx_memory s) smp)) (\<lambda>(token, smp').
     if ll_is_eog L token then ret (FinishStop, gen + 1, dec)
     else act_bind (lift_res (token_bytes L token (token \<in> set preserved))) (\<lambda>piece.
       case ll_utf8 L piece dec of (text, dec') \<Rightarrow>
         act_bind (offer on_text text) (\<lambda>go.
         if \<not> go then ret (FinishStop, gen + 1, dec')
         else act_bind (if left > 0 then decode_tokens L [token] (media_chunks conversation = None) else ret ()) (\<lambda>_.
           sampling L conversation preserved on_text left smp' dec' (gen + 1))))))"

definition input_length :: "token_list \<Rightarrow> 'k conversation_state option \<Rightarrow> int" where
  "input_length prompt conversation = (case conversation of
     Some c \<Rightarrow> (if cs_chunks c \<noteq> None then cs_input_tokens c else int (length prompt))
   | None \<Rightarrow> int (length prompt))"

text \<open>What is checked before the memory is touched.\<close>

definition check_request :: "('m, 's, 'd, 'k) llama \<Rightarrow> token_list \<Rightarrow> generation_options \<Rightarrow>
    'k conversation_state option \<Rightarrow> (int \<times> dbl) list res" where
  "check_request L prompt opts conversation =
     bindr (validate_generation_options (ll_qt L) (ll_catalog L) opts (qs ''llama.cpp'')) (\<lambda>_.
     if min_keep opts > ll_vocab_size L then throw InvalidArgument ''min_keep exceeds vocabulary size''
     else bindr (read_biases (ll_vocab_size L) (logit_bias opts) []) (\<lambda>biases.
       if input_length prompt conversation \<le> 0
         \<or> input_length prompt conversation + max_tokens opts > ll_context_size L
       then throw ContextOverflow ''llama.cpp context overflow''
       else Inr biases))"

definition generate_impl :: "('m, 's, 'd, 'k) llama \<Rightarrow> token_list \<Rightarrow> generation_options \<Rightarrow>
    (qstring \<Rightarrow> ('u, bool) act) \<Rightarrow> 'k conversation_state option \<Rightarrow> ('m, 'u, runtime_result) llama_act" where
  "generate_impl L prompt opts on_text conversation =
     act_bind (check_cancel L) (\<lambda>_.
     act_bind (lift_res (check_request L prompt opts conversation)) (\<lambda>biases.
     act_bind (evaluate_prompt L prompt conversation) (\<lambda>reuse.
     act_bind (lift_res (make_sampler L biases opts conversation prompt)) (\<lambda>(smp, preserved).
     act_bind (sampling L conversation preserved on_text (nat (max_tokens opts)) smp (ll_decoder L) 0) (\<lambda>(reason, gen, dec).
     act_bind (offer on_text (utf8_finish L dec)) (\<lambda>_.
     act_bind (modify (\<lambda>s. if media_chunks conversation \<noteq> None then s\<lparr>lx_previous := []\<rparr> else s)) (\<lambda>_.
     ret \<lparr>rr_finish = reason, rr_generated = gen, rr_cached = int reuse\<rparr>)))))))"

definition llama_generate :: "('m, 's, 'd, 'k) llama \<Rightarrow> token_list \<Rightarrow> generation_options \<Rightarrow>
    (qstring \<Rightarrow> ('u, bool) act) \<Rightarrow> ('m, 'u, runtime_result) llama_act" where
  "llama_generate L prompt opts on_text = generate_impl L prompt opts on_text None"

text \<open>
  The structured generation. With tools that may be called once, the callback of
  \<open>tool_text\<close> stands between the loop and the consumer; what it captures lives as long as the call.
\<close>

definition with_turn :: "('m, 'u \<times> tool_turn, 'a) llama_act \<Rightarrow> ('m, 'u, 'a) llama_act" where
  "with_turn m s = (case m \<lparr>lx_memory = lx_memory s, lx_previous = lx_previous s, lx_next = lx_next s,
       lx_checks = lx_checks s, lx_client = (lx_client s, fresh_turn)\<rparr> of
     (s', r) \<Rightarrow> (\<lparr>lx_memory = lx_memory s', lx_previous = lx_previous s', lx_next = lx_next s',
       lx_checks = lx_checks s', lx_client = fst (lx_client s')\<rparr>, r))"

definition llama_converse :: "('m, 's, 'd, 'k) llama \<Rightarrow> 'k conversation_state option conversation_prompt \<Rightarrow>
    generation_options \<Rightarrow> (qstring \<Rightarrow> ('u, bool) act) \<Rightarrow> ('m, 'u, runtime_result) llama_act" where
  "llama_converse L prompt opts on_text = (case cp_state prompt of
     None \<Rightarrow> raise InvalidArgument ''Missing llama.cpp conversation template state''
   | Some c \<Rightarrow>
       if cs_single_turn_tools c = [] then generate_impl L (cp_tokens prompt) opts on_text (Some c)
       else with_turn (generate_impl L (cp_tokens prompt) opts
         (tool_text (ll_parse L) (ll_from_utf8 L (cs_parser_prompt c)) (cs_single_turn_tools c) on_text) (Some c)))"

end
