(* ===== verification/LlamaRules.thy ===== *)
theory LlamaRules
  imports Llama
begin

text \<open>
  What a llama.cpp context keeps between generations. \<open>memory_laws\<close> is what
  \<^verbatim>\<open>llama.h\<close> says of the native memory, read through \<open>cells\<close>, the token at each
  position: removing positions, clearing, and a batch that was or was not evaluated. From it: after every
  generation, returned or thrown, the memory holds the tokens of \<^verbatim>\<open>previous_\<close> at their
  positions (\<open>coherent\<close>), so the reuse of a prefix evaluates a prompt exactly as a fresh context
  would place it (\<open>holds_exactly\<close>).
\<close>

section \<open>The native memory\<close>

definition memory_laws :: "('m, 's, 'd, 'k) llama \<Rightarrow> ('m \<Rightarrow> int \<Rightarrow> int option) \<Rightarrow> bool" where
  "memory_laws L cells \<longleftrightarrow>
     (\<forall>p m m'. ll_seq_rm L p m = (True, m') \<longrightarrow> (\<forall>i. cells m' i = (if i < p then cells m i else None)))
   \<and> (\<forall>m i. cells (ll_clear L m) i = None)
   \<and> (\<forall>n batch m m'. ll_decode L n batch m = (0, m')
        \<longrightarrow> (\<forall>i. cells m' i = (case map_of batch i of Some t \<Rightarrow> Some t | None \<Rightarrow> cells m i)))
   \<and> (\<forall>n batch m status m'. ll_decode L n batch m = (status, m')
        \<longrightarrow> (\<forall>i. i \<notin> fst ` set batch \<longrightarrow> cells m' i = cells m i))"

definition holds_exactly :: "('m \<Rightarrow> int \<Rightarrow> int option) \<Rightarrow> 'm \<Rightarrow> token_list \<Rightarrow> bool" where
  "holds_exactly cells m ts \<longleftrightarrow>
     (\<forall>i \<ge> 0. cells m i = (if i < int (length ts) then Some (ts ! nat i) else None))"

definition coherent :: "('m \<Rightarrow> int \<Rightarrow> int option) \<Rightarrow> ('m, 'u) llama_context \<Rightarrow> bool" where
  "coherent cells s \<longleftrightarrow> (\<forall>i < length (lx_previous s). cells (lx_memory s) (int i) = Some (lx_previous s ! i))"

definition in_step :: "('m \<Rightarrow> int \<Rightarrow> int option) \<Rightarrow> token_list \<Rightarrow> ('m, 'u) llama_context \<Rightarrow> bool" where
  "in_step cells ts s \<longleftrightarrow> holds_exactly cells (lx_memory s) ts \<and> lx_previous s = ts \<and> lx_next s = int (length ts)"

lemma in_step_coherent: "in_step cells ts s \<Longrightarrow> coherent cells s"
  by (simp add: in_step_def coherent_def holds_exactly_def)

lemma coherent_fresh [simp]: "coherent cells (new_llama_context m u)"
  by (simp add: coherent_def new_llama_context_def)

lemma coherent_empty: "lx_previous s = [] \<Longrightarrow> coherent cells s"
  by (simp add: coherent_def)

lemma observers [simp]:
  "in_step cells ts (s\<lparr>lx_checks := n\<rparr>) = in_step cells ts s" "in_step cells ts (s\<lparr>lx_client := v\<rparr>) = in_step cells ts s"
  "coherent cells (s\<lparr>lx_checks := n\<rparr>) = coherent cells s" "coherent cells (s\<lparr>lx_client := v\<rparr>) = coherent cells s"
  by (simp_all add: in_step_def coherent_def)

definition batch_at :: "int \<Rightarrow> token_list \<Rightarrow> (int \<times> int) list" where
  "batch_at p batch = zip (map ((+) p) [0..int (length batch) - 1]) batch"

lemma batch_at_Nil [simp]: "batch_at p [] = []"
  by (simp add: batch_at_def)

lemma batch_at_Cons: "batch_at p (t # ts) = (p, t) # batch_at (p + 1) ts"
proof -
  have "[0..int (length ts)] = 0 # [1..int (length ts)]" by (simp add: upto_rec1)
  moreover have "map ((+) p) [1..int (length ts)] = map ((+) (p + 1)) [0..int (length ts) - 1]"
  proof (rule nth_equalityI)
    show "map ((+) p) [1..int (length ts)] ! i = map ((+) (p + 1)) [0..int (length ts) - 1] ! i"
      if "i < length (map ((+) p) [1..int (length ts)])" for i
      using that by (simp add: nth_upto)
  qed simp
  ultimately show ?thesis by (simp add: batch_at_def)
qed

lemma map_of_batch:
  "map_of (batch_at p ts) i = (if p \<le> i \<and> i < p + int (length ts) then Some (ts ! nat (i - p)) else None)"
proof (induction ts arbitrary: p)
  case (Cons t ts)
  have "nat (i - p) = Suc (nat (i - (p + 1)))" if "p < i" using that by linarith
  then show ?case using Cons.IH [of "p + 1"] by (auto simp: batch_at_Cons)
qed simp

lemma batch_positions: "i \<in> fst ` set (batch_at p ts) \<Longrightarrow> p \<le> i"
proof -
  assume "i \<in> fst ` set (batch_at p ts)"
  then have "map_of (batch_at p ts) i \<noteq> None" by (simp add: map_of_eq_None_iff)
  then show ?thesis by (simp add: map_of_batch split: if_splits)
qed

section \<open>The steps\<close>

lemma keeps_check [triples]:
  "keeps (in_step cells ts) (check_cancel L)" "keeps (coherent cells) (check_cancel L)"
  "keeps (\<lambda>s. lx_previous s = ps) (check_cancel L)"
  by (simp_all add: keeps_iff check_cancel_def)

lemma keeps_consume [triples]:
  "keeps (in_step cells ts) (offer on_text t)" "keeps (coherent cells) (offer on_text t)"
  "keeps (\<lambda>s. lx_previous s = ps) (offer on_text t)"
  by (simp_all add: keeps_iff offer_def consume_def split: prod.split)

lemma triple_coherent: "keeps (in_step cells ts) m \<Longrightarrow> triple (in_step cells ts) m (\<lambda>_. in_step cells ts) (coherent cells)"
  by (rule triple_weaken [of "in_step cells ts" m "\<lambda>_. in_step cells ts" "in_step cells ts"]) (auto simp: in_step_coherent)

lemma holds_more:
  assumes "memory_laws L cells" and "holds_exactly cells m ts"
    and "ll_decode L n (batch_at (int (length ts)) batch) m = (0, m')"
  shows "holds_exactly cells m' (ts @ batch)"
proof -
  have eq: "cells m' i = (case map_of (batch_at (int (length ts)) batch) i of Some t \<Rightarrow> Some t | None \<Rightarrow> cells m i)" for i
    using assms(1,3) by (auto simp: memory_laws_def)
  have old: "0 \<le> i \<Longrightarrow> cells m i = (if i < int (length ts) then Some (ts ! nat i) else None)" for i
    using assms(2) by (simp add: holds_exactly_def)
  have at: "nat (i - int (length ts)) = nat i - length ts" if "int (length ts) \<le> i" for i using that by linarith
  show ?thesis by (auto simp: holds_exactly_def eq map_of_batch old nth_append at)
qed

lemma coherent_failed:
  assumes "memory_laws L cells" and "in_step cells ts s"
    and "ll_decode L n (batch_at (int (length ts)) batch) (lx_memory s) = (status, m')"
  shows "coherent cells (s\<lparr>lx_memory := m'\<rparr>)"
proof -
  have keep: "\<forall>i. i \<notin> fst ` set (batch_at (int (length ts)) batch) \<longrightarrow> cells m' i = cells (lx_memory s) i"
    using assms(1,3) by (auto simp: memory_laws_def)
  have "cells m' (int i) = Some (ts ! i)" if "i < length ts" for i
  proof -
    have "int i \<notin> fst ` set (batch_at (int (length ts)) batch)"
      using batch_positions [of "int i" "int (length ts)" batch] that by auto
    then show ?thesis using keep that assms(2) by (simp add: in_step_def holds_exactly_def)
  qed
  then show ?thesis using assms(2) by (simp add: coherent_def in_step_def)
qed

lemma decode_batch_run:
  assumes "ll_decode L (Suc (lx_checks s)) (batch_at (lx_next s) batch) (lx_memory s) = (status, m)"
  shows "decode_batch L batch track s =
    (if ll_cancelled L (lx_checks s) then (s\<lparr>lx_checks := Suc (lx_checks s)\<rparr>, throw Cancelled ''Request cancelled'')
     else let s2 = s\<lparr>lx_memory := m, lx_checks := Suc (Suc (lx_checks s))\<rparr> in
       if ll_cancelled L (Suc (lx_checks s)) then (s2, throw Cancelled ''Request cancelled'')
       else if status \<noteq> 0 then (s2, throwq RuntimeFailure (qs ''llama_decode failed: '' @ signed_decimal status))
       else (s2\<lparr>lx_previous := (if track then lx_previous s @ batch else lx_previous s),
                lx_next := lx_next s + int (length batch)\<rparr>, Inr ()))"
  using assms by (simp add: decode_batch_def act_bind_def check_cancel_def throw_def throwq_def batch_at_def Let_def)

lemma triple_decode_batch:
  assumes "memory_laws L cells"
  shows "triple (in_step cells ts) (decode_batch L batch True) (\<lambda>_. in_step cells (ts @ batch)) (coherent cells)"
proof (rule tripleI)
  fix s s' :: "('a, 'e) llama_context" and x
  assume s: "in_step cells ts s" and run: "decode_batch L batch True s = (s', Inr x)"
  obtain status m where d: "ll_decode L (Suc (lx_checks s)) (batch_at (lx_next s) batch) (lx_memory s) = (status, m)"
    by fastforce
  have next': "lx_next s = int (length ts)" using s by (simp add: in_step_def)
  from run have "status = 0" and s': "s' = s\<lparr>lx_memory := m, lx_checks := Suc (Suc (lx_checks s)),
      lx_previous := lx_previous s @ batch, lx_next := lx_next s + int (length batch)\<rparr>"
    by (auto simp: decode_batch_run [OF d] Let_def split: if_splits)
  with holds_more [OF assms _ d [unfolded \<open>status = 0\<close> next'], of ] s
  show "in_step cells (ts @ batch) s'" by (simp add: in_step_def)
next
  fix s s' :: "('a, 'e) llama_context" and e
  assume s: "in_step cells ts s" and run: "decode_batch L batch True s = (s', Inl e)"
  obtain status m where d: "ll_decode L (Suc (lx_checks s)) (batch_at (lx_next s) batch) (lx_memory s) = (status, m)"
    by fastforce
  have next': "lx_next s = int (length ts)" using s by (simp add: in_step_def)
  from run have "s' = s\<lparr>lx_checks := Suc (lx_checks s)\<rparr> \<or> s' = s\<lparr>lx_memory := m, lx_checks := Suc (Suc (lx_checks s))\<rparr>"
    by (auto simp: decode_batch_run [OF d] Let_def split: if_splits)
  then show "coherent cells s'"
    using in_step_coherent [OF s] coherent_failed [OF assms s d [unfolded next']]
    by (auto simp: coherent_def)
qed

lemma triple_decode:
  assumes "memory_laws L cells"
  shows "triple (in_step cells ts) (decode_tokens L tokens True) (\<lambda>_. in_step cells (ts @ tokens)) (coherent cells)"
proof (induction "length tokens" arbitrary: tokens ts rule: less_induct)
  case less
  show ?case
  proof (cases "tokens = []")
    case True
    then show ?thesis by (simp add: triple_def) (simp add: decode_tokens.simps)
  next
    case False
    let ?b = "take (batch_size L) tokens" and ?r = "drop (batch_size L) tokens"
    have "length ?r < length tokens" using False by (simp add: batch_size_def)
    note rest = less [OF this, of "ts @ ?b"]
    show ?thesis using False rest
      by (simp add: decode_tokens.simps [of L tokens True] triple_bind [OF triple_decode_batch [OF assms]])
  qed
qed

lemma reuse_shared:
  "reuse_count ps prompt \<le> length ps \<and> take (reuse_count ps prompt) ps = take (reuse_count ps prompt) prompt
   \<and> (prompt \<noteq> [] \<longrightarrow> reuse_count ps prompt < length prompt)"
  by (induction ps prompt rule: reuse_count.induct) auto

text \<open>No longer prefix could have been kept: the token after it differs, or there is none to keep.\<close>

lemma reuse_longest:
  "k < length ps \<Longrightarrow> Suc k < length prompt \<Longrightarrow> take (Suc k) ps = take (Suc k) prompt \<Longrightarrow> k < reuse_count ps prompt"
proof (induction ps prompt arbitrary: k rule: reuse_count.induct)
  case (1 p ps q r rs)
  then show ?case by (cases k) auto
qed auto

lemma cut_memory_exact:
  assumes laws: "memory_laws L cells" and c: "coherent cells s" and r: "reuse \<le> length (lx_previous s)"
  shows "\<exists>s' kept. cut_memory L reuse s = (s', Inr kept) \<and> (kept = reuse \<or> kept = 0)
    \<and> in_step cells (take kept (lx_previous s)) s' \<and> lx_client s' = lx_client s"
proof -
  obtain b m where rm: "ll_seq_rm L (int reuse) (lx_memory s) = (b, m)" by fastforce
  show ?thesis
  proof (cases b)
    case True
    then have m: "cells m i = (if i < int reuse then cells (lx_memory s) i else None)" for i
      using laws rm by (auto simp: memory_laws_def)
    have "cells (lx_memory s) i = Some (lx_previous s ! nat i)" if "0 \<le> i" "i < int reuse" for i
    proof -
      have "cells (lx_memory s) (int (nat i)) = Some (lx_previous s ! nat i)"
        using c r that unfolding coherent_def by (metis nat_less_iff of_nat_le_iff order_less_le_trans)
      then show ?thesis using that by simp
    qed
    then show ?thesis using True rm r
      by (auto simp: cut_memory_def Let_def in_step_def holds_exactly_def m)
  next
    case False
    then show ?thesis using rm laws
      by (auto simp: cut_memory_def Let_def in_step_def holds_exactly_def memory_laws_def)
  qed
qed

section \<open>The prompt and the sampling loop\<close>

lemma evaluate_text_run:
  assumes laws: "memory_laws L cells" and c: "coherent cells s" and plain: "media_chunks conversation = None"
  obtains s1 kept where "evaluate_prompt L prompt conversation s
      = act_bind (decode_tokens L (drop kept prompt) True) (\<lambda>_. ret kept) s1"
    and "kept = reuse_count (lx_previous s) prompt \<or> kept = 0" and "in_step cells (take kept prompt) s1"
    and "lx_client s1 = lx_client s"
proof -
  let ?r = "reuse_count (lx_previous s) prompt"
  obtain s1 kept where cut: "cut_memory L ?r s = (s1, Inr kept)" "kept = ?r \<or> kept = 0"
    "in_step cells (take kept (lx_previous s)) s1" "lx_client s1 = lx_client s"
    using cut_memory_exact [OF laws c] reuse_shared [of "lx_previous s" prompt] by blast
  have "take kept (lx_previous s) = take kept prompt"
    using cut(2) reuse_shared [of "lx_previous s" prompt] by auto
  with cut plain that show thesis by (simp add: evaluate_prompt_def)
qed

lemma triple_evaluate_text:
  assumes "memory_laws L cells" and "media_chunks conversation = None"
  shows "triple (coherent cells) (evaluate_prompt L prompt conversation) (\<lambda>_. in_step cells prompt) (coherent cells)"
proof (rule tripleI)
  fix s s' :: "('a, 'e) llama_context" and kept
  assume c: "coherent cells s" and run: "evaluate_prompt L prompt conversation s = (s', Inr kept)"
  obtain s1 k where e: "evaluate_prompt L prompt conversation s
      = act_bind (decode_tokens L (drop k prompt) True) (\<lambda>_. ret k) s1" "in_step cells (take k prompt) s1"
    using evaluate_text_run [OF assms(1) c assms(2)] by blast
  have "decode_tokens L (drop k prompt) True s1 = (s', Inr ())"
    using run [unfolded e(1)] by (auto simp: act_bind_Inr)
  from tripleD(1) [OF triple_decode [OF assms(1)] e(2) this] show "in_step cells prompt s'" by simp
next
  fix s s' :: "('a, 'e) llama_context" and e
  assume c: "coherent cells s" and run: "evaluate_prompt L prompt conversation s = (s', Inl e)"
  obtain s1 k where ev: "evaluate_prompt L prompt conversation s
      = act_bind (decode_tokens L (drop k prompt) True) (\<lambda>_. ret k) s1" "in_step cells (take k prompt) s1"
    using evaluate_text_run [OF assms(1) c assms(2)] by blast
  have "decode_tokens L (drop k prompt) True s1 = (s', Inl e)"
    using run [unfolded ev(1)] by (auto simp: act_bind_Inl)
  from tripleD(2) [OF triple_decode [OF assms(1)] ev(2) this] show "coherent cells s'" .
qed

lemma evaluate_text_kept:
  assumes "memory_laws L cells" and "coherent cells s" and "media_chunks conversation = None"
    and "evaluate_prompt L prompt conversation s = (s', Inr kept)"
  shows "kept = reuse_count (lx_previous s) prompt \<or> kept = 0"
proof -
  obtain s1 k where e: "evaluate_prompt L prompt conversation s
      = act_bind (decode_tokens L (drop k prompt) True) (\<lambda>_. ret k) s1"
    "k = reuse_count (lx_previous s) prompt \<or> k = 0"
    using evaluate_text_run [OF assms(1-3)] by blast
  have "kept = k" using assms(4) [unfolded e(1)] by (auto simp: act_bind_Inr)
  with e(2) show ?thesis by simp
qed

text \<open>With media, nothing is remembered of the evaluated tokens.\<close>

lemma keeps_forgotten_decode: "keeps (\<lambda>s. lx_previous s = []) (decode_tokens L tokens False)"
proof (induction "length tokens" arbitrary: tokens rule: less_induct)
  case less
  have batch: "keeps (\<lambda>s. lx_previous s = []) (decode_batch L b False)" for b
    unfolding decode_batch_def by (intro triples) (auto simp: keeps_iff split: prod.split)
  show ?case
  proof (cases "tokens = []")
    case True
    then show ?thesis by (simp add: keeps_iff) (simp add: decode_tokens.simps)
  next
    case False
    then have "length (drop (batch_size L) tokens) < length tokens" by (simp add: batch_size_def)
    from keeps_bind [OF batch less [OF this]] False show ?thesis by (simp add: decode_tokens.simps [of L tokens])
  qed
qed

lemma keeps_forgotten_chunks: "keeps (\<lambda>s. lx_previous s = []) (eval_chunks L chunks)"
proof (induction chunks)
  case Nil
  show ?case by (simp add: keeps_iff)
next
  case (Cons c cs)
  show ?case unfolding eval_chunks.simps
    by (intro triples keeps_bind triple_if Cons.IH) (auto simp: keeps_iff split: prod.split)
qed

lemma triple_evaluate_media:
  assumes "media_chunks conversation \<noteq> None"
  shows "triple (coherent cells) (evaluate_prompt L prompt conversation) (\<lambda>_ s. lx_previous s = []) (\<lambda>s. lx_previous s = [])"
proof -
  have "triple (coherent cells) (cut_memory L 0) (\<lambda>_ s. lx_previous s = []) (\<lambda>s. lx_previous s = [])"
    by (rule tripleI) (auto simp: cut_memory_def Let_def split: prod.splits)
  with assms show ?thesis
    by (auto simp: evaluate_prompt_def intro!: triple_bind triple_ret keeps_forgotten_chunks)
qed

text \<open>
  What the loop leaves: the tokens it evaluated are in the memory after \<open>ts\<close>; all sampled
  tokens but the last were evaluated.
\<close>

definition sampled :: "('m \<Rightarrow> int \<Rightarrow> int option) \<Rightarrow> token_list \<Rightarrow> nat \<Rightarrow> int \<Rightarrow> finish_reason \<times> int \<times> 'd \<Rightarrow>
    ('m, 'u) llama_context \<Rightarrow> bool" where
  "sampled cells ts left gen x s \<longleftrightarrow> (\<exists>ev. in_step cells (ts @ ev) s \<and>
     (if left = 0 then ev = [] \<and> fst (snd x) = gen \<and> fst x = FinishLength
      else length ev < left \<and> fst (snd x) = gen + int (length ev) + 1
        \<and> (fst x = FinishStop \<or> fst x = FinishLength \<and> Suc (length ev) = left)))"

lemma sampled_coherent: "sampled cells ts left gen x s \<Longrightarrow> coherent cells s"
  by (auto simp: sampled_def dest: in_step_coherent)

lemma sampled_stop: "in_step cells ts s \<Longrightarrow> sampled cells ts (Suc left) gen (FinishStop, gen + 1, dec) s"
  by (auto simp: sampled_def intro!: exI [of _ "[]"])

lemma sampled_last: "in_step cells ts s \<Longrightarrow> sampled cells ts (Suc 0) gen (FinishLength, gen + 1, dec) s"
  by (auto simp: sampled_def intro!: exI [of _ "[]"])

lemma sampled_next:
  assumes "sampled cells (ts @ [t]) left (gen + 1) x s" and "0 < left"
  shows "sampled cells ts (Suc left) gen x s"
proof -
  obtain ev where ev: "in_step cells ((ts @ [t]) @ ev) s" "length ev < left"
    "fst (snd x) = gen + 1 + int (length ev) + 1"
    "fst x = FinishStop \<or> fst x = FinishLength \<and> Suc (length ev) = left"
    using assms by (auto simp: sampled_def)
  then have "in_step cells (ts @ t # ev) s" by simp
  then show ?thesis using ev(2-4) by (auto simp: sampled_def intro!: exI [of _ "t # ev"])
qed

lemma triple_sampling:
  assumes "memory_laws L cells" and "media_chunks conversation = None"
  shows "triple (in_step cells ts) (sampling L conversation preserved on_text left smp dec gen)
    (sampled cells ts left gen) (coherent cells)"
proof (induction left arbitrary: ts smp dec gen)
  case 0
  show ?case by (auto simp: triple_def sampled_def)
next
  case (Suc left)
  let ?I = "in_step cells ts" and ?Q = "sampled cells ts (Suc left) gen" and ?E = "coherent cells"
  note keep = triple_coherent [OF keeps_check(1)] triple_coherent [OF keeps_consume(1)]
  have rest: "triple ?I (act_bind (if 0 < left then decode_tokens L [t] (media_chunks conversation = None) else ret ())
      (\<lambda>_. sampling L conversation preserved on_text left smp' dec' (gen + 1))) ?Q ?E" for t smp' dec'
  proof (cases "0 < left")
    case True
    have "triple (in_step cells (ts @ [t])) (sampling L conversation preserved on_text left smp' dec' (gen + 1)) ?Q ?E"
      by (rule triple_weaken [OF Suc.IH [of "ts @ [t]"]]) (auto intro: sampled_next [OF _ True])
    then show ?thesis using True assms(2) by (simp add: triple_bind [OF triple_decode [OF assms(1)]])
  next
    case False
    then show ?thesis by (auto simp: triple_def act_bind_def intro: sampled_last)
  qed
  have go: "triple ?I (if \<not> b then ret (FinishStop, gen + 1, dec')
      else act_bind (if 0 < left then decode_tokens L [t] (media_chunks conversation = None) else ret ())
        (\<lambda>_. sampling L conversation preserved on_text left smp' dec' (gen + 1))) ?Q ?E" for t smp' dec' b
    by (intro triple_if rest) (auto simp: triple_def intro: sampled_stop)
  have piece: "triple ?I (case ll_utf8 L piece dec of (text, dec') \<Rightarrow>
      act_bind (offer on_text text) (\<lambda>b. if \<not> b then ret (FinishStop, gen + 1, dec')
        else act_bind (if 0 < left then decode_tokens L [t] (media_chunks conversation = None) else ret ())
          (\<lambda>_. sampling L conversation preserved on_text left smp' dec' (gen + 1)))) ?Q ?E" for t smp' piece
    by (cases "ll_utf8 L piece dec") (simp only: prod.case triple_bind [OF keep(2) go])
  have token: "triple ?I (case x of (token, smp') \<Rightarrow>
      if ll_is_eog L token then ret (FinishStop, gen + 1, dec)
      else act_bind (lift_res (token_bytes L token (token \<in> set preserved))) (\<lambda>piece.
        case ll_utf8 L piece dec of (text, dec') \<Rightarrow>
          act_bind (offer on_text text) (\<lambda>b. if \<not> b then ret (FinishStop, gen + 1, dec')
          else act_bind (if 0 < left then decode_tokens L [token] (media_chunks conversation = None) else ret ())
            (\<lambda>_. sampling L conversation preserved on_text left smp' dec' (gen + 1))))) ?Q ?E" for x
    by (cases x, simp only: prod.case, intro triple_if triple_bind [OF triple_coherent [OF keeps_basic(2)] piece])
      (auto simp: triple_def intro: sampled_stop)
  show ?case unfolding sampling.simps
    by (rule triple_bind [OF keep(1)], rule triple_bind [OF triple_coherent [OF keeps_basic(4)] token])
qed

section \<open>Generations\<close>

lemma keeps_media_sampling:
  assumes "media_chunks conversation \<noteq> None"
  shows "keeps (\<lambda>s. lx_previous s = []) (sampling L conversation preserved on_text left smp dec gen)"
proof (induction left arbitrary: smp dec gen)
  case 0
  show ?case by (simp add: keeps_iff)
next
  case (Suc left)
  have dec: "keeps (\<lambda>s. lx_previous s = [])
      (if 0 < left then decode_tokens L [t] (media_chunks conversation = None) else ret ())" for t
    using assms by (auto intro!: triple_if keeps_forgotten_decode keeps_basic)
  have step: "keeps (\<lambda>s. lx_previous s = []) (case x of (text, dec') \<Rightarrow>
         act_bind (offer on_text text) (\<lambda>go.
         if \<not> go then ret (FinishStop, gen + 1, dec')
         else act_bind (if 0 < left then decode_tokens L [t] (media_chunks conversation = None) else ret ()) (\<lambda>_.
           sampling L conversation preserved on_text left smp' dec' (gen + 1))))" for x t smp'
    by (cases x, simp only: prod.case) (intro triples triple_if dec Suc.IH)
  show ?case unfolding sampling.simps
    by (intro triples, simp only: split_def) (intro triples triple_if step [unfolded split_def])
qed

definition generated_exactly :: "('m \<Rightarrow> int \<Rightarrow> int option) \<Rightarrow> token_list \<Rightarrow> int \<Rightarrow> runtime_result \<Rightarrow>
    ('m, 'u) llama_context \<Rightarrow> bool" where
  "generated_exactly cells prompt limit r s \<longleftrightarrow> (\<exists>tokens. in_step cells (prompt @ tokens) s
     \<and> rr_generated r = int (length tokens) + 1 \<and> rr_generated r \<le> limit
     \<and> (rr_finish r = FinishStop \<or> rr_finish r = FinishLength \<and> rr_generated r = limit))"

lemma generate_parts:
  assumes "generate_impl L prompt opts on_text conversation s = (s', Inr r)"
  obtains s2 s3 biases kept smp preserved reason gen dec b s4
  where "check_request L prompt opts conversation = Inr biases"
    and "evaluate_prompt L prompt conversation (s\<lparr>lx_checks := Suc (lx_checks s)\<rparr>) = (s2, Inr kept)"
    and "make_sampler L biases opts conversation prompt = Inr (smp, preserved)"
    and "sampling L conversation preserved on_text (nat (max_tokens opts)) smp (ll_decoder L) 0 s2 = (s3, Inr (reason, gen, dec))"
    and "offer on_text (utf8_finish L dec) s3 = (s4, Inr b)"
    and "s' = (if media_chunks conversation \<noteq> None then s4\<lparr>lx_previous := []\<rparr> else s4)"
    and "r = \<lparr>rr_finish = reason, rr_generated = gen, rr_cached = int kept\<rparr>"
  using assms unfolding generate_impl_def
  by (fastforce simp: act_bind_Inr check_cancel_def lift_res_def split: if_splits prod.splits)

lemma generate_exact:
  assumes laws: "memory_laws L cells" and c: "coherent cells s" and m: "media_chunks conversation = None"
    and run: "generate_impl L prompt opts on_text conversation s = (s', Inr r)" and pos: "1 \<le> max_tokens opts"
  shows "generated_exactly cells prompt (max_tokens opts) r s'
    \<and> (rr_cached r = int (reuse_count (lx_previous s) prompt) \<or> rr_cached r = 0)
    \<and> prompt \<noteq> [] \<and> int (length prompt) + max_tokens opts \<le> ll_context_size L"
proof -
  obtain s2 s3 biases kept smp preserved reason gen dec b s4
    where req: "check_request L prompt opts conversation = Inr biases"
    and ev: "evaluate_prompt L prompt conversation (s\<lparr>lx_checks := Suc (lx_checks s)\<rparr>) = (s2, Inr kept)"
    and "make_sampler L biases opts conversation prompt = Inr (smp, preserved)"
    and smp: "sampling L conversation preserved on_text (nat (max_tokens opts)) smp (ll_decoder L) 0 s2 = (s3, Inr (reason, gen, dec))"
    and off: "offer on_text (utf8_finish L dec) s3 = (s4, Inr b)"
    and end': "s' = (if media_chunks conversation \<noteq> None then s4\<lparr>lx_previous := []\<rparr> else s4)"
    and r: "r = \<lparr>rr_finish = reason, rr_generated = gen, rr_cached = int kept\<rparr>"
    by (rule generate_parts [OF run])
  have c1: "coherent cells (s\<lparr>lx_checks := Suc (lx_checks s)\<rparr>)" using c by simp
  have "in_step cells prompt s2" by (rule tripleD(1) [OF triple_evaluate_text [OF laws m] c1 ev])
  from tripleD(1) [OF triple_sampling [OF laws m] this smp]
  have "sampled cells prompt (nat (max_tokens opts)) 0 (reason, gen, dec) s3" .
  then obtain tokens where t: "in_step cells (prompt @ tokens) s3" "length tokens < nat (max_tokens opts)"
    "gen = int (length tokens) + 1" "reason = FinishStop \<or> reason = FinishLength \<and> Suc (length tokens) = nat (max_tokens opts)"
    using pos by (auto simp: sampled_def)
  have "in_step cells (prompt @ tokens) s'"
    using keepsD [OF keeps_consume(1) t(1) off] end' m by simp
  moreover have "int (length prompt) + max_tokens opts \<le> ll_context_size L \<and> 0 < int (length prompt)"
    using req m by (auto simp: check_request_def input_length_def media_chunks_def split: if_splits option.splits)
  moreover have "kept = reuse_count (lx_previous s) prompt \<or> kept = 0"
    using evaluate_text_kept [OF laws c1 m ev] by simp
  ultimately show ?thesis using t(2-4) r pos by (auto simp: generated_exactly_def)
qed

lemma keeps_coherent_generate:
  assumes "memory_laws L cells"
  shows "keeps (coherent cells) (generate_impl L prompt opts on_text conversation)"
proof (cases "media_chunks conversation = None")
  case True
  have tail: "triple (sampled cells prompt (nat (max_tokens opts)) 0 x) (case x of (reason, gen, dec) \<Rightarrow>
      act_bind (offer on_text (utf8_finish L dec)) (\<lambda>_.
      act_bind (modify (\<lambda>s. if media_chunks conversation \<noteq> None then s\<lparr>lx_previous := []\<rparr> else s)) (\<lambda>_.
      ret \<lparr>rr_finish = reason, rr_generated = gen, rr_cached = int k\<rparr>))) (\<lambda>_. coherent cells) (coherent cells)" for x k
  proof -
    have "keeps (coherent cells) (case x of (reason, gen, dec) \<Rightarrow>
      act_bind (offer on_text (utf8_finish L dec)) (\<lambda>_.
      act_bind (modify (\<lambda>s. if media_chunks conversation \<noteq> None then s\<lparr>lx_previous := []\<rparr> else s)) (\<lambda>_.
      ret \<lparr>rr_finish = reason, rr_generated = gen, rr_cached = int k\<rparr>)))"
      using True by (cases x, simp only: prod.case) (intro triples, auto simp: keeps_iff)
    then show ?thesis by (rule triple_weaken) (auto dest: sampled_coherent)
  qed
  have smp: "triple (in_step cells prompt) (case x of (smp, preserved) \<Rightarrow>
      act_bind (sampling L conversation preserved on_text (nat (max_tokens opts)) smp (ll_decoder L) 0) (\<lambda>(reason, gen, dec).
      act_bind (offer on_text (utf8_finish L dec)) (\<lambda>_.
      act_bind (modify (\<lambda>s. if media_chunks conversation \<noteq> None then s\<lparr>lx_previous := []\<rparr> else s)) (\<lambda>_.
      ret \<lparr>rr_finish = reason, rr_generated = gen, rr_cached = int k\<rparr>)))) (\<lambda>_. coherent cells) (coherent cells)" for x k
    by (cases x, simp only: prod.case) (rule triple_bind [OF triple_sampling [OF assms True] tail])
  show ?thesis unfolding generate_impl_def
    by (intro triple_bind [OF keeps_check(2)] triple_bind [OF keeps_basic(2)]
        triple_bind [OF triple_evaluate_text [OF assms True]]
        triple_bind [OF triple_coherent [OF keeps_basic(2)] smp])
next
  case False
  let ?N = "\<lambda>s. lx_previous s = []"
  have forget: "keeps ?N (modify (\<lambda>s. if media_chunks conversation \<noteq> None then s\<lparr>lx_previous := []\<rparr> else s))"
    by (auto simp: keeps_iff)
  have tail: "keeps ?N (case x of (smp, preserved) \<Rightarrow>
      act_bind (sampling L conversation preserved on_text (nat (max_tokens opts)) smp (ll_decoder L) 0) (\<lambda>(reason, gen, dec).
      act_bind (offer on_text (utf8_finish L dec)) (\<lambda>_.
      act_bind (modify (\<lambda>s. if media_chunks conversation \<noteq> None then s\<lparr>lx_previous := []\<rparr> else s)) (\<lambda>_.
      ret \<lparr>rr_finish = reason, rr_generated = gen, rr_cached = int k\<rparr>))))" for x k
    by (cases x, simp only: prod.case split_def) (intro triples keeps_media_sampling [OF False] forget)
  have rest: "triple ?N (act_bind (lift_res (make_sampler L biases opts conversation prompt)) (\<lambda>(smp, preserved).
      act_bind (sampling L conversation preserved on_text (nat (max_tokens opts)) smp (ll_decoder L) 0) (\<lambda>(reason, gen, dec).
      act_bind (offer on_text (utf8_finish L dec)) (\<lambda>_.
      act_bind (modify (\<lambda>s. if media_chunks conversation \<noteq> None then s\<lparr>lx_previous := []\<rparr> else s)) (\<lambda>_.
      ret \<lparr>rr_finish = reason, rr_generated = gen, rr_cached = int k\<rparr>)))))
      (\<lambda>_. coherent cells) (coherent cells)" for biases k
    by (rule triple_weaken [OF keeps_bind [OF keeps_basic(2) tail]]) (auto intro: coherent_empty)
  have eval: "triple (coherent cells) (evaluate_prompt L prompt conversation) (\<lambda>_. ?N) (coherent cells)"
    by (rule triple_weaken [OF triple_evaluate_media [OF False]]) (auto intro: coherent_empty)
  show ?thesis unfolding generate_impl_def
    by (intro triple_bind [OF keeps_check(2)] triple_bind [OF keeps_basic(2)] triple_bind [OF eval rest])
qed

end
