(* ===== verification/LlamaProperties.thy ===== *)
theory LlamaProperties
  imports LlamaRules
begin

text \<open>
  The properties of the llama.cpp context, over every history of generations from a new context:
  an evaluated prefix is reused without a trace of what it was evaluated for, and a single tool turn
  delivers nothing after its call. A generation that nothing stops returns (\<open>returns_generate\<close>).
  The sample runtime keeps a memory of positions and samples a fixed sequence of tokens.
\<close>

section \<open>Histories\<close>

datatype ('u, 'k) llama_call =
    CallGenerate token_list generation_options "qstring \<Rightarrow> ('u, bool) act"
  | CallConverse "'k conversation_state option conversation_prompt" generation_options "qstring \<Rightarrow> ('u, bool) act"

fun run_call :: "('m, 's, 'd, 'k) llama \<Rightarrow> ('u, 'k) llama_call \<Rightarrow> ('m, 'u, runtime_result) llama_act" where
  "run_call L (CallGenerate prompt opts on_text) = llama_generate L prompt opts on_text"
| "run_call L (CallConverse prompt opts on_text) = llama_converse L prompt opts on_text"

text \<open>The context after some calls, whether they returned or threw.\<close>

definition after_calls :: "('m, 's, 'd, 'k) llama \<Rightarrow> ('u, 'k) llama_call list \<Rightarrow> ('m, 'u) llama_context \<Rightarrow> ('m, 'u) llama_context" where
  "after_calls L calls s = fold (\<lambda>c s. fst (run_call L c s)) calls s"

lemma keeps_with_turn:
  assumes "keeps (coherent cells) m"
  shows "keeps (coherent cells) (with_turn m)"
proof -
  have "coherent cells (fst (with_turn m s))" if "coherent cells s" for s
  proof -
    let ?t = "\<lparr>lx_memory = lx_memory s, lx_previous = lx_previous s, lx_next = lx_next s,
       lx_checks = lx_checks s, lx_client = (lx_client s, fresh_turn)\<rparr>"
    have "coherent cells ?t" using that by (simp add: coherent_def)
    then have "coherent cells (fst (m ?t))" using assms by (simp add: keeps_iff)
    then show ?thesis by (simp add: with_turn_def coherent_def split_beta)
  qed
  then show ?thesis by (simp add: keeps_iff)
qed

lemma keeps_call: "memory_laws L cells \<Longrightarrow> keeps (coherent cells) (run_call L c)"
  by (cases c) (auto simp: llama_generate_def llama_converse_def keeps_coherent_generate triples
      split: option.split intro!: keeps_with_turn)

lemma coherent_after:
  assumes "memory_laws L cells" and "coherent cells s"
  shows "coherent cells (after_calls L calls s)"
  using assms(2)
proof (induction calls arbitrary: s)
  case Nil
  then show ?case by (simp add: after_calls_def)
next
  case (Cons c calls)
  have "coherent cells (fst (run_call L c s))" using keeps_call [OF assms(1), of c] Cons.prems by (simp add: keeps_iff)
  from Cons.IH [OF this] show ?case by (simp add: after_calls_def)
qed

section \<open>A generation that nothing stops\<close>

definition undisturbed :: "('m, 's, 'd, 'k) llama \<Rightarrow> (qstring \<Rightarrow> ('u, bool) act) \<Rightarrow> bool" where
  "undisturbed L on_text \<longleftrightarrow> (\<forall>n. \<not> ll_cancelled L n) \<and> (\<forall>n batch m. fst (ll_decode L n batch m) = 0)
     \<and> (\<forall>t special. ok (token_bytes L t special)) \<and> (\<forall>t u. ok (snd (on_text t u)))"

definition returns :: "('s, 'a) act \<Rightarrow> bool" where
  "returns m \<longleftrightarrow> (\<forall>s. ok (snd (m s)))"

lemma returns_basic [intro]: "returns (ret x)" "returns (gets f)" "returns (modify g)" "ok r \<Longrightarrow> returns (lift_res r)"
  by (simp_all add: returns_def)

lemma returns_bind [intro]: "returns m \<Longrightarrow> (\<And>x. returns (f x)) \<Longrightarrow> returns (act_bind m f)"
  by (auto simp: returns_def act_bind_def split: prod.split sum.split) (metis ok_simps(2) snd_conv)

lemma returns_check: "undisturbed L on_text \<Longrightarrow> returns (check_cancel L)"
  by (simp add: returns_def check_cancel_def undisturbed_def)

lemma returns_offer: "undisturbed L on_text \<Longrightarrow> returns (offer on_text t)"
  by (simp add: returns_def offer_def consume_def undisturbed_def split_beta)

lemma returns_batch:
  fixes L :: "('m, 's, 'd, 'k) llama" and on_text :: "qstring \<Rightarrow> ('v, bool) act"
  assumes "undisturbed L on_text"
  shows "returns (decode_batch L batch track :: ('m, 'u, unit) llama_act)"
  unfolding returns_def
proof
  fix s :: "('m, 'u) llama_context"
  obtain m where "ll_decode L (Suc (lx_checks s)) (batch_at (lx_next s) batch) (lx_memory s) = (0, m)"
    using assms unfolding undisturbed_def by (metis prod.collapse)
  from decode_batch_run [OF this] assms show "ok (snd (decode_batch L batch track s))"
    by (simp add: undisturbed_def Let_def)
qed

lemma returns_decode:
  assumes "undisturbed L on_text"
  shows "returns (decode_tokens L tokens track)"
proof (induction "length tokens" arbitrary: tokens rule: less_induct)
  case less
  show ?case
  proof (cases "tokens = []")
    case True
    then show ?thesis by (simp add: returns_def) (simp add: decode_tokens.simps)
  next
    case False
    then have "length (drop (batch_size L) tokens) < length tokens" by (simp add: batch_size_def)
    from returns_bind [OF returns_batch [OF assms] less [OF this]] False show ?thesis by (simp add: decode_tokens.simps [of L tokens])
  qed
qed

lemma returns_sampling:
  assumes "undisturbed L on_text"
  shows "returns (sampling L conversation preserved on_text left smp dec gen)"
proof (induction left arbitrary: smp dec gen)
  case (Suc left)
  have bytes: "ok (token_bytes L t special)" for t special using assms by (simp add: undisturbed_def)
  show ?case unfolding sampling.simps
    by (intro returns_bind returns_check [OF assms] returns_basic)
      (auto intro!: returns_bind returns_basic bytes returns_offer [OF assms] returns_decode [OF assms] Suc.IH split: prod.split)
qed auto

lemma returns_generate:
  assumes "undisturbed L on_text" and "ok (check_request L prompt opts None)"
  shows "returns (generate_impl L prompt opts on_text None)"
proof -
  have cut: "returns (cut_memory L k)" for k by (auto simp: returns_def cut_memory_def Let_def split: prod.split)
  have eval: "returns (evaluate_prompt L prompt None)"
    unfolding evaluate_prompt_def media_chunks_def option.case
    by (intro returns_bind cut returns_decode [OF assms(1)] returns_basic)
  show ?thesis unfolding generate_impl_def
    by (intro returns_bind returns_check [OF assms(1)] returns_basic(4) assms(2) eval)
      (auto simp: make_sampler_def intro!: returns_bind returns_basic returns_sampling [OF assms(1)] returns_offer [OF assms(1)])
qed

section \<open>A single tool turn\<close>

definition turn_running :: "(qstring \<Rightarrow> json option) \<Rightarrow> qstring \<Rightarrow> qstring list \<Rightarrow> qstring \<times> tool_turn \<Rightarrow> bool" where
  "turn_running parse prefill tools c \<longleftrightarrow>
     turn_at (fst c) (snd c) \<and> complete_single_tool_turn parse prefill (fst c) tools = None"

definition turn_ended :: "(qstring \<Rightarrow> json option) \<Rightarrow> qstring \<Rightarrow> qstring list \<Rightarrow> qstring \<times> tool_turn \<Rightarrow> bool" where
  "turn_ended parse prefill tools c \<longleftrightarrow>
     tt_yielded (snd c) \<and> complete_single_tool_turn parse prefill (fst c) tools = Some (length (fst c))"

lemma complete_cut:
  assumes "complete_single_tool_turn parse prefill g tools = Some b"
  shows "complete_single_tool_turn parse prefill (take b g) tools = Some b \<and> b \<le> length g"
proof -
  have b: "call_ends parse prefill tools g b" "\<And>b'. call_ends parse prefill tools g b' \<Longrightarrow> b \<le> b'"
    using assms by (auto simp: complete_iff)
  have le: "b \<le> length g" using b(1) closes_at_length by (auto simp: call_ends_def)
  have "call_ends parse prefill tools (take b g) b' \<longleftrightarrow> call_ends parse prefill tools g b'" if "b' \<le> b" for b'
    using call_ends_grows [of b' "take b g" parse prefill tools "drop b g"] that le by simp
  then show ?thesis using b le by (auto simp: complete_iff) (metis nat_le_linear)
qed

lemma running_text:
  assumes "turn_running parse prefill tools (T, t)"
  obtains T' t' go where "tool_text parse prefill tools collect_piece piece (T, t) = ((T', t'), Inr go)"
    and "if go then turn_running parse prefill tools (T', t') else turn_ended parse prefill tools (T', t') \<and> qc CHR ''>'' \<in> set piece"
proof (cases "complete_single_tool_turn parse prefill (T @ piece) tools")
  case None
  have "turn_at T t" "complete_single_tool_turn parse prefill T tools = None"
    using assms by (simp_all add: turn_running_def)
  from tool_text_on [OF this None] None that [of _ _ True] show thesis by (auto simp: turn_running_def)
next
  case (Some b)
  have "turn_at T t" and none: "complete_single_tool_turn parse prefill T tools = None"
    using assms by (simp_all add: turn_running_def)
  from tool_text_end [OF this Some] obtain t'
    where t': "tool_text parse prefill tools collect_piece piece (T, t) = ((take b (T @ piece), t'), Inr False)"
      "tt_yielded t'" by blast
  have "turn_ended parse prefill tools (take b (T @ piece), t')"
    using complete_cut [OF Some] complete_new [OF none Some] t'(2) by (auto simp: turn_ended_def min_def)
  with t'(1) complete_new [OF none Some] that [of _ _ False] show thesis by simp
qed

abbreviation client_is :: "('u \<Rightarrow> bool) \<Rightarrow> ('m, 'u) llama_context \<Rightarrow> bool" where
  "client_is P \<equiv> \<lambda>s. P (lx_client s)"

lemma client_check: "keeps (client_is P) (check_cancel L)"
  by (simp add: keeps_iff check_cancel_def)

lemma client_decode: "keeps (client_is P) (decode_tokens L tokens track)"
proof (induction "length tokens" arbitrary: tokens rule: less_induct)
  case less
  have batch: "keeps (client_is P) (decode_batch L b track)" for b
    unfolding decode_batch_def
    by (intro triples client_check) (auto simp: keeps_iff split: prod.split)
  show ?case
  proof (cases "tokens = []")
    case True
    then show ?thesis by (simp add: keeps_iff) (simp add: decode_tokens.simps)
  next
    case False
    then have "length (drop (batch_size L) tokens) < length tokens" by (simp add: batch_size_def)
    from keeps_bind [OF batch less [OF this]] False show ?thesis by (simp add: decode_tokens.simps [of L tokens])
  qed
qed

lemma client_evaluate: "keeps (client_is P) (evaluate_prompt L prompt conversation)"
proof -
  have cut: "keeps (client_is P) (cut_memory L k)" for k
    by (auto simp: keeps_iff cut_memory_def Let_def split: prod.split)
  have chunks: "keeps (client_is P) (eval_chunks L cs)" for cs
  proof (induction cs)
    case (Cons c cs)
    show ?case unfolding eval_chunks.simps
      by (intro triples client_check triple_if Cons.IH) (auto simp: keeps_iff split: prod.split)
  qed (simp add: keeps_iff)
  show ?thesis unfolding evaluate_prompt_def
    by (auto intro!: triples keeps_bind cut chunks client_decode split: option.split)
qed

lemma offer_running:
  "triple (client_is (turn_running parse prefill tools)) (offer (tool_text parse prefill tools collect_piece) t)
     (\<lambda>go s. if go then turn_running parse prefill tools (lx_client s)
       else turn_ended parse prefill tools (lx_client s) \<and> qc CHR ''>'' \<in> set t) E"
proof (rule tripleI)
  fix s s' :: "('a, qstring \<times> tool_turn) llama_context" and go
  assume r: "turn_running parse prefill tools (lx_client s)"
    and run: "offer (tool_text parse prefill tools collect_piece) t s = (s', Inr go)"
  show "if go then turn_running parse prefill tools (lx_client s')
       else turn_ended parse prefill tools (lx_client s') \<and> qc CHR ''>'' \<in> set t"
  proof (cases "t = []")
    case True
    then show ?thesis using run r by (simp add: offer_def)
  next
    case False
    obtain T tt where c: "lx_client s = (T, tt)" by fastforce
    obtain T' tt' go' where "tool_text parse prefill tools collect_piece t (T, tt) = ((T', tt'), Inr go')"
      "if go' then turn_running parse prefill tools (T', tt') else turn_ended parse prefill tools (T', tt') \<and> qc CHR ''>'' \<in> set t"
      by (rule running_text [OF r [unfolded c]])
    then show ?thesis using run False c by (auto simp: offer_def consume_def)
  qed
next
  fix s s' :: "('a, qstring \<times> tool_turn) llama_context" and e
  assume r: "turn_running parse prefill tools (lx_client s)"
    and run: "offer (tool_text parse prefill tools collect_piece) t s = (s', Inl e)"
  obtain T tt where c: "lx_client s = (T, tt)" by fastforce
  obtain T' tt' go' where "tool_text parse prefill tools collect_piece t (T, tt) = ((T', tt'), Inr go')"
    by (rule running_text [OF r [unfolded c]])
  then show "E s'" using run c by (auto simp: offer_def consume_def split: if_splits)
qed

lemma offer_ended: "keeps (client_is (turn_ended parse prefill tools)) (offer (tool_text parse prefill tools collect_piece) t)"
  by (auto simp: keeps_iff offer_def consume_def turn_ended_def tool_text_def split: prod.split)

text \<open>A turn that has not turn_ended runs on; one that has makes the generation stop.\<close>

definition cut_turn :: "(qstring \<Rightarrow> json option) \<Rightarrow> qstring \<Rightarrow> qstring list \<Rightarrow> ('m, qstring \<times> tool_turn) llama_context \<Rightarrow> bool" where
  "cut_turn parse prefill tools s \<longleftrightarrow>
     turn_running parse prefill tools (lx_client s) \<or> turn_ended parse prefill tools (lx_client s)"

definition stops_turn :: "(qstring \<Rightarrow> json option) \<Rightarrow> qstring \<Rightarrow> qstring list \<Rightarrow> finish_reason \<Rightarrow>
    ('m, qstring \<times> tool_turn) llama_context \<Rightarrow> bool" where
  "stops_turn parse prefill tools reason s \<longleftrightarrow>
     turn_running parse prefill tools (lx_client s) \<or> turn_ended parse prefill tools (lx_client s) \<and> reason = FinishStop"

lemma triple_client:
  assumes "keeps (client_is (turn_running parse prefill tools)) m"
  shows "triple (client_is (turn_running parse prefill tools)) m (\<lambda>_. client_is (turn_running parse prefill tools)) (cut_turn parse prefill tools)"
  by (rule triple_weaken [OF assms]) (auto simp: cut_turn_def)

lemma sampling_turn:
  "triple (client_is (turn_running parse prefill tools))
     (sampling L conversation preserved (tool_text parse prefill tools collect_piece) left smp dec gen)
     (\<lambda>x. stops_turn parse prefill tools (fst x)) (cut_turn parse prefill tools)"
proof (induction left arbitrary: smp dec gen)
  case 0
  show ?case by (simp add: triple_def stops_turn_def)
next
  case (Suc left)
  let ?I = "client_is (turn_running parse prefill tools)" and ?E = "cut_turn parse prefill tools"
    and ?Q = "\<lambda>x. stops_turn parse prefill tools (fst x)"
    and ?next = "\<lambda>t smp' dec'. act_bind (if 0 < left then decode_tokens L [t] (media_chunks conversation = None) else ret ())
      (\<lambda>_. sampling L conversation preserved (tool_text parse prefill tools collect_piece) left smp' dec' (gen + 1))"
  have rest: "triple ?I (?next t smp' dec') ?Q ?E" for t smp' dec'
    by (rule triple_bind [OF triple_client Suc.IH]) (auto intro: triple_if client_decode keeps_basic)
  have go: "triple (\<lambda>s. if b then turn_running parse prefill tools (lx_client s)
        else turn_ended parse prefill tools (lx_client s) \<and> qc CHR ''>'' \<in> set shown)
      (if \<not> b then ret (FinishStop, gen + 1, dec') else ?next t smp' dec') ?Q ?E" for b t smp' dec' shown
    using rest by (cases b) (auto simp: triple_def stops_turn_def)
  have piece: "triple ?I (case x of (text, dec') \<Rightarrow> act_bind (offer (tool_text parse prefill tools collect_piece) text)
      (\<lambda>b. if \<not> b then ret (FinishStop, gen + 1, dec') else ?next t smp' dec')) ?Q ?E" for t smp' x
    by (cases x) (simp only: prod.case triple_bind [OF offer_running go])
  have stop: "triple ?I (ret (FinishStop, n, d)) ?Q ?E" for n d by (simp add: triple_def stops_turn_def)
  have token: "triple ?I (case x of (token, smp') \<Rightarrow>
      if ll_is_eog L token then ret (FinishStop, gen + 1, dec)
      else act_bind (lift_res (token_bytes L token (token \<in> set preserved))) (\<lambda>piece.
        case ll_utf8 L piece dec of (text, dec') \<Rightarrow>
          act_bind (offer (tool_text parse prefill tools collect_piece) text)
            (\<lambda>b. if \<not> b then ret (FinishStop, gen + 1, dec') else ?next token smp' dec'))) ?Q ?E" for x
    by (cases x, simp only: prod.case) (intro triple_if stop triple_bind [OF triple_client [OF keeps_basic(2)] piece])
  show ?case unfolding sampling.simps
    by (rule triple_bind [OF triple_client [OF client_check]], rule triple_bind [OF triple_client [OF keeps_basic(4)] token])
qed

lemma tail_turn:
  "triple (stops_turn parse prefill tools reason) (offer (tool_text parse prefill tools collect_piece) (utf8_finish L dec))
     (\<lambda>_. stops_turn parse prefill tools reason) (cut_turn parse prefill tools)"
proof -
  let ?o = "offer (tool_text parse prefill tools collect_piece) (utf8_finish L dec)"
  have no: "qc CHR ''>'' \<notin> set (utf8_finish L dec)" by (simp add: utf8_finish_def qc_def)
  have run: "triple (client_is (turn_running parse prefill tools)) ?o (\<lambda>_. client_is (turn_running parse prefill tools)) (cut_turn parse prefill tools)"
    by (rule triple_weaken [OF offer_running [of parse prefill tools _ "\<lambda>_. False"]]) (use no in \<open>auto split: if_splits\<close>)
  show ?thesis
    using run offer_ended [of parse prefill tools "utf8_finish L dec"]
    by (fastforce simp: triple_def stops_turn_def cut_turn_def keeps_iff split: prod.splits sum.splits)
qed

lemma generate_cuts_turn:
  "triple (client_is (turn_running parse prefill tools))
     (generate_impl L prompt opts (tool_text parse prefill tools collect_piece) conversation)
     (\<lambda>r. stops_turn parse prefill tools (rr_finish r)) (cut_turn parse prefill tools)"
proof -
  let ?E = "cut_turn parse prefill tools"
  have finish: "triple (stops_turn parse prefill tools reason)
      (act_bind (modify (\<lambda>s. if media_chunks conversation \<noteq> None then s\<lparr>lx_previous := []\<rparr> else s)) (\<lambda>_.
        ret \<lparr>rr_finish = reason, rr_generated = gen, rr_cached = k\<rparr>))
      (\<lambda>r. stops_turn parse prefill tools (rr_finish r)) ?E" for reason gen k
    by (simp add: triple_def act_bind_def stops_turn_def)
  have tail: "triple (stops_turn parse prefill tools (fst x)) (case x of (reason, gen, dec) \<Rightarrow>
      act_bind (offer (tool_text parse prefill tools collect_piece) (utf8_finish L dec)) (\<lambda>_.
      act_bind (modify (\<lambda>s. if media_chunks conversation \<noteq> None then s\<lparr>lx_previous := []\<rparr> else s)) (\<lambda>_.
      ret \<lparr>rr_finish = reason, rr_generated = gen, rr_cached = int k\<rparr>)))
      (\<lambda>r. stops_turn parse prefill tools (rr_finish r)) ?E" for x k
    by (cases x) (simp only: prod.case fst_conv triple_bind [OF tail_turn finish])
  have loop: "triple (client_is (turn_running parse prefill tools)) (case x of (smp, preserved) \<Rightarrow>
      act_bind (sampling L conversation preserved (tool_text parse prefill tools collect_piece) (nat (max_tokens opts)) smp
        (ll_decoder L) 0) (\<lambda>(reason, gen, dec).
      act_bind (offer (tool_text parse prefill tools collect_piece) (utf8_finish L dec)) (\<lambda>_.
      act_bind (modify (\<lambda>s. if media_chunks conversation \<noteq> None then s\<lparr>lx_previous := []\<rparr> else s)) (\<lambda>_.
      ret \<lparr>rr_finish = reason, rr_generated = gen, rr_cached = int k\<rparr>))))
      (\<lambda>r. stops_turn parse prefill tools (rr_finish r)) ?E" for x k
    by (cases x, simp only: prod.case) (rule triple_bind [OF sampling_turn tail])
  show ?thesis unfolding generate_impl_def
    by (intro triple_bind [OF triple_client [OF client_check]] triple_bind [OF triple_client [OF keeps_basic(2)]]
        triple_bind [OF triple_client [OF client_evaluate]] loop)
qed

section \<open>A sample runtime\<close>

text \<open>Memory as a function of positions; the sampler counts, and its third token ends the text.\<close>

definition llama_sample :: "(int \<Rightarrow> int option, int, unit, unit) llama" where
  "llama_sample = \<lparr>ll_qt = no_regex, ll_catalog = generation_catalog, ll_vocab_size = 1000, ll_context_size = 4096,
     ll_batch_rest = 1, ll_cancelled = (\<lambda>_. False),
     ll_seq_rm = (\<lambda>p m. (True, \<lambda>i. if i < p then m i else None)), ll_clear = (\<lambda>_ _. None),
     ll_decode = (\<lambda>_ batch m. (0, \<lambda>i. case map_of batch i of Some t \<Rightarrow> Some t | None \<Rightarrow> m i)),
     ll_eval_chunk = (\<lambda>_ _ p _ m. (0, p, m)), ll_chain = (\<lambda>_. 0), ll_accept = (\<lambda>t n. n),
     ll_sample = (\<lambda>m n. (n, n + 1)), ll_structured = (\<lambda>_. Some 0), ll_structured_accept = (\<lambda>t _ n. n + 1),
     ll_structured_sample = (\<lambda>m n. (n, n)), ll_tokenize = (\<lambda>_. []), ll_is_eog = (\<lambda>t. t = 2),
     ll_piece = (\<lambda>t n special. (1, [65])), ll_decoder = (), ll_utf8 = (\<lambda>bytes d. (map ucast bytes, d)),
     ll_remaining = (\<lambda>_. 0), ll_from_utf8 = map ucast, ll_parse = (\<lambda>_. None)\<rparr>"

lemma sample_laws: "memory_laws llama_sample (\<lambda>m. m)"
  by (auto simp: memory_laws_def llama_sample_def map_of_eq_None_iff split: option.splits)
    (metis image_eqI fst_conv map_of_SomeD)

lemma sample_undisturbed: "(\<And>t u. ok (snd (on_text t u))) \<Longrightarrow> undisturbed llama_sample on_text"
  by (simp add: undisturbed_def llama_sample_def token_bytes_def)

lemma sample_check:
  "prompt \<noteq> [] \<Longrightarrow> length prompt \<le> 3840 \<Longrightarrow> check_request llama_sample prompt default_generation_options None = Inr []"
proof -
  assume p: "prompt \<noteq> []" "length prompt \<le> 3840"
  have "validate_generation_options no_regex generation_catalog default_generation_options (qs ''llama.cpp'') = Inr ()"
    using generation_read(1) [OF generation_catalog_ok default_options_ok] by (simp add: validate_generation_options_def)
  then show ?thesis using p
    by (simp add: check_request_def llama_sample_def input_length_def default_generation_options_def)
qed

lemma sample_returns:
  assumes "prompt \<noteq> []" and "length prompt \<le> 3840" and "\<And>t u. ok (snd (on_text t u))"
  shows "\<exists>s' r. generate_impl llama_sample prompt default_generation_options on_text None s = (s', Inr r)"
proof -
  have "ok (snd (generate_impl llama_sample prompt default_generation_options on_text None s))"
    using returns_generate [OF sample_undisturbed, of on_text prompt default_generation_options] sample_check [OF assms(1,2)] assms(3)
    by (simp add: returns_def)
  then show ?thesis by (metis ok_def prod.collapse)
qed

section \<open>Properties\<close>

text \<open>
  C22. The reuse of an evaluated prefix leaves no trace. After any history of generations in a context, of
  text or with media, returned, cancelled or failed, a generation from a text prompt that returns has run
  on a memory that holds exactly its prompt and then the tokens it sampled, each at its position, nothing
  else: what a new context would hold. All sampled tokens but the last are evaluated; it ends at the
  token limit or because of an end token or the consumer. The count of cached tokens is that of
  the common prefix with what the last generation left, or 0, and all of it fits the context.
\<close>

theorem llama_prefix_reuse:
  assumes "memory_laws L cells" and "media_chunks conversation = None" and "1 \<le> max_tokens opts"
    and "s = after_calls L calls (new_llama_context m u)"
    and "generate_impl L prompt opts on_text conversation s = (s', Inr r)"
  shows "\<exists>tokens. holds_exactly cells (lx_memory s') (prompt @ tokens) \<and> lx_previous s' = prompt @ tokens
      \<and> lx_next s' = int (length (prompt @ tokens)) \<and> length (prompt @ tokens) < nat (ll_context_size L)
      \<and> rr_generated r = int (length tokens) + 1 \<and> rr_generated r \<le> max_tokens opts
      \<and> (rr_finish r = FinishStop \<or> rr_finish r = FinishLength \<and> rr_generated r = max_tokens opts)
      \<and> (rr_cached r = int (reuse_count (lx_previous s) prompt) \<or> rr_cached r = 0)
      \<and> rr_cached r < int (length prompt)"
proof -
  have "coherent cells s" using coherent_after [OF assms(1) coherent_fresh] assms(4) by simp
  from generate_exact [OF assms(1) this assms(2,5,3)]
  have g: "generated_exactly cells prompt (max_tokens opts) r s'"
    "rr_cached r = int (reuse_count (lx_previous s) prompt) \<or> rr_cached r = 0" "prompt \<noteq> []"
    "int (length prompt) + max_tokens opts \<le> ll_context_size L" by auto
  then obtain tokens where "in_step cells (prompt @ tokens) s'" "rr_generated r = int (length tokens) + 1"
    "rr_generated r \<le> max_tokens opts"
    "rr_finish r = FinishStop \<or> rr_finish r = FinishLength \<and> rr_generated r = max_tokens opts"
    by (auto simp: generated_exactly_def)
  moreover have "rr_cached r < int (length prompt)"
    using g(2,3) reuse_shared [of "lx_previous s" prompt] by auto
  ultimately show ?thesis using g(2,4) by (intro exI [of _ tokens]) (simp add: in_step_def)
qed

theorem llama_prefix_reuse_witness:
  "\<exists>s' r tokens. generate_impl llama_sample [1, 2, 4] default_generation_options collect_piece None
      (after_calls llama_sample [CallGenerate [1, 2, 3] default_generation_options collect_piece]
        (new_llama_context (\<lambda>_. None) [])) = (s', Inr r)
    \<and> holds_exactly (\<lambda>m. m) (lx_memory s') ([1, 2, 4] @ tokens)"
proof -
  have "\<exists>s' r. generate_impl llama_sample [1, 2, 4] default_generation_options collect_piece None
      (after_calls llama_sample [CallGenerate [1, 2, 3] default_generation_options collect_piece]
        (new_llama_context (\<lambda>_. None) [])) = (s', Inr r)"
    by (rule sample_returns) (simp_all add: collect_piece_def)
  then obtain s' r where run: "generate_impl llama_sample [1, 2, 4] default_generation_options collect_piece None
      (after_calls llama_sample [CallGenerate [1, 2, 3] default_generation_options collect_piece]
        (new_llama_context (\<lambda>_. None) [])) = (s', Inr r)" by blast
  have "media_chunks None = None" "1 \<le> max_tokens default_generation_options"
    by (simp_all add: media_chunks_def default_generation_options_def)
  from llama_prefix_reuse [OF sample_laws this refl run] show ?thesis using run by blast
qed

text \<open>
  C23. With tools that may be called once, nothing is delivered after the first complete call: however the
  generation ends, the text the consumer has is without a whole call, or it ends exactly where its first
  whole call does, and then a generation that returns has stopped for it.
\<close>

theorem llama_turn_cut:
  assumes "cp_state prompt = Some c" and "cs_single_turn_tools c \<noteq> []" and "lx_client s = []"
    and "llama_converse L prompt opts collect_piece s = (s', r)"
  shows "complete_single_tool_turn (ll_parse L) (ll_from_utf8 L (cs_parser_prompt c)) (lx_client s')
        (cs_single_turn_tools c) = None
    \<or> complete_single_tool_turn (ll_parse L) (ll_from_utf8 L (cs_parser_prompt c)) (lx_client s')
        (cs_single_turn_tools c) = Some (length (lx_client s'))
      \<and> (\<forall>x. r = Inr x \<longrightarrow> rr_finish x = FinishStop)"
proof -
  let ?pre = "ll_from_utf8 L (cs_parser_prompt c)" and ?tools = "cs_single_turn_tools c"
  let ?t = "\<lparr>lx_memory = lx_memory s, lx_previous = lx_previous s, lx_next = lx_next s,
     lx_checks = lx_checks s, lx_client = ([], fresh_turn)\<rparr>"
  let ?m = "generate_impl L (cp_tokens prompt) opts (tool_text (ll_parse L) ?pre ?tools collect_piece) (Some c)"
  obtain t' r' where run: "?m ?t = (t', r')" by fastforce
  have res: "lx_client s' = fst (lx_client t')" "r = r'"
    using assms run by (auto simp: llama_converse_def with_turn_def)
  have start: "turn_running (ll_parse L) ?pre ?tools (lx_client ?t)"
    by (simp add: turn_running_def turn_at_def fresh_turn_def complete_empty)
  show ?thesis
  proof (cases r')
    case (Inl e)
    then have "cut_turn (ll_parse L) ?pre ?tools t'"
      using tripleD(2) [OF generate_cuts_turn, of "ll_parse L" ?pre ?tools ?t] start run by simp
    then show ?thesis using res Inl by (auto simp: cut_turn_def turn_running_def turn_ended_def)
  next
    case (Inr x)
    then have "stops_turn (ll_parse L) ?pre ?tools (rr_finish x) t'"
      using tripleD(1) [OF generate_cuts_turn, of "ll_parse L" ?pre ?tools ?t] start run by simp
    then show ?thesis using res Inr by (auto simp: stops_turn_def turn_running_def turn_ended_def)
  qed
qed

definition tool_state :: "unit conversation_state" where
  "tool_state = \<lparr>cs_grammar = [], cs_grammar_lazy = False, cs_generation_prompt = [], cs_preserved_tokens = [],
     cs_grammar_triggers = [], cs_parser_prompt = [], cs_single_turn_tools = [qs ''f''], cs_chunks = None,
     cs_input_tokens = 0\<rparr>"

theorem llama_turn_cut_witness:
  "\<exists>s' r. llama_converse llama_sample
      \<lparr>cp_tokens = [1], cp_stop = [], cp_state = Some tool_state, cp_input_tokens = 0\<rparr> default_generation_options
      collect_piece (new_llama_context (\<lambda>_. None) []) = (s', r)
    \<and> (complete_single_tool_turn (\<lambda>_. None) [] (lx_client s') [qs ''f''] = None
      \<or> complete_single_tool_turn (\<lambda>_. None) [] (lx_client s') [qs ''f''] = Some (length (lx_client s')))"
proof -
  let ?p = "\<lparr>cp_tokens = [1], cp_stop = [], cp_state = Some tool_state, cp_input_tokens = 0\<rparr>"
  obtain s' r where run: "llama_converse llama_sample ?p default_generation_options collect_piece
      (new_llama_context (\<lambda>_. None) []) = (s', r)" by fastforce
  have "cp_state ?p = Some tool_state" "cs_single_turn_tools tool_state \<noteq> []"
    "lx_client (new_llama_context (\<lambda>_. None :: int option) []) = []"
    by (simp_all add: tool_state_def new_llama_context_def)
  from llama_turn_cut [OF this run] run show ?thesis by (auto simp: llama_sample_def tool_state_def)
qed

end
