(* ===== verification/LlamaTranscript.thy ===== *)
theory LlamaTranscript
  imports LlamaProperties
begin

text \<open>
  The text of a generation, said over the list of the tokens it sampled: each token is drawn from a memory
  that holds the prompt and the tokens before it, the list ends at the first token that ends the text or
  that the consumer refuses, or at the limit, and the consumer gets the decoded bytes of the tokens, in
  order. The loop of \<open>sampling\<close> is shown to produce such a list from every context.
\<close>

section \<open>The tokens\<close>

definition sampled_from :: "('m, 's, 'd, 'k) llama \<Rightarrow> bool \<Rightarrow> ('m \<Rightarrow> int \<Rightarrow> int option) \<Rightarrow> token_list \<Rightarrow> token_list \<Rightarrow>
    's list \<Rightarrow> bool" where
  "sampled_from L structured cells prompt tokens samplers \<longleftrightarrow> length samplers = Suc (length tokens)
     \<and> (\<forall>i < length tokens. \<exists>m. holds_exactly cells m (prompt @ take i tokens)
         \<and> next_token L structured m (samplers ! i) = (tokens ! i, samplers ! Suc i))"

lemma sampled_from_Nil [simp]: "sampled_from L structured cells prompt [] [smp]"
  by (simp add: sampled_from_def)

lemma sampled_from_Cons:
  assumes "holds_exactly cells m prompt" and "next_token L structured m smp = (t, smps ! 0)"
    and "sampled_from L structured cells (prompt @ [t]) tokens smps"
  shows "sampled_from L structured cells prompt (t # tokens) (smp # smps)"
  unfolding sampled_from_def
proof (intro conjI allI impI)
  show "length (smp # smps) = Suc (length (t # tokens))" using assms(3) by (simp add: sampled_from_def)
  fix i assume "i < length (t # tokens)"
  then show "\<exists>m. holds_exactly cells m (prompt @ take i (t # tokens))
      \<and> next_token L structured m ((smp # smps) ! i) = ((t # tokens) ! i, (smp # smps) ! Suc i)"
    using assms by (cases i) (auto simp: sampled_from_def)
qed

section \<open>Their text\<close>

definition piece_of :: "('m, 's, 'd, 'k) llama \<Rightarrow> int list \<Rightarrow> int \<Rightarrow> byte list" where
  "piece_of L preserved t = (case token_bytes L t (t \<in> set preserved) of Inl _ \<Rightarrow> [] | Inr bytes \<Rightarrow> bytes)"

text \<open>The text of pieces given to the incremental decoder one after another, and the decoder then.\<close>

fun feed :: "('m, 's, 'd, 'k) llama \<Rightarrow> int list \<Rightarrow> 'd \<Rightarrow> token_list \<Rightarrow> qstring \<times> 'd" where
  "feed L preserved d [] = ([], d)"
| "feed L preserved d (t # ts) = (case ll_utf8 L (piece_of L preserved t) d of
     (x, d') \<Rightarrow> case feed L preserved d' ts of (y, d'') \<Rightarrow> (x @ y, d''))"

text \<open>A consumer that collects the text and is asked, with all it has, whether it wants more.\<close>

definition collecting :: "(qstring \<Rightarrow> bool) \<Rightarrow> qstring \<Rightarrow> (qstring, bool) act" where
  "collecting wants t u = (u @ t, Inr (wants (u @ t)))"

text \<open>Whether the token at \<open>i\<close> ends the generation: an end token, or its text is the last one wanted.\<close>

definition stops_after :: "('m, 's, 'd, 'k) llama \<Rightarrow> int list \<Rightarrow> (qstring \<Rightarrow> bool) \<Rightarrow> 'd \<Rightarrow> qstring \<Rightarrow> token_list \<Rightarrow> nat \<Rightarrow> bool" where
  "stops_after L preserved wants d u tokens i \<longleftrightarrow> ll_is_eog L (tokens ! i)
     \<or> (let before = fst (feed L preserved d (take i tokens)); now = fst (feed L preserved d (take (Suc i) tokens))
        in now \<noteq> before \<and> \<not> wants (u @ now))"

text \<open>The tokens whose text is delivered: an end token has none.\<close>

definition shown :: "('m, 's, 'd, 'k) llama \<Rightarrow> token_list \<Rightarrow> token_list" where
  "shown L tokens = (if tokens \<noteq> [] \<and> ll_is_eog L (last tokens) then butlast tokens else tokens)"

definition delivered :: "('m, 's, 'd, 'k) llama \<Rightarrow> int list \<Rightarrow> token_list \<Rightarrow> qstring" where
  "delivered L preserved tokens =
     (case feed L preserved (ll_decoder L) (shown L tokens) of (t, d) \<Rightarrow> t @ utf8_finish L d)"

section \<open>The loop\<close>

definition transcript :: "('m, 's, 'd, 'k) llama \<Rightarrow> int list \<Rightarrow> (qstring \<Rightarrow> bool) \<Rightarrow> nat \<Rightarrow> 'd \<Rightarrow> qstring \<Rightarrow> token_list \<Rightarrow>
    finish_reason \<Rightarrow> 'd \<Rightarrow> qstring \<Rightarrow> bool" where
  "transcript L preserved wants left d u tokens reason d' u' \<longleftrightarrow>
     length tokens \<le> left \<and> (tokens = [] \<longrightarrow> left = 0)
   \<and> (\<forall>i. Suc i < length tokens \<longrightarrow> \<not> stops_after L preserved wants d u tokens i)
   \<and> reason = (if tokens \<noteq> [] \<and> stops_after L preserved wants d u tokens (length tokens - 1)
       then FinishStop else FinishLength)
   \<and> (reason = FinishLength \<longrightarrow> length tokens = left)
   \<and> u' = u @ fst (feed L preserved d (shown L tokens)) \<and> d' = snd (feed L preserved d (shown L tokens))"

lemma transcript_none: "transcript L preserved wants 0 d u [] FinishLength d u"
  by (simp add: transcript_def shown_def)

lemma transcript_eog: "ll_is_eog L t \<Longrightarrow> transcript L preserved wants (Suc left) d u [t] FinishStop d u"
  by (simp add: transcript_def shown_def stops_after_def)

lemma transcript_refused:
  assumes "\<not> ll_is_eog L t" and "ll_utf8 L (piece_of L preserved t) d = (x, d')" and "x \<noteq> []" and "\<not> wants (u @ x)"
  shows "transcript L preserved wants (Suc left) d u [t] FinishStop d' (u @ x)"
  using assms by (simp add: transcript_def shown_def stops_after_def)

lemma stops_first:
  assumes "ll_utf8 L (piece_of L preserved t) d = (x, d')"
  shows "stops_after L preserved wants d u (t # tokens) 0 \<longleftrightarrow> ll_is_eog L t \<or> x \<noteq> [] \<and> \<not> wants (u @ x)"
  using assms by (simp add: stops_after_def)

lemma stops_later:
  assumes "ll_utf8 L (piece_of L preserved t) d = (x, d')"
  shows "stops_after L preserved wants d u (t # tokens) (Suc i) \<longleftrightarrow> stops_after L preserved wants d' (u @ x) tokens i"
  using assms by (simp add: stops_after_def Let_def split_beta)

lemma shown_Cons: "\<not> ll_is_eog L t \<Longrightarrow> shown L (t # tokens) = t # shown L tokens"
  by (simp add: shown_def)

lemma transcript_more:
  assumes goes: "\<not> ll_is_eog L t" "x = [] \<or> wants (u @ x)"
    and x: "ll_utf8 L (piece_of L preserved t) d = (x, d')"
    and rest: "transcript L preserved wants left d' (u @ x) tokens reason e v"
  shows "transcript L preserved wants (Suc left) d u (t # tokens) reason e v"
proof -
  let ?stops = "stops_after L preserved wants d u (t # tokens)" and ?stops' = "stops_after L preserved wants d' (u @ x) tokens"
  have rest': "length tokens \<le> left" "tokens = [] \<longrightarrow> left = 0" "\<forall>i. Suc i < length tokens \<longrightarrow> \<not> ?stops' i"
    "reason = (if tokens \<noteq> [] \<and> ?stops' (length tokens - 1) then FinishStop else FinishLength)"
    "reason = FinishLength \<longrightarrow> length tokens = left" "v = (u @ x) @ fst (feed L preserved d' (shown L tokens))" "e = snd (feed L preserved d' (shown L tokens))"
    using rest unfolding transcript_def by blast+
  have first: "\<not> ?stops 0" using goes stops_first [OF x] by blast
  have later: "?stops (Suc i) = ?stops' i" for i by (rule stops_later [OF x])
  have "\<not> ?stops i" if "Suc i < length (t # tokens)" for i
    using that rest'(3) first later by (cases i) auto
  moreover have "?stops (length (t # tokens) - 1) \<longleftrightarrow> tokens \<noteq> [] \<and> ?stops' (length tokens - 1)"
    using first later by (cases tokens) auto
  moreover have "v = u @ fst (feed L preserved d (shown L (t # tokens)))" "e = snd (feed L preserved d (shown L (t # tokens)))"
    unfolding rest'(6,7) shown_Cons [OF goes(1)] by (simp_all add: x split_beta)
  moreover have "length (t # tokens) \<le> Suc left" "t # tokens \<noteq> []"
    "reason = FinishLength \<longrightarrow> length (t # tokens) = Suc left"
    using rest'(1,5) by simp_all
  ultimately show ?thesis using rest'(4) unfolding transcript_def by metis
qed

lemma offer_collecting: "offer (collecting wants) x s = (s\<lparr>lx_client := lx_client s @ x\<rparr>, Inr (x = [] \<or> wants (lx_client s @ x)))"
  by (cases s) (simp add: offer_def consume_def collecting_def)

lemma decode_more:
  assumes "memory_laws L cells" and "in_step cells ts s" and "decode_tokens L tokens True s = (s', Inr ())"
  shows "in_step cells (ts @ tokens) s' \<and> lx_client s' = lx_client s"
  using tripleD(1) [OF triple_decode [OF assms(1)] assms(2,3)]
    keepsD [OF client_decode [of "\<lambda>u. u = lx_client s"] _ assms(3)] by simp

text \<open>One pass of the loop.\<close>

lemma sampling_pass:
  assumes "sampling L conversation preserved (collecting wants) (Suc left) smp dec gen s = (s', Inr (reason, g, d))"
  obtains token smp' where "next_token L (conversation \<noteq> None) (lx_memory s) smp = (token, smp')"
    and "ll_is_eog L token" and "s' = s\<lparr>lx_checks := Suc (lx_checks s)\<rparr>" and "(reason, g, d) = (FinishStop, gen + 1, dec)"
  | token smp' x where "next_token L (conversation \<noteq> None) (lx_memory s) smp = (token, smp')"
    and "\<not> ll_is_eog L token" and "ll_utf8 L (piece_of L preserved token) dec = (x, d)"
    and "x \<noteq> []" and "\<not> wants (lx_client s @ x)"
    and "s' = s\<lparr>lx_checks := Suc (lx_checks s), lx_client := lx_client s @ x\<rparr>" and "(reason, g) = (FinishStop, gen + 1)"
  | token smp' x d1 s1 where "next_token L (conversation \<noteq> None) (lx_memory s) smp = (token, smp')"
    and "\<not> ll_is_eog L token" and "ll_utf8 L (piece_of L preserved token) dec = (x, d1)"
    and "x = [] \<or> wants (lx_client s @ x)"
    and "(if left > 0 then decode_tokens L [token] (media_chunks conversation = None) else ret ())
      (s\<lparr>lx_checks := Suc (lx_checks s), lx_client := lx_client s @ x\<rparr>) = (s1, Inr ())"
    and "sampling L conversation preserved (collecting wants) left smp' d1 (gen + 1) s1 = (s', Inr (reason, g, d))"
proof -
  obtain token smp' where t: "next_token L (conversation \<noteq> None) (lx_memory s) smp = (token, smp')" by fastforce
  let ?s = "s\<lparr>lx_checks := Suc (lx_checks s)\<rparr>"
  have run: "(if ll_is_eog L token then ret (FinishStop, gen + 1, dec)
     else act_bind (lift_res (token_bytes L token (token \<in> set preserved))) (\<lambda>piece.
       case ll_utf8 L piece dec of (text, dec') \<Rightarrow>
         act_bind (offer (collecting wants) text) (\<lambda>go.
         if \<not> go then ret (FinishStop, gen + 1, dec')
         else act_bind (if left > 0 then decode_tokens L [token] (media_chunks conversation = None) else ret ()) (\<lambda>_.
           sampling L conversation preserved (collecting wants) left smp' dec' (gen + 1))))) ?s = (s', Inr (reason, g, d))"
    using assms by (auto simp: act_bind_Inr check_cancel_def t throw_def simp del: not_None_eq split: if_splits)
  show thesis
  proof (cases "ll_is_eog L token")
    case True
    then show thesis using run that(1) [OF t] by simp
  next
    case False
    obtain x d1 where x: "ll_utf8 L (piece_of L preserved token) dec = (x, d1)" by fastforce
    let ?t = "?s\<lparr>lx_client := lx_client s @ x\<rparr>"
    have go: "(if \<not> (x = [] \<or> wants (lx_client s @ x)) then ret (FinishStop, gen + 1, d1)
         else act_bind (if left > 0 then decode_tokens L [token] (media_chunks conversation = None) else ret ()) (\<lambda>_.
           sampling L conversation preserved (collecting wants) left smp' d1 (gen + 1))) ?t = (s', Inr (reason, g, d))"
      using run False x by (auto simp: act_bind_Inr lift_res_def offer_collecting piece_of_def)
    show thesis
    proof (cases "x = [] \<or> wants (lx_client s @ x)")
      case True
      then show thesis using go that(3) [OF t False x True] by (auto simp: act_bind_Inr)
    next
      case no: False
      then show thesis using go x that(2) [OF t False, of x] by auto
    qed
  qed
qed

lemma sampling_transcript:
  assumes laws: "memory_laws L cells" and plain: "media_chunks conversation = None"
  shows "in_step cells ts s \<Longrightarrow>
    sampling L conversation preserved (collecting wants) left smp dec gen s = (s', Inr (reason, g, d)) \<Longrightarrow>
    \<exists>tokens smps. smps ! 0 = smp \<and> sampled_from L (conversation \<noteq> None) cells ts tokens smps
      \<and> g = gen + int (length tokens) \<and> in_step cells (ts @ butlast tokens) s'
      \<and> transcript L preserved wants left dec (lx_client s) tokens reason d (lx_client s')"
proof (induction left arbitrary: ts smp dec gen s)
  case 0
  then show ?case by (intro exI [of _ "[]"] exI [of _ "[smp]"]) (auto simp: transcript_none)
next
  case (Suc left)
  have held: "holds_exactly cells (lx_memory s) ts" using Suc.prems(1) by (simp add: in_step_def)
  note first = sampled_from_Cons [OF held _ sampled_from_Nil, of L "conversation \<noteq> None" smp]
  from Suc.prems(2) show ?case
  proof (cases rule: sampling_pass)
    case (1 token smp')
    then show ?thesis using Suc.prems(1) first [of token smp']
      by (intro exI [of _ "[token]"] exI [of _ "[smp, smp']"]) (simp add: transcript_eog)
  next
    case (2 token smp' x)
    then show ?thesis using Suc.prems(1) first [of token smp'] transcript_refused [of L token preserved dec x d wants "lx_client s" left]
      by (intro exI [of _ "[token]"] exI [of _ "[smp, smp']"]) simp
  next
    case (3 token smp' x d1 s1)
    let ?t = "s\<lparr>lx_checks := Suc (lx_checks s), lx_client := lx_client s @ x\<rparr>"
    have t: "in_step cells ts ?t" using Suc.prems(1) by simp
    show ?thesis
    proof (cases "0 < left")
      case True
      then have s1: "in_step cells (ts @ [token]) s1" "lx_client s1 = lx_client s @ x"
        using decode_more [OF laws t] 3(5) plain by auto
      obtain tokens smps where IH: "smps ! 0 = smp'" "sampled_from L (conversation \<noteq> None) cells (ts @ [token]) tokens smps"
        "g = gen + 1 + int (length tokens)" "in_step cells ((ts @ [token]) @ butlast tokens) s'"
        "transcript L preserved wants left d1 (lx_client s @ x) tokens reason d (lx_client s')"
        using Suc.IH [OF s1(1) 3(6)] s1(2) by auto
      have "tokens \<noteq> []" using IH(5) True by (auto simp: transcript_def)
      then show ?thesis
        using IH sampled_from_Cons [OF held 3(1) [folded IH(1)] IH(2)] transcript_more [OF 3(2,4,3) IH(5)]
        by (intro exI [of _ "token # tokens"] exI [of _ "smp # smps"]) simp
    next
      case False
      then have s': "s' = ?t" "reason = FinishLength" "g = gen + 1" "d = d1" using 3(5,6) by auto
      have "transcript L preserved wants 0 d1 (lx_client s @ x) [] FinishLength d1 (lx_client s @ x)" by (rule transcript_none)
      from transcript_more [OF 3(2,4,3) this] show ?thesis using False first [of token smp'] 3(1) t s'
        by (intro exI [of _ "[token]"] exI [of _ "[smp, smp']"]) simp
    qed
  qed
qed

section \<open>The property\<close>

text \<open>
  C25. The text of a generation is the text of its tokens. After any history of the context, a text generation
  that returns has sampled a list of tokens, at most the limit: the first sampler is the one made for the request
  with its prompt, and each token is drawn with the sampler the previous one left, from a memory that holds
  exactly the prompt and the tokens before it. The list ends at its first end token or the first token after
  whose text the consumer wants no more, then the finish is stop, and otherwise only at the limit, then it is
  length. The consumer gets, after what it had, the bytes of the tokens in order through the incremental
  decoder, without those of an end token, and a replacement character for a code point left incomplete;
  the result counts every token sampled.
\<close>

theorem llama_text_exact:
  assumes "memory_laws L cells" and "media_chunks conversation = None" and "1 \<le> max_tokens opts"
    and "s = after_calls L calls (new_llama_context m u)"
    and "generate_impl L prompt opts (collecting wants) conversation s = (s', Inr r)"
  shows "\<exists>biases preserved tokens samplers. check_request L prompt opts conversation = Inr biases
      \<and> make_sampler L biases opts conversation prompt = Inr (samplers ! 0, preserved)
      \<and> sampled_from L (conversation \<noteq> None) cells prompt tokens samplers
      \<and> rr_generated r = int (length tokens) \<and> tokens \<noteq> [] \<and> length tokens \<le> nat (max_tokens opts)
      \<and> (\<forall>i. Suc i < length tokens \<longrightarrow> \<not> stops_after L preserved wants (ll_decoder L) (lx_client s) tokens i)
      \<and> rr_finish r = (if stops_after L preserved wants (ll_decoder L) (lx_client s) tokens (length tokens - 1)
          then FinishStop else FinishLength)
      \<and> (rr_finish r = FinishLength \<longrightarrow> length tokens = nat (max_tokens opts))
      \<and> lx_client s' = lx_client s @ delivered L preserved tokens
      \<and> lx_previous s' = prompt @ butlast tokens"
proof -
  have c: "coherent cells (s\<lparr>lx_checks := Suc (lx_checks s)\<rparr>)"
    using coherent_after [OF assms(1) coherent_fresh] assms(4) by simp
  obtain s2 s3 biases kept smp preserved reason gen dec b s4
    where req: "check_request L prompt opts conversation = Inr biases"
    and ev: "evaluate_prompt L prompt conversation (s\<lparr>lx_checks := Suc (lx_checks s)\<rparr>) = (s2, Inr kept)"
    and mk: "make_sampler L biases opts conversation prompt = Inr (smp, preserved)"
    and run: "sampling L conversation preserved (collecting wants) (nat (max_tokens opts)) smp (ll_decoder L) 0 s2
      = (s3, Inr (reason, gen, dec))"
    and tail: "offer (collecting wants) (utf8_finish L dec) s3 = (s4, Inr b)"
    and s': "s' = (if media_chunks conversation \<noteq> None then s4\<lparr>lx_previous := []\<rparr> else s4)"
    and r: "r = \<lparr>rr_finish = reason, rr_generated = gen, rr_cached = int kept\<rparr>"
    by (rule generate_parts [OF assms(5)])
  have s2: "in_step cells prompt s2" by (rule tripleD(1) [OF triple_evaluate_text [OF assms(1,2)] c ev])
  have u: "lx_client s2 = lx_client s" using keepsD [OF client_evaluate [of "\<lambda>u. u = lx_client s"] _ ev] by simp
  obtain tokens smps where t: "smps ! 0 = smp" "sampled_from L (conversation \<noteq> None) cells prompt tokens smps"
    "gen = int (length tokens)" "in_step cells (prompt @ butlast tokens) s3"
    and script: "transcript L preserved wants (nat (max_tokens opts)) (ll_decoder L) (lx_client s) tokens reason dec (lx_client s3)"
    using sampling_transcript [OF assms(1,2) s2 run] u by auto
  have ne: "tokens \<noteq> []" using script assms(3) by (auto simp: transcript_def)
  have client: "lx_client s' = lx_client s @ delivered L preserved tokens"
    using tail script s' assms(2)
    by (auto simp: offer_collecting transcript_def delivered_def split_beta)
  have "lx_previous s' = prompt @ butlast tokens"
    using tail t(4) s' assms(2) by (auto simp: offer_collecting in_step_def)
  moreover have "length tokens \<le> nat (max_tokens opts)"
    "\<forall>i. Suc i < length tokens \<longrightarrow> \<not> stops_after L preserved wants (ll_decoder L) (lx_client s) tokens i"
    "reason = FinishLength \<longrightarrow> length tokens = nat (max_tokens opts)"
    using script unfolding transcript_def by blast+
  moreover have "reason = (if stops_after L preserved wants (ll_decoder L) (lx_client s) tokens (length tokens - 1)
      then FinishStop else FinishLength)"
    using script ne unfolding transcript_def by metis
  moreover have rr: "rr_generated r = int (length tokens)" "rr_finish r = reason" using r t(3) by simp_all
  ultimately show ?thesis using req mk [folded t(1)] t(2) client ne unfolding rr(2)
    by - (intro exI conjI, assumption+)
qed

lemma sample_tokens:
  assumes "samplers ! 0 = 0" and "sampled_from llama_sample False cells prompt tokens samplers"
  shows "tokens = map int [0..<length tokens]"
proof -
  have step: "tokens ! i = samplers ! i \<and> samplers ! Suc i = samplers ! i + 1" if "i < length tokens" for i
    using assms(2) that by (auto simp: sampled_from_def next_token_def llama_sample_def)
  have "i \<le> length tokens \<Longrightarrow> samplers ! i = int i" for i
    by (induction i) (use assms(1) step in auto)
  then show ?thesis using step by (intro nth_equalityI) auto
qed

text \<open>The sampler of the sample runtime counts from 0 and 2 ends the text, so two tokens are shown.\<close>

theorem llama_text_exact_witness:
  "\<exists>s' r. generate_impl llama_sample [1, 2, 4] default_generation_options (collecting (\<lambda>_. True)) None
      (after_calls llama_sample [CallGenerate [1, 2, 3] default_generation_options collect_piece]
        (new_llama_context (\<lambda>_. None) [])) = (s', Inr r)
    \<and> rr_finish r = FinishStop \<and> rr_generated r = 3 \<and> lx_previous s' = [1, 2, 4, 0, 1]
    \<and> lx_client s' = lx_client (after_calls llama_sample [CallGenerate [1, 2, 3] default_generation_options collect_piece]
        (new_llama_context (\<lambda>_. None) [])) @ qs ''AA''"
proof -
  let ?s = "after_calls llama_sample [CallGenerate [1, 2, 3] default_generation_options collect_piece]
        (new_llama_context (\<lambda>_. None) [])"
  let ?stops = "stops_after llama_sample [] (\<lambda>_. True) () (lx_client ?s)"
  have "\<exists>s' r. generate_impl llama_sample [1, 2, 4] default_generation_options (collecting (\<lambda>_. True)) None ?s = (s', Inr r)"
    by (rule sample_returns) (simp_all add: collecting_def)
  then obtain s' r where run: "generate_impl llama_sample [1, 2, 4] default_generation_options (collecting (\<lambda>_. True)) None ?s
    = (s', Inr r)" by blast
  have m: "media_chunks None = None" "1 \<le> max_tokens default_generation_options"
    by (simp_all add: media_chunks_def default_generation_options_def)
  from llama_text_exact [OF sample_laws m refl run]
  obtain biases preserved tokens samplers where mk: "make_sampler llama_sample biases default_generation_options None [1, 2, 4]
      = Inr (samplers ! 0, preserved)"
    and t: "sampled_from llama_sample ((None :: unit conversation_state option) \<noteq> None) (\<lambda>m. m) [1, 2, 4] tokens samplers" "tokens \<noteq> []"
    and g: "rr_generated r = int (length tokens)" "lx_previous s' = [1, 2, 4] @ butlast tokens"
      "lx_client s' = lx_client ?s @ delivered llama_sample preserved tokens"
    and st: "\<forall>i. Suc i < length tokens \<longrightarrow> \<not> stops_after llama_sample preserved (\<lambda>_. True) (ll_decoder llama_sample) (lx_client ?s) tokens i"
    and f: "rr_finish r = (if stops_after llama_sample preserved (\<lambda>_. True) (ll_decoder llama_sample) (lx_client ?s) tokens (length tokens - 1)
        then FinishStop else FinishLength)"
      "rr_finish r = FinishLength \<longrightarrow> length tokens = nat (max_tokens default_generation_options)"
    by blast
  have t': "sampled_from llama_sample False (\<lambda>m. m) [1, 2, 4] tokens samplers" using t(1) by simp
  have "samplers ! 0 = 0" using mk by (simp add: make_sampler_def llama_sample_def)
  from sample_tokens [OF this t'] have ts: "tokens ! i = int i" if "i < length tokens" for i
    using that by (metis add_0 nth_map_upt diff_zero)
  have stop: "stops_after llama_sample preserved (\<lambda>_. True) (ll_decoder llama_sample) (lx_client ?s) tokens i \<longleftrightarrow> i = 2"
    if "i < length tokens" for i
    using ts [OF that] by (simp add: stops_after_def Let_def) (simp add: llama_sample_def)
  have three: "length tokens = 3"
  proof (rule ccontr)
    assume no: "length tokens \<noteq> 3"
    moreover have "\<not> 3 < length tokens" using st stop [of 2] by fastforce
    ultimately have "length tokens < 3" by linarith
    then have "rr_finish r = FinishLength" using f(1) stop [of "length tokens - 1"] t(2) by auto
    then show False using f(2) \<open>length tokens < 3\<close> by (simp add: default_generation_options_def)
  qed
  moreover from this have "tokens = [0, 1, 2]"
    using sample_tokens [OF \<open>samplers ! 0 = 0\<close> t'] by (simp add: upt_rec)
  moreover have "length tokens - 1 = 2" using three by simp
  with f(1) stop [of 2] three have "rr_finish r = FinishStop" by simp
  moreover have "delivered llama_sample preserved [0, 1, 2] = qs ''AA''"
    by (simp add: delivered_def shown_def piece_of_def token_bytes_def utf8_finish_def qs_def qc_def llama_sample_def)
  ultimately show ?thesis using run g by (intro exI [of _ s'] exI [of _ r]) simp
qed

end
