(* ===== verification/LlamaModel.thy ===== *)
theory LlamaModel
  imports Llama Runtimes
begin

text \<open>
  The llama.cpp runtime as the runtime manager sees it (\<^verbatim>\<open>LlamaRuntime\<close>, the constructors of
  \<^verbatim>\<open>LlamaModel\<close> and \<^verbatim>\<open>LlamaContext\<close>, and \<^verbatim>\<open>probeLlamaHardware\<close> in
  \<^verbatim>\<open>src/runtimes/LlamaRuntime.cpp\<close>): the devices it offers, its memory estimate from GGUF
  metadata, the checks and the choice of device of a load. What the library and the file system answer is
  the record \<open>native\<close>; \<open>'x\<close> is a loaded native model, \<open>'p\<close> a projector,
  \<open>'c\<close> a native context. The build without the library is \<open>nl_built = False\<close>.
\<close>

section \<open>Options of a model\<close>

definition option_int :: "json_object \<Rightarrow> string \<Rightarrow> int \<Rightarrow> int \<Rightarrow> int \<Rightarrow> int res" where
  "option_int options key fallback low high =
     (let v = jvalue options key; n = to_int v fallback in
      if v = JUndefined then Inr fallback
      else if \<not> is_double v \<or> to_double v \<noteq> of_int n \<or> n < low \<or> n > high
      then throwq InvalidArgument (qs ''Invalid llama option: '' @ qs key)
      else Inr n)"

definition model_threads :: "model_spec \<Rightarrow> int res" where
  "model_threads spec = option_int (spec_options spec) ''threads'' 4 1 512"

definition known_options :: "qstring list" where
  "known_options = map qs [''threads'', ''chat_template'', ''tool_grammar'', ''enable_thinking'', ''embedding_pooling'']"

fun check_option_keys :: "json_object \<Rightarrow> unit res" where
  "check_option_keys [] = Inr ()"
| "check_option_keys ((k, _) # rest) =
     (if k \<notin> set known_options then throwq InvalidArgument (qs ''Unsupported model option: '' @ k)
      else check_option_keys rest)"

definition check_options :: "model_spec \<Rightarrow> unit res" where
  "check_options spec = (let options = spec_options spec in
     bindr (check_option_keys options) (\<lambda>_.
     bindr (model_threads spec) (\<lambda>_.
     bindr (require (\<not> (jhas options ''chat_template'' \<and> \<not> is_string (jvalue options ''chat_template''))) InvalidArgument
       ''chat_template must be a string'') (\<lambda>_.
     bindr (require (\<not> (jhas options ''tool_grammar'' \<and> \<not> is_bool (jvalue options ''tool_grammar''))) InvalidArgument
       ''tool_grammar must be a boolean'') (\<lambda>_.
     bindr (require (\<not> (jhas options ''enable_thinking'' \<and> \<not> is_bool (jvalue options ''enable_thinking''))) InvalidArgument
       ''enable_thinking must be a boolean'') (\<lambda>_.
     require (\<not> (jhas options ''embedding_pooling'' \<and> (\<not> is_string (jvalue options ''embedding_pooling'')
         \<or> to_string (jvalue options ''embedding_pooling'') \<notin> set (map qs [''model'', ''mean'', ''last'', ''cls'']))))
       InvalidArgument ''Invalid embedding_pooling option''))))))"

section \<open>The library\<close>

datatype ggml_type = GgmlGpu | GgmlIntegratedGpu | GgmlOther

record ggml_device =
  gd_registry :: qstring
  gd_name :: qstring
  gd_description :: qstring
  gd_pci :: "qstring option"
  gd_type :: ggml_type
  gd_memory_total :: u64
  gd_free :: u64
  gd_total :: u64
  gd_initializes :: bool

definition ggml_device_id :: "ggml_device \<Rightarrow> qstring" where
  "ggml_device_id d = qs ''llama.cpp/'' @ gd_registry d @ qs ''/'' @ gd_name d"

definition ggml_backend :: "ggml_device \<Rightarrow> compute_backend option" where
  "ggml_backend d = (let name = gd_registry d in
     if name = qs ''MTL'' \<or> to_lower name = to_lower (qs ''Metal'') then Some Metal
     else if to_lower name = to_lower (qs ''CUDA'') then Some Cuda
     else if to_lower name = to_lower (qs ''Vulkan'') then Some Vulkan
     else None)"

datatype gguf_value = GgufString "byte list" | GgufU32 u32 | GgufU64 u64 | GgufOther

type_synonym gguf = "byte list \<Rightarrow> gguf_value option"

record load_params =
  lp_devices :: "ggml_device list"
  lp_gpu_layers :: int
  lp_check_tensors :: bool
  lp_memory_mapped :: bool

record projector_params =
  jp_use_gpu :: bool
  jp_device :: "ggml_device option"
  jp_threads :: int

record context_params =
  xp_context :: int
  xp_batch :: int
  xp_ubatch :: int
  xp_threads :: int
  xp_offload :: bool

record ('x, 'p, 'c) native =
  nl_built :: bool
  nl_head :: "qstring \<Rightarrow> byte list option"
  nl_stat :: "qstring \<Rightarrow> path_info"
  nl_gguf :: "qstring \<Rightarrow> gguf option"
  nl_devices :: "ggml_device list"
  nl_load :: "qstring \<Rightarrow> load_params \<Rightarrow> 'x option"
  nl_projector :: "'x \<Rightarrow> qstring \<Rightarrow> projector_params \<Rightarrow> 'p option"
  nl_context :: "'x \<Rightarrow> context_params \<Rightarrow> 'c option"

record llama_runtime_options =
  lo_memory_map :: bool
  lo_max_gpu_layers :: int
  lo_validate_tensors :: bool

record ('x, 'p) llama_model =
  ld_native :: 'x
  ld_spec :: model_spec
  ld_accelerated :: bool
  ld_projector :: "'p option"

section \<open>Formats, devices, estimates\<close>

definition ascii :: "string \<Rightarrow> byte list" where
  "ascii s = map (\<lambda>c. of_nat (of_char c)) s"

definition llama_supports :: "('x, 'p, 'c) native \<Rightarrow> model_spec \<Rightarrow> bool" where
  "llama_supports N spec =
     (if spec_format spec \<noteq> [] \<and> spec_format spec \<noteq> qs ''gguf'' then False
      else case nl_head N (spec_path spec) of None \<Rightarrow> False | Some head \<Rightarrow> take 4 head = ascii ''GGUF'')"

definition llama_devices :: "bool \<Rightarrow> hardware_info \<Rightarrow> runtime_device list" where
  "llama_devices built hw =
     (if \<not> built then []
      else \<lparr>dev_backend = Cpu, dev_id = []\<rparr> #
        concat (map (\<lambda>g. if starts_with (qs ''llama.cpp/'') (gpu_id g)
            then map (\<lambda>b. \<lparr>dev_backend = b, dev_id = gpu_id g\<rparr>) (available_backends g) else []) (gpus hw)))"

definition gguf_integer :: "gguf \<Rightarrow> byte list \<Rightarrow> string \<Rightarrow> u64 \<Rightarrow> u64" where
  "gguf_integer meta architecture suffix fallback = (case meta (architecture @ ascii suffix) of
     Some (GgufU32 n) \<Rightarrow> ucast n | Some (GgufU64 n) \<Rightarrow> n | _ \<Rightarrow> fallback)"

definition kv_context :: "gguf \<Rightarrow> byte list \<Rightarrow> model_spec \<Rightarrow> int \<Rightarrow> u64 res" where
  "kv_context meta architecture spec slots =
     (let heads = gguf_integer meta architecture ''.attention.head_count'' 0;
          dim = (if heads \<noteq> 0 then gguf_integer meta architecture ''.embedding_length'' 0 div heads else 0)
      in kv_reservation (gguf_integer meta architecture ''.block_count'' 0)
        (gguf_integer meta architecture ''.attention.head_count_kv'' heads)
        (gguf_integer meta architecture ''.attention.key_length'' dim)
        (gguf_integer meta architecture ''.attention.value_length'' dim) (spec_context_tokens spec) slots)"

definition with_projector :: "('x, 'p, 'c) native \<Rightarrow> model_spec \<Rightarrow> memory_estimate \<Rightarrow> memory_estimate res" where
  "with_projector N spec e =
     (if spec_projector_path spec = [] then Inr e
      else case nl_stat N (spec_projector_path spec) of
        RegularFile n \<Rightarrow> Inr (e\<lparr>weights_bytes := weights_bytes e + n,
          overhead_bytes := overhead_bytes e + 128 * 1024 * 1024\<rparr>)
      | _ \<Rightarrow> throw InvalidManifest ''Multimodal projector is missing'')"

definition llama_estimate :: "('x, 'p, 'c) native \<Rightarrow> model_spec \<Rightarrow> int \<Rightarrow> memory_estimate res" where
  "llama_estimate N spec slots =
     bindr (with_projector N spec (base_estimate_memory (nl_stat N) spec slots)) (\<lambda>e.
     if \<not> nl_built N then Inr e
     else case nl_gguf N (spec_path spec) of
       None \<Rightarrow> throw InvalidManifest ''Cannot read GGUF memory metadata''
     | Some meta \<Rightarrow> (case meta (ascii ''general.architecture'') of
         Some (GgufString architecture) \<Rightarrow> bindr (kv_context meta architecture spec slots) (\<lambda>n.
           Inr (if n \<noteq> 0 then e\<lparr>context_bytes := n,
               basis := qs ''GGUF weight file + f16 KV metadata + scratch reserve''\<rparr> else e))
       | _ \<Rightarrow> Inr e))"

section \<open>Loading\<close>

text \<open>The loop that looks for the device; a discrete adapter must have room for one context.\<close>

fun select_device :: "('x, 'p, 'c) native \<Rightarrow> model_spec \<Rightarrow> runtime_device \<Rightarrow> ggml_device list \<Rightarrow> ggml_device list res" where
  "select_device N spec device [] = Inr []"
| "select_device N spec device (d # ds) =
     (if ggml_device_id d = dev_id device \<and> ggml_backend d = Some (dev_backend device)
      then if gd_type d = GgmlGpu \<and> dev_backend device \<noteq> Metal \<and> gd_total d \<noteq> 0
        then bindr (llama_estimate N spec 1) (\<lambda>e. bindr (total_bytes e) (\<lambda>needed.
          if needed > gd_free d
          then throw ResourceLimit ''Insufficient GPU memory for weights, one context and scratch''
          else Inr [d]))
        else Inr [d]
      else select_device N spec device ds)"

definition choose_devices :: "('x, 'p, 'c) native \<Rightarrow> model_spec \<Rightarrow> runtime_device \<Rightarrow> ggml_device list res" where
  "choose_devices N spec device =
     (if dev_backend device \<noteq> Cpu
      then bindr (select_device N spec device (nl_devices N)) (\<lambda>selected.
        if selected = [] then throw RuntimeUnavailable ''Selected llama.cpp device disappeared'' else Inr selected)
      else if dev_id device \<noteq> [] then throw InvalidArgument ''CPU device id must be empty''
      else Inr [])"

definition init_model :: "('x, 'p, 'c) native \<Rightarrow> 'x \<Rightarrow> model_spec \<Rightarrow> bool \<Rightarrow> ggml_device list \<Rightarrow> ('x, 'p) llama_model res" where
  "init_model N x spec accelerated selected =
     (if spec_projector_path spec = []
      then Inr \<lparr>ld_native = x, ld_spec = spec, ld_accelerated = accelerated, ld_projector = None\<rparr>
      else bindr (model_threads spec) (\<lambda>threads.
        case nl_projector N x (spec_projector_path spec) \<lparr>jp_use_gpu = accelerated,
            jp_device = (case selected of [] \<Rightarrow> None | d # _ \<Rightarrow> Some d), jp_threads = threads\<rparr> of
          None \<Rightarrow> throw RuntimeFailure ''Cannot load native multimodal projector''
        | Some p \<Rightarrow> Inr \<lparr>ld_native = x, ld_spec = spec, ld_accelerated = accelerated, ld_projector = Some p\<rparr>))"

definition init_context :: "('x, 'p, 'c) native \<Rightarrow> ('x, 'p) llama_model \<Rightarrow> 'c res" where
  "init_context N m = (let n = spec_context_tokens (ld_spec m) in
     bindr (model_threads (ld_spec m)) (\<lambda>threads.
     case nl_context N (ld_native m) \<lparr>xp_context = n, xp_batch = min n 512, xp_ubatch = min n 128,
         xp_threads = threads, xp_offload = ld_accelerated m\<rparr> of
       None \<Rightarrow> throw RuntimeFailure ''llama.cpp context creation failed''
     | Some c \<Rightarrow> Inr c))"

definition create_context :: "('x, 'p, 'c) native \<Rightarrow> bool \<Rightarrow> ('x, 'p) llama_model \<Rightarrow> 'c res" where
  "create_context N cancelled m =
     (if cancelled then throw Cancelled ''Request cancelled'' else init_context N m)"

text \<open>The token is checked after the native load and before the trial context.\<close>

definition llama_load :: "('x, 'p, 'c) native \<Rightarrow> llama_runtime_options \<Rightarrow> (nat \<Rightarrow> bool) \<Rightarrow> model_spec \<Rightarrow> runtime_device \<Rightarrow>
    ('x, 'p) llama_model res" where
  "llama_load N opts cancelled spec device =
     (if \<not> nl_built N then throw RuntimeUnavailable ''Rebuild with IILOCALLLM_WITH_LLAMA=ON''
      else bindr (case nl_stat N (spec_path spec) of RegularFile _ \<Rightarrow> Inr ()
          | _ \<Rightarrow> throw NotFound ''Local GGUF file not found'') (\<lambda>_.
        bindr (check_options spec) (\<lambda>_.
        bindr (choose_devices N spec device) (\<lambda>selected.
        let layers = (if dev_backend device \<noteq> Cpu then lo_max_gpu_layers opts else 0);
            accelerated = (dev_backend device \<noteq> Cpu \<and> layers \<noteq> 0) in
        let loaded = nl_load N (spec_path spec) \<lparr>lp_devices = selected, lp_gpu_layers = layers,
            lp_check_tensors = lo_validate_tensors opts, lp_memory_mapped = lo_memory_map opts\<rparr> in
        if cancelled 0 then throw Cancelled ''Request cancelled''
        else case loaded of
          None \<Rightarrow> throw RuntimeFailure ''llama.cpp could not load GGUF model''
        | Some x \<Rightarrow> bindr (init_model N x spec accelerated selected) (\<lambda>m.
            if accelerated then bindr (create_context N (cancelled 1) m) (\<lambda>_. Inr m) else Inr m)))))"

text \<open>The runtime object; its constructor refuses a layer count below \<open>-1\<close>.\<close>

definition create_llama_runtime :: "('x, 'p, 'c) native \<Rightarrow> llama_runtime_options \<Rightarrow> (nat \<Rightarrow> bool) \<Rightarrow>
    ('x, 'p) llama_model runtime res" where
  "create_llama_runtime N opts cancelled =
     (if lo_max_gpu_layers opts < - 1 then throw InvalidArgument ''maxGpuLayers must be -1 or nonnegative''
      else Inr \<lparr>rt_id = qs ''llama.cpp'', rt_supports = llama_supports N, rt_devices = llama_devices (nl_built N),
        rt_estimate = llama_estimate N,
        rt_load = (\<lambda>spec device. bindr (llama_load N opts cancelled spec device) (\<lambda>m. Inr (Some m)))\<rparr>)"

section \<open>The probe\<close>

text \<open>What the platform probe observed of the same adapter, and what the library adds.\<close>

definition same_adapter :: "ggml_device \<Rightarrow> gpu_info \<Rightarrow> bool" where
  "same_adapter d observed \<longleftrightarrow> gpu_name observed = gd_description d
     \<or> (case gd_pci d of None \<Rightarrow> False | Some i \<Rightarrow> gpu_id observed = qs ''pci/'' @ i)"

definition take_observed :: "gpu_info list \<Rightarrow> ggml_device \<Rightarrow> gpu_info \<Rightarrow> gpu_info" where
  "take_observed observed d g = (case find (same_adapter d) observed of
     None \<Rightarrow> g
   | Some v \<Rightarrow> g\<lparr>gpu_vendor := gpu_vendor v,
       unified_memory := (if unified_memory v \<noteq> None then unified_memory v else unified_memory g),
       vram_bytes := vram_bytes v, recommended_working_set_bytes := recommended_working_set_bytes v\<rparr>)"

definition with_memory :: "compute_backend \<Rightarrow> ggml_device \<Rightarrow> gpu_info \<Rightarrow> gpu_info" where
  "with_memory backend d g =
     (let g1 = (if backend = Metal
          then if recommended_working_set_bytes g = None \<and> gd_memory_total d \<noteq> 0
            then g\<lparr>recommended_working_set_bytes := Some (gd_memory_total d)\<rparr> else g
          else if unified_memory g = Some False \<and> gd_memory_total d \<noteq> 0
            then g\<lparr>vram_bytes := Some (gd_memory_total d)\<rparr> else g)
      in if unified_memory g1 = Some True then g1\<lparr>vram_bytes := None\<rparr> else g1)"

definition probe_device :: "gpu_info list \<Rightarrow> ggml_device \<Rightarrow> hardware_info \<Rightarrow> hardware_info" where
  "probe_device observed d hw = (case ggml_backend d of
     None \<Rightarrow> hw
   | Some backend \<Rightarrow>
       if gd_type d = GgmlOther then hw
       else let g = with_memory backend d (take_observed observed d
              \<lparr>gpu_id = ggml_device_id d, gpu_name = gd_description d,
               gpu_vendor = (if backend = Cuda then Nvidia else vendor_of_name (gd_description d)),
               vram_bytes = None, unified_memory = Some (gd_type d = GgmlIntegratedGpu),
               recommended_working_set_bytes = None, available_backends = []\<rparr>)
         in if gd_initializes d
            then hw\<lparr>gpus := gpus hw @ [g\<lparr>available_backends := available_backends g @ [backend]\<rparr>]\<rparr>
            else hw\<lparr>diagnostics := diagnostics hw @ [qs ''Backend initialization failed: '' @ gpu_id g],
              gpus := gpus hw @ [g]\<rparr>)"

definition probe_llama_hardware :: "('x, 'p, 'c) native \<Rightarrow> hardware_info \<Rightarrow> hardware_info" where
  "probe_llama_hardware N hw =
     (if \<not> nl_built N
      then hw\<lparr>diagnostics := diagnostics hw
        @ [qs ''llama.cpp is not compiled; its CUDA/Vulkan/Metal devices are unavailable'']\<rparr>
      else fold (probe_device (gpus hw)) (nl_devices N) hw)"

section \<open>What the probe lists can be selected\<close>

text \<open>An adapter the probe appended: a native device with its id and its one backend, if it starts.\<close>

definition probed_from :: "ggml_device list \<Rightarrow> gpu_info \<Rightarrow> bool" where
  "probed_from ds g \<longleftrightarrow> (\<exists>d \<in> set ds. gpu_id g = ggml_device_id d \<and> (\<exists>b. ggml_backend d = Some b
     \<and> available_backends g = (if gd_initializes d then [b] else []))
     \<and> (unified_memory g = Some True \<longrightarrow> vram_bytes g = None))"

lemma probe_device_gpus:
  "gpus (probe_device observed d hw) = gpus hw
   \<or> (\<exists>g. gpus (probe_device observed d hw) = gpus hw @ [g] \<and> probed_from [d] g)"
  by (cases "ggml_backend d")
    (auto simp: probe_device_def Let_def probed_from_def with_memory_def take_observed_def split: option.split)

lemma probe_fold: "\<exists>new. gpus (fold (probe_device observed) ds hw) = gpus hw @ new \<and> (\<forall>g \<in> set new. probed_from ds g)"
proof (induction ds arbitrary: hw)
  case Nil
  then show ?case by simp
next
  case (Cons d ds)
  obtain new where new: "gpus (fold (probe_device observed) ds (probe_device observed d hw))
      = gpus (probe_device observed d hw) @ new" "\<forall>g \<in> set new. probed_from ds g"
    using Cons.IH by blast
  have more: "probed_from (d # ds) g" if "probed_from ds g \<or> probed_from [d] g" for g
    using that by (auto simp: probed_from_def)
  from probe_device_gpus [of observed d hw] show ?case
  proof
    assume "gpus (probe_device observed d hw) = gpus hw"
    then show ?thesis using new more by (intro exI [of _ new]) auto
  next
    assume "\<exists>g. gpus (probe_device observed d hw) = gpus hw @ [g] \<and> probed_from [d] g"
    then obtain g where "gpus (probe_device observed d hw) = gpus hw @ [g]" "probed_from [d] g" by blast
    then show ?thesis using new more by (intro exI [of _ "g # new"]) auto
  qed
qed

lemma ggml_backend_not_cpu: "ggml_backend d \<noteq> Some Cpu"
  by (auto simp: ggml_backend_def Let_def)

lemma select_device_finds:
  assumes "d \<in> set ds" and "ggml_device_id d = dev_id device" and "ggml_backend d = Some (dev_backend device)"
  shows "select_device N spec device ds \<noteq> Inr []"
  using assms by (induction ds) auto

lemma select_device_one:
  "select_device N spec device ds = Inr xs \<Longrightarrow> xs = [] \<or> (\<exists>d \<in> set ds. xs = [d] \<and> ggml_device_id d = dev_id device
     \<and> ggml_backend d = Some (dev_backend device)
     \<and> (gd_type d = GgmlGpu \<and> dev_backend device \<noteq> Metal \<and> gd_total d \<noteq> 0 \<longrightarrow>
        (\<exists>e n. llama_estimate N spec 1 = Inr e \<and> total_bytes e = Inr n \<and> n \<le> gd_free d)))"
  by (induction ds) (auto split: if_splits)

lemma not_unavailable_parts:
  "kv_loop fs acc = Inl e \<Longrightarrow> \<exists>m. e = Error ResourceLimit m"
  "total_bytes est = Inl e \<Longrightarrow> \<exists>m. e = Error ResourceLimit m"
  by (induction fs acc rule: kv_loop.induct) (auto simp: throw_def total_bytes_def split: if_splits)

lemma estimate_error: "llama_estimate N spec slots = Inl e \<Longrightarrow> \<exists>c m. e = Error c m \<and> c \<noteq> RuntimeUnavailable"
proof -
  have kv: "\<exists>c m. e = Error c m \<and> c \<noteq> RuntimeUnavailable" if "kv_context meta a spec slots = Inl e" for meta a e
    using that not_unavailable_parts(1)
    by (fastforce simp: kv_context_def Let_def kv_reservation_def throw_def split: if_splits)
  have pr: "\<exists>c m. e = Error c m \<and> c \<noteq> RuntimeUnavailable" if "with_projector N spec est = Inl e" for est e
    using that by (auto simp: with_projector_def throw_def split: if_splits path_info.splits)
  assume "llama_estimate N spec slots = Inl e"
  then show ?thesis
    using kv pr by (auto simp: llama_estimate_def bindr_Inl_iff throw_def split: if_splits option.splits gguf_value.splits)
qed

lemma select_device_error: "select_device N spec device ds = Inl e \<Longrightarrow> \<exists>c m. e = Error c m \<and> c \<noteq> RuntimeUnavailable"
proof (induction ds)
  case (Cons d ds)
  then show ?case
    using estimate_error [of N spec 1] not_unavailable_parts(2)
    by (fastforce simp: bindr_Inl_iff throw_def split: if_splits)
qed simp

lemma offered_device:
  assumes "\<forall>g \<in> set (gpus hw). \<not> starts_with (qs ''llama.cpp/'') (gpu_id g)"
    and "device \<in> set (llama_devices (nl_built N) (probe_llama_hardware N hw))"
  shows "nl_built N \<and> (device = \<lparr>dev_backend = Cpu, dev_id = []\<rparr>
    \<or> (\<exists>d \<in> set (nl_devices N). ggml_device_id d = dev_id device
        \<and> ggml_backend d = Some (dev_backend device) \<and> gd_initializes d))"
proof -
  have built: "nl_built N" using assms(2) by (simp add: llama_devices_def split: if_splits)
  obtain new where new: "gpus (fold (probe_device (gpus hw)) (nl_devices N) hw) = gpus hw @ new"
    "\<forall>g \<in> set new. probed_from (nl_devices N) g"
    using probe_fold by blast
  from assms(2) built consider "device = \<lparr>dev_backend = Cpu, dev_id = []\<rparr>"
    | g b where "g \<in> set (gpus hw @ new)" "starts_with (qs ''llama.cpp/'') (gpu_id g)" "b \<in> set (available_backends g)"
      "device = \<lparr>dev_backend = b, dev_id = gpu_id g\<rparr>"
    by (auto simp: llama_devices_def probe_llama_hardware_def new split: if_splits)
  then show ?thesis
  proof cases
    case 2
    then have "probed_from (nl_devices N) g" using assms(1) new(2) by auto
    then show ?thesis using 2 built by (auto simp: probed_from_def split: if_splits)
  qed (use built in simp)
qed

text \<open>
  C29. Every device the runtime offers after the probe can be selected: the CPU device, or a native
  device of that id and backend which started when probed. So a load on an offered device never says that the
  device disappeared, and one it selects is that device. It needs that the platform's own adapter ids
  are not of the form \<open>llama.cpp/\<close>, and that the platform probe lists no backends.
\<close>

theorem llama_devices_selectable:
  assumes "\<forall>g \<in> set (gpus hw). \<not> starts_with (qs ''llama.cpp/'') (gpu_id g)"
    and "device \<in> set (llama_devices (nl_built N) (probe_llama_hardware N hw))"
  shows "nl_built N \<and> (dev_backend device = Cpu \<and> dev_id device = [] \<and> choose_devices N spec device = Inr []
    \<or> dev_backend device \<noteq> Cpu \<and> (\<exists>d \<in> set (nl_devices N). ggml_device_id d = dev_id device
        \<and> ggml_backend d = Some (dev_backend device) \<and> gd_initializes d)
      \<and> choose_devices N spec device \<noteq> throw RuntimeUnavailable ''Selected llama.cpp device disappeared''
      \<and> (\<forall>xs. choose_devices N spec device = Inr xs \<longrightarrow> (\<exists>d \<in> set (nl_devices N). xs = [d]
          \<and> ggml_device_id d = dev_id device \<and> ggml_backend d = Some (dev_backend device))))"
proof -
  from offered_device [OF assms] have built: "nl_built N"
    and dev: "device = \<lparr>dev_backend = Cpu, dev_id = []\<rparr> \<or> (\<exists>d \<in> set (nl_devices N). ggml_device_id d = dev_id device
        \<and> ggml_backend d = Some (dev_backend device) \<and> gd_initializes d)" by auto
  from dev show ?thesis
  proof
    assume "device = \<lparr>dev_backend = Cpu, dev_id = []\<rparr>"
    then show ?thesis using built by (simp add: choose_devices_def)
  next
    assume "\<exists>d \<in> set (nl_devices N). ggml_device_id d = dev_id device
        \<and> ggml_backend d = Some (dev_backend device) \<and> gd_initializes d"
    then obtain d where d: "d \<in> set (nl_devices N)" "ggml_device_id d = dev_id device"
      "ggml_backend d = Some (dev_backend device)" "gd_initializes d" by blast
    have cpu: "dev_backend device \<noteq> Cpu" using d(3) ggml_backend_not_cpu [of d] by auto
    have "choose_devices N spec device = select_device N spec device (nl_devices N)"
      using select_device_finds [OF d(1-3), of N spec] cpu
      by (cases "select_device N spec device (nl_devices N)") (auto simp: choose_devices_def)
    moreover have "select_device N spec device (nl_devices N) \<noteq> throw RuntimeUnavailable q" for q
      using select_device_error [of N spec device] by (auto simp: throw_def)
    moreover have "\<exists>d \<in> set (nl_devices N). xs = [d] \<and> ggml_device_id d = dev_id device
        \<and> ggml_backend d = Some (dev_backend device)" if "select_device N spec device (nl_devices N) = Inr xs" for xs
      using select_device_one [OF that] select_device_finds [OF d(1-3), of N spec] that by auto
    ultimately show ?thesis using d cpu built by auto
  qed
qed

definition cuda_device :: ggml_device where
  "cuda_device = \<lparr>gd_registry = qs ''CUDA'', gd_name = qs ''CUDA0'', gd_description = qs ''NVIDIA'', gd_pci = None,
     gd_type = GgmlGpu, gd_memory_total = 2 ^ 33, gd_free = 2 ^ 33, gd_total = 2 ^ 33, gd_initializes = True\<rparr>"

definition sample_native :: "(unit, unit, unit) native" where
  "sample_native = \<lparr>nl_built = True, nl_head = (\<lambda>_. Some (ascii ''GGUF'')), nl_stat = (\<lambda>_. RegularFile 1024),
     nl_gguf = (\<lambda>_. Some (\<lambda>_. None)), nl_devices = [cuda_device], nl_load = (\<lambda>_ _. Some ()),
     nl_projector = (\<lambda>_ _ _. Some ()), nl_context = (\<lambda>_ _. Some ())\<rparr>"

abbreviation cuda0 :: runtime_device where
  "cuda0 \<equiv> \<lparr>dev_backend = Cuda, dev_id = qs ''llama.cpp/CUDA/CUDA0''\<rparr>"

lemma sample_fields:
  "nl_built sample_native" "nl_devices sample_native = [cuda_device]" "nl_stat sample_native = (\<lambda>_. RegularFile 1024)"
  "nl_load sample_native = (\<lambda>_ _. Some ())" "nl_context sample_native = (\<lambda>_ _. Some ())"
  "gd_type cuda_device = GgmlGpu" "gd_free cuda_device = 2 ^ 33" "gd_total cuda_device = 2 ^ 33"
  by (simp_all add: sample_native_def cuda_device_def)

lemma sample_backend: "ggml_backend cuda_device = Some Cuda" "ggml_device_id cuda_device = qs ''llama.cpp/CUDA/CUDA0''"
proof -
  have "to_lower (qs ''CUDA'') = qs ''cuda''" "to_lower (qs ''Metal'') = qs ''metal''" by code_simp+
  then show "ggml_backend cuda_device = Some Cuda" by (simp add: ggml_backend_def cuda_device_def Let_def)
  show "ggml_device_id cuda_device = qs ''llama.cpp/CUDA/CUDA0''"
    by (simp add: ggml_device_id_def cuda_device_def qs_append [symmetric])
qed

definition sample_llama_spec :: model_spec where
  "sample_llama_spec = \<lparr>spec_id = qs ''m'', spec_path = qs ''/m.gguf'', spec_context_tokens = 4096,
     spec_options = [(qs ''threads'', JNum 8)], spec_format = [], spec_projector_path = []\<rparr>"

theorem llama_devices_selectable_witness:
  "cuda0 \<in> set (llama_devices True (probe_llama_hardware sample_native empty_hardware))
    \<and> choose_devices sample_native sample_llama_spec cuda0
      \<noteq> throw RuntimeUnavailable ''Selected llama.cpp device disappeared''"
proof -
  have offered: "cuda0 \<in> set (llama_devices (nl_built sample_native) (probe_llama_hardware sample_native empty_hardware))"
    using sample_backend
    by (simp add: llama_devices_def probe_llama_hardware_def sample_native_def probe_device_def empty_hardware_def
        Let_def with_memory_def take_observed_def) (simp add: cuda_device_def)
  have "\<forall>g \<in> set (gpus empty_hardware). \<not> starts_with (qs ''llama.cpp/'') (gpu_id g)"
    by (simp add: empty_hardware_def)
  from llama_devices_selectable [OF this offered, of sample_llama_spec] offered show ?thesis by (simp add: sample_native_def)
qed

section \<open>What a load has checked\<close>

lemma option_int_range: "option_int options key fallback low high = Inr n \<Longrightarrow> low \<le> fallback \<Longrightarrow> fallback \<le> high \<Longrightarrow>
    low \<le> n \<and> n \<le> high \<and> (n = fallback \<or> jvalue options key = JNum (of_int n))"
  by (cases "jvalue options key") (auto simp: option_int_def Let_def split: if_splits)

lemma option_keys_known: "check_option_keys options = Inr () \<longleftrightarrow> fst ` set options \<subseteq> set known_options"
  by (induction options) (auto split: if_splits)

lemma init_model_fields:
  "init_model N x spec accelerated selected = Inr m \<Longrightarrow> ld_spec m = spec \<and> ld_accelerated m = accelerated
     \<and> (ld_projector m = None \<longleftrightarrow> spec_projector_path spec = [])"
  by (auto simp: init_model_def split: if_splits option.splits)

text \<open>
  What holds of a model that loaded. The build has the library and the file exists; every option is
  known and of its type, the threads are from 1 to 512. On the CPU no device is given and nothing is
  offloaded; else the model is on a native device of the id and backend asked for, and on a discrete
  adapter that reports its memory the whole estimate for one context, computed without overflow, is
  within what is free. A projector is loaded just when the model names one, and an accelerated
  model has had a context allocated on its device.
\<close>

theorem llama_load_checked:
  assumes "llama_load N opts cancelled spec device = Inr m"
  shows "nl_built N \<and> (\<exists>n. nl_stat N (spec_path spec) = RegularFile n)
    \<and> fst ` set (spec_options spec) \<subseteq> set known_options
    \<and> (\<exists>n. model_threads spec = Inr n \<and> 1 \<le> n \<and> n \<le> 512)
    \<and> ld_spec m = spec \<and> (ld_projector m = None \<longleftrightarrow> spec_projector_path spec = [])
    \<and> (if dev_backend device = Cpu then dev_id device = [] \<and> \<not> ld_accelerated m
       else (\<exists>d \<in> set (nl_devices N). ggml_device_id d = dev_id device \<and> ggml_backend d = Some (dev_backend device)
           \<and> (gd_type d = GgmlGpu \<and> dev_backend device \<noteq> Metal \<and> gd_total d \<noteq> 0 \<longrightarrow>
              (\<exists>e n. llama_estimate N spec 1 = Inr e \<and> total_bytes e = Inr n \<and> n \<le> gd_free d)))
         \<and> ld_accelerated m = (lo_max_gpu_layers opts \<noteq> 0)
         \<and> (ld_accelerated m \<longrightarrow> (\<exists>c. init_context N m = Inr c)))"
proof -
  have built: "nl_built N" using assms by (simp add: llama_load_def split: if_splits)
  from assms obtain n selected where stat: "nl_stat N (spec_path spec) = RegularFile n"
    and options: "check_options spec = Inr ()" and sel: "choose_devices N spec device = Inr selected"
    using built by (auto simp: llama_load_def split: path_info.splits)
  let ?acc = "dev_backend device \<noteq> Cpu \<and> (if dev_backend device \<noteq> Cpu then lo_max_gpu_layers opts else 0) \<noteq> 0"
  obtain x where x: "init_model N x spec ?acc selected = Inr m" "?acc \<longrightarrow> (\<exists>c. init_context N m = Inr c)"
    using assms built stat options sel
    by (auto simp: llama_load_def Let_def create_context_def split: if_splits option.splits)
  obtain k where k: "model_threads spec = Inr k" and keys: "check_option_keys (spec_options spec) = Inr ()"
    using options by (auto simp: check_options_def Let_def)
  have "1 \<le> k \<and> k \<le> 512" using option_int_range [OF k [unfolded model_threads_def]] by simp
  moreover have "(\<exists>d \<in> set (nl_devices N). ggml_device_id d = dev_id device \<and> ggml_backend d = Some (dev_backend device)
       \<and> (gd_type d = GgmlGpu \<and> dev_backend device \<noteq> Metal \<and> gd_total d \<noteq> 0 \<longrightarrow>
          (\<exists>e n. llama_estimate N spec 1 = Inr e \<and> total_bytes e = Inr n \<and> n \<le> gd_free d)))"
    if "dev_backend device \<noteq> Cpu"
  proof -
    have "select_device N spec device (nl_devices N) = Inr selected \<and> selected \<noteq> []"
      using sel that by (auto simp: choose_devices_def split: if_splits)
    then show ?thesis using select_device_one [of N spec device "nl_devices N" selected] by auto
  qed
  moreover have "dev_backend device = Cpu \<Longrightarrow> dev_id device = []"
    using sel by (simp add: choose_devices_def split: if_splits)
  ultimately show ?thesis
    using built stat k keys init_model_fields [OF x(1)] x(2) by (auto simp: option_keys_known)
qed

lemma sample_options: "check_options sample_llama_spec = Inr ()" "model_threads sample_llama_spec = Inr 8"
proof -
  show t: "model_threads sample_llama_spec = Inr 8"
    by (simp add: model_threads_def option_int_def sample_llama_spec_def jvalue_def Let_def)
  show "check_options sample_llama_spec = Inr ()"
    by (simp add: check_options_def t Let_def) (simp add: sample_llama_spec_def known_options_def jhas_def require_def ohas_def)
qed

lemma sample_estimate: "llama_estimate sample_native sample_llama_spec 1
    = Inr (base_estimate_memory (\<lambda>_. RegularFile 1024) sample_llama_spec 1)"
  by (simp add: llama_estimate_def with_projector_def sample_native_def sample_llama_spec_def)

lemma sample_total: "\<exists>n. total_bytes (base_estimate_memory (\<lambda>_. RegularFile 1024) sample_llama_spec 1) = Inr n \<and> n \<le> 2 ^ 33"
  by (simp add: total_bytes_def base_estimate_memory_def sample_llama_spec_def)

theorem llama_load_checked_witness:
  "\<exists>m. llama_load sample_native \<lparr>lo_memory_map = True, lo_max_gpu_layers = - 1, lo_validate_tensors = False\<rparr>
      (\<lambda>_. False) sample_llama_spec cuda0 = Inr m \<and> ld_accelerated m"
proof -
  let ?o = "\<lparr>lo_memory_map = True, lo_max_gpu_layers = - 1, lo_validate_tensors = False\<rparr>"
  obtain n where "total_bytes (base_estimate_memory (\<lambda>_. RegularFile 1024) sample_llama_spec 1) = Inr n" "n \<le> 2 ^ 33"
    using sample_total by blast
  then have "choose_devices sample_native sample_llama_spec cuda0 = Inr [cuda_device]"
    using sample_backend by (simp add: choose_devices_def sample_estimate sample_fields)
  moreover have "spec_projector_path sample_llama_spec = []" by (simp add: sample_llama_spec_def)
  ultimately have "\<exists>m. llama_load sample_native ?o (\<lambda>_. False) sample_llama_spec cuda0 = Inr m"
    by (simp add: llama_load_def sample_options sample_fields init_model_def create_context_def init_context_def Let_def)
  then obtain m where m: "llama_load sample_native ?o (\<lambda>_. False) sample_llama_spec cuda0 = Inr m" ..
  from llama_load_checked [OF m] m show ?thesis by simp
qed

end
