(* ===== verification/LlamaChat.thy ===== *)
theory LlamaChat
  imports LlamaModel Media Conversation
begin

text \<open>
  How the llama.cpp model reads and writes chats (\<^verbatim>\<open>tokenize\<close>,
  \<^verbatim>\<open>embedText\<close>, \<^verbatim>\<open>prepareConversation\<close> and
  \<^verbatim>\<open>parseConversation\<close> of \<^verbatim>\<open>LlamaModel\<close> in
  \<^verbatim>\<open>src/runtimes/LlamaRuntime.cpp\<close>, with \<^verbatim>\<open>src/runtimes/ToolTemplate.h\<close>).
  The template engine, the tokenizer, the image and audio decoders and the multimodal tokenizer are the
  fields of \<open>chat_library\<close>: \<open>'t\<close> is a parsed set of templates, \<open>'q\<close> a reply parser,
  \<open>'b\<close> a bitmap. Limits on media are checked before and after decoding; the markers that stand for
  media in a prompt are made by the host and split off exactly.
\<close>

section \<open>Byte strings\<close>

fun first_at :: "'a list \<Rightarrow> 'a list \<Rightarrow> nat option" where
  "first_at p [] = (if p = [] then Some 0 else None)"
| "first_at p (c # s) = (if take (length p) (c # s) = p then Some 0 else map_option Suc (first_at p s))"

text \<open>\<^verbatim>\<open>std::string::find(pattern, from)\<close>.\<close>

definition find_from :: "'a list \<Rightarrow> 'a list \<Rightarrow> nat \<Rightarrow> nat option" where
  "find_from p s n = (if n \<le> length s then map_option ((+) n) (first_at p (drop n s)) else None)"

lemma first_at_Some: "first_at p s = Some n \<Longrightarrow> n + length p \<le> length s \<and> take (length p) (drop n s) = p"
proof (induction s arbitrary: n)
  case (Cons c s)
  then show ?case by (auto split: if_splits) (metis length_Cons length_take min.cobounded1)
qed (simp split: if_splits)

lemma first_at_None: "first_at p s = None \<Longrightarrow> s \<noteq> u @ p @ v"
proof (induction s arbitrary: u)
  case (Cons c s)
  show ?case
  proof
    assume eq: "c # s = u @ p @ v"
    show False
    proof (cases u)
      case Nil
      then have "take (length p) (c # s) = p" using eq by simp
      then show False using Cons.prems by simp
    next
      case (Cons d u')
      then show False using eq Cons.IH [of u'] Cons.prems by (auto split: if_splits)
    qed
  qed
qed (auto split: if_splits)

lemma find_from_Some:
  "find_from p s n = Some k \<Longrightarrow> n \<le> k \<and> k + length p \<le> length s \<and> take (length p) (drop k s) = p"
  using first_at_Some [of p "drop n s"] by (auto simp: find_from_def add.commute split: if_splits)

text \<open>\<^verbatim>\<open>rfind\<close>: the last position of a pattern.\<close>

definition last_at :: "'a list \<Rightarrow> 'a list \<Rightarrow> nat option" where
  "last_at p s = map_option (\<lambda>k. length s - length p - k) (first_at (rev p) (rev s))"

section \<open>The repair of a template\<close>

definition malformed_example :: "byte list" where
  "malformed_example = ascii ''{{'' @ [92, 34] @ ascii ''name'' @ [92, 34] @ ascii '': <function-name>, ''
     @ [92, 34] @ ascii ''arguments'' @ [92, 34] @ ascii '': <args-json-object>}}''"

definition corrected_example :: "byte list" where
  "corrected_example = ascii ''{'' @ [92, 34] @ ascii ''name'' @ [92, 34] @ ascii '': <function-name>, ''
     @ [92, 34] @ ascii ''arguments'' @ [92, 34] @ ascii '': <args-json-object>}''"

function repair_from :: "byte list \<Rightarrow> nat \<Rightarrow> byte list" where
  "repair_from t off = (case find_from malformed_example t off of
     None \<Rightarrow> t
   | Some k \<Rightarrow> repair_from (take k t @ corrected_example @ drop (k + length malformed_example) t)
       (k + length corrected_example))"
  by pat_completeness auto
termination
proof (relation "measure (\<lambda>(t, off). length t - off)", goal_cases)
  case (2 t off k)
  have "length malformed_example = length corrected_example + 2" "0 < length corrected_example"
    by (simp_all add: malformed_example_def corrected_example_def ascii_def)
  with find_from_Some [OF 2] show ?case by auto
qed simp

declare repair_from.simps [simp del]

definition normalized_tool_template :: "byte list \<Rightarrow> byte list" where
  "normalized_tool_template t = repair_from t 0"

section \<open>The libraries\<close>

record chat_input =
  ci_messages :: "json list"
  ci_tools :: "json list"
  ci_tool_choice :: qstring
  ci_parallel :: bool
  ci_thinking :: bool
  ci_schema :: "json_object option"

record chat_params =
  ch_prompt :: "byte list"
  ch_generation_prompt :: "byte list"
  ch_grammar :: "byte list"
  ch_grammar_lazy :: bool
  ch_grammar_triggers :: "grammar_trigger list"
  ch_preserved_tokens :: "byte list list"
  ch_additional_stops :: "byte list list"
  ch_supports_thinking :: bool
  ch_thinking_start_tag :: "byte list"

record parsed_reply =
  pr_content :: "byte list"
  pr_reasoning :: "byte list"
  pr_calls :: "(byte list \<times> byte list \<times> byte list) list"

datatype 'b media_part = TextPart "byte list" | BitmapPart 'b

record ('x, 'p, 't, 'q, 'b, 'k) chat_library =
  cl_to_utf8 :: "qstring \<Rightarrow> byte list"
  cl_from_utf8 :: "byte list \<Rightarrow> qstring"
  cl_compact :: "json \<Rightarrow> qstring"
  cl_milliseconds :: "rat \<Rightarrow> qstring"
  cl_nonce :: "byte list"
  cl_number :: "nat \<Rightarrow> byte list"
  cl_embedded :: "'x \<Rightarrow> byte list option"
  cl_apply_template :: "byte list \<Rightarrow> (byte list \<times> byte list) list \<Rightarrow> nat \<Rightarrow> int \<times> byte list"
  cl_tokenize_into :: "'x \<Rightarrow> byte list \<Rightarrow> nat \<Rightarrow> int \<times> token_list"
  cl_tokenize :: "'x \<Rightarrow> byte list \<Rightarrow> token_list"
  cl_templates :: "'x \<Rightarrow> byte list \<Rightarrow> 't res"
  cl_apply :: "'t \<Rightarrow> chat_input \<Rightarrow> chat_params res"
  cl_source :: "'t \<Rightarrow> byte list"
  cl_parser :: "chat_params \<Rightarrow> 'q res"
  cl_parser_prompt :: "'q \<Rightarrow> byte list"
  cl_set_parser_prompt :: "byte list \<Rightarrow> 'q \<Rightarrow> 'q"
  cl_parse :: "byte list \<Rightarrow> 'q \<Rightarrow> parsed_reply res"
  cl_supports_audio :: "'p \<Rightarrow> bool"
  cl_supports_vision :: "'p \<Rightarrow> bool"
  cl_image_info :: "byte list \<Rightarrow> (int \<times> int) option"
  cl_decode :: "'p \<Rightarrow> byte list \<Rightarrow> 'b option"
  cl_is_audio :: "'b \<Rightarrow> bool"
  cl_bytes :: "'b \<Rightarrow> u64"
  cl_tokenize_parts :: "'p \<Rightarrow> ('b \<times> bool) media_part list \<Rightarrow> 'k list option"
  cl_count :: "'k list \<Rightarrow> int"
  cl_positions :: "'k list \<Rightarrow> int"
  cl_text_tokens :: "'k \<Rightarrow> token_list option"

text \<open>What a prepared conversation carries: what a generation reads, and what its reply is parsed with.\<close>

record ('k, 'q) prompt_state = "'k conversation_state" +
  ps_parser :: 'q
  ps_thinking_enabled :: bool
  ps_supports_thinking :: bool
  ps_thinking_start_tag :: "byte list"

section \<open>Media of a request\<close>

record 'b media_state =
  ms_checks :: nat
  ms_decoded :: u64
  ms_markers :: "byte list list"
  ms_bitmaps :: "('b \<times> bool) list"

definition media_limit :: u64 where
  "media_limit = 128 * 1024 * 1024"

definition check_media :: "(nat \<Rightarrow> bool) \<Rightarrow> (('b, 'z) media_state_scheme, unit) act" where
  "check_media cancelled s = (s\<lparr>ms_checks := Suc (ms_checks s)\<rparr>,
     if cancelled (ms_checks s) then throw Cancelled ''Request cancelled'' else Inr ())"

text \<open>The size an image declares, checked before it is decoded.\<close>

definition check_image :: "(int \<times> int) option \<Rightarrow> u64 \<Rightarrow> unit res" where
  "check_image info decoded = (case info of
     None \<Rightarrow> throw InvalidArgument ''Invalid native image header''
   | Some (w, h) \<Rightarrow>
       if w \<le> 0 \<or> h \<le> 0 then throw InvalidArgument ''Invalid native image header''
       else if (word_of_int w * word_of_int h :: u64) > 16 * 1024 * 1024
       then throw ResourceLimit ''Native image exceeds 16 megapixels''
       else if (word_of_int w * word_of_int h * 3 :: u64) > media_limit - decoded
       then throw ResourceLimit ''Decoded request media exceeds 128 MiB''
       else Inr ())"

definition decode_media :: "('x, 'p, 't, 'q, 'b, 'k) chat_library \<Rightarrow> 'p option \<Rightarrow> json_object \<Rightarrow> u64 \<Rightarrow> 'b res" where
  "decode_media C projector block decoded = (case projector of
     None \<Rightarrow> throw RuntimeUnavailable ''Native media requires a package-owned multimodal projector''
   | Some p \<Rightarrow>
       let audio = (jvalue block ''type'' = JStr (qs ''audio'')) in
       bindr (require (\<not> (audio \<and> \<not> cl_supports_audio C p \<or> \<not> audio \<and> \<not> cl_supports_vision C p)) RuntimeUnavailable
         ''Loaded projector does not support the requested modality'') (\<lambda>_.
       bindr (media_bytes block) (\<lambda>bytes.
       bindr (if audio then Inr () else check_image (cl_image_info C bytes) decoded) (\<lambda>_.
       case cl_decode C p bytes of
         None \<Rightarrow> throw InvalidArgument ''Cannot decode native media bytes''
       | Some b \<Rightarrow>
           if cl_is_audio C b \<noteq> audio then throw InvalidArgument ''Media bytes do not match their declared modality''
           else if cl_bytes C b > media_limit - decoded
           then throw ResourceLimit ''Decoded request media exceeds 128 MiB''
           else Inr b))))"

definition make_marker :: "('x, 'p, 't, 'q, 'b, 'k) chat_library \<Rightarrow> nat \<Rightarrow> byte list" where
  "make_marker C n = ascii ''<__iillm_'' @ cl_nonce C @ ascii ''_'' @ cl_number C n @ ascii ''__>''"

definition add_bitmap :: "('x, 'p, 't, 'q, 'b, 'k) chat_library \<Rightarrow> (nat \<Rightarrow> bool) \<Rightarrow> 'p option \<Rightarrow> json_object \<Rightarrow> bool \<Rightarrow>
    (('b, 'z) media_state_scheme, json) act" where
  "add_bitmap C cancelled projector block video =
     act_bind (check_media cancelled) (\<lambda>_.
     act_bind (\<lambda>s. lift_res (decode_media C projector block (ms_decoded s)) s) (\<lambda>b.
     act_bind (gets (\<lambda>s. make_marker C (length (ms_markers s)))) (\<lambda>marker.
     act_bind (modify (\<lambda>s. s\<lparr>ms_decoded := ms_decoded s + cl_bytes C b, ms_markers := ms_markers s @ [marker],
       ms_bitmaps := ms_bitmaps s @ [(b, video)]\<rparr>)) (\<lambda>_.
     ret (JObj (jobj [(''type'', JStr (qs ''media_marker'')), (''text'', JStr (cl_from_utf8 C marker))]))))))"

definition llama_video_frame :: "('x, 'p, 't, 'q, 'b, 'k) chat_library \<Rightarrow> (nat \<Rightarrow> bool) \<Rightarrow> 'p option \<Rightarrow> json \<Rightarrow>
    (('b, 'z) media_state_scheme, json list) act" where
  "llama_video_frame C cancelled projector frame =
     (let image = to_object frame;
          label = qs ''[video frame at '' @ cl_milliseconds C (to_double (jvalue image ''timestamp_ms'')) @ qs '' ms]''
      in act_bind (add_bitmap C cancelled projector image True) (\<lambda>marker.
         ret [JObj (jobj [(''type'', JStr (qs ''text'')), (''text'', JStr label)]), marker]))"

definition native_block :: "('x, 'p, 't, 'q, 'b, 'k) chat_library \<Rightarrow> (nat \<Rightarrow> bool) \<Rightarrow> 'p option \<Rightarrow> json \<Rightarrow>
    (('b, 'z) media_state_scheme, json list) act" where
  "native_block C cancelled projector item =
     (let block = to_object item; type = to_string (jvalue block ''type'') in
      if type = qs ''text'' then ret [JObj block]
      else if type = qs ''video''
      then act_bind (act_map (llama_video_frame C cancelled projector) (to_array (jvalue block ''frames''))) (\<lambda>ps. ret (concat ps))
      else act_bind (add_bitmap C cancelled projector block False) (\<lambda>marker. ret [marker]))"

text \<open>
  \<^verbatim>\<open>message["content"]\<close> on an object that is not constant: a missing key is inserted with a null.
\<close>

definition touch :: "string \<Rightarrow> json_object \<Rightarrow> json_object" where
  "touch key m = (if jhas m key then m else oput (qs key) JNull m)"

definition native_message :: "('x, 'p, 't, 'q, 'b, 'k) chat_library \<Rightarrow> (nat \<Rightarrow> bool) \<Rightarrow> 'p option \<Rightarrow> json \<Rightarrow>
    (('b, 'z) media_state_scheme, json) act" where
  "native_message C cancelled projector v =
     (let message = touch ''content'' (to_object v) in
      if is_array (jvalue message ''content'')
      then act_bind (lift_res (native_content (cl_compact C) (to_array (jvalue message ''content'')) (1024 * 1024))) (\<lambda>items.
           act_bind (act_map (native_block C cancelled projector) items) (\<lambda>ps.
           ret (JObj (oput (qs ''content'') (JArr (concat ps)) message))))
      else ret (JObj message))"

section \<open>Splitting a prompt at its markers\<close>

fun split_parts :: "byte list \<Rightarrow> (byte list \<times> 'b) list \<Rightarrow> nat \<Rightarrow> 'b media_part list \<Rightarrow> 'b media_part list res" where
  "split_parts prompt [] pos acc = Inr (acc @ (if pos < length prompt then [TextPart (drop pos prompt)] else []))"
| "split_parts prompt ((marker, b) # rest) pos acc = (case find_from marker prompt pos of
     None \<Rightarrow> throw RuntimeUnavailable ''Chat template did not preserve native media ordering''
   | Some k \<Rightarrow>
       if find_from marker prompt (k + length marker) \<noteq> None
       then throw RuntimeUnavailable ''Chat template did not preserve native media ordering''
       else split_parts prompt rest (k + length marker)
         (acc @ (if k > pos then [TextPart (take (k - pos) (drop pos prompt))] else []) @ [BitmapPart b]))"

definition media_tokens :: "('x, 'p, 't, 'q, 'b, 'k) chat_library \<Rightarrow> 'p \<Rightarrow> byte list \<Rightarrow> byte list list \<Rightarrow>
    ('b \<times> bool) list \<Rightarrow> ('k list \<times> int \<times> token_list) res" where
  "media_tokens C p prompt markers bitmaps =
     bindr (split_parts prompt (zip markers bitmaps) 0 []) (\<lambda>parts.
     case cl_tokenize_parts C p parts of
       None \<Rightarrow> throw RuntimeFailure ''Native multimodal tokenization failed''
     | Some chunks \<Rightarrow>
         let n = max (cl_count C chunks) (cl_positions C chunks) in
         if n > 2147483647 then throw ResourceLimit ''Native media token budget overflow''
         else Inr (chunks, n, concat (List.map_filter (cl_text_tokens C) chunks)))"

section \<open>Preparing a conversation\<close>

text \<open>The members of the model that a preparation may change: its templates and its options.\<close>

record ('b, 't) prepare_state = "'b media_state" +
  ct_templates :: "'t option"
  ct_options :: json_object

definition choose_template :: "('x, 'p, 't, 'q, 'b, 'k) chat_library \<Rightarrow> 'x \<Rightarrow> json_object \<Rightarrow> byte list" where
  "choose_template C x options =
     (let selected = cl_to_utf8 C (to_string (jvalue options ''chat_template'')) in
      if selected = []
      then (case cl_embedded C x of
          None \<Rightarrow> []
        | Some embedded \<Rightarrow> if normalized_tool_template embedded \<noteq> embedded then normalized_tool_template embedded else [])
      else selected)"

definition ensure_templates :: "('x, 'p, 't, 'q, 'b, 'k) chat_library \<Rightarrow> 'x \<Rightarrow> (('b, 't) prepare_state, 't) act" where
  "ensure_templates C x s = (case ct_templates s of
     Some t \<Rightarrow> (s, Inr t)
   | None \<Rightarrow>
       let s1 = s\<lparr>ct_options := touch ''chat_template'' (ct_options s)\<rparr> in
       (case cl_templates C x (choose_template C x (ct_options s1)) of
          Inl e \<Rightarrow> (s1, Inl e) | Inr t \<Rightarrow> (s1\<lparr>ct_templates := Some t\<rparr>, Inr t)))"

definition chat_input_of :: "conversation_request \<Rightarrow> json_object \<Rightarrow> json list \<Rightarrow> chat_input" where
  "chat_input_of rq options messages = \<lparr>ci_messages = messages, ci_tools = conv_tools rq,
     ci_tool_choice = conv_tool_choice rq, ci_parallel = conv_parallel_tool_calls rq,
     ci_thinking = (case conv_enable_thinking rq of Some b \<Rightarrow> b | None \<Rightarrow> to_bool (jvalue options ''enable_thinking'') True),
     ci_schema = (if conv_response_schema rq \<noteq> [] then Some (conv_response_schema rq) else None)\<rparr>"

definition tool_names :: "json list \<Rightarrow> qstring list" where
  "tool_names tools = map (\<lambda>t. to_string (jvalue (to_object (jvalue (to_object t) ''function'')) ''name'')) tools"

definition has_text :: "string \<Rightarrow> byte list \<Rightarrow> bool" where
  "has_text p s \<longleftrightarrow> first_at (ascii p) s \<noteq> None"

definition single_turn_request :: "conversation_request \<Rightarrow> bool" where
  "single_turn_request rq \<longleftrightarrow> \<not> conv_parallel_tool_calls rq \<and> conv_tool_choice rq = qs ''required'' \<and> conv_response_schema rq = []"

definition quoted :: "string \<Rightarrow> byte list" where
  "quoted t = [34] @ ascii t @ [34]"

definition tagged_json :: "byte list \<Rightarrow> bool" where
  "tagged_json source \<longleftrightarrow> has_text ''<tool_call>'' source \<and> first_at (quoted ''arguments'') source \<noteq> None
     \<and> \<not> has_text ''<function='' source \<and> \<not> has_text ''<parameter='' source"

definition tool_prefix :: "byte list" where
  "tool_prefix = ascii ''<tool_call>'' @ [10]"

definition open_envelope :: "('x, 'p, 't, 'q, 'b, 'k) chat_library \<Rightarrow> conversation_request \<Rightarrow> 't \<Rightarrow> bool \<Rightarrow> chat_params \<Rightarrow> chat_params" where
  "open_envelope C rq t thinking chat =
     (if single_turn_request rq \<and> tagged_json (cl_source C t) \<and> (\<not> ch_supports_thinking chat \<or> \<not> thinking)
        \<and> \<not> ends_with tool_open (trimmed (cl_from_utf8 C (ch_generation_prompt chat)))
      then chat\<lparr>ch_prompt := ch_prompt chat @ tool_prefix, ch_generation_prompt := ch_generation_prompt chat @ tool_prefix\<rparr>
      else chat)"

definition drop_grammar :: "conversation_request \<Rightarrow> json_object \<Rightarrow> chat_params \<Rightarrow> chat_params" where
  "drop_grammar rq options chat =
     (if \<not> to_bool (jvalue options ''tool_grammar'') True \<and> conv_response_schema rq = []
      then chat\<lparr>ch_grammar := [], ch_grammar_lazy := False, ch_grammar_triggers := []\<rparr> else chat)"

definition prepared_prompt :: "('x, 'p, 't, 'q, 'b, 'k) chat_library \<Rightarrow> conversation_request \<Rightarrow> chat_params \<Rightarrow> bool \<Rightarrow> 'q \<Rightarrow>
    'k list option \<Rightarrow> int \<Rightarrow> token_list \<Rightarrow> ('k, 'q) prompt_state conversation_prompt" where
  "prepared_prompt C rq chat thinking parser chunks n tokens =
     \<lparr>cp_tokens = tokens, cp_stop = map (cl_from_utf8 C) (ch_additional_stops chat),
      cp_state = \<lparr>cs_grammar = ch_grammar chat, cs_grammar_lazy = ch_grammar_lazy chat,
        cs_generation_prompt = ch_generation_prompt chat, cs_preserved_tokens = ch_preserved_tokens chat,
        cs_grammar_triggers = ch_grammar_triggers chat, cs_parser_prompt = cl_parser_prompt C parser,
        cs_single_turn_tools = (if single_turn_request rq then tool_names (conv_tools rq) else []),
        cs_chunks = chunks, cs_input_tokens = n, ps_parser = parser, ps_thinking_enabled = thinking,
        ps_supports_thinking = ch_supports_thinking chat, ps_thinking_start_tag = ch_thinking_start_tag chat\<rparr>,
      cp_input_tokens = n\<rparr>"

definition prompt_tokens_of :: "('x, 'p, 't, 'q, 'b, 'k) chat_library \<Rightarrow> 'x \<Rightarrow> 'p option \<Rightarrow> byte list \<Rightarrow>
    (('b, 't) prepare_state, 'k list option \<times> int \<times> token_list) act" where
  "prompt_tokens_of C x projector prompt s = (s,
     case (ms_bitmaps s, projector) of
       (b # bs, Some p) \<Rightarrow> bindr (media_tokens C p prompt (ms_markers s) (b # bs)) (\<lambda>(chunks, n, tokens).
         Inr (Some chunks, n, tokens))
     | _ \<Rightarrow> Inr (None, 0, cl_tokenize C x prompt))"

definition llama_prepare :: "('x, 'p, 't, 'q, 'b, 'k) chat_library \<Rightarrow> (nat \<Rightarrow> bool) \<Rightarrow> 'x \<Rightarrow> 'p option \<Rightarrow>
    conversation_request \<Rightarrow> (('b, 't) prepare_state, ('k, 'q) prompt_state conversation_prompt) act" where
  "llama_prepare C cancelled x projector rq =
     act_bind (check_media cancelled) (\<lambda>_.
     act_bind (ensure_templates C x) (\<lambda>t.
     act_bind (modify (\<lambda>s. s\<lparr>ms_decoded := 0, ms_markers := [], ms_bitmaps := []\<rparr>)) (\<lambda>_.
     act_bind (act_map (native_message C cancelled projector) (conv_messages rq)) (\<lambda>messages.
     act_bind (gets ct_options) (\<lambda>options.
     let input = chat_input_of rq options messages in
     act_bind (lift_res (cl_apply C t input)) (\<lambda>chat0.
     let chat = drop_grammar rq options (open_envelope C rq t (ci_thinking input) chat0) in
     act_bind (lift_res (cl_parser C chat)) (\<lambda>parser.
     act_bind (prompt_tokens_of C x projector (ch_prompt chat)) (\<lambda>(chunks, n, tokens).
     act_bind (check_media cancelled) (\<lambda>_.
     ret (prepared_prompt C rq chat (ci_thinking input) parser chunks n tokens))))))))))"

section \<open>Replies, plain chats, embeddings\<close>

text \<open>
  A model that repeats the closing tag which its disabled-thinking prefill already gave: the
  generated tag takes the place of the given one.
\<close>

definition repeats_close :: "('x, 'p, 't, 'q, 'b, 'k) chat_library \<Rightarrow> ('k, 'q) prompt_state \<Rightarrow> qstring \<Rightarrow> bool" where
  "repeats_close C st reply \<longleftrightarrow>
     (let prefix = cl_from_utf8 C (cl_parser_prompt C (ps_parser st)) in
      \<not> ps_thinking_enabled st \<and> ps_supports_thinking st \<and> ps_thinking_start_tag st = ascii ''<think>''
      \<and> contains (qs ''<think>'') prefix \<and> ends_with (qs ''</think>'') (trimmed prefix)
      \<and> starts_with (qs ''</think>'') (trimmed reply))"

definition reply_parser :: "('x, 'p, 't, 'q, 'b, 'k) chat_library \<Rightarrow> ('k, 'q) prompt_state \<Rightarrow> qstring \<Rightarrow> 'q" where
  "reply_parser C st reply =
     (if repeats_close C st reply
      then case last_at (ascii ''</think>'') (cl_parser_prompt C (ps_parser st)) of
          Some k \<Rightarrow> cl_set_parser_prompt C (take k (cl_parser_prompt C (ps_parser st))) (ps_parser st)
        | None \<Rightarrow> ps_parser st
      else ps_parser st)"

definition call_object :: "('x, 'p, 't, 'q, 'b, 'k) chat_library \<Rightarrow> byte list \<times> byte list \<times> byte list \<Rightarrow> json" where
  "call_object C = (\<lambda>(i, name, arguments). JObj (jobj [(''id'', JStr (cl_from_utf8 C i)), (''type'', JStr (qs ''function'')),
     (''function'', JObj (jobj [(''name'', JStr (cl_from_utf8 C name)), (''arguments'', JStr (cl_from_utf8 C arguments))]))]))"

definition llama_parse_reply :: "('x, 'p, 't, 'q, 'b, 'k) chat_library \<Rightarrow> ('k, 'q) prompt_state option \<Rightarrow> qstring \<Rightarrow>
    runtime_reply res" where
  "llama_parse_reply C state reply = (case state of
     None \<Rightarrow> throw InvalidArgument ''Missing llama.cpp conversation parser state''
   | Some st \<Rightarrow> bindr (cl_parse C (cl_to_utf8 C reply) (reply_parser C st reply)) (\<lambda>r.
       Inr \<lparr>reply_text = cl_from_utf8 C (pr_content r), reply_reasoning = cl_from_utf8 C (pr_reasoning r),
         reply_tool_calls = map (call_object C) (pr_calls r)\<rparr>))"

text \<open>A list filled by the library and cut or extended to the length it reported.\<close>

definition resized :: "nat \<Rightarrow> int list \<Rightarrow> int list" where
  "resized n xs = take n xs @ replicate (n - length xs) 0"

definition format_chat :: "('x, 'p, 't, 'q, 'b, 'k) chat_library \<Rightarrow> byte list \<Rightarrow> (byte list \<times> byte list) list \<Rightarrow> byte list res" where
  "format_chat C template chat =
     (let needed = fst (cl_apply_template C template chat 0) in
      if needed \<le> 0 then throw RuntimeFailure ''Unsupported llama.cpp chat template''
      else let (n, formatted) = cl_apply_template C template chat (nat needed) in
        if n \<le> 0 \<or> n > needed then throw RuntimeFailure ''Chat formatting failed''
        else Inr (take (nat n) formatted))"

definition tokenize_bytes :: "('x, 'p, 't, 'q, 'b, 'k) chat_library \<Rightarrow> 'x \<Rightarrow> byte list \<Rightarrow> token_list res" where
  "tokenize_bytes C x bytes =
     (let needed = fst (cl_tokenize_into C x bytes 0) in
      if needed \<ge> 0 then throw RuntimeFailure ''Empty tokenized prompt''
      else let (n, tokens) = cl_tokenize_into C x bytes (nat (- needed)) in
        if n < 1 then throw RuntimeFailure ''Tokenization failed'' else Inr (resized (nat n) tokens))"

definition plain_request :: "chat_message list \<Rightarrow> conversation_request" where
  "plain_request messages = \<lparr>conv_model = [],
     conv_messages = map (\<lambda>m. JObj (jobj [(''role'', JStr (role_name (msg_role m))), (''content'', JStr (msg_content m))])) messages,
     conv_tools = [], conv_tool_choice = qs ''auto'', conv_context_id = [], conv_options = default_generation_options,
     conv_keep_alive = - 1, conv_parallel_tool_calls = True, conv_response_schema = [], conv_enable_thinking = None\<rparr>"

definition template_of :: "('x, 'p, 't, 'q, 'b, 'k) chat_library \<Rightarrow> 'x \<Rightarrow> json_object \<Rightarrow> byte list res" where
  "template_of C x options =
     (let custom = jvalue options ''chat_template''; override = cl_to_utf8 C (to_string custom) in
      if custom \<noteq> JUndefined \<and> \<not> is_string custom then throw InvalidArgument ''chat_template must be a string''
      else if override \<noteq> [] then Inr override
      else case cl_embedded C x of
        None \<Rightarrow> throw InvalidArgument ''Model has no chat template; set options.chat_template explicitly''
      | Some t \<Rightarrow> Inr t)"

definition llama_tokenize :: "('x, 'p, 't, 'q, 'b, 'k) chat_library \<Rightarrow> (nat \<Rightarrow> bool) \<Rightarrow> 'x \<Rightarrow> 'p option \<Rightarrow>
    chat_message list \<Rightarrow> (('b, 't) prepare_state, token_list) act" where
  "llama_tokenize C cancelled x projector messages =
     act_bind (check_media cancelled) (\<lambda>_.
     act_bind (gets ct_options) (\<lambda>options.
     if jhas options ''enable_thinking''
     then act_bind (llama_prepare C cancelled x projector (plain_request messages)) (\<lambda>p. ret (cp_tokens p))
     else lift_res (bindr (template_of C x options) (\<lambda>template.
       bindr (format_chat C template (map (\<lambda>m. (cl_to_utf8 C (role_name (msg_role m)), cl_to_utf8 C (msg_content m))) messages))
         (tokenize_bytes C x)))))"

datatype pooling = PoolingMean | PoolingLast | PoolingCls | PoolingOther

record embed_params =
  bp_capacity :: int
  bp_threads :: int
  bp_offload :: bool
  bp_pooling :: "pooling option"

datatype batch_state = BatchMissing | BatchIncomplete | BatchReady

record ('x, 'c) embed_library =
  el_has_encoder :: "'x \<Rightarrow> bool"
  el_has_decoder :: "'x \<Rightarrow> bool"
  el_context :: "'x \<Rightarrow> embed_params \<Rightarrow> 'c option"
  el_pooling :: "'c \<Rightarrow> pooling"
  el_batch :: "nat \<Rightarrow> batch_state"
  el_encode :: "'c \<Rightarrow> (int \<times> int) list \<Rightarrow> int \<times> 'c"
  el_decode :: "'c \<Rightarrow> (int \<times> int) list \<Rightarrow> int \<times> 'c"
  el_dimension :: "'x \<Rightarrow> int"
  el_values :: "'c \<Rightarrow> dbl list option"

definition embed_tokens :: "('x, 'p, 't, 'q, 'b, 'k) chat_library \<Rightarrow> 'x \<Rightarrow> int \<Rightarrow> byte list \<Rightarrow> token_list res" where
  "embed_tokens C x capacity bytes =
     (let required = fst (cl_tokenize_into C x bytes 0); n = - required in
      if required \<ge> 0 then throw RuntimeFailure ''Embedding tokenization failed''
      else if n > capacity then throw ContextOverflow ''Embedding input exceeds the model context''
      else let (k, tokens) = cl_tokenize_into C x bytes (nat n) in
        if k \<noteq> n then throw RuntimeFailure ''Embedding tokenization changed unexpectedly''
        else Inr (resized (nat n) tokens))"

definition wanted_pooling :: "json_object \<Rightarrow> pooling option" where
  "wanted_pooling options = (let p = (case jvalue options ''embedding_pooling'' of JStr t \<Rightarrow> t | _ \<Rightarrow> qs ''model'') in
     if p = qs ''mean'' then Some PoolingMean else if p = qs ''last'' then Some PoolingLast
     else if p = qs ''cls'' then Some PoolingCls else None)"

text \<open>Three checks of the token, numbered from 0: at the start, after the context and after the evaluation.\<close>

definition llama_embed :: "('x, 'p, 't, 'q, 'b, 'k) chat_library \<Rightarrow> ('x, 'c) embed_library \<Rightarrow> (nat \<Rightarrow> bool) \<Rightarrow>
    'x \<Rightarrow> model_spec \<Rightarrow> bool \<Rightarrow> qstring \<Rightarrow> dbl list res" where
  "llama_embed C E cancelled x spec accelerated input =
     bindr (require (\<not> cancelled 0) Cancelled ''Request cancelled'') (\<lambda>_.
     bindr (require (\<not> (el_has_encoder E x \<and> el_has_decoder E x)) RuntimeUnavailable
       ''Encoder-decoder embedding models are not supported'') (\<lambda>_.
     let capacity = min (spec_context_tokens spec) 4096 in
     bindr (embed_tokens C x capacity (cl_to_utf8 C input)) (\<lambda>tokens.
     bindr (model_threads spec) (\<lambda>threads.
     let made = el_context E x \<lparr>bp_capacity = capacity, bp_threads = threads, bp_offload = accelerated,
           bp_pooling = wanted_pooling (spec_options spec)\<rparr> in
     bindr (require (\<not> cancelled 1) Cancelled ''Request cancelled'') (\<lambda>_.
     case made of None \<Rightarrow> throw RuntimeFailure ''Cannot create embedding context'' | Some c \<Rightarrow>
     bindr (require (el_pooling E c \<noteq> PoolingOther) RuntimeUnavailable
       ''Embedding model requires mean, last, or CLS pooling'') (\<lambda>_.
     bindr (require (el_batch E (length tokens) \<noteq> BatchMissing) ResourceLimit ''Cannot allocate embedding batch'') (\<lambda>_.
     bindr (require (el_batch E (length tokens) \<noteq> BatchIncomplete) ResourceLimit
       ''Cannot allocate embedding sequence IDs'') (\<lambda>_.
     let batch = zip [0..int (length tokens) - 1] tokens;
         (status, c') = (if el_has_encoder E x then el_encode E c batch else el_decode E c batch) in
     bindr (require (\<not> cancelled 2) Cancelled ''Request cancelled'') (\<lambda>_.
     if status \<noteq> 0 then throwq RuntimeFailure (qs ''Embedding evaluation failed: '' @ signed_decimal status)
     else case el_values E c' of
       None \<Rightarrow> throw RuntimeFailure ''Embedding output is unavailable''
     | Some values \<Rightarrow>
         if el_dimension E x \<le> 0 \<or> el_dimension E x > 16384
         then throw RuntimeFailure ''Embedding output is unavailable''
         else Inr (take (nat (el_dimension E x)) values))))))))))"

end
