(* ===== verification/LlamaChatRules.thy ===== *)
theory LlamaChatRules
  imports LlamaChat "HOL-Library.Sublist"
begin

text \<open>
  What holds of prepared conversations: the media of a request stay within their limit, a prompt is
  split exactly at the host's markers, and what a preparation does to the options of the model.
\<close>

section \<open>Splitting\<close>

text \<open>The text that parts stand for, each bitmap replaced by its marker.\<close>

fun join_parts :: "'b media_part list \<Rightarrow> byte list list \<Rightarrow> byte list" where
  "join_parts [] markers = []"
| "join_parts (TextPart t # ps) markers = t @ join_parts ps markers"
| "join_parts (BitmapPart b # ps) [] = []"
| "join_parts (BitmapPart b # ps) (m # markers) = m @ join_parts ps markers"

fun part_bitmaps :: "'b media_part list \<Rightarrow> 'b list" where
  "part_bitmaps [] = []"
| "part_bitmaps (TextPart t # ps) = part_bitmaps ps"
| "part_bitmaps (BitmapPart b # ps) = b # part_bitmaps ps"

lemma part_bitmaps_append [simp]: "part_bitmaps (ps @ rs) = part_bitmaps ps @ part_bitmaps rs"
  by (induction ps rule: part_bitmaps.induct) auto

lemma join_parts_append:
  "length (part_bitmaps ps) \<le> length ms \<Longrightarrow>
   join_parts (ps @ rs) ms = join_parts ps ms @ join_parts rs (drop (length (part_bitmaps ps)) ms)"
  by (induction ps ms rule: join_parts.induct) auto

lemma split_parts_acc:
  "split_parts prompt ms pos acc = bindr (split_parts prompt ms pos []) (\<lambda>ps. Inr (acc @ ps))"
proof (induction ms arbitrary: pos acc)
  case (Cons m ms)
  obtain marker b where m: "m = (marker, b)" by fastforce
  show ?case
  proof (cases "find_from marker prompt pos")
    case None
    then show ?thesis by (simp add: m)
  next
    case (Some k)
    let ?new = "(if k > pos then [TextPart (take (k - pos) (drop pos prompt))] else []) @ [BitmapPart b]"
    have "split_parts prompt ms (k + length marker) (acc @ ?new)
        = bindr (bindr (split_parts prompt ms (k + length marker) []) (\<lambda>ps. Inr (?new @ ps))) (\<lambda>ps. Inr (acc @ ps))"
      unfolding Cons.IH [of _ "acc @ ?new"] by (cases "split_parts prompt ms (k + length marker) []") simp_all
    also have "\<dots> = bindr (split_parts prompt ms (k + length marker) ?new) (\<lambda>ps. Inr (acc @ ps))"
      by (simp only: Cons.IH [of _ ?new, symmetric])
    finally show ?thesis using Some by (simp add: m)
  qed
qed simp

text \<open>
  What splitting has to find, said without the search: the text before a slot ends where the marker occurs
  first, the marker does not occur again behind the slot, and the remaining slots are in what follows.
\<close>

definition text_part :: "byte list \<Rightarrow> 'b media_part list" where
  "text_part u = (if u = [] then [] else [TextPart u])"

inductive media_slots :: "byte list \<Rightarrow> (byte list \<times> 'b) list \<Rightarrow> 'b media_part list \<Rightarrow> bool" where
  last_text: "media_slots u [] (text_part u)"
| slot: "\<forall>u' v'. u @ m @ v = u' @ m @ v' \<longrightarrow> length u \<le> length u' \<Longrightarrow> \<not> sublist m v \<Longrightarrow> media_slots v ms parts
    \<Longrightarrow> media_slots (u @ m @ v) ((m, b) # ms) (text_part u @ BitmapPart b # parts)"

inductive_simps no_slots [simp]: "media_slots s [] parts"
inductive_cases first_slot: "media_slots s ((m, b) # ms) parts"

lemma first_at_prefix: "first_at m (m @ v) = Some 0"
  by (cases "m @ v") (auto, metis append_eq_conv_conj)

lemma first_at_iff:
  "first_at m s = Some k \<longleftrightarrow> (\<exists>u v. s = u @ m @ v \<and> length u = k
     \<and> (\<forall>u' v'. s = u' @ m @ v' \<longrightarrow> k \<le> length u'))"
proof -
  have least: "k \<le> length u'" if "first_at m s = Some k" "s = u' @ m @ v'" for k u' v'
    using that
  proof (induction u' arbitrary: s k)
    case (Cons c u')
    then show ?case by (cases "take (length m) (c # u' @ m @ v') = m") auto
  qed (simp add: first_at_prefix)
  show ?thesis
  proof
    assume found: "first_at m s = Some k"
    then have "k + length m \<le> length s" "take (length m) (drop k s) = m"
      using first_at_Some by auto
    then have "s = take k s @ m @ drop (k + length m) s" "length (take k s) = k"
      by (simp_all add: add.commute) (metis append_take_drop_id drop_drop add.commute)
    then show "\<exists>u v. s = u @ m @ v \<and> length u = k \<and> (\<forall>u' v'. s = u' @ m @ v' \<longrightarrow> k \<le> length u')"
      using least [OF found] by blast
  next
    assume "\<exists>u v. s = u @ m @ v \<and> length u = k \<and> (\<forall>u' v'. s = u' @ m @ v' \<longrightarrow> k \<le> length u')"
    then obtain u v where s: "s = u @ m @ v" "length u = k" and first: "\<forall>u' v'. s = u' @ m @ v' \<longrightarrow> k \<le> length u'"
      by blast
    obtain j where j: "first_at m s = Some j" using first_at_None s by (metis option.exhaust)
    then have "s = take j s @ m @ drop (j + length m) s" "length (take j s) = j"
      using first_at_Some [OF j] by (simp_all add: add.commute) (metis append_take_drop_id drop_drop add.commute)
    then have "k \<le> j" using first by metis
    then show "first_at m s = Some k" using least [OF j s(1)] s(2) j by simp
  qed
qed

lemma find_from_absent: "n \<le> length s \<Longrightarrow> find_from m s n = None \<longleftrightarrow> \<not> sublist m (drop n s)"
proof -
  have "first_at m t = None \<longleftrightarrow> \<not> sublist m t" for t
    using first_at_None [of m t] first_at_iff [of m t] unfolding sublist_def by (metis option.exhaust)
  then show "n \<le> length s \<Longrightarrow> ?thesis" by (simp add: find_from_def)
qed

lemma split_parts_step:
  assumes "pos \<le> length prompt"
  shows "split_parts prompt ((m, b) # ms) pos [] = (case first_at m (drop pos prompt) of
     None \<Rightarrow> throw RuntimeUnavailable ''Chat template did not preserve native media ordering''
   | Some j \<Rightarrow> if sublist m (drop (length m) (drop j (drop pos prompt)))
       then throw RuntimeUnavailable ''Chat template did not preserve native media ordering''
       else bindr (split_parts prompt ms (pos + j + length m) [])
         (\<lambda>ps. Inr (text_part (take j (drop pos prompt)) @ BitmapPart b # ps)))"
proof (cases "first_at m (drop pos prompt)")
  case (Some j)
  let ?new = "(if j > 0 then [TextPart (take j (drop pos prompt))] else []) @ [BitmapPart b]"
  have bound: "j + length m \<le> length (drop pos prompt)" using first_at_Some [OF Some] by blast
  have found: "find_from m prompt pos = Some (pos + j)" using Some assms by (simp add: find_from_def)
  have again: "find_from m prompt (pos + j + length m) = None \<longleftrightarrow> \<not> sublist m (drop (length m) (drop j (drop pos prompt)))"
    using find_from_absent [of "pos + j + length m" prompt m] bound assms by (simp add: ac_simps)
  have "0 < j \<Longrightarrow> pos < length prompt" using bound by simp
  then show ?thesis unfolding split_parts.simps found option.case append_Nil Some
    by (auto simp: again text_part_def split_parts_acc [of prompt ms _ "_ # _"])
qed (use assms in \<open>simp add: find_from_def\<close>)

lemma split_parts_slots:
  "pos \<le> length prompt \<Longrightarrow> split_parts prompt ms pos [] = Inr ps \<longleftrightarrow> media_slots (drop pos prompt) ms ps"
proof (induction ms arbitrary: pos ps)
  case Nil
  then show ?case by (auto simp: text_part_def)
next
  case (Cons x ms)
  obtain m b where x: "x = (m, b)" by fastforce
  let ?s = "drop pos prompt"
  have step: "split_parts prompt (x # ms) pos [] = Inr ps \<longleftrightarrow> (\<exists>rest. media_slots v ms rest
      \<and> \<not> sublist m v \<and> ps = text_part u @ BitmapPart b # rest)"
    if s: "?s = u @ m @ v" and j: "first_at m ?s = Some (length u)" for u v
  proof -
    have v: "drop (length m) (drop (length u) ?s) = v" "take (length u) ?s = u" using s by simp_all
    have "pos + length u + length m \<le> length prompt"
      using arg_cong [OF s, of length] Cons.prems by simp
    note IH = Cons.IH [OF this]
    have "drop (pos + length u + length m) prompt = v" using v(1) by (simp add: ac_simps)
    then show ?thesis
      unfolding x split_parts_step [OF Cons.prems] j option.case v by (auto simp: bindr_Inr_iff IH throw_def)
  qed
  show ?case
  proof
    assume run: "split_parts prompt (x # ms) pos [] = Inr ps"
    then obtain j where j: "first_at m ?s = Some j"
      unfolding x split_parts_step [OF Cons.prems] by (auto simp: throw_def split: option.splits)
    then obtain u v where s: "?s = u @ m @ v" "length u = j" "\<forall>u' v'. ?s = u' @ m @ v' \<longrightarrow> j \<le> length u'"
      unfolding first_at_iff by blast
    have "\<forall>u' v'. u @ m @ v = u' @ m @ v' \<longrightarrow> length u \<le> length u'" using s by metis
    then show "media_slots ?s (x # ms) ps"
      using step [OF s(1)] run j s(2) by (auto simp: x s(1) intro: media_slots.slot)
  next
    assume "media_slots ?s (x # ms) ps"
    then obtain u v rest where s: "?s = u @ m @ v" "\<forall>u' v'. u @ m @ v = u' @ m @ v' \<longrightarrow> length u \<le> length u'"
      and rest: "\<not> sublist m v" "media_slots v ms rest" "ps = text_part u @ BitmapPart b # rest"
      unfolding x by (elim first_slot) auto
    have "first_at m ?s = Some (length u)" unfolding first_at_iff using s by metis
    then show "split_parts prompt (x # ms) pos [] = Inr ps" using step [OF s(1)] rest by blast
  qed
qed

lemma split_parts_refuses:
  "pos \<le> length prompt \<Longrightarrow> split_parts prompt ms pos [] = Inl e \<Longrightarrow>
     split_parts prompt ms pos [] = throw RuntimeUnavailable ''Chat template did not preserve native media ordering''"
proof (induction ms arbitrary: pos e)
  case (Cons x ms)
  obtain m b where x: "x = (m, b)" by fastforce
  show ?case
  proof (cases "first_at m (drop pos prompt)")
    case (Some j)
    have "j + length m \<le> length prompt - pos" using first_at_Some [OF Some] by simp
    then have "pos + j + length m \<le> length prompt" using Cons.prems(1) by arith
    note bound = this
    have IH: "e' = Error RuntimeUnavailable (qs ''Chat template did not preserve native media ordering'')"
      if "split_parts prompt ms (pos + j + length m) [] = Inl e'" for e'
      using Cons.IH [OF bound that] that by (simp add: throw_def)
    show ?thesis using Cons.prems(2) unfolding x split_parts_step [OF Cons.prems(1)] Some
      by (cases "split_parts prompt ms (pos + j + length m) []") (auto simp: throw_def split: if_splits dest: IH)
  qed (use Cons.prems(2) in \<open>unfold x split_parts_step [OF Cons.prems(1)], simp add: throw_def\<close>)
qed simp

lemma media_slots_spell:
  "media_slots s ms parts \<Longrightarrow> join_parts parts (map fst ms) = s \<and> part_bitmaps parts = map snd ms"
  by (induction rule: media_slots.induct) (auto simp: text_part_def)

text \<open>
  C28. A prompt with media is split exactly at its markers. It is accepted just when there are slots for the
  bitmaps of the request, in the order of the messages: each marker taken where it occurs first behind the slot
  before it, and not occurring again behind its own; the parts then are those slots, each bitmap read as its
  marker they spell the prompt, and the bitmaps are those of the request, each once and in order. Any other
  prompt - a marker lost, moved before its predecessor, or repeated behind its slot - is refused with
  RuntimeUnavailable.
\<close>

theorem media_split_exact:
  fixes bitmaps :: "'b list" and parts :: "'b media_part list"
  assumes "length markers = length bitmaps"
  shows "(split_parts prompt (zip markers bitmaps) 0 [] = Inr parts
      \<longleftrightarrow> media_slots prompt (zip markers bitmaps) parts)
    \<and> (media_slots prompt (zip markers bitmaps) parts \<longrightarrow> join_parts parts markers = prompt \<and> part_bitmaps parts = bitmaps)
    \<and> ((\<nexists>parts. media_slots prompt (zip markers bitmaps) parts) \<longrightarrow> split_parts prompt (zip markers bitmaps) 0 []
        = throw RuntimeUnavailable ''Chat template did not preserve native media ordering'')"
proof (intro conjI impI)
  show slots: "split_parts prompt (zip markers bitmaps) 0 [] = Inr parts \<longleftrightarrow> media_slots prompt (zip markers bitmaps) parts" for parts
    using split_parts_slots [of 0 prompt] by simp
  show "join_parts parts markers = prompt" "part_bitmaps parts = bitmaps" if "media_slots prompt (zip markers bitmaps) parts"
    using media_slots_spell [OF that] assms by simp_all
  show "split_parts prompt (zip markers bitmaps) 0 []
      = throw RuntimeUnavailable ''Chat template did not preserve native media ordering''"
    if "\<nexists>parts. media_slots prompt (zip markers bitmaps) parts"
    using that slots split_parts_refuses [of 0 prompt "zip markers bitmaps"]
    by (cases "split_parts prompt (zip markers bitmaps) 0 []") auto
qed

theorem media_split_exact_witness:
  "media_slots [1, 9, 2] (zip [[9]] [()]) [TextPart [1], BitmapPart (), TextPart [2]]
    \<and> join_parts [TextPart [1], BitmapPart (), TextPart [2]] [[9]] = [1, 9, 2]
    \<and> split_parts [9, 1, 9] (zip [[9]] [()]) 0 []
      = throw RuntimeUnavailable ''Chat template did not preserve native media ordering''"
proof -
  have "split_parts [1, 9, 2] (zip [[9]] [()]) 0 [] = Inr [TextPart [1], BitmapPart (), TextPart [2]]"
    "\<And>parts. split_parts [9, 1, 9] (zip [[9]] [()]) 0 [] \<noteq> Inr parts"
    by (simp_all add: find_from_def throw_def)
  then show ?thesis
    using media_split_exact [of "[[9]]" "[()]" "[1, 9, 2]" "[TextPart [1], BitmapPart (), TextPart [2]]"]
      media_split_exact [of "[[9]]" "[()]" "[9, 1, 9]"] by simp
qed

text \<open>
  The search for a repetition looks only behind the slot. A prompt in which the second marker also stands
  before the first one is split, and that copy of the marker stays in the prompt as ordinary text.
\<close>

lemma earlier_marker_stays_text:
  "split_parts [9, 8, 9] [([8], a), ([9], b)] 0 [] = Inr [TextPart [9], BitmapPart a, BitmapPart b]"
  by (simp add: find_from_def)

section \<open>Media within the limit\<close>

definition media_ok_state :: "('x, 'p, 't, 'q, 'b, 'k) chat_library \<Rightarrow> 'p option \<Rightarrow> ('b, 'z) media_state_scheme \<Rightarrow> bool" where
  "media_ok_state C projector s \<longleftrightarrow> (ms_bitmaps s = [] \<or> projector \<noteq> None)
     \<and> ms_markers s = map (make_marker C) [0..<length (ms_bitmaps s)]
     \<and> int (unat (ms_decoded s)) = (\<Sum>(b, v)\<leftarrow>ms_bitmaps s. int (unat (cl_bytes C b)))
     \<and> ms_decoded s \<le> media_limit"

lemma decode_media_fits:
  assumes "decode_media C projector block decoded = Inr b"
  shows "cl_bytes C b \<le> media_limit - decoded"
proof (cases projector)
  case None
  then show ?thesis using assms by (simp add: decode_media_def)
next
  case (Some p)
  obtain bytes where "(case cl_decode C p bytes of
         None \<Rightarrow> throw InvalidArgument ''Cannot decode native media bytes''
       | Some b \<Rightarrow>
           if cl_is_audio C b \<noteq> (jvalue block ''type'' = JStr (qs ''audio''))
           then throw InvalidArgument ''Media bytes do not match their declared modality''
           else if cl_bytes C b > media_limit - decoded
           then throw ResourceLimit ''Decoded request media exceeds 128 MiB''
           else Inr b) = Inr b"
    using assms unfolding decode_media_def Some option.case Let_def bindr_Inr_iff by blast
  then show ?thesis by (cases "cl_decode C p bytes") (simp_all split: if_splits)
qed

lemma add_bitmap_ok:
  fixes C :: "('x, 'p, 't, 'q, 'b, 'k) chat_library"
  shows "keeps (media_ok_state C projector :: ('b, 'z) media_state_scheme \<Rightarrow> bool) (add_bitmap C cancelled projector block video)"
proof (rule keeps_iff [THEN iffD2], intro allI impI)
  fix s :: "('b, 'z) media_state_scheme"
  assume ok: "media_ok_state C projector s"
  show "media_ok_state C projector (fst (add_bitmap C cancelled projector block video s))"
  proof (cases "cancelled (ms_checks s)")
    case True
    then show ?thesis using ok by (simp add: add_bitmap_def act_bind_def check_media_def throw_def media_ok_state_def)
  next
    case False
    show ?thesis
    proof (cases "decode_media C projector block (ms_decoded s)")
      case (Inl e)
      then show ?thesis using ok False by (simp add: add_bitmap_def act_bind_def check_media_def media_ok_state_def)
    next
      case (Inr b)
      have le: "cl_bytes C b \<le> media_limit - ms_decoded s" by (rule decode_media_fits [OF Inr])
      have lim: "ms_decoded s \<le> media_limit" using ok by (simp add: media_ok_state_def)
      then have "unat (cl_bytes C b) \<le> unat media_limit - unat (ms_decoded s)" "unat (ms_decoded s) \<le> unat media_limit"
        using le by (simp_all add: word_le_nat_alt unat_sub)
      then have "unat (ms_decoded s) + unat (cl_bytes C b) \<le> unat media_limit" by linarith
      moreover have "unat media_limit < 2 ^ 64" by (simp add: media_limit_def)
      ultimately have "unat (ms_decoded s + cl_bytes C b) = unat (ms_decoded s) + unat (cl_bytes C b)"
        and "ms_decoded s + cl_bytes C b \<le> media_limit"
        by (simp_all add: unat_word_ariths word_le_nat_alt)
      moreover have "projector \<noteq> None" using Inr by (cases projector) (simp_all add: decode_media_def)
      ultimately show ?thesis using ok False Inr
        by (simp add: add_bitmap_def act_bind_def check_media_def media_ok_state_def)
    qed
  qed
qed

lemma message_ok:
  fixes C :: "('x, 'p, 't, 'q, 'b, 'k) chat_library"
  shows "keeps (media_ok_state C projector :: ('b, 'z) media_state_scheme \<Rightarrow> bool) (native_message C cancelled projector v)"
proof -
  have frame: "keeps (media_ok_state C projector :: ('b, 'z) media_state_scheme \<Rightarrow> bool) (llama_video_frame C cancelled projector f)" for f
    unfolding llama_video_frame_def Let_def by (intro triples add_bitmap_ok)
  have block: "keeps (media_ok_state C projector :: ('b, 'z) media_state_scheme \<Rightarrow> bool) (native_block C cancelled projector item)" for item
    unfolding native_block_def Let_def by (intro triple_if triples frame add_bitmap_ok)
  show ?thesis unfolding native_message_def Let_def by (intro triple_if triples block)
qed

lemma check_media_ok: "keeps (media_ok_state C projector) (check_media cancelled)"
  by (simp add: keeps_iff check_media_def media_ok_state_def)

definition prepared_within :: "('x, 'p, 't, 'q, 'b, 'k) chat_library \<Rightarrow> 'p option \<Rightarrow> ('k, 'q) prompt_state conversation_prompt \<Rightarrow>
    ('b, 'z) media_state_scheme \<Rightarrow> bool" where
  "prepared_within C projector p s \<longleftrightarrow> media_ok_state C projector s \<and> cp_input_tokens p = cs_input_tokens (cp_state p)
     \<and> (if ms_bitmaps s = [] then cp_input_tokens p = 0 \<and> cs_chunks (cp_state p) = None
        else cp_input_tokens p \<le> 2147483647 \<and> (\<exists>chunks. cs_chunks (cp_state p) = Some chunks
          \<and> cl_count C chunks \<le> cp_input_tokens p \<and> cl_positions C chunks \<le> cp_input_tokens p))"

lemma media_tokens_bound:
  assumes "media_tokens C p prompt markers bitmaps = Inr (chunks, n, tokens)"
  shows "n \<le> 2147483647 \<and> cl_count C chunks \<le> n \<and> cl_positions C chunks \<le> n"
proof -
  obtain parts where "split_parts prompt (zip markers bitmaps) 0 [] = Inr parts"
    using assms by (auto simp: media_tokens_def)
  then show ?thesis using assms
    by (cases "cl_tokenize_parts C p parts") (auto simp: media_tokens_def Let_def split: if_splits)
qed

lemma triple_prompt_tokens:
  "triple (media_ok_state C projector) (prompt_tokens_of C x projector prompt)
    (\<lambda>(chunks, n, tokens) s. media_ok_state C projector s \<and> (if ms_bitmaps s = [] then n = 0 \<and> chunks = None
       else n \<le> 2147483647 \<and> (\<exists>cs. chunks = Some cs \<and> cl_count C cs \<le> n \<and> cl_positions C cs \<le> n))) (\<lambda>_. True)"
proof (rule tripleI, goal_cases)
  case (1 s s' r)
  show ?case
  proof (cases "ms_bitmaps s")
    case Nil
    then show ?thesis using 1 by (auto simp: prompt_tokens_of_def)
  next
    case (Cons b bs)
    then obtain p where "projector = Some p" using 1(1) by (auto simp: media_ok_state_def)
    then show ?thesis using 1 Cons media_tokens_bound
      by (fastforce simp: prompt_tokens_of_def)
  qed
qed simp

lemma triple_any: "triple (\<lambda>_. True) m (\<lambda>_ _. True) (\<lambda>_. True)"
  by (simp add: triple_def split: prod.split sum.split)

lemma triple_throws:
  assumes "triple P m Q E"
  shows "triple P m Q (\<lambda>_. True)"
  by (rule triple_weaken [OF assms]) simp_all

lemma triple_prepare: "triple (\<lambda>_. True) (llama_prepare C cancelled x projector rq) (prepared_within C projector) (\<lambda>_. True)"
proof -
  have last: "triple (\<lambda>s. media_ok_state C projector s \<and> (if ms_bitmaps s = [] then n = 0 \<and> chunks = None
       else n \<le> 2147483647 \<and> (\<exists>cs. chunks = Some cs \<and> cl_count C cs \<le> n \<and> cl_positions C cs \<le> n)))
      (act_bind (check_media cancelled) (\<lambda>_. ret (prepared_prompt C rq chat thinking parser chunks n tokens)))
      (prepared_within C projector) (\<lambda>_. True)" for n chunks chat thinking parser tokens
    by (auto simp: triple_def act_bind_def check_media_def prepared_within_def prepared_prompt_def media_ok_state_def throw_def
        split: if_splits)
  have start: "triple (\<lambda>_. True) (modify (\<lambda>s. s\<lparr>ms_decoded := 0, ms_markers := [], ms_bitmaps := []\<rparr>))
      (\<lambda>_. media_ok_state C projector) (\<lambda>_. True)"
    by (simp add: triple_def media_ok_state_def)
  show ?thesis unfolding llama_prepare_def Let_def
    apply (rule triple_bind [OF triple_any], rule triple_bind [OF triple_any], rule triple_bind [OF start])
    apply (rule triple_bind [OF triple_throws [OF triple_act_map [OF message_ok]]])
    apply (rule triple_bind [OF triple_throws [OF keeps_basic(4)]], rule triple_bind [OF triple_throws [OF keeps_basic(2)]],
        rule triple_bind [OF triple_throws [OF keeps_basic(2)]], rule triple_bind [OF triple_prompt_tokens])
    apply (clarsimp simp only: split_paired_all prod.case)
    apply (rule last)
    done
qed

section \<open>The options of the model\<close>

lemma more_options: "media_state.more s = media_state.more s' \<Longrightarrow> ct_options s = ct_options s' \<and> ct_templates s = ct_templates s'"
  by (cases s; cases s') simp

lemma more_check: "keeps (\<lambda>s. media_state.more s = r) (check_media cancelled)"
  by (simp add: keeps_iff check_media_def)

lemma more_message: "keeps (\<lambda>s. media_state.more s = r) (native_message C cancelled projector v)"
proof -
  have bitmap: "keeps (\<lambda>s. media_state.more s = r) (add_bitmap C cancelled projector b v)" for b v
    unfolding add_bitmap_def by (intro triples more_check) (simp_all add: keeps_iff)
  have frame: "keeps (\<lambda>s. media_state.more s = r) (llama_video_frame C cancelled projector f)" for f
    unfolding llama_video_frame_def Let_def by (intro triples bitmap)
  have block: "keeps (\<lambda>s. media_state.more s = r) (native_block C cancelled projector item)" for item
    unfolding native_block_def Let_def by (intro triple_if triples frame bitmap)
  show ?thesis unfolding native_message_def Let_def by (intro triple_if triples block)
qed

definition has_options :: "json_object \<Rightarrow> ('b, 't) prepare_state \<Rightarrow> bool" where
  "has_options o' s \<longleftrightarrow> ct_options s = o'"

lemma options_by_more:
  assumes "\<And>r. keeps (\<lambda>s. media_state.more s = r) m"
  shows "keeps (has_options o') m"
proof -
  have "has_options o' (fst (m s))" if "has_options o' s" for s
  proof -
    have "media_state.more (fst (m s)) = media_state.more s" using assms [of "media_state.more s"] by (simp add: keeps_iff)
    from more_options [OF this] that show ?thesis by (simp add: has_options_def)
  qed
  then show ?thesis by (simp add: keeps_iff)
qed

lemma options_tokens: "keeps (has_options o') (prompt_tokens_of C x projector prompt)"
  by (simp add: keeps_iff prompt_tokens_of_def)

text \<open>Whatever follows in a preparation, the options stay what its start made of them.\<close>

lemma prepare_options:
  assumes "\<not> cancelled (ms_checks s)"
  shows "ct_options (fst (llama_prepare C cancelled x projector rq s))
    = (if ct_templates s = None then touch ''chat_template'' (ct_options s) else ct_options s)"
proof -
  let ?o = "if ct_templates s = None then touch ''chat_template'' (ct_options s) else ct_options s"
  let ?s = "s\<lparr>ms_checks := Suc (ms_checks s)\<rparr>"
  have start: "has_options ?o (fst (ensure_templates C x ?s))"
    by (simp add: ensure_templates_def has_options_def Let_def split: option.split sum.split)
  have tokens: "keeps (has_options ?o) (act_bind (prompt_tokens_of C x projector prompt) (\<lambda>(chunks, n, tokens).
      act_bind (check_media cancelled) (\<lambda>_. ret (prepared_prompt C rq chat thinking parser chunks n tokens))))"
    for prompt chat thinking parser
  proof -
    have "keeps (has_options ?o) (case y of (chunks, n, tokens) \<Rightarrow>
      act_bind (check_media cancelled) (\<lambda>_. ret (prepared_prompt C rq chat thinking parser chunks n tokens)))" for y
      by (cases y, simp only: prod.case) (intro triples options_by_more more_check)
    then show ?thesis by (intro keeps_bind options_tokens)
  qed
  have reset: "keeps (has_options ?o) (modify (\<lambda>s. s\<lparr>ms_decoded := 0, ms_markers := [], ms_bitmaps := []\<rparr>))"
    by (simp add: keeps_iff has_options_def)
  have "has_options ?o (fst (llama_prepare C cancelled x projector rq s))"
  proof (cases "ensure_templates C x ?s")
    case (Pair s1 r)
    have s1: "has_options ?o s1" using start Pair by simp
    have pre: "check_media cancelled s = (?s, Inr ())" using assms by (simp add: check_media_def)
    show ?thesis
    proof (cases r)
      case (Inl e)
      then show ?thesis using s1 Pair pre by (simp add: llama_prepare_def)
    next
      case (Inr t)
      have "keeps (has_options ?o) (act_bind (modify (\<lambda>s. s\<lparr>ms_decoded := 0, ms_markers := [], ms_bitmaps := []\<rparr>)) (\<lambda>_.
     act_bind (act_map (native_message C cancelled projector) (conv_messages rq)) (\<lambda>messages.
     act_bind (gets ct_options) (\<lambda>options.
     let input = chat_input_of rq options messages in
     act_bind (lift_res (cl_apply C t input)) (\<lambda>chat0.
     let chat = drop_grammar rq options (open_envelope C rq t (ci_thinking input) chat0) in
     act_bind (lift_res (cl_parser C chat)) (\<lambda>parser.
     act_bind (prompt_tokens_of C x projector (ch_prompt chat)) (\<lambda>(chunks, n, tokens).
     act_bind (check_media cancelled) (\<lambda>_.
     ret (prepared_prompt C rq chat (ci_thinking input) parser chunks n tokens)))))))))"
        unfolding Let_def by (intro keeps_bind keeps_act_map keeps_basic reset tokens options_by_more more_message)
      then show ?thesis using s1 Pair pre Inr by (simp add: llama_prepare_def keeps_iff)
    qed
  qed
  then show ?thesis by (simp add: has_options_def)
qed

section \<open>Properties\<close>

text \<open>
  C27. The media of a prepared conversation stay within their limit: the decoded bytes are counted
  without wrap-around and are at most 128 MiB in all; each bitmap has its own marker, numbered in order;
  the input length that is announced covers both the tokens and the positions of the chunks and fits
  an \<^verbatim>\<open>int\<close>; and a request without media announces none.
\<close>

theorem llama_media_within_limit:
  assumes "llama_prepare C cancelled x projector rq s = (s', Inr p)"
  shows "(\<Sum>(b, v)\<leftarrow>ms_bitmaps s'. int (unat (cl_bytes C b))) \<le> 128 * 1024 * 1024
    \<and> ms_markers s' = map (make_marker C) [0..<length (ms_bitmaps s')]
    \<and> cp_input_tokens p = cs_input_tokens (cp_state p)
    \<and> (if ms_bitmaps s' = [] then cp_input_tokens p = 0 \<and> cs_chunks (cp_state p) = None
       else projector \<noteq> None \<and> cp_input_tokens p \<le> 2147483647 \<and> (\<exists>chunks. cs_chunks (cp_state p) = Some chunks
          \<and> cl_count C chunks \<le> cp_input_tokens p \<and> cl_positions C chunks \<le> cp_input_tokens p))"
proof -
  have p: "prepared_within C projector p s'"
    using tripleD(1) [OF triple_prepare TrueI assms] .
  then have "ms_decoded s' \<le> media_limit" by (simp add: prepared_within_def media_ok_state_def)
  then have "int (unat (ms_decoded s')) \<le> int (unat media_limit)" by (simp only: word_le_nat_alt of_nat_le_iff)
  moreover have "unat media_limit = 128 * 1024 * 1024" by (simp add: media_limit_def)
  ultimately show ?thesis using p by (auto simp: prepared_within_def media_ok_state_def)
qed

definition sample_chat :: "(unit, unit, unit, unit, unit, unit) chat_library" where
  "sample_chat = \<lparr>cl_to_utf8 = map ucast, cl_from_utf8 = map ucast, cl_compact = (\<lambda>_. []), cl_milliseconds = (\<lambda>_. []),
     cl_nonce = [7], cl_number = (\<lambda>_. []), cl_embedded = (\<lambda>_. Some [1]), cl_apply_template = (\<lambda>_ _ _. (1, [1])),
     cl_tokenize_into = (\<lambda>_ _ n. if n = 0 then (- 1, []) else (1, [1])), cl_tokenize = (\<lambda>_ _. [1]),
     cl_templates = (\<lambda>_ _. Inr ()), cl_apply = (\<lambda>_ _. Inr \<lparr>ch_prompt = [1] @ ascii ''<__iillm_'' @ [7] @ ascii ''___>'',
       ch_generation_prompt = [], ch_grammar = [], ch_grammar_lazy = False, ch_grammar_triggers = [],
       ch_preserved_tokens = [], ch_additional_stops = [], ch_supports_thinking = False, ch_thinking_start_tag = []\<rparr>),
     cl_source = (\<lambda>_. []), cl_parser = (\<lambda>_. Inr ()), cl_parser_prompt = (\<lambda>_. []), cl_set_parser_prompt = (\<lambda>_ _. ()),
     cl_parse = (\<lambda>_ _. Inr \<lparr>pr_content = [], pr_reasoning = [], pr_calls = []\<rparr>), cl_supports_audio = (\<lambda>_. True),
     cl_supports_vision = (\<lambda>_. True), cl_image_info = (\<lambda>_. Some (1, 1)), cl_decode = (\<lambda>_ _. Some ()),
     cl_is_audio = (\<lambda>_. True), cl_bytes = (\<lambda>_. 3), cl_tokenize_parts = (\<lambda>_ _. Some [()]), cl_count = (\<lambda>_. 5),
     cl_positions = (\<lambda>_. 4), cl_text_tokens = (\<lambda>_. None)\<rparr>"

definition sample_prepare_state :: "(unit, unit) prepare_state" where
  "sample_prepare_state = \<lparr>ms_checks = 0, ms_decoded = 0, ms_markers = [], ms_bitmaps = [], ct_templates = None, ct_options = []\<rparr>"

definition audio_request :: conversation_request where
  "audio_request = (plain_request [])\<lparr>conv_messages :=
     [JObj (jobj [(''role'', JStr (qs ''user'')), (''content'', JArr sample_content)])]\<rparr>"

definition sample_audio :: json_object where
  "sample_audio = jobj (media_fields (qs ''audio'') (qs ''audio/mpeg'') [1, 2, 3])"

lemma audio_fields: "jvalue sample_audio ''type'' = JStr (qs ''audio'')" "media_bytes sample_audio = Inr [1, 2, 3]"
  by (simp_all add: sample_audio_def media_bytes_iff jobj_value media_fields_def del: encode64.simps)

lemma audio_decoded: "decode_media sample_chat (Some ()) sample_audio 0 = Inr ()"
  by (simp add: decode_media_def audio_fields) (simp add: sample_chat_def media_limit_def)

lemma audio_content: "native_content (\<lambda>_. []) sample_content 1048576 = Inr [JObj (text_block (JStr (qs ''hi''))), JObj sample_audio]"
proof -
  obtain k where "fold_res (add_block (\<lambda>_. [])) sample_content ([], 0) = Inr (sample_normal, k)" "k \<le> 64" "length sample_content \<le> 64"
    using sample_blocks by (auto simp: native_content_iff)
  then have "native_content (\<lambda>_. []) sample_content 1048576 = Inr sample_normal" by (simp add: native_content_iff)
  then show ?thesis by (simp add: sample_normal_def sample_audio_def)
qed

lemma audio_blocks:
  fixes s :: "(unit, unit) prepare_state"
  assumes "ms_decoded s = 0" and "ms_markers s = []" and "ms_bitmaps s = []"
  shows "\<exists>ps. act_map (native_block sample_chat (\<lambda>_. False) (Some ())) [JObj (text_block (JStr (qs ''hi''))), JObj sample_audio] s
      = (s\<lparr>ms_checks := Suc (ms_checks s), ms_decoded := 3, ms_markers := [make_marker sample_chat 0],
           ms_bitmaps := [((), False)]\<rparr>, Inr ps)"
proof -
  have "cl_bytes sample_chat () = 3" by (simp add: sample_chat_def)
  then have marker: "\<exists>v. add_bitmap sample_chat (\<lambda>_. False) (Some ()) sample_audio False s
      = (s\<lparr>ms_checks := Suc (ms_checks s), ms_decoded := 3, ms_markers := [make_marker sample_chat 0],
           ms_bitmaps := [((), False)]\<rparr>, Inr v)"
    using assms by (simp add: add_bitmap_def act_bind_def check_media_def audio_decoded)
  have plain: "native_block sample_chat (\<lambda>_. False) (Some ()) (JObj (text_block (JStr (qs ''hi'')))) s
      = (s, Inr [JObj (text_block (JStr (qs ''hi'')))])"
    by (simp add: native_block_def text_block_def jobj_value)
  have audio: "\<exists>v. native_block sample_chat (\<lambda>_. False) (Some ()) (JObj sample_audio) s
      = (s\<lparr>ms_checks := Suc (ms_checks s), ms_decoded := 3, ms_markers := [make_marker sample_chat 0],
           ms_bitmaps := [((), False)]\<rparr>, Inr v)"
    using marker by (auto simp: native_block_def audio_fields act_bind_def)
  then show ?thesis using plain by (auto simp: act_bind_def)
qed

lemma audio_split: "split_parts ([1] @ ascii ''<__iillm_'' @ [7] @ ascii ''___>'') [(make_marker sample_chat 0, ((), False))] 0 []
    = Inr [TextPart [1], BitmapPart ((), False)]"
  by (simp add: make_marker_def sample_chat_def ascii_def find_from_def)

lemma audio_messages:
  fixes s :: "(unit, unit) prepare_state"
  assumes "ms_decoded s = 0" and "ms_markers s = []" and "ms_bitmaps s = []"
  shows "\<exists>vs. act_map (native_message sample_chat (\<lambda>_. False) (Some ())) (conv_messages audio_request) s
      = (s\<lparr>ms_checks := Suc (ms_checks s), ms_decoded := 3, ms_markers := [make_marker sample_chat 0],
           ms_bitmaps := [((), False)]\<rparr>, Inr vs)"
proof -
  let ?m = "jobj [(''role'', JStr (qs ''user'')), (''content'', JArr sample_content)]"
  have compacted: "cl_compact sample_chat = (\<lambda>_. [])" by (simp add: sample_chat_def)
  have object: "touch ''content'' ?m = ?m" "jvalue ?m ''content'' = JArr sample_content"
    by (simp_all add: touch_def jhas_def ohas_def map_of_jobj jobj_value)
  obtain ps where ps: "act_map (native_block sample_chat (\<lambda>_. False) (Some ())) [JObj (text_block (JStr (qs ''hi''))), JObj sample_audio] s
      = (s\<lparr>ms_checks := Suc (ms_checks s), ms_decoded := 3, ms_markers := [make_marker sample_chat 0],
           ms_bitmaps := [((), False)]\<rparr>, Inr ps)"
    using audio_blocks [OF assms] by blast
  have "\<exists>v. native_message sample_chat (\<lambda>_. False) (Some ()) (JObj ?m) s
      = (s\<lparr>ms_checks := Suc (ms_checks s), ms_decoded := 3, ms_markers := [make_marker sample_chat 0],
           ms_bitmaps := [((), False)]\<rparr>, Inr v)"
    by (simp add: native_message_def object compacted audio_content Let_def del: act_map.simps)
      (simp only: act_bind_def ps prod.case sum.case ret_def, simp)
  then show ?thesis by (auto simp: audio_request_def act_bind_def)
qed

lemma audio_prepared:
  "\<exists>s' p. llama_prepare sample_chat (\<lambda>_. False) () (Some ()) audio_request sample_prepare_state = (s', Inr p) \<and> ms_bitmaps s' = [((), False)]"
proof -
  define opts where "opts = touch ''chat_template'' []"
  let ?s = "sample_prepare_state\<lparr>ms_checks := Suc 0, ct_templates := Some (), ct_options := opts\<rparr>"
  have ensured: "ensure_templates sample_chat () (sample_prepare_state\<lparr>ms_checks := Suc 0\<rparr>) = (?s, Inr ())"
    by (simp add: ensure_templates_def sample_prepare_state_def opts_def) (simp add: sample_chat_def)
  obtain vs where vs: "act_map (native_message sample_chat (\<lambda>_. False) (Some ())) (conv_messages audio_request) ?s
      = (?s\<lparr>ms_checks := 2, ms_decoded := 3, ms_markers := [make_marker sample_chat 0], ms_bitmaps := [((), False)]\<rparr>, Inr vs)"
    using audio_messages [of ?s] by (auto simp: sample_prepare_state_def numeral_2_eq_2)
  let ?s2 = "?s\<lparr>ms_checks := 2, ms_decoded := 3, ms_markers := [make_marker sample_chat 0], ms_bitmaps := [((), False)]\<rparr>"
  have first: "check_media (\<lambda>_. False) sample_prepare_state = (sample_prepare_state\<lparr>ms_checks := Suc 0\<rparr>, Inr ())"
    by (simp add: check_media_def sample_prepare_state_def)
  have cleared: "?s\<lparr>ms_decoded := 0, ms_markers := [], ms_bitmaps := []\<rparr> = ?s" by (simp add: sample_prepare_state_def)
  have request: "conv_parallel_tool_calls audio_request" "conv_response_schema audio_request = []"
    by (simp_all add: audio_request_def plain_request_def)
  obtain chat where chat: "cl_apply sample_chat = (\<lambda>_ _. Inr chat)"
    and prompt: "ch_prompt chat = [1] @ ascii ''<__iillm_'' @ [7] @ ascii ''___>''"
    by (simp add: sample_chat_def)
  have kept: "ch_prompt (drop_grammar audio_request o' (open_envelope sample_chat audio_request () b chat)) = ch_prompt chat" for o' b
    by (simp add: drop_grammar_def open_envelope_def single_turn_request_def request)
  have libs: "cl_parser sample_chat = (\<lambda>_. Inr ())" "cl_tokenize_parts sample_chat = (\<lambda>_ _. Some [()])"
    "cl_count sample_chat = (\<lambda>_. 5)" "cl_positions sample_chat = (\<lambda>_. 4)"
    by (simp_all add: sample_chat_def)
  have tokens: "\<exists>n ts. prompt_tokens_of sample_chat () (Some ()) (ch_prompt chat) ?s2 = (?s2, Inr (Some [()], n, ts))"
    using audio_split by (simp add: prompt_tokens_of_def media_tokens_def prompt libs del: append.simps append_Cons)
  then obtain n ts where tokens: "prompt_tokens_of sample_chat () (Some ()) (ch_prompt chat) ?s2 = (?s2, Inr (Some [()], n, ts))"
    by blast
  show ?thesis unfolding llama_prepare_def Let_def
    by (simp add: act_bind_def [of "check_media _"] first ensured)
      (use tokens in \<open>simp add: act_bind_def cleared vs chat libs kept check_media_def\<close>)
qed

theorem llama_media_within_limit_witness:
  "\<exists>s' p. llama_prepare sample_chat (\<lambda>_. False) () (Some ()) audio_request sample_prepare_state = (s', Inr p)
    \<and> ms_bitmaps s' = [((), False)] \<and> ms_markers s' = [make_marker sample_chat 0]
    \<and> cp_input_tokens p \<le> 2147483647"
proof -
  obtain s' p where run: "llama_prepare sample_chat (\<lambda>_. False) () (Some ()) audio_request sample_prepare_state = (s', Inr p)"
    "ms_bitmaps s' = [((), False)]" using audio_prepared by blast
  from llama_media_within_limit [OF run(1)] run show ?thesis by auto
qed

lemma touched:
  assumes "owf m" and "\<not> jhas m key"
  shows "jvalue (touch key m) key = JNull" "key' \<noteq> key \<Longrightarrow> jhas (touch key m) key' = jhas m key'"
  using assms by (simp_all add: touch_def jvalue_def jhas_def ohas_def omap)

text \<open>
  C26. The first structured conversation of a loaded model breaks its plain chats. A model whose options name
  neither a chat template nor thinking tokenizes a plain chat with the template of its file. After a
  conversation was prepared with it, successfully or not, every plain chat is refused with an error that
  blames an option nobody set: reading \<^verbatim>\<open>spec_.options["chat_template"]\<close> inserted the key
  with a null, which is neither undefined nor a string.
\<close>

theorem llama_chat_after_conversation:
  assumes "owf (ct_options s)" and "\<not> jhas (ct_options s) ''chat_template''" and "\<not> jhas (ct_options s) ''enable_thinking''"
    and "ct_templates s = None" and "\<not> cancelled (ms_checks s)"
    and "s' = fst (llama_prepare C cancelled x projector rq s)" and "\<not> cancelled (ms_checks s')"
    and "cl_to_utf8 C [] = []" and "cl_embedded C x = Some t"
  shows "snd (llama_tokenize C cancelled x projector messages s)
      = bindr (format_chat C t (map (\<lambda>m. (cl_to_utf8 C (role_name (msg_role m)), cl_to_utf8 C (msg_content m))) messages))
          (tokenize_bytes C x)
    \<and> snd (llama_tokenize C cancelled x projector messages s')
      = throw InvalidArgument ''chat_template must be a string''"
proof -
  have opts: "ct_options s' = touch ''chat_template'' (ct_options s)"
    using prepare_options [of cancelled s C x projector rq] assms(4-6) by simp
  have "template_of C x (ct_options s) = Inr t"
    using assms(2,8,9) by (simp add: template_of_def jvalue_def jhas_def ohas_def split: option.splits)
  moreover have "template_of C x (ct_options s') = throw InvalidArgument ''chat_template must be a string''"
    by (simp add: template_of_def opts touched(1) [OF assms(1,2)])
  moreover have "\<not> jhas (ct_options s') ''enable_thinking''"
    using touched(2) [OF assms(1,2), of "''enable_thinking''"] assms(3) by (simp add: opts)
  ultimately show ?thesis using assms(3,5,7)
    by (simp add: llama_tokenize_def act_bind_def check_media_def)
qed

theorem llama_chat_after_conversation_witness:
  "snd (llama_tokenize sample_chat (\<lambda>_. False) () (Some ()) [] sample_prepare_state) = Inr [1]
   \<and> snd (llama_tokenize sample_chat (\<lambda>_. False) () (Some ()) []
        (fst (llama_prepare sample_chat (\<lambda>_. False) () (Some ()) audio_request sample_prepare_state)))
      = throw InvalidArgument ''chat_template must be a string''"
proof -
  have "owf (ct_options sample_prepare_state)" "\<not> jhas (ct_options sample_prepare_state) ''chat_template''"
    "\<not> jhas (ct_options sample_prepare_state) ''enable_thinking''" "ct_templates sample_prepare_state = None"
    "cl_to_utf8 sample_chat [] = []" "cl_embedded sample_chat () = Some [1]"
    by (simp_all add: sample_prepare_state_def sample_chat_def jhas_def ohas_def owf_def)
  from llama_chat_after_conversation [where cancelled = "\<lambda>_. False" and projector = "Some ()" and rq = audio_request
      and messages = "[]", OF this(1-4) _ refl _ this(5,6)]
  show ?thesis by (simp add: format_chat_def tokenize_bytes_def sample_chat_def resized_def)
qed

end
