(* ===== verification/Spec2Isabelle.thy ===== *)
theory Spec2Isabelle
  imports Scheduler Residency GenerationRules StopFilter ContextCache Sessions Runtimes Manifest Media ModelLeases ServiceRuns IpcProperties HttpProperties LlamaTranscript LlamaChatRules
begin

text \<open>
  A verification library for the local language model service \<^verbatim>\<open>iiLocalLLM\<close>: the C++
  code under \<^verbatim>\<open>src/src\<close>. File names below are relative to that directory.

  The program and its parts. A process holds one \<^verbatim>\<open>Service\<close>. Requests come from the
  library's callers, from a local socket (\<^verbatim>\<open>LocalIpcServer\<close>) or over HTTP
  (\<^verbatim>\<open>HttpApiServer\<close>); all become items of a bounded queue that one worker runs in order
  (\<^verbatim>\<open>Scheduler\<close>). An item asks the \<^verbatim>\<open>ModelManager\<close> for a lease on a
  model: the model is resolved through its manifest, loaded by a \<^verbatim>\<open>RuntimeManager\<close> on the
  first device that works, and idle models are evicted under a memory budget kept by the
  \<^verbatim>\<open>ModelResidencyManager\<close>. Prompts are trimmed by the \<^verbatim>\<open>PromptEngine\<close> from
  the sessions of the \<^verbatim>\<open>SessionManager\<close>, contexts are kept in a bounded cache, the text of
  a generation passes a stop-string filter, and structured conversations are validated on the way in and out.
  The llama.cpp runtime does the generation: it reuses the evaluated prefix of its context, samples
  token by token, and ends a single tool turn at its call.

  How code becomes definitions. Structures are records and enumerations datatypes with the names of the source.
  \<^verbatim>\<open>int\<close> and \<^verbatim>\<open>qint64\<close> are \<open>int\<close> with the overflow checks written
  out where the code has them, \<^verbatim>\<open>quint64\<close> is \<open>64 word\<close>, a double is an exact rational
  or \<open>NonFinite\<close>, a \<^verbatim>\<open>QString\<close> is a list of 16-bit units, bytes are 8-bit words, maps
  are association lists with distinct ordered keys. An exception is the left side of \<open>res\<close>. Code with
  effects is an action of \<open>Effects\<close>, a function from the state to a state and a result; a throw keeps
  the changes made before it. Threads appear as the interleaving of events. What is not in the repository is an
  argument: the native libraries, the file system, clocks, free memory, regular expressions, the
  printing and parsing of JSON, random identifiers; cancellation and clock readings are functions of the number of
  the check or reading. Hypotheses about such arguments are named definitions that state documented
  behaviour (\<open>memory_laws\<close>, \<open>rpc_unique\<close>), and the sample environments show they can hold.

  Foundations.
  \<open>Base\<close>: the prelude - strings, ordered maps, results, arithmetic. \<open>Effects\<close>: actions, their
  triples and what actions keep. \<open>Types\<close>: \<^verbatim>\<open>core/Types.h\<close>, \<^verbatim>\<open>core/Types.cpp\<close>.

  Policies and data.
  \<open>Scheduler\<close>: \<^verbatim>\<open>service/Scheduler.cpp\<close>; every submitted item is settled exactly once and a
  shutdown drains. \<open>Memory\<close>: \<^verbatim>\<open>hardware/Memory.cpp\<close>, \<^verbatim>\<open>runtimes/MemoryEstimate.h\<close>;
  overflow-checked sums, \<^verbatim>\<open>keep_alive\<close>. \<open>Hardware\<close>: \<^verbatim>\<open>hardware/Hardware.cpp\<close>,
  the Linux part of \<^verbatim>\<open>hardware/Platform.cpp\<close>; the device policy. \<open>Residency\<close>:
  \<^verbatim>\<open>service/ModelResidencyManager.cpp\<close>; the budget, and the victim of an eviction is the least recent idle
  model. \<open>Parameters\<close>, \<open>GenerationRules\<close>: \<^verbatim>\<open>core/Parameters.cpp\<close>; which values
  and options are accepted. \<open>Manifest\<close>: \<^verbatim>\<open>models/ModelManifest.cpp\<close>; round trip, and no
  path leaves the model's directory. \<open>Media\<close>: \<^verbatim>\<open>media/MediaContent.cpp\<close>; the normal form
  of content blocks.

  The service.
  \<open>StopFilter\<close>, \<open>ContextCache\<close>, \<open>Sessions\<close>, \<open>Runtimes\<close>: the classes of
  \<^verbatim>\<open>service/Managers.cpp\<close>; the filter's text is characterised independently of how it arrives in
  pieces, the cache stays within its limits, a prepared prompt fits, a load takes the first working device.
  \<open>Conversation\<close>: \<^verbatim>\<open>service/Conversation.cpp\<close>; tool calls are answered, a reply can be
  continued. \<open>ModelManager\<close>: \<^verbatim>\<open>service/ModelManager.cpp\<close>, with \<open>ModelRules\<close>
  (what each operation does to the tables, however it ends) and \<open>ModelLeases\<close> (agreement of the tables in
  every run, loads evict idle models only, leases bracket, maintenance ends). \<open>Service\<close>:
  \<^verbatim>\<open>service/Service.cpp\<close>, the job of each request, with \<open>ServiceRules\<close>, \<open>Requests\<close>
  (what one request leaves behind) and \<open>ServiceRuns\<close> (every sequence of requests).

  The servers.
  \<open>Ipc\<close>, \<open>IpcServer\<close>: \<^verbatim>\<open>service/LocalIpcServer.cpp\<close> as a server driven by events;
  \<open>IpcRules\<close>, \<open>IpcRuns\<close> (the ledger of answers), \<open>IpcLimits\<close>, \<open>IpcOwners\<close>
  (who cancels what), \<open>IpcChunks\<close> (framing does not depend on how the stream is cut),
  \<open>IpcProperties\<close>. \<open>Http\<close>, \<open>HttpServer\<close>: \<^verbatim>\<open>service/HttpApiServer.cpp\<close>;
  \<open>HttpRules\<close> (leases), \<open>HttpStreams\<close> (what a client receives, buffers and answers within the
  limits), \<open>HttpOwners\<close> (release and stop), \<open>HttpProperties\<close>.

  The llama.cpp runtime (\<^verbatim>\<open>runtimes/LlamaRuntime.cpp\<close> with \<^verbatim>\<open>ToolTurn.h\<close>,
  \<^verbatim>\<open>ToolTemplate.h\<close>, \<^verbatim>\<open>Utf8Stream.h\<close>).
  \<open>ToolTurn\<close>: where a text completes one call, and what the callback delivers. \<open>Llama\<close>: the context;
  \<open>LlamaRules\<close> (memory and history agree after every call), \<open>LlamaProperties\<close> (reuse leaves no trace; a
  tool turn is cut), \<open>LlamaTranscript\<close> (the tokens and the text of a generation). \<open>LlamaModel\<close>:
  devices, estimates, loads, embeddings. \<open>LlamaChat\<close>, \<open>LlamaChatRules\<close>: prepared and parsed
  conversations; media limits, splitting at markers, the options after a preparation.

  Interfaces. \<open>ordered_map\<close> (maps; interpreted on association lists), \<open>settling_queue\<close> (the
  scheduler), \<open>lease_table\<close> (interpreted by the residency policy and by the model manager),
  \<open>text_filter\<close> (the stop filter), \<open>context_store\<close> (the cache), \<open>kept_by_sending\<close> and
  \<open>kept_by_reading\<close> (what a property of a socket client must survive), \<open>exchange_step\<close> and
  \<open>holding_step\<close> (the operations on an HTTP exchange).

  Termination and bounds. No definition takes fuel. Recursions over data are structural; the evictions run while
  idle models remain and are measured by the loaded ones; batches of a prompt are measured by the tokens left, with
  at least one token a batch; sampling counts down the token limit; the repair of a template moves its offset
  forward and shortens the text. Servers do not terminate, they are step functions over events, and invariants are
  proved by induction on the runs. Limits (queue, budget, cache, buffers, media, tokens) are the options of the code.

  Not modelled. \<^verbatim>\<open>models/ModelCatalog.cpp\<close>, \<^verbatim>\<open>models/ModelDigest.h\<close>,
  \<^verbatim>\<open>models/ModelReadAhead.h\<close> (directory walks, hashing, staged copies, locks) and
  \<^verbatim>\<open>service/ModelRegistry.cpp\<close> (downloads): file system and network work, seen by the model
  manager as an environment. \<^verbatim>\<open>runtimes/MlxRuntime.cpp\<close>: an adapter over an external worker process.
  The Windows and macOS probes of \<^verbatim>\<open>hardware/Platform.cpp\<close> and the reading of free memory: system
  calls. \<^verbatim>\<open>core/iiLocalLLM.cpp\<close> and the programs under \<^verbatim>\<open>tools\<close>: a
  constant and command-line glue.
\<close>

end
